(* ===== verification/AclPrelude.thy ===== *)
theory AclPrelude
  imports Main "HOL-Library.Word"
begin

unbundle bit_operations_syntax

text \<open>
  Shared vocabulary of the development: the machine types of the modelled code, the operations
  of \<^verbatim>\<open>acl::string\<close> and of plain C strings that the protocol code relies on, the two
  copying loops that recur in every streaming parser of the library, and the lemma
  collections the component theories draw on.

  A buffer of \<^verbatim>\<open>char\<close> or \<^verbatim>\<open>unsigned char\<close> is a list of 8-bit words. Bytes that the
  code reads through a signed \<^verbatim>\<open>char\<close> and then masks are the same 8 bits; where the sign
  matters (the QoS byte of a SUBACK) the model uses \<^const>\<open>sint\<close>.
\<close>

section \<open>Machine types\<close>

type_synonym byte = "8 word"
type_synonym u16 = "16 word"
type_synonym u32 = "32 word"
type_synonym u64 = "64 word"

section \<open>Lemma collections\<close>

named_theorems codec_simps \<open>equations of the packing and unpacking primitives\<close>
named_theorems handler_defs \<open>definitions of the parser handlers\<close>

section \<open>Strings\<close>

text \<open>
  \<open>cstr\<close> is what a callee sees of a \<^verbatim>\<open>const char*\<close>: the bytes before the first NUL.
  \<open>string_add_char\<close> is \<^verbatim>\<open>string::operator+=(char)\<close> of a string that is not in binary mode:
  it formats the character with \<^verbatim>\<open>"%c"\<close> and moves the end of the string to the next NUL,
  so that adding a NUL byte leaves the string as it was.
\<close>

definition cstr :: "byte list \<Rightarrow> byte list" where
  "cstr s = takeWhile (\<lambda>c. c \<noteq> 0) s"

definition string_add_char :: "byte list \<Rightarrow> byte \<Rightarrow> byte list" where
  "string_add_char s c = (if c = 0 then s else s @ [c])"

definition no_nul :: "byte list \<Rightarrow> bool" where
  "no_nul s \<longleftrightarrow> 0 \<notin> set s"

lemma no_nul_Nil [simp]: "no_nul []"
  by (simp add: no_nul_def)

lemma no_nul_append [simp]: "no_nul (xs @ ys) \<longleftrightarrow> no_nul xs \<and> no_nul ys"
  by (auto simp: no_nul_def)

lemma filter_no_nul [simp]: "no_nul s \<Longrightarrow> filter (\<lambda>c. c \<noteq> 0) s = s"
  by (induction s) (auto simp: no_nul_def)

lemma cstr_no_nul [simp]: "no_nul (cstr s)"
  by (auto simp: cstr_def no_nul_def dest: set_takeWhileD)

lemma cstr_id [simp]: "no_nul s \<Longrightarrow> cstr s = s"
  by (auto simp: cstr_def no_nul_def takeWhile_eq_all_conv)

text \<open>The C function \<^verbatim>\<open>tolower\<close>.\<close>

definition to_lower :: "byte \<Rightarrow> byte" where
  "to_lower c = (if 65 \<le> c \<and> c \<le> 90 then c + 32 else c)"

text \<open>Equality by \<^verbatim>\<open>strcasecmp\<close>, in the C locale.\<close>

definition strcaseeq :: "byte list \<Rightarrow> byte list \<Rightarrow> bool" where
  "strcaseeq x y \<longleftrightarrow> map to_lower (cstr x) = map to_lower (cstr y)"

section \<open>The copying loops\<close>

text \<open>
  \<open>fill_buf max buf n data\<close> is the loop
  \<^verbatim>\<open>for (; n < max && dlen > 0;) { buf[n++] = *data++; dlen--; }\<close>
  that every handler with a fixed field uses to collect its bytes across calls: it returns the
  buffer, the new count and the data left.
\<close>

fun fill_buf :: "nat \<Rightarrow> byte list \<Rightarrow> nat \<Rightarrow> byte list \<Rightarrow> byte list \<times> nat \<times> byte list" where
  "fill_buf m buf n [] = (buf, n, [])"
| "fill_buf m buf n (c # data) =
     (if n < m then fill_buf m (buf[n := c]) (Suc n) data else (buf, n, c # data))"

text \<open>
  \<open>save_chars s n data\<close> is the loop
  \<^verbatim>\<open>for (; n > 0 && dlen > 0;) { s += *data++; --n; --dlen; }\<close>
  of the variable-length fields.
\<close>

fun save_chars :: "byte list \<Rightarrow> nat \<Rightarrow> byte list \<Rightarrow> byte list \<times> nat \<times> byte list" where
  "save_chars s n [] = (s, n, [])"
| "save_chars s 0 (c # data) = (s, 0, c # data)"
| "save_chars s (Suc n) (c # data) = save_chars (string_add_char s c) n data"

definition put_at :: "byte list \<Rightarrow> nat \<Rightarrow> byte list \<Rightarrow> byte list" where
  "put_at buf n xs = fold (\<lambda>(i, c) b. b[n + i := c]) (enumerate 0 xs) buf"

lemma length_put_at [simp]: "length (put_at buf n xs) = length buf"
proof -
  have "length (fold (\<lambda>(i, c) b. b[n + i := c]) ys buf) = length buf" for ys :: "(nat \<times> byte) list"
    by (induction ys arbitrary: buf) auto
  then show ?thesis by (simp add: put_at_def)
qed

lemma put_at_Nil [simp]: "put_at buf n [] = buf"
  by (simp add: put_at_def)

lemma fold_enumerate_Suc:
  "fold (\<lambda>(i, c) b. b[n + i := c]) (enumerate (Suc k) xs) buf =
   fold (\<lambda>(i, c) b. b[Suc n + i := c]) (enumerate k xs) buf"
  by (induction xs arbitrary: k buf) auto

lemma put_at_Cons: "put_at buf n (c # xs) = put_at (buf[n := c]) (Suc n) xs"
  using fold_enumerate_Suc [of n 0 xs "buf[n := c]"] by (simp add: put_at_def)

lemma put_at_append: "put_at buf n (xs @ ys) = put_at (put_at buf n xs) (n + length xs) ys"
  by (induction xs arbitrary: buf n) (auto simp: put_at_Cons)

lemma take_put_at:
  "n + length xs \<le> length buf \<Longrightarrow> take (n + length xs) (put_at buf n xs) = take n buf @ xs"
proof (induction xs arbitrary: buf n)
  case Nil
  then show ?case by simp
next
  case (Cons c xs)
  have "take (Suc n + length xs) (put_at (buf[n := c]) (Suc n) xs) = take (Suc n) (buf[n := c]) @ xs"
    using Cons.prems by (intro Cons.IH) simp
  moreover have "take (Suc n) (buf[n := c]) = take n buf @ [c]"
    using Cons.prems by (simp add: take_Suc_conv_app_nth)
  ultimately show ?case by (simp add: put_at_Cons)
qed

lemma put_at_all:
  assumes "take n buf = xs" "length buf = n + length ys" "length xs = n"
  shows "put_at buf n ys = xs @ ys"
  using take_put_at [of n ys buf] assms by (metis length_put_at order_refl take_all)

lemma fill_buf_full [simp]: "m \<le> n \<Longrightarrow> fill_buf m buf n data = (buf, n, data)"
  by (cases data) auto

lemma fill_buf_eq:
  "fill_buf m buf n data =
     (put_at buf n (take (m - n) data), n + min (m - n) (length data), drop (m - n) data)"
proof (induction m buf n data rule: fill_buf.induct)
  case (1 m buf n)
  then show ?case by simp
next
  case (2 m buf n c data)
  show ?case
  proof (cases "n < m")
    case True
    then have "m - n = Suc (m - Suc n)" by simp
    with True 2 show ?thesis by (simp add: put_at_Cons)
  next
    case False
    then show ?thesis by simp
  qed
qed

lemma fill_buf_count: "fill_buf m buf n d = (b, k, r) \<Longrightarrow> n \<le> k"
  by (auto simp: fill_buf_eq)

lemma save_chars_eq:
  "save_chars s n data =
     (s @ filter (\<lambda>c. c \<noteq> 0) (take n data), n - length data, drop n data)"
  by (induction s n data rule: save_chars.induct) (auto simp: string_add_char_def)

text \<open>
  Cutting the data of a copying loop: either the first part does not complete the field and
  the loop goes on where it stopped, or it does and the second part is not touched.
\<close>

lemma fill_buf_more:
  "n + length xs < m \<Longrightarrow>
   fill_buf m buf n (xs @ ys) = fill_buf m (put_at buf n xs) (n + length xs) ys"
  by (induction m buf n xs rule: fill_buf.induct) (auto simp: put_at_Cons)

lemma save_chars_more:
  "length xs < n \<Longrightarrow>
   save_chars s n (xs @ ys) = save_chars (s @ filter (\<lambda>c. c \<noteq> 0) xs) (n - length xs) ys"
  by (induction s n xs rule: save_chars.induct) (auto simp: string_add_char_def)

lemma fill_buf_cases [case_names pending completed]:
  obtains (pending) "n + length xs < m"
      "fill_buf m buf n xs = (put_at buf n xs, n + length xs, [])"
      "\<And>ys. fill_buf m buf n (xs @ ys) = fill_buf m (put_at buf n xs) (n + length xs) ys"
  | (completed) buf' n' rest where "fill_buf m buf n xs = (buf', n', rest)" "m \<le> n'" "n' = max m n"
      "length rest = length xs - (m - n)"
      "\<And>ys. fill_buf m buf n (xs @ ys) = (buf', n', rest @ ys)"
proof (cases "n + length xs < m")
  case True
  then show ?thesis by (intro pending [OF _ _ fill_buf_more]) (simp_all add: fill_buf_eq)
next
  case False
  then have "fill_buf m buf n (xs @ ys) = (put_at buf n (take (m - n) xs), max m n, drop (m - n) xs @ ys)"
    for ys by (auto simp: fill_buf_eq)
  from completed [OF _ _ _ _ this] this [of "[]"] show ?thesis by simp
qed

lemma save_chars_cases [case_names pending completed]:
  obtains (pending) "length xs < n"
      "save_chars s n xs = (s @ filter (\<lambda>c. c \<noteq> 0) xs, n - length xs, [])"
      "\<And>ys. save_chars s n (xs @ ys) = save_chars (s @ filter (\<lambda>c. c \<noteq> 0) xs) (n - length xs) ys"
  | (completed) s' rest where "n \<le> length xs" "save_chars s n xs = (s', 0, rest)"
      "s' = s @ filter (\<lambda>c. c \<noteq> 0) (take n xs)" "rest = drop n xs"
      "\<And>ys. save_chars s n (xs @ ys) = (s', 0, rest @ ys)"
proof (cases "length xs < n")
  case True
  then show ?thesis by (intro pending [OF _ _ save_chars_more]) (simp_all add: save_chars_eq)
next
  case False
  then show ?thesis using completed by (simp add: save_chars_eq)
qed

section \<open>Words\<close>

lemma unat_less_iff: "(a < b) = (unat a < unat b)"
  by (rule word_less_nat_alt)

lemma unat_le_iff: "(a \<le> b) = (unat a \<le> unat b)"
  by (rule word_le_nat_alt)

lemma word_eq_of_nat: "unat w = n \<Longrightarrow> w = word_of_nat n"
  by auto

lemma ucast_of_nat_short:
  "n < 65536 \<Longrightarrow> ucast (word_of_nat n :: u16) = (word_of_nat n :: u32)"
  by (rule word_eq_of_nat) (simp add: unsigned_ucast_eq unat_of_nat take_bit_nat_eq_self)

lemma and_0x7f_take: "(x::byte) AND 0x7f = take_bit 7 x"
  by (simp add: take_bit_eq_mask mask_eq_exp_minus_1)

lemma bit_imp_less:
  fixes d :: "'a::len word"
  assumes "unat d < 2 ^ k" "bit d n"
  shows "n < k"
proof -
  have "bit (unat d) n" using assms(2) by (simp add: bit_unsigned_iff bit_imp_le_length)
  moreover have "take_bit k (unat d) = unat d" using assms(1) by (simp add: take_bit_nat_eq_self)
  ultimately show ?thesis by (metis bit_take_bit_iff)
qed

lemma bit_0x80 [simp]: "bit (128::int) n \<longleftrightarrow> n = 7"
proof -
  have "(128::int) = push_bit 7 1" by simp
  then show ?thesis by (simp only: bit_simps) auto
qed

lemma bit_0x7f [simp]: "bit (127::int) n \<longleftrightarrow> n < 7"
proof -
  have "(127::int) = mask 7" by (simp add: mask_eq_exp_minus_1)
  then show ?thesis by (simp only: bit_simps) auto
qed

lemma bit_0x0f [simp]: "bit (15::int) n \<longleftrightarrow> n < 4"
proof -
  have "(15::int) = mask 4" by (simp add: mask_eq_exp_minus_1)
  then show ?thesis by (simp only: bit_simps) auto
qed

lemma bit_0xff [simp]: "bit (255::int) n \<longleftrightarrow> n < 8"
proof -
  have "(255::int) = mask 8" by (simp add: mask_eq_exp_minus_1)
  then show ?thesis by (simp only: bit_simps) auto
qed

lemma and_0xff [simp]: "(b::byte) AND 0xff = b"
  by (rule bit_word_eqI) (auto simp: bit_simps)

lemma and_0x80_eq_0: "(c::byte) AND 0x80 = 0 \<longleftrightarrow> \<not> bit c 7"
proof -
  have "bit (c AND 0x80) n \<longleftrightarrow> n = 7 \<and> bit c 7" for n
    by (auto simp: bit_simps)
  then show ?thesis using bit_eq_iff [of "c AND 0x80" 0] by auto
qed

lemma and_0x40_eq_0: "(c::byte) AND 0x40 = 0 \<longleftrightarrow> \<not> bit c 6"
  using and_exp_eq_0_iff_not_bit [of c 6] by simp

lemma and_0x04_eq_0: "(c::byte) AND 0x04 = 0 \<longleftrightarrow> \<not> bit c 2"
  using and_exp_eq_0_iff_not_bit [of c 2] by simp

lemma split_bits:
  "take_bit k d OR push_bit k (take_bit m (drop_bit k d)) = take_bit (k + m) (d::'a::len word)"
  by (rule bit_word_eqI; auto simp: bit_simps)

lemma take_bit_all: "unat d < 2 ^ k \<Longrightarrow> take_bit k d = (d::'a::len word)"
  by (rule bit_word_eqI) (auto simp: bit_simps dest: bit_imp_less [of _ k])

lemma word4_induct [case_names 0 1 2 3 4 5 6 7 8 9 10 11 12 13 14 15]: "P (0::4 word) \<Longrightarrow> P 1 \<Longrightarrow> P 2 \<Longrightarrow> P 3 \<Longrightarrow> P 4 \<Longrightarrow> P 5 \<Longrightarrow> P 6 \<Longrightarrow> P 7 \<Longrightarrow> P 8 \<Longrightarrow> P 9 \<Longrightarrow> P 10 \<Longrightarrow> P 11 \<Longrightarrow> P 12 \<Longrightarrow> P 13 \<Longrightarrow> P 14 \<Longrightarrow> P 15 \<Longrightarrow> P x"
proof -
  assume a: "P 0" "P 1" "P 2" "P 3" "P 4" "P 5" "P 6" "P 7" "P 8" "P 9" "P 10" "P 11" "P 12" "P 13" "P 14" "P 15"
  have "unat x \<in> {..<16}" using unsigned_less [of x, where 'a=nat] by simp
  moreover have "x = word_of_nat (unat x)" by simp
  ultimately obtain k where "x = word_of_nat k" "k \<in> {..<16}" by blast
  then show "P x" using a by (auto simp: lessThan_nat_numeral)
qed

section \<open>Bits of bytes\<close>

lemma byte_eqI: "(\<And>n. n \<in> {0, 1, 2, 3, 4, 5, 6, 7} \<Longrightarrow> bit v n = bit w n) \<Longrightarrow> (v::byte) = w"
proof (rule bit_word_eqI)
  fix n
  assume h: "\<And>n. n \<in> {0, 1, 2, 3, 4, 5, 6, 7} \<Longrightarrow> bit v n = bit w n" and "n < LENGTH(8)"
  then have "n = 0 \<or> n = 1 \<or> n = 2 \<or> n = 3 \<or> n = 4 \<or> n = 5 \<or> n = 6 \<or> n = 7" by simp linarith
  then show "bit v n = bit w n" using h by blast
qed

lemma byte_bits:
  "bit (push_bit m (w::byte)) n \<longleftrightarrow> n < 8 \<and> m \<le> n \<and> bit w (n - m)"
  "bit (drop_bit m w) n \<longleftrightarrow> bit w (m + n)"
  "bit (w AND v) n \<longleftrightarrow> bit w n \<and> bit v n"
  "bit (w OR v) n \<longleftrightarrow> bit w n \<or> bit v n"
  "bit (0x3::byte) n \<longleftrightarrow> n < 2" "bit (0xf::byte) n \<longleftrightarrow> n < 4" "bit (0x3f::byte) n \<longleftrightarrow> n < 6"
proof -
  have m: "(0x3::byte) = mask 2" "(0xf::byte) = mask 4" "(0x3f::byte) = mask 6" by (simp_all add: mask_eq_exp_minus_1)
  show "bit (0x3::byte) n \<longleftrightarrow> n < 2" "bit (0xf::byte) n \<longleftrightarrow> n < 4" "bit (0x3f::byte) n \<longleftrightarrow> n < 6"
    unfolding m bit_mask_iff by auto
qed (auto simp: bit_push_bit_iff bit_drop_bit_eq bit_and_iff bit_or_iff)

lemma byte_high: "8 \<le> n \<Longrightarrow> \<not> bit (w::byte) n"
  using bit_imp_le_length [of w n] by auto

lemma byte_all:
  assumes "list_all P (map word_of_int [0..255])"
  shows "P (c :: byte)"
proof -
  have "c = word_of_int (uint c)" "uint c \<in> {0..255}" using uint_bounded [of c] by auto
  then have "c \<in> set (map word_of_int [0..255])" by (metis image_eqI set_map set_upto)
  with assms show ?thesis by (simp only: list_all_iff)
qed

end
