(* ===== verification/Streaming.thy ===== *)
theory Streaming
  imports AclPrelude
begin

text \<open>
  Every parser of the MQTT code is driven in the same way: the caller hands over whatever bytes
  have arrived, the parser consumes what it can, keeps its position in its own fields and
  answers how many bytes are left, or -1. This theory holds the shape of such a step, the
  \<^verbatim>\<open>while (dlen > 0 && !finished_)\<close> loop of the \<^verbatim>\<open>update\<close> methods, and the contract of
  the handlers as locales: a parser that meets it gives the same result for every way of
  cutting the input into pieces, and one that also makes progress always returns.
\<close>

section \<open>Outcome of a handler, and the update loop\<close>

text \<open>
  \<open>Ret s rest\<close>: the handler returned \<open>length rest\<close>, the number of bytes not consumed,
  and left the object in state \<open>s\<close>. \<open>Fail s\<close>: it returned -1. \<open>Abort\<close>: an
  \<^verbatim>\<open>assert\<close> of the handler failed.
\<close>

datatype 's hres = Abort | Fail 's | Ret 's "byte list"

text \<open>
  The loop \<^verbatim>\<open>while (dlen > 0 && !finished_) { int ret = handler(data, dlen); if (ret < 0)
  return -1; data += dlen - ret; dlen = ret; } return dlen;\<close>. Nothing in the loop itself
  makes it end, so \<^const>\<open>None\<close> stands for a call that does not return.
\<close>

partial_function (option) update_loop ::
  "('s \<Rightarrow> bool) \<Rightarrow> ('s \<Rightarrow> byte list \<Rightarrow> 's hres) \<Rightarrow> 's \<Rightarrow> byte list \<Rightarrow> 's hres option" where
  "update_loop fin h s data =
     (if data = [] \<or> fin s then Some (Ret s data)
      else (case h s data of
              Abort \<Rightarrow> Some Abort
            | Fail s' \<Rightarrow> Some (Fail s')
            | Ret s' rest \<Rightarrow> update_loop fin h s' rest))"

lemma update_loop_stop [simp]: "data = [] \<or> fin s \<Longrightarrow> update_loop fin h s data = Some (Ret s data)"
  by (subst update_loop.simps) simp

lemma update_loop_step:
  "data \<noteq> [] \<Longrightarrow> \<not> fin s \<Longrightarrow> h s data = Ret s' rest \<Longrightarrow>
   update_loop fin h s data = update_loop fin h s' rest"
  by (subst update_loop.simps) simp

lemma update_loop_failed:
  "data \<noteq> [] \<Longrightarrow> \<not> fin s \<Longrightarrow> h s data = Fail s' \<Longrightarrow> update_loop fin h s data = Some (Fail s')"
  by (subst update_loop.simps) simp

lemma update_loop_aborted:
  "data \<noteq> [] \<Longrightarrow> \<not> fin s \<Longrightarrow> h s data = Abort \<Longrightarrow> update_loop fin h s data = Some Abort"
  by (subst update_loop.simps) simp

text \<open>Induction over a run of the loop that returns.\<close>

lemma update_loop_induct [consumes 1, case_names stop aborted failed step]:
  assumes ret: "update_loop fin h s data = Some r"
    and stop: "\<And>s data. data = [] \<or> fin s \<Longrightarrow> P s data (Ret s data)"
    and aborted: "\<And>s data. data \<noteq> [] \<Longrightarrow> \<not> fin s \<Longrightarrow> h s data = Abort \<Longrightarrow> P s data Abort"
    and failed: "\<And>s data s'. data \<noteq> [] \<Longrightarrow> \<not> fin s \<Longrightarrow> h s data = Fail s' \<Longrightarrow> P s data (Fail s')"
    and step: "\<And>s data s' rest r. data \<noteq> [] \<Longrightarrow> \<not> fin s \<Longrightarrow> h s data = Ret s' rest \<Longrightarrow>
      update_loop fin h s' rest = Some r \<Longrightarrow> P s' rest r \<Longrightarrow> P s data r"
  shows "P s data r"
proof -
  let ?Q = "\<lambda>fin' h' s data r. fin' = fin \<longrightarrow> h' = h \<longrightarrow> update_loop fin h s data = Some r \<and> P s data r"
  have "?Q fin h s data r"
  proof (rule update_loop.raw_induct [of ?Q, OF _ ret])
    fix f fin' h' s data r
    assume IH: "\<And>fin' h' s data r. f fin' h' s data = Some r \<Longrightarrow> ?Q fin' h' s data r"
      and eq: "(if data = [] \<or> fin' s then Some (Ret s data)
         else case h' s data of Abort \<Rightarrow> Some Abort | Fail x \<Rightarrow> Some (Fail x)
              | Ret x y \<Rightarrow> f fin' h' x y) = Some r"
    show "?Q fin' h' s data r"
    proof (intro impI)
      assume "fin' = fin" "h' = h"
      have eq: "(if data = [] \<or> fin s then Some (Ret s data)
         else case h s data of Abort \<Rightarrow> Some Abort | Fail x \<Rightarrow> Some (Fail x)
              | Ret x y \<Rightarrow> f fin h x y) = Some r"
        using eq unfolding \<open>fin' = fin\<close> \<open>h' = h\<close> .
      consider (stop) "data = [] \<or> fin s" | (aborted) "data \<noteq> []" "\<not> fin s" "h s data = Abort"
        | (failed) s' where "data \<noteq> []" "\<not> fin s" "h s data = Fail s'"
        | (step) s' rest where "data \<noteq> []" "\<not> fin s" "h s data = Ret s' rest"
        by (cases "h s data") auto
      then show "update_loop fin h s data = Some r \<and> P s data r"
      proof cases
        case step
        with eq have "f fin h s' rest = Some r" by simp
        from IH [OF this] have "update_loop fin h s' rest = Some r" "P s' rest r" by auto
        with step show ?thesis by (auto simp: update_loop_step intro: assms(5))
      next
        case stop
        with eq show ?thesis by (auto intro: assms(2))
      next
        case aborted
        with eq show ?thesis by (auto simp: update_loop_aborted intro: assms(3))
      next
        case failed
        with eq show ?thesis by (auto simp: update_loop_failed intro: assms(4))
      qed
    qed
  qed
  then show ?thesis by simp
qed

text \<open>A state from which every handler call comes back to the same configuration is a hang.\<close>

lemma update_loop_stuck:
  assumes stuck: "h s data = Ret s data" and "data \<noteq> []" "\<not> fin s"
  shows "update_loop fin h s data = None"
proof (rule ccontr)
  assume "update_loop fin h s data \<noteq> None"
  then obtain r where r: "update_loop fin h s data = Some r" by auto
  then have "(s, data) \<noteq> (s, data)"
  proof (induction s \<equiv> s data \<equiv> data r rule: update_loop_induct)
    case (step s' rest r)
    with stuck show ?case by auto
  qed (use assms in auto)
  then show False by simp
qed

section \<open>The contract of the handlers\<close>

text \<open>
  \<open>cut_ok\<close>: what a handler does to a prefix of the data determines what it does to the
  whole. Either it was done before the prefix ended (then more data stays untouched), or it
  used the prefix up and goes on with the rest as if nothing had been cut.
\<close>

definition cut_ok :: "('s \<Rightarrow> bool) \<Rightarrow> ('s \<Rightarrow> byte list \<Rightarrow> 's hres) \<Rightarrow> 's \<Rightarrow> byte list \<Rightarrow> bool" where
  "cut_ok fin step s xs \<longleftrightarrow> (\<forall>ys. ys \<noteq> [] \<longrightarrow>
     (case step s xs of
        Abort \<Rightarrow> step s (xs @ ys) = Abort
      | Fail s' \<Rightarrow> step s (xs @ ys) = Fail s'
      | Ret s' rest \<Rightarrow> step s (xs @ ys) = Ret s' (rest @ ys) \<or>
                       rest = [] \<and> \<not> fin s' \<and> step s (xs @ ys) = step s' ys))"

lemma cut_ok_done:
  "step s xs = Ret s' rest \<Longrightarrow> (\<And>ys. ys \<noteq> [] \<Longrightarrow> step s (xs @ ys) = Ret s' (rest @ ys)) \<Longrightarrow>
   cut_ok fin step s xs"
  by (simp add: cut_ok_def)

lemma cut_ok_pending:
  "step s xs = Ret s' [] \<Longrightarrow> \<not> fin s' \<Longrightarrow> (\<And>ys. ys \<noteq> [] \<Longrightarrow> step s (xs @ ys) = step s' ys) \<Longrightarrow>
   cut_ok fin step s xs"
  by (simp add: cut_ok_def)

lemma cut_ok_fail:
  "step s xs = Fail s' \<Longrightarrow> (\<And>ys. ys \<noteq> [] \<Longrightarrow> step s (xs @ ys) = Fail s') \<Longrightarrow> cut_ok fin step s xs"
  by (simp add: cut_ok_def)

lemma cut_ok_abort:
  "step s xs = Abort \<Longrightarrow> (\<And>ys. ys \<noteq> [] \<Longrightarrow> step s (xs @ ys) = Abort) \<Longrightarrow> cut_ok fin step s xs"
  by (simp add: cut_ok_def)

locale incremental =
  fixes fin :: "'s \<Rightarrow> bool"
    and step :: "'s \<Rightarrow> byte list \<Rightarrow> 's hres"
    and inv :: "'s \<Rightarrow> bool"
  assumes inv_step:
      "inv s \<Longrightarrow> \<not> fin s \<Longrightarrow> xs \<noteq> [] \<Longrightarrow> step s xs = Ret s' rest \<Longrightarrow> inv s'"
    and step_cut: "inv s \<Longrightarrow> \<not> fin s \<Longrightarrow> xs \<noteq> [] \<Longrightarrow> cut_ok fin step s xs"
begin

lemma step_more:
  assumes "inv s" "\<not> fin s" "xs \<noteq> []" "ys \<noteq> []"
  shows "case step s xs of
           Abort \<Rightarrow> step s (xs @ ys) = Abort
         | Fail s' \<Rightarrow> step s (xs @ ys) = Fail s'
         | Ret s' rest \<Rightarrow> step s (xs @ ys) = Ret s' (rest @ ys) \<or>
                          rest = [] \<and> \<not> fin s' \<and> step s (xs @ ys) = step s' ys"
  using step_cut [OF assms(1-3)] assms(4) by (simp add: cut_ok_def)

lemma inv_update:
  assumes "update_loop fin step s xs = Some (Ret s' rest)" and "inv s"
  shows "inv s'"
proof -
  have "inv s \<longrightarrow> (case r of Ret s' rest \<Rightarrow> inv s' | _ \<Rightarrow> True)"
    if "update_loop fin step s xs = Some r" for r
    using that
  proof (induction rule: update_loop_induct)
    case (step s data s' rest r)
    then show ?case using inv_step by blast
  qed auto
  with assms show ?thesis by fastforce
qed

text \<open>Bytes are left over only when the parser is done.\<close>

lemma rest_finished:
  assumes "update_loop fin step s xs = Some (Ret s' rest)" and "rest \<noteq> []"
  shows "fin s'"
proof -
  have "case r of Ret s' rest \<Rightarrow> rest \<noteq> [] \<longrightarrow> fin s' | _ \<Rightarrow> True"
    if "update_loop fin step s xs = Some r" for r
    using that by (induction rule: update_loop_induct) auto
  with assms show ?thesis by fastforce
qed

text \<open>If the loop returns for some data, it returns for every first part of it.\<close>

lemma update_prefix_returns:
  assumes "update_loop fin step s zs = Some r" and "zs = xs @ ys" and "inv s"
  shows "update_loop fin step s xs \<noteq> None"
  using assms
proof (induction arbitrary: xs rule: update_loop_induct)
  case (stop s data)
  then show ?case by auto
next
  case (aborted s data)
  then show ?case
    using step_more [of s xs ys]
    by (cases "xs = [] \<or> ys = []"; cases "step s xs")
      (auto simp: update_loop_aborted update_loop_failed update_loop_step)
next
  case (failed s data s')
  then show ?case
    using step_more [of s xs ys]
    by (cases "xs = [] \<or> ys = []"; cases "step s xs")
      (auto simp: update_loop_aborted update_loop_failed update_loop_step)
next
  case (step s data s' rest r)
  show ?case
  proof (cases "xs = [] \<or> ys = []")
    case True
    with step show ?thesis by (auto simp: update_loop_step)
  next
    case False
    have "inv s'" using inv_step [OF step.prems(2) step.hyps(2,1,3)] .
    show ?thesis
    proof (cases "step s xs")
      case (Ret t u)
      with False step.prems step.hyps step_more [of s xs ys]
      consider "s' = t" "rest = u @ ys" | "u = []" by auto
      then show ?thesis
        using step.IH [of u] \<open>inv s'\<close> Ret False step.hyps by cases (auto simp: update_loop_step)
    qed (use False step.hyps in \<open>auto simp: update_loop_aborted update_loop_failed\<close>)
  qed
qed

text \<open>The main fact: a call with more data is the call with the first part, then the rest.\<close>

lemma update_append_all:
  assumes "update_loop fin step s xs = Some r" and "inv s"
  shows "update_loop fin step s (xs @ ys) =
    (case r of Abort \<Rightarrow> Some Abort | Fail s' \<Rightarrow> Some (Fail s')
     | Ret s' rest \<Rightarrow> update_loop fin step s' (rest @ ys))"
  using assms
proof (induction rule: update_loop_induct)
  case (stop s data)
  then show ?case by auto
next
  case (aborted s data)
  then show ?case using step_more [of s data ys] by (cases "ys = []") (auto simp: update_loop_aborted)
next
  case (failed s data s')
  then show ?case using step_more [of s data ys] by (cases "ys = []") (auto simp: update_loop_failed)
next
  case (step s data s' rest r)
  then have "inv s'" using inv_step by blast
  have split: "update_loop fin step s (data @ ys) = update_loop fin step s' (rest @ ys)"
  proof (cases "ys = []")
    case True
    with step show ?thesis by (simp add: update_loop_step)
  next
    case False
    with step step_more [of s data ys]
    consider "step s (data @ ys) = Ret s' (rest @ ys)"
      | "rest = []" "\<not> fin s'" "step s (data @ ys) = step s' ys" by auto
    then show ?thesis
    proof cases
      case 1
      with step show ?thesis by (simp add: update_loop_step)
    next
      case 2
      have "update_loop fin step s (data @ ys) =
          (case step s (data @ ys) of Abort \<Rightarrow> Some Abort | Fail x \<Rightarrow> Some (Fail x)
           | Ret x y \<Rightarrow> update_loop fin step x y)"
        using step by (subst update_loop.simps) simp
      also have "\<dots> = update_loop fin step s' ys"
        using 2 False by (subst (2) update_loop.simps) simp
      finally show ?thesis using 2 by simp
    qed
  qed
  with step \<open>inv s'\<close> show ?case by simp
qed

end

section \<open>Cutting the input into pieces\<close>

text \<open>
  \<open>update_call\<close> is an \<^verbatim>\<open>update\<close> method: it refuses an empty buffer and runs the loop.
  \<open>feed\<close> hands a parser one buffer after another, as the clients do: it stops at the first
  error and when the parser is done, and then returns what was not consumed.
\<close>

definition update_call ::
  "('s \<Rightarrow> bool) \<Rightarrow> ('s \<Rightarrow> byte list \<Rightarrow> 's hres) \<Rightarrow> 's \<Rightarrow> byte list \<Rightarrow> 's hres option" where
  "update_call fin h s data = (if data = [] then Some (Fail s) else update_loop fin h s data)"

fun feed ::
  "('s \<Rightarrow> bool) \<Rightarrow> ('s \<Rightarrow> byte list \<Rightarrow> 's hres option) \<Rightarrow> 's \<Rightarrow> byte list list \<Rightarrow> 's hres option" where
  "feed fin upd s [] = Some (Ret s [])"
| "feed fin upd s (c # cs) =
     (if fin s then Some (Ret s (concat (c # cs)))
      else (case upd s c of
              Some (Ret s' rest) \<Rightarrow>
                (if rest = [] then feed fin upd s' cs else Some (Ret s' (rest @ concat cs)))
            | r \<Rightarrow> r))"

text \<open>
  The contract at the level of the \<^verbatim>\<open>update\<close> methods. It is what a client of a parser may
  rely on, and it holds for a type of messages whose classes are parsed by different handlers
  as soon as it holds for each.
\<close>

locale chunked =
  fixes fin :: "'s \<Rightarrow> bool"
    and upd :: "'s \<Rightarrow> byte list \<Rightarrow> 's hres option"
    and inv :: "'s \<Rightarrow> bool"
  assumes upd_inv:
      "inv s \<Longrightarrow> \<not> fin s \<Longrightarrow> xs \<noteq> [] \<Longrightarrow> upd s xs = Some (Ret s' rest) \<Longrightarrow> inv s'"
    and upd_rest:
      "inv s \<Longrightarrow> \<not> fin s \<Longrightarrow> xs \<noteq> [] \<Longrightarrow> upd s xs = Some (Ret s' rest) \<Longrightarrow> rest \<noteq> [] \<Longrightarrow> fin s'"
    and upd_more:
      "inv s \<Longrightarrow> \<not> fin s \<Longrightarrow> xs \<noteq> [] \<Longrightarrow> ys \<noteq> [] \<Longrightarrow> upd s xs = Some (Ret s' rest) \<Longrightarrow>
       upd s (xs @ ys) = (if fin s' then Some (Ret s' (rest @ ys)) else upd s' ys)"
    and upd_fail:
      "inv s \<Longrightarrow> \<not> fin s \<Longrightarrow> xs \<noteq> [] \<Longrightarrow> upd s xs = Some (Fail s') \<Longrightarrow>
       upd s (xs @ ys) = Some (Fail s')"
    and upd_abort:
      "inv s \<Longrightarrow> \<not> fin s \<Longrightarrow> xs \<noteq> [] \<Longrightarrow> upd s xs = Some Abort \<Longrightarrow> upd s (xs @ ys) = Some Abort"
    and upd_prefix:
      "inv s \<Longrightarrow> \<not> fin s \<Longrightarrow> xs \<noteq> [] \<Longrightarrow> upd s xs = None \<Longrightarrow> upd s (xs @ ys) = None"
begin

text \<open>Feeding the pieces is feeding them joined.\<close>

lemma feed_concat:
  assumes "inv s" "[] \<notin> set cs" "cs \<noteq> []"
  shows "feed fin upd s cs = feed fin upd s [concat cs]"
  using assms
proof (induction cs arbitrary: s)
  case Nil
  then show ?case by simp
next
  case (Cons c cs)
  show ?case
  proof (cases "cs = [] \<or> fin s")
    case True
    then show ?thesis by (auto split: option.splits hres.splits)
  next
    case False
    then have nf: "\<not> fin s" and cs: "cs \<noteq> []" by auto
    have ccs: "concat cs \<noteq> []" using Cons.prems(2) cs by (cases cs) auto
    have c: "c \<noteq> []" using Cons.prems(2) by auto
    show ?thesis
    proof (cases "upd s c")
      case None
      with nf c show ?thesis using upd_prefix [OF Cons.prems(1) nf c] by simp
    next
      case (Some r)
      show ?thesis
      proof (cases r)
        case Abort
        with Some nf c show ?thesis using upd_abort [OF Cons.prems(1) nf c] by simp
      next
        case (Fail s')
        with Some nf c show ?thesis using upd_fail [OF Cons.prems(1) nf c] by simp
      next
        case (Ret s' rest)
        with Some have u: "upd s c = Some (Ret s' rest)" by simp
        note more = upd_more [OF Cons.prems(1) nf c ccs u]
        show ?thesis
        proof (cases "fin s'")
          case True
          with nf u more cs ccs show ?thesis by (cases cs) auto
        next
          case False
          then have "rest = []" using upd_rest [OF Cons.prems(1) nf c u] by auto
          moreover have "inv s'" using upd_inv [OF Cons.prems(1) nf c u] .
          ultimately show ?thesis
            using Cons.IH [of s'] Cons.prems(2) cs ccs nf u more False by simp
        qed
      qed
    qed
  qed
qed

end

sublocale incremental \<subseteq> chunked fin "update_call fin step" inv
proof
  fix s s' and xs rest ys :: "byte list"
  assume s: "inv s" "\<not> fin s" and xs: "xs \<noteq> []"
  note app = update_append_all [of s xs _ ys, OF _ s(1)]
  show "inv s'" if "update_call fin step s xs = Some (Ret s' rest)"
    using that inv_update [of s xs s' rest] s xs by (simp add: update_call_def)
  show "fin s'" if "update_call fin step s xs = Some (Ret s' rest)" "rest \<noteq> []"
    using that rest_finished [of s xs s' rest] xs by (simp add: update_call_def)
  show "update_call fin step s (xs @ ys) =
      (if fin s' then Some (Ret s' (rest @ ys)) else update_call fin step s' ys)"
    if "ys \<noteq> []" "update_call fin step s xs = Some (Ret s' rest)"
    using that rest_finished [of s xs s' rest] app [of "Ret s' rest"] xs
    by (cases "rest = []") (auto simp: update_call_def)
  show "update_call fin step s (xs @ ys) = Some (Fail s')"
    if "update_call fin step s xs = Some (Fail s')"
    using that app [of "Fail s'"] xs by (simp add: update_call_def)
  show "update_call fin step s (xs @ ys) = Some Abort"
    if "update_call fin step s xs = Some Abort"
    using that app [of Abort] xs by (simp add: update_call_def)
  show "update_call fin step s (xs @ ys) = None" if "update_call fin step s xs = None"
    using that update_prefix_returns [of s "xs @ ys" _ xs ys] s xs
    by (cases "update_loop fin step s (xs @ ys)") (auto simp: update_call_def)
qed

section \<open>Progress\<close>

text \<open>
  A handler that either consumes a byte or moves on to a state of lower rank cannot keep the
  loop going for ever.
\<close>

locale progressing = incremental fin step inv
  for fin :: "'s \<Rightarrow> bool" and step :: "'s \<Rightarrow> byte list \<Rightarrow> 's hres" and inv :: "'s \<Rightarrow> bool" +
  fixes rank :: "'s \<Rightarrow> nat"
  assumes step_progress:
    "inv s \<Longrightarrow> \<not> fin s \<Longrightarrow> xs \<noteq> [] \<Longrightarrow> step s xs = Ret s' rest \<Longrightarrow>
     length rest < length xs \<or> length rest = length xs \<and> rank s' < rank s"
begin

lemma update_returns: "inv s \<Longrightarrow> \<exists>r. update_loop fin step s xs = Some r"
proof (induction "(s, xs)" arbitrary: s xs
    rule: wf_induct_rule [OF wf_measures [of "[\<lambda>(s, xs). length xs, \<lambda>(s, xs). rank s]"]])
  case 1
  show ?case
  proof (cases "xs = [] \<or> fin s")
    case True
    then show ?thesis by auto
  next
    case False
    show ?thesis
    proof (cases "step s xs")
      case (Ret s' rest)
      then have "inv s'" using inv_step 1 False by blast
      moreover have "length rest < length xs \<or> length rest = length xs \<and> rank s' < rank s"
        using step_progress 1 False Ret by blast
      ultimately show ?thesis
        using 1(1) [of s' rest] Ret False by (auto simp: update_loop_step)
    qed (use False in \<open>auto simp: update_loop_aborted update_loop_failed\<close>)
  qed
qed

lemma update_call_returns: "inv s \<Longrightarrow> \<exists>r. update_call fin step s xs = Some r"
  using update_returns by (simp add: update_call_def)

lemma feed_returns: "inv s \<Longrightarrow> [] \<notin> set cs \<Longrightarrow> \<exists>r. feed fin (update_call fin step) s cs = Some r"
proof (induction cs arbitrary: s)
  case Nil
  then show ?case by simp
next
  case (Cons c cs)
  show ?case
  proof (cases "fin s")
    case True
    then show ?thesis by simp
  next
    case False
    obtain r where r: "update_call fin step s c = Some r"
      using update_call_returns Cons.prems by blast
    with False Cons show ?thesis
      using upd_inv [of s c] by (cases r) auto
  qed
qed

text \<open>The result of feeding does not depend on how the bytes were cut.\<close>

lemma feed_chunks:
  assumes "inv s" "[] \<notin> set cs" "cs \<noteq> []"
  shows "feed fin (update_call fin step) s cs = feed fin (update_call fin step) s [concat cs]"
  by (rule feed_concat [OF assms])

end

section \<open>Sessions\<close>

text \<open>
  A connection goes on after a message is complete. Its handler takes a non-empty buffer, deals
  with at most one message and answers what is left; the read callback calls it until nothing
  is left. The contract says the same as that of the parsers, without a final state.
\<close>

partial_function (option) run ::
  "('s \<Rightarrow> byte list \<Rightarrow> 's hres option) \<Rightarrow> 's \<Rightarrow> byte list \<Rightarrow> 's hres option" where
  "run h s data =
     (case h s data of
        None \<Rightarrow> None
      | Some Abort \<Rightarrow> Some Abort
      | Some (Fail s') \<Rightarrow> Some (Fail s')
      | Some (Ret s' rest) \<Rightarrow> if rest = [] then Some (Ret s' []) else run h s' rest)"

fun deliver ::
  "('s \<Rightarrow> byte list \<Rightarrow> 's hres option) \<Rightarrow> 's \<Rightarrow> byte list list \<Rightarrow> 's hres option" where
  "deliver f s [] = Some (Ret s [])"
| "deliver f s (c # cs) =
     (case f s c of Some (Ret s' rest) \<Rightarrow> deliver f s' cs | r \<Rightarrow> r)"

lemma run_induct [consumes 1, case_names aborted failed finished step]:
  assumes ret: "run h s data = Some r"
    and aborted: "\<And>s data. h s data = Some Abort \<Longrightarrow> P s data Abort"
    and failed: "\<And>s data s'. h s data = Some (Fail s') \<Longrightarrow> P s data (Fail s')"
    and finished: "\<And>s data s'. h s data = Some (Ret s' []) \<Longrightarrow> P s data (Ret s' [])"
    and step: "\<And>s data s' rest r. h s data = Some (Ret s' rest) \<Longrightarrow> rest \<noteq> [] \<Longrightarrow>
      run h s' rest = Some r \<Longrightarrow> P s' rest r \<Longrightarrow> P s data r"
  shows "P s data r"
proof -
  let ?Q = "\<lambda>h' s data r. h' = h \<longrightarrow> run h s data = Some r \<and> P s data r"
  have "?Q h s data r"
  proof (rule run.raw_induct [of ?Q, OF _ ret])
    fix f h' s data r
    assume IH: "\<And>h' s data r. f h' s data = Some r \<Longrightarrow> ?Q h' s data r"
      and eq: "(case h' s data of None \<Rightarrow> None | Some Abort \<Rightarrow> Some Abort | Some (Fail x) \<Rightarrow> Some (Fail x)
         | Some (Ret x y) \<Rightarrow> if y = [] then Some (Ret x []) else f h' x y) = Some r"
    show "?Q h' s data r"
    proof
      assume h': "h' = h"
      from eq show "run h s data = Some r \<and> P s data r"
        unfolding h'
        using IH [of h]
        by (subst run.simps) (auto split: option.splits hres.splits if_splits
            intro: aborted failed finished dest: step)
    qed
  qed
  then show ?thesis by simp
qed

lemma run_rest:
  assumes "run h s xs = Some (Ret s' rest)"
  shows "rest = []"
proof -
  have "case r of Ret s' rest \<Rightarrow> rest = [] | _ \<Rightarrow> True" if "run h s xs = Some r" for r
    using that by (induction rule: run_induct) auto
  with assms show ?thesis by fastforce
qed

text \<open>
  \<open>good s xs\<close> restricts the bytes that may still come in state \<open>s\<close> (a bound on their number,
  for a client whose counters have a fixed width).
\<close>

locale session =
  fixes h :: "'s \<Rightarrow> byte list \<Rightarrow> 's hres option"
    and inv :: "'s \<Rightarrow> bool"
    and good :: "'s \<Rightarrow> byte list \<Rightarrow> bool"
  assumes h_cut: "inv s \<Longrightarrow> xs \<noteq> [] \<Longrightarrow> ys \<noteq> [] \<Longrightarrow> good s (xs @ ys) \<Longrightarrow>
     (case h s xs of
        None \<Rightarrow> h s (xs @ ys) = None
      | Some Abort \<Rightarrow> h s (xs @ ys) = Some Abort
      | Some (Fail s') \<Rightarrow> h s (xs @ ys) = Some (Fail s')
      | Some (Ret s' rest) \<Rightarrow> inv s' \<and> good s' (rest @ ys) \<and>
          (h s (xs @ ys) = Some (Ret s' (rest @ ys)) \<or> rest = [] \<and> h s (xs @ ys) = h s' ys))"
begin

lemma run_append:
  assumes "run h s xs = Some r" "inv s" "xs \<noteq> []" "ys \<noteq> []" "good s (xs @ ys)"
  shows "run h s (xs @ ys) =
    (case r of Abort \<Rightarrow> Some Abort | Fail s' \<Rightarrow> Some (Fail s') | Ret s' rest \<Rightarrow> run h s' ys) \<and>
    (case r of Ret s' rest \<Rightarrow> inv s' \<and> good s' ys | _ \<Rightarrow> True)"
  using assms
proof (induction rule: run_induct)
  case (aborted s data)
  with h_cut [of s data ys] show ?case by (subst run.simps) simp
next
  case (failed s data s')
  with h_cut [of s data ys] show ?case by (subst run.simps) simp
next
  case (finished s data s')
  with h_cut [of s data ys]
  consider "inv s'" "good s' ys" "h s (data @ ys) = Some (Ret s' ys)"
    | "inv s'" "good s' ys" "h s (data @ ys) = h s' ys" by auto
  then show ?case
  proof cases
    case 1
    with finished show ?thesis by (subst run.simps) simp
  next
    case 2
    then have "run h s (data @ ys) = run h s' ys" by (subst run.simps, subst (2) run.simps) simp
    with 2 show ?thesis by simp
  qed
next
  case (step s data s' rest r)
  with h_cut [of s data ys]
  have "inv s'" "good s' (rest @ ys)" "h s (data @ ys) = Some (Ret s' (rest @ ys))" by auto
  with step show ?case by (subst run.simps) simp
qed

lemma run_prefix:
  assumes "run h s zs = Some r" "zs = xs @ ys" "inv s" "xs \<noteq> []" "good s zs"
  shows "run h s xs \<noteq> None"
  using assms
proof (induction arbitrary: xs rule: run_induct)
  case (step s data s' rest r)
  show ?case
  proof (cases "ys = []")
    case True
    with step show ?thesis by (subst run.simps) simp
  next
    case False
    have "good s (xs @ ys)" using step.prems by simp
    note cut = h_cut [OF step.prems(2,3) False this]
    show ?thesis
    proof (cases "h s xs")
      case None
      with cut step show ?thesis by simp
    next
      case (Some q)
      then show ?thesis
        using cut step by (cases q; subst run.simps) auto
    qed
  qed
next
  case (aborted s data)
  then show ?case
    using h_cut [of s xs ys]
    by (cases "ys = []"; cases "h s xs"; subst run.simps) (auto split: hres.splits)
next
  case (failed s data s')
  then show ?case
    using h_cut [of s xs ys]
    by (cases "ys = []"; cases "h s xs"; subst run.simps) (auto split: hres.splits)
next
  case (finished s data s')
  then show ?case
    using h_cut [of s xs ys]
    by (cases "ys = []"; cases "h s xs"; subst run.simps) (auto split: hres.splits)
qed

text \<open>However the bytes arrive, the session ends up in the same state.\<close>

lemma deliver_chunks:
  assumes "inv s" "good s (concat cs)" "[] \<notin> set cs" "cs \<noteq> []"
  shows "deliver (run h) s cs = run h s (concat cs)"
  using assms
proof (induction cs arbitrary: s)
  case Nil
  then show ?case by simp
next
  case (Cons c cs)
  show ?case
  proof (cases "cs = []")
    case True
    then show ?thesis using run_rest [of h s c] by (auto split: option.splits hres.splits)
  next
    case False
    then have cc: "concat cs \<noteq> []" "c \<noteq> []" using Cons.prems(3) by (cases cs; auto)+
    show ?thesis
    proof (cases "run h s c")
      case None
      then show ?thesis
        using run_prefix [of s "c @ concat cs" _ c "concat cs"] Cons.prems(1,2) cc
        by (cases "run h s (c @ concat cs)") auto
    next
      case (Some r)
      from run_append [OF this Cons.prems(1) cc(2,1)] Cons.prems(2)
      have r: "run h s (c @ concat cs) = (case r of Abort \<Rightarrow> Some Abort | Fail s' \<Rightarrow> Some (Fail s')
          | Ret s' rest \<Rightarrow> run h s' (concat cs))"
        "case r of Ret s' rest \<Rightarrow> inv s' \<and> good s' (concat cs) | _ \<Rightarrow> True" by simp_all
      show ?thesis
      proof (cases r)
        case (Ret s' rest)
        with r Some Cons.IH [of s'] Cons.prems False show ?thesis by simp
      qed (use r Some in simp_all)
    qed
  qed
qed

end

section \<open>Blocking streams\<close>

text \<open>
  The blocking read of the C library (\<^verbatim>\<open>acl_vstream_readn\<close>), a parameter of the clients: for a
  number of bytes it gives them and the stream after, or \<^const>\<open>None\<close> for -1. \<open>stream_ok\<close> states
  what its header file documents, for the bytes \<open>contents c\<close> that the peer sends: asked for
  at most those, it gives exactly the number asked for.
\<close>

type_synonym 'c reader = "'c \<Rightarrow> nat \<Rightarrow> (byte list \<times> 'c) option"

definition stream_ok :: "'c reader \<Rightarrow> ('c \<Rightarrow> byte list) \<Rightarrow> bool" where
  "stream_ok rd contents \<longleftrightarrow> (\<forall>c n. 0 < n \<longrightarrow> n \<le> length (contents c) \<longrightarrow>
     (\<exists>c'. rd c n = Some (take n (contents c), c') \<and> contents c' = drop n (contents c)))"

text \<open>The stream that holds its bytes in a list, for concrete runs.\<close>

definition list_reader :: "byte list reader" where
  "list_reader c n = (if n \<le> length c then Some (take n c, drop n c) else None)"

lemma list_reader_ok: "stream_ok list_reader (\<lambda>c. c)"
  by (simp add: stream_ok_def list_reader_def)

lemma stream_okD:
  assumes "stream_ok rd contents" "contents c = xs @ ys" "xs \<noteq> []"
  obtains c' where "rd c (length xs) = Some (xs, c')" "contents c' = ys"
proof -
  have "0 < length xs" "length xs \<le> length (contents c)" using assms(2,3) by auto
  with assms(1) obtain c' where "rd c (length xs) = Some (take (length xs) (contents c), c')"
      "contents c' = drop (length xs) (contents c)"
    unfolding stream_ok_def by blast
  with assms(2) that show ?thesis by simp
qed

end
