(* ===== verification/MqttHeader.thy ===== *)
theory MqttHeader
  imports Streaming
begin

text \<open>
  The fixed header of an MQTT packet (\<^verbatim>\<open>mqtt_header.hpp\<close>, \<^verbatim>\<open>mqtt_header.cpp\<close>): the packet
  types, the flag bits, building the one to five header bytes, and the two-state streaming
  parser that reads them back. The lemmas show that the parser meets the streaming contract,
  that it always returns, and that it reads every header that was built.
\<close>

section \<open>Types and tables\<close>

datatype mqtt_type =
    MQTT_RESERVED_MIN | MQTT_CONNECT | MQTT_CONNACK | MQTT_PUBLISH | MQTT_PUBACK
  | MQTT_PUBREC | MQTT_PUBREL | MQTT_PUBCOMP | MQTT_SUBSCRIBE | MQTT_SUBACK
  | MQTT_UNSUBSCRIBE | MQTT_UNSUBACK | MQTT_PINGREQ | MQTT_PINGRESP | MQTT_DISCONNECT
  | MQTT_RESERVED_MAX

fun mqtt_type_code :: "mqtt_type \<Rightarrow> byte" where
  "mqtt_type_code MQTT_RESERVED_MIN = 0"
| "mqtt_type_code MQTT_CONNECT = 1"
| "mqtt_type_code MQTT_CONNACK = 2"
| "mqtt_type_code MQTT_PUBLISH = 3"
| "mqtt_type_code MQTT_PUBACK = 4"
| "mqtt_type_code MQTT_PUBREC = 5"
| "mqtt_type_code MQTT_PUBREL = 6"
| "mqtt_type_code MQTT_PUBCOMP = 7"
| "mqtt_type_code MQTT_SUBSCRIBE = 8"
| "mqtt_type_code MQTT_SUBACK = 9"
| "mqtt_type_code MQTT_UNSUBSCRIBE = 10"
| "mqtt_type_code MQTT_UNSUBACK = 11"
| "mqtt_type_code MQTT_PINGREQ = 12"
| "mqtt_type_code MQTT_PINGRESP = 13"
| "mqtt_type_code MQTT_DISCONNECT = 14"
| "mqtt_type_code MQTT_RESERVED_MAX = 15"

definition mqtt_types :: "mqtt_type list" where
  "mqtt_types =
     [MQTT_RESERVED_MIN, MQTT_CONNECT, MQTT_CONNACK, MQTT_PUBLISH, MQTT_PUBACK,
      MQTT_PUBREC, MQTT_PUBREL, MQTT_PUBCOMP, MQTT_SUBSCRIBE, MQTT_SUBACK,
      MQTT_UNSUBSCRIBE, MQTT_UNSUBACK, MQTT_PINGREQ, MQTT_PINGRESP, MQTT_DISCONNECT,
      MQTT_RESERVED_MAX]"

text \<open>The cast \<^verbatim>\<open>(mqtt_type_t) type\<close> of a number below 16.\<close>

definition mqtt_type_cast :: "byte \<Rightarrow> mqtt_type" where
  "mqtt_type_cast n = mqtt_types ! unat n"

datatype mqtt_option = MQTT_NONE | MQTT_NEED | MQTT_MAYBE

datatype mqtt_qos = MQTT_QOS0 | MQTT_QOS1 | MQTT_QOS2

fun mqtt_qos_code :: "mqtt_qos \<Rightarrow> byte" where
  "mqtt_qos_code MQTT_QOS0 = 0"
| "mqtt_qos_code MQTT_QOS1 = 1"
| "mqtt_qos_code MQTT_QOS2 = 2"

record mqtt_constrain =
  mc_type :: mqtt_type
  mc_flags :: "4 word"
  mc_id :: mqtt_option
  mc_payload :: mqtt_option
  mc_desc :: string

definition mqtt_constrains :: "mqtt_constrain list" where
  "mqtt_constrains =
    [\<lparr>mc_type = MQTT_RESERVED_MIN, mc_flags = 0x0, mc_id = MQTT_NONE, mc_payload = MQTT_NONE, mc_desc = ''RESERVED''\<rparr>,
     \<lparr>mc_type = MQTT_CONNECT, mc_flags = 0x0, mc_id = MQTT_NONE, mc_payload = MQTT_NEED, mc_desc = ''CONNECT''\<rparr>,
     \<lparr>mc_type = MQTT_CONNACK, mc_flags = 0x0, mc_id = MQTT_NONE, mc_payload = MQTT_NONE, mc_desc = ''CONNACK''\<rparr>,
     \<lparr>mc_type = MQTT_PUBLISH, mc_flags = 0xf, mc_id = MQTT_MAYBE, mc_payload = MQTT_MAYBE, mc_desc = ''PUBLISH''\<rparr>,
     \<lparr>mc_type = MQTT_PUBACK, mc_flags = 0x0, mc_id = MQTT_NEED, mc_payload = MQTT_NONE, mc_desc = ''PUBACK''\<rparr>,
     \<lparr>mc_type = MQTT_PUBREC, mc_flags = 0x0, mc_id = MQTT_NEED, mc_payload = MQTT_NONE, mc_desc = ''PUBREC''\<rparr>,
     \<lparr>mc_type = MQTT_PUBREL, mc_flags = 0x2, mc_id = MQTT_NEED, mc_payload = MQTT_NONE, mc_desc = ''PUBREL''\<rparr>,
     \<lparr>mc_type = MQTT_PUBCOMP, mc_flags = 0x0, mc_id = MQTT_NEED, mc_payload = MQTT_NONE, mc_desc = ''PUBCOMP''\<rparr>,
     \<lparr>mc_type = MQTT_SUBSCRIBE, mc_flags = 0x2, mc_id = MQTT_NEED, mc_payload = MQTT_NEED, mc_desc = ''SUBSCRIBE''\<rparr>,
     \<lparr>mc_type = MQTT_SUBACK, mc_flags = 0x0, mc_id = MQTT_NEED, mc_payload = MQTT_NEED, mc_desc = ''SUBACK''\<rparr>,
     \<lparr>mc_type = MQTT_UNSUBSCRIBE, mc_flags = 0x2, mc_id = MQTT_NEED, mc_payload = MQTT_NEED, mc_desc = ''UNSUBSCRIBE''\<rparr>,
     \<lparr>mc_type = MQTT_UNSUBACK, mc_flags = 0x0, mc_id = MQTT_NEED, mc_payload = MQTT_NONE, mc_desc = ''UNSUBACK''\<rparr>,
     \<lparr>mc_type = MQTT_PINGREQ, mc_flags = 0x0, mc_id = MQTT_NONE, mc_payload = MQTT_NONE, mc_desc = ''PINGREQ''\<rparr>,
     \<lparr>mc_type = MQTT_PINGRESP, mc_flags = 0x0, mc_id = MQTT_NONE, mc_payload = MQTT_NONE, mc_desc = ''PINGRESP''\<rparr>,
     \<lparr>mc_type = MQTT_DISCONNECT, mc_flags = 0x0, mc_id = MQTT_NONE, mc_payload = MQTT_NONE, mc_desc = ''DISCONNECT''\<rparr>,
     \<lparr>mc_type = MQTT_RESERVED_MAX, mc_flags = 0x0, mc_id = MQTT_NONE, mc_payload = MQTT_NONE, mc_desc = ''RESERVED''\<rparr>]"

definition mqtt_type_desc :: "mqtt_type \<Rightarrow> string" where
  "mqtt_type_desc t =
     (if mqtt_type_code t \<le> mqtt_type_code MQTT_RESERVED_MIN
         \<or> mqtt_type_code MQTT_RESERVED_MAX \<le> mqtt_type_code t
      then ''unknown'' else mc_desc (mqtt_constrains ! unat (mqtt_type_code t)))"

fun mqtt_qos_desc :: "mqtt_qos \<Rightarrow> string" where
  "mqtt_qos_desc MQTT_QOS0 = ''QOS0''"
| "mqtt_qos_desc MQTT_QOS1 = ''QOS1''"
| "mqtt_qos_desc MQTT_QOS2 = ''QOS2''"

lemma mqtt_type_cast_code [simp]: "mqtt_type_cast (mqtt_type_code t) = t"
  by (cases t) (simp_all add: mqtt_type_cast_def mqtt_types_def)

lemma mqtt_type_code_less: "mqtt_type_code t < 16"
  by (cases t) simp_all

lemma mqtt_constrains_row: "mc_type (mqtt_constrains ! unat (mqtt_type_code t)) = t"
  by (cases t) (simp_all add: mqtt_constrains_def)

section \<open>The header object\<close>

datatype hdr_stat = STAT_HDR_TYPE | STAT_HDR_LEN

record mqtt_header =
  hd_status :: hdr_stat
  hd_finished :: bool
  hd_type :: mqtt_type
  hd_flags :: "4 word"
  hd_dlen :: u32
  hd_hbuf :: "byte list"
  hd_hlen :: nat

text \<open>
  The two constructors. The copying one starts a new parse and takes over the type, the flags
  and the remaining length. The bytes of \<^verbatim>\<open>hbuf_\<close> are only read after they were written;
  the model starts them at 0.
\<close>

definition mqtt_header_new :: "mqtt_type \<Rightarrow> mqtt_header" where
  "mqtt_header_new t =
     \<lparr>hd_status = STAT_HDR_TYPE, hd_finished = False, hd_type = t, hd_flags = 0,
      hd_dlen = 0, hd_hbuf = replicate 4 0, hd_hlen = 0\<rparr>"

definition mqtt_header_copy :: "mqtt_header \<Rightarrow> mqtt_header" where
  "mqtt_header_copy h =
     \<lparr>hd_status = STAT_HDR_TYPE, hd_finished = False, hd_type = hd_type h,
      hd_flags = hd_flags h, hd_dlen = hd_dlen h, hd_hbuf = replicate 4 0, hd_hlen = 0\<rparr>"

definition header_reset :: "mqtt_header \<Rightarrow> mqtt_header" where
  "header_reset h = h\<lparr>hd_status := STAT_HDR_TYPE, hd_finished := False,
     hd_type := MQTT_RESERVED_MIN, hd_flags := 0, hd_dlen := 0, hd_hlen := 0\<rparr>"

definition set_type :: "mqtt_type \<Rightarrow> mqtt_header \<Rightarrow> mqtt_header" where
  "set_type t h =
     (if mqtt_type_code MQTT_RESERVED_MIN < mqtt_type_code t
         \<and> mqtt_type_code t < mqtt_type_code MQTT_RESERVED_MAX
      then h\<lparr>hd_type := t\<rparr> else h)"

definition set_header_flags :: "byte \<Rightarrow> mqtt_header \<Rightarrow> mqtt_header" where
  "set_header_flags flags h = h\<lparr>hd_flags := ucast (flags AND 0x0f)\<rparr>"

definition set_remaing_length :: "u32 \<Rightarrow> mqtt_header \<Rightarrow> mqtt_header" where
  "set_remaing_length len h = h\<lparr>hd_dlen := len\<rparr>"

definition set_qos :: "mqtt_qos \<Rightarrow> mqtt_header \<Rightarrow> mqtt_header" where
  "set_qos q h =
     (let f = hd_flags h AND NOT (push_bit 2 1 OR push_bit 1 1)
      in h\<lparr>hd_flags := (case q of
             MQTT_QOS1 \<Rightarrow> f OR push_bit 1 1
           | MQTT_QOS2 \<Rightarrow> f OR push_bit 2 1
           | MQTT_QOS0 \<Rightarrow> f)\<rparr>)"

definition set_dup :: "bool \<Rightarrow> mqtt_header \<Rightarrow> mqtt_header" where
  "set_dup yes h =
     h\<lparr>hd_flags := (if yes then hd_flags h OR push_bit 3 1 else hd_flags h AND NOT (push_bit 3 1))\<rparr>"

definition set_remain :: "bool \<Rightarrow> mqtt_header \<Rightarrow> mqtt_header" where
  "set_remain yes h =
     h\<lparr>hd_flags := (if yes then hd_flags h OR 0x01 else hd_flags h AND NOT 0x01)\<rparr>"

definition get_qos :: "mqtt_header \<Rightarrow> mqtt_qos" where
  "get_qos h =
     (let q = drop_bit 1 (hd_flags h) AND 0x03
      in if q = 1 then MQTT_QOS1 else if q = 2 then MQTT_QOS2 else MQTT_QOS0)"

definition is_dup :: "mqtt_header \<Rightarrow> bool" where
  "is_dup h \<longleftrightarrow> hd_flags h AND 0x08 \<noteq> 0"

definition is_remain :: "mqtt_header \<Rightarrow> bool" where
  "is_remain h \<longleftrightarrow> hd_flags h AND 0x01 \<noteq> 0"

section \<open>Building the header\<close>

text \<open>The bytes of the remaining length: \<^const>\<open>None\<close> where the code reports it as invalid.\<close>

definition remaining_length_bytes :: "u32 \<Rightarrow> byte list option" where
  "remaining_length_bytes d =
     (if d < 128 then Some [ucast d AND 0x7f]
      else if d < 16384 then
        Some [(ucast d AND 0x7f) OR 0x80, ucast (drop_bit 7 d) AND 0x7f]
      else if d < 2097152 then
        Some [(ucast d AND 0x7f) OR 0x80, (ucast (drop_bit 7 d) AND 0x7f) OR 0x80,
              ucast (drop_bit 14 d) AND 0x7f]
      else if d < 268435456 then
        Some [(ucast d AND 0x7f) OR 0x80, (ucast (drop_bit 7 d) AND 0x7f) OR 0x80,
              (ucast (drop_bit 14 d) AND 0x7f) OR 0x80, ucast (drop_bit 21 d) AND 0x7f]
      else None)"

text \<open>
  \<open>build_header\<close> returns the header object, whose flags it first combines with themselves, and
  the output string with the header appended; \<^const>\<open>None\<close> is the result false, where nothing
  is appended.
\<close>

definition build_header :: "mqtt_header \<Rightarrow> byte list \<Rightarrow> mqtt_header \<times> byte list option" where
  "build_header h out =
     (let flags = ucast (hd_flags h) :: byte;
          h' = h\<lparr>hd_flags := hd_flags h OR ucast (flags AND 0x0f)\<rparr>;
          b0 = (push_bit 4 (mqtt_type_code (hd_type h')) AND 0xff) OR ucast (hd_flags h')
      in (h', case remaining_length_bytes (hd_dlen h') of
                None \<Rightarrow> None
              | Some bs \<Rightarrow> Some (out @ b0 # bs)))"

section \<open>Parsing the header\<close>

definition update_header_type :: "mqtt_header \<Rightarrow> byte list \<Rightarrow> mqtt_header hres" where
  "update_header_type h data =
     (case data of
        [] \<Rightarrow> Abort
      | ch # rest \<Rightarrow>
          let ty = drop_bit 4 (ch AND 0xff) in
          if ty \<le> mqtt_type_code MQTT_RESERVED_MIN \<or> mqtt_type_code MQTT_RESERVED_MAX \<le> ty
          then Fail h
          else Ret (h\<lparr>hd_type := mqtt_type_cast ty, hd_flags := ucast (ch AND 0x0f),
                      hd_status := STAT_HDR_LEN, hd_hlen := 0\<rparr>) rest)"

text \<open>
  The loop of \<^verbatim>\<open>update_header_len\<close> that collects at most four bytes and stops after one whose
  top bit is clear, and the loop that puts the remaining length together.
\<close>

fun read_len_bytes :: "byte list \<Rightarrow> nat \<Rightarrow> byte list \<Rightarrow> byte list \<times> nat \<times> byte list" where
  "read_len_bytes buf n [] = (buf, n, [])"
| "read_len_bytes buf n (c # data) =
     (if n < 4 then
        (if c AND 0x80 = 0 then (buf[n := c], Suc n, data)
         else read_len_bytes (buf[n := c]) (Suc n) data)
      else (buf, n, c # data))"

definition decode_len :: "byte list \<Rightarrow> nat \<Rightarrow> u32" where
  "decode_len buf n = fold (\<lambda>i d. d OR push_bit (7 * i) (ucast (buf ! i AND 0x7f))) [0..<n] 0"

definition update_header_len :: "mqtt_header \<Rightarrow> byte list \<Rightarrow> mqtt_header hres" where
  "update_header_len h data =
     (if data = [] then Abort
      else if 4 \<le> hd_hlen h then Fail h
      else case read_len_bytes (hd_hbuf h) (hd_hlen h) data of
        (buf, n, rest) \<Rightarrow>
          let h' = h\<lparr>hd_hbuf := buf, hd_hlen := n\<rparr> in
          if \<not> (0 < n \<and> n \<le> 4) then Abort
          else if buf ! (n - 1) AND 0x80 \<noteq> 0 then
            (if n = 4 then Fail h' else if rest \<noteq> [] then Abort else Ret h' rest)
          else Ret (h'\<lparr>hd_dlen := decode_len buf n, hd_finished := True\<rparr>) rest)"

definition header_handler :: "mqtt_header \<Rightarrow> byte list \<Rightarrow> mqtt_header hres" where
  "header_handler h =
     (case hd_status h of
        STAT_HDR_TYPE \<Rightarrow> update_header_type h
      | STAT_HDR_LEN \<Rightarrow> update_header_len h)"

definition header_update :: "mqtt_header \<Rightarrow> byte list \<Rightarrow> mqtt_header hres option" where
  "header_update = update_call hd_finished header_handler"

section \<open>Flag bits\<close>

lemma flag_bits:
  "drop_bit 1 (f AND NOT (push_bit 2 1 OR push_bit 1 1)) AND 3 = (0 :: 4 word)"
  "drop_bit 1 ((f AND NOT (push_bit 2 1 OR push_bit 1 1)) OR push_bit 1 1) AND 3 = (1 :: 4 word)"
  "drop_bit 1 ((f AND NOT (push_bit 2 1 OR push_bit 1 1)) OR push_bit 2 1) AND 3 = (2 :: 4 word)"
  "drop_bit 1 (f OR push_bit 3 1) AND 3 = drop_bit 1 f AND (3 :: 4 word)"
  "drop_bit 1 (f AND NOT (push_bit 3 1)) AND 3 = drop_bit 1 f AND (3 :: 4 word)"
  "drop_bit 1 (f OR 1) AND 3 = drop_bit 1 f AND (3 :: 4 word)"
  "drop_bit 1 (f AND NOT 1) AND 3 = drop_bit 1 f AND (3 :: 4 word)"
  "(f OR push_bit 3 1) AND 8 \<noteq> (0 :: 4 word)" "(f AND NOT (push_bit 3 1)) AND 8 = (0 :: 4 word)"
  "(f OR 1) AND 1 \<noteq> (0 :: 4 word)" "(f AND NOT 1) AND 1 = (0 :: 4 word)"
  for f :: "4 word"
  by (induction f rule: word4_induct; simp)+

lemma get_qos_set_qos [simp]: "get_qos (set_qos q h) = q"
  using flag_bits [of "hd_flags h"] by (cases q) (simp_all add: get_qos_def set_qos_def Let_def)

lemma get_qos_set_dup [simp]: "get_qos (set_dup b h) = get_qos h"
  using flag_bits [of "hd_flags h"] by (simp add: get_qos_def set_dup_def Let_def)

lemma get_qos_set_remain [simp]: "get_qos (set_remain b h) = get_qos h"
  using flag_bits [of "hd_flags h"] by (simp add: get_qos_def set_remain_def Let_def)

lemma is_dup_set_dup [simp]: "is_dup (set_dup b h) = b"
  using flag_bits [of "hd_flags h"] by (simp add: is_dup_def set_dup_def)

lemma is_remain_set_remain [simp]: "is_remain (set_remain b h) = b"
  using flag_bits [of "hd_flags h"] by (simp add: is_remain_def set_remain_def)

section \<open>The streaming contract\<close>

lemma read_len_append:
  assumes "read_len_bytes buf n xs = (buf', n', rest)" and "length buf = 4" "n < 4" "xs \<noteq> []"
  shows "n < n' \<and> n' \<le> 4 \<and> length buf' = 4 \<and> length rest < length xs \<and>
    (if n' < 4 \<and> buf' ! (n' - 1) AND 0x80 \<noteq> 0
     then rest = [] \<and> (\<forall>ys. read_len_bytes buf n (xs @ ys) = read_len_bytes buf' n' ys)
     else \<forall>ys. read_len_bytes buf n (xs @ ys) = (buf', n', rest @ ys))"
  using assms
proof (induction buf n xs rule: read_len_bytes.induct)
  case (1 buf n)
  then show ?case by simp
next
  case (2 buf n c data)
  show ?case
  proof (cases "c AND 0x80 = 0")
    case True
    with 2 show ?thesis by auto
  next
    case False
    note c = False
    have at4: "read_len_bytes b 4 d = (b, 4, d)" for b d by (cases d) auto
    consider "data = []" "Suc n < 4" | "n = 3" | "data \<noteq> []" "Suc n < 4"
      using 2 by fastforce
    then show ?thesis
    proof cases
      case 1
      with 2 c show ?thesis by auto
    next
      case 2
      have "Suc n = 4" using 2 by simp
      with 2 "2.prems" c at4 show ?thesis by auto
    next
      case 3
      from "2.prems" c have eq: "read_len_bytes (buf[n := c]) (Suc n) data = (buf', n', rest)" by simp
      have "length (buf[n := c]) = 4" using "2.prems" by simp
      from "2.IH" [OF "2.prems"(3) c eq this 3(2) 3(1)] show ?thesis using c "2.prems"(3) by auto
    qed
  qed
qed

definition header_inv :: "mqtt_header \<Rightarrow> bool" where
  "header_inv h \<longleftrightarrow> length (hd_hbuf h) = 4 \<and> (hd_status h = STAT_HDR_LEN \<longrightarrow> \<not> hd_finished h \<longrightarrow> hd_hlen h < 4)"

lemma update_header_type_cut:
  assumes "hd_status h = STAT_HDR_TYPE" "xs \<noteq> []"
  shows "cut_ok hd_finished header_handler h xs"
proof -
  from assms(2) obtain c cs where "xs = c # cs" by (cases xs) auto
  with assms(1) show ?thesis
    by (auto simp: cut_ok_def header_handler_def update_header_type_def Let_def)
qed

lemma update_header_len_cut:
  assumes st: "hd_status h = STAT_HDR_LEN" and xs: "xs \<noteq> []"
    and h: "length (hd_hbuf h) = 4" "hd_hlen h < 4" "\<not> hd_finished h"
  shows "cut_ok hd_finished header_handler h xs"
proof -
  obtain buf n rest where rl: "read_len_bytes (hd_hbuf h) (hd_hlen h) xs = (buf, n, rest)"
    by (cases "read_len_bytes (hd_hbuf h) (hd_hlen h) xs")
  note app = read_len_append [OF rl h(1,2) xs]
  note defs = header_handler_def update_header_len_def
  show ?thesis
  proof (cases "n < 4 \<and> buf ! (n - 1) AND 0x80 \<noteq> 0")
    case True
    then show ?thesis
      using app st xs rl h
      by (intro cut_ok_pending [where s' = "h\<lparr>hd_hbuf := buf, hd_hlen := n\<rparr>"]) (auto simp: defs)
  next
    case False
    then have more: "read_len_bytes (hd_hbuf h) (hd_hlen h) (xs @ ys) = (buf, n, rest @ ys)" for ys
      using app by auto
    show ?thesis
    proof (cases "buf ! (n - 1) AND 0x80 = 0")
      case True
      then show ?thesis
        using app st xs rl h more by (intro cut_ok_done [where rest = rest]) (auto simp: defs)
    next
      case nz: False
      then have "n = 4" using False app by auto
      then show ?thesis
        using nz app st xs rl h more
        by (intro cut_ok_fail [where s' = "h\<lparr>hd_hbuf := buf, hd_hlen := n\<rparr>"]) (auto simp: defs)
    qed
  qed
qed

lemma header_handler_inv:
  assumes "header_inv h" "\<not> hd_finished h" "xs \<noteq> []" "header_handler h xs = Ret h' rest"
  shows "header_inv h' \<and> length rest < length xs"
proof (cases "hd_status h")
  case STAT_HDR_TYPE
  with assms show ?thesis
    by (cases xs) (auto simp: header_handler_def update_header_type_def header_inv_def Let_def split: if_splits)
next
  case STAT_HDR_LEN
  obtain buf n r where rl: "read_len_bytes (hd_hbuf h) (hd_hlen h) xs = (buf, n, r)"
    by (cases "read_len_bytes (hd_hbuf h) (hd_hlen h) xs")
  with STAT_HDR_LEN assms read_len_append [OF rl _ _ assms(3)] show ?thesis
    by (auto simp: header_handler_def update_header_len_def header_inv_def Let_def split: if_splits)
qed

interpretation hdr: progressing hd_finished header_handler header_inv "\<lambda>_. 0"
proof
  fix s s' :: mqtt_header and xs rest :: "byte list"
  assume s: "header_inv s" "\<not> hd_finished s" and xs: "xs \<noteq> []"
  show "cut_ok hd_finished header_handler s xs"
    using s xs update_header_type_cut update_header_len_cut
    by (cases "hd_status s") (auto simp: header_inv_def)
  assume "header_handler s xs = Ret s' rest"
  with header_handler_inv [OF s xs] show "header_inv s'"
    and "length rest < length xs \<or> length rest = length xs \<and> (0::nat) < 0" by auto
qed

section \<open>Building and reading back\<close>

lemma seven_bits:
  "ucast (((ucast d AND 0x7f) OR 0x80) AND (0x7f::byte)) = take_bit 7 (d::u32)"
  "ucast ((ucast d AND 0x7f) AND (0x7f::byte)) = take_bit 7 (d::u32)"
  "ucast (ucast d AND (0x7f::byte)) = take_bit 7 (d::u32)"
  by (rule bit_word_eqI; auto simp: bit_simps)+

lemma build_header_eq:
  "build_header h out =
     (h, case remaining_length_bytes (hd_dlen h) of
           None \<Rightarrow> None
         | Some bs \<Rightarrow> Some (out @ (push_bit 4 (mqtt_type_code (hd_type h)) OR ucast (hd_flags h)) # bs))"
proof -
  have "hd_flags h OR ucast (ucast (hd_flags h) AND (0x0f::byte)) = hd_flags h"
    by (rule bit_word_eqI) (auto simp: bit_simps)
  then show ?thesis by (simp add: build_header_def Let_def split: option.split)
qed

lemma first_byte:
  assumes "b = push_bit 4 (mqtt_type_code t) OR (ucast (f::4 word) :: byte)"
  shows "drop_bit 4 b = mqtt_type_code t" "ucast (b AND 0x0f) = f"
proof -
  have "bit (mqtt_type_code t) n \<Longrightarrow> n < 4" for n
    using bit_imp_less [of "mqtt_type_code t" 4 n] mqtt_type_code_less [of t] by (simp add: unat_less_iff)
  then show "drop_bit 4 b = mqtt_type_code t"
    unfolding assms by (intro bit_word_eqI) (auto simp: bit_simps dest: bit_imp_le_length)
  show "ucast (b AND 0x0f) = f"
    unfolding assms by (rule bit_word_eqI) (auto simp: bit_simps)
qed

lemma upt_small: "[0..<Suc 0] = [0]" "[0..<2] = [0,1]" "[0..<3] = [0,1,2]" "[0..<4] = [0,1,2,3]"
  by (simp_all add: upt_rec)

lemma decode_len_bytes:
  assumes "remaining_length_bytes d = Some bs" and "n = length bs"
  shows "decode_len (bs @ pad) n = d"
proof -
  consider (one) "unat d < 2 ^ 7" "bs = [ucast d AND 0x7f]"
    | (two) "unat d < 2 ^ 14" "bs = [(ucast d AND 0x7f) OR 0x80, ucast (drop_bit 7 d) AND 0x7f]"
    | (three) "unat d < 2 ^ 21"
        "bs = [(ucast d AND 0x7f) OR 0x80, (ucast (drop_bit 7 d) AND 0x7f) OR 0x80,
               ucast (drop_bit 14 d) AND 0x7f]"
    | (four) "unat d < 2 ^ 28"
        "bs = [(ucast d AND 0x7f) OR 0x80, (ucast (drop_bit 7 d) AND 0x7f) OR 0x80,
               (ucast (drop_bit 14 d) AND 0x7f) OR 0x80, ucast (drop_bit 21 d) AND 0x7f]"
    using assms by (auto simp: remaining_length_bytes_def unat_less_iff split: if_splits)
  then show ?thesis
  proof cases
    case one
    then show ?thesis
      using assms(2) take_bit_all [OF one(1)] by (simp add: decode_len_def upt_small seven_bits)
  next
    case two
    then show ?thesis
      using assms(2) take_bit_all [OF two(1)] split_bits [of 7 d 7]
      by (simp add: decode_len_def upt_small seven_bits)
  next
    case three
    then show ?thesis
      using assms(2) take_bit_all [OF three(1)] split_bits [of 7 d 7] split_bits [of 14 d 7]
      by (simp add: decode_len_def upt_small seven_bits)
  next
    case four
    then show ?thesis
      using assms(2) take_bit_all [OF four(1)] split_bits [of 7 d 7] split_bits [of 14 d 7]
        split_bits [of 21 d 7]
      by (simp add: decode_len_def upt_small seven_bits)
  qed
qed

text \<open>The bytes written: all but the last carry the continuation bit, the last does not.\<close>

lemma remaining_length_bytes_shape:
  assumes "remaining_length_bytes d = Some bs"
  shows "bs \<noteq> [] \<and> length bs \<le> 4 \<and> (\<forall>c \<in> set (butlast bs). c AND 0x80 \<noteq> 0) \<and> last bs AND 0x80 = 0"
  using assms by (auto simp: remaining_length_bytes_def and_0x80_eq_0 bit_simps split: if_splits)

lemma read_len_bytes_written:
  assumes "\<forall>c \<in> set cs. c AND 0x80 \<noteq> 0" "c AND 0x80 = 0" "n + length cs < 4"
  shows "read_len_bytes buf n (cs @ c # rest) = (put_at buf n (cs @ [c]), n + length cs + 1, rest)"
  using assms by (induction cs arbitrary: buf n) (auto simp: put_at_Cons)

text \<open>Reading back what was written, from a parser in its initial state.\<close>

theorem header_roundtrip:
  assumes built: "build_header h [] = (h', Some bs)"
    and ty: "hd_type h \<noteq> MQTT_RESERVED_MIN" "hd_type h \<noteq> MQTT_RESERVED_MAX"
    and p: "hd_status p = STAT_HDR_TYPE" "\<not> hd_finished p" "length (hd_hbuf p) = 4"
  shows "\<exists>p'. header_update p (bs @ rest) = Some (Ret p' rest) \<and> hd_finished p' \<and>
    hd_type p' = hd_type h \<and> hd_flags p' = hd_flags h \<and> hd_dlen p' = hd_dlen h"
proof -
  define b where "b = push_bit 4 (mqtt_type_code (hd_type h)) OR (ucast (hd_flags h) :: byte)"
  obtain ls where ls: "remaining_length_bytes (hd_dlen h) = Some ls" and bs: "bs = b # ls"
    using built by (auto simp: build_header_eq b_def split: option.splits)
  note shape = remaining_length_bytes_shape [OF ls]
  obtain cs c where cs: "ls = cs @ [c]" using shape by (cases ls rule: rev_cases) auto
  define p1 where "p1 = p\<lparr>hd_type := hd_type h, hd_flags := hd_flags h,
    hd_status := STAT_HDR_LEN, hd_hlen := 0\<rparr>"
  have 1: "header_handler p (b # ls @ rest) = Ret p1 (ls @ rest)"
    using p ty first_byte [OF b_def] unfolding p1_def
    by (cases "hd_type h") (auto simp: header_handler_def update_header_type_def Let_def mqtt_type_cast_def
        mqtt_types_def unat_le_iff)
  define buf where "buf = put_at (hd_hbuf p) 0 ls"
  have rl: "read_len_bytes (hd_hbuf p) 0 (ls @ rest) = (buf, length ls, rest)"
    using read_len_bytes_written [of cs c 0 "hd_hbuf p" rest] shape cs by (simp add: buf_def)
  have "take (length ls) buf = ls"
    using take_put_at [of 0 ls "hd_hbuf p"] shape p by (simp add: buf_def)
  then have buf: "buf = ls @ drop (length ls) buf" by (metis append_take_drop_id)
  have "buf ! (length ls - 1) = c" using cs by (subst buf) (simp add: nth_append)
  moreover have "decode_len buf (length ls) = hd_dlen h"
    using decode_len_bytes [OF ls refl] by (subst buf)
  ultimately have 2: "header_handler p1 (ls @ rest) =
     Ret (p1\<lparr>hd_hbuf := buf, hd_hlen := length ls, hd_dlen := hd_dlen h, hd_finished := True\<rparr>) rest"
    using rl shape cs by (simp add: header_handler_def update_header_len_def p1_def Let_def)
  show ?thesis
    using p 1 2 shape bs
    by (simp add: header_update_def update_call_def update_loop_step) (simp add: p1_def update_loop_step)
qed

text \<open>One call of \<^verbatim>\<open>update\<close>, unfolded once, for evaluating it on given bytes.\<close>

lemma header_update_unfold:
  assumes "\<not> hd_finished h" "d \<noteq> []"
  shows "header_update h d = (case header_handler h d of
      Abort \<Rightarrow> Some Abort
    | Fail h' \<Rightarrow> Some (Fail h')
    | Ret h' rest \<Rightarrow> if rest = [] \<or> hd_finished h' then Some (Ret h' rest) else header_update h' rest)"
  using assms
  by (auto simp: header_update_def update_call_def update_loop.simps [of _ _ h d] split: hres.split)

end
