(* ===== verification/MqttMessage.thy ===== *)
theory MqttMessage
  imports MqttHeader
begin

text \<open>
  What all message classes share (\<^verbatim>\<open>mqtt_message.cpp\<close>): packing a byte, a short and a
  length-prefixed string at the end of the output, and unpacking a short. A string is packed
  with its length cast to \<^verbatim>\<open>unsigned short\<close>, so its packing is readable only up to 65535
  bytes.
\<close>

section \<open>Packing and unpacking\<close>

definition msb :: "u16 \<Rightarrow> byte" where
  "msb n = ucast (drop_bit 8 n AND 0xff)"

definition lsb :: "u16 \<Rightarrow> byte" where
  "lsb n = ucast (n AND 0xff)"

definition pack_byte :: "byte \<Rightarrow> byte list \<Rightarrow> byte list" where
  "pack_byte ch out = out @ [ch]"

definition pack_short :: "u16 \<Rightarrow> byte list \<Rightarrow> byte list" where
  "pack_short n out = out @ [msb n, lsb n]"

definition pack_string :: "byte list \<Rightarrow> byte list \<Rightarrow> byte list" where
  "pack_string s out =
     (let n = word_of_nat (length s) :: u16;
          out' = out @ [msb n, lsb n]
      in if 0 < n then out' @ s else out')"

definition unpack_short :: "byte list \<Rightarrow> nat \<Rightarrow> u16 option" where
  "unpack_short data len =
     (if len < 2 then None
      else Some (push_bit 8 (ucast (data ! 0 AND 0xff)) OR ucast (data ! 1 AND 0xff)))"

definition get_short :: "byte list \<Rightarrow> u16" where
  "get_short data = push_bit 8 (ucast (data ! 0)) OR ucast (data ! 1)"

lemma unpack_short_2 [simp]: "unpack_short data 2 = Some (get_short data)"
  by (simp add: unpack_short_def get_short_def)

lemma get_short_pack [codec_simps, simp]: "get_short (msb n # lsb n # rest) = n"
  by (rule bit_word_eqI) (auto simp: get_short_def msb_def lsb_def bit_simps)

lemma pack_byte_eq [codec_simps]: "pack_byte ch out = out @ [ch]"
  by (simp add: pack_byte_def)

lemma pack_short_eq [codec_simps]: "pack_short n out = out @ [msb n, lsb n]"
  by (simp add: pack_short_def)

lemma pack_string_eq [codec_simps]:
  "length s < 65536 \<Longrightarrow>
   pack_string s out = out @ [msb (word_of_nat (length s)), lsb (word_of_nat (length s))] @ s"
  by (auto simp: pack_string_def Let_def unat_less_iff unat_of_nat)

lemma unat_length_short [codec_simps]:
  "length s < 65536 \<Longrightarrow> unat (word_of_nat (length s) :: u16) = length s"
  by (simp add: unat_of_nat)

text \<open>Two bytes collected into a buffer of at least two are read back as they came.\<close>

lemma take_2_put_at: "2 \<le> length buf \<Longrightarrow> get_short (put_at buf 0 [a, b]) = get_short [a, b]"
  using take_put_at [of 0 "[a, b]" buf]
  by (cases "put_at buf 0 [a, b]"; cases "tl (put_at buf 0 [a, b])") (auto simp: get_short_def)

lemma get_short_upd [simp]: "2 \<le> length buf \<Longrightarrow> get_short (buf[0 := a, Suc 0 := b]) = get_short [a, b]"
  using take_2_put_at [of buf a b] by (simp add: put_at_Cons)

lemma fill_2 [codec_simps]:
  "fill_buf 2 buf 0 (a # b # rest) = (put_at buf 0 [a, b], 2, rest)"
  by (simp add: put_at_Cons numeral_2_eq_2)

lemma save_chars_exact:
  "no_nul s \<Longrightarrow> save_chars acc (length s) (s @ rest) = (acc @ s, 0, rest)"
  by (simp add: save_chars_eq)

text \<open>
  A topic that a packet can carry and the parsers accept: not empty, below 65536 bytes, and
  without a NUL, which the streaming parsers drop.
\<close>

definition topic_ok :: "byte list \<Rightarrow> bool" where
  "topic_ok t \<longleftrightarrow> t \<noteq> [] \<and> length t < 65536 \<and> no_nul t"

lemma topic_ok_len: "topic_ok t \<Longrightarrow> (word_of_nat (length t) :: u16) \<noteq> 0"
  by (metis topic_ok_def length_greater_0_conv unat_length_short unat_0 less_numeral_extra(3))

definition str_entry :: "byte list \<Rightarrow> byte list" where
  "str_entry t = [msb (word_of_nat (length t)), lsb (word_of_nat (length t))] @ t"

lemma pack_string_entry: "length s < 65536 \<Longrightarrow> pack_string s out = out @ str_entry s"
  by (simp add: pack_string_eq str_entry_def)

lemma length_str_entry [simp]: "length (str_entry t) = 2 + length t"
  by (simp add: str_entry_def)

section \<open>A header built into the output\<close>

text \<open>
  Every \<^verbatim>\<open>to_string\<close> stores the remaining length in the header and builds it; this is the
  part of the result that the later steps of a round trip need.
\<close>

lemma build_header_Some:
  "build_header h out = (h', Some o') \<longleftrightarrow>
     h' = h \<and> (\<exists>bs. build_header h [] = (h, Some bs) \<and> o' = out @ bs)"
  by (auto simp: build_header_eq split: option.splits)

lemma build_header_ok: "hd_dlen h < 268435456 \<Longrightarrow> \<exists>bs. build_header h [] = (h, Some bs)"
  by (auto simp: build_header_eq remaining_length_bytes_def)

lemma build_header_out: "build_header h [] = (h, Some hb) \<Longrightarrow> build_header h out = (h, Some (out @ hb))"
  by (auto simp: build_header_eq split: option.splits)

lemma build_header_fst [simp]: "fst (build_header h out) = h"
  by (simp add: build_header_eq)

end
