(* ===== verification/MqttAck.thy ===== *)
theory MqttAck
  imports MqttMessage
begin

text \<open>
  The acknowledgements that carry a packet identifier (\<^verbatim>\<open>mqtt_ack.cpp\<close> and its subclasses
  PUBACK, PUBREC, PUBREL, PUBCOMP and UNSUBACK) and the CONNACK (\<^verbatim>\<open>mqtt_connack.cpp\<close>). Both
  classes have one parser state, so the model has no status field.
\<close>

section \<open>Acknowledgements with a packet identifier\<close>

record mqtt_ack =
  ak_header :: mqtt_header
  ak_finished :: bool
  ak_hbuf :: "byte list"
  ak_hlen :: nat
  ak_pkt_id :: u16

definition mqtt_ack_new :: "mqtt_type \<Rightarrow> mqtt_ack" where
  "mqtt_ack_new t =
     \<lparr>ak_header = mqtt_header_new t, ak_finished = False, ak_hbuf = replicate 2 0,
      ak_hlen = 0, ak_pkt_id = 0\<rparr>"

definition mqtt_ack_of_header :: "mqtt_header \<Rightarrow> mqtt_ack" where
  "mqtt_ack_of_header h =
     \<lparr>ak_header = mqtt_header_copy h, ak_finished = False, ak_hbuf = replicate 2 0,
      ak_hlen = 0, ak_pkt_id = 0\<rparr>"

definition mqtt_pubrel_new :: mqtt_ack where
  "mqtt_pubrel_new =
     (let a = mqtt_ack_new MQTT_PUBREL in a\<lparr>ak_header := set_header_flags 0x02 (ak_header a)\<rparr>)"

definition mqtt_pubrel_of_header :: "mqtt_header \<Rightarrow> mqtt_ack" where
  "mqtt_pubrel_of_header h =
     (let a = mqtt_ack_of_header h in a\<lparr>ak_header := set_header_flags 0x02 (ak_header a)\<rparr>)"

definition ack_set_pkt_id :: "u16 \<Rightarrow> mqtt_ack \<Rightarrow> mqtt_ack" where
  "ack_set_pkt_id i a = (if 0 < i then a\<lparr>ak_pkt_id := i\<rparr> else a)"

definition ack_to_string :: "mqtt_ack \<Rightarrow> byte list \<Rightarrow> mqtt_ack \<times> byte list option" where
  "ack_to_string a out =
     (if ak_pkt_id a = 0 then (a, None)
      else let (h, r) = build_header (set_remaing_length 2 (ak_header a)) out;
               a' = a\<lparr>ak_header := h\<rparr>
           in (a', case r of None \<Rightarrow> None | Some o' \<Rightarrow> Some (pack_short (ak_pkt_id a') o')))"

definition ack_update_header_var :: "mqtt_ack \<Rightarrow> byte list \<Rightarrow> mqtt_ack hres" where
  "ack_update_header_var a data =
     (if data = [] then Abort
      else if 2 \<le> ak_hlen a then Fail a
      else case fill_buf 2 (ak_hbuf a) (ak_hlen a) data of
        (buf, n, rest) \<Rightarrow>
          let a' = a\<lparr>ak_hbuf := buf, ak_hlen := n\<rparr> in
          if n < 2 then (if rest \<noteq> [] then Abort else Ret a' rest)
          else (case unpack_short buf 2 of
                  None \<Rightarrow> Fail a'
                | Some i \<Rightarrow> Ret (a'\<lparr>ak_pkt_id := i, ak_finished := True\<rparr>) rest))"

definition ack_update :: "mqtt_ack \<Rightarrow> byte list \<Rightarrow> mqtt_ack hres option" where
  "ack_update = update_call ak_finished ack_update_header_var"

lemma ack_update_header_var_cut:
  assumes "xs \<noteq> []" "\<not> ak_finished a"
  shows "cut_ok ak_finished ack_update_header_var a xs"
proof (cases "2 \<le> ak_hlen a")
  case True
  with assms show ?thesis by (simp add: cut_ok_def ack_update_header_var_def)
next
  case False
  show ?thesis
  proof (cases rule: fill_buf_cases [of "ak_hlen a" xs 2 "ak_hbuf a"])
    case pending
    with False assms show ?thesis
      by (intro cut_ok_pending [where
            s' = "a\<lparr>ak_hbuf := put_at (ak_hbuf a) (ak_hlen a) xs, ak_hlen := ak_hlen a + length xs\<rparr>"])
        (auto simp: ack_update_header_var_def)
  next
    case (completed buf' n' rest)
    with False assms show ?thesis
      by (intro cut_ok_done [where rest = rest]) (auto simp: ack_update_header_var_def Let_def)
  qed
qed

interpretation ack: progressing ak_finished ack_update_header_var "\<lambda>_. True" "\<lambda>_. 0"
proof
  fix s s' :: mqtt_ack and xs rest :: "byte list"
  assume s: "\<not> ak_finished s" and xs: "xs \<noteq> []"
  show "cut_ok ak_finished ack_update_header_var s xs" using s xs by (rule ack_update_header_var_cut [rotated])
  assume "ack_update_header_var s xs = Ret s' rest"
  with xs show "length rest < length xs \<or> length rest = length xs \<and> (0::nat) < 0"
    by (auto simp: ack_update_header_var_def fill_buf_eq Let_def split: if_splits)
qed simp

section \<open>CONNACK\<close>

record mqtt_connack =
  ca_header :: mqtt_header
  ca_finished :: bool
  ca_buff :: "byte list"
  ca_dlen :: nat
  ca_session :: bool
  ca_conn_flags :: byte
  ca_connack_code :: byte

definition mqtt_connack_new :: mqtt_connack where
  "mqtt_connack_new =
     \<lparr>ca_header = mqtt_header_new MQTT_CONNACK, ca_finished = False, ca_buff = replicate 2 0,
      ca_dlen = 0, ca_session = False, ca_conn_flags = 0, ca_connack_code = 0\<rparr>"

definition mqtt_connack_of_header :: "mqtt_header \<Rightarrow> mqtt_connack" where
  "mqtt_connack_of_header h =
     \<lparr>ca_header = mqtt_header_copy h, ca_finished = False, ca_buff = replicate 2 0,
      ca_dlen = 0, ca_session = False, ca_conn_flags = 0, ca_connack_code = 0\<rparr>"

definition connack_set_session :: "bool \<Rightarrow> mqtt_connack \<Rightarrow> mqtt_connack" where
  "connack_set_session on m = m\<lparr>ca_session := on, ca_conn_flags := (if on then 0x01 else 0x00)\<rparr>"

definition connack_set_code :: "byte \<Rightarrow> mqtt_connack \<Rightarrow> mqtt_connack" where
  "connack_set_code code m = m\<lparr>ca_connack_code := code\<rparr>"

definition connack_to_string :: "mqtt_connack \<Rightarrow> byte list \<Rightarrow> mqtt_connack \<times> byte list option" where
  "connack_to_string m out =
     (let (h, r) = build_header (set_remaing_length 2 (ca_header m)) out;
          m' = m\<lparr>ca_header := h\<rparr>
      in (m', case r of None \<Rightarrow> None
              | Some o' \<Rightarrow> Some (pack_byte (ca_connack_code m') (pack_byte (ca_conn_flags m') o'))))"

definition connack_update_header_var :: "mqtt_connack \<Rightarrow> byte list \<Rightarrow> mqtt_connack hres" where
  "connack_update_header_var m data =
     (if data = [] then Abort
      else if 2 \<le> ca_dlen m then Fail m
      else case fill_buf 2 (ca_buff m) (ca_dlen m) data of
        (buf, n, rest) \<Rightarrow>
          let m' = m\<lparr>ca_buff := buf, ca_dlen := n\<rparr> in
          if n < 2 then (if rest \<noteq> [] then Abort else Ret m' rest)
          else Ret (m'\<lparr>ca_conn_flags := buf ! 0, ca_connack_code := buf ! 1,
                      ca_finished := True\<rparr>) rest)"

definition connack_update :: "mqtt_connack \<Rightarrow> byte list \<Rightarrow> mqtt_connack hres option" where
  "connack_update = update_call ca_finished connack_update_header_var"

lemma connack_update_header_var_cut:
  assumes "xs \<noteq> []" "\<not> ca_finished m"
  shows "cut_ok ca_finished connack_update_header_var m xs"
proof (cases "2 \<le> ca_dlen m")
  case True
  with assms show ?thesis by (simp add: cut_ok_def connack_update_header_var_def)
next
  case False
  show ?thesis
  proof (cases rule: fill_buf_cases [of "ca_dlen m" xs 2 "ca_buff m"])
    case pending
    with False assms show ?thesis
      by (intro cut_ok_pending [where
            s' = "m\<lparr>ca_buff := put_at (ca_buff m) (ca_dlen m) xs, ca_dlen := ca_dlen m + length xs\<rparr>"])
        (auto simp: connack_update_header_var_def)
  next
    case (completed buf' n' rest)
    with False assms show ?thesis
      by (intro cut_ok_done [where rest = rest]) (auto simp: connack_update_header_var_def Let_def)
  qed
qed

interpretation connack: progressing ca_finished connack_update_header_var "\<lambda>_. True" "\<lambda>_. 0"
proof
  fix s s' :: mqtt_connack and xs rest :: "byte list"
  assume s: "\<not> ca_finished s" and xs: "xs \<noteq> []"
  show "cut_ok ca_finished connack_update_header_var s xs"
    using s xs by (rule connack_update_header_var_cut [rotated])
  assume "connack_update_header_var s xs = Ret s' rest"
  with xs show "length rest < length xs \<or> length rest = length xs \<and> (0::nat) < 0"
    by (auto simp: connack_update_header_var_def fill_buf_eq Let_def split: if_splits)
qed simp

section \<open>Round trips\<close>

lemma ack_to_string_eq:
  assumes "ak_pkt_id a \<noteq> 0"
  shows "\<exists>h hb. ack_to_string a out = (a\<lparr>ak_header := h\<rparr>, Some (out @ hb @ [msb (ak_pkt_id a), lsb (ak_pkt_id a)])) \<and>
    build_header h [] = (h, Some hb) \<and> hd_type h = hd_type (ak_header a) \<and> hd_dlen h = 2"
proof -
  let ?h = "set_remaing_length 2 (ak_header a)"
  obtain hb where hb: "build_header ?h [] = (?h, Some hb)"
    using build_header_ok [of ?h] by (auto simp: set_remaing_length_def)
  from build_header_out [OF hb, of out] hb assms show ?thesis
    by (intro exI [of _ ?h] exI [of _ hb])
      (simp add: ack_to_string_def pack_short_eq set_remaing_length_def)
qed

lemma ack_parse_body:
  assumes "ak_hlen a = 0" "\<not> ak_finished a" "length (ak_hbuf a) = 2"
  shows "\<exists>p. ack_update a (msb i # lsb i # rest) = Some (Ret p rest) \<and> ak_finished p \<and> ak_pkt_id p = i \<and>
    ak_header p = ak_header a"
  using assms by (simp add: ack_update_def update_call_def update_loop_step ack_update_header_var_def)

lemma connack_to_string_eq:
  "\<exists>h hb. connack_to_string m out = (m\<lparr>ca_header := h\<rparr>, Some (out @ hb @ [ca_conn_flags m, ca_connack_code m])) \<and>
    build_header h [] = (h, Some hb) \<and> hd_type h = hd_type (ca_header m) \<and> hd_dlen h = 2"
proof -
  let ?h = "set_remaing_length 2 (ca_header m)"
  obtain hb where hb: "build_header ?h [] = (?h, Some hb)"
    using build_header_ok [of ?h] by (auto simp: set_remaing_length_def)
  from build_header_out [OF hb, of out] hb show ?thesis
    by (intro exI [of _ ?h] exI [of _ hb])
      (simp add: connack_to_string_def pack_byte_eq set_remaing_length_def)
qed

lemma connack_parse_body:
  "\<exists>p. connack_update (mqtt_connack_of_header h) (f # c # rest) = Some (Ret p rest) \<and> ca_finished p \<and>
    ca_conn_flags p = f \<and> ca_connack_code p = c \<and> \<not> ca_session p"
  by (simp add: connack_update_def update_call_def update_loop_step connack_update_header_var_def
      mqtt_connack_of_header_def numeral_2_eq_2)

end
