(* ===== verification/MqttPublish.thy ===== *)
theory MqttPublish
  imports MqttMessage
begin

text \<open>
  PUBLISH (\<^verbatim>\<open>mqtt_publish.cpp\<close>): topic, packet identifier (for QoS above 0) and payload. The
  parser has five states; \<^verbatim>\<open>payload_len_\<close> starts as the remaining length of the header and
  becomes the payload length by an unsigned subtraction of what the variable header took.
\<close>

datatype pub_stat = PUB_HDR_VAR | PUB_TOPIC_LEN | PUB_TOPIC_VAL | PUB_PKTID | PUB_PAYLOAD

record mqtt_publish =
  pb_header :: mqtt_header
  pb_status :: pub_stat
  pb_finished :: bool
  pb_buff :: "byte list"
  pb_dlen :: nat
  pb_hlen_var :: u32
  pb_topic :: "byte list"
  pb_pkt_id :: u16
  pb_payload_len :: u32
  pb_payload :: "byte list"

definition mqtt_publish_new :: mqtt_publish where
  "mqtt_publish_new =
     \<lparr>pb_header = mqtt_header_new MQTT_PUBLISH, pb_status = PUB_HDR_VAR, pb_finished = False,
      pb_buff = replicate 2 0, pb_dlen = 0, pb_hlen_var = 0, pb_topic = [], pb_pkt_id = 0,
      pb_payload_len = 0, pb_payload = []\<rparr>"

definition mqtt_publish_of_header :: "mqtt_header \<Rightarrow> mqtt_publish" where
  "mqtt_publish_of_header h =
     \<lparr>pb_header = mqtt_header_copy h, pb_status = PUB_HDR_VAR, pb_finished = False,
      pb_buff = replicate 2 0, pb_dlen = 0, pb_hlen_var = 0, pb_topic = [], pb_pkt_id = 0,
      pb_payload_len = hd_dlen h, pb_payload = []\<rparr>"

definition publish_set_topic :: "byte list \<Rightarrow> mqtt_publish \<Rightarrow> mqtt_publish" where
  "publish_set_topic topic m = m\<lparr>pb_topic := cstr topic\<rparr>"

definition publish_set_pkt_id :: "u16 \<Rightarrow> mqtt_publish \<Rightarrow> mqtt_publish" where
  "publish_set_pkt_id i m = (if 0 < i then m\<lparr>pb_pkt_id := i\<rparr> else m)"

text \<open>\<open>data\<close> is \<^const>\<open>None\<close> for a NULL pointer, and otherwise the \<open>len\<close> bytes it points to.\<close>

definition publish_set_payload :: "u32 \<Rightarrow> byte list option \<Rightarrow> mqtt_publish \<Rightarrow> mqtt_publish" where
  "publish_set_payload len data m =
     (let m' = m\<lparr>pb_payload_len := len\<rparr> in
      case data of
        None \<Rightarrow> m'
      | Some d \<Rightarrow> if 0 < len then m'\<lparr>pb_payload := take (unat len) d\<rparr> else m')"

text \<open>
  \<^verbatim>\<open>out.append(payload_, payload_len_)\<close> copies \<open>payload_len_\<close> bytes from the start of the
  payload's buffer. It stays inside the string exactly if the payload is at least that long;
  otherwise the result of the call is undefined, the outcome \<open>PubUndefined\<close>.
\<close>

datatype pub_out = PubFalse | PubUndefined | PubOk "byte list"

definition publish_to_string :: "mqtt_publish \<Rightarrow> byte list \<Rightarrow> mqtt_publish \<times> pub_out" where
  "publish_to_string m out =
     (if pb_pkt_id m = 0 then (m, PubFalse)
      else
        let len = word_of_nat (length (pb_topic m)) + 2 + pb_payload_len m;
            qos = get_qos (pb_header m);
            len = (if qos \<noteq> MQTT_QOS0 then len + 2 else len);
            h = (if is_dup (pb_header m) \<and> get_qos (pb_header m) = MQTT_QOS0
                 then set_dup False (pb_header m) else pb_header m);
            (h, r) = build_header (set_remaing_length len h) out;
            m' = m\<lparr>pb_header := h\<rparr>
        in (m', case r of
                  None \<Rightarrow> PubFalse
                | Some o1 \<Rightarrow>
                    let o2 = pack_string (pb_topic m') o1;
                        o3 = (if qos \<noteq> MQTT_QOS0 then pack_short (pb_pkt_id m') o2 else o2)
                    in if 0 < pb_payload_len m' \<and> pb_payload m' \<noteq> []
                       then (if unat (pb_payload_len m') \<le> length (pb_payload m')
                             then PubOk (o3 @ take (unat (pb_payload_len m')) (pb_payload m'))
                             else PubUndefined)
                       else PubOk o3))"

section \<open>The parser\<close>

definition pub_update_header_var :: "mqtt_publish \<Rightarrow> byte list \<Rightarrow> mqtt_publish hres" where
  "pub_update_header_var m data =
     (if data = [] then Abort
      else Ret (m\<lparr>pb_dlen := 0, pb_status := PUB_TOPIC_LEN\<rparr>) data)"

definition pub_update_topic_len :: "mqtt_publish \<Rightarrow> byte list \<Rightarrow> mqtt_publish hres" where
  "pub_update_topic_len m data =
     (if data = [] then Abort
      else case fill_buf 2 (pb_buff m) (pb_dlen m) data of
        (buf, n, rest) \<Rightarrow>
          let m' = m\<lparr>pb_buff := buf, pb_dlen := n\<rparr> in
          if n < 2 then (if rest \<noteq> [] then Abort else Ret m' rest)
          else (case unpack_short buf 2 of
                  None \<Rightarrow> Fail m'
                | Some k \<Rightarrow> Ret (m'\<lparr>pb_dlen := unat k, pb_hlen_var := ucast k + 2,
                                   pb_status := PUB_TOPIC_VAL\<rparr>) rest))"

definition pub_update_topic_val :: "mqtt_publish \<Rightarrow> byte list \<Rightarrow> mqtt_publish hres" where
  "pub_update_topic_val m data =
     (if data = [] \<or> pb_dlen m = 0 then Abort
      else case save_chars (pb_topic m) (pb_dlen m) data of
        (s, n, rest) \<Rightarrow>
          let m' = m\<lparr>pb_topic := s, pb_dlen := n\<rparr> in
          if 0 < n then (if rest \<noteq> [] then Abort else Ret m' rest)
          else if get_qos (pb_header m') \<noteq> MQTT_QOS0
          then Ret (m'\<lparr>pb_dlen := 0, pb_status := PUB_PKTID\<rparr>) rest
          else Ret (m'\<lparr>pb_dlen := 0, pb_payload_len := pb_payload_len m' - pb_hlen_var m',
                      pb_status := PUB_PAYLOAD\<rparr>) rest)"

text \<open>The end of \<^verbatim>\<open>update_pktid\<close>, once the two bytes of the identifier are there.\<close>

definition pub_pktid_read :: "mqtt_publish \<Rightarrow> byte list \<Rightarrow> mqtt_publish hres" where
  "pub_pktid_read m rest =
     (let m2 = m\<lparr>pb_hlen_var := pb_hlen_var m + 2\<rparr> in
      if pb_payload_len m2 = 0 then Ret (m2\<lparr>pb_finished := True\<rparr>) rest
      else if pb_payload_len m2 < pb_hlen_var m2 then Fail m2
      else
        let m3 = m2\<lparr>pb_payload_len := pb_payload_len m2 - pb_hlen_var m2\<rparr> in
        if pb_payload_len m3 = 0 then Ret (m3\<lparr>pb_finished := True\<rparr>) rest
        else Ret (m3\<lparr>pb_status := PUB_PAYLOAD\<rparr>) rest)"

definition pub_update_pktid :: "mqtt_publish \<Rightarrow> byte list \<Rightarrow> mqtt_publish hres" where
  "pub_update_pktid m data =
     (if data = [] then Abort
      else if 2 \<le> pb_dlen m then Fail m
      else case fill_buf 2 (pb_buff m) (pb_dlen m) data of
        (buf, n, rest) \<Rightarrow>
          let m' = m\<lparr>pb_buff := buf, pb_dlen := n\<rparr> in
          if n < 2 then (if rest \<noteq> [] then Abort else Ret m' rest)
          else (case unpack_short buf 2 of
                  None \<Rightarrow> Fail m'
                | Some i \<Rightarrow> pub_pktid_read (m'\<lparr>pb_pkt_id := i\<rparr>) rest))"

definition pub_update_payload :: "mqtt_publish \<Rightarrow> byte list \<Rightarrow> mqtt_publish hres" where
  "pub_update_payload m data =
     (if data = [] \<or> \<not> length (pb_payload m) < unat (pb_payload_len m) then Abort
      else
        let left = unat (pb_payload_len m) - length (pb_payload m);
            i = min left (length data);
            m' = m\<lparr>pb_payload := pb_payload m @ take i data\<rparr>
        in Ret (if i = left then m'\<lparr>pb_finished := True\<rparr> else m') (drop i data))"

definition pub_handler :: "mqtt_publish \<Rightarrow> byte list \<Rightarrow> mqtt_publish hres" where
  "pub_handler m =
     (case pb_status m of
        PUB_HDR_VAR \<Rightarrow> pub_update_header_var m
      | PUB_TOPIC_LEN \<Rightarrow> pub_update_topic_len m
      | PUB_TOPIC_VAL \<Rightarrow> pub_update_topic_val m
      | PUB_PKTID \<Rightarrow> pub_update_pktid m
      | PUB_PAYLOAD \<Rightarrow> pub_update_payload m)"

definition publish_update :: "mqtt_publish \<Rightarrow> byte list \<Rightarrow> mqtt_publish hres option" where
  "publish_update = update_call pb_finished pub_handler"

lemmas pub_defs =
  pub_handler_def pub_update_header_var_def pub_update_topic_len_def pub_update_topic_val_def
  pub_update_pktid_def pub_update_payload_def

section \<open>The streaming contract\<close>

lemma pub_len_cut:
  assumes "xs \<noteq> []" "\<not> pb_finished m" "pb_status m = PUB_TOPIC_LEN"
  shows "cut_ok pb_finished pub_handler m xs"
proof (cases rule: fill_buf_cases [of "pb_dlen m" xs 2 "pb_buff m"])
  case pending
  with assms show ?thesis
    by (intro cut_ok_pending [where
          s' = "m\<lparr>pb_buff := put_at (pb_buff m) (pb_dlen m) xs, pb_dlen := pb_dlen m + length xs\<rparr>"])
      (auto simp: pub_handler_def pub_update_topic_len_def)
next
  case (completed buf' n' rest)
  with assms show ?thesis
    by (intro cut_ok_done [where rest = rest]) (auto simp: pub_handler_def pub_update_topic_len_def Let_def)
qed

lemma pub_topic_cut:
  assumes "xs \<noteq> []" "\<not> pb_finished m" "pb_status m = PUB_TOPIC_VAL"
  shows "cut_ok pb_finished pub_handler m xs"
proof (cases "pb_dlen m = 0")
  case True
  with assms show ?thesis by (intro cut_ok_abort) (auto simp: pub_handler_def pub_update_topic_val_def)
next
  case False
  show ?thesis
  proof (cases rule: save_chars_cases [of xs "pb_dlen m" "pb_topic m"])
    case pending
    with False assms show ?thesis
      by (intro cut_ok_pending [where s' =
            "m\<lparr>pb_topic := pb_topic m @ filter (\<lambda>c. c \<noteq> 0) xs, pb_dlen := pb_dlen m - length xs\<rparr>"])
        (auto simp: pub_handler_def pub_update_topic_val_def)
  next
    case (completed s' rest)
    with False assms show ?thesis
      by (cases "get_qos (pb_header m) = MQTT_QOS0")
        (auto intro!: cut_ok_done [where rest = rest] simp: pub_handler_def pub_update_topic_val_def Let_def)
  qed
qed

text \<open>The end of the packet identifier's handler does not look at the data.\<close>

lemma pub_pktid_read_more:
  "case pub_pktid_read m rest of
     Abort \<Rightarrow> False
   | Fail m' \<Rightarrow> pub_pktid_read m (rest @ ys) = Fail m'
   | Ret m' r \<Rightarrow> pub_pktid_read m (rest @ ys) = Ret m' (r @ ys)"
  by (simp add: pub_pktid_read_def Let_def)

lemma pub_pktid_read_Ret: "pub_pktid_read m r = Ret m' r' \<Longrightarrow> r' = r"
  by (auto simp: pub_pktid_read_def Let_def split: if_splits)

lemma pub_pktid_cut:
  assumes "xs \<noteq> []" "\<not> pb_finished m" "pb_status m = PUB_PKTID"
  shows "cut_ok pb_finished pub_handler m xs"
proof (cases "2 \<le> pb_dlen m")
  case True
  with assms show ?thesis by (intro cut_ok_fail) (auto simp: pub_handler_def pub_update_pktid_def)
next
  case False
  show ?thesis
  proof (cases rule: fill_buf_cases [of "pb_dlen m" xs 2 "pb_buff m"])
    case pending
    with False assms show ?thesis
      by (intro cut_ok_pending [where
            s' = "m\<lparr>pb_buff := put_at (pb_buff m) (pb_dlen m) xs, pb_dlen := pb_dlen m + length xs\<rparr>"])
        (auto simp: pub_handler_def pub_update_pktid_def)
  next
    case (completed buf' n' rest)
    let ?m = "m\<lparr>pb_buff := buf', pb_dlen := n', pb_pkt_id := get_short buf'\<rparr>"
    have h: "pub_handler m xs = pub_pktid_read ?m rest"
        "pub_handler m (xs @ ys) = pub_pktid_read ?m (rest @ ys)" for ys
      using completed False assms by (simp_all add: pub_handler_def pub_update_pktid_def)
    then show ?thesis
      using pub_pktid_read_more [of ?m rest] by (cases "pub_pktid_read ?m rest") (auto simp: cut_ok_def)
  qed
qed

lemma pub_payload_cut:
  assumes "xs \<noteq> []" "\<not> pb_finished m" "pb_status m = PUB_PAYLOAD"
  shows "cut_ok pb_finished pub_handler m xs"
proof (cases "length (pb_payload m) < unat (pb_payload_len m)")
  case False
  with assms show ?thesis by (intro cut_ok_abort) (auto simp: pub_handler_def pub_update_payload_def)
next
  case True
  show ?thesis
  proof (cases "length (pb_payload m) + length xs < unat (pb_payload_len m)")
    case less: True
    let ?l = "unat (pb_payload_len m) - length (pb_payload m)"
    have "\<not> length xs = ?l" "min ?l (length xs) = length xs" using less by linarith+
    then have "pub_handler m xs = Ret (m\<lparr>pb_payload := pb_payload m @ xs\<rparr>) []"
      using True assms by (simp add: pub_handler_def pub_update_payload_def Let_def)
    then show ?thesis
    proof (rule cut_ok_pending)
      show "\<not> pb_finished (m\<lparr>pb_payload := pb_payload m @ xs\<rparr>)" using assms by simp
      fix ys :: "byte list"
      assume ys: "ys \<noteq> []"
      define k where "k = ?l - length xs"
      have k: "?l = length xs + k" "length (pb_payload m) + length xs < unat (pb_payload_len m)"
          "unat (pb_payload_len m) - (length (pb_payload m) + length xs) = k"
        using less by (auto simp: k_def)
      have "min ?l (length (xs @ ys)) = length xs + min k (length ys)" using k(1) by simp
      with k True ys assms show "pub_handler m (xs @ ys) = pub_handler (m\<lparr>pb_payload := pb_payload m @ xs\<rparr>) ys"
        by (simp add: pub_handler_def pub_update_payload_def Let_def)
    qed
  next
    case False
    then have i: "min (unat (pb_payload_len m) - length (pb_payload m)) (length (xs @ ys)) =
        unat (pb_payload_len m) - length (pb_payload m)" for ys by auto
    from i [of "[]"] i True assms show ?thesis
      by (intro cut_ok_done [where rest = "drop (unat (pb_payload_len m) - length (pb_payload m)) xs"])
        (auto simp: pub_handler_def pub_update_payload_def Let_def)
  qed
qed

text \<open>Every handler takes at least one byte or moves on to a later state.\<close>

fun pub_rank_of :: "pub_stat \<Rightarrow> nat" where
  "pub_rank_of PUB_HDR_VAR = 4"
| "pub_rank_of PUB_TOPIC_LEN = 3"
| "pub_rank_of PUB_TOPIC_VAL = 2"
| "pub_rank_of PUB_PKTID = 1"
| "pub_rank_of PUB_PAYLOAD = 0"

lemma pub_handler_progress:
  assumes "xs \<noteq> []" "pub_handler m xs = Ret m' rest"
  shows "length rest < length xs \<or>
    length rest = length xs \<and> pub_rank_of (pb_status m') < pub_rank_of (pb_status m)"
proof (cases "pb_status m")
  case PUB_HDR_VAR
  with assms show ?thesis by (auto simp: pub_handler_def pub_update_header_var_def)
next
  case PUB_TOPIC_LEN
  with assms show ?thesis
    by (cases "2 \<le> pb_dlen m")
      (auto simp: pub_handler_def pub_update_topic_len_def fill_buf_eq Let_def split: if_splits)
next
  case PUB_TOPIC_VAL
  with assms show ?thesis
    by (auto simp: pub_handler_def pub_update_topic_val_def save_chars_eq Let_def split: if_splits)
next
  case PUB_PKTID
  then have h: "pub_handler m xs = pub_update_pktid m xs" by (simp add: pub_handler_def)
  have "length rest < length xs"
  proof (cases "2 \<le> pb_dlen m")
    case True
    with assms h show ?thesis by (simp add: pub_update_pktid_def)
  next
    case False
    show ?thesis
    proof (cases rule: fill_buf_cases [of "pb_dlen m" xs 2 "pb_buff m"])
      case pending
      with False assms h show ?thesis by (auto simp: pub_update_pktid_def)
    next
      case (completed buf' n' rest')
      with False assms h have "rest = rest'"
        by (auto simp: pub_update_pktid_def dest: pub_pktid_read_Ret)
      with completed False assms show ?thesis by (cases xs) auto
    qed
  qed
  then show ?thesis ..
next
  case PUB_PAYLOAD
  with assms show ?thesis
    by (auto simp: pub_handler_def pub_update_payload_def Let_def split: if_splits)
qed

interpretation publish: progressing pb_finished pub_handler "\<lambda>_. True" "\<lambda>m. pub_rank_of (pb_status m)"
proof
  fix s s' :: mqtt_publish and xs rest :: "byte list"
  assume s: "\<not> pb_finished s" and xs: "xs \<noteq> []"
  show "cut_ok pb_finished pub_handler s xs"
  proof (cases "pb_status s")
    case PUB_HDR_VAR
    with s xs show ?thesis
      by (intro cut_ok_done) (auto simp: pub_handler_def pub_update_header_var_def)
  next
    case PUB_TOPIC_LEN
    with xs s show ?thesis by (rule pub_len_cut)
  next
    case PUB_TOPIC_VAL
    with xs s show ?thesis by (rule pub_topic_cut)
  next
    case PUB_PKTID
    with xs s show ?thesis by (rule pub_pktid_cut)
  next
    case PUB_PAYLOAD
    with xs s show ?thesis by (rule pub_payload_cut)
  qed
  assume "pub_handler s xs = Ret s' rest"
  with xs show "length rest < length xs \<or>
      length rest = length xs \<and> pub_rank_of (pb_status s') < pub_rank_of (pb_status s)"
    by (rule pub_handler_progress)
qed simp

section \<open>Writing, and what is read back\<close>

definition pub_body :: "mqtt_publish \<Rightarrow> byte list" where
  "pub_body m = str_entry (pb_topic m) @
     (if get_qos (pb_header m) = MQTT_QOS0 then [] else [msb (pb_pkt_id m), lsb (pb_pkt_id m)]) @
     pb_payload m"

text \<open>\<^verbatim>\<open>payload_len_\<close> is the length of the payload: what \<^verbatim>\<open>set_payload\<close> establishes.\<close>

definition pub_made :: "mqtt_publish \<Rightarrow> bool" where
  "pub_made m \<longleftrightarrow> hd_type (pb_header m) = MQTT_PUBLISH \<and> unat (pb_payload_len m) = length (pb_payload m)"

lemma pub_made_new: "pub_made mqtt_publish_new"
  by (simp add: pub_made_def mqtt_publish_new_def mqtt_header_new_def)

lemma pub_made_set_payload:
  "pub_made m \<Longrightarrow> unat len \<le> length d \<Longrightarrow> 0 < len \<Longrightarrow> pub_made (publish_set_payload len (Some d) m)"
  by (simp add: pub_made_def publish_set_payload_def)

lemma pub_made_set_topic: "pub_made m \<Longrightarrow> pub_made (publish_set_topic t m)"
  by (simp add: pub_made_def publish_set_topic_def)

lemma pub_made_set_pkt_id: "pub_made m \<Longrightarrow> pub_made (publish_set_pkt_id i m)"
  by (simp add: pub_made_def publish_set_pkt_id_def)

lemma pub_header_fields [simp]:
  "hd_type (set_dup b h) = hd_type h" "hd_type (set_remaing_length d h) = hd_type h"
  "hd_dlen (set_remaing_length d h) = d" "get_qos (set_remaing_length d h) = get_qos h"
  by (simp_all add: set_dup_def set_remaing_length_def get_qos_def)

lemma publish_to_string_eq:
  assumes "pub_made m" "pb_pkt_id m \<noteq> 0" "length (pb_topic m) < 65536"
    and len: "length (pub_body m) < 268435456"
  shows "\<exists>h hb. publish_to_string m out = (m\<lparr>pb_header := h\<rparr>, PubOk (out @ hb @ pub_body m)) \<and>
    build_header h [] = (h, Some hb) \<and> hd_type h = MQTT_PUBLISH \<and>
    unat (hd_dlen h) = length (pub_body m) \<and> get_qos h = get_qos (pb_header m)"
proof -
  let ?q0 = "get_qos (pb_header m) = MQTT_QOS0"
  let ?len = "word_of_nat (length (pb_topic m)) + 2 + pb_payload_len m + (if ?q0 then 0 else 2)"
  let ?h = "set_remaing_length ?len
    (if is_dup (pb_header m) \<and> ?q0 then set_dup False (pb_header m) else pb_header m)"
  have "?len = word_of_nat (length (pub_body m))"
    using assms(1) word_eq_of_nat [of "pb_payload_len m"] by (simp add: pub_made_def pub_body_def)
  with len have dlen: "unat ?len = length (pub_body m)" by (simp add: unat_of_nat)
  with len obtain hb where hb: "build_header ?h [] = (?h, Some hb)"
    using build_header_ok [of ?h] by (auto simp: unat_less_iff)
  then have b: "build_header ?h out = (?h, Some (out @ hb))" by (rule build_header_out)
  have "(0 < pb_payload_len m) = (pb_payload m \<noteq> [])"
    using assms(1) by (simp add: pub_made_def unat_less_iff)
  then have "publish_to_string m out = (m\<lparr>pb_header := ?h\<rparr>, PubOk (out @ hb @ pub_body m))"
    using assms b
    by (cases ?q0) (auto simp: publish_to_string_def pub_body_def Let_def pack_string_entry pack_short_eq pub_made_def)
  moreover have "hd_type ?h = MQTT_PUBLISH" "get_qos ?h = get_qos (pb_header m)"
    using assms(1) by (simp_all add: pub_made_def)
  ultimately show ?thesis using hb dlen by (intro exI [of _ ?h] exI [of _ hb]) simp
qed

text \<open>The parse up to the end of the topic.\<close>

lemma publish_parse_topic:
  assumes "topic_ok t"
  shows "publish_update (mqtt_publish_of_header h) (str_entry t @ rest) =
    (let p = (mqtt_publish_of_header h)\<lparr>pb_buff := [msb (word_of_nat (length t)), lsb (word_of_nat (length t))],
           pb_dlen := 0, pb_hlen_var := word_of_nat (length t) + 2, pb_topic := t\<rparr>
     in update_loop pb_finished pub_handler
       (if get_qos h \<noteq> MQTT_QOS0 then p\<lparr>pb_status := PUB_PKTID\<rparr>
        else p\<lparr>pb_payload_len := hd_dlen h - (word_of_nat (length t) + 2), pb_status := PUB_PAYLOAD\<rparr>) rest)"
proof -
  let ?n = "word_of_nat (length t) :: u16" and ?p = "mqtt_publish_of_header h"
  let ?p1 = "?p\<lparr>pb_dlen := 0, pb_status := PUB_TOPIC_LEN\<rparr>"
  let ?p2 = "?p1\<lparr>pb_buff := [msb ?n, lsb ?n], pb_dlen := length t,
      pb_hlen_var := word_of_nat (length t) + 2, pb_status := PUB_TOPIC_VAL\<rparr>"
  let ?p4 = "?p2\<lparr>pb_topic := t, pb_dlen := 0\<rparr>"
  let ?p3 = "if get_qos h \<noteq> MQTT_QOS0 then ?p4\<lparr>pb_status := PUB_PKTID\<rparr>
    else ?p4\<lparr>pb_payload_len := hd_dlen h - (word_of_nat (length t) + 2), pb_status := PUB_PAYLOAD\<rparr>"
  have t: "0 < length t" "length t < 65536" "t \<noteq> []" "no_nul t" using assms by (auto simp: topic_ok_def)
  have hv: "ucast ?n = (word_of_nat (length t) :: u32)"
    using t by (simp add: ucast_of_nat_short)
  have q: "get_qos (mqtt_header_copy h) = get_qos h" by (simp add: get_qos_def mqtt_header_copy_def)
  have r: "replicate 2 (0::byte) = [0, 0]" by (simp add: numeral_2_eq_2)
  have 1: "pub_handler ?p (str_entry t @ rest) = Ret ?p1 (str_entry t @ rest)"
    by (simp add: pub_handler_def pub_update_header_var_def mqtt_publish_of_header_def str_entry_def)
  have 2: "pub_handler ?p1 (msb ?n # lsb ?n # t @ rest) = Ret ?p2 (t @ rest)"
    using t by (simp add: pub_handler_def pub_update_topic_len_def mqtt_publish_of_header_def hv r unat_length_short)
  have 3: "pub_handler ?p2 (t @ rest) = Ret ?p3 rest"
    using t by (simp add: pub_handler_def pub_update_topic_val_def mqtt_publish_of_header_def save_chars_exact q Let_def)
  have "\<not> pb_finished ?p" "\<not> pb_finished ?p1" "\<not> pb_finished ?p2"
    by (simp_all add: mqtt_publish_of_header_def)
  then have "publish_update ?p (str_entry t @ rest) = update_loop pb_finished pub_handler ?p3 rest"
    using 1 2 3 t
    by (simp add: publish_update_def update_call_def update_loop_step)
      (simp add: str_entry_def update_loop_step)
  then show ?thesis by (simp add: Let_def mqtt_publish_of_header_def)
qed

lemma publish_parse_payload:
  assumes "pb_status p = PUB_PAYLOAD" "\<not> pb_finished p" "pb_payload p = []" "d \<noteq> []"
    and "unat (pb_payload_len p) = length d"
  shows "update_loop pb_finished pub_handler p (d @ rest) =
    Some (Ret (p\<lparr>pb_payload := d, pb_finished := True\<rparr>) rest)"
  using assms by (simp add: update_loop_step pub_handler_def pub_update_payload_def Let_def)

lemma publish_parse_body:
  assumes "topic_ok (pb_topic m)" "unat (hd_dlen h) = length (pub_body m)"
    and q: "get_qos h = get_qos (pb_header m)" "get_qos h = MQTT_QOS0 \<Longrightarrow> pb_payload m \<noteq> []"
  shows "\<exists>p. publish_update (mqtt_publish_of_header h) (pub_body m @ rest) = Some (Ret p rest) \<and>
    pb_finished p \<and> pb_topic p = pb_topic m \<and> pb_payload p = pb_payload m \<and>
    pb_pkt_id p = (if get_qos h = MQTT_QOS0 then 0 else pb_pkt_id m) \<and> pb_header p = mqtt_header_copy h"
proof -
  let ?t = "pb_topic m" and ?d = "pb_payload m" and ?i = "pb_pkt_id m"
  have t: "?t \<noteq> []" "length ?t < 65536" using assms by (auto simp: topic_ok_def)
  show ?thesis
  proof (cases "get_qos h = MQTT_QOS0")
    case True
    let ?p = "mqtt_publish_of_header h"
    have "hd_dlen h = word_of_nat (length (pub_body m))"
      using assms(2) by (rule word_eq_of_nat)
    then have "hd_dlen h - (word_of_nat (length ?t) + 2) = word_of_nat (length ?d)"
      using True q by (simp add: pub_body_def)
    moreover have "length ?d < 2 ^ 32"
      using assms(2) unsigned_less [of "hd_dlen h", where 'a=nat] by (simp add: pub_body_def)
    ultimately have "unat (hd_dlen h - (word_of_nat (length ?t) + 2)) = length ?d"
      by (simp add: unat_of_nat)
    then show ?thesis
      using True q publish_parse_topic [OF assms(1), of h "?d @ rest"]
      by (simp add: pub_body_def Let_def publish_parse_payload mqtt_publish_of_header_def)
  next
    case False
    define p1 where "p1 = (mqtt_publish_of_header h)\<lparr>pb_buff :=
        [msb (word_of_nat (length ?t)), lsb (word_of_nat (length ?t))],
      pb_dlen := 0, pb_hlen_var := word_of_nat (length ?t) + 2, pb_topic := ?t, pb_status := PUB_PKTID\<rparr>"
    define p2 where "p2 = p1\<lparr>pb_buff := [msb ?i, lsb ?i], pb_dlen := 2, pb_pkt_id := ?i,
      pb_hlen_var := word_of_nat (length ?t) + 2 + 2, pb_payload_len := word_of_nat (length ?d)\<rparr>"
    define p3 where "p3 = (if ?d = [] then p2\<lparr>pb_finished := True\<rparr> else p2\<lparr>pb_status := PUB_PAYLOAD\<rparr>)"
    have dl: "hd_dlen h = word_of_nat (length (pub_body m))"
      using assms(2) by (rule word_eq_of_nat)
    have sub: "hd_dlen h - (word_of_nat (length ?t) + 2 + 2) = word_of_nat (length ?d)"
      using False q dl by (simp add: pub_body_def)
    have dlt: "length ?d < 2 ^ 32"
      using assms(2) unsigned_less [of "hd_dlen h", where 'a=nat] by (simp add: pub_body_def)
    then have d: "unat (word_of_nat (length ?d) :: u32) = length ?d" by (simp add: unat_of_nat)
    then have d0: "(word_of_nat (length ?d) :: u32) = 0 \<longleftrightarrow> ?d = []" by (metis length_0_conv unat_eq_zero)
    have hv: "unat (word_of_nat (length ?t) + 2 + 2 :: u32) = length ?t + 4"
      using t by (simp add: unat_word_ariths unat_of_nat)
    have le: "\<not> hd_dlen h < word_of_nat (length ?t) + 2 + 2"
      using assms(2) False q unfolding unat_less_iff hv by (simp add: pub_body_def)
    have dne: "hd_dlen h \<noteq> 0" using assms(2) by (auto simp: pub_body_def)
    have 1: "pub_handler p1 (msb ?i # lsb ?i # ?d @ rest) = Ret p3 (?d @ rest)"
      using le dne sub d0
      by (simp add: pub_handler_def pub_update_pktid_def pub_pktid_read_def p1_def p2_def p3_def
          mqtt_publish_of_header_def Let_def)
    have "update_loop pb_finished pub_handler p3 (?d @ rest) =
        Some (Ret (if ?d = [] then p3 else p3\<lparr>pb_payload := ?d, pb_finished := True\<rparr>) rest)"
      using d by (cases "?d = []")
        (simp_all add: p3_def p2_def p1_def publish_parse_payload mqtt_publish_of_header_def)
    moreover have "publish_update (mqtt_publish_of_header h) (pub_body m @ rest) =
        update_loop pb_finished pub_handler p3 (?d @ rest)"
    proof -
      have "publish_update (mqtt_publish_of_header h) (pub_body m @ rest) =
          update_loop pb_finished pub_handler p1 (msb ?i # lsb ?i # ?d @ rest)"
        using False q publish_parse_topic [OF assms(1), of h "msb ?i # lsb ?i # ?d @ rest"]
        by (simp add: pub_body_def Let_def p1_def)
      moreover have "\<not> pb_finished p1" by (simp add: p1_def mqtt_publish_of_header_def)
      ultimately show ?thesis using 1 by (simp add: update_loop_step)
    qed
    ultimately show ?thesis
      using False by (cases "?d = []") (simp_all add: p3_def p2_def p1_def mqtt_publish_of_header_def)
  qed
qed

text \<open>
  A QoS 0 message without a payload: all its bytes are taken, but the parser is left waiting
  for a payload of length 0, and the next byte runs into the \<^verbatim>\<open>assert\<close> of \<^verbatim>\<open>update_payload\<close>.
\<close>

lemma publish_qos0_empty:
  assumes "topic_ok t" "get_qos h = MQTT_QOS0" "unat (hd_dlen h) = 2 + length t"
  shows "\<exists>p. publish_update (mqtt_publish_of_header h) (str_entry t) = Some (Ret p []) \<and>
    \<not> pb_finished p \<and> pb_topic p = t \<and> (\<forall>c cs. publish_update p (c # cs) = Some Abort)"
proof -
  have "hd_dlen h = word_of_nat (2 + length t)" using assms(3) by (rule word_eq_of_nat)
  then have "hd_dlen h - (word_of_nat (length t) + 2) = 0" by simp
  then show ?thesis
    using assms publish_parse_topic [OF assms(1), of h "[]"]
    by (simp add: Let_def mqtt_publish_of_header_def publish_update_def update_call_def update_loop_aborted
        pub_handler_def pub_update_payload_def)
qed

end
