(* ===== verification/MqttSubscribe.thy ===== *)
theory MqttSubscribe
  imports MqttMessage
begin

text \<open>
  SUBSCRIBE (\<^verbatim>\<open>mqtt_subscribe.cpp\<close>) and its acknowledgement SUBACK (\<^verbatim>\<open>mqtt_suback.cpp\<close>).
  Both count the bytes they have read in \<^verbatim>\<open>nread_\<close> and stop when the count reaches
  \<^verbatim>\<open>body_len_\<close>, the remaining length of the header. Both counters are 32-bit and wrap. The
  constructors from a header start from a fresh header of their own type: only the remaining
  length is taken over.
\<close>

section \<open>SUBSCRIBE\<close>

datatype sub_stat = SUB_HDR_VAR | SUB_TOPIC_LEN | SUB_TOPIC_VAL | SUB_TOPIC_QOS

record mqtt_subscribe =
  sb_header :: mqtt_header
  sb_status :: sub_stat
  sb_finished :: bool
  sb_buff :: "byte list"
  sb_dlen :: nat
  sb_pkt_id :: u16
  sb_topics :: "byte list list"
  sb_qoses :: "mqtt_qos list"
  sb_body_len :: u32
  sb_nread :: u32
  sb_topic :: "byte list"

definition mqtt_subscribe_new :: mqtt_subscribe where
  "mqtt_subscribe_new =
     \<lparr>sb_header = mqtt_header_new MQTT_SUBSCRIBE, sb_status = SUB_HDR_VAR, sb_finished = False,
      sb_buff = replicate 2 0, sb_dlen = 0, sb_pkt_id = 0, sb_topics = [], sb_qoses = [],
      sb_body_len = 0, sb_nread = 0, sb_topic = []\<rparr>"

definition mqtt_subscribe_of_header :: "mqtt_header \<Rightarrow> mqtt_subscribe" where
  "mqtt_subscribe_of_header h =
     \<lparr>sb_header = mqtt_header_new MQTT_SUBSCRIBE, sb_status = SUB_HDR_VAR, sb_finished = False,
      sb_buff = replicate 2 0, sb_dlen = 0, sb_pkt_id = 0, sb_topics = [], sb_qoses = [],
      sb_body_len = hd_dlen h, sb_nread = 0, sb_topic = []\<rparr>"

definition subscribe_set_pkt_id :: "u16 \<Rightarrow> mqtt_subscribe \<Rightarrow> mqtt_subscribe" where
  "subscribe_set_pkt_id i m = (if 0 < i then m\<lparr>sb_pkt_id := i\<rparr> else m)"

definition subscribe_add_topic :: "byte list \<Rightarrow> mqtt_qos \<Rightarrow> mqtt_subscribe \<Rightarrow> mqtt_subscribe" where
  "subscribe_add_topic topic qos m =
     m\<lparr>sb_topics := sb_topics m @ [cstr topic], sb_qoses := sb_qoses m @ [qos],
       sb_body_len := sb_body_len m + (2 + word_of_nat (length (cstr topic)) + 1)\<rparr>"

definition subscribe_to_string :: "mqtt_subscribe \<Rightarrow> byte list \<Rightarrow> mqtt_subscribe \<times> byte list option" where
  "subscribe_to_string m out =
     (if sb_topics m = [] then (m, None)
      else
        let m1 = m\<lparr>sb_body_len := sb_body_len m + 2\<rparr>;
            h0 = set_remaing_length (sb_body_len m1) (set_header_flags 0x02 (sb_header m1));
            (h, r) = build_header h0 out;
            m2 = m1\<lparr>sb_header := h\<rparr>
        in (m2, case r of
                  None \<Rightarrow> None
                | Some o1 \<Rightarrow>
                    Some (fold (\<lambda>i s. pack_byte (mqtt_qos_code (sb_qoses m2 ! i))
                                        (pack_string (sb_topics m2 ! i) s))
                            [0..<length (sb_topics m2)] (pack_short (sb_pkt_id m2) o1))))"

definition sub_update_header_var :: "mqtt_subscribe \<Rightarrow> byte list \<Rightarrow> mqtt_subscribe hres" where
  "sub_update_header_var m data =
     (if data = [] then Abort
      else if 2 \<le> sb_nread m then Fail m
      else case fill_buf 2 (sb_buff m) (unat (sb_nread m)) data of
        (buf, n, rest) \<Rightarrow>
          let m' = m\<lparr>sb_buff := buf, sb_nread := word_of_nat n\<rparr> in
          if n < 2 then (if rest \<noteq> [] then Abort else Ret m' rest)
          else (case unpack_short buf 2 of
                  None \<Rightarrow> Fail m'
                | Some i \<Rightarrow>
                    let m2 = m'\<lparr>sb_pkt_id := i\<rparr> in
                    if sb_body_len m2 \<le> sb_nread m2 then Fail m2
                    else Ret (m2\<lparr>sb_dlen := 0, sb_status := SUB_TOPIC_LEN\<rparr>) rest))"

definition sub_update_topic_len :: "mqtt_subscribe \<Rightarrow> byte list \<Rightarrow> mqtt_subscribe hres" where
  "sub_update_topic_len m data =
     (if data = [] then Abort
      else case fill_buf 2 (sb_buff m) (sb_dlen m) data of
        (buf, n, rest) \<Rightarrow>
          let m' = m\<lparr>sb_buff := buf, sb_dlen := n,
                     sb_nread := sb_nread m + word_of_nat (n - sb_dlen m)\<rparr> in
          if n < 2 then (if rest \<noteq> [] then Abort else Ret m' rest)
          else (case unpack_short buf 2 of
                  None \<Rightarrow> Fail m'
                | Some k \<Rightarrow>
                    if k = 0 then Fail m'
                    else if sb_body_len m' \<le> sb_nread m' then Fail m'
                    else Ret (m'\<lparr>sb_dlen := unat k, sb_status := SUB_TOPIC_VAL\<rparr>) rest))"

definition sub_update_topic_val :: "mqtt_subscribe \<Rightarrow> byte list \<Rightarrow> mqtt_subscribe hres" where
  "sub_update_topic_val m data =
     (if data = [] \<or> sb_dlen m = 0 then Abort
      else case save_chars (sb_topic m) (sb_dlen m) data of
        (s, n, rest) \<Rightarrow>
          let m' = m\<lparr>sb_topic := s, sb_dlen := n\<rparr> in
          if 0 < n then (if rest \<noteq> [] then Abort else Ret m' rest)
          else Ret (m'\<lparr>sb_nread := sb_nread m' + word_of_nat (length s), sb_dlen := 0,
                      sb_status := SUB_TOPIC_QOS\<rparr>) rest)"

text \<open>
  The granted or requested QoS byte, read through a signed \<^verbatim>\<open>char\<close>: everything that is not 0, 1
  or 2 becomes QoS 0, in particular the failure code 0x80 of a SUBACK, which is negative.
\<close>

definition qos_of_byte :: "byte \<Rightarrow> mqtt_qos" where
  "qos_of_byte c =
     (let q = sint c in
      if q < 0 \<or> q > 0x80 \<or> q > 2 then MQTT_QOS0
      else if q = 0 then MQTT_QOS0 else if q = 1 then MQTT_QOS1 else MQTT_QOS2)"

definition sub_update_topic_qos :: "mqtt_subscribe \<Rightarrow> byte list \<Rightarrow> mqtt_subscribe hres" where
  "sub_update_topic_qos m data =
     (case data of
        [] \<Rightarrow> Abort
      | c # rest \<Rightarrow>
          if sb_topic m = [] then Fail m
          else
            let m' = m\<lparr>sb_nread := sb_nread m + 1, sb_topics := sb_topics m @ [sb_topic m],
                       sb_topic := [], sb_qoses := sb_qoses m @ [qos_of_byte c]\<rparr> in
            if sb_body_len m' \<le> sb_nread m' then Ret (m'\<lparr>sb_finished := True\<rparr>) rest
            else Ret (m'\<lparr>sb_dlen := 0, sb_status := SUB_TOPIC_LEN\<rparr>) rest)"

definition sub_handler :: "mqtt_subscribe \<Rightarrow> byte list \<Rightarrow> mqtt_subscribe hres" where
  "sub_handler m =
     (case sb_status m of
        SUB_HDR_VAR \<Rightarrow> sub_update_header_var m
      | SUB_TOPIC_LEN \<Rightarrow> sub_update_topic_len m
      | SUB_TOPIC_VAL \<Rightarrow> sub_update_topic_val m
      | SUB_TOPIC_QOS \<Rightarrow> sub_update_topic_qos m)"

definition subscribe_update :: "mqtt_subscribe \<Rightarrow> byte list \<Rightarrow> mqtt_subscribe hres option" where
  "subscribe_update = update_call sb_finished sub_handler"

subsection \<open>The streaming contract\<close>

lemma sub_hdr_cut:
  assumes "xs \<noteq> []" "\<not> sb_finished m" "sb_status m = SUB_HDR_VAR"
  shows "cut_ok sb_finished sub_handler m xs"
proof (cases "2 \<le> sb_nread m")
  case True
  with assms show ?thesis by (intro cut_ok_fail) (auto simp: sub_handler_def sub_update_header_var_def)
next
  case False
  then have less: "unat (sb_nread m) < 2" by (simp add: unat_le_iff)
  show ?thesis
  proof (cases rule: fill_buf_cases [of "unat (sb_nread m)" xs 2 "sb_buff m"])
    case pending
    let ?n = "unat (sb_nread m) + length xs"
    have n: "unat (word_of_nat ?n :: u32) = ?n" "\<not> (2::u32) \<le> word_of_nat ?n"
      using pending(1) by (auto simp del: of_nat_add simp: unat_of_nat unat_le_iff)
    from pending False assms n show ?thesis
      by (intro cut_ok_pending [where s' = "m\<lparr>sb_buff := put_at (sb_buff m) (unat (sb_nread m)) xs,
            sb_nread := word_of_nat ?n\<rparr>"])
        (simp_all add: sub_handler_def sub_update_header_var_def)
  next
    case (completed buf' n' rest)
    show ?thesis
    proof (cases "sb_body_len m \<le> word_of_nat n'")
      case True
      with completed False less assms show ?thesis
        by (intro cut_ok_fail) (auto simp: sub_handler_def sub_update_header_var_def Let_def)
    next
      case False
      with completed \<open>\<not> 2 \<le> sb_nread m\<close> less assms show ?thesis
        by (intro cut_ok_done [where rest = rest])
          (auto simp: sub_handler_def sub_update_header_var_def Let_def)
    qed
  qed
qed

lemma sub_len_cut:
  assumes "xs \<noteq> []" "\<not> sb_finished m" "sb_status m = SUB_TOPIC_LEN"
  shows "cut_ok sb_finished sub_handler m xs"
proof (cases rule: fill_buf_cases [of "sb_dlen m" xs 2 "sb_buff m"])
  case pending
  show ?thesis
  proof (rule cut_ok_pending)
    let ?m = "m\<lparr>sb_buff := put_at (sb_buff m) (sb_dlen m) xs, sb_dlen := sb_dlen m + length xs,
      sb_nread := sb_nread m + word_of_nat (length xs)\<rparr>"
    show "sub_handler m xs = Ret ?m []" "\<not> sb_finished ?m"
      using pending assms by (simp_all add: sub_handler_def sub_update_topic_len_def)
    fix ys :: "byte list"
    assume ys: "ys \<noteq> []"
    obtain b k r where f: "fill_buf 2 (put_at (sb_buff m) (sb_dlen m) xs) (sb_dlen m + length xs) ys = (b, k, r)"
      by (cases "fill_buf 2 (put_at (sb_buff m) (sb_dlen m) xs) (sb_dlen m + length xs) ys")
    have "k - sb_dlen m = length xs + (k - (sb_dlen m + length xs))"
      using fill_buf_count [OF f] by simp
    then have "sb_nread m + word_of_nat (k - sb_dlen m) =
        sb_nread m + word_of_nat (length xs) + word_of_nat (k - (sb_dlen m + length xs))"
      by (simp only: of_nat_add add.assoc)
    with pending f ys assms show "sub_handler m (xs @ ys) = sub_handler ?m ys"
      by (simp add: sub_handler_def sub_update_topic_len_def add.assoc)
  qed
next
  case (completed buf' n' rest)
  let ?nr = "sb_nread m + word_of_nat (n' - sb_dlen m)"
  show ?thesis
  proof (cases "get_short buf' = 0 \<or> sb_body_len m \<le> ?nr")
    case True
    with completed assms show ?thesis
      by (intro cut_ok_fail) (auto simp: sub_handler_def sub_update_topic_len_def Let_def)
  next
    case False
    with completed assms show ?thesis
      by (intro cut_ok_done [where rest = rest]) (auto simp: sub_handler_def sub_update_topic_len_def Let_def)
  qed
qed

lemma sub_val_cut:
  assumes "xs \<noteq> []" "\<not> sb_finished m" "sb_status m = SUB_TOPIC_VAL"
  shows "cut_ok sb_finished sub_handler m xs"
proof (cases "sb_dlen m = 0")
  case True
  with assms show ?thesis by (intro cut_ok_abort) (auto simp: sub_handler_def sub_update_topic_val_def)
next
  case False
  show ?thesis
  proof (cases rule: save_chars_cases [of xs "sb_dlen m" "sb_topic m"])
    case pending
    with False assms show ?thesis
      by (intro cut_ok_pending [where s' =
            "m\<lparr>sb_topic := sb_topic m @ filter (\<lambda>c. c \<noteq> 0) xs, sb_dlen := sb_dlen m - length xs\<rparr>"])
        (auto simp: sub_handler_def sub_update_topic_val_def)
  next
    case (completed s' rest)
    with False assms show ?thesis
      by (auto intro!: cut_ok_done [where rest = rest] simp: sub_handler_def sub_update_topic_val_def Let_def)
  qed
qed

lemma sub_qos_cut:
  assumes "xs \<noteq> []" "sb_status m = SUB_TOPIC_QOS"
  shows "cut_ok sb_finished sub_handler m xs"
proof -
  from assms(1) obtain c cs where "xs = c # cs" by (cases xs) auto
  with assms(2) show ?thesis
    by (auto simp: cut_ok_def sub_handler_def sub_update_topic_qos_def Let_def)
qed

fun sub_rank_of :: "sub_stat \<Rightarrow> nat" where
  "sub_rank_of SUB_TOPIC_LEN = 1"
| "sub_rank_of _ = 0"

lemma sub_handler_progress:
  assumes "xs \<noteq> []" "sub_handler m xs = Ret m' rest"
  shows "length rest < length xs \<or>
    length rest = length xs \<and> sub_rank_of (sb_status m') < sub_rank_of (sb_status m)"
proof (cases "sb_status m")
  case SUB_HDR_VAR
  then have "unat (sb_nread m) < 2"
    using assms by (auto simp: sub_handler_def sub_update_header_var_def unat_le_iff split: if_splits)
  with SUB_HDR_VAR assms show ?thesis
    by (auto simp: sub_handler_def sub_update_header_var_def fill_buf_eq Let_def split: if_splits)
next
  case SUB_TOPIC_LEN
  with assms show ?thesis
    by (cases "2 \<le> sb_dlen m")
      (auto simp: sub_handler_def sub_update_topic_len_def fill_buf_eq Let_def split: if_splits)
next
  case SUB_TOPIC_VAL
  with assms show ?thesis
    by (auto simp: sub_handler_def sub_update_topic_val_def save_chars_eq Let_def split: if_splits)
next
  case SUB_TOPIC_QOS
  with assms show ?thesis
    by (auto simp: sub_handler_def sub_update_topic_qos_def Let_def split: if_splits list.splits)
qed

interpretation subscribe: progressing sb_finished sub_handler "\<lambda>_. True" "\<lambda>m. sub_rank_of (sb_status m)"
proof
  fix s s' :: mqtt_subscribe and xs rest :: "byte list"
  assume s: "\<not> sb_finished s" and xs: "xs \<noteq> []"
  show "cut_ok sb_finished sub_handler s xs"
    using s xs sub_hdr_cut sub_len_cut sub_val_cut sub_qos_cut by (cases "sb_status s") blast+
  assume "sub_handler s xs = Ret s' rest"
  with xs show "length rest < length xs \<or>
      length rest = length xs \<and> sub_rank_of (sb_status s') < sub_rank_of (sb_status s)"
    by (rule sub_handler_progress)
qed simp

subsection \<open>Round trip\<close>

text \<open>The bytes of one entry of the payload, and the bytes of all after the header.\<close>

definition sub_entry :: "byte list \<times> mqtt_qos \<Rightarrow> byte list" where
  "sub_entry p = str_entry (fst p) @ [mqtt_qos_code (snd p)]"

definition sub_body :: "mqtt_subscribe \<Rightarrow> byte list" where
  "sub_body m = msb (sb_pkt_id m) # lsb (sb_pkt_id m) #
     concat (map sub_entry (zip (sb_topics m) (sb_qoses m)))"

text \<open>
  A message made by the constructor and any number of \<^verbatim>\<open>add_topic\<close>: as many QoS values as
  topics, and \<^verbatim>\<open>body_len_\<close> the size of the entries, modulo \<open>2^32\<close>.
\<close>

definition sub_made :: "mqtt_subscribe \<Rightarrow> bool" where
  "sub_made m \<longleftrightarrow> length (sb_topics m) = length (sb_qoses m) \<and> hd_type (sb_header m) = MQTT_SUBSCRIBE \<and>
     sb_body_len m = word_of_nat (length (concat (map sub_entry (zip (sb_topics m) (sb_qoses m)))))"

lemma length_sub_entry [simp]: "length (sub_entry p) = 3 + length (fst p)"
  by (simp add: sub_entry_def)

lemma qos_of_code [simp]: "qos_of_byte (mqtt_qos_code q) = q"
  by (cases q) (simp_all add: qos_of_byte_def Let_def)

lemma sub_made_new: "sub_made mqtt_subscribe_new"
  by (simp add: sub_made_def mqtt_subscribe_new_def mqtt_header_new_def)

lemma sub_made_add_topic: "sub_made m \<Longrightarrow> sub_made (subscribe_add_topic t q m)"
  by (simp add: sub_made_def subscribe_add_topic_def)

lemma sub_made_set_pkt_id: "sub_made m \<Longrightarrow> sub_made (subscribe_set_pkt_id i m)"
  by (simp add: sub_made_def subscribe_set_pkt_id_def)

lemma sub_fold_entries:
  assumes "length ts = length qs" "\<forall>t \<in> set ts. length t < 65536"
  shows "fold (\<lambda>i s. pack_byte (mqtt_qos_code (qs ! i)) (pack_string (ts ! i) s)) [0..<length ts] out =
    out @ concat (map sub_entry (zip ts qs))"
proof -
  have z: "zip ts qs = map (\<lambda>i. (ts ! i, qs ! i)) [0..<length ts]"
    using assms(1) by (intro nth_equalityI) auto
  have "\<forall>i \<in> set is. i < length ts \<Longrightarrow>
      fold (\<lambda>i s. pack_byte (mqtt_qos_code (qs ! i)) (pack_string (ts ! i) s)) is out =
      out @ concat (map (\<lambda>i. sub_entry (ts ! i, qs ! i)) is)" for "is"
    using assms(2) by (induction "is" arbitrary: out) (auto simp: pack_byte_eq pack_string_entry sub_entry_def)
  from this [of "[0..<length ts]"] show ?thesis by (simp add: z comp_def)
qed

lemma subscribe_to_string_eq:
  assumes "sub_made m" "sb_topics m \<noteq> []" "\<forall>t \<in> set (sb_topics m). topic_ok t"
    and len: "length (sub_body m) < 268435456"
  shows "\<exists>h hb. subscribe_to_string m out = (m\<lparr>sb_body_len := sb_body_len m + 2, sb_header := h\<rparr>,
      Some (out @ hb @ sub_body m)) \<and> build_header h [] = (h, Some hb) \<and>
    hd_type h = MQTT_SUBSCRIBE \<and> unat (hd_dlen h) = length (sub_body m) \<and> hd_flags h = 2"
proof -
  let ?h = "set_remaing_length (sb_body_len m + 2) (set_header_flags 0x02 (sb_header m))"
  have "sb_body_len m + 2 = word_of_nat (length (sub_body m))"
    using assms(1) by (simp add: sub_made_def sub_body_def)
  with len have dlen: "unat (hd_dlen ?h) = length (sub_body m)"
    by (simp add: set_remaing_length_def unat_of_nat)
  with len obtain hb where hb: "build_header ?h [] = (?h, Some hb)"
    using build_header_ok [of ?h] by (auto simp: unat_less_iff)
  then have "build_header ?h out = (?h, Some (out @ hb))" by (rule build_header_out)
  moreover have "length (sb_qoses m) = length (sb_topics m)" "\<forall>t \<in> set (sb_topics m). length t < 65536"
    using assms by (auto simp: sub_made_def topic_ok_def)
  ultimately have "subscribe_to_string m out =
      (m\<lparr>sb_body_len := sb_body_len m + 2, sb_header := ?h\<rparr>, Some (out @ hb @ sub_body m))"
    using assms(2) by (simp add: subscribe_to_string_def Let_def sub_fold_entries pack_short_eq sub_body_def)
  moreover have "hd_type ?h = MQTT_SUBSCRIBE" "hd_flags ?h = 2"
    using assms(1) by (simp_all add: sub_made_def set_remaing_length_def set_header_flags_def)
  ultimately show ?thesis using hb dlen by blast
qed

lemma sub_parse_entry:
  assumes "sb_status p = SUB_TOPIC_LEN" "\<not> sb_finished p" "sb_dlen p = 0" "sb_topic p = []" "length (sb_buff p) = 2"
    and t: "topic_ok t" and len: "unat (sb_nread p) + 3 + length t \<le> unat (sb_body_len p)"
  shows "\<exists>p'. update_loop sb_finished sub_handler p (sub_entry (t, q) @ rest) =
        update_loop sb_finished sub_handler p' rest \<and>
      sb_topics p' = sb_topics p @ [t] \<and> sb_qoses p' = sb_qoses p @ [q] \<and> sb_pkt_id p' = sb_pkt_id p \<and>
      sb_topic p' = [] \<and> length (sb_buff p') = 2 \<and> sb_dlen p' = 0 \<and> sb_body_len p' = sb_body_len p \<and>
      unat (sb_nread p') = unat (sb_nread p) + 3 + length t \<and>
      (if unat (sb_nread p) + 3 + length t = unat (sb_body_len p) then sb_finished p'
       else \<not> sb_finished p' \<and> sb_status p' = SUB_TOPIC_LEN)"
proof -
  let ?n = "word_of_nat (length t) :: u16"
  let ?b = "(sb_buff p)[0 := msb ?n, Suc 0 := lsb ?n]"
  have tl: "0 < length t" "length t < 65536" "t \<noteq> []" using t by (auto simp: topic_ok_def)
  have nr: "unat (sb_nread p + 2 + word_of_nat (length t) + 1) = unat (sb_nread p) + 3 + length t"
      "unat (sb_nread p + 2) = unat (sb_nread p) + 2"
    using len tl unsigned_less [of "sb_body_len p", where 'a=nat]
    by (simp_all add: unat_word_ariths unat_of_nat)
  define p1 where "p1 = p\<lparr>sb_buff := ?b, sb_nread := sb_nread p + 2, sb_dlen := length t,
    sb_status := SUB_TOPIC_VAL\<rparr>"
  define p2 where "p2 = p1\<lparr>sb_topic := t, sb_nread := sb_nread p + 2 + word_of_nat (length t), sb_dlen := 0,
    sb_status := SUB_TOPIC_QOS\<rparr>"
  define p3 where "p3 = p2\<lparr>sb_topics := sb_topics p @ [t], sb_qoses := sb_qoses p @ [q], sb_topic := [],
    sb_nread := sb_nread p + 2 + word_of_nat (length t) + 1\<rparr>"
  define p' where "p' = (if sb_body_len p \<le> sb_nread p3 then p3\<lparr>sb_finished := True\<rparr>
    else p3\<lparr>sb_dlen := 0, sb_status := SUB_TOPIC_LEN\<rparr>)"
  have "\<not> sb_body_len p \<le> sb_nread p + 2" using len nr tl by (simp add: unat_le_iff)
  then have 1: "sub_handler p (msb ?n # lsb ?n # t @ d) = Ret p1 (t @ d)" for d
    using assms tl topic_ok_len [OF t]
    by (simp add: sub_handler_def sub_update_topic_len_def p1_def unat_length_short)
  have 2: "sub_handler p1 (t @ d) = Ret p2 d" for d
    using assms tl by (simp add: sub_handler_def sub_update_topic_val_def p1_def p2_def save_chars_exact topic_ok_def)
  have 3: "sub_handler p2 (mqtt_qos_code q # rest) = Ret p' rest"
    using assms tl by (simp add: sub_handler_def sub_update_topic_qos_def p1_def p2_def p3_def p'_def Let_def)
  have "\<not> sb_finished p1" "\<not> sb_finished p2" using assms by (simp_all add: p1_def p2_def)
  with 1 2 3 assms tl have "update_loop sb_finished sub_handler p (sub_entry (t, q) @ rest) =
        update_loop sb_finished sub_handler p' rest"
    by (simp add: sub_entry_def str_entry_def update_loop_step)
  moreover have "(sb_body_len p \<le> sb_nread p3) =
      (unat (sb_nread p) + 3 + length t = unat (sb_body_len p))"
    using len nr by (auto simp: p3_def unat_le_iff)
  ultimately show ?thesis
    using assms nr by (intro exI [of _ p']) (auto simp: p'_def p3_def p2_def p1_def)
qed

lemma sub_parse_entries:
  assumes "ps \<noteq> []" "\<forall>x \<in> set ps. topic_ok (fst x)"
    and "sb_status p = SUB_TOPIC_LEN" "\<not> sb_finished p" "sb_dlen p = 0" "sb_topic p = []" "length (sb_buff p) = 2"
    and "unat (sb_nread p) + length (concat (map sub_entry ps)) = unat (sb_body_len p)"
  shows "\<exists>p'. update_loop sb_finished sub_handler p (concat (map sub_entry ps) @ rest) = Some (Ret p' rest) \<and>
      sb_finished p' \<and> sb_topics p' = sb_topics p @ map fst ps \<and> sb_qoses p' = sb_qoses p @ map snd ps \<and>
      sb_pkt_id p' = sb_pkt_id p"
  using assms
proof (induction ps arbitrary: p)
  case Nil
  then show ?case by simp
next
  case (Cons x ps)
  obtain t q where x: "x = (t, q)" by (cases x)
  from Cons.prems x have t: "topic_ok t" "unat (sb_nread p) + 3 + length t \<le> unat (sb_body_len p)" by auto
  from sub_parse_entry [OF Cons.prems(3-7) t, of q "concat (map sub_entry ps) @ rest"]
  obtain p' where p': "update_loop sb_finished sub_handler p (sub_entry x @ concat (map sub_entry ps) @ rest) =
        update_loop sb_finished sub_handler p' (concat (map sub_entry ps) @ rest)"
      "sb_topics p' = sb_topics p @ [t]" "sb_qoses p' = sb_qoses p @ [q]" "sb_pkt_id p' = sb_pkt_id p"
      "sb_topic p' = []" "length (sb_buff p') = 2" "sb_dlen p' = 0" "sb_body_len p' = sb_body_len p"
      "unat (sb_nread p') = unat (sb_nread p) + 3 + length t"
      "if unat (sb_nread p) + 3 + length t = unat (sb_body_len p) then sb_finished p'
       else \<not> sb_finished p' \<and> sb_status p' = SUB_TOPIC_LEN"
    unfolding x by blast
  show ?case
  proof (cases "ps = []")
    case True
    with Cons.prems(8) x have "sb_finished p'" using p'(10) by simp
    with True p' x show ?thesis by (intro exI [of _ p']) simp
  next
    case False
    then obtain y ys where "ps = y # ys" by (cases ps) auto
    with Cons.prems(8) x have "unat (sb_nread p) + 3 + length t \<noteq> unat (sb_body_len p)" by simp
    with p'(10) have "\<not> sb_finished p'" "sb_status p' = SUB_TOPIC_LEN" by auto
    with Cons.IH [of p'] False Cons.prems p' x show ?thesis by fastforce
  qed
qed

lemma subscribe_parse_body:
  assumes "sub_made m" "sb_topics m \<noteq> []" "\<forall>t \<in> set (sb_topics m). topic_ok t"
    and "unat (hd_dlen h) = length (sub_body m)"
  shows "\<exists>p. subscribe_update (mqtt_subscribe_of_header h) (sub_body m @ rest) = Some (Ret p rest) \<and>
    sb_finished p \<and> sb_topics p = sb_topics m \<and> sb_qoses p = sb_qoses m \<and> sb_pkt_id p = sb_pkt_id m"
proof -
  let ?ps = "zip (sb_topics m) (sb_qoses m)" and ?p = "mqtt_subscribe_of_header h"
  have len: "length (sb_topics m) = length (sb_qoses m)" using assms by (simp add: sub_made_def)
  have ok: "\<forall>x \<in> set ?ps. topic_ok (fst x)" using assms(3) by (auto dest: set_zip_leftD)
  with len obtain x ps where ps: "?ps = x # ps" using assms(2) by (cases "sb_topics m"; cases "sb_qoses m") auto
  define p1 where "p1 = ?p\<lparr>sb_buff := (sb_buff ?p)[0 := msb (sb_pkt_id m), Suc 0 := lsb (sb_pkt_id m)],
    sb_nread := 2, sb_pkt_id := sb_pkt_id m, sb_dlen := 0, sb_status := SUB_TOPIC_LEN\<rparr>"
  have "\<not> hd_dlen h \<le> 2" using assms(4) ps by (simp add: unat_le_iff sub_body_def)
  then have 1: "sub_handler ?p (sub_body m @ rest) = Ret p1 (concat (map sub_entry ?ps) @ rest)"
    by (simp add: sub_handler_def sub_update_header_var_def p1_def mqtt_subscribe_of_header_def sub_body_def)
  have "\<exists>p'. update_loop sb_finished sub_handler p1 (concat (map sub_entry ?ps) @ rest) = Some (Ret p' rest) \<and>
      sb_finished p' \<and> sb_topics p' = sb_topics p1 @ map fst ?ps \<and> sb_qoses p' = sb_qoses p1 @ map snd ?ps \<and>
      sb_pkt_id p' = sb_pkt_id p1"
    using assms ps ok by (intro sub_parse_entries)
      (auto simp: p1_def mqtt_subscribe_of_header_def sub_body_def)
  moreover have "\<not> sb_finished ?p" by (simp add: mqtt_subscribe_of_header_def)
  ultimately show ?thesis
    using 1 len by (simp add: subscribe_update_def update_call_def update_loop_step sub_body_def)
      (simp add: p1_def mqtt_subscribe_of_header_def)
qed

section \<open>SUBACK\<close>

datatype suback_stat = SUBACK_HDR_VAR | SUBACK_TOPIC_QOS

record mqtt_suback =
  sa_header :: mqtt_header
  sa_status :: suback_stat
  sa_finished :: bool
  sa_buff :: "byte list"
  sa_dlen :: nat
  sa_pkt_id :: u16
  sa_qoses :: "mqtt_qos list"
  sa_body_len :: u32
  sa_nread :: u32

definition mqtt_suback_new :: mqtt_suback where
  "mqtt_suback_new =
     \<lparr>sa_header = mqtt_header_new MQTT_SUBACK, sa_status = SUBACK_HDR_VAR, sa_finished = False,
      sa_buff = replicate 2 0, sa_dlen = 0, sa_pkt_id = 0, sa_qoses = [], sa_body_len = 0, sa_nread = 0\<rparr>"

definition mqtt_suback_of_header :: "mqtt_header \<Rightarrow> mqtt_suback" where
  "mqtt_suback_of_header h =
     \<lparr>sa_header = mqtt_header_new MQTT_SUBACK, sa_status = SUBACK_HDR_VAR, sa_finished = False,
      sa_buff = replicate 2 0, sa_dlen = 0, sa_pkt_id = 0, sa_qoses = [], sa_body_len = hd_dlen h,
      sa_nread = 0\<rparr>"

definition suback_set_pkt_id :: "u16 \<Rightarrow> mqtt_suback \<Rightarrow> mqtt_suback" where
  "suback_set_pkt_id i m = m\<lparr>sa_pkt_id := i\<rparr>"

definition suback_add_topic_qos :: "mqtt_qos \<Rightarrow> mqtt_suback \<Rightarrow> mqtt_suback" where
  "suback_add_topic_qos q m = m\<lparr>sa_qoses := sa_qoses m @ [q], sa_body_len := sa_body_len m + 1\<rparr>"

definition suback_add_topic_qoses :: "mqtt_qos list \<Rightarrow> mqtt_suback \<Rightarrow> mqtt_suback" where
  "suback_add_topic_qoses qs m = fold suback_add_topic_qos qs m"

definition suback_to_string :: "mqtt_suback \<Rightarrow> byte list \<Rightarrow> mqtt_suback \<times> byte list option" where
  "suback_to_string m out =
     (if sa_qoses m = [] then (m, None)
      else
        let m1 = m\<lparr>sa_body_len := sa_body_len m + 2\<rparr>;
            (h, r) = build_header (set_remaing_length (sa_body_len m1) (sa_header m1)) out;
            m2 = m1\<lparr>sa_header := h\<rparr>
        in (m2, case r of
                  None \<Rightarrow> None
                | Some o1 \<Rightarrow> Some (fold (\<lambda>q s. pack_byte (mqtt_qos_code q) s) (sa_qoses m2)
                                   (pack_short (sa_pkt_id m2) o1))))"

definition suback_update_header_var :: "mqtt_suback \<Rightarrow> byte list \<Rightarrow> mqtt_suback hres" where
  "suback_update_header_var m data =
     (if data = [] then Abort
      else if 2 \<le> sa_nread m then Fail m
      else case fill_buf 2 (sa_buff m) (unat (sa_nread m)) data of
        (buf, n, rest) \<Rightarrow>
          let m' = m\<lparr>sa_buff := buf, sa_nread := word_of_nat n\<rparr> in
          if n < 2 then (if rest \<noteq> [] then Abort else Ret m' rest)
          else (case unpack_short buf 2 of
                  None \<Rightarrow> Fail m'
                | Some i \<Rightarrow>
                    let m2 = m'\<lparr>sa_pkt_id := i\<rparr> in
                    if sa_body_len m2 \<le> sa_nread m2 then Ret (m2\<lparr>sa_finished := True\<rparr>) rest
                    else Ret (m2\<lparr>sa_dlen := 0, sa_status := SUBACK_TOPIC_QOS\<rparr>) rest))"

definition suback_update_topic_qos :: "mqtt_suback \<Rightarrow> byte list \<Rightarrow> mqtt_suback hres" where
  "suback_update_topic_qos m data =
     (case data of
        [] \<Rightarrow> Abort
      | c # rest \<Rightarrow>
          let m' = m\<lparr>sa_nread := sa_nread m + 1, sa_qoses := sa_qoses m @ [qos_of_byte c]\<rparr> in
          if sa_body_len m' \<le> sa_nread m' then Ret (m'\<lparr>sa_finished := True\<rparr>) rest
          else Ret (m'\<lparr>sa_dlen := 0, sa_status := SUBACK_TOPIC_QOS\<rparr>) rest)"

definition suback_handler :: "mqtt_suback \<Rightarrow> byte list \<Rightarrow> mqtt_suback hres" where
  "suback_handler m =
     (case sa_status m of
        SUBACK_HDR_VAR \<Rightarrow> suback_update_header_var m
      | SUBACK_TOPIC_QOS \<Rightarrow> suback_update_topic_qos m)"

definition suback_update :: "mqtt_suback \<Rightarrow> byte list \<Rightarrow> mqtt_suback hres option" where
  "suback_update = update_call sa_finished suback_handler"

lemma suback_hdr_cut:
  assumes "xs \<noteq> []" "\<not> sa_finished m" "sa_status m = SUBACK_HDR_VAR"
  shows "cut_ok sa_finished suback_handler m xs"
proof (cases "2 \<le> sa_nread m")
  case True
  with assms show ?thesis by (intro cut_ok_fail) (auto simp: suback_handler_def suback_update_header_var_def)
next
  case False
  then have less: "unat (sa_nread m) < 2" by (simp add: unat_le_iff)
  show ?thesis
  proof (cases rule: fill_buf_cases [of "unat (sa_nread m)" xs 2 "sa_buff m"])
    case pending
    let ?n = "unat (sa_nread m) + length xs"
    have n: "unat (word_of_nat ?n :: u32) = ?n" "\<not> (2::u32) \<le> word_of_nat ?n"
      using pending(1) by (auto simp del: of_nat_add simp: unat_of_nat unat_le_iff)
    from pending False assms n show ?thesis
      by (intro cut_ok_pending [where s' = "m\<lparr>sa_buff := put_at (sa_buff m) (unat (sa_nread m)) xs,
            sa_nread := word_of_nat ?n\<rparr>"])
        (simp_all add: suback_handler_def suback_update_header_var_def)
  next
    case (completed buf' n' rest)
    with False less assms show ?thesis
      by (cases "sa_body_len m \<le> word_of_nat n'"; intro cut_ok_done [where rest = rest])
        (auto simp: suback_handler_def suback_update_header_var_def Let_def)
  qed
qed

lemma suback_qos_cut:
  assumes "xs \<noteq> []" "sa_status m = SUBACK_TOPIC_QOS"
  shows "cut_ok sa_finished suback_handler m xs"
proof -
  from assms(1) obtain c cs where "xs = c # cs" by (cases xs) auto
  with assms(2) show ?thesis
    by (auto simp: cut_ok_def suback_handler_def suback_update_topic_qos_def Let_def)
qed

interpretation suback: progressing sa_finished suback_handler "\<lambda>_. True" "\<lambda>_. 0"
proof
  fix s s' :: mqtt_suback and xs rest :: "byte list"
  assume s: "\<not> sa_finished s" and xs: "xs \<noteq> []"
  show "cut_ok sa_finished suback_handler s xs"
    using s xs suback_hdr_cut suback_qos_cut by (cases "sa_status s") blast+
  assume h: "suback_handler s xs = Ret s' rest"
  show "length rest < length xs \<or> length rest = length xs \<and> (0::nat) < 0"
  proof (cases "sa_status s")
    case SUBACK_HDR_VAR
    then have "unat (sa_nread s) < 2"
      using h by (auto simp: suback_handler_def suback_update_header_var_def unat_le_iff split: if_splits)
    with SUBACK_HDR_VAR h xs show ?thesis
      by (auto simp: suback_handler_def suback_update_header_var_def fill_buf_eq Let_def split: if_splits)
  next
    case SUBACK_TOPIC_QOS
    with h xs show ?thesis
      by (auto simp: suback_handler_def suback_update_topic_qos_def Let_def split: if_splits list.splits)
  qed
qed simp

subsection \<open>Round trip\<close>

definition suback_body :: "mqtt_suback \<Rightarrow> byte list" where
  "suback_body m = msb (sa_pkt_id m) # lsb (sa_pkt_id m) # map mqtt_qos_code (sa_qoses m)"

definition suback_made :: "mqtt_suback \<Rightarrow> bool" where
  "suback_made m \<longleftrightarrow> hd_type (sa_header m) = MQTT_SUBACK \<and> sa_body_len m = word_of_nat (length (sa_qoses m))"

lemma suback_made_new: "suback_made mqtt_suback_new"
  by (simp add: suback_made_def mqtt_suback_new_def mqtt_header_new_def)

lemma suback_made_add: "suback_made m \<Longrightarrow> suback_made (suback_add_topic_qos q m)"
  by (simp add: suback_made_def suback_add_topic_qos_def)

lemma suback_made_adds: "suback_made m \<Longrightarrow> suback_made (suback_add_topic_qoses qs m)"
  unfolding suback_add_topic_qoses_def by (induction qs arbitrary: m) (auto intro: suback_made_add)

lemma suback_to_string_eq:
  assumes "suback_made m" "sa_qoses m \<noteq> []" and len: "length (suback_body m) < 268435456"
  shows "\<exists>h hb. suback_to_string m out = (m\<lparr>sa_body_len := sa_body_len m + 2, sa_header := h\<rparr>,
      Some (out @ hb @ suback_body m)) \<and> build_header h [] = (h, Some hb) \<and>
    hd_type h = MQTT_SUBACK \<and> unat (hd_dlen h) = length (suback_body m)"
proof -
  let ?h = "set_remaing_length (sa_body_len m + 2) (sa_header m)"
  have "sa_body_len m + 2 = word_of_nat (length (suback_body m))"
    using assms(1) by (simp add: suback_made_def suback_body_def)
  with len have dlen: "unat (hd_dlen ?h) = length (suback_body m)"
    by (simp add: set_remaing_length_def unat_of_nat)
  with len obtain hb where hb: "build_header ?h [] = (?h, Some hb)"
    using build_header_ok [of ?h] by (auto simp: unat_less_iff)
  then have "build_header ?h out = (?h, Some (out @ hb))" by (rule build_header_out)
  moreover have "fold (\<lambda>q s. pack_byte (mqtt_qos_code q) s) qs o1 = o1 @ map mqtt_qos_code qs" for qs o1
    by (induction qs arbitrary: o1) (auto simp: pack_byte_eq)
  ultimately have "suback_to_string m out =
      (m\<lparr>sa_body_len := sa_body_len m + 2, sa_header := ?h\<rparr>, Some (out @ hb @ suback_body m))"
    using assms(2) by (simp add: suback_to_string_def Let_def pack_short_eq suback_body_def)
  moreover have "hd_type ?h = MQTT_SUBACK"
    using assms(1) by (simp add: suback_made_def set_remaing_length_def)
  ultimately show ?thesis using hb dlen by blast
qed

lemma suback_parse_qoses:
  assumes "sa_status p = SUBACK_TOPIC_QOS" "\<not> sa_finished p" "cs \<noteq> []"
    and "unat (sa_nread p) + length cs = unat (sa_body_len p)"
  shows "\<exists>p'. update_loop sa_finished suback_handler p (cs @ rest) = Some (Ret p' rest) \<and>
      sa_finished p' \<and> sa_qoses p' = sa_qoses p @ map qos_of_byte cs \<and> sa_pkt_id p' = sa_pkt_id p"
  using assms
proof (induction cs arbitrary: p)
  case Nil
  then show ?case by simp
next
  case (Cons c cs)
  have nr: "unat (sa_nread p + 1) = unat (sa_nread p) + 1"
    using Cons.prems(4) unsigned_less [of "sa_body_len p", where 'a=nat] by (simp add: unat_word_ariths)
  show ?case
  proof (cases "cs = []")
    case True
    with Cons.prems nr show ?thesis
      by (simp add: update_loop_step suback_handler_def suback_update_topic_qos_def Let_def unat_le_iff)
  next
    case False
    then have "\<not> sa_body_len p \<le> sa_nread p + 1"
      using Cons.prems nr by (cases cs) (simp_all add: unat_le_iff)
    with Cons.prems nr False show ?thesis
      using Cons.IH [of "p\<lparr>sa_nread := sa_nread p + 1, sa_qoses := sa_qoses p @ [qos_of_byte c],
          sa_dlen := 0, sa_status := SUBACK_TOPIC_QOS\<rparr>"]
      by (simp add: update_loop_step suback_handler_def suback_update_topic_qos_def Let_def)
  qed
qed

lemma suback_parse_body:
  assumes "sa_qoses m \<noteq> []" "unat (hd_dlen h) = length (suback_body m)"
  shows "\<exists>p. suback_update (mqtt_suback_of_header h) (suback_body m @ rest) = Some (Ret p rest) \<and>
    sa_finished p \<and> sa_qoses p = sa_qoses m \<and> sa_pkt_id p = sa_pkt_id m"
proof -
  let ?p = "mqtt_suback_of_header h"
  define p1 where "p1 = ?p\<lparr>sa_buff := (sa_buff ?p)[0 := msb (sa_pkt_id m), Suc 0 := lsb (sa_pkt_id m)],
    sa_nread := 2, sa_pkt_id := sa_pkt_id m, sa_dlen := 0, sa_status := SUBACK_TOPIC_QOS\<rparr>"
  have "\<not> hd_dlen h \<le> 2" using assms by (cases "sa_qoses m") (simp_all add: unat_le_iff suback_body_def)
  then have 1: "suback_handler ?p (suback_body m @ rest) = Ret p1 (map mqtt_qos_code (sa_qoses m) @ rest)"
    by (simp add: suback_handler_def suback_update_header_var_def p1_def mqtt_suback_of_header_def suback_body_def)
  have "\<exists>p'. update_loop sa_finished suback_handler p1 (map mqtt_qos_code (sa_qoses m) @ rest) = Some (Ret p' rest) \<and>
      sa_finished p' \<and> sa_qoses p' = sa_qoses p1 @ map qos_of_byte (map mqtt_qos_code (sa_qoses m)) \<and>
      sa_pkt_id p' = sa_pkt_id p1"
    using assms by (intro suback_parse_qoses) (auto simp: p1_def mqtt_suback_of_header_def suback_body_def)
  moreover have "\<not> sa_finished ?p" by (simp add: mqtt_suback_of_header_def)
  ultimately show ?thesis
    using 1 by (simp add: suback_update_def update_call_def update_loop_step suback_body_def comp_def)
      (simp add: p1_def mqtt_suback_of_header_def)
qed

end
