(* ===== verification/MqttUnsubscribe.thy ===== *)
theory MqttUnsubscribe
  imports MqttMessage
begin

text \<open>
  UNSUBSCRIBE (\<^verbatim>\<open>mqtt_unsubscribe.cpp\<close>): like SUBSCRIBE without the QoS bytes. The handler of
  the topic value never clears \<^verbatim>\<open>topic_\<close>, the string it collects the topic in. A message
  with one topic is read back as it was written; of a message with two, the second topic comes
  out as the first and second joined, which also makes \<^verbatim>\<open>nread_\<close> run ahead.
\<close>

datatype unsub_stat = UNS_HDR_VAR | UNS_TOPIC_LEN | UNS_TOPIC_VAL

record mqtt_unsubscribe =
  us_header :: mqtt_header
  us_status :: unsub_stat
  us_finished :: bool
  us_buff :: "byte list"
  us_dlen :: nat
  us_pkt_id :: u16
  us_topics :: "byte list list"
  us_body_len :: u32
  us_nread :: u32
  us_topic :: "byte list"

definition mqtt_unsubscribe_new :: mqtt_unsubscribe where
  "mqtt_unsubscribe_new =
     \<lparr>us_header = mqtt_header_new MQTT_UNSUBSCRIBE, us_status = UNS_HDR_VAR, us_finished = False,
      us_buff = replicate 2 0, us_dlen = 0, us_pkt_id = 0, us_topics = [], us_body_len = 0,
      us_nread = 0, us_topic = []\<rparr>"

definition mqtt_unsubscribe_of_header :: "mqtt_header \<Rightarrow> mqtt_unsubscribe" where
  "mqtt_unsubscribe_of_header h =
     \<lparr>us_header = mqtt_header_copy h, us_status = UNS_HDR_VAR, us_finished = False,
      us_buff = replicate 2 0, us_dlen = 0, us_pkt_id = 0, us_topics = [], us_body_len = hd_dlen h,
      us_nread = 0, us_topic = []\<rparr>"

definition unsubscribe_set_pkt_id :: "u16 \<Rightarrow> mqtt_unsubscribe \<Rightarrow> mqtt_unsubscribe" where
  "unsubscribe_set_pkt_id i m = (if 0 < i then m\<lparr>us_pkt_id := i\<rparr> else m)"

definition unsubscribe_add_topic :: "byte list \<Rightarrow> mqtt_unsubscribe \<Rightarrow> mqtt_unsubscribe" where
  "unsubscribe_add_topic topic m =
     m\<lparr>us_topics := us_topics m @ [cstr topic],
       us_body_len := us_body_len m + (2 + word_of_nat (length (cstr topic)))\<rparr>"

definition unsubscribe_to_string ::
  "mqtt_unsubscribe \<Rightarrow> byte list \<Rightarrow> mqtt_unsubscribe \<times> byte list option" where
  "unsubscribe_to_string m out =
     (if us_pkt_id m = 0 then (m, None)
      else if us_topics m = [] then (m, None)
      else
        let m1 = m\<lparr>us_body_len := us_body_len m + 2\<rparr>;
            h0 = set_remaing_length (us_body_len m1) (set_header_flags 0x02 (us_header m1));
            (h, r) = build_header h0 out;
            m2 = m1\<lparr>us_header := h\<rparr>
        in (m2, case r of
                  None \<Rightarrow> None
                | Some o1 \<Rightarrow> Some (fold pack_string (us_topics m2) (pack_short (us_pkt_id m2) o1))))"

definition uns_update_header_var :: "mqtt_unsubscribe \<Rightarrow> byte list \<Rightarrow> mqtt_unsubscribe hres" where
  "uns_update_header_var m data =
     (if data = [] then Abort
      else if 2 \<le> us_nread m then Fail m
      else case fill_buf 2 (us_buff m) (unat (us_nread m)) data of
        (buf, n, rest) \<Rightarrow>
          let m' = m\<lparr>us_buff := buf, us_nread := word_of_nat n\<rparr> in
          if n < 2 then (if rest \<noteq> [] then Abort else Ret m' rest)
          else (case unpack_short buf 2 of
                  None \<Rightarrow> Fail m'
                | Some i \<Rightarrow>
                    let m2 = m'\<lparr>us_pkt_id := i\<rparr> in
                    if us_body_len m2 \<le> us_nread m2 then Fail m2
                    else Ret (m2\<lparr>us_dlen := 0, us_status := UNS_TOPIC_LEN\<rparr>) rest))"

definition uns_update_topic_len :: "mqtt_unsubscribe \<Rightarrow> byte list \<Rightarrow> mqtt_unsubscribe hres" where
  "uns_update_topic_len m data =
     (if data = [] then Abort
      else case fill_buf 2 (us_buff m) (us_dlen m) data of
        (buf, n, rest) \<Rightarrow>
          let m' = m\<lparr>us_buff := buf, us_dlen := n,
                     us_nread := us_nread m + word_of_nat (n - us_dlen m)\<rparr> in
          if n < 2 then (if rest \<noteq> [] then Abort else Ret m' rest)
          else (case unpack_short buf 2 of
                  None \<Rightarrow> Fail m'
                | Some k \<Rightarrow>
                    if k = 0 then Fail m'
                    else if us_body_len m' \<le> us_nread m' then Fail m'
                    else Ret (m'\<lparr>us_dlen := unat k, us_status := UNS_TOPIC_VAL\<rparr>) rest))"

definition uns_update_topic_val :: "mqtt_unsubscribe \<Rightarrow> byte list \<Rightarrow> mqtt_unsubscribe hres" where
  "uns_update_topic_val m data =
     (if data = [] \<or> us_dlen m = 0 then Abort
      else case save_chars (us_topic m) (us_dlen m) data of
        (s, n, rest) \<Rightarrow>
          let m' = m\<lparr>us_topic := s, us_dlen := n\<rparr> in
          if 0 < n then (if rest \<noteq> [] then Abort else Ret m' rest)
          else
            let m2 = m'\<lparr>us_nread := us_nread m' + word_of_nat (length s),
                        us_topics := us_topics m' @ [s]\<rparr> in
            if us_body_len m2 \<le> us_nread m2 then Ret (m2\<lparr>us_finished := True\<rparr>) rest
            else Ret (m2\<lparr>us_dlen := 0, us_status := UNS_TOPIC_LEN\<rparr>) rest)"

definition uns_handler :: "mqtt_unsubscribe \<Rightarrow> byte list \<Rightarrow> mqtt_unsubscribe hres" where
  "uns_handler m =
     (case us_status m of
        UNS_HDR_VAR \<Rightarrow> uns_update_header_var m
      | UNS_TOPIC_LEN \<Rightarrow> uns_update_topic_len m
      | UNS_TOPIC_VAL \<Rightarrow> uns_update_topic_val m)"

definition unsubscribe_update :: "mqtt_unsubscribe \<Rightarrow> byte list \<Rightarrow> mqtt_unsubscribe hres option" where
  "unsubscribe_update = update_call us_finished uns_handler"

section \<open>The streaming contract\<close>

lemma uns_hdr_cut:
  assumes "xs \<noteq> []" "\<not> us_finished m" "us_status m = UNS_HDR_VAR"
  shows "cut_ok us_finished uns_handler m xs"
proof (cases "2 \<le> us_nread m")
  case True
  with assms show ?thesis by (intro cut_ok_fail) (auto simp: uns_handler_def uns_update_header_var_def)
next
  case False
  then have less: "unat (us_nread m) < 2" by (simp add: unat_le_iff)
  show ?thesis
  proof (cases rule: fill_buf_cases [of "unat (us_nread m)" xs 2 "us_buff m"])
    case pending
    let ?n = "unat (us_nread m) + length xs"
    have n: "unat (word_of_nat ?n :: u32) = ?n" "\<not> (2::u32) \<le> word_of_nat ?n"
      using pending(1) by (auto simp del: of_nat_add simp: unat_of_nat unat_le_iff)
    from pending False assms n show ?thesis
      by (intro cut_ok_pending [where s' = "m\<lparr>us_buff := put_at (us_buff m) (unat (us_nread m)) xs,
            us_nread := word_of_nat ?n\<rparr>"])
        (simp_all add: uns_handler_def uns_update_header_var_def)
  next
    case (completed buf' n' rest)
    show ?thesis
    proof (cases "us_body_len m \<le> word_of_nat n'")
      case True
      with completed False less assms show ?thesis
        by (intro cut_ok_fail) (auto simp: uns_handler_def uns_update_header_var_def Let_def)
    next
      case False
      with completed \<open>\<not> 2 \<le> us_nread m\<close> less assms show ?thesis
        by (intro cut_ok_done [where rest = rest])
          (auto simp: uns_handler_def uns_update_header_var_def Let_def)
    qed
  qed
qed

lemma uns_len_cut:
  assumes "xs \<noteq> []" "\<not> us_finished m" "us_status m = UNS_TOPIC_LEN"
  shows "cut_ok us_finished uns_handler m xs"
proof (cases rule: fill_buf_cases [of "us_dlen m" xs 2 "us_buff m"])
  case pending
  show ?thesis
  proof (rule cut_ok_pending)
    let ?m = "m\<lparr>us_buff := put_at (us_buff m) (us_dlen m) xs, us_dlen := us_dlen m + length xs,
      us_nread := us_nread m + word_of_nat (length xs)\<rparr>"
    show "uns_handler m xs = Ret ?m []" "\<not> us_finished ?m"
      using pending assms by (simp_all add: uns_handler_def uns_update_topic_len_def)
    fix ys :: "byte list"
    assume ys: "ys \<noteq> []"
    obtain b k r where f: "fill_buf 2 (put_at (us_buff m) (us_dlen m) xs) (us_dlen m + length xs) ys = (b, k, r)"
      by (cases "fill_buf 2 (put_at (us_buff m) (us_dlen m) xs) (us_dlen m + length xs) ys")
    have "k - us_dlen m = length xs + (k - (us_dlen m + length xs))"
      using fill_buf_count [OF f] by simp
    then have "us_nread m + word_of_nat (k - us_dlen m) =
        us_nread m + word_of_nat (length xs) + word_of_nat (k - (us_dlen m + length xs))"
      by (simp only: of_nat_add add.assoc)
    with pending f ys assms show "uns_handler m (xs @ ys) = uns_handler ?m ys"
      by (simp add: uns_handler_def uns_update_topic_len_def add.assoc)
  qed
next
  case (completed buf' n' rest)
  let ?nr = "us_nread m + word_of_nat (n' - us_dlen m)"
  show ?thesis
  proof (cases "get_short buf' = 0 \<or> us_body_len m \<le> ?nr")
    case True
    with completed assms show ?thesis
      by (intro cut_ok_fail) (auto simp: uns_handler_def uns_update_topic_len_def Let_def)
  next
    case False
    with completed assms show ?thesis
      by (intro cut_ok_done [where rest = rest]) (auto simp: uns_handler_def uns_update_topic_len_def Let_def)
  qed
qed

lemma uns_val_cut:
  assumes "xs \<noteq> []" "\<not> us_finished m" "us_status m = UNS_TOPIC_VAL"
  shows "cut_ok us_finished uns_handler m xs"
proof (cases "us_dlen m = 0")
  case True
  with assms show ?thesis by (intro cut_ok_abort) (auto simp: uns_handler_def uns_update_topic_val_def)
next
  case False
  show ?thesis
  proof (cases rule: save_chars_cases [of xs "us_dlen m" "us_topic m"])
    case pending
    with False assms show ?thesis
      by (intro cut_ok_pending [where s' =
            "m\<lparr>us_topic := us_topic m @ filter (\<lambda>c. c \<noteq> 0) xs, us_dlen := us_dlen m - length xs\<rparr>"])
        (auto simp: uns_handler_def uns_update_topic_val_def)
  next
    case (completed s' rest)
    with False assms show ?thesis
      by (cases "us_body_len m \<le> us_nread m + word_of_nat (length s')"; intro cut_ok_done [where rest = rest])
        (simp_all add: uns_handler_def uns_update_topic_val_def Let_def)
  qed
qed

fun uns_rank_of :: "unsub_stat \<Rightarrow> nat" where
  "uns_rank_of UNS_TOPIC_LEN = 1"
| "uns_rank_of _ = 0"

lemma uns_handler_progress:
  assumes "xs \<noteq> []" "uns_handler m xs = Ret m' rest"
  shows "length rest < length xs \<or>
    length rest = length xs \<and> uns_rank_of (us_status m') < uns_rank_of (us_status m)"
proof (cases "us_status m")
  case UNS_HDR_VAR
  then have "unat (us_nread m) < 2"
    using assms by (auto simp: uns_handler_def uns_update_header_var_def unat_le_iff split: if_splits)
  with UNS_HDR_VAR assms show ?thesis
    by (auto simp: uns_handler_def uns_update_header_var_def fill_buf_eq Let_def split: if_splits)
next
  case UNS_TOPIC_LEN
  with assms show ?thesis
    by (cases "2 \<le> us_dlen m")
      (auto simp: uns_handler_def uns_update_topic_len_def fill_buf_eq Let_def split: if_splits)
next
  case UNS_TOPIC_VAL
  with assms show ?thesis
    by (auto simp: uns_handler_def uns_update_topic_val_def save_chars_eq Let_def split: if_splits)
qed

interpretation unsubscribe: progressing us_finished uns_handler "\<lambda>_. True" "\<lambda>m. uns_rank_of (us_status m)"
proof
  fix s s' :: mqtt_unsubscribe and xs rest :: "byte list"
  assume s: "\<not> us_finished s" and xs: "xs \<noteq> []"
  show "cut_ok us_finished uns_handler s xs"
    using s xs uns_hdr_cut uns_len_cut uns_val_cut by (cases "us_status s") blast+
  assume "uns_handler s xs = Ret s' rest"
  with xs show "length rest < length xs \<or>
      length rest = length xs \<and> uns_rank_of (us_status s') < uns_rank_of (us_status s)"
    by (rule uns_handler_progress)
qed simp

section \<open>Writing, and what is read back\<close>

definition uns_body :: "mqtt_unsubscribe \<Rightarrow> byte list" where
  "uns_body m = msb (us_pkt_id m) # lsb (us_pkt_id m) # concat (map str_entry (us_topics m))"

definition uns_made :: "mqtt_unsubscribe \<Rightarrow> bool" where
  "uns_made m \<longleftrightarrow> hd_type (us_header m) = MQTT_UNSUBSCRIBE \<and>
     us_body_len m = word_of_nat (length (concat (map str_entry (us_topics m))))"

lemma uns_made_new: "uns_made mqtt_unsubscribe_new"
  by (simp add: uns_made_def mqtt_unsubscribe_new_def mqtt_header_new_def)

lemma uns_made_add_topic: "uns_made m \<Longrightarrow> uns_made (unsubscribe_add_topic t m)"
  by (simp add: uns_made_def unsubscribe_add_topic_def)

lemma uns_made_set_pkt_id: "uns_made m \<Longrightarrow> uns_made (unsubscribe_set_pkt_id i m)"
  by (simp add: uns_made_def unsubscribe_set_pkt_id_def)

lemma fold_pack_string:
  "\<forall>t \<in> set ts. length t < 65536 \<Longrightarrow> fold pack_string ts out = out @ concat (map str_entry ts)"
  by (induction ts arbitrary: out) (auto simp: pack_string_entry)

lemma unsubscribe_to_string_eq:
  assumes "uns_made m" "us_topics m \<noteq> []" "us_pkt_id m \<noteq> 0" "\<forall>t \<in> set (us_topics m). topic_ok t"
    and len: "length (uns_body m) < 268435456"
  shows "\<exists>h hb. unsubscribe_to_string m out = (m\<lparr>us_body_len := us_body_len m + 2, us_header := h\<rparr>,
      Some (out @ hb @ uns_body m)) \<and> build_header h [] = (h, Some hb) \<and>
    hd_type h = MQTT_UNSUBSCRIBE \<and> unat (hd_dlen h) = length (uns_body m) \<and> hd_flags h = 2"
proof -
  let ?h = "set_remaing_length (us_body_len m + 2) (set_header_flags 0x02 (us_header m))"
  have "us_body_len m + 2 = word_of_nat (length (uns_body m))"
    using assms(1) by (simp add: uns_made_def uns_body_def)
  with len have dlen: "unat (hd_dlen ?h) = length (uns_body m)"
    by (simp add: set_remaing_length_def unat_of_nat)
  with len obtain hb where hb: "build_header ?h [] = (?h, Some hb)"
    using build_header_ok [of ?h] by (auto simp: unat_less_iff)
  then have "build_header ?h out = (?h, Some (out @ hb))" by (rule build_header_out)
  moreover have "\<forall>t \<in> set (us_topics m). length t < 65536"
    using assms by (auto simp: topic_ok_def)
  ultimately have "unsubscribe_to_string m out =
      (m\<lparr>us_body_len := us_body_len m + 2, us_header := ?h\<rparr>, Some (out @ hb @ uns_body m))"
    using assms(2,3) by (simp add: unsubscribe_to_string_def Let_def fold_pack_string pack_short_eq uns_body_def)
  moreover have "hd_type ?h = MQTT_UNSUBSCRIBE" "hd_flags ?h = 2"
    using assms(1) by (simp_all add: uns_made_def set_remaing_length_def set_header_flags_def)
  ultimately show ?thesis using hb dlen by blast
qed

text \<open>
  One entry: \<open>acc\<close> is what \<^verbatim>\<open>topic_\<close> holds when the entry starts. The topic recorded is
  \<open>acc @ t\<close>, and that is also what \<^verbatim>\<open>nread_\<close> grows by.
\<close>

lemma uns_parse_entry:
  assumes "us_status p = UNS_TOPIC_LEN" "\<not> us_finished p" "us_dlen p = 0" "us_topic p = acc" "length (us_buff p) = 2"
    and t: "topic_ok t" and len: "unat (us_nread p) + 2 < unat (us_body_len p)"
    and no_wrap: "unat (us_nread p) + 2 + length (acc @ t) < 2 ^ 32"
  shows "\<exists>p'. update_loop us_finished uns_handler p (str_entry t @ rest) =
        update_loop us_finished uns_handler p' rest \<and>
      us_topics p' = us_topics p @ [acc @ t] \<and> us_pkt_id p' = us_pkt_id p \<and>
      us_topic p' = acc @ t \<and> length (us_buff p') = 2 \<and> us_dlen p' = 0 \<and> us_body_len p' = us_body_len p \<and>
      unat (us_nread p') = unat (us_nread p) + 2 + length (acc @ t) \<and>
      (if unat (us_body_len p) \<le> unat (us_nread p) + 2 + length (acc @ t) then us_finished p'
       else \<not> us_finished p' \<and> us_status p' = UNS_TOPIC_LEN)"
proof -
  let ?n = "word_of_nat (length t) :: u16"
  let ?b = "(us_buff p)[0 := msb ?n, Suc 0 := lsb ?n]"
  have tl: "0 < length t" "length t < 65536" "t \<noteq> []" using t by (auto simp: topic_ok_def)
  have nr: "unat (us_nread p + 2 + word_of_nat (length (acc @ t))) = unat (us_nread p) + 2 + length (acc @ t)"
      "unat (us_nread p + 2) = unat (us_nread p) + 2"
    using no_wrap by (simp_all only: unat_word_ariths unat_of_nat) simp_all
  define p1 where "p1 = p\<lparr>us_buff := ?b, us_nread := us_nread p + 2, us_dlen := length t,
    us_status := UNS_TOPIC_VAL\<rparr>"
  define p2 where "p2 = p1\<lparr>us_topic := acc @ t, us_dlen := 0,
    us_nread := us_nread p + 2 + word_of_nat (length (acc @ t)), us_topics := us_topics p @ [acc @ t]\<rparr>"
  define p' where "p' = (if us_body_len p \<le> us_nread p2 then p2\<lparr>us_finished := True\<rparr>
    else p2\<lparr>us_dlen := 0, us_status := UNS_TOPIC_LEN\<rparr>)"
  have "\<not> us_body_len p \<le> us_nread p + 2" using len nr tl by (simp add: unat_le_iff)
  then have 1: "uns_handler p (msb ?n # lsb ?n # t @ rest) = Ret p1 (t @ rest)"
    using assms tl topic_ok_len [OF t]
    by (simp add: uns_handler_def uns_update_topic_len_def p1_def unat_length_short)
  have 2: "uns_handler p1 (t @ rest) = Ret p' rest"
    using assms tl
    by (simp add: uns_handler_def uns_update_topic_val_def p1_def p2_def p'_def save_chars_exact topic_ok_def Let_def)
  have "\<not> us_finished p1" using assms by (simp add: p1_def)
  with 1 2 assms tl have "update_loop us_finished uns_handler p (str_entry t @ rest) =
        update_loop us_finished uns_handler p' rest"
    by (simp add: str_entry_def update_loop_step)
  moreover have "(us_body_len p \<le> us_nread p2) =
      (unat (us_body_len p) \<le> unat (us_nread p) + 2 + length (acc @ t))"
    using len nr by (auto simp: p2_def unat_le_iff)
  ultimately show ?thesis
    using assms nr by (intro exI [of _ p']) (auto simp: p'_def p2_def p1_def)
qed

lemma uns_parse_id:
  assumes "2 < unat (hd_dlen h)" "body \<noteq> []"
  shows "\<exists>p. unsubscribe_update (mqtt_unsubscribe_of_header h) (msb i # lsb i # body) =
      update_loop us_finished uns_handler p body \<and>
    us_status p = UNS_TOPIC_LEN \<and> \<not> us_finished p \<and> us_dlen p = 0 \<and> us_topic p = [] \<and>
    length (us_buff p) = 2 \<and> unat (us_nread p) = 2 \<and> us_body_len p = hd_dlen h \<and> us_topics p = [] \<and>
    us_pkt_id p = i"
proof -
  let ?p = "mqtt_unsubscribe_of_header h"
  define p1 where "p1 = ?p\<lparr>us_buff := (us_buff ?p)[0 := msb i, Suc 0 := lsb i],
    us_nread := 2, us_pkt_id := i, us_dlen := 0, us_status := UNS_TOPIC_LEN\<rparr>"
  have "\<not> hd_dlen h \<le> 2" using assms(1) by (simp add: unat_le_iff)
  then have "uns_handler ?p (msb i # lsb i # body) = Ret p1 body"
    by (simp add: uns_handler_def uns_update_header_var_def p1_def mqtt_unsubscribe_of_header_def)
  moreover have "\<not> us_finished ?p" by (simp add: mqtt_unsubscribe_of_header_def)
  ultimately show ?thesis
    by (intro exI [of _ p1]) (simp add: unsubscribe_update_def update_call_def update_loop_step,
        simp add: p1_def mqtt_unsubscribe_of_header_def)
qed

lemma unsubscribe_parse_one:
  assumes "us_topics m = [t]" "topic_ok t" "unat (hd_dlen h) = length (uns_body m)"
  shows "\<exists>p. unsubscribe_update (mqtt_unsubscribe_of_header h) (uns_body m @ rest) = Some (Ret p rest) \<and>
    us_finished p \<and> us_topics p = [t] \<and> us_pkt_id p = us_pkt_id m"
proof -
  from assms obtain p where p: "unsubscribe_update (mqtt_unsubscribe_of_header h) (uns_body m @ rest) =
        update_loop us_finished uns_handler p (str_entry t @ rest)"
      "us_status p = UNS_TOPIC_LEN" "\<not> us_finished p" "us_dlen p = 0" "us_topic p = []"
      "length (us_buff p) = 2" "unat (us_nread p) = 2" "us_body_len p = hd_dlen h" "us_topics p = []"
      "us_pkt_id p = us_pkt_id m"
    using uns_parse_id [of h "str_entry t @ rest" "us_pkt_id m"] by (auto simp: uns_body_def str_entry_def)
  have t: "t \<noteq> []" "length t < 65536" using assms by (auto simp: topic_ok_def)
  from uns_parse_entry [OF p(2-6) assms(2), of rest] p t assms show ?thesis
    by (auto simp: uns_body_def)
qed

lemma unsubscribe_parse_two:
  assumes "us_topics m = [t1, t2]" "topic_ok t1" "topic_ok t2" "unat (hd_dlen h) = length (uns_body m)"
  shows "\<exists>p. unsubscribe_update (mqtt_unsubscribe_of_header h) (uns_body m @ rest) = Some (Ret p rest) \<and>
    us_finished p \<and> us_topics p = [t1, t1 @ t2] \<and> us_pkt_id p = us_pkt_id m"
proof -
  from assms obtain p where p: "unsubscribe_update (mqtt_unsubscribe_of_header h) (uns_body m @ rest) =
        update_loop us_finished uns_handler p (str_entry t1 @ str_entry t2 @ rest)"
      "us_status p = UNS_TOPIC_LEN" "\<not> us_finished p" "us_dlen p = 0" "us_topic p = []"
      "length (us_buff p) = 2" "unat (us_nread p) = 2" "us_body_len p = hd_dlen h" "us_topics p = []"
      "us_pkt_id p = us_pkt_id m"
    using uns_parse_id [of h "str_entry t1 @ str_entry t2 @ rest" "us_pkt_id m"]
    by (auto simp: uns_body_def str_entry_def)
  have t: "0 < length t1" "length t1 < 65536" "0 < length t2" "length t2 < 65536"
    using assms by (auto simp: topic_ok_def)
  have len: "unat (us_body_len p) = 6 + length t1 + length t2" using assms p by (simp add: uns_body_def)
  from uns_parse_entry [OF p(2-6) assms(2), of "str_entry t2 @ rest"] p t len
  obtain q where q: "update_loop us_finished uns_handler p (str_entry t1 @ str_entry t2 @ rest) =
        update_loop us_finished uns_handler q (str_entry t2 @ rest)"
      "us_topics q = [t1]" "us_pkt_id q = us_pkt_id m" "us_topic q = t1" "length (us_buff q) = 2"
      "us_dlen q = 0" "us_body_len q = us_body_len p" "unat (us_nread q) = 4 + length t1"
      "\<not> us_finished q" "us_status q = UNS_TOPIC_LEN"
    by auto
  from uns_parse_entry [OF q(10,9,6,4,5) assms(3), of rest] q p t len show ?thesis by auto
qed

end
