(* ===== verification/MqttConnect.thy ===== *)
theory MqttConnect
  imports MqttMessage
begin

text \<open>
  CONNECT (\<^verbatim>\<open>mqtt_connect.cpp\<close>). The parser has eleven states and a table of twelve handlers
  that it indexes by the state: the row of the WILL_MSG_LEN state stands twice, so that state
  10, WILL_MSG_VAL, runs the handler of the length again. The table is modelled as it is. A
  CONNECT without a will is read back; one whose will message has two bytes or more keeps
  \<^verbatim>\<open>update\<close> in its loop for ever.

  The keep-alive is unpacked from \<^verbatim>\<open>&buff_[9]\<close>, the last byte of the ten and the one behind the
  array. \<open>cn_pad\<close> is that byte: no operation writes it and the language does not say what it
  holds, so the constructors take it as an argument.
\<close>

datatype conn_stat = CN_HDR_VAR | CN_CID_LEN | CN_CID_VAL | CN_USERNAME_LEN | CN_USERNAME_VAL
  | CN_PASSWD_LEN | CN_PASSWD_VAL | CN_WILL_TOPIC_LEN | CN_WILL_TOPIC_VAL
  | CN_WILL_MSG_LEN | CN_WILL_MSG_VAL

fun conn_stat_code :: "conn_stat \<Rightarrow> nat" where
  "conn_stat_code CN_HDR_VAR = 0"
| "conn_stat_code CN_CID_LEN = 1"
| "conn_stat_code CN_CID_VAL = 2"
| "conn_stat_code CN_USERNAME_LEN = 3"
| "conn_stat_code CN_USERNAME_VAL = 4"
| "conn_stat_code CN_PASSWD_LEN = 5"
| "conn_stat_code CN_PASSWD_VAL = 6"
| "conn_stat_code CN_WILL_TOPIC_LEN = 7"
| "conn_stat_code CN_WILL_TOPIC_VAL = 8"
| "conn_stat_code CN_WILL_MSG_LEN = 9"
| "conn_stat_code CN_WILL_MSG_VAL = 10"

record mqtt_connect =
  cn_header :: mqtt_header
  cn_status :: conn_stat
  cn_finished :: bool
  cn_buff :: "byte list"
  cn_pad :: byte
  cn_dlen :: nat
  cn_will_qos :: mqtt_qos
  cn_conn_flags :: byte
  cn_keep_alive :: u16
  cn_cid :: "byte list"
  cn_username :: "byte list"
  cn_passwd :: "byte list"
  cn_will_topic :: "byte list"
  cn_will_msg :: "byte list"

definition mqtt_connect_new :: "byte \<Rightarrow> mqtt_connect" where
  "mqtt_connect_new pad =
     \<lparr>cn_header = mqtt_header_new MQTT_CONNECT, cn_status = CN_HDR_VAR, cn_finished = False,
      cn_buff = replicate 10 0, cn_pad = pad, cn_dlen = 0, cn_will_qos = MQTT_QOS0,
      cn_conn_flags = 0, cn_keep_alive = 300, cn_cid = [], cn_username = [], cn_passwd = [],
      cn_will_topic = [], cn_will_msg = []\<rparr>"

definition mqtt_connect_of_header :: "byte \<Rightarrow> mqtt_header \<Rightarrow> mqtt_connect" where
  "mqtt_connect_of_header pad h =
     \<lparr>cn_header = mqtt_header_copy h, cn_status = CN_HDR_VAR, cn_finished = False,
      cn_buff = replicate 10 0, cn_pad = pad, cn_dlen = 0, cn_will_qos = MQTT_QOS0,
      cn_conn_flags = 0, cn_keep_alive = 300, cn_cid = [], cn_username = [], cn_passwd = [],
      cn_will_topic = [], cn_will_msg = []\<rparr>"

definition set_keep_alive :: "u16 \<Rightarrow> mqtt_connect \<Rightarrow> mqtt_connect" where
  "set_keep_alive k m = m\<lparr>cn_keep_alive := k\<rparr>"

definition set_cid :: "byte list \<Rightarrow> mqtt_connect \<Rightarrow> mqtt_connect" where
  "set_cid s m = (if cstr s \<noteq> [] then m\<lparr>cn_cid := cstr s\<rparr> else m)"

definition set_username :: "byte list \<Rightarrow> mqtt_connect \<Rightarrow> mqtt_connect" where
  "set_username s m = (if cstr s \<noteq> [] then m\<lparr>cn_username := cstr s\<rparr> else m)"

definition set_passwd :: "byte list \<Rightarrow> mqtt_connect \<Rightarrow> mqtt_connect" where
  "set_passwd s m = (if cstr s \<noteq> [] then m\<lparr>cn_passwd := cstr s\<rparr> else m)"

definition set_will_qos :: "mqtt_qos \<Rightarrow> mqtt_connect \<Rightarrow> mqtt_connect" where
  "set_will_qos q m =
     (let m' = m\<lparr>cn_will_qos := q\<rparr>; f = cn_conn_flags m' in
      m'\<lparr>cn_conn_flags := (case q of
           MQTT_QOS0 \<Rightarrow> f AND NOT (push_bit 4 1 OR push_bit 3 1)
         | MQTT_QOS1 \<Rightarrow> (f AND NOT (push_bit 4 1)) OR push_bit 3 1
         | MQTT_QOS2 \<Rightarrow> (f AND NOT (push_bit 3 1)) OR push_bit 4 1)\<rparr>)"

definition set_will_topic :: "byte list \<Rightarrow> mqtt_connect \<Rightarrow> mqtt_connect" where
  "set_will_topic s m = (if cstr s \<noteq> [] then m\<lparr>cn_will_topic := cstr s\<rparr> else m)"

definition set_will_msg :: "byte list \<Rightarrow> mqtt_connect \<Rightarrow> mqtt_connect" where
  "set_will_msg s m = (if cstr s \<noteq> [] then m\<lparr>cn_will_msg := cstr s\<rparr> else m)"

definition clean_session :: "mqtt_connect \<Rightarrow> mqtt_connect" where
  "clean_session m = m\<lparr>cn_conn_flags := cn_conn_flags m OR 0x02\<rparr>"

definition has_session :: "mqtt_connect \<Rightarrow> bool" where
  "has_session m \<longleftrightarrow> cn_conn_flags m AND 0x02 \<noteq> 0"

definition connect_to_string :: "mqtt_connect \<Rightarrow> byte list \<Rightarrow> mqtt_connect \<times> byte list option" where
  "connect_to_string m out =
     (let len = 10 + 2 + word_of_nat (length (cn_cid m)) :: u32;
          (m, len) = (if cn_username m \<noteq> []
             then (m\<lparr>cn_conn_flags := cn_conn_flags m OR push_bit 7 1\<rparr>,
                   len + 2 + word_of_nat (length (cn_username m)))
             else (m, len));
          (m, len) = (if cn_passwd m \<noteq> []
             then (m\<lparr>cn_conn_flags := cn_conn_flags m OR push_bit 6 1\<rparr>,
                   len + 2 + word_of_nat (length (cn_passwd m)))
             else (m, len));
          (m, len) = (if cn_will_topic m \<noteq> [] \<and> cn_will_msg m \<noteq> []
             then (m\<lparr>cn_conn_flags := cn_conn_flags m OR push_bit 2 1\<rparr>,
                   len + 2 + word_of_nat (length (cn_will_topic m)) + 2 +
                   word_of_nat (length (cn_will_msg m)))
             else (m\<lparr>cn_will_topic := [], cn_will_msg := []\<rparr>, len));
          (h, r) = build_header (set_remaing_length len (cn_header m)) out;
          m = m\<lparr>cn_header := h\<rparr>
      in (m, case r of
               None \<Rightarrow> None
             | Some o1 \<Rightarrow>
                 let o2 = fold pack_byte [0, 0x04, 0x4D, 0x51, 0x54, 0x54, 0x04, cn_conn_flags m] o1;
                     o3 = pack_string (cn_cid m) (pack_short (cn_keep_alive m) o2);
                     o4 = (if cn_will_topic m \<noteq> [] \<and> cn_will_msg m \<noteq> []
                           then pack_string (cn_will_msg m) (pack_string (cn_will_topic m) o3) else o3);
                     o5 = (if cn_username m \<noteq> [] then pack_string (cn_username m) o4 else o4);
                     o6 = (if cn_passwd m \<noteq> [] then pack_string (cn_passwd m) o5 else o5)
                 in Some o6))"

section \<open>The parser\<close>

text \<open>
  The label of the protocol is compared, but a wrong one is only reported in the log.
\<close>

definition cn_update_header_var :: "mqtt_connect \<Rightarrow> byte list \<Rightarrow> mqtt_connect hres" where
  "cn_update_header_var m data =
     (if data = [] then Abort
      else if 10 \<le> cn_dlen m then Fail m
      else case fill_buf 10 (cn_buff m) (cn_dlen m) data of
        (buf, n, rest) \<Rightarrow>
          let m' = m\<lparr>cn_buff := buf, cn_dlen := n\<rparr> in
          if n < 10 then (if rest \<noteq> [] then Abort else Ret m' rest)
          else
            let m2 = m'\<lparr>cn_conn_flags := buf ! 7\<rparr> in
            (case unpack_short [buf ! 9, cn_pad m2] 2 of
               None \<Rightarrow> Fail m2
             | Some k \<Rightarrow> Ret (m2\<lparr>cn_keep_alive := k, cn_dlen := 0, cn_status := CN_CID_LEN\<rparr>) rest))"

text \<open>
  The macros \<^verbatim>\<open>SAVE_LENGTH(dlen_)\<close> and \<^verbatim>\<open>SAVE_DATA(field)\<close>, with what the handler does after
  them as the argument \<open>k\<close>.
\<close>

definition save_length ::
  "(mqtt_connect \<Rightarrow> mqtt_connect) \<Rightarrow> mqtt_connect \<Rightarrow> byte list \<Rightarrow> mqtt_connect hres" where
  "save_length k m data =
     (if data = [] then Abort
      else case fill_buf 2 (cn_buff m) (cn_dlen m) data of
        (buf, n, rest) \<Rightarrow>
          let m' = m\<lparr>cn_buff := buf, cn_dlen := n\<rparr> in
          if n < 2 then (if rest \<noteq> [] then Abort else Ret m' rest)
          else (case unpack_short buf 2 of
                  None \<Rightarrow> Fail m'
                | Some i \<Rightarrow> Ret (k (m'\<lparr>cn_dlen := unat i\<rparr>)) rest))"

definition save_data ::
  "(mqtt_connect \<Rightarrow> byte list) \<Rightarrow> (byte list \<Rightarrow> mqtt_connect \<Rightarrow> mqtt_connect) \<Rightarrow>
   (mqtt_connect \<Rightarrow> mqtt_connect) \<Rightarrow> mqtt_connect \<Rightarrow> byte list \<Rightarrow> mqtt_connect hres" where
  "save_data get put k m data =
     (if data = [] \<or> cn_dlen m = 0 then Abort
      else case save_chars (get m) (cn_dlen m) data of
        (s, n, rest) \<Rightarrow>
          let m' = put s (m\<lparr>cn_dlen := n\<rparr>) in
          if 0 < n then (if rest \<noteq> [] then Abort else Ret m' rest)
          else Ret (k m') rest)"

definition after_passwd :: "mqtt_connect \<Rightarrow> mqtt_connect" where
  "after_passwd m =
     (if cn_conn_flags m AND 0x04 \<noteq> 0 then m\<lparr>cn_status := CN_WILL_TOPIC_LEN\<rparr>
      else m\<lparr>cn_finished := True\<rparr>)"

definition after_username :: "mqtt_connect \<Rightarrow> mqtt_connect" where
  "after_username m =
     (if cn_conn_flags m AND 0x40 \<noteq> 0 then m\<lparr>cn_status := CN_PASSWD_LEN\<rparr>
      else if cn_conn_flags m AND 0x04 \<noteq> 0 then m\<lparr>cn_status := CN_WILL_TOPIC_LEN\<rparr>
      else m\<lparr>cn_finished := True\<rparr>)"

definition after_cid :: "mqtt_connect \<Rightarrow> mqtt_connect" where
  "after_cid m =
     (if cn_conn_flags m AND 0x80 \<noteq> 0 then m\<lparr>cn_status := CN_USERNAME_LEN\<rparr>
      else if cn_conn_flags m AND 0x40 \<noteq> 0 then m\<lparr>cn_status := CN_PASSWD_LEN\<rparr>
      else if cn_conn_flags m AND 0x04 \<noteq> 0 then m\<lparr>cn_status := CN_WILL_TOPIC_LEN\<rparr>
      else m\<lparr>cn_finished := True\<rparr>)"

definition cn_update_cid_len :: "mqtt_connect \<Rightarrow> byte list \<Rightarrow> mqtt_connect hres" where
  "cn_update_cid_len =
     save_length (\<lambda>m. if 0 < cn_dlen m then m\<lparr>cn_status := CN_CID_VAL\<rparr> else after_cid m)"

definition cn_update_cid_val :: "mqtt_connect \<Rightarrow> byte list \<Rightarrow> mqtt_connect hres" where
  "cn_update_cid_val = save_data cn_cid (\<lambda>s m. m\<lparr>cn_cid := s\<rparr>) after_cid"

definition cn_update_username_len :: "mqtt_connect \<Rightarrow> byte list \<Rightarrow> mqtt_connect hres" where
  "cn_update_username_len =
     save_length (\<lambda>m. if 0 < cn_dlen m then m\<lparr>cn_status := CN_USERNAME_VAL\<rparr> else after_username m)"

definition cn_update_username_val :: "mqtt_connect \<Rightarrow> byte list \<Rightarrow> mqtt_connect hres" where
  "cn_update_username_val = save_data cn_username (\<lambda>s m. m\<lparr>cn_username := s\<rparr>) after_username"

definition cn_update_passwd_len :: "mqtt_connect \<Rightarrow> byte list \<Rightarrow> mqtt_connect hres" where
  "cn_update_passwd_len =
     save_length (\<lambda>m. if 0 < cn_dlen m then m\<lparr>cn_status := CN_PASSWD_VAL\<rparr> else after_passwd m)"

definition cn_update_passwd_val :: "mqtt_connect \<Rightarrow> byte list \<Rightarrow> mqtt_connect hres" where
  "cn_update_passwd_val = save_data cn_passwd (\<lambda>s m. m\<lparr>cn_passwd := s\<rparr>) after_passwd"

definition cn_update_will_topic_len :: "mqtt_connect \<Rightarrow> byte list \<Rightarrow> mqtt_connect hres" where
  "cn_update_will_topic_len = save_length (\<lambda>m. m\<lparr>cn_status := CN_WILL_TOPIC_VAL\<rparr>)"

definition cn_update_will_topic_val :: "mqtt_connect \<Rightarrow> byte list \<Rightarrow> mqtt_connect hres" where
  "cn_update_will_topic_val =
     save_data cn_will_topic (\<lambda>s m. m\<lparr>cn_will_topic := s\<rparr>) (\<lambda>m. m\<lparr>cn_status := CN_WILL_MSG_LEN\<rparr>)"

definition cn_update_will_msg_len :: "mqtt_connect \<Rightarrow> byte list \<Rightarrow> mqtt_connect hres" where
  "cn_update_will_msg_len =
     save_length (\<lambda>m. if 0 < cn_dlen m then m\<lparr>cn_status := CN_WILL_MSG_VAL\<rparr> else m\<lparr>cn_finished := True\<rparr>)"

definition cn_update_will_msg_val :: "mqtt_connect \<Rightarrow> byte list \<Rightarrow> mqtt_connect hres" where
  "cn_update_will_msg_val =
     save_data cn_will_msg (\<lambda>s m. m\<lparr>cn_will_msg := s\<rparr>) (\<lambda>m. m\<lparr>cn_finished := True\<rparr>)"

definition cn_handlers :: "(mqtt_connect \<Rightarrow> byte list \<Rightarrow> mqtt_connect hres) list" where
  "cn_handlers =
     [cn_update_header_var,
      cn_update_cid_len, cn_update_cid_val,
      cn_update_username_len, cn_update_username_val,
      cn_update_passwd_len, cn_update_passwd_val,
      cn_update_will_topic_len, cn_update_will_topic_val,
      cn_update_will_msg_len, cn_update_will_msg_len, cn_update_will_msg_val]"

definition cn_handler :: "mqtt_connect \<Rightarrow> byte list \<Rightarrow> mqtt_connect hres" where
  "cn_handler m = (cn_handlers ! conn_stat_code (cn_status m)) m"

definition connect_update :: "mqtt_connect \<Rightarrow> byte list \<Rightarrow> mqtt_connect hres option" where
  "connect_update = update_call cn_finished cn_handler"

section \<open>The streaming contract\<close>

lemma cn_hdr_cut:
  assumes "xs \<noteq> []" "\<not> cn_finished m" "cn_status m = CN_HDR_VAR"
  shows "cut_ok cn_finished cn_handler m xs"
proof (cases "10 \<le> cn_dlen m")
  case True
  with assms show ?thesis by (intro cut_ok_fail) (auto simp: cn_handler_def cn_handlers_def cn_update_header_var_def)
next
  case False
  show ?thesis
  proof (cases rule: fill_buf_cases [of "cn_dlen m" xs 10 "cn_buff m"])
    case pending
    with False assms show ?thesis
      by (intro cut_ok_pending [where
            s' = "m\<lparr>cn_buff := put_at (cn_buff m) (cn_dlen m) xs, cn_dlen := cn_dlen m + length xs\<rparr>"])
        (auto simp: cn_handler_def cn_handlers_def cn_update_header_var_def)
  next
    case (completed buf' n' rest)
    with False assms show ?thesis
      by (intro cut_ok_done [where rest = rest])
        (auto simp: cn_handler_def cn_handlers_def cn_update_header_var_def Let_def)
  qed
qed

text \<open>One lemma for all handlers of a length, and one for all handlers of a value.\<close>

lemma save_length_cut:
  assumes h: "\<And>n d b. cn_handler (m\<lparr>cn_buff := b, cn_dlen := n\<rparr>) d = save_length k (m\<lparr>cn_buff := b, cn_dlen := n\<rparr>) d"
    and "xs \<noteq> []" "\<not> cn_finished m"
  shows "cut_ok cn_finished cn_handler m xs"
proof -
  have h0: "cn_handler m d = save_length k m d" for d
    using h [where b = "cn_buff m" and n = "cn_dlen m" and d = d] by simp
  show ?thesis
  proof (cases rule: fill_buf_cases [of "cn_dlen m" xs 2 "cn_buff m"])
    case pending
    with assms show ?thesis
      by (intro cut_ok_pending [where
            s' = "m\<lparr>cn_buff := put_at (cn_buff m) (cn_dlen m) xs, cn_dlen := cn_dlen m + length xs\<rparr>"])
        (auto simp: h h0 save_length_def)
  next
    case (completed buf' n' rest)
    with assms show ?thesis
      by (intro cut_ok_done [where rest = rest]) (auto simp: h0 save_length_def Let_def)
  qed
qed

lemma save_data_cut:
  assumes h: "\<And>n s d. cn_handler (put s (m\<lparr>cn_dlen := n\<rparr>)) d = save_data get put k (put s (m\<lparr>cn_dlen := n\<rparr>)) d"
    and h0: "\<And>d. cn_handler m d = save_data get put k m d"
    and lens: "\<And>s n. get (put s (m\<lparr>cn_dlen := n\<rparr>)) = s" "\<And>s n. cn_dlen (put s (m\<lparr>cn_dlen := n\<rparr>)) = n"
      "\<And>s t n n'. put t ((put s (m\<lparr>cn_dlen := n\<rparr>))\<lparr>cn_dlen := n'\<rparr>) = put t (m\<lparr>cn_dlen := n'\<rparr>)"
      "\<And>s n. cn_finished (put s (m\<lparr>cn_dlen := n\<rparr>)) = cn_finished m"
    and "xs \<noteq> []" "\<not> cn_finished m"
  shows "cut_ok cn_finished cn_handler m xs"
proof (cases "cn_dlen m = 0")
  case True
  with assms show ?thesis by (intro cut_ok_abort) (auto simp: h0 save_data_def)
next
  case False
  show ?thesis
  proof (cases rule: save_chars_cases [of xs "cn_dlen m" "get m"])
    case pending
    with False assms show ?thesis
      by (intro cut_ok_pending [where s' =
            "put (get m @ filter (\<lambda>c. c \<noteq> 0) xs) (m\<lparr>cn_dlen := cn_dlen m - length xs\<rparr>)"])
        (auto simp: h h0 save_data_def)
  next
    case (completed s' rest)
    with False assms show ?thesis
      by (intro cut_ok_done [where rest = rest]) (auto simp: h0 save_data_def Let_def)
  qed
qed

lemmas cn_lens =
  cn_update_cid_len_def cn_update_username_len_def cn_update_passwd_len_def
  cn_update_will_topic_len_def cn_update_will_msg_len_def

lemmas cn_vals =
  cn_update_cid_val_def cn_update_username_val_def cn_update_passwd_val_def
  cn_update_will_topic_val_def

lemma cn_cut:
  assumes "xs \<noteq> []" "\<not> cn_finished m"
  shows "cut_ok cn_finished cn_handler m xs"
proof (cases "cn_status m")
  case CN_HDR_VAR
  with assms show ?thesis by (rule cn_hdr_cut)
next
  case CN_CID_LEN
  with assms show ?thesis by (intro save_length_cut) (simp_all add: cn_handler_def cn_handlers_def cn_lens)
next
  case CN_CID_VAL
  with assms show ?thesis
    by (intro save_data_cut [where get = cn_cid and put = "\<lambda>s m. m\<lparr>cn_cid := s\<rparr>" and k = "after_cid"])
      (simp_all add: cn_handler_def cn_handlers_def cn_vals)
next
  case CN_USERNAME_LEN
  with assms show ?thesis by (intro save_length_cut) (simp_all add: cn_handler_def cn_handlers_def cn_lens)
next
  case CN_USERNAME_VAL
  with assms show ?thesis
    by (intro save_data_cut [where get = cn_username and put = "\<lambda>s m. m\<lparr>cn_username := s\<rparr>" and k = "after_username"])
      (simp_all add: cn_handler_def cn_handlers_def cn_vals)
next
  case CN_PASSWD_LEN
  with assms show ?thesis by (intro save_length_cut) (simp_all add: cn_handler_def cn_handlers_def cn_lens)
next
  case CN_PASSWD_VAL
  with assms show ?thesis
    by (intro save_data_cut [where get = cn_passwd and put = "\<lambda>s m. m\<lparr>cn_passwd := s\<rparr>" and k = "after_passwd"])
      (simp_all add: cn_handler_def cn_handlers_def cn_vals)
next
  case CN_WILL_TOPIC_LEN
  with assms show ?thesis by (intro save_length_cut) (simp_all add: cn_handler_def cn_handlers_def cn_lens)
next
  case CN_WILL_TOPIC_VAL
  with assms show ?thesis
    by (intro save_data_cut [where get = cn_will_topic and put = "\<lambda>s m. m\<lparr>cn_will_topic := s\<rparr>" and k = "\<lambda>m. m\<lparr>cn_status := CN_WILL_MSG_LEN\<rparr>"])
      (simp_all add: cn_handler_def cn_handlers_def cn_vals)
next
  case CN_WILL_MSG_LEN
  with assms show ?thesis by (intro save_length_cut) (simp_all add: cn_handler_def cn_handlers_def cn_lens)
next
  case CN_WILL_MSG_VAL
  with assms show ?thesis by (intro save_length_cut) (simp_all add: cn_handler_def cn_handlers_def cn_lens)
qed

interpretation connect: incremental cn_finished cn_handler "\<lambda>_. True"
  by unfold_locales (auto intro: cn_cut)

section \<open>Reading the fields\<close>

text \<open>
  A length and a value, read by a pair of handlers: \<open>kl\<close> and \<open>k\<close> are what the two do at
  their end. The fields that only the parser needs are left open.
\<close>

lemma conn_field:
  assumes p: "\<not> cn_finished p" "cn_dlen p = 0" "length (cn_buff p) = 10"
    and t: "no_nul t" "length t < 65536"
    and hlen: "\<And>d. cn_handler p d = save_length kl p d"
    and kl: "\<And>m. 0 < cn_dlen m \<Longrightarrow> kl m = m\<lparr>cn_status := sv\<rparr>"
      "\<And>m. t = [] \<Longrightarrow> cn_dlen m = 0 \<Longrightarrow> kl m = k m"
    and hval: "\<And>b n d. cn_handler (p\<lparr>cn_buff := b, cn_dlen := n, cn_status := sv\<rparr>) d =
      save_data get put k (p\<lparr>cn_buff := b, cn_dlen := n, cn_status := sv\<rparr>) d"
    and get: "\<And>b n. get (p\<lparr>cn_buff := b, cn_dlen := n, cn_status := sv\<rparr>) = []"
    and put: "\<And>b. put [] (p\<lparr>cn_buff := b, cn_dlen := 0\<rparr>) = p\<lparr>cn_buff := b, cn_dlen := 0\<rparr>"
  shows "\<exists>b st. length b = 10 \<and> update_loop cn_finished cn_handler p (str_entry t @ rest) =
    update_loop cn_finished cn_handler (k (put t (p\<lparr>cn_buff := b, cn_dlen := 0, cn_status := st\<rparr>))) rest"
proof -
  let ?n = "word_of_nat (length t) :: u16"
  let ?b = "(cn_buff p)[0 := msb ?n, Suc 0 := lsb ?n]"
  have 1: "cn_handler p (msb ?n # lsb ?n # t @ rest) =
      Ret (kl (p\<lparr>cn_buff := ?b, cn_dlen := length t\<rparr>)) (t @ rest)"
    using p t by (simp add: hlen save_length_def unat_length_short)
  show ?thesis
  proof (cases "t = []")
    case True
    with 1 p kl(2) put [of ?b] show ?thesis
      by (intro exI [of _ ?b] exI [of _ "cn_status p"]) (simp add: str_entry_def update_loop_step)
  next
    case False
    let ?p1 = "p\<lparr>cn_buff := ?b, cn_dlen := length t, cn_status := sv\<rparr>"
    let ?p2 = "p\<lparr>cn_buff := ?b, cn_dlen := 0, cn_status := sv\<rparr>"
    have eq: "?p1\<lparr>cn_dlen := 0\<rparr> = ?p2" by simp
    have "cn_handler ?p1 (t @ rest) = Ret (k (put t (?p1\<lparr>cn_dlen := 0\<rparr>))) rest"
      using False t unfolding hval by (simp add: save_data_def get save_chars_exact)
    then have "cn_handler ?p1 (t @ rest) = Ret (k (put t ?p2)) rest" unfolding eq .
    with False 1 p kl(1) show ?thesis
      by (intro exI [of _ ?b] exI [of _ sv]) (simp add: str_entry_def update_loop_step)
  qed
qed

text \<open>What a reader of the message can ask for.\<close>

definition conn_view :: "mqtt_connect \<Rightarrow>
    byte list \<times> byte list \<times> byte list \<times> byte list \<times> byte list \<times> byte \<times> u16" where
  "conn_view p = (cn_cid p, cn_username p, cn_passwd p, cn_will_topic p, cn_will_msg p,
     cn_conn_flags p, cn_keep_alive p)"

definition conn_ready :: "mqtt_connect \<Rightarrow> bool" where
  "conn_ready p \<longleftrightarrow> \<not> cn_finished p \<and> cn_dlen p = 0 \<and> length (cn_buff p) = 10"

definition opt_entry :: "byte list \<Rightarrow> byte list" where
  "opt_entry t = (if t = [] then [] else str_entry t)"

lemma opt_entry_Nil [simp]: "opt_entry [] = []"
  by (simp add: opt_entry_def)

lemma conn_read_passwd:
  assumes "conn_ready p" "no_nul pw" "length pw < 65536" "cn_passwd p = []" "cn_conn_flags p AND 0x04 = 0"
    and "if pw = [] then p' = p\<lparr>cn_finished := True\<rparr> else p' = p\<lparr>cn_status := CN_PASSWD_LEN\<rparr>"
  shows "\<exists>q. update_loop cn_finished cn_handler p' (opt_entry pw @ rest) = Some (Ret q rest) \<and> cn_finished q \<and>
    conn_view q = conn_view (p\<lparr>cn_passwd := pw\<rparr>)"
proof (cases "pw = []")
  case True
  with assms show ?thesis by (simp add: opt_entry_def conn_view_def)
next
  case False
  with assms have p': "p' = p\<lparr>cn_status := CN_PASSWD_LEN\<rparr>" by simp
  have "\<exists>b st. length b = 10 \<and> update_loop cn_finished cn_handler p' (str_entry pw @ rest) =
    update_loop cn_finished cn_handler
      (after_passwd (p'\<lparr>cn_buff := b, cn_dlen := 0, cn_status := st, cn_passwd := pw\<rparr>)) rest"
    by (rule conn_field [where get = cn_passwd and put = "\<lambda>s m. m\<lparr>cn_passwd := s\<rparr>" and sv = CN_PASSWD_VAL
          and kl = "\<lambda>m. if 0 < cn_dlen m then m\<lparr>cn_status := CN_PASSWD_VAL\<rparr> else after_passwd m" and k = after_passwd])
      (use assms in \<open>simp_all add: p' conn_ready_def cn_handler_def cn_handlers_def cn_lens cn_vals\<close>)
  with assms False show ?thesis
    by (auto simp: opt_entry_def after_passwd_def conn_view_def p')
qed

lemma conn_read_username:
  assumes "conn_ready p" "no_nul un" "length un < 65536" "cn_username p = []"
    and "no_nul pw" "length pw < 65536" "cn_passwd p = []"
    and "cn_conn_flags p AND 0x04 = 0" "(cn_conn_flags p AND 0x40 \<noteq> 0) = (pw \<noteq> [])"
    and "if un = [] then p' = after_username p else p' = p\<lparr>cn_status := CN_USERNAME_LEN\<rparr>"
  shows "\<exists>q. update_loop cn_finished cn_handler p' (opt_entry un @ opt_entry pw @ rest) = Some (Ret q rest) \<and>
    cn_finished q \<and> conn_view q = conn_view (p\<lparr>cn_username := un, cn_passwd := pw\<rparr>)"
proof -
  have after: "\<exists>q. update_loop cn_finished cn_handler (after_username r) (opt_entry pw @ rest) = Some (Ret q rest) \<and>
      cn_finished q \<and> conn_view q = conn_view (r\<lparr>cn_passwd := pw\<rparr>)"
    if "conn_ready r" "cn_passwd r = []" "cn_conn_flags r = cn_conn_flags p" for r
    using that assms by (intro conn_read_passwd) (auto simp: after_username_def)
  show ?thesis
  proof (cases "un = []")
    case True
    with assms after [of p] show ?thesis by (simp add: conn_view_def)
  next
    case False
    with assms have p': "p' = p\<lparr>cn_status := CN_USERNAME_LEN\<rparr>" by simp
    have "\<exists>b st. length b = 10 \<and> update_loop cn_finished cn_handler p' (str_entry un @ opt_entry pw @ rest) =
      update_loop cn_finished cn_handler
        (after_username (p'\<lparr>cn_buff := b, cn_dlen := 0, cn_status := st, cn_username := un\<rparr>)) (opt_entry pw @ rest)"
      by (rule conn_field [where get = cn_username and put = "\<lambda>s m. m\<lparr>cn_username := s\<rparr>" and sv = CN_USERNAME_VAL
          and kl = "\<lambda>m. if 0 < cn_dlen m then m\<lparr>cn_status := CN_USERNAME_VAL\<rparr> else after_username m" and k = after_username])
        (use assms in \<open>simp_all add: p' conn_ready_def cn_handler_def cn_handlers_def cn_lens cn_vals\<close>)
    then obtain b st where b: "length b = 10"
        "update_loop cn_finished cn_handler p' (opt_entry un @ opt_entry pw @ rest) =
         update_loop cn_finished cn_handler
          (after_username (p'\<lparr>cn_buff := b, cn_dlen := 0, cn_status := st, cn_username := un\<rparr>)) (opt_entry pw @ rest)"
      using False by (auto simp: opt_entry_def)
    with after [of "p'\<lparr>cn_buff := b, cn_dlen := 0, cn_status := st, cn_username := un\<rparr>"] assms show ?thesis
      by (simp add: p' conn_ready_def conn_view_def)
  qed
qed

lemma conn_read_cid:
  assumes "conn_ready p" "cn_status p = CN_CID_LEN" "no_nul cid" "length cid < 65536" "cn_cid p = []"
  shows "\<exists>b st. length b = 10 \<and> update_loop cn_finished cn_handler p (str_entry cid @ rest) =
    update_loop cn_finished cn_handler
      (after_cid (p\<lparr>cn_buff := b, cn_dlen := 0, cn_status := st, cn_cid := cid\<rparr>)) rest"
  by (rule conn_field [where get = cn_cid and put = "\<lambda>s m. m\<lparr>cn_cid := s\<rparr>" and sv = CN_CID_VAL
          and kl = "\<lambda>m. if 0 < cn_dlen m then m\<lparr>cn_status := CN_CID_VAL\<rparr> else after_cid m" and k = after_cid])
    (use assms in \<open>simp_all add: conn_ready_def cn_handler_def cn_handlers_def cn_lens cn_vals\<close>)

text \<open>The ten bytes of the variable header, with the flags and the keep-alive.\<close>

definition conn_hdr :: "byte \<Rightarrow> u16 \<Rightarrow> byte list" where
  "conn_hdr f k = [0, 0x04, 0x4D, 0x51, 0x54, 0x54, 0x04, f, msb k, lsb k]"

lemma conn_read_hdr:
  "\<exists>p. connect_update (mqtt_connect_of_header pad h) (conn_hdr f k @ rest) =
      update_loop cn_finished cn_handler p rest \<and>
    conn_ready p \<and> cn_status p = CN_CID_LEN \<and>
    conn_view p = ([], [], [], [], [], f, push_bit 8 (ucast (lsb k)) OR ucast pad)"
proof -
  let ?p = "mqtt_connect_of_header pad h"
  let ?p1 = "?p\<lparr>cn_buff := conn_hdr f k, cn_conn_flags := f,
    cn_keep_alive := push_bit 8 (ucast (lsb k)) OR ucast pad, cn_dlen := 0, cn_status := CN_CID_LEN\<rparr>"
  have r: "replicate 10 (0::byte) = [0, 0, 0, 0, 0, 0, 0, 0, 0, 0]" by (simp add: numeral_eq_Suc)
  have "cn_handler ?p (conn_hdr f k @ rest) = Ret ?p1 rest"
    by (simp add: cn_handler_def cn_handlers_def cn_update_header_var_def mqtt_connect_of_header_def
        conn_hdr_def r fill_buf_eq put_at_Cons get_short_def)
  then show ?thesis
    by (intro exI [of _ ?p1]) (simp add: connect_update_def update_call_def update_loop_step conn_ready_def
        conn_view_def mqtt_connect_of_header_def conn_hdr_def)
qed

text \<open>A CONNECT without a will.\<close>

lemma connect_parse_body:
  assumes s: "no_nul cid" "length cid < 65536" "no_nul un" "length un < 65536" "no_nul pw" "length pw < 65536"
    and f: "f AND 0x04 = 0" "(f AND 0x80 \<noteq> 0) = (un \<noteq> [])" "(f AND 0x40 \<noteq> 0) = (pw \<noteq> [])"
  shows "\<exists>p. connect_update (mqtt_connect_of_header pad h)
      (conn_hdr f k @ str_entry cid @ opt_entry un @ opt_entry pw @ rest) = Some (Ret p rest) \<and> cn_finished p \<and>
    conn_view p = (cid, un, pw, [], [], f, push_bit 8 (ucast (lsb k)) OR ucast pad)"
proof -
  obtain p where p: "connect_update (mqtt_connect_of_header pad h)
        (conn_hdr f k @ str_entry cid @ opt_entry un @ opt_entry pw @ rest) =
      update_loop cn_finished cn_handler p (str_entry cid @ opt_entry un @ opt_entry pw @ rest)"
    "conn_ready p" "cn_status p = CN_CID_LEN"
    "conn_view p = ([], [], [], [], [], f, push_bit 8 (ucast (lsb k)) OR ucast pad)"
    using conn_read_hdr by blast
  have "cn_cid p = []" using p(4) by (simp add: conn_view_def)
  from conn_read_cid [OF p(2,3) s(1,2) this, of "opt_entry un @ opt_entry pw @ rest"]
  obtain b st where b: "length b = 10" "update_loop cn_finished cn_handler p
        (str_entry cid @ opt_entry un @ opt_entry pw @ rest) =
      update_loop cn_finished cn_handler
        (after_cid (p\<lparr>cn_buff := b, cn_dlen := 0, cn_status := st, cn_cid := cid\<rparr>)) (opt_entry un @ opt_entry pw @ rest)"
    by blast
  let ?r = "p\<lparr>cn_buff := b, cn_dlen := 0, cn_status := st, cn_cid := cid\<rparr>"
  have "\<exists>q. update_loop cn_finished cn_handler (after_cid ?r) (opt_entry un @ opt_entry pw @ rest) = Some (Ret q rest) \<and>
      cn_finished q \<and> conn_view q = conn_view (?r\<lparr>cn_username := un, cn_passwd := pw\<rparr>)"
    using p b s f by (intro conn_read_username) (auto simp: conn_ready_def conn_view_def after_cid_def after_username_def)
  with p b show ?thesis by (auto simp: conn_view_def)
qed

section \<open>The will message\<close>

text \<open>
  At the length of the will message: the handler reads it, moves to state 10, and from then on
  is called again and again without reading a byte.
\<close>

lemma conn_will_msg_stuck:
  assumes "conn_ready p" "cn_status p = CN_WILL_MSG_LEN" "2 \<le> length t" "length t < 65536"
  shows "update_loop cn_finished cn_handler p (str_entry t @ rest) = None"
proof -
  let ?n = "word_of_nat (length t) :: u16"
  let ?p1 = "p\<lparr>cn_buff := (cn_buff p)[0 := msb ?n, Suc 0 := lsb ?n], cn_dlen := length t,
    cn_status := CN_WILL_MSG_VAL\<rparr>"
  have t: "t \<noteq> []" "0 < length t" using assms by auto
  have 1: "cn_handler p (str_entry t @ rest) = Ret ?p1 (t @ rest)"
    using assms t by (simp add: conn_ready_def cn_handler_def cn_handlers_def cn_lens save_length_def
        unat_length_short str_entry_def)
  have 2: "cn_handler ?p1 (t @ rest) = Ret ?p1 (t @ rest)"
    using assms t by (simp add: conn_ready_def cn_handler_def cn_handlers_def cn_lens save_length_def unat_length_short)
  have "update_loop cn_finished cn_handler p (str_entry t @ rest) =
      update_loop cn_finished cn_handler ?p1 (t @ rest)"
    using assms(1) by (intro update_loop_step 1) (simp_all add: conn_ready_def str_entry_def)
  also have "\<dots> = None"
    using assms(1) t by (intro update_loop_stuck 2) (simp_all add: conn_ready_def)
  finally show ?thesis .
qed

lemma connect_will_parse_stuck:
  assumes s: "no_nul cid" "length cid < 65536" "topic_ok wt" "2 \<le> length wm" "length wm < 65536"
    and f: "f AND 0x04 \<noteq> 0" "f AND 0x80 = 0" "f AND 0x40 = 0"
  shows "connect_update (mqtt_connect_of_header pad h)
      (conn_hdr f k @ str_entry cid @ str_entry wt @ str_entry wm @ rest) = None"
proof -
  obtain p where p: "connect_update (mqtt_connect_of_header pad h)
        (conn_hdr f k @ str_entry cid @ str_entry wt @ str_entry wm @ rest) =
      update_loop cn_finished cn_handler p (str_entry cid @ str_entry wt @ str_entry wm @ rest)"
    "conn_ready p" "cn_status p = CN_CID_LEN"
    "conn_view p = ([], [], [], [], [], f, push_bit 8 (ucast (lsb k)) OR ucast pad)"
    using conn_read_hdr by blast
  have "cn_cid p = []" using p(4) by (simp add: conn_view_def)
  from conn_read_cid [OF p(2,3) s(1,2) this, of "str_entry wt @ str_entry wm @ rest"]
  obtain b st where b: "length b = 10" "update_loop cn_finished cn_handler p
        (str_entry cid @ str_entry wt @ str_entry wm @ rest) =
      update_loop cn_finished cn_handler
        (after_cid (p\<lparr>cn_buff := b, cn_dlen := 0, cn_status := st, cn_cid := cid\<rparr>)) (str_entry wt @ str_entry wm @ rest)"
    by blast
  let ?r = "p\<lparr>cn_buff := b, cn_dlen := 0, cn_status := CN_WILL_TOPIC_LEN, cn_cid := cid\<rparr>"
  have "after_cid (p\<lparr>cn_buff := b, cn_dlen := 0, cn_status := st, cn_cid := cid\<rparr>) = ?r"
    using p f by (simp add: after_cid_def conn_view_def)
  moreover have "\<exists>b st. length b = 10 \<and> update_loop cn_finished cn_handler ?r (str_entry wt @ str_entry wm @ rest) =
    update_loop cn_finished cn_handler
      ((?r\<lparr>cn_buff := b, cn_dlen := 0, cn_status := st, cn_will_topic := wt\<rparr>)\<lparr>cn_status := CN_WILL_MSG_LEN\<rparr>)
      (str_entry wm @ rest)"
    by (rule conn_field [where get = cn_will_topic and put = "\<lambda>s m. m\<lparr>cn_will_topic := s\<rparr>"
          and sv = CN_WILL_TOPIC_VAL and k = "\<lambda>m. m\<lparr>cn_status := CN_WILL_MSG_LEN\<rparr>"
          and kl = "\<lambda>m. m\<lparr>cn_status := CN_WILL_TOPIC_VAL\<rparr>"])
      (use assms p b in \<open>simp_all add: conn_view_def topic_ok_def conn_ready_def cn_handler_def cn_handlers_def cn_lens cn_vals\<close>)
  then obtain b' st' where b': "length b' = 10"
      "update_loop cn_finished cn_handler ?r (str_entry wt @ str_entry wm @ rest) =
       update_loop cn_finished cn_handler
        ((?r\<lparr>cn_buff := b', cn_dlen := 0, cn_status := st', cn_will_topic := wt\<rparr>)\<lparr>cn_status := CN_WILL_MSG_LEN\<rparr>)
        (str_entry wm @ rest)"
    by blast
  moreover have "update_loop cn_finished cn_handler
      ((?r\<lparr>cn_buff := b', cn_dlen := 0, cn_status := st', cn_will_topic := wt\<rparr>)\<lparr>cn_status := CN_WILL_MSG_LEN\<rparr>)
      (str_entry wm @ rest) = None"
    using p b' s by (intro conn_will_msg_stuck) (simp_all add: conn_ready_def)
  ultimately show ?thesis by (simp only: p(1) b(2) b'(2))
qed

text \<open>The parser never sets the quality of service of the will.\<close>

lemma cn_handler_will_qos: "cn_handler m d = Ret m' rest \<Longrightarrow> cn_will_qos m' = cn_will_qos m"
  by (cases "cn_status m")
    (auto simp: cn_handler_def cn_handlers_def cn_update_header_var_def cn_lens cn_vals save_length_def save_data_def
      after_cid_def after_username_def after_passwd_def Let_def split: if_splits option.splits prod.splits)

lemma connect_update_will_qos: "connect_update m d = Some (Ret m' rest) \<Longrightarrow> cn_will_qos m' = cn_will_qos m"
proof -
  have "update_loop cn_finished cn_handler m d = Some r \<Longrightarrow> \<forall>m' rest. r = Ret m' rest \<longrightarrow> cn_will_qos m' = cn_will_qos m" for r
    by (induction rule: update_loop_induct) (auto dest: cn_handler_will_qos)
  then show "connect_update m d = Some (Ret m' rest) \<Longrightarrow> cn_will_qos m' = cn_will_qos m"
    by (auto simp: connect_update_def update_call_def split: if_splits)
qed

section \<open>Writing\<close>

text \<open>
  A message made by the constructor and the setters: its strings hold no NUL, and the flags of
  the user name, the password and the will are still clear, as only \<^verbatim>\<open>to_string\<close> sets them.
\<close>

definition conn_made :: "mqtt_connect \<Rightarrow> bool" where
  "conn_made m \<longleftrightarrow> hd_type (cn_header m) = MQTT_CONNECT \<and>
     no_nul (cn_cid m) \<and> no_nul (cn_username m) \<and> no_nul (cn_passwd m) \<and>
     no_nul (cn_will_topic m) \<and> no_nul (cn_will_msg m) \<and>
     cn_conn_flags m AND 0x80 = 0 \<and> cn_conn_flags m AND 0x40 = 0 \<and> cn_conn_flags m AND 0x04 = 0"

lemma conn_made_new: "conn_made (mqtt_connect_new pad)"
  by (simp add: conn_made_def mqtt_connect_new_def mqtt_header_new_def)

lemma conn_made_setters:
  assumes "conn_made m"
  shows "conn_made (set_cid s m)" "conn_made (set_username s m)" "conn_made (set_passwd s m)"
    "conn_made (set_will_topic s m)" "conn_made (set_will_msg s m)" "conn_made (set_keep_alive k m)"
    "conn_made (set_will_qos q m)" "conn_made (clean_session m)"
  using assms
  by (simp_all add: conn_made_def set_cid_def set_username_def set_passwd_def set_will_topic_def
      set_will_msg_def set_keep_alive_def set_will_qos_def clean_session_def Let_def and_0x80_eq_0
      and_0x40_eq_0 and_0x04_eq_0 bit_simps split: mqtt_qos.split)

definition conn_body :: "mqtt_connect \<Rightarrow> byte list" where
  "conn_body m = conn_hdr (cn_conn_flags m) (cn_keep_alive m) @ str_entry (cn_cid m) @
     (if cn_will_topic m \<noteq> [] \<and> cn_will_msg m \<noteq> []
      then str_entry (cn_will_topic m) @ str_entry (cn_will_msg m) else []) @
     opt_entry (cn_username m) @ opt_entry (cn_passwd m)"

definition conn_out_flags :: "mqtt_connect \<Rightarrow> byte" where
  "conn_out_flags m = cn_conn_flags m OR (if cn_username m \<noteq> [] then 0x80 else 0) OR
     (if cn_passwd m \<noteq> [] then 0x40 else 0) OR
     (if cn_will_topic m \<noteq> [] \<and> cn_will_msg m \<noteq> [] then 0x04 else 0)"

lemma conn_out_flags_bits:
  assumes "conn_made m"
  shows "(conn_out_flags m AND 0x80 \<noteq> 0) = (cn_username m \<noteq> [])"
    "(conn_out_flags m AND 0x40 \<noteq> 0) = (cn_passwd m \<noteq> [])"
    "(conn_out_flags m AND 0x04 \<noteq> 0) = (cn_will_topic m \<noteq> [] \<and> cn_will_msg m \<noteq> [])"
  using assms
  by (auto simp: conn_made_def conn_out_flags_def and_0x80_eq_0 and_0x40_eq_0 and_0x04_eq_0 bit_simps)

text \<open>What \<^verbatim>\<open>to_string\<close> leaves in the object: a will without a topic or a message is dropped.\<close>

definition conn_written :: "mqtt_connect \<Rightarrow> mqtt_connect" where
  "conn_written m = m\<lparr>cn_conn_flags := conn_out_flags m,
     cn_will_topic := (if cn_will_topic m \<noteq> [] \<and> cn_will_msg m \<noteq> [] then cn_will_topic m else []),
     cn_will_msg := (if cn_will_topic m \<noteq> [] \<and> cn_will_msg m \<noteq> [] then cn_will_msg m else [])\<rparr>"

lemma connect_to_string_eq:
  assumes "hd_type (cn_header m) = MQTT_CONNECT"
    and len: "length (cn_cid m) < 65536" "length (cn_username m) < 65536" "length (cn_passwd m) < 65536"
      "length (cn_will_topic m) < 65536" "length (cn_will_msg m) < 65536"
  shows "\<exists>h hb. connect_to_string m out = ((conn_written m)\<lparr>cn_header := h\<rparr>, Some (out @ hb @ conn_body (conn_written m))) \<and>
    build_header h [] = (h, Some hb) \<and> hd_type h = MQTT_CONNECT \<and>
    unat (hd_dlen h) = length (conn_body (conn_written m))"
proof -
  let ?w = "conn_written m" and ?will = "cn_will_topic m \<noteq> [] \<and> cn_will_msg m \<noteq> []"
  define h where "h = set_remaing_length (word_of_nat (length (conn_body ?w))) (cn_header m)"
  have lt: "length (conn_body ?w) < 268435456"
    using len by (auto simp: conn_body_def conn_written_def conn_hdr_def opt_entry_def)
  then have dlen: "unat (hd_dlen h) = length (conn_body ?w)"
    by (simp add: h_def set_remaing_length_def unat_of_nat)
  with lt obtain hb where hb: "build_header h [] = (h, Some hb)"
    using build_header_ok [of h] by (auto simp: unat_less_iff)
  note b = build_header_out [OF hb, of out]
  define l0 :: u32 where "l0 = 10 + 2 + word_of_nat (length (cn_cid m))"
  define l1 where "l1 = (if cn_username m \<noteq> [] then l0 + 2 + word_of_nat (length (cn_username m)) else l0)"
  define l2 where "l2 = (if cn_passwd m \<noteq> [] then l1 + 2 + word_of_nat (length (cn_passwd m)) else l1)"
  define l3 where "l3 = (if ?will then l2 + 2 + word_of_nat (length (cn_will_topic m)) + 2 +
    word_of_nat (length (cn_will_msg m)) else l2)"
  have "word_of_nat (length (conn_body ?w)) = l3"
    by (auto simp: conn_body_def conn_written_def conn_hdr_def opt_entry_def l0_def l1_def l2_def l3_def)
  with b have b3: "build_header (set_remaing_length l3 (cn_header m)) out = (h, Some (out @ hb))" by (simp add: h_def)
  have "connect_to_string m out = (?w\<lparr>cn_header := h\<rparr>, Some (out @ hb @ conn_body ?w))"
    unfolding connect_to_string_def l0_def [symmetric]
    using len b3
    by (cases "cn_username m = []"; cases "cn_passwd m = []"; cases "cn_will_topic m = []";
        cases "cn_will_msg m = []")
      (simp_all add: l1_def l2_def l3_def pack_byte_eq pack_short_eq pack_string_entry conn_written_def
        conn_out_flags_def conn_body_def conn_hdr_def or.assoc opt_entry_def)
  moreover have "hd_type h = MQTT_CONNECT"
    using assms(1) by (simp add: h_def set_remaing_length_def)
  ultimately show ?thesis using hb dlen by blast
qed

end
