(* ===== verification/MqttMessages.thy ===== *)
theory MqttMessages
  imports MqttAck MqttPublish MqttSubscribe MqttUnsubscribe MqttConnect
begin

text \<open>
  The message classes under their common base (\<^verbatim>\<open>mqtt_message.cpp\<close>, and PINGREQ, PINGRESP and
  DISCONNECT, which have no body): creating the object for a header, and the virtual methods
  \<^verbatim>\<open>to_string\<close>, \<^verbatim>\<open>update\<close> and \<^verbatim>\<open>finished\<close> as functions on the sum of the classes. The five
  acknowledgement classes share one record and are told apart by the type in their header.
\<close>

datatype mqtt_message =
    MConnect mqtt_connect | MConnack mqtt_connack | MPublish mqtt_publish | MAck mqtt_ack
  | MSubscribe mqtt_subscribe | MSuback mqtt_suback | MUnsubscribe mqtt_unsubscribe
  | MPingreq mqtt_header | MPingresp mqtt_header | MDisconnect mqtt_header

definition create_message :: "byte \<Rightarrow> mqtt_header \<Rightarrow> mqtt_message option" where
  "create_message pad h =
     (case hd_type h of
        MQTT_CONNECT \<Rightarrow> Some (MConnect (mqtt_connect_of_header pad h))
      | MQTT_CONNACK \<Rightarrow> Some (MConnack (mqtt_connack_of_header h))
      | MQTT_PUBLISH \<Rightarrow> Some (MPublish (mqtt_publish_of_header h))
      | MQTT_PUBACK \<Rightarrow> Some (MAck (mqtt_ack_of_header h))
      | MQTT_PUBREC \<Rightarrow> Some (MAck (mqtt_ack_of_header h))
      | MQTT_PUBREL \<Rightarrow> Some (MAck (mqtt_pubrel_of_header h))
      | MQTT_PUBCOMP \<Rightarrow> Some (MAck (mqtt_ack_of_header h))
      | MQTT_SUBSCRIBE \<Rightarrow> Some (MSubscribe (mqtt_subscribe_of_header h))
      | MQTT_SUBACK \<Rightarrow> Some (MSuback (mqtt_suback_of_header h))
      | MQTT_UNSUBSCRIBE \<Rightarrow> Some (MUnsubscribe (mqtt_unsubscribe_of_header h))
      | MQTT_UNSUBACK \<Rightarrow> Some (MAck (mqtt_ack_of_header h))
      | MQTT_PINGREQ \<Rightarrow> Some (MPingreq (mqtt_header_copy h))
      | MQTT_PINGRESP \<Rightarrow> Some (MPingresp (mqtt_header_copy h))
      | MQTT_DISCONNECT \<Rightarrow> Some (MDisconnect (mqtt_header_copy h))
      | _ \<Rightarrow> None)"

definition pingreq_to_string :: "mqtt_header \<Rightarrow> byte list \<Rightarrow> mqtt_header \<times> byte list option" where
  "pingreq_to_string h out = build_header (set_remaing_length 0 h) out"

definition pingresp_to_string :: "mqtt_header \<Rightarrow> byte list \<Rightarrow> mqtt_header \<times> byte list option" where
  "pingresp_to_string h out = build_header (set_remaing_length 0 h) out"

definition disconnect_to_string :: "mqtt_header \<Rightarrow> byte list \<Rightarrow> mqtt_header \<times> byte list option" where
  "disconnect_to_string h out = build_header (set_remaing_length 0 h) out"

text \<open>The result of \<^verbatim>\<open>to_string\<close> over all classes; only PUBLISH can leave its payload's buffer.\<close>

definition str_out :: "('a \<Rightarrow> mqtt_message) \<Rightarrow> 'a \<times> byte list option \<Rightarrow> mqtt_message \<times> pub_out" where
  "str_out C x = (C (fst x), case snd x of None \<Rightarrow> PubFalse | Some bs \<Rightarrow> PubOk bs)"

fun message_to_string :: "mqtt_message \<Rightarrow> byte list \<Rightarrow> mqtt_message \<times> pub_out" where
  "message_to_string (MConnect m) out = str_out MConnect (connect_to_string m out)"
| "message_to_string (MConnack m) out = str_out MConnack (connack_to_string m out)"
| "message_to_string (MPublish m) out = (case publish_to_string m out of (m', r) \<Rightarrow> (MPublish m', r))"
| "message_to_string (MAck m) out = str_out MAck (ack_to_string m out)"
| "message_to_string (MSubscribe m) out = str_out MSubscribe (subscribe_to_string m out)"
| "message_to_string (MSuback m) out = str_out MSuback (suback_to_string m out)"
| "message_to_string (MUnsubscribe m) out = str_out MUnsubscribe (unsubscribe_to_string m out)"
| "message_to_string (MPingreq h) out = str_out MPingreq (pingreq_to_string h out)"
| "message_to_string (MPingresp h) out = str_out MPingresp (pingresp_to_string h out)"
| "message_to_string (MDisconnect h) out = str_out MDisconnect (disconnect_to_string h out)"

fun message_update :: "mqtt_message \<Rightarrow> byte list \<Rightarrow> mqtt_message hres option" where
  "message_update (MConnect m) d = map_option (map_hres MConnect) (connect_update m d)"
| "message_update (MConnack m) d = map_option (map_hres MConnack) (connack_update m d)"
| "message_update (MPublish m) d = map_option (map_hres MPublish) (publish_update m d)"
| "message_update (MAck m) d = map_option (map_hres MAck) (ack_update m d)"
| "message_update (MSubscribe m) d = map_option (map_hres MSubscribe) (subscribe_update m d)"
| "message_update (MSuback m) d = map_option (map_hres MSuback) (suback_update m d)"
| "message_update (MUnsubscribe m) d = map_option (map_hres MUnsubscribe) (unsubscribe_update m d)"
| "message_update (MPingreq h) d = Some (Ret (MPingreq h) d)"
| "message_update (MPingresp h) d = Some (Ret (MPingresp h) d)"
| "message_update (MDisconnect h) d = Some (Ret (MDisconnect h) d)"

fun message_finished :: "mqtt_message \<Rightarrow> bool" where
  "message_finished (MConnect m) = cn_finished m"
| "message_finished (MConnack m) = ca_finished m"
| "message_finished (MPublish m) = pb_finished m"
| "message_finished (MAck m) = ak_finished m"
| "message_finished (MSubscribe m) = sb_finished m"
| "message_finished (MSuback m) = sa_finished m"
| "message_finished (MUnsubscribe m) = us_finished m"
| "message_finished (MPingreq h) = True"
| "message_finished (MPingresp h) = True"
| "message_finished (MDisconnect h) = True"

section \<open>The streaming contract of the base class\<close>

text \<open>
  Every class that meets the contract meets it inside the sum: the contract carries over along
  a constructor.
\<close>

definition message_cut :: "mqtt_message \<Rightarrow> bool" where
  "message_cut s \<longleftrightarrow> (\<forall>xs ys. xs \<noteq> [] \<longrightarrow> \<not> message_finished s \<longrightarrow>
     (case message_update s xs of
        None \<Rightarrow> message_update s (xs @ ys) = None
      | Some Abort \<Rightarrow> message_update s (xs @ ys) = Some Abort
      | Some (Fail s') \<Rightarrow> message_update s (xs @ ys) = Some (Fail s')
      | Some (Ret s' rest) \<Rightarrow> (rest \<noteq> [] \<longrightarrow> message_finished s') \<and>
          (ys \<noteq> [] \<longrightarrow> message_update s (xs @ ys) =
             (if message_finished s' then Some (Ret s' (rest @ ys)) else message_update s' ys))))"

lemma message_cut_along:
  assumes c: "chunked fin upd (\<lambda>_. True)"
    and fin: "\<And>m. message_finished (C m) = fin m"
    and upd: "\<And>m d. message_update (C m) d = map_option (map_hres C) (upd m d)"
  shows "message_cut (C m)"
  unfolding message_cut_def
proof (intro allI impI)
  fix xs ys :: "byte list"
  assume xs: "xs \<noteq> []" and "\<not> message_finished (C m)"
  then have nf: "\<not> fin m" by (simp add: fin)
  show "case message_update (C m) xs of
        None \<Rightarrow> message_update (C m) (xs @ ys) = None
      | Some Abort \<Rightarrow> message_update (C m) (xs @ ys) = Some Abort
      | Some (Fail s') \<Rightarrow> message_update (C m) (xs @ ys) = Some (Fail s')
      | Some (Ret s' rest) \<Rightarrow> (rest \<noteq> [] \<longrightarrow> message_finished s') \<and>
          (ys \<noteq> [] \<longrightarrow> message_update (C m) (xs @ ys) =
             (if message_finished s' then Some (Ret s' (rest @ ys)) else message_update s' ys))"
  proof (cases "upd m xs")
    case None
    then show ?thesis using chunked.upd_prefix [OF c _ nf xs] by (simp add: upd)
  next
    case (Some r)
    show ?thesis
    proof (cases r)
      case Abort
      with Some show ?thesis using chunked.upd_abort [OF c _ nf xs] by (simp add: upd)
    next
      case (Fail m')
      with Some show ?thesis using chunked.upd_fail [OF c _ nf xs, of m'] by (simp add: upd)
    next
      case (Ret m' rest)
      with Some show ?thesis
        using chunked.upd_rest [OF c _ nf xs, of m' rest] chunked.upd_more [OF c _ nf xs, of ys m' rest]
        by (simp add: upd fin)
    qed
  qed
qed

lemma message_cut: "message_cut s"
proof (cases s)
  case (MConnect m)
  show ?thesis unfolding MConnect
    by (rule message_cut_along [OF connect.chunked_axioms]) (simp_all add: connect_update_def)
next
  case (MConnack m)
  show ?thesis unfolding MConnack
    by (rule message_cut_along [OF connack.chunked_axioms]) (simp_all add: connack_update_def)
next
  case (MPublish m)
  show ?thesis unfolding MPublish
    by (rule message_cut_along [OF publish.chunked_axioms]) (simp_all add: publish_update_def)
next
  case (MAck m)
  show ?thesis unfolding MAck
    by (rule message_cut_along [OF ack.chunked_axioms]) (simp_all add: ack_update_def)
next
  case (MSubscribe m)
  show ?thesis unfolding MSubscribe
    by (rule message_cut_along [OF subscribe.chunked_axioms]) (simp_all add: subscribe_update_def)
next
  case (MSuback m)
  show ?thesis unfolding MSuback
    by (rule message_cut_along [OF suback.chunked_axioms]) (simp_all add: suback_update_def)
next
  case (MUnsubscribe m)
  show ?thesis unfolding MUnsubscribe
    by (rule message_cut_along [OF unsubscribe.chunked_axioms]) (simp_all add: unsubscribe_update_def)
qed (simp_all add: message_cut_def)

interpretation msg: chunked message_finished message_update "\<lambda>_. True"
proof
  fix s s' and xs rest ys :: "byte list"
  assume s: "\<not> message_finished s" and xs: "xs \<noteq> []"
  note cut = message_cut [unfolded message_cut_def, rule_format, OF xs s]
  show True ..
  show "message_finished s'" if "message_update s xs = Some (Ret s' rest)" "rest \<noteq> []"
    using cut [of ys] that by simp
  show "message_update s (xs @ ys) =
      (if message_finished s' then Some (Ret s' (rest @ ys)) else message_update s' ys)"
    if "ys \<noteq> []" "message_update s xs = Some (Ret s' rest)"
    using cut [of ys] that by simp
  show "message_update s (xs @ ys) = Some (Fail s')" if "message_update s xs = Some (Fail s')"
    using cut [of ys] that by simp
  show "message_update s (xs @ ys) = Some Abort" if "message_update s xs = Some Abort"
    using cut [of ys] that by simp
  show "message_update s (xs @ ys) = None" if "message_update s xs = None"
    using cut [of ys] that by simp
qed

section \<open>What a message says, and what can be sent\<close>

text \<open>
  \<open>message_view\<close> is what the getters of a message give: of a CONNECT the identifier, the user name, the
  password, the topic, the message and the quality of service of the will, the flags and the keep-alive; of a
  CONNACK the session, the flags and the code.

  \<open>read_view\<close> is what the getters of the message that is read give for one that was written. The parser of CONNECT
  takes the keep-alive from the last byte of it and the byte behind its buffer and never sets the quality
  of service of the will; that of CONNACK never sets the session; the packet identifier of a
  PUBLISH with QoS 0 is not sent.
\<close>

datatype mview =
    VConnect "byte list" "byte list" "byte list" "byte list" "byte list" mqtt_qos byte u16
  | VConnack bool byte byte
  | VPublish "byte list" "4 word" u16 "byte list"
  | VAck mqtt_type u16
  | VSubscribe u16 "byte list list" "mqtt_qos list"
  | VSuback u16 "mqtt_qos list"
  | VUnsubscribe u16 "byte list list"
  | VPing mqtt_type

fun message_view :: "mqtt_message \<Rightarrow> mview" where
  "message_view (MConnect m) = VConnect (cn_cid m) (cn_username m) (cn_passwd m) (cn_will_topic m) (cn_will_msg m)
     (cn_will_qos m) (cn_conn_flags m) (cn_keep_alive m)"
| "message_view (MConnack m) = VConnack (ca_session m) (ca_conn_flags m) (ca_connack_code m)"
| "message_view (MPublish m) = VPublish (pb_topic m) (hd_flags (pb_header m)) (pb_pkt_id m) (pb_payload m)"
| "message_view (MAck m) = VAck (hd_type (ak_header m)) (ak_pkt_id m)"
| "message_view (MSubscribe m) = VSubscribe (sb_pkt_id m) (sb_topics m) (sb_qoses m)"
| "message_view (MSuback m) = VSuback (sa_pkt_id m) (sa_qoses m)"
| "message_view (MUnsubscribe m) = VUnsubscribe (us_pkt_id m) (us_topics m)"
| "message_view (MPingreq h) = VPing (hd_type h)"
| "message_view (MPingresp h) = VPing (hd_type h)"
| "message_view (MDisconnect h) = VPing (hd_type h)"

fun read_view :: "byte \<Rightarrow> mview \<Rightarrow> mview" where
  "read_view pad (VConnect cid un pw wt wm wq f k) =
     VConnect cid un pw wt wm MQTT_QOS0 f (push_bit 8 (ucast (lsb k)) OR ucast pad)"
| "read_view pad (VConnack s f c) = VConnack False f c"
| "read_view pad (VPublish t f i d) = VPublish t f (if drop_bit 1 f AND 0x03 \<in> {1, 2} then i else 0) d"
| "read_view pad v = v"

text \<open>
  \<open>sendable\<close>: a message made through the interface of its class that fits into the format and
  avoids what the parsers of the other side do not cope with: a will, a QoS 0 publication
  without payload, and more than one topic to unsubscribe from.
\<close>

fun sendable :: "mqtt_message \<Rightarrow> bool" where
  "sendable (MConnect m) \<longleftrightarrow> conn_made m \<and> length (cn_cid m) < 65536 \<and>
     length (cn_username m) < 65536 \<and> length (cn_passwd m) < 65536 \<and>
     length (cn_will_topic m) < 65536 \<and> length (cn_will_msg m) < 65536 \<and>
     (cn_will_topic m = [] \<or> cn_will_msg m = [])"
| "sendable (MConnack m) \<longleftrightarrow> hd_type (ca_header m) = MQTT_CONNACK"
| "sendable (MPublish m) \<longleftrightarrow> pub_made m \<and> pb_pkt_id m \<noteq> 0 \<and> topic_ok (pb_topic m) \<and>
     length (pub_body m) < 268435456 \<and> (get_qos (pb_header m) = MQTT_QOS0 \<longrightarrow> pb_payload m \<noteq> [])"
| "sendable (MAck m) \<longleftrightarrow> ak_pkt_id m \<noteq> 0 \<and>
     hd_type (ak_header m) \<in> {MQTT_PUBACK, MQTT_PUBREC, MQTT_PUBREL, MQTT_PUBCOMP, MQTT_UNSUBACK}"
| "sendable (MSubscribe m) \<longleftrightarrow> sub_made m \<and> sb_topics m \<noteq> [] \<and>
     (\<forall>t \<in> set (sb_topics m). topic_ok t) \<and> length (sub_body m) < 268435456"
| "sendable (MSuback m) \<longleftrightarrow> suback_made m \<and> sa_qoses m \<noteq> [] \<and> length (suback_body m) < 268435456"
| "sendable (MUnsubscribe m) \<longleftrightarrow> uns_made m \<and> us_pkt_id m \<noteq> 0 \<and>
     (\<exists>t. us_topics m = [t] \<and> topic_ok t)"
| "sendable (MPingreq h) \<longleftrightarrow> hd_type h = MQTT_PINGREQ"
| "sendable (MPingresp h) \<longleftrightarrow> hd_type h = MQTT_PINGRESP"
| "sendable (MDisconnect h) \<longleftrightarrow> hd_type h = MQTT_DISCONNECT"

text \<open>
  \<open>reads_as body v b\<close>: the new object \<open>b\<close> takes exactly the bytes of the body from what is
  handed to it, and then says \<open>v\<close>. A message without a body is complete at once.
\<close>

definition reads_as :: "byte list \<Rightarrow> mview \<Rightarrow> mqtt_message \<Rightarrow> bool" where
  "reads_as body v b \<longleftrightarrow>
     (if body = [] then message_finished b \<and> message_view b = v
      else \<not> message_finished b \<and>
        (\<forall>rest. \<exists>p. message_update b (body @ rest) = Some (Ret p rest) \<and> message_finished p \<and>
                   message_view p = v))"

text \<open>
  \<open>on_wire v bs\<close>: the bytes are a header, built from some header object, and the body it
  announces, and every object created for a header that says the same reads the body.
\<close>

definition on_wire :: "mview \<Rightarrow> byte list \<Rightarrow> bool" where
  "on_wire v bs \<longleftrightarrow> (\<exists>h hb body. bs = hb @ body \<and> build_header h [] = (h, Some hb) \<and>
     hd_type h \<noteq> MQTT_RESERVED_MIN \<and> hd_type h \<noteq> MQTT_RESERVED_MAX \<and>
     unat (hd_dlen h) = length body \<and>
     (\<forall>h' pad. hd_type h' = hd_type h \<longrightarrow> hd_flags h' = hd_flags h \<longrightarrow> hd_dlen h' = hd_dlen h \<longrightarrow>
        (\<exists>b. create_message pad h' = Some b \<and> reads_as body (read_view pad v) b)))"

lemma on_wireI:
  assumes "build_header h [] = (h, Some hb)"
    and "hd_type h \<noteq> MQTT_RESERVED_MIN" "hd_type h \<noteq> MQTT_RESERVED_MAX" "unat (hd_dlen h) = length body"
    and "\<And>h' pad. hd_type h' = hd_type h \<Longrightarrow> hd_flags h' = hd_flags h \<Longrightarrow> hd_dlen h' = hd_dlen h \<Longrightarrow>
      \<exists>b. create_message pad h' = Some b \<and> reads_as body (read_view pad v) b"
  shows "on_wire v (hb @ body)"
  using assms unfolding on_wire_def by blast

text \<open>The bytes of every sendable message, written to the end of any output.\<close>

lemma wire_connect:
  assumes "sendable (MConnect m)"
  shows "\<exists>m' bs. message_to_string (MConnect m) out = (m', PubOk (out @ bs)) \<and> on_wire (message_view m') bs"
proof -
  let ?w = "conn_written m"
  from assms obtain h hb where h: "connect_to_string m out =
        (?w\<lparr>cn_header := h\<rparr>, Some (out @ hb @ conn_body ?w))"
      "build_header h [] = (h, Some hb)" "hd_type h = MQTT_CONNECT" "unat (hd_dlen h) = length (conn_body ?w)"
    using connect_to_string_eq [of m out] by (auto simp: conn_made_def)
  have flags: "conn_out_flags m AND 0x04 = 0" "(conn_out_flags m AND 0x80 \<noteq> 0) = (cn_username m \<noteq> [])"
      "(conn_out_flags m AND 0x40 \<noteq> 0) = (cn_passwd m \<noteq> [])"
    using assms conn_out_flags_bits [of m] by auto
  have body: "conn_body ?w = conn_hdr (conn_out_flags m) (cn_keep_alive m) @ str_entry (cn_cid m) @
      opt_entry (cn_username m) @ opt_entry (cn_passwd m)"
    using assms by (auto simp: conn_body_def conn_written_def)
  have w: "cn_will_topic m = [] \<or> cn_will_msg m = []" using assms by simp
  have "on_wire (message_view (MConnect (?w\<lparr>cn_header := h\<rparr>))) (hb @ conn_body ?w)"
  proof (rule on_wireI [OF h(2)])
    fix h' :: mqtt_header and pad
    assume h': "hd_type h' = hd_type h"
    have "\<exists>p. connect_update (mqtt_connect_of_header pad h') (conn_body ?w @ rest) = Some (Ret p rest) \<and>
        cn_finished p \<and> conn_view p = (cn_cid m, cn_username m, cn_passwd m, [], [], conn_out_flags m,
          push_bit 8 (ucast (lsb (cn_keep_alive m))) OR ucast pad)" for rest
      using assms connect_parse_body [OF _ _ _ _ _ _ flags, of "cn_cid m" pad h' "cn_keep_alive m" rest]
      by (simp add: body conn_made_def)
    then have "\<exists>p. connect_update (mqtt_connect_of_header pad h') (conn_body ?w @ rest) = Some (Ret p rest) \<and>
        cn_finished p \<and> message_view (MConnect p) = read_view pad (message_view (MConnect (?w\<lparr>cn_header := h\<rparr>)))" for rest
      using w connect_update_will_qos [of "mqtt_connect_of_header pad h'"]
      by (fastforce simp: conn_view_def conn_written_def mqtt_connect_of_header_def)
    moreover have "conn_body ?w \<noteq> []" by (simp add: body conn_hdr_def)
    moreover have "\<not> cn_finished (mqtt_connect_of_header pad h')" by (simp add: mqtt_connect_of_header_def)
    ultimately show "\<exists>b. create_message pad h' = Some b \<and>
        reads_as (conn_body ?w) (read_view pad (message_view (MConnect (?w\<lparr>cn_header := h\<rparr>)))) b"
      using h' h(3) by (fastforce simp: create_message_def reads_as_def)
  qed (use h in simp_all)
  with h(1) show ?thesis by (simp add: str_out_def)
qed

lemma qos_flags: "get_qos h = MQTT_QOS0 \<longleftrightarrow> drop_bit 1 (hd_flags h) AND 0x03 \<notin> {1, 2}"
  by (simp add: get_qos_def Let_def)

lemma wire_publish:
  assumes "sendable (MPublish m)"
  shows "\<exists>m' bs. message_to_string (MPublish m) out = (m', PubOk (out @ bs)) \<and> on_wire (message_view m') bs"
proof -
  from assms obtain h hb where h: "publish_to_string m out = (m\<lparr>pb_header := h\<rparr>, PubOk (out @ hb @ pub_body m))"
      "build_header h [] = (h, Some hb)" "hd_type h = MQTT_PUBLISH" "unat (hd_dlen h) = length (pub_body m)"
      "get_qos h = get_qos (pb_header m)"
    using publish_to_string_eq [of m out] by (auto simp: topic_ok_def)
  have "on_wire (message_view (MPublish (m\<lparr>pb_header := h\<rparr>))) (hb @ pub_body m)"
  proof (rule on_wireI [OF h(2)])
    fix h' :: mqtt_header and pad :: byte
    assume h': "hd_type h' = hd_type h" "hd_flags h' = hd_flags h" "hd_dlen h' = hd_dlen h"
    then have q: "get_qos h' = get_qos h" by (simp add: get_qos_def)
    have "\<exists>p. publish_update (mqtt_publish_of_header h') (pub_body m @ rest) = Some (Ret p rest) \<and>
        pb_finished p \<and> pb_topic p = pb_topic m \<and> pb_payload p = pb_payload m \<and>
        pb_pkt_id p = (if get_qos h' = MQTT_QOS0 then 0 else pb_pkt_id m) \<and> pb_header p = mqtt_header_copy h'" for rest
      using assms h h' q by (intro publish_parse_body) auto
    then have "\<exists>p. publish_update (mqtt_publish_of_header h') (pub_body m @ rest) = Some (Ret p rest) \<and> pb_finished p \<and>
        message_view (MPublish p) = read_view pad (message_view (MPublish (m\<lparr>pb_header := h\<rparr>)))" for rest
      using h'(2) qos_flags [of h'] by (fastforce simp: mqtt_header_copy_def)
    moreover have "pub_body m \<noteq> []" by (simp add: pub_body_def str_entry_def)
    moreover have "\<not> pb_finished (mqtt_publish_of_header h')" by (simp add: mqtt_publish_of_header_def)
    ultimately show "\<exists>b. create_message pad h' = Some b \<and>
        reads_as (pub_body m) (read_view pad (message_view (MPublish (m\<lparr>pb_header := h\<rparr>)))) b"
      using h' h(3) by (fastforce simp: create_message_def reads_as_def simp del: message_view.simps read_view.simps)
  qed (use h in simp_all)
  with h(1) show ?thesis by simp
qed

lemma wire_ack:
  assumes "sendable (MAck m)"
  shows "\<exists>m' bs. message_to_string (MAck m) out = (m', PubOk (out @ bs)) \<and> on_wire (message_view m') bs"
proof -
  let ?body = "[msb (ak_pkt_id m), lsb (ak_pkt_id m)]"
  from assms obtain h hb where h: "ack_to_string m out = (m\<lparr>ak_header := h\<rparr>, Some (out @ hb @ ?body))"
      "build_header h [] = (h, Some hb)" "hd_type h = hd_type (ak_header m)" "hd_dlen h = 2"
    using ack_to_string_eq [of m out] by auto
  have ty: "hd_type h \<in> {MQTT_PUBACK, MQTT_PUBREC, MQTT_PUBREL, MQTT_PUBCOMP, MQTT_UNSUBACK}"
    using assms h(3) by simp
  have "on_wire (message_view (MAck (m\<lparr>ak_header := h\<rparr>))) (hb @ ?body)"
  proof (rule on_wireI [OF h(2)])
    fix h' :: mqtt_header and pad :: byte
    assume h': "hd_type h' = hd_type h"
    let ?a = "if hd_type h' = MQTT_PUBREL then mqtt_pubrel_of_header h' else mqtt_ack_of_header h'"
    have a: "ak_hlen ?a = 0" "\<not> ak_finished ?a" "length (ak_hbuf ?a) = 2" "hd_type (ak_header ?a) = hd_type h"
      using h' by (simp_all add: mqtt_pubrel_of_header_def mqtt_ack_of_header_def mqtt_header_copy_def
          set_header_flags_def Let_def)
    have "reads_as ?body (read_view pad (message_view (MAck (m\<lparr>ak_header := h\<rparr>)))) (MAck ?a)"
      using ack_parse_body [OF a(1-3), of "ak_pkt_id m"] a(2,4) by (fastforce simp: reads_as_def)
    moreover have "create_message pad h' = Some (MAck ?a)"
      using ty h' by (auto simp: create_message_def)
    ultimately show "\<exists>b. create_message pad h' = Some b \<and>
        reads_as ?body (read_view pad (message_view (MAck (m\<lparr>ak_header := h\<rparr>)))) b" by blast
  qed (use h ty in auto)
  with h(1) show ?thesis by (simp add: str_out_def)
qed

lemma wire_connack:
  assumes "sendable (MConnack m)"
  shows "\<exists>m' bs. message_to_string (MConnack m) out = (m', PubOk (out @ bs)) \<and> on_wire (message_view m') bs"
proof -
  let ?body = "[ca_conn_flags m, ca_connack_code m]"
  from assms obtain h hb where h: "connack_to_string m out = (m\<lparr>ca_header := h\<rparr>, Some (out @ hb @ ?body))"
      "build_header h [] = (h, Some hb)" "hd_type h = MQTT_CONNACK" "hd_dlen h = 2"
    using connack_to_string_eq [of m out] by auto
  have "on_wire (message_view (MConnack (m\<lparr>ca_header := h\<rparr>))) (hb @ ?body)"
  proof (rule on_wireI [OF h(2)])
    fix h' :: mqtt_header and pad :: byte
    assume h': "hd_type h' = hd_type h"
    have "\<not> ca_finished (mqtt_connack_of_header h')" by (simp add: mqtt_connack_of_header_def)
    then show "\<exists>b. create_message pad h' = Some b \<and>
        reads_as ?body (read_view pad (message_view (MConnack (m\<lparr>ca_header := h\<rparr>)))) b"
      using h' h(3) connack_parse_body [of h' "ca_conn_flags m" "ca_connack_code m"]
      by (fastforce simp: create_message_def reads_as_def)
  qed (use h in simp_all)
  with h(1) show ?thesis by (simp add: str_out_def)
qed

lemma wire_subscribe:
  assumes "sendable (MSubscribe m)"
  shows "\<exists>m' bs. message_to_string (MSubscribe m) out = (m', PubOk (out @ bs)) \<and> on_wire (message_view m') bs"
proof -
  from assms obtain h hb where h: "subscribe_to_string m out =
        (m\<lparr>sb_body_len := sb_body_len m + 2, sb_header := h\<rparr>, Some (out @ hb @ sub_body m))"
      "build_header h [] = (h, Some hb)" "hd_type h = MQTT_SUBSCRIBE" "unat (hd_dlen h) = length (sub_body m)"
    using subscribe_to_string_eq [of m out] by auto
  let ?m = "m\<lparr>sb_body_len := sb_body_len m + 2, sb_header := h\<rparr>"
  have "on_wire (message_view (MSubscribe ?m)) (hb @ sub_body m)"
  proof (rule on_wireI [OF h(2)])
    fix h' :: mqtt_header and pad :: byte
    assume h': "hd_type h' = hd_type h" "hd_dlen h' = hd_dlen h"
    have "\<not> sb_finished (mqtt_subscribe_of_header h')" by (simp add: mqtt_subscribe_of_header_def)
    moreover have "sub_body m \<noteq> []" by (simp add: sub_body_def)
    moreover have "\<exists>p. subscribe_update (mqtt_subscribe_of_header h') (sub_body m @ rest) = Some (Ret p rest) \<and>
        sb_finished p \<and> sb_topics p = sb_topics m \<and> sb_qoses p = sb_qoses m \<and> sb_pkt_id p = sb_pkt_id m" for rest
      using assms h h' by (intro subscribe_parse_body) auto
    ultimately show "\<exists>b. create_message pad h' = Some b \<and> reads_as (sub_body m) (read_view pad (message_view (MSubscribe ?m))) b"
      using h' h(3) by (fastforce simp: create_message_def reads_as_def)
  qed (use h in simp_all)
  with h(1) show ?thesis by (simp add: str_out_def)
qed

lemma wire_suback:
  assumes "sendable (MSuback m)"
  shows "\<exists>m' bs. message_to_string (MSuback m) out = (m', PubOk (out @ bs)) \<and> on_wire (message_view m') bs"
proof -
  from assms obtain h hb where h: "suback_to_string m out =
        (m\<lparr>sa_body_len := sa_body_len m + 2, sa_header := h\<rparr>, Some (out @ hb @ suback_body m))"
      "build_header h [] = (h, Some hb)" "hd_type h = MQTT_SUBACK" "unat (hd_dlen h) = length (suback_body m)"
    using suback_to_string_eq [of m out] by auto
  let ?m = "m\<lparr>sa_body_len := sa_body_len m + 2, sa_header := h\<rparr>"
  have "on_wire (message_view (MSuback ?m)) (hb @ suback_body m)"
  proof (rule on_wireI [OF h(2)])
    fix h' :: mqtt_header and pad :: byte
    assume h': "hd_type h' = hd_type h" "hd_dlen h' = hd_dlen h"
    have "\<not> sa_finished (mqtt_suback_of_header h')" by (simp add: mqtt_suback_of_header_def)
    moreover have "suback_body m \<noteq> []" by (simp add: suback_body_def)
    moreover have "\<exists>p. suback_update (mqtt_suback_of_header h') (suback_body m @ rest) = Some (Ret p rest) \<and>
        sa_finished p \<and> sa_qoses p = sa_qoses m \<and> sa_pkt_id p = sa_pkt_id m" for rest
      using assms h h' by (intro suback_parse_body) auto
    ultimately show "\<exists>b. create_message pad h' = Some b \<and> reads_as (suback_body m) (read_view pad (message_view (MSuback ?m))) b"
      using h' h(3) by (fastforce simp: create_message_def reads_as_def)
  qed (use h in simp_all)
  with h(1) show ?thesis by (simp add: str_out_def)
qed

lemma wire_unsubscribe:
  assumes "sendable (MUnsubscribe m)"
  shows "\<exists>m' bs. message_to_string (MUnsubscribe m) out = (m', PubOk (out @ bs)) \<and> on_wire (message_view m') bs"
proof -
  from assms obtain t where t: "us_topics m = [t]" "topic_ok t" by auto
  then have "length (uns_body m) < 268435456" by (simp add: uns_body_def topic_ok_def)
  with assms t obtain h hb where h: "unsubscribe_to_string m out =
        (m\<lparr>us_body_len := us_body_len m + 2, us_header := h\<rparr>, Some (out @ hb @ uns_body m))"
      "build_header h [] = (h, Some hb)" "hd_type h = MQTT_UNSUBSCRIBE" "unat (hd_dlen h) = length (uns_body m)"
    using unsubscribe_to_string_eq [of m out] by auto
  let ?m = "m\<lparr>us_body_len := us_body_len m + 2, us_header := h\<rparr>"
  have "on_wire (message_view (MUnsubscribe ?m)) (hb @ uns_body m)"
  proof (rule on_wireI [OF h(2)])
    fix h' :: mqtt_header and pad :: byte
    assume h': "hd_type h' = hd_type h" "hd_dlen h' = hd_dlen h"
    have "\<not> us_finished (mqtt_unsubscribe_of_header h')" by (simp add: mqtt_unsubscribe_of_header_def)
    moreover have "uns_body m \<noteq> []" by (simp add: uns_body_def)
    moreover have "\<exists>p. unsubscribe_update (mqtt_unsubscribe_of_header h') (uns_body m @ rest) = Some (Ret p rest) \<and>
        us_finished p \<and> us_topics p = [t] \<and> us_pkt_id p = us_pkt_id m" for rest
      using t h h' by (intro unsubscribe_parse_one) auto
    ultimately show "\<exists>b. create_message pad h' = Some b \<and> reads_as (uns_body m) (read_view pad (message_view (MUnsubscribe ?m))) b"
      using h' h(3) t by (fastforce simp: create_message_def reads_as_def)
  qed (use h in simp_all)
  with h(1) show ?thesis by (simp add: str_out_def)
qed

lemma wire_ping:
  assumes ty: "hd_type h \<in> {MQTT_PINGREQ, MQTT_PINGRESP, MQTT_DISCONNECT}"
  shows "\<exists>bs. build_header (set_remaing_length 0 h) out = (set_remaing_length 0 h, Some (out @ bs)) \<and>
    on_wire (VPing (hd_type h)) bs"
proof -
  let ?h = "set_remaing_length 0 h"
  obtain hb where hb: "build_header ?h [] = (?h, Some hb)"
    using build_header_ok [of ?h] by (auto simp: set_remaing_length_def)
  have "on_wire (VPing (hd_type h)) (hb @ [])"
    by (rule on_wireI [OF hb])
      (use ty in \<open>auto simp: create_message_def reads_as_def mqtt_header_copy_def\<close>)
  with build_header_out [OF hb] show ?thesis by auto
qed

lemma sendable_on_wire:
  assumes "sendable m"
  shows "\<exists>m' bs. message_to_string m out = (m', PubOk (out @ bs)) \<and> on_wire (message_view m') bs"
proof (cases m)
  case (MPingreq h)
  with assms wire_ping [of h out] show ?thesis by (auto simp: str_out_def pingreq_to_string_def)
next
  case (MPingresp h)
  with assms wire_ping [of h out] show ?thesis by (auto simp: str_out_def pingresp_to_string_def)
next
  case (MDisconnect h)
  with assms wire_ping [of h out] show ?thesis by (auto simp: str_out_def disconnect_to_string_def)
qed (use assms wire_connect wire_publish wire_ack wire_connack wire_subscribe wire_suback wire_unsubscribe
      in blast)+

end
