(* ===== verification/MqttClient.thy ===== *)
theory MqttClient
  imports MqttMessages
begin

text \<open>
  The two MQTT endpoints: the blocking client (\<^verbatim>\<open>mqtt_client.cpp\<close>), which reads a header byte by
  byte and then the body in blocks of up to 8192 bytes, and the event-driven one
  (\<^verbatim>\<open>mqtt_aclient.cpp\<close>), which is called with whatever bytes arrived and hands each complete
  message to the subclass.

  The stream below the blocking client is the C library's (\<^verbatim>\<open>acl_vstream_readn\<close>): it is the
  parameter \<open>rd\<close>, which for a number of bytes gives them and the stream after, or \<^const>\<open>None\<close>
  for the result -1. \<open>stream_ok\<close> (theory Streaming) states what its header file documents.
\<close>

section \<open>The blocking client\<close>

text \<open>
  \<open>Hang\<close>: the call does not return. \<open>Crash\<close>: a failed \<^verbatim>\<open>assert\<close>. \<open>Err\<close>: false or NULL.
\<close>

datatype 'a res = Hang | Crash | Err | Ok 'a

fun read_header_rest :: "'c reader \<Rightarrow> nat \<Rightarrow> mqtt_header \<Rightarrow> 'c \<Rightarrow> (mqtt_header \<times> 'c) res" where
  "read_header_rest rd 0 h c = (if hd_finished h then Ok (h, c) else Err)"
| "read_header_rest rd (Suc k) h c =
     (case rd c 1 of
        None \<Rightarrow> Err
      | Some (ch, c') \<Rightarrow>
          (case header_update h ch of
             None \<Rightarrow> Hang
           | Some Abort \<Rightarrow> Crash
           | Some (Fail h') \<Rightarrow> Err
           | Some (Ret h' rest) \<Rightarrow>
               if rest \<noteq> [] then Err
               else if hd_finished h' then Ok (h', c')
               else read_header_rest rd k h' c'))"

definition read_header :: "'c reader \<Rightarrow> mqtt_header \<Rightarrow> 'c \<Rightarrow> (mqtt_header \<times> 'c) res" where
  "read_header rd h c =
     (case rd c 1 of
        None \<Rightarrow> Err
      | Some (ch, c') \<Rightarrow>
          (case header_update h ch of
             None \<Rightarrow> Hang
           | Some Abort \<Rightarrow> Crash
           | Some (Fail h') \<Rightarrow> Err
           | Some (Ret h' rest) \<Rightarrow> if rest \<noteq> [] then Err else read_header_rest rd 4 h' c'))"

text \<open>
  The loop over the body. \<open>readn\<close> gives the whole block or -1, so that the count it returns is
  the size that was asked for.
\<close>

function read_body :: "'c reader \<Rightarrow> nat \<Rightarrow> mqtt_message \<Rightarrow> 'c \<Rightarrow> (mqtt_message \<times> 'c) res" where
  "read_body rd len body c =
     (if len = 0 then (if message_finished body then Ok (body, c) else Err)
      else
        let size = (if 8192 > len then len else 8192) in
        case rd c size of
          None \<Rightarrow> Err
        | Some (buf, c') \<Rightarrow>
            (case message_update body buf of
               None \<Rightarrow> Hang
             | Some Abort \<Rightarrow> Crash
             | Some (Fail b) \<Rightarrow> Err
             | Some (Ret b rest) \<Rightarrow> if rest \<noteq> [] then Err else read_body rd (len - size) b c'))"
  by pat_completeness auto
termination by (relation "measure (\<lambda>(rd, len, body, c). len)") auto

declare read_body.simps [simp del]

definition read_message :: "'c reader \<Rightarrow> mqtt_header \<Rightarrow> mqtt_message \<Rightarrow> 'c \<Rightarrow> (mqtt_message \<times> 'c) res" where
  "read_message rd h body c =
     (if hd_dlen h = 0 then Ok (body, c) else read_body rd (unat (hd_dlen h)) body c)"

definition get_message :: "byte \<Rightarrow> 'c reader \<Rightarrow> 'c \<Rightarrow> (mqtt_message \<times> 'c) res" where
  "get_message pad rd c =
     (case read_header rd (mqtt_header_new MQTT_RESERVED_MIN) c of
        Hang \<Rightarrow> Hang | Crash \<Rightarrow> Crash | Err \<Rightarrow> Err
      | Ok (h, c') \<Rightarrow>
          (case create_message pad h of
             None \<Rightarrow> Err
           | Some m \<Rightarrow> read_message rd h m c'))"

text \<open>
  Sending: \<open>cl_opened\<close> is whether the connection is open, \<open>can_open\<close> the result of connecting
  and \<open>wr\<close> of the write, both of the C library.
\<close>

record client =
  cl_opened :: bool
  cl_sent :: "byte list"

definition client_open :: "bool \<Rightarrow> client \<Rightarrow> client \<times> bool" where
  "client_open can_open c =
     (if cl_opened c then (c, True)
      else if can_open then (c\<lparr>cl_opened := True\<rparr>, True) else (c, False))"

definition client_send ::
  "bool \<Rightarrow> (byte list \<Rightarrow> bool) \<Rightarrow> mqtt_message \<Rightarrow> client \<Rightarrow> mqtt_message \<times> client \<times> bool" where
  "client_send can_open wr m c =
     (case client_open can_open c of
        (c1, False) \<Rightarrow> (m, c1, False)
      | (c1, True) \<Rightarrow>
          (case message_to_string m [] of
             (m', PubOk buff) \<Rightarrow>
               if buff = [] then (m', c1, False)
               else (case client_open can_open c1 of
                       (c2, False) \<Rightarrow> (m', c2, False)
                     | (c2, True) \<Rightarrow>
                         if wr buff then (m', c2\<lparr>cl_sent := cl_sent c2 @ buff\<rparr>, True)
                         else (m', c2, False))
           | (m', _) \<Rightarrow> (m', c1, False)))"

section \<open>The event-driven client\<close>

text \<open>
  \<open>on_body\<close> is the method of the subclass, with the state \<open>'u\<close> it keeps: it is called with
  each complete message and may refuse to go on.
\<close>

record 'u aclient =
  ac_header :: mqtt_header
  ac_body :: "mqtt_message option"
  ac_user :: 'u

type_synonym 'u on_body = "mqtt_message \<Rightarrow> 'u \<Rightarrow> bool \<times> 'u"

definition aclient_new :: "'u \<Rightarrow> 'u aclient" where
  "aclient_new u = \<lparr>ac_header = mqtt_header_new MQTT_RESERVED_MIN, ac_body = None, ac_user = u\<rparr>"

text \<open>\<^verbatim>\<open>handle_data\<close> from the point where the header is complete.\<close>

definition handle_body :: "'u on_body \<Rightarrow> byte \<Rightarrow> 'u aclient \<Rightarrow> byte list \<Rightarrow> 'u aclient hres option" where
  "handle_body on_body pad st data =
     (case (case ac_body st of None \<Rightarrow> create_message pad (ac_header st) | Some b \<Rightarrow> Some b) of
        None \<Rightarrow> Some (Fail st)
      | Some b \<Rightarrow>
          (case (if data \<noteq> [] then message_update b data else Some (Ret b [])) of
             None \<Rightarrow> None
           | Some Abort \<Rightarrow> Some Abort
           | Some (Fail b') \<Rightarrow> Some (Fail (st\<lparr>ac_body := Some b'\<rparr>))
           | Some (Ret b' left) \<Rightarrow>
               if message_finished b' then
                 (case on_body b' (ac_user st) of
                    (ret, u) \<Rightarrow>
                      let st' = st\<lparr>ac_header := header_reset (ac_header st), ac_body := None, ac_user := u\<rparr> in
                      if ret then Some (Ret st' left) else Some (Fail st'))
               else Some (Ret (st\<lparr>ac_body := Some b'\<rparr>) left)))"

definition handle_data :: "'u on_body \<Rightarrow> byte \<Rightarrow> 'u aclient \<Rightarrow> byte list \<Rightarrow> 'u aclient hres option" where
  "handle_data on_body pad st data =
     (case (if \<not> hd_finished (ac_header st) then header_update (ac_header st) data
            else Some (Ret (ac_header st) data)) of
        None \<Rightarrow> None
      | Some Abort \<Rightarrow> Some Abort
      | Some (Fail h) \<Rightarrow> Some (Fail (st\<lparr>ac_header := h\<rparr>))
      | Some (Ret h left) \<Rightarrow>
          let st1 = st\<lparr>ac_header := h\<rparr> in
          if \<not> hd_finished h then (if left \<noteq> [] then Some Abort else Some (Ret st1 []))
          else handle_body on_body pad st1 left)"

definition read_callback :: "'u on_body \<Rightarrow> byte \<Rightarrow> 'u aclient \<Rightarrow> byte list \<Rightarrow> 'u aclient hres option" where
  "read_callback on_body pad st data =
     (if data = [] then Some (Fail st)
      else case run (handle_data on_body pad) st data of
             Some (Fail st') \<Rightarrow> Some (Fail (st'\<lparr>ac_header := header_reset (ac_header st')\<rparr>))
           | r \<Rightarrow> r)"

section \<open>The session contract of the event-driven client\<close>

definition ac_inv :: "'u aclient \<Rightarrow> bool" where
  "ac_inv st \<longleftrightarrow> header_inv (ac_header st) \<and>
     (case ac_body st of
        None \<Rightarrow> \<not> hd_finished (ac_header st)
      | Some b \<Rightarrow> hd_finished (ac_header st) \<and> \<not> message_finished b)"

lemma header_inv_reset [simp]: "header_inv h \<Longrightarrow> header_inv (header_reset h)"
  by (simp add: header_inv_def header_reset_def)

lemma header_reset_finished [simp]: "\<not> hd_finished (header_reset h)"
  by (simp add: header_reset_def)

lemma create_message_finished:
  "create_message pad h = Some b \<Longrightarrow> message_finished b \<Longrightarrow> message_update b d = Some (Ret b d)"
  by (auto simp: create_message_def mqtt_connect_of_header_def mqtt_connack_of_header_def
      mqtt_publish_of_header_def mqtt_ack_of_header_def mqtt_pubrel_of_header_def
      mqtt_subscribe_of_header_def mqtt_suback_of_header_def mqtt_unsubscribe_of_header_def Let_def
      split: mqtt_type.splits)

text \<open>The part after the header, for a body that is new or not yet complete.\<close>

definition body_ready :: "byte \<Rightarrow> 'u aclient \<Rightarrow> mqtt_message \<Rightarrow> bool" where
  "body_ready pad st b \<longleftrightarrow> header_inv (ac_header st) \<and> hd_finished (ac_header st) \<and>
     (case ac_body st of
        None \<Rightarrow> create_message pad (ac_header st) = Some b
      | Some b' \<Rightarrow> b' = b \<and> \<not> message_finished b)"

lemma handle_data_body:
  "hd_finished (ac_header st) \<Longrightarrow> handle_data on_body pad st d = handle_body on_body pad st d"
  by (simp add: handle_data_def)

lemma handle_body_resume:
  assumes "(case ac_body st of None \<Rightarrow> create_message pad (ac_header st) | Some b \<Rightarrow> Some b) = Some b"
    and "d \<noteq> []" "d' \<noteq> []" "message_update b d = message_update b' d'"
  shows "handle_body on_body pad st d = handle_body on_body pad (st\<lparr>ac_body := Some b'\<rparr>) d'"
  using assms by (simp add: handle_body_def Let_def split: option.split hres.split)

lemma handle_header_resume:
  assumes "\<not> hd_finished (ac_header st)" "\<not> hd_finished h" "header_update (ac_header st) d = header_update h d'"
  shows "handle_data on_body pad st d = handle_data on_body pad (st\<lparr>ac_header := h\<rparr>) d'"
  using assms by (simp add: handle_data_def Let_def split: option.split hres.split)

lemma handle_body_cut:
  assumes "body_ready pad st b" and ys: "ys \<noteq> []"
  shows "case handle_body on_body pad st xs of
        None \<Rightarrow> handle_body on_body pad st (xs @ ys) = None
      | Some Abort \<Rightarrow> handle_body on_body pad st (xs @ ys) = Some Abort
      | Some (Fail s') \<Rightarrow> handle_body on_body pad st (xs @ ys) = Some (Fail s')
      | Some (Ret s' rest) \<Rightarrow> ac_inv s' \<and>
          (handle_body on_body pad st (xs @ ys) = Some (Ret s' (rest @ ys)) \<or>
           rest = [] \<and> handle_body on_body pad st (xs @ ys) = handle_data on_body pad s' ys)"
proof -
  have b: "(case ac_body st of None \<Rightarrow> create_message pad (ac_header st) | Some b \<Rightarrow> Some b) = Some b"
    using assms(1) by (auto simp: body_ready_def split: option.splits)
  note st = assms(1) [unfolded body_ready_def]
  show ?thesis
  proof (cases "message_finished b")
    case True
    then have "message_update b d = Some (Ret b d)" for d
      using st by (auto intro: create_message_finished split: option.splits)
    with True b st show ?thesis
      by (auto simp: handle_body_def ac_inv_def Let_def split: prod.splits)
  next
    case False
    show ?thesis
    proof (cases "xs = []")
      case True
      have "handle_body on_body pad st [] = Some (Ret (st\<lparr>ac_body := Some b\<rparr>) [])"
        using False b by (simp add: handle_body_def)
      moreover have "handle_body on_body pad st ys = handle_data on_body pad (st\<lparr>ac_body := Some b\<rparr>) ys"
        using b st ys by (simp add: handle_data_body handle_body_resume [OF b ys ys refl])
      ultimately show ?thesis using True False st by (simp add: ac_inv_def)
    next
      case xs: False
      show ?thesis
      proof (cases "message_update b xs")
        case None
        with False b xs ys show ?thesis
          using msg.upd_prefix [of b xs ys] by (simp add: handle_body_def)
      next
        case (Some r)
        show ?thesis
        proof (cases r)
          case Abort
          with Some False b xs ys show ?thesis
            using msg.upd_abort [of b xs ys] by (simp add: handle_body_def)
        next
          case (Fail b')
          with Some False b xs ys show ?thesis
            using msg.upd_fail [of b xs b' ys] by (simp add: handle_body_def)
        next
          case (Ret b' rest)
          with Some have u: "message_update b xs = Some (Ret b' rest)" by simp
          note more = msg.upd_more [OF TrueI False xs ys u]
          show ?thesis
          proof (cases "message_finished b'")
            case True
            with u more False b xs ys st show ?thesis
              by (auto simp: handle_body_def ac_inv_def Let_def split: prod.splits)
          next
            case nf: False
            then have "rest = []" using msg.upd_rest [OF TrueI False xs u] by auto
            then have "handle_body on_body pad st xs = Some (Ret (st\<lparr>ac_body := Some b'\<rparr>) [])"
              using nf u b xs by (simp add: handle_body_def)
            moreover have "handle_body on_body pad st (xs @ ys) =
                handle_data on_body pad (st\<lparr>ac_body := Some b'\<rparr>) ys"
              using nf more st ys handle_body_resume [OF b _ ys, of "xs @ ys" b' on_body]
              by (simp add: handle_data_body)
            ultimately show ?thesis using nf st by (simp add: ac_inv_def)
          qed
        qed
      qed
    qed
  qed
qed

lemma handle_data_cut:
  assumes "ac_inv st" "xs \<noteq> []" "ys \<noteq> []"
  shows "case handle_data on_body pad st xs of
        None \<Rightarrow> handle_data on_body pad st (xs @ ys) = None
      | Some Abort \<Rightarrow> handle_data on_body pad st (xs @ ys) = Some Abort
      | Some (Fail s') \<Rightarrow> handle_data on_body pad st (xs @ ys) = Some (Fail s')
      | Some (Ret s' rest) \<Rightarrow> ac_inv s' \<and>
          (handle_data on_body pad st (xs @ ys) = Some (Ret s' (rest @ ys)) \<or>
           rest = [] \<and> handle_data on_body pad st (xs @ ys) = handle_data on_body pad s' ys)"
proof (cases "hd_finished (ac_header st)")
  case True
  with assms(1) obtain b where "ac_body st = Some b" "\<not> message_finished b" "header_inv (ac_header st)"
    by (auto simp: ac_inv_def split: option.splits)
  with True have "body_ready pad st b" by (simp add: body_ready_def)
  moreover have eq: "handle_data on_body pad st d = handle_body on_body pad st d" for d
    using True by (simp add: handle_data_def)
  ultimately show ?thesis unfolding eq by (intro handle_body_cut assms(3))
next
  case False
  with assms(1) have h: "header_inv (ac_header st)" and nb: "ac_body st = None"
    by (auto simp: ac_inv_def split: option.splits)
  note defs = header_update_def [symmetric]
  show ?thesis
  proof (cases "header_update (ac_header st) xs")
    case None
    with False hdr.upd_prefix [OF h False assms(2), of ys] show ?thesis by (simp add: handle_data_def defs)
  next
    case (Some r)
    show ?thesis
    proof (cases r)
      case Abort
      with Some False hdr.upd_abort [OF h False assms(2), of ys] show ?thesis by (simp add: handle_data_def defs)
    next
      case (Fail h')
      with Some False hdr.upd_fail [OF h False assms(2), of h' ys] show ?thesis by (simp add: handle_data_def defs)
    next
      case (Ret h' rest)
      with Some have u: "header_update (ac_header st) xs = Some (Ret h' rest)" by simp
      note more = hdr.upd_more [folded header_update_def, OF h False assms(2,3) u]
        and inv = hdr.upd_inv [folded header_update_def, OF h False assms(2) u]
      show ?thesis
      proof (cases "hd_finished h'")
        case nf: False
        then have "rest = []" using hdr.upd_rest [folded header_update_def, OF h False assms(2) u] by auto
        with nf u False have "handle_data on_body pad st xs = Some (Ret (st\<lparr>ac_header := h'\<rparr>) [])"
          by (simp add: handle_data_def)
        moreover have "handle_data on_body pad st (xs @ ys) = handle_data on_body pad (st\<lparr>ac_header := h'\<rparr>) ys"
          using nf more False by (intro handle_header_resume) simp_all
        ultimately show ?thesis using nf inv nb by (simp add: ac_inv_def)
      next
        case True
        let ?st = "st\<lparr>ac_header := h'\<rparr>"
        have eq: "handle_data on_body pad st xs = handle_body on_body pad ?st rest"
            "handle_data on_body pad st (xs @ ys) = handle_body on_body pad ?st (rest @ ys)"
          using True False u more by (simp_all add: handle_data_def)
        show ?thesis
        proof (cases "create_message pad h'")
          case None
          with nb show ?thesis unfolding eq by (simp add: handle_body_def)
        next
          case (Some b)
          with nb True inv have "body_ready pad ?st b" by (simp add: body_ready_def)
          from handle_body_cut [OF this assms(3), of on_body rest] show ?thesis unfolding eq .
        qed
      qed
    qed
  qed
qed

interpretation aclient: session "handle_data on_body pad" ac_inv "\<lambda>_ _. True" for on_body pad
  by unfold_locales (unfold simp_thms, rule handle_data_cut)

section \<open>Reading a message that was written\<close>

definition header_fresh :: "mqtt_header \<Rightarrow> bool" where
  "header_fresh h \<longleftrightarrow> hd_status h = STAT_HDR_TYPE \<and> \<not> hd_finished h \<and> length (hd_hbuf h) = 4"

lemma header_fresh_inv [simp]: "header_fresh h \<Longrightarrow> header_inv h"
  by (simp add: header_fresh_def header_inv_def)

lemma header_fresh_new [simp]: "header_fresh (mqtt_header_new t)"
  by (simp add: header_fresh_def mqtt_header_new_def)

lemma header_fresh_reset [simp]: "header_inv h \<Longrightarrow> header_fresh (header_reset h)"
  by (simp add: header_fresh_def header_inv_def header_reset_def)

lemma on_wire_header:
  assumes "on_wire v bs" "header_fresh p"
  obtains hb body where "bs = hb @ body" "hb \<noteq> []" "length hb \<le> 5"
    "\<And>rest. \<exists>h. header_update p (hb @ rest) = Some (Ret h rest) \<and> hd_finished h \<and> header_inv h \<and>
       unat (hd_dlen h) = length body \<and> (\<exists>b. create_message pad h = Some b \<and> reads_as body (read_view pad v) b)"
proof -
  from assms(1) obtain h hb body where h: "bs = hb @ body" "build_header h [] = (h, Some hb)"
      "hd_type h \<noteq> MQTT_RESERVED_MIN" "hd_type h \<noteq> MQTT_RESERVED_MAX" "unat (hd_dlen h) = length body"
      "\<And>h' pad. hd_type h' = hd_type h \<Longrightarrow> hd_flags h' = hd_flags h \<Longrightarrow> hd_dlen h' = hd_dlen h \<Longrightarrow>
        \<exists>b. create_message pad h' = Some b \<and> reads_as body (read_view pad v) b"
    unfolding on_wire_def by blast
  from h(2) obtain ls where ls: "remaining_length_bytes (hd_dlen h) = Some ls" "length hb = Suc (length ls)"
    by (auto simp: build_header_eq split: option.splits)
  have hb: "hb \<noteq> []" using ls(2) by auto
  show ?thesis
  proof (rule that [OF h(1) hb])
    show "length hb \<le> 5" using remaining_length_bytes_shape [OF ls(1)] ls(2) by simp
    fix rest
    obtain h' where h': "header_update p (hb @ rest) = Some (Ret h' rest)" "hd_finished h'"
        "hd_type h' = hd_type h" "hd_flags h' = hd_flags h" "hd_dlen h' = hd_dlen h"
      using header_roundtrip [OF h(2-4), of p rest] assms(2) by (auto simp: header_fresh_def)
    moreover have "header_inv h'"
      using hdr.upd_inv [folded header_update_def, of p "hb @ rest" h' rest] h'(1) hb assms(2)
      by (simp add: header_fresh_def header_inv_def)
    ultimately show "\<exists>h. header_update p (hb @ rest) = Some (Ret h rest) \<and> hd_finished h \<and> header_inv h \<and>
        unat (hd_dlen h) = length body \<and> (\<exists>b. create_message pad h = Some b \<and> reads_as body (read_view pad v) b)"
      using h(5,6) by metis
  qed
qed

text \<open>Reading byte by byte stops at the end of the header, not before and not after.\<close>

lemma read_header_rest_wire:
  assumes "header_inv h" "\<not> hd_finished h" "hb \<noteq> []" "length hb \<le> k"
    and "header_update h hb = Some (Ret h' [])" "hd_finished h'"
    and "stream_ok rd contents" "contents c = hb @ rest"
  shows "\<exists>c'. read_header_rest rd k h c = Ok (h', c') \<and> contents c' = rest"
  using assms
proof (induction hb arbitrary: h k c)
  case Nil
  then show ?case by simp
next
  case (Cons x xs)
  from Cons.prems(4) obtain j where k: "k = Suc j" by (cases k) auto
  obtain c1 where c1: "rd c 1 = Some ([x], c1)" "contents c1 = xs @ rest"
    using stream_okD [OF Cons.prems(7), of c "[x]" "xs @ rest"] Cons.prems(8) by auto
  show ?case
  proof (cases "xs = []")
    case True
    with c1 Cons.prems k show ?thesis by simp
  next
    case False
    note upd = hdr.upd_more [folded header_update_def, OF Cons.prems(1,2), of "[x]" xs]
    obtain r where r: "header_update h [x] = Some r"
      using hdr.update_call_returns [OF Cons.prems(1)] by (auto simp: header_update_def)
    obtain h1 u where h1: "header_update h [x] = Some (Ret h1 u)"
      using r hdr.upd_fail [folded header_update_def, OF Cons.prems(1,2), of "[x]" _ xs]
        hdr.upd_abort [folded header_update_def, OF Cons.prems(1,2), of "[x]" xs] Cons.prems(5)
      by (cases r) auto
    from upd [of h1 u] h1 False Cons.prems(5)
    have nf: "\<not> hd_finished h1" and eq: "header_update h1 xs = Some (Ret h' [])" by (auto split: if_splits)
    have u: "u = []"
      using hdr.upd_rest [folded header_update_def, OF Cons.prems(1,2) _ h1] nf by auto
    have "header_inv h1"
      using hdr.upd_inv [folded header_update_def, OF Cons.prems(1,2) _ h1] by simp
    from Cons.IH [OF this nf False _ eq Cons.prems(6,7) c1(2), of j] Cons.prems(4) k
    show ?thesis using c1 h1 u nf by simp
  qed
qed

lemma read_header_wire:
  assumes "header_fresh h" "hb \<noteq> []" "length hb \<le> 5"
    and "header_update h hb = Some (Ret h' [])" "hd_finished h'"
    and "stream_ok rd contents" "contents c = hb @ rest" "2 \<le> length hb"
  shows "\<exists>c'. read_header rd h c = Ok (h', c') \<and> contents c' = rest"
proof -
  from assms(8) obtain x y ys where "hb = x # y # ys" by (auto simp: Suc_le_length_iff numeral_2_eq_2)
  then obtain xs where hb: "hb = x # xs" "xs \<noteq> []" by blast
  have h: "header_inv h" "\<not> hd_finished h" using assms(1) by (simp_all add: header_fresh_def header_inv_def)
  obtain c1 where c1: "rd c 1 = Some ([x], c1)" "contents c1 = xs @ rest"
    using stream_okD [OF assms(6), of c "[x]" "xs @ rest"] assms(7) hb by auto
  obtain r where r: "header_update h [x] = Some r"
    using hdr.update_call_returns [OF h(1)] by (auto simp: header_update_def)
  obtain h1 u where h1: "header_update h [x] = Some (Ret h1 u)"
    using r hdr.upd_fail [folded header_update_def, OF h, of "[x]" _ xs]
      hdr.upd_abort [folded header_update_def, OF h, of "[x]" xs] assms(4) hb
    by (cases r) auto
  from hdr.upd_more [folded header_update_def, OF h _ hb(2) h1] assms(4) hb
  have nf: "\<not> hd_finished h1" and eq: "header_update h1 xs = Some (Ret h' [])" by (auto split: if_splits)
  have u: "u = []" using hdr.upd_rest [folded header_update_def, OF h _ h1] nf by auto
  have "header_inv h1" using hdr.upd_inv [folded header_update_def, OF h _ h1] by simp
  from read_header_rest_wire [OF this nf hb(2) _ eq assms(5,6) c1(2), of 4] assms(3) hb
  show ?thesis using c1 h1 u by (simp add: read_header_def)
qed

text \<open>Reading the body in blocks.\<close>

lemma read_body_wire:
  assumes "\<not> message_finished b" "body \<noteq> []" "message_update b body = Some (Ret p [])" "message_finished p"
    and "stream_ok rd contents" "contents c = body @ rest"
  shows "\<exists>c'. read_body rd (length body) b c = Ok (p, c') \<and> contents c' = rest"
  using assms
proof (induction "length body" arbitrary: b body c rule: less_induct)
  case less
  show ?case
  proof (cases "length body \<le> 8192")
    case True
    obtain c1 where "rd c (length body) = Some (body, c1)" "contents c1 = rest"
      using stream_okD [OF less.prems(5,6,2)] by auto
    moreover have "(if 8192 > length body then length body else 8192) = length body" using True by simp
    ultimately show ?thesis
      using less.prems by (simp add: read_body.simps [of rd "length body"] read_body.simps [of rd 0] Let_def)
  next
    case False
    define xs where "xs = take 8192 body"
    define ys where "ys = drop 8192 body"
    have split: "body = xs @ ys" "length xs = 8192" "xs \<noteq> []" "ys \<noteq> []" "length ys < length body"
      using False by (auto simp: xs_def ys_def)
    obtain c1 where c1: "rd c 8192 = Some (xs, c1)" "contents c1 = ys @ rest"
      using stream_okD [OF less.prems(5), of c xs "ys @ rest"] less.prems(6) split by auto
    have nf: "\<not> message_finished b" by (rule less.prems(1))
    obtain r where r: "message_update b xs = Some r"
      using msg.upd_prefix [of b xs ys] nf split less.prems(3) by fastforce
    obtain b1 u where b1: "message_update b xs = Some (Ret b1 u)"
      using r msg.upd_fail [OF TrueI nf split(3), of _ ys] msg.upd_abort [OF TrueI nf split(3), of ys]
        less.prems(3) split(1)
      by (cases r) auto
    from msg.upd_more [OF TrueI nf split(3,4) b1] less.prems(3) split
    have nf1: "\<not> message_finished b1" and eq: "message_update b1 ys = Some (Ret p [])" by (auto split: if_splits)
    have u: "u = []" using msg.upd_rest [OF TrueI nf split(3) b1] nf1 by auto
    have "length body - 8192 = length ys" using split by simp
    with less.hyps [OF split(5) nf1 split(4) eq less.prems(4,5) c1(2)] c1 b1 u False
    show ?thesis using less.prems(1,2) by (simp add: read_body.simps [of rd "length body"] Let_def)
  qed
qed

lemma get_message_wire:
  assumes "on_wire v bs" "stream_ok rd contents" "contents c = bs @ rest"
  shows "\<exists>p c'. get_message pad rd c = Ok (p, c') \<and> message_view p = read_view pad v \<and> contents c' = rest"
proof -
  let ?h0 = "mqtt_header_new MQTT_RESERVED_MIN"
  obtain hb body where w: "bs = hb @ body" "hb \<noteq> []" "length hb \<le> 5"
    "\<And>rest. \<exists>h. header_update ?h0 (hb @ rest) = Some (Ret h rest) \<and> hd_finished h \<and> header_inv h \<and>
       unat (hd_dlen h) = length body \<and> (\<exists>b. create_message pad h = Some b \<and> reads_as body (read_view pad v) b)"
    using on_wire_header [OF assms(1) header_fresh_new] by blast
  from w(4) [of "[]"] obtain h b where h: "header_update ?h0 hb = Some (Ret h [])" "hd_finished h"
      "unat (hd_dlen h) = length body" "create_message pad h = Some b" "reads_as body (read_view pad v) b" by auto
  have "2 \<le> length hb"
  proof (rule ccontr)
    assume "\<not> 2 \<le> length hb"
    with w(2) obtain x where "hb = [x]" by (cases hb) (auto simp: Suc_le_eq)
    with h show False
      by (auto simp: header_update_def update_call_def update_loop.simps header_handler_def mqtt_header_new_def
          update_header_type_def Let_def split: if_splits)
  qed
  with read_header_wire [OF header_fresh_new w(2,3) h(1,2) assms(2), of c "body @ rest"] assms(3) w(1)
  obtain c1 where c1: "read_header rd ?h0 c = Ok (h, c1)" "contents c1 = body @ rest" by auto
  show ?thesis
  proof (cases "body = []")
    case True
    with h have "hd_dlen h = 0" by (simp add: unat_eq_zero)
    with True h c1 show ?thesis by (simp add: get_message_def read_message_def reads_as_def)
  next
    case False
    with h(5) obtain p where p: "message_update b body = Some (Ret p [])" "message_finished p" "message_view p = read_view pad v"
        "\<not> message_finished b"
      by (auto simp: reads_as_def dest: spec [of _ "[]"])
    have "hd_dlen h \<noteq> 0" using h(3) False by auto
    with h c1 read_body_wire [OF p(4) False p(1,2) assms(2) c1(2)] p(3) show ?thesis
      by (auto simp: get_message_def read_message_def)
  qed
qed

section \<open>Delivering messages to the event-driven client\<close>

definition ac_idle :: "'u aclient \<Rightarrow> bool" where
  "ac_idle st \<longleftrightarrow> header_fresh (ac_header st) \<and> ac_body st = None"

lemma ac_idle_new: "ac_idle (aclient_new u)"
  by (simp add: ac_idle_def aclient_new_def)

lemma ac_idle_inv: "ac_idle st \<Longrightarrow> ac_inv st"
  by (simp add: ac_idle_def ac_inv_def header_fresh_def header_inv_def)

lemma handle_data_wire:
  assumes "ac_idle st" "on_wire v bs" "\<And>m u. fst (on_body m u)"
  shows "\<exists>st' m. handle_data on_body pad st (bs @ rest) = Some (Ret st' rest) \<and> ac_idle st' \<and>
    message_view m = read_view pad v \<and> ac_user st' = snd (on_body m (ac_user st)) \<and> bs \<noteq> []"
proof -
  have hf: "header_fresh (ac_header st)" using assms(1) by (simp add: ac_idle_def)
  obtain hb body where w: "bs = hb @ body" "hb \<noteq> []" "length hb \<le> 5"
    "\<And>rest. \<exists>h. header_update (ac_header st) (hb @ rest) = Some (Ret h rest) \<and> hd_finished h \<and> header_inv h \<and>
       unat (hd_dlen h) = length body \<and> (\<exists>b. create_message pad h = Some b \<and> reads_as body (read_view pad v) b)"
    using on_wire_header [OF assms(2) hf] by blast
  from w(4) [of "body @ rest"] obtain h b where h:
      "header_update (ac_header st) (hb @ body @ rest) = Some (Ret h (body @ rest))" "hd_finished h" "header_inv h"
      "create_message pad h = Some b" "reads_as body (read_view pad v) b" by auto
  have nf: "\<not> hd_finished (ac_header st)" using assms(1) by (simp add: ac_idle_def header_fresh_def)
  obtain p where p: "(if body @ rest \<noteq> [] then message_update b (body @ rest) else Some (Ret b [])) = Some (Ret p rest)"
      "message_finished p" "message_view p = read_view pad v"
  proof (cases "body = []")
    case True
    with h(5) have "message_finished b" "message_view b = read_view pad v" by (simp_all add: reads_as_def)
    with True that [of b] create_message_finished [OF h(4), of rest] show ?thesis by (cases "rest = []") auto
  next
    case False
    with h(5) that show ?thesis by (auto simp: reads_as_def)
  qed
  obtain u where u: "on_body p (ac_user st) = (True, u)"
    using assms(3) [of p "ac_user st"] by (cases "on_body p (ac_user st)") auto
  let ?st = "st\<lparr>ac_header := header_reset h, ac_body := None, ac_user := u\<rparr>"
  from h nf p u assms(1) have "handle_data on_body pad st (hb @ body @ rest) = Some (Ret ?st rest)"
    by (simp add: handle_data_def handle_body_def ac_idle_def)
  moreover have "ac_idle ?st" using h(3) by (simp add: ac_idle_def)
  ultimately show ?thesis
    using w(1,2) p(3) u by (intro exI [of _ ?st] exI [of _ p]) simp
qed

lemma run_wire:
  assumes "list_all2 on_wire vs bss" "bss \<noteq> []" "ac_idle st" "\<And>m u. fst (on_body m u)"
  shows "\<exists>st' ms. run (handle_data on_body pad) st (concat bss) = Some (Ret st' []) \<and> ac_idle st' \<and>
    map message_view ms = map (read_view pad) vs \<and> ac_user st' = fold (\<lambda>m u. snd (on_body m u)) ms (ac_user st)"
  using assms(1-3)
proof (induction vs bss arbitrary: st rule: list_all2_induct)
  case Nil
  then show ?case by simp
next
  case (Cons v vs bs bss)
  obtain st1 m where m: "handle_data on_body pad st (bs @ concat bss) = Some (Ret st1 (concat bss))" "ac_idle st1"
      "message_view m = read_view pad v" "ac_user st1 = snd (on_body m (ac_user st))" "bs \<noteq> []"
    using handle_data_wire [where on_body = on_body, OF Cons.prems(2) Cons.hyps(1) assms(4)] by blast
  show ?case
  proof (cases "bss = []")
    case True
    with Cons.hyps(2) have "vs = []" by simp
    with True m show ?thesis
      by (subst run.simps) (auto intro!: exI [of _ "[m]"])
  next
    case False
    with Cons.IH [OF False m(2)] obtain st' ms where st':
        "run (handle_data on_body pad) st1 (concat bss) = Some (Ret st' [])" "ac_idle st'"
        "map message_view ms = map (read_view pad) vs" "ac_user st' = fold (\<lambda>m u. snd (on_body m u)) ms (ac_user st1)" by blast
    have "concat bss \<noteq> []"
    proof -
      from False obtain d ds where d: "bss = d # ds" by (cases bss) auto
      with Cons.hyps(2) obtain w where "on_wire w d" by (auto simp: list_all2_Cons2)
      with handle_data_wire [where on_body = on_body, OF m(2) _ assms(4)] d show ?thesis by fastforce
    qed
    with m st' show ?thesis
      by (subst run.simps) (auto intro!: exI [of _ "m # ms"])
  qed
qed

text \<open>\<^verbatim>\<open>read_callback\<close> is the loop, and resets the header when it fails.\<close>

fun on_fail_reset :: "'u aclient hres option \<Rightarrow> 'u aclient hres option" where
  "on_fail_reset (Some (Fail st)) = Some (Fail (st\<lparr>ac_header := header_reset (ac_header st)\<rparr>))"
| "on_fail_reset r = r"

lemma read_callback_eq:
  "data \<noteq> [] \<Longrightarrow> read_callback on_body pad st data = on_fail_reset (run (handle_data on_body pad) st data)"
  by (simp add: read_callback_def split: option.split hres.split)

lemma deliver_read_callback:
  "[] \<notin> set cs \<Longrightarrow> deliver (read_callback on_body pad) st cs =
     on_fail_reset (deliver (run (handle_data on_body pad)) st cs)"
  by (induction cs arbitrary: st) (auto simp: read_callback_eq split: option.split hres.split)

lemma read_callback_chunks:
  assumes "ac_inv st" "[] \<notin> set cs" "cs \<noteq> []"
  shows "deliver (read_callback on_body pad) st cs = read_callback on_body pad st (concat cs)"
proof -
  have "concat cs \<noteq> []" using assms(2,3) by (cases cs) auto
  then show ?thesis
    using aclient.deliver_chunks [OF assms(1) TrueI assms(2,3), of on_body pad]
    by (simp add: deliver_read_callback [OF assms(2)] read_callback_eq)
qed

lemma deliver_wire:
  assumes "list_all2 on_wire vs bss" "ac_idle st" "\<And>m u. fst (on_body m u)"
    and cs: "concat cs = concat bss" "[] \<notin> set cs" "cs \<noteq> []"
  shows "\<exists>st' ms. deliver (read_callback on_body pad) st cs = Some (Ret st' []) \<and> ac_idle st' \<and>
    map message_view ms = map (read_view pad) vs \<and> ac_user st' = fold (\<lambda>m u. snd (on_body m u)) ms (ac_user st)"
proof -
  have ne: "concat cs \<noteq> []" using cs(2,3) by (cases cs) auto
  then have "bss \<noteq> []" using cs(1) by auto
  from run_wire [where on_body = on_body, OF assms(1) this assms(2,3), of pad] ne cs(1)
  show ?thesis
    by (fastforce simp: read_callback_chunks [OF ac_idle_inv [OF assms(2)] cs(2,3)] read_callback_eq)
qed

section \<open>Returning\<close>

text \<open>Every class but CONNECT has an \<^verbatim>\<open>update\<close> that returns, and stays itself.\<close>

fun is_connect :: "mqtt_message \<Rightarrow> bool" where
  "is_connect (MConnect m) = True"
| "is_connect _ = False"

lemma message_update_returns: "\<not> is_connect m \<Longrightarrow> message_update m d \<noteq> None"
  using connack.update_call_returns publish.update_call_returns ack.update_call_returns
    subscribe.update_call_returns suback.update_call_returns unsubscribe.update_call_returns
  by (cases m) (auto simp: connack_update_def publish_update_def ack_update_def subscribe_update_def
      suback_update_def unsubscribe_update_def)

lemma message_update_class:
  "message_update m d = Some (Ret m' rest) \<Longrightarrow> is_connect m' = is_connect m"
proof (cases m)
  case (MConnect c)
  assume "message_update m d = Some (Ret m' rest)"
  then obtain z where "map_hres MConnect z = Ret m' rest" using MConnect by auto
  then show ?thesis using MConnect by (cases z) auto
next
  case (MConnack c)
  assume "message_update m d = Some (Ret m' rest)"
  then obtain z where "map_hres MConnack z = Ret m' rest" using MConnack by auto
  then show ?thesis using MConnack by (cases z) auto
next
  case (MPublish c)
  assume "message_update m d = Some (Ret m' rest)"
  then obtain z where "map_hres MPublish z = Ret m' rest" using MPublish by auto
  then show ?thesis using MPublish by (cases z) auto
next
  case (MAck c)
  assume "message_update m d = Some (Ret m' rest)"
  then obtain z where "map_hres MAck z = Ret m' rest" using MAck by auto
  then show ?thesis using MAck by (cases z) auto
next
  case (MSubscribe c)
  assume "message_update m d = Some (Ret m' rest)"
  then obtain z where "map_hres MSubscribe z = Ret m' rest" using MSubscribe by auto
  then show ?thesis using MSubscribe by (cases z) auto
next
  case (MSuback c)
  assume "message_update m d = Some (Ret m' rest)"
  then obtain z where "map_hres MSuback z = Ret m' rest" using MSuback by auto
  then show ?thesis using MSuback by (cases z) auto
next
  case (MUnsubscribe c)
  assume "message_update m d = Some (Ret m' rest)"
  then obtain z where "map_hres MUnsubscribe z = Ret m' rest" using MUnsubscribe by auto
  then show ?thesis using MUnsubscribe by (cases z) auto
qed auto

lemma create_message_class:
  "create_message pad h = Some m \<Longrightarrow> is_connect m \<longleftrightarrow> hd_type h = MQTT_CONNECT"
  by (auto simp: create_message_def split: mqtt_type.splits)

lemma read_body_returns: "\<not> is_connect b \<Longrightarrow> read_body rd len b c \<noteq> Hang"
proof (induction rd len b c rule: read_body.induct)
  case (1 rd len b c)
  show ?case
  proof (cases "len = 0")
    case True
    then show ?thesis by (simp add: read_body.simps)
  next
    case False
    define size where "size = (if 8192 > len then len else 8192)"
    have unf: "read_body rd len b c = (case rd c size of None \<Rightarrow> Err
        | Some (buf, c') \<Rightarrow> (case message_update b buf of None \<Rightarrow> Hang | Some Abort \<Rightarrow> Crash
          | Some (Fail b) \<Rightarrow> Err | Some (Ret b rest) \<Rightarrow> if rest \<noteq> [] then Err else read_body rd (len - size) b c'))"
      unfolding read_body.simps [of rd len] size_def Let_def using False by (simp only: if_False)
    have IH: "read_body rd (len - size) b' c' \<noteq> Hang"
      if "rd c size = Some (buf, c')" "message_update b buf = Some (Ret b' [])" for buf b' c'
      using 1(1) [OF False size_def that(1) refl that(2) refl] message_update_class [OF that(2)] 1(2) by simp
    show ?thesis
      unfolding unf using IH
      by (auto simp: message_update_returns [OF 1(2)] split: option.splits hres.splits)
  qed
qed

lemma header_update_returns: "header_inv h \<Longrightarrow> header_update h d \<noteq> None"
  using hdr.update_call_returns by (auto simp: header_update_def)

lemma header_update_inv:
  assumes "header_inv h" "header_update h d = Some (Ret h' rest)"
  shows "header_inv h'"
proof (cases "d = [] \<or> hd_finished h")
  case True
  with assms show ?thesis by (auto simp: header_update_def update_call_def split: if_splits)
next
  case False
  with assms hdr.upd_inv [folded header_update_def, of h d h' rest] show ?thesis by simp
qed

lemma read_header_rest_returns: "header_inv h \<Longrightarrow> read_header_rest rd k h c \<noteq> Hang"
  by (induction rd k h c rule: read_header_rest.induct)
    (auto simp: header_update_returns split: option.splits hres.splits dest: header_update_inv)

lemma read_header_returns:
  assumes "header_inv h"
  shows "read_header rd h c \<noteq> Hang"
proof (cases "rd c 1")
  case None
  then show ?thesis by (simp add: read_header_def)
next
  case (Some x)
  obtain ch c1 where x: "x = (ch, c1)" by (cases x)
  obtain r where r: "header_update h ch = Some r" using header_update_returns [OF assms] by blast
  show ?thesis
  proof (cases r)
    case (Ret h1 rest)
    then have "read_header_rest rd 4 h1 c1 \<noteq> Hang"
      using r by (intro read_header_rest_returns header_update_inv [OF assms]) simp
    with Some x r Ret show ?thesis by (simp add: read_header_def)
  qed (use Some x r in \<open>simp_all add: read_header_def\<close>)
qed

lemma get_message_returns:
  assumes "get_message pad rd c = Hang"
  shows "\<exists>h c'. read_header rd (mqtt_header_new MQTT_RESERVED_MIN) c = Ok (h, c') \<and> hd_type h = MQTT_CONNECT"
proof -
  let ?r = "read_header rd (mqtt_header_new MQTT_RESERVED_MIN) c"
  have "?r \<noteq> Hang"
    by (intro read_header_returns) (simp add: mqtt_header_new_def header_inv_def)
  with assms obtain h c1 where h: "read_header rd (mqtt_header_new MQTT_RESERVED_MIN) c = Ok (h, c1)"
      "(case create_message pad h of None \<Rightarrow> Err | Some m \<Rightarrow> read_message rd h m c1) = Hang"
    by (cases ?r) (simp_all add: get_message_def split_paired_all)
  then obtain m where m: "create_message pad h = Some m" "read_message rd h m c1 = Hang"
    by (auto split: option.splits)
  then have "is_connect m"
    using read_body_returns [of m rd "unat (hd_dlen h)" c1] by (auto simp: read_message_def split: if_splits)
  with m(1) h(1) show ?thesis using create_message_class by blast
qed

section \<open>A message with a body of one block\<close>

text \<open>What \<^verbatim>\<open>get_message\<close> makes of the outcome of the one call of \<^verbatim>\<open>update\<close>.\<close>

fun verdict :: "mqtt_message hres option \<Rightarrow> mview res" where
  "verdict None = Hang"
| "verdict (Some Abort) = Crash"
| "verdict (Some (Fail b)) = Err"
| "verdict (Some (Ret b rest)) = (if rest = [] \<and> message_finished b then Ok (message_view b) else Err)"

definition seen :: "(mqtt_message \<times> 'c) res \<Rightarrow> mview res" where
  "seen r = map_res (\<lambda>(m, c). message_view m) r"

lemma get_message_block:
  assumes h: "build_header h [] = (h, Some hb)" "hd_type h \<noteq> MQTT_RESERVED_MIN" "hd_type h \<noteq> MQTT_RESERVED_MAX"
      "unat (hd_dlen h) = length body"
    and body: "body \<noteq> []" "length body \<le> 8192"
    and rd: "stream_ok rd contents" "contents c = hb @ body @ rest"
    and upd: "\<And>h'. hd_type h' = hd_type h \<Longrightarrow> hd_flags h' = hd_flags h \<Longrightarrow> hd_dlen h' = hd_dlen h \<Longrightarrow>
      \<exists>b. create_message pad h' = Some b \<and> verdict (message_update b body) = w"
  shows "seen (get_message pad rd c) = w"
proof -
  let ?h0 = "mqtt_header_new MQTT_RESERVED_MIN"
  obtain h' where h': "header_update ?h0 hb = Some (Ret h' [])" "hd_finished h'"
      "hd_type h' = hd_type h" "hd_flags h' = hd_flags h" "hd_dlen h' = hd_dlen h"
    using header_roundtrip [OF h(1-3), of ?h0 "[]"] by (auto simp: mqtt_header_new_def)
  from h(1) obtain ls where ls: "remaining_length_bytes (hd_dlen h) = Some ls" "length hb = Suc (length ls)"
    by (auto simp: build_header_eq split: option.splits)
  with remaining_length_bytes_shape [OF ls(1)] have "hb \<noteq> []" "length hb \<le> 5" "2 \<le> length hb"
    by (auto simp: Suc_le_eq)
  with read_header_wire [OF header_fresh_new this(1,2) h'(1,2) rd(1,2)]
  obtain c1 where c1: "read_header rd ?h0 c = Ok (h', c1)" "contents c1 = body @ rest" by auto
  obtain c2 where c2: "rd c1 (length body) = Some (body, c2)"
    using stream_okD [OF rd(1) c1(2) body(1)] by auto
  obtain b where b: "create_message pad h' = Some b" "verdict (message_update b body) = w"
    using upd [OF h'(3-5)] by auto
  have "(if 8192 > length body then length body else 8192) = length body" using body(2) by simp
  then have "read_body rd (length body) b c1 = (case message_update b body of
      None \<Rightarrow> Hang | Some Abort \<Rightarrow> Crash | Some (Fail b) \<Rightarrow> Err
    | Some (Ret b rest) \<Rightarrow> if rest \<noteq> [] then Err else if message_finished b then Ok (b, c2) else Err)"
    using body(1) c2 by (simp add: read_body.simps [of rd "length body"] read_body.simps [of rd 0] Let_def
        split: option.split hres.split)
  then have "seen (read_body rd (length body) b c1) = w"
    using b(2) by (auto simp: seen_def split: option.split hres.split)
  moreover have "hd_dlen h' \<noteq> 0" "unat (hd_dlen h') = length body" using h' h(4) body(1) by auto
  ultimately show ?thesis using c1 b(1) by (simp add: get_message_def read_message_def)
qed

end
