(* ===== verification/MqttReturns.thy ===== *)
theory MqttReturns
  imports MqttClient
begin

text \<open>
  No assertion of the parsers of MQTT fails, whatever bytes arrive, but those of CONNECT and PUBLISH.
\<close>

section \<open>The loop of the parsers\<close>

definition no_abort :: "('s \<Rightarrow> bool) \<Rightarrow> ('s \<Rightarrow> bool) \<Rightarrow> ('s \<Rightarrow> byte list \<Rightarrow> 's hres) \<Rightarrow> bool" where
  "no_abort safe fin h \<longleftrightarrow> (\<forall>s d. safe s \<and> \<not> fin s \<and> d \<noteq> [] \<longrightarrow> h s d \<noteq> Abort \<and> (\<forall>s' rest. h s d = Ret s' rest \<longrightarrow> safe s'))"

lemma no_abort_update:
  assumes "no_abort safe fin h" "safe s"
  shows "update_call fin h s d \<noteq> Some Abort" "update_call fin h s d = Some (Ret s' rest) \<Longrightarrow> safe s'"
proof -
  have "r \<noteq> Abort \<and> (\<forall>s' rest. r = Ret s' rest \<longrightarrow> safe s')" if "update_loop fin h s d = Some r" "safe s" for r
    using that by (induction rule: update_loop_induct) (use assms(1) in \<open>auto simp: no_abort_def\<close>)
  then show "update_call fin h s d \<noteq> Some Abort" "update_call fin h s d = Some (Ret s' rest) \<Longrightarrow> safe s'"
    using assms(2) by (auto simp: update_call_def split: if_splits)
qed

section \<open>The parsers\<close>

lemma header_no_abort: "no_abort header_inv hd_finished header_handler"
  unfolding no_abort_def
proof (intro allI impI conjI)
  fix h and d :: "byte list"
  assume h: "header_inv h \<and> \<not> hd_finished h \<and> d \<noteq> []"
  show "header_handler h d \<noteq> Abort"
  proof (cases "hd_status h")
    case STAT_HDR_TYPE
    then show ?thesis using h by (cases d) (auto simp: header_handler_def update_header_type_def Let_def)
  next
    case STAT_HDR_LEN
    obtain buf n r where rl: "read_len_bytes (hd_hbuf h) (hd_hlen h) d = (buf, n, r)"
      by (cases "read_len_bytes (hd_hbuf h) (hd_hlen h) d")
    then show ?thesis
      using STAT_HDR_LEN h read_len_append [OF rl]
      by (auto simp: header_handler_def update_header_len_def header_inv_def Let_def split: if_splits)
  qed
qed (use header_handler_inv in blast)

lemma connack_no_abort: "no_abort (\<lambda>_. True) ca_finished connack_update_header_var"
  by (auto simp: no_abort_def connack_update_header_var_def fill_buf_eq Let_def split: if_splits)

lemma ack_no_abort: "no_abort (\<lambda>_. True) ak_finished ack_update_header_var"
  by (auto simp: no_abort_def ack_update_header_var_def fill_buf_eq Let_def split: if_splits)

lemma suback_no_abort: "no_abort (\<lambda>_. True) sa_finished suback_handler"
  by (auto simp: no_abort_def suback_handler_def suback_update_header_var_def suback_update_topic_qos_def fill_buf_eq Let_def
      split: suback_stat.split list.split)

definition sub_safe :: "mqtt_subscribe \<Rightarrow> bool" where
  "sub_safe m \<longleftrightarrow> (sb_status m = SUB_TOPIC_VAL \<longrightarrow> 0 < sb_dlen m)"

definition uns_safe :: "mqtt_unsubscribe \<Rightarrow> bool" where
  "uns_safe m \<longleftrightarrow> (us_status m = UNS_TOPIC_VAL \<and> \<not> us_finished m \<longrightarrow> 0 < us_dlen m)"

lemma sub_no_abort: "no_abort sub_safe sb_finished sub_handler"
  unfolding no_abort_def
proof (intro allI impI)
  fix m and d :: "byte list"
  assume m: "sub_safe m \<and> \<not> sb_finished m \<and> d \<noteq> []"
  show "sub_handler m d \<noteq> Abort \<and> (\<forall>m' rest. sub_handler m d = Ret m' rest \<longrightarrow> sub_safe m')"
    using m by (cases "sb_status m"; cases d)
      (auto simp: sub_handler_def sub_safe_def sub_update_header_var_def sub_update_topic_len_def sub_update_topic_val_def
        sub_update_topic_qos_def fill_buf_eq save_chars_eq Let_def unat_gt_0 split: if_splits)
qed

lemma uns_no_abort: "no_abort uns_safe us_finished uns_handler"
  unfolding no_abort_def
proof (intro allI impI)
  fix m and d :: "byte list"
  assume m: "uns_safe m \<and> \<not> us_finished m \<and> d \<noteq> []"
  show "uns_handler m d \<noteq> Abort \<and> (\<forall>m' rest. uns_handler m d = Ret m' rest \<longrightarrow> uns_safe m')"
    using m by (cases "us_status m"; cases d)
      (auto simp: uns_handler_def uns_safe_def uns_update_header_var_def uns_update_topic_len_def uns_update_topic_val_def
        fill_buf_eq save_chars_eq Let_def unat_gt_0 split: if_splits)
qed

section \<open>All classes\<close>

fun message_safe :: "mqtt_message \<Rightarrow> bool" where
  "message_safe (MConnect m) = False"
| "message_safe (MPublish m) = False"
| "message_safe (MSubscribe m) = sub_safe m"
| "message_safe (MUnsubscribe m) = uns_safe m"
| "message_safe _ = True"

lemma map_hres_cases: "map_hres C z = Ret m r \<Longrightarrow> \<exists>x. z = Ret x r \<and> m = C x" "map_hres C z = Abort \<Longrightarrow> z = Abort"
  by (cases z; simp)+

lemma message_safe_update:
  assumes "message_safe m"
  shows "message_update m d \<noteq> Some Abort" "message_update m d = Some (Ret m' rest) \<Longrightarrow> message_safe m'"
proof -
  note un = no_abort_update [OF connack_no_abort TrueI, folded connack_update_def]
    no_abort_update [OF ack_no_abort TrueI, folded ack_update_def]
    no_abort_update [OF suback_no_abort TrueI, folded suback_update_def]
    no_abort_update [OF sub_no_abort, folded subscribe_update_def]
    no_abort_update [OF uns_no_abort, folded unsubscribe_update_def]
  show "message_update m d \<noteq> Some Abort" "message_update m d = Some (Ret m' rest) \<Longrightarrow> message_safe m'"
    using assms un by (cases m; fastforce dest!: map_hres_cases)+
qed

lemma create_message_safe:
  "create_message pad h = Some m \<Longrightarrow> hd_type h \<noteq> MQTT_CONNECT \<Longrightarrow> hd_type h \<noteq> MQTT_PUBLISH \<Longrightarrow> message_safe m"
  by (auto simp: create_message_def sub_safe_def uns_safe_def mqtt_subscribe_of_header_def mqtt_unsubscribe_of_header_def
      split: mqtt_type.splits)

lemma read_body_safe: "message_safe b \<Longrightarrow> read_body rd len b c \<noteq> Crash"
proof (induction rd len b c rule: read_body.induct)
  case (1 rd len b c)
  show ?case
  proof (cases "len = 0")
    case True
    then show ?thesis by (simp add: read_body.simps)
  next
    case False
    define size where "size = (if 8192 > len then len else 8192)"
    have unf: "read_body rd len b c = (case rd c size of None \<Rightarrow> Err
        | Some (buf, c') \<Rightarrow> (case message_update b buf of None \<Rightarrow> Hang | Some Abort \<Rightarrow> Crash
          | Some (Fail b) \<Rightarrow> Err | Some (Ret b rest) \<Rightarrow> if rest \<noteq> [] then Err else read_body rd (len - size) b c'))"
      unfolding read_body.simps [of rd len] size_def Let_def using False by (simp only: if_False)
    have IH: "read_body rd (len - size) b' c' \<noteq> Crash"
      if "rd c size = Some (buf, c')" "message_update b buf = Some (Ret b' [])" for buf b' c'
      using 1(1) [OF False size_def that(1) refl that(2) refl] message_safe_update(2) [OF 1(2) that(2)] by simp
    show ?thesis
      unfolding unf using IH by (auto simp: message_safe_update(1) [OF 1(2)] split: option.splits hres.splits)
  qed
qed

lemma header_update_safe: "header_inv h \<Longrightarrow> header_update h d \<noteq> Some Abort"
  using no_abort_update(1) [OF header_no_abort] by (simp add: header_update_def)

lemma read_header_rest_safe: "header_inv h \<Longrightarrow> read_header_rest rd k h c \<noteq> Crash"
  by (induction rd k h c rule: read_header_rest.induct)
    (auto simp: header_update_safe split: option.splits hres.splits dest: header_update_inv)

lemma read_header_safe: "header_inv h \<Longrightarrow> read_header rd h c \<noteq> Crash"
  by (auto simp: read_header_def header_update_safe read_header_rest_safe split: option.splits hres.splits dest: header_update_inv)

lemma get_message_safe:
  assumes "get_message pad rd c = Crash"
  shows "\<exists>h c'. read_header rd (mqtt_header_new MQTT_RESERVED_MIN) c = Ok (h, c') \<and> hd_type h \<in> {MQTT_CONNECT, MQTT_PUBLISH}"
proof -
  let ?r = "read_header rd (mqtt_header_new MQTT_RESERVED_MIN) c"
  have "?r \<noteq> Crash" by (intro read_header_safe) (simp add: mqtt_header_new_def header_inv_def)
  with assms obtain h c1 where h: "?r = Ok (h, c1)"
      "(case create_message pad h of None \<Rightarrow> Err | Some m \<Rightarrow> read_message rd h m c1) = Crash"
    by (cases ?r) (simp_all add: get_message_def split_paired_all)
  then obtain m where m: "create_message pad h = Some m" "read_message rd h m c1 = Crash"
    by (auto split: option.splits)
  then have "\<not> message_safe m"
    using read_body_safe [of m rd "unat (hd_dlen h)" c1] by (auto simp: read_message_def split: if_splits)
  with m(1) h(1) show ?thesis using create_message_safe by blast
qed

text \<open>The topic of a PUBLISH must not be empty.\<close>

lemma empty_topic_aborts: "publish_update (mqtt_publish_of_header h) (0 # 0 # c # cs) = Some Abort"
proof -
  have r: "replicate 2 (0::byte) = [0, 0]" by (simp add: numeral_2_eq_2)
  show ?thesis
    by (simp add: publish_update_def update_call_def update_loop_step update_loop_aborted pub_handler_def pub_update_header_var_def
        pub_update_topic_len_def pub_update_topic_val_def mqtt_publish_of_header_def r get_short_def)
qed

end
