(* ===== verification/MqttProperties.thy ===== *)
theory MqttProperties
  imports MqttReturns
begin

text \<open>
  The properties of the MQTT component, each with a concrete run that meets its hypotheses.
  Strings are lists of bytes; \<open>ascii\<close> turns a literal into one.
\<close>

definition ascii :: "string \<Rightarrow> byte list" where
  "ascii s = map of_char s"





text \<open>C2: the event-driven client delivers every sequence of sendable messages, in order and
  exactly once, however the bytes are cut into the pieces it is called with, if on_body never refuses; afterwards it is
  ready for the next message. What the messages say is what is read of those written, as in C1.\<close>

theorem aclient_delivers_all:
  assumes "\<And>m. m \<in> set ms \<Longrightarrow> sendable m" "ac_idle st" "\<And>m u. fst (on_body m u)"
    and "concat cs = concat (map (\<lambda>m. case message_to_string m [] of (_, PubOk bs) \<Rightarrow> bs | _ \<Rightarrow> []) ms)"
    and "[] \<notin> set cs" "cs \<noteq> []"
  shows "\<exists>st' ps. deliver (read_callback on_body pad) st cs = Some (Ret st' []) \<and> ac_idle st' \<and>
    map message_view ps = map (\<lambda>m. read_view pad (message_view (fst (message_to_string m [])))) ms \<and>
    ac_user st' = fold (\<lambda>p u. snd (on_body p u)) ps (ac_user st)"
proof -
  let ?bytes = "\<lambda>m. case message_to_string m [] of (_, PubOk bs) \<Rightarrow> bs | _ \<Rightarrow> []"
  let ?view = "\<lambda>m. message_view (fst (message_to_string m []))"
  have "on_wire (?view m) (?bytes m)" if "m \<in> set ms" for m
    using sendable_on_wire [OF assms(1) [OF that], of "[]"] by auto
  then have "list_all2 on_wire (map ?view ms) (map ?bytes ms)"
    by (simp add: list_all2_conv_all_nth)
  from deliver_wire [where on_body = on_body, OF this assms(2,3,4,5,6), of pad] show ?thesis by (simp add: comp_def)
qed

definition sample_puback :: mqtt_ack where
  "sample_puback = ack_set_pkt_id 0x0102 (mqtt_ack_new MQTT_PUBACK)"

theorem aclient_delivers_all_witness:
  "\<exists>st' ps. deliver (read_callback (\<lambda>m u. (True, u @ [message_view m])) 0) (aclient_new [])
      [[0x40], [2, 1], [2, 0x40, 2, 1, 2]] = Some (Ret st' []) \<and> ac_idle st' \<and>
    map message_view ps = [VAck MQTT_PUBACK 0x0102, VAck MQTT_PUBACK 0x0102] \<and>
    ac_user st' = fold (\<lambda>p u. u @ [message_view p]) ps []"
proof -
  have "message_to_string (MAck sample_puback) [] = (MAck (sample_puback\<lparr>ak_header :=
      set_remaing_length 2 (ak_header sample_puback)\<rparr>), PubOk [0x40, 2, 1, 2])"
    by (simp add: sample_puback_def ack_set_pkt_id_def mqtt_ack_new_def str_out_def ack_to_string_def
        build_header_def set_remaing_length_def mqtt_header_new_def remaining_length_bytes_def
        pack_short_def msb_def lsb_def)
  moreover have "sendable (MAck sample_puback)"
    by (simp add: sample_puback_def ack_set_pkt_id_def mqtt_ack_new_def mqtt_header_new_def)
  moreover have "message_view (MAck (sample_puback\<lparr>ak_header :=
      set_remaing_length 2 (ak_header sample_puback)\<rparr>)) = VAck MQTT_PUBACK 0x0102"
    by (simp add: sample_puback_def ack_set_pkt_id_def mqtt_ack_new_def set_remaing_length_def mqtt_header_new_def)
  ultimately show ?thesis
    using aclient_delivers_all [where ms = "[MAck sample_puback, MAck sample_puback]" and
        st = "aclient_new []" and on_body = "\<lambda>m u. (True, u @ [message_view m])" and
        cs = "[[0x40], [2, 1], [2, 0x40, 2, 1, 2]]" and pad = 0]
    by (simp add: ac_idle_new) (simp add: aclient_new_def)
qed

text \<open>C3: for any bytes at all, valid or not, the event-driven client ends in the same state and
  has made the same calls of on_body, whether the bytes arrive in one piece or in many; a
  failure, a failed assertion and a call that does not return are also the same.\<close>

theorem aclient_any_chunking:
  assumes "ac_inv st" "[] \<notin> set cs" "cs \<noteq> []"
  shows "deliver (read_callback on_body pad) st cs = read_callback on_body pad st (concat cs)"
  using assms by (rule read_callback_chunks)

theorem aclient_any_chunking_witness:
  "deliver (read_callback (\<lambda>m u. (True, u + (1::nat))) 0) (aclient_new 0) [[0xc0, 0], [0xff]] =
   read_callback (\<lambda>m u. (True, u + 1)) 0 (aclient_new 0) [0xc0, 0, 0xff]"
  using aclient_any_chunking [OF ac_idle_inv [OF ac_idle_new], of "[[0xc0, 0], [0xff]]"] by simp

text \<open>C4: get_message of the blocking client returns for every stream, a message or an error, unless the
  header it has read announces a CONNECT or a PUBLISH; for a PUBLISH it returns or an assertion fails.\<close>

theorem get_message_returns_unless_connect:
  assumes "\<And>h c'. read_header rd (mqtt_header_new MQTT_RESERVED_MIN) c = Ok (h, c') \<Longrightarrow> hd_type h \<noteq> MQTT_CONNECT"
  shows "get_message pad rd c = Err \<or> (\<exists>m c'. get_message pad rd c = Ok (m, c')) \<or>
    get_message pad rd c = Crash \<and>
      (\<exists>h c'. read_header rd (mqtt_header_new MQTT_RESERVED_MIN) c = Ok (h, c') \<and> hd_type h = MQTT_PUBLISH)"
proof (cases "get_message pad rd c")
  case Hang
  then show ?thesis using assms get_message_returns by metis
next
  case Crash
  then show ?thesis using assms get_message_safe by fastforce
qed auto

theorem get_message_returns_unless_connect_witness:
  "get_message 0 list_reader [0xc0, 0] = Err \<or> (\<exists>m c'. get_message 0 list_reader [0xc0, 0] = Ok (m, c')) \<or>
    get_message 0 list_reader [0xc0, 0] = Crash \<and>
      (\<exists>h c'. read_header list_reader (mqtt_header_new MQTT_RESERVED_MIN) [0xc0, 0] = Ok (h, c') \<and> hd_type h = MQTT_PUBLISH)"
proof (rule get_message_returns_unless_connect)
  fix h c'
  assume r: "read_header list_reader (mqtt_header_new MQTT_RESERVED_MIN) [0xc0, 0] = Ok (h, c')"
  let ?h1 = "(mqtt_header_new MQTT_PINGREQ)\<lparr>hd_status := STAT_HDR_LEN\<rparr>"
  have "header_update (mqtt_header_new MQTT_RESERVED_MIN) [0xc0] = Some (Ret ?h1 [])"
    by (simp add: header_update_unfold header_handler_def mqtt_header_new_def update_header_type_def Let_def
        mqtt_type_cast_def mqtt_types_def unat_le_iff)
  moreover have h2: "header_update ?h1 [0] = Some (Ret (?h1\<lparr>hd_hlen := 1, hd_finished := True\<rparr>) [])"
    by (simp add: header_update_unfold header_handler_def mqtt_header_new_def update_header_len_def Let_def
        numeral_eq_Suc decode_len_def)
  moreover have "read_header_rest list_reader 4 ?h1 [0] = Ok (?h1\<lparr>hd_hlen := 1, hd_finished := True\<rparr>, [])"
    using read_header_rest.simps(2) [of list_reader 3 ?h1 "[0]"] h2 by (simp add: list_reader_def)
  ultimately have "h = ?h1\<lparr>hd_hlen := 1, hd_finished := True\<rparr>"
    using r by (simp add: read_header_def list_reader_def)
  then show "hd_type h \<noteq> MQTT_CONNECT" by (simp add: mqtt_header_new_def)
qed

text \<open>C5: a CONNECT with a will message of two bytes or more, without a user name and a password and with a body that
  fits into one block of 8192 bytes, written by to_string, keeps get_message of the receiver in its
  parsing loop for ever.\<close>

theorem connect_will_never_returns:
  assumes "conn_made m" "length (cn_cid m) < 65536" "cn_username m = []" "cn_passwd m = []"
    and "topic_ok (cn_will_topic m)" "2 \<le> length (cn_will_msg m)" "length (cn_will_msg m) < 65536"
    and "length (conn_body (conn_written m)) \<le> 8192" "stream_ok rd contents"
  shows "\<exists>m' bs. connect_to_string m [] = (m', Some bs) \<and>
    (\<forall>c rest. contents c = bs @ rest \<longrightarrow> seen (get_message pad rd c) = Hang)"
proof -
  let ?w = "conn_written m"
  have wt: "cn_will_topic m \<noteq> []" "length (cn_will_topic m) < 65536" and wm: "cn_will_msg m \<noteq> []"
    using assms by (auto simp: topic_ok_def)
  obtain h hb where h: "connect_to_string m [] = (?w\<lparr>cn_header := h\<rparr>, Some ([] @ hb @ conn_body ?w))"
      "build_header h [] = (h, Some hb)" "hd_type h = MQTT_CONNECT" "unat (hd_dlen h) = length (conn_body ?w)"
    using connect_to_string_eq [of m "[]"] assms wt by (auto simp: conn_made_def)
  have body: "conn_body ?w = conn_hdr (conn_out_flags m) (cn_keep_alive m) @ str_entry (cn_cid m) @
      str_entry (cn_will_topic m) @ str_entry (cn_will_msg m)"
    using assms wt wm by (simp add: conn_body_def conn_written_def)
  then have ne: "conn_body ?w \<noteq> []" by (simp add: conn_hdr_def)
  have stuck: "connect_update (mqtt_connect_of_header pad h') (conn_body ?w) = None" for h'
    using connect_will_parse_stuck [of "cn_cid m" "cn_will_topic m" "cn_will_msg m" "conn_out_flags m" pad h'
        "cn_keep_alive m" "[]"] assms conn_out_flags_bits [OF assms(1)] wt wm
    by (simp add: body conn_made_def)
  have "seen (get_message pad rd c) = Hang" if "contents c = (hb @ conn_body ?w) @ rest" for c rest
    by (rule get_message_block [OF h(2) _ _ h(4) ne assms(8,9)])
      (use that stuck h(3) in \<open>simp_all add: create_message_def\<close>)
  with h(1) show ?thesis by auto
qed

definition sample_will :: mqtt_connect where
  "sample_will = set_will_msg (ascii ''ok'') (set_will_topic (ascii ''t'') (mqtt_connect_new 0))"

theorem connect_will_never_returns_witness:
  "\<exists>m' bs. connect_to_string sample_will [] = (m', Some bs) \<and>
    (\<forall>c rest. c = bs @ rest \<longrightarrow> seen (get_message 0 list_reader c) = Hang)"
proof (rule connect_will_never_returns)
  show "conn_made sample_will"
    unfolding sample_will_def by (intro conn_made_setters conn_made_new)
qed (simp_all add: list_reader_ok sample_will_def set_will_msg_def set_will_topic_def mqtt_connect_new_def
    ascii_def cstr_def topic_ok_def no_nul_def conn_body_def conn_written_def conn_hdr_def str_entry_def)

text \<open>C6: the header that build_header writes is read back by the streaming parser, with its
  type, flags and remaining length, however it is cut, and the bytes behind it are left.\<close>

theorem header_read_back_any_cut:
  assumes "build_header h [] = (h', Some bs)" "hd_type h \<noteq> MQTT_RESERVED_MIN" "hd_type h \<noteq> MQTT_RESERVED_MAX"
    and "concat cs = bs @ rest" "[] \<notin> set cs" "cs \<noteq> []"
  shows "\<exists>p. feed hd_finished header_update (mqtt_header_new t) cs = Some (Ret p rest) \<and> hd_finished p \<and>
    hd_type p = hd_type h \<and> hd_flags p = hd_flags h \<and> hd_dlen p = hd_dlen h"
proof -
  let ?p = "mqtt_header_new t"
  have inv: "header_inv ?p" by (simp add: mqtt_header_new_def header_inv_def)
  have ne: "concat cs \<noteq> []" using assms(5,6) by (cases cs) auto
  obtain p where p: "header_update ?p (bs @ rest) = Some (Ret p rest)" "hd_finished p"
      "hd_type p = hd_type h" "hd_flags p = hd_flags h" "hd_dlen p = hd_dlen h"
    using header_roundtrip [OF assms(1-3), of ?p rest] by (auto simp: mqtt_header_new_def)
  have "feed hd_finished header_update ?p cs = feed hd_finished header_update ?p [concat cs]"
    unfolding header_update_def by (rule hdr.feed_chunks [OF inv assms(5,6)])
  also have "\<dots> = Some (Ret p rest)" using p(1) assms(4) ne by (simp add: mqtt_header_new_def)
  finally show ?thesis using p by blast
qed

theorem header_read_back_any_cut_witness:
  "\<exists>p. feed hd_finished header_update (mqtt_header_new MQTT_RESERVED_MIN) [[0xc0], [0, 7]] = Some (Ret p [7]) \<and>
    hd_finished p \<and> hd_type p = MQTT_PINGREQ \<and> hd_flags p = 0 \<and> hd_dlen p = 0"
  using header_read_back_any_cut [of "mqtt_header_new MQTT_PINGREQ" "mqtt_header_new MQTT_PINGREQ" "[0xc0, 0]"
      "[[0xc0], [0, 7]]" "[7]" MQTT_RESERVED_MIN]
  by (simp add: build_header_def mqtt_header_new_def remaining_length_bytes_def)

text \<open>A publication with QoS 0 and an empty payload is written, but get_message of the
  receiver refuses it: the parser waits for a payload of length 0 and never becomes finished.\<close>

lemma publish_qos0_without_payload_refused:
  assumes "pub_made m" "pb_pkt_id m \<noteq> 0" "topic_ok (pb_topic m)" "length (pb_topic m) \<le> 8190"
    and "get_qos (pb_header m) = MQTT_QOS0" "pb_payload m = []" "stream_ok rd contents"
  shows "\<exists>m' bs. publish_to_string m [] = (m', PubOk bs) \<and>
    (\<forall>c rest. contents c = bs @ rest \<longrightarrow> seen (get_message pad rd c) = Err)"
proof -
  have body: "pub_body m = str_entry (pb_topic m)" using assms by (simp add: pub_body_def)
  obtain h hb where h: "publish_to_string m [] = (m\<lparr>pb_header := h\<rparr>, PubOk ([] @ hb @ pub_body m))"
      "build_header h [] = (h, Some hb)" "hd_type h = MQTT_PUBLISH" "unat (hd_dlen h) = length (pub_body m)"
      "get_qos h = MQTT_QOS0"
    using publish_to_string_eq [of m "[]"] assms by (auto simp: body)
  have "seen (get_message pad rd c) = Err" if "contents c = (hb @ pub_body m) @ rest" for c rest
  proof (rule get_message_block [OF h(2) _ _ h(4) _ _ assms(7)])
    fix h' :: mqtt_header
    assume h': "hd_type h' = hd_type h" "hd_flags h' = hd_flags h" "hd_dlen h' = hd_dlen h"
    then have "get_qos h' = MQTT_QOS0" using h(5) by (simp add: get_qos_def)
    moreover have "unat (hd_dlen h') = 2 + length (pb_topic m)" using h' h(4) by (simp add: body)
    ultimately obtain p where "publish_update (mqtt_publish_of_header h') (str_entry (pb_topic m)) = Some (Ret p [])"
        "\<not> pb_finished p"
      using publish_qos0_empty [OF assms(3)] by blast
    with h'(1) h(3) show "\<exists>b. create_message pad h' = Some b \<and> verdict (message_update b (pub_body m)) = Err"
      by (simp add: create_message_def body)
  qed (use that h(3) assms in \<open>simp_all add: body str_entry_def\<close>)
  with h(1) show ?thesis by auto
qed

text \<open>An UNSUBSCRIBE for two topics is read back with the second topic replaced by the two
  joined, since the parser never clears the string it collects a topic in.\<close>

lemma unsubscribe_second_topic_joined:
  assumes "uns_made m" "us_pkt_id m \<noteq> 0" "us_topics m = [t1, t2]" "topic_ok t1" "topic_ok t2"
    and "length (uns_body m) \<le> 8192" "stream_ok rd contents"
  shows "\<exists>m' bs. unsubscribe_to_string m [] = (m', Some bs) \<and>
    (\<forall>c rest. contents c = bs @ rest \<longrightarrow>
       seen (get_message pad rd c) = Ok (VUnsubscribe (us_pkt_id m) [t1, t1 @ t2]))"
proof -
  obtain h hb where h: "unsubscribe_to_string m [] = (m\<lparr>us_body_len := us_body_len m + 2, us_header := h\<rparr>,
        Some ([] @ hb @ uns_body m))"
      "build_header h [] = (h, Some hb)" "hd_type h = MQTT_UNSUBSCRIBE" "unat (hd_dlen h) = length (uns_body m)"
    using unsubscribe_to_string_eq [of m "[]"] assms by auto
  have "seen (get_message pad rd c) = Ok (VUnsubscribe (us_pkt_id m) [t1, t1 @ t2])"
    if "contents c = (hb @ uns_body m) @ rest" for c rest
  proof (rule get_message_block [OF h(2) _ _ h(4) _ assms(6,7)])
    fix h' :: mqtt_header
    assume h': "hd_type h' = hd_type h" "hd_dlen h' = hd_dlen h"
    with h(4) have "unat (hd_dlen h') = length (uns_body m)" by simp
    from unsubscribe_parse_two [OF assms(3,4,5) this, of "[]"] h' h(3)
    show "\<exists>b. create_message pad h' = Some b \<and>
        verdict (message_update b (uns_body m)) = Ok (VUnsubscribe (us_pkt_id m) [t1, t1 @ t2])"
      by (auto simp: create_message_def)
  qed (use that h(3) in \<open>simp_all add: uns_body_def\<close>)
  with h(1) show ?thesis by auto
qed

text \<open>A CONNECT without a will is parsed to the client identifier, user name, password and
  flags it was written with, but its keep-alive is not the one written: the high byte is the low
  byte of the keep-alive, and the low byte is whatever follows the ten-byte buffer in memory.\<close>

lemma connect_parsed_except_keep_alive:
  assumes "conn_made m" "length (cn_cid m) < 65536" "length (cn_username m) < 65536"
    and "length (cn_passwd m) < 65536" "cn_will_topic m = []" "cn_will_msg m = []"
  shows "\<exists>p. connect_update (mqtt_connect_of_header pad h) (conn_body (conn_written m) @ rest) = Some (Ret p rest) \<and>
    cn_finished p \<and> cn_cid p = cn_cid m \<and> cn_username p = cn_username m \<and> cn_passwd p = cn_passwd m \<and>
    cn_conn_flags p = conn_out_flags m \<and>
    cn_keep_alive p = push_bit 8 (ucast (lsb (cn_keep_alive m))) OR ucast pad"
proof -
  have flags: "conn_out_flags m AND 0x04 = 0" "(conn_out_flags m AND 0x80 \<noteq> 0) = (cn_username m \<noteq> [])"
      "(conn_out_flags m AND 0x40 \<noteq> 0) = (cn_passwd m \<noteq> [])"
    using assms conn_out_flags_bits [of m] by auto
  have body: "conn_body (conn_written m) = conn_hdr (conn_out_flags m) (cn_keep_alive m) @ str_entry (cn_cid m) @
      opt_entry (cn_username m) @ opt_entry (cn_passwd m)"
    using assms by (simp add: conn_body_def conn_written_def)
  obtain p where "connect_update (mqtt_connect_of_header pad h) (conn_body (conn_written m) @ rest) = Some (Ret p rest)"
      "cn_finished p" "conn_view p = (cn_cid m, cn_username m, cn_passwd m, [], [], conn_out_flags m,
          push_bit 8 (ucast (lsb (cn_keep_alive m))) OR ucast pad)"
    using assms connect_parse_body [OF _ _ _ _ _ _ flags, of "cn_cid m" pad h "cn_keep_alive m" rest]
    by (auto simp: body conn_made_def)
  then show ?thesis by (auto simp: conn_view_def)
qed

end
