(* ===== verification/Websocket.thy ===== *)
theory Websocket
  imports Streaming
begin

text \<open>
  Frames of the WebSocket protocol (\<^verbatim>\<open>http/websocket.cpp\<close>): writing a frame header and the
  masked payload, reading them from a blocking stream, and the state machine that reads the
  header from a non-blocking one as bytes arrive.

  \<open>be\<close> says whether the host is big-endian (\<^verbatim>\<open>is_big_endian\<close>): the code copies numbers to and
  from memory with \<^verbatim>\<open>memcpy\<close>, so the bytes of a number depend on it.
\<close>

section \<open>Numbers in memory\<close>

definition bytes32 :: "u32 \<Rightarrow> byte list" where
  "bytes32 k = [ucast (drop_bit 24 k AND 0xff), ucast (drop_bit 16 k AND 0xff),
     ucast (drop_bit 8 k AND 0xff), ucast (k AND 0xff)]"

definition bytes64 :: "u64 \<Rightarrow> byte list" where
  "bytes64 k = [ucast (drop_bit 56 k AND 0xff), ucast (drop_bit 48 k AND 0xff),
     ucast (drop_bit 40 k AND 0xff), ucast (drop_bit 32 k AND 0xff),
     ucast (drop_bit 24 k AND 0xff), ucast (drop_bit 16 k AND 0xff),
     ucast (drop_bit 8 k AND 0xff), ucast (k AND 0xff)]"

text \<open>The number whose bytes, most significant first, are given.\<close>

definition of_bytes :: "byte list \<Rightarrow> 'a::len word" where
  "of_bytes bs = fold (\<lambda>b n. push_bit 8 n OR ucast b) bs 0"

definition host_order :: "bool \<Rightarrow> byte list \<Rightarrow> byte list" where
  "host_order be bs = (if be then bs else rev bs)"

definition mem32 :: "bool \<Rightarrow> u32 \<Rightarrow> byte list" where
  "mem32 be k = host_order be (bytes32 k)"

definition load32 :: "bool \<Rightarrow> byte list \<Rightarrow> u32" where
  "load32 be bs = of_bytes (host_order be bs)"

definition load16 :: "bool \<Rightarrow> byte list \<Rightarrow> u16" where
  "load16 be bs = of_bytes (host_order be bs)"

definition load64 :: "bool \<Rightarrow> byte list \<Rightarrow> u64" where
  "load64 be bs = of_bytes (host_order be bs)"

definition ntohs :: "bool \<Rightarrow> u16 \<Rightarrow> u16" where
  "ntohs be n = (if be then n else push_bit 8 n OR drop_bit 8 n)"

definition swap64 :: "u64 \<Rightarrow> u64" where
  "swap64 v = drop_bit 56 v OR drop_bit 40 (v AND 0x00ff000000000000) OR
     drop_bit 24 (v AND 0x0000ff0000000000) OR drop_bit 8 (v AND 0x000000ff00000000) OR
     push_bit 8 (v AND 0x00000000ff000000) OR push_bit 24 (v AND 0x0000000000ff0000) OR
     push_bit 40 (v AND 0x000000000000ff00) OR push_bit 56 v"

definition ntoh64 :: "bool \<Rightarrow> u64 \<Rightarrow> u64" where
  "ntoh64 be v = (if be then v else swap64 v)"

lemma length_bytes [simp]: "length (bytes32 k) = 4" "length (bytes64 n) = 8" "length (mem32 be k) = 4"
  by (simp_all add: bytes32_def bytes64_def mem32_def host_order_def)

text \<open>Bit \<open>n\<close> of a number is bit \<open>n mod 8\<close> of the byte \<open>n div 8\<close> from the end.\<close>

lemma bit_of_bytes:
  "8 * length bs \<le> LENGTH('a) \<Longrightarrow>
   bit (of_bytes bs :: 'a::len word) n \<longleftrightarrow> n < 8 * length bs \<and> bit (rev bs ! (n div 8)) (n mod 8)"
proof (induction bs arbitrary: n rule: rev_induct)
  case Nil
  then show ?case by (simp add: of_bytes_def)
next
  case (snoc b bs)
  have step: "(of_bytes (bs @ [b]) :: 'a word) = push_bit 8 (of_bytes bs) OR ucast b"
    by (simp add: of_bytes_def)
  show ?case
  proof (cases "n < 8")
    case True
    then have "n div 8 = 0" "n mod 8 = n" by simp_all
    with True snoc.prems show ?thesis
      by (simp add: step bit_or_iff bit_push_bit_iff bit_unsigned_iff)
  next
    case False
    then obtain k where k: "n = k + 8" by (metis add.commute le_Suc_ex not_less)
    have "\<not> bit b (k + 8)" using bit_imp_le_length [of b "k + 8"] by auto
    moreover have "n div 8 = Suc (k div 8)" "n mod 8 = k mod 8" using k by simp_all
    moreover have "k < 8 * length bs \<Longrightarrow> n < LENGTH('a)" using snoc.prems k by simp
    ultimately show ?thesis
      using snoc.IH [of k] snoc.prems k
      by (auto simp: step bit_or_iff bit_push_bit_iff bit_unsigned_iff)
  qed
qed

lemma rev_bytes:
  "rev (bytes32 k) = map (\<lambda>i. ucast (drop_bit (8 * i) k AND 0xff)) [0..<4]"
  "rev (bytes64 w) = map (\<lambda>i. ucast (drop_bit (8 * i) w AND 0xff)) [0..<8]"
  by (simp_all add: bytes32_def bytes64_def upt_rec)

lemma of_bytes_bytes32 [simp]: "of_bytes (bytes32 k) = k"
  by (rule bit_word_eqI) (auto simp: bit_of_bytes rev_bytes bit_simps div_less_iff_less_mult dest: bit_imp_le_length)

lemma of_bytes_bytes64 [simp]: "of_bytes (bytes64 k) = k"
  by (rule bit_word_eqI) (auto simp: bit_of_bytes rev_bytes bit_simps div_less_iff_less_mult dest: bit_imp_le_length)

lemma bytes32_of_bytes:
  assumes "length bs = 4"
  shows "bytes32 (of_bytes bs) = bs"
proof -
  have "rev (bytes32 (of_bytes bs)) = rev bs"
  proof (rule nth_equalityI)
    fix i assume "i < length (rev (bytes32 (of_bytes bs)))"
    then have i: "i < 4" by simp
    show "rev (bytes32 (of_bytes bs)) ! i = rev bs ! i"
      using i assms
      by (intro bit_word_eqI) (auto simp: rev_bytes bit_of_bytes bit_simps dest: bit_imp_le_length)
  qed (simp add: assms)
  then show ?thesis by simp
qed

lemma mem32_load32 [simp]: "length bs = 4 \<Longrightarrow> mem32 be (load32 be bs) = bs"
  by (simp add: mem32_def load32_def host_order_def bytes32_of_bytes)

lemma byte_masks:
  "(0x00ff000000000000::u64) = push_bit 48 (mask 8)" "(0x0000ff0000000000::u64) = push_bit 40 (mask 8)"
  "(0x000000ff00000000::u64) = push_bit 32 (mask 8)" "(0x00000000ff000000::u64) = push_bit 24 (mask 8)"
  "(0x0000000000ff0000::u64) = push_bit 16 (mask 8)" "(0x000000000000ff00::u64) = push_bit 8 (mask 8)"
  by (simp_all add: mask_eq_exp_minus_1)

lemma lane_cases:
  assumes "r < (8::nat)" "8 * b \<le> 8 * q + r" "8 * q + r - 8 * b < 8"
  shows "q = b"
  using assms by linarith

lemma bit_lane_up:
  fixes v :: u64
  assumes "r < 8" "8 * q + r < 64"
  shows "bit (push_bit (8 * a) (v AND push_bit (8 * b) (mask 8))) (8 * q + r) \<longleftrightarrow>
         q = a + b \<and> bit v (8 * b + r)"
proof (cases "q = a + b")
  case True
  with assms show ?thesis by (simp add: bit_and_iff bit_push_bit_iff bit_mask_iff algebra_simps)
next
  case False
  then have "\<not> (8 * (a + b) \<le> 8 * q + r \<and> 8 * q + r - 8 * (a + b) < 8)"
    using lane_cases [of r "a + b" q] assms(1) by blast
  with False show ?thesis by (auto simp: bit_and_iff bit_push_bit_iff bit_mask_iff)
qed

lemma bit_lane_down:
  fixes v :: u64
  assumes "r < 8" "8 * b + r < 64"
  shows "bit (drop_bit (8 * a) (v AND push_bit (8 * b) (mask 8))) (8 * q + r) \<longleftrightarrow>
         q + a = b \<and> bit v (8 * b + r)"
proof (cases "q + a = b")
  case True
  then have "8 * a + (8 * q + r) = 8 * b + r" by simp
  with True assms show ?thesis
    by (simp only: bit_and_iff bit_push_bit_iff bit_drop_bit_eq bit_mask_iff comp_apply) simp
next
  case False
  then have "\<not> (8 * b \<le> 8 * (q + a) + r \<and> 8 * (q + a) + r - 8 * b < 8)"
    using lane_cases [of r b "q + a"] assms(1) by blast
  moreover have "8 * a + (8 * q + r) = 8 * (q + a) + r" by simp
  ultimately show ?thesis using False
    by (simp only: bit_and_iff bit_push_bit_iff bit_drop_bit_eq bit_mask_iff comp_apply) simp
qed

lemma bit_swap64:
  assumes q: "q < 8" and r: "r < 8"
  shows "bit (swap64 v) (8 * q + r) = bit v (8 * (7 - q) + r)"
proof -
  have n: "8 * q + r < 64" using q r by linarith
  note up = bit_lane_up [OF r n]
  have top: "bit (drop_bit 56 v) (8 * q + r) \<longleftrightarrow> q = 0 \<and> bit v (56 + r)"
    using bit_imp_le_length [of v "56 + (8 * q + r)"] r by (cases q) (auto simp: bit_drop_bit_eq)
  have bot: "bit (push_bit 56 v) (8 * q + r) \<longleftrightarrow> q = 7 \<and> bit v r"
    using q r by (cases "q = 7") (auto simp: bit_push_bit_iff)
  have down: "bit (drop_bit 40 (v AND push_bit 48 (mask 8))) (8 * q + r) \<longleftrightarrow> q = 1 \<and> bit v (48 + r)"
    "bit (drop_bit 24 (v AND push_bit 40 (mask 8))) (8 * q + r) \<longleftrightarrow> q = 2 \<and> bit v (40 + r)"
    "bit (drop_bit 8 (v AND push_bit 32 (mask 8))) (8 * q + r) \<longleftrightarrow> q = 3 \<and> bit v (32 + r)"
    using bit_lane_down [OF r, of 6 5 v q] bit_lane_down [OF r, of 5 3 v q] bit_lane_down [OF r, of 4 1 v q] r
    by auto
  have ups: "bit (push_bit 8 (v AND push_bit 24 (mask 8))) (8 * q + r) \<longleftrightarrow> q = 4 \<and> bit v (24 + r)"
    "bit (push_bit 24 (v AND push_bit 16 (mask 8))) (8 * q + r) \<longleftrightarrow> q = 5 \<and> bit v (16 + r)"
    "bit (push_bit 40 (v AND push_bit 8 (mask 8))) (8 * q + r) \<longleftrightarrow> q = 6 \<and> bit v (8 + r)"
    using up [of 1 v 3] up [of 3 v 2] up [of 5 v 1] by auto
  consider "q = 0" | "q = 1" | "q = 2" | "q = 3" | "q = 4" | "q = 5" | "q = 6" | "q = 7"
    using q by linarith
  then show ?thesis
    unfolding swap64_def byte_masks bit_or_iff top bot down ups
    by cases simp_all
qed

lemma swap64_rev:
  assumes "length bs = 8"
  shows "swap64 (of_bytes (rev bs)) = of_bytes bs"
proof (rule bit_word_eqI)
  fix n assume "n < LENGTH(64)"
  then have n: "n div 8 < 8" "n mod 8 < 8" by (simp_all add: div_less_iff_less_mult)
  have "bit (swap64 (of_bytes (rev bs))) n = bit (of_bytes (rev bs) :: u64) (8 * (7 - n div 8) + n mod 8)"
    using bit_swap64 [OF n] by simp
  also have "8 * (7 - n div 8) + n mod 8 < 64" using n by linarith
  then have "bit (of_bytes (rev bs) :: u64) (8 * (7 - n div 8) + n mod 8) = bit (of_bytes bs :: u64) n"
    using n assms by (simp add: bit_of_bytes rev_nth div_less_iff_less_mult)
  finally show "bit (swap64 (of_bytes (rev bs))) n = bit (of_bytes bs :: u64) n" .
qed

lemma ntoh64_load64: "length bs = 8 \<Longrightarrow> ntoh64 be (load64 be bs) = of_bytes bs"
  by (simp add: ntoh64_def load64_def host_order_def swap64_rev)

lemma ntohs_load16: "ntohs be (load16 be [a, b]) = push_bit 8 (ucast a) OR ucast b"
proof -
  have "push_bit 8 (push_bit 8 (ucast b) OR ucast a) OR drop_bit 8 (push_bit 8 (ucast b) OR ucast a :: u16) =
      push_bit 8 (ucast a) OR ucast b"
    by (rule bit_word_eqI) (auto simp: bit_simps dest: bit_imp_le_length)
  then show ?thesis by (simp add: ntohs_def load16_def host_order_def of_bytes_def)
qed

section \<open>Frames\<close>

definition FRAME_CONTINUATION :: "4 word" where "FRAME_CONTINUATION = 0x00"
definition FRAME_TEXT :: "4 word" where "FRAME_TEXT = 0x01"
definition FRAME_BINARY :: "4 word" where "FRAME_BINARY = 0x02"
definition FRAME_CLOSE :: "4 word" where "FRAME_CLOSE = 0x08"
definition FRAME_PING :: "4 word" where "FRAME_PING = 0x09"
definition FRAME_PONG :: "4 word" where "FRAME_PONG = 0x0A"

record frame_header =
  fh_fin :: bool
  fh_rsv1 :: bool
  fh_rsv2 :: bool
  fh_rsv3 :: bool
  fh_opcode :: "4 word"
  fh_mask :: bool
  fh_payload_len :: u64
  fh_masking_key :: u32

datatype ws_stat = WS_HEAD_2BYTES | WS_HEAD_LEN_2BYTES | WS_HEAD_LEN_8BYTES
  | WS_HEAD_MASKING_KEY | WS_HEAD_FINISH

text \<open>
  \<open>ws_header_buf\<close> is the allocated buffer (its length is \<^verbatim>\<open>header_size_\<close>), \<open>ws_peek_buf\<close> is
  \<^const>\<open>None\<close> while \<^verbatim>\<open>peek_buf_\<close> is NULL, and \<open>ws_out\<close> collects what was written to the stream.
\<close>

record websocket =
  ws_header :: frame_header
  ws_header_buf :: "byte list"
  ws_header_len :: nat
  ws_payload_nread :: u64
  ws_payload_nsent :: u64
  ws_header_sent :: bool
  ws_status :: ws_stat
  ws_peek_buf :: "byte list option"
  ws_out :: "byte list"

definition frame_header_new :: frame_header where
  "frame_header_new = \<lparr>fh_fin = False, fh_rsv1 = False, fh_rsv2 = False, fh_rsv3 = False,
     fh_opcode = FRAME_TEXT, fh_mask = False, fh_payload_len = 0, fh_masking_key = 0\<rparr>"

definition ws_reset :: "websocket \<Rightarrow> websocket" where
  "ws_reset ws = ws\<lparr>
     ws_header := (ws_header ws)\<lparr>fh_fin := False, fh_rsv1 := False, fh_rsv2 := False,
       fh_rsv3 := False, fh_opcode := FRAME_TEXT, fh_payload_len := 0\<rparr>,
     ws_payload_nread := 0, ws_payload_nsent := 0, ws_header_sent := False,
     ws_status := WS_HEAD_2BYTES,
     ws_peek_buf := (case ws_peek_buf ws of None \<Rightarrow> None | Some _ \<Rightarrow> Some [])\<rparr>"

definition websocket_new :: websocket where
  "websocket_new = ws_reset \<lparr>ws_header = frame_header_new, ws_header_buf = [], ws_header_len = 0,
     ws_payload_nread = 0, ws_payload_nsent = 0, ws_header_sent = False,
     ws_status = WS_HEAD_2BYTES, ws_peek_buf = None, ws_out = []\<rparr>"

definition set_frame_fin :: "bool \<Rightarrow> websocket \<Rightarrow> websocket" where
  "set_frame_fin yes ws = ws\<lparr>ws_header := (ws_header ws)\<lparr>fh_fin := yes\<rparr>\<rparr>"

definition set_frame_rsv1 :: "bool \<Rightarrow> websocket \<Rightarrow> websocket" where
  "set_frame_rsv1 yes ws = ws\<lparr>ws_header := (ws_header ws)\<lparr>fh_rsv1 := yes\<rparr>\<rparr>"

definition set_frame_rsv2 :: "bool \<Rightarrow> websocket \<Rightarrow> websocket" where
  "set_frame_rsv2 yes ws = ws\<lparr>ws_header := (ws_header ws)\<lparr>fh_rsv2 := yes\<rparr>\<rparr>"

definition set_frame_rsv3 :: "bool \<Rightarrow> websocket \<Rightarrow> websocket" where
  "set_frame_rsv3 yes ws = ws\<lparr>ws_header := (ws_header ws)\<lparr>fh_rsv3 := yes\<rparr>\<rparr>"

definition set_frame_opcode :: "byte \<Rightarrow> websocket \<Rightarrow> websocket" where
  "set_frame_opcode t ws = ws\<lparr>ws_header := (ws_header ws)\<lparr>fh_opcode := ucast t\<rparr>\<rparr>"

definition set_frame_payload_len :: "u64 \<Rightarrow> websocket \<Rightarrow> websocket" where
  "set_frame_payload_len len ws = ws\<lparr>ws_header := (ws_header ws)\<lparr>fh_payload_len := len\<rparr>\<rparr>"

definition set_frame_masking_key :: "u32 \<Rightarrow> websocket \<Rightarrow> websocket" where
  "set_frame_masking_key key ws =
     ws\<lparr>ws_header := (ws_header ws)\<lparr>fh_masking_key := key, fh_mask := (key \<noteq> 0)\<rparr>\<rparr>"

section \<open>Writing a frame\<close>

text \<open>
  The bytes that \<^verbatim>\<open>make_frame_header\<close> stores, and the length it sets \<^verbatim>\<open>header_len_\<close> to. The
  two are computed by different conditions: a masked frame without payload counts four bytes
  of a key that is not stored.
\<close>

definition frame_header_len :: "frame_header \<Rightarrow> nat" where
  "frame_header_len h =
     2 + (if fh_payload_len h > 65535 then 8 else if fh_payload_len h \<ge> 126 then 2 else 0)
       + (if fh_mask h then 4 else 0)"

definition frame_header_bytes :: "frame_header \<Rightarrow> byte list" where
  "frame_header_bytes h =
     (let b0 = (if fh_fin h then 0x80 else 0x00) OR ucast (fh_opcode h);
          b1 = (if fh_payload_len h \<noteq> 0 \<and> fh_mask h then 0x80 else 0x00);
          n = fh_payload_len h;
          len = (if n \<le> 125 then [b1 OR ucast (n AND 0xff)]
                 else if n \<le> 65535 then
                   [b1 OR 126, ucast (drop_bit 8 n) AND 0xff, ucast n AND 0xff]
                 else (b1 OR 127) # bytes64 n);
          key = (if n > 0 \<and> fh_mask h then bytes32 (fh_masking_key h) else [])
      in b0 # len @ key)"

text \<open>\<open>junk\<close> is the content of memory that \<^verbatim>\<open>realloc\<close> adds.\<close>

definition make_frame_header :: "bool \<Rightarrow> (nat \<Rightarrow> byte) \<Rightarrow> websocket \<Rightarrow> websocket" where
  "make_frame_header be junk ws =
     (let h = ws_header ws;
          hlen = frame_header_len h;
          buf = (if hlen > length (ws_header_buf ws)
                 then ws_header_buf ws @ map junk [length (ws_header_buf ws)..<hlen]
                 else ws_header_buf ws);
          bs = frame_header_bytes h;
          h' = (if fh_payload_len h > 0 \<and> fh_mask h
                then h\<lparr>fh_masking_key := load32 be (drop (length bs - 4) bs)\<rparr> else h)
      in ws\<lparr>ws_header_len := hlen, ws_header_buf := put_at buf 0 bs, ws_header := h'\<rparr>)"

text \<open>The loop that masks and unmasks, for data at offset \<open>off\<close> of the payload.\<close>

definition xor_mask :: "byte list \<Rightarrow> u64 \<Rightarrow> byte list \<Rightarrow> byte list" where
  "xor_mask key off data =
     map (\<lambda>i. data ! i XOR key ! (unat (off + word_of_nat i) mod 4)) [0..<length data]"

text \<open>
  \<open>wr\<close> is whether a write to the stream succeeds; \<open>data\<close> is \<^const>\<open>None\<close> for NULL. The result
  holds the caller's buffer too, since the data are masked in place.
\<close>

definition send_frame_data ::
  "bool \<Rightarrow> (nat \<Rightarrow> byte) \<Rightarrow> (byte list \<Rightarrow> bool) \<Rightarrow> byte list option \<Rightarrow> websocket \<Rightarrow>
   websocket \<times> byte list option \<times> bool" where
  "send_frame_data be junk wr data ws =
     (let sent = ws_header_sent ws;
          ws1 = (if \<not> sent then make_frame_header be junk (ws\<lparr>ws_header_sent := True\<rparr>) else ws);
          hdr = take (ws_header_len ws1) (ws_header_buf ws1)
      in if \<not> sent \<and> \<not> wr hdr then (ws1, data, False)
         else
           let ws2 = (if \<not> sent then ws1\<lparr>ws_out := ws_out ws1 @ hdr\<rparr> else ws1) in
           case data of
             None \<Rightarrow> (ws2, data, True)
           | Some d \<Rightarrow>
               if d = [] then (ws2, data, True)
               else if ws_payload_nsent ws2 + word_of_nat (length d) > fh_payload_len (ws_header ws2)
               then (ws2, data, False)
               else
                 let d' = (if fh_mask (ws_header ws2)
                           then xor_mask (mem32 be (fh_masking_key (ws_header ws2))) (ws_payload_nsent ws2) d
                           else d)
                 in if \<not> wr d' then (ws2, Some d', False)
                    else (ws2\<lparr>ws_out := ws_out ws2 @ d',
                              ws_payload_nsent := ws_payload_nsent ws2 + word_of_nat (length d)\<rparr>,
                          Some d', True))"

text \<open>The variants that copy the caller's data first leave it as it was.\<close>

definition send_frame_data_const ::
  "bool \<Rightarrow> (nat \<Rightarrow> byte) \<Rightarrow> (byte list \<Rightarrow> bool) \<Rightarrow> byte list option \<Rightarrow> websocket \<Rightarrow> websocket \<times> bool" where
  "send_frame_data_const be junk wr data ws =
     (case send_frame_data be junk wr data ws of (ws', _, ok) \<Rightarrow> (ws', ok))"

definition send_frame_str ::
  "bool \<Rightarrow> (nat \<Rightarrow> byte) \<Rightarrow> (byte list \<Rightarrow> bool) \<Rightarrow> byte list option \<Rightarrow> websocket \<Rightarrow> websocket \<times> bool" where
  "send_frame_str be junk wr s ws = send_frame_data_const be junk wr (map_option cstr s) ws"

definition send_frame_pong ::
  "bool \<Rightarrow> (nat \<Rightarrow> byte) \<Rightarrow> (byte list \<Rightarrow> bool) \<Rightarrow> byte list option \<Rightarrow> websocket \<Rightarrow>
   websocket \<times> byte list option \<times> bool" where
  "send_frame_pong be junk wr data ws =
     send_frame_data be junk wr data
       (set_frame_payload_len (case data of None \<Rightarrow> 0 | Some d \<Rightarrow> word_of_nat (length d))
         (set_frame_opcode (ucast FRAME_PONG) (set_frame_fin True (ws_reset ws))))"

definition send_frame_ping ::
  "bool \<Rightarrow> (nat \<Rightarrow> byte) \<Rightarrow> (byte list \<Rightarrow> bool) \<Rightarrow> byte list option \<Rightarrow> websocket \<Rightarrow>
   websocket \<times> byte list option \<times> bool" where
  "send_frame_ping be junk wr data ws =
     send_frame_data be junk wr data
       (set_frame_payload_len (case data of None \<Rightarrow> 0 | Some d \<Rightarrow> word_of_nat (length d))
         (set_frame_opcode (ucast FRAME_PING) (set_frame_fin True (ws_reset ws))))"

text \<open>
  The event-driven stream takes every write, so that its \<^verbatim>\<open>send_frame_data\<close> is the blocking one
  on a stream whose writes succeed.
\<close>

definition aio_send_frame_data ::
  "bool \<Rightarrow> (nat \<Rightarrow> byte) \<Rightarrow> byte list option \<Rightarrow> websocket \<Rightarrow> websocket \<times> byte list option \<times> bool" where
  "aio_send_frame_data be junk data ws = send_frame_data be junk (\<lambda>_. True) data ws"

definition aio_send_frame ::
  "4 word \<Rightarrow> bool \<Rightarrow> (nat \<Rightarrow> byte) \<Rightarrow> byte list option \<Rightarrow> websocket \<Rightarrow> websocket \<times> byte list option \<times> bool" where
  "aio_send_frame opcode be junk data ws =
     aio_send_frame_data be junk data
       (set_frame_payload_len (case data of None \<Rightarrow> 0 | Some d \<Rightarrow> word_of_nat (length d))
         (set_frame_opcode (ucast opcode) (set_frame_fin True (ws_reset ws))))"

definition send_frame_text_aio where "send_frame_text_aio = aio_send_frame FRAME_TEXT"
definition send_frame_binary_aio where "send_frame_binary_aio = aio_send_frame FRAME_BINARY"
definition send_frame_ping_aio where "send_frame_ping_aio = aio_send_frame FRAME_PING"
definition send_frame_pong_aio where "send_frame_pong_aio = aio_send_frame FRAME_PONG"

section \<open>Reading from a blocking stream\<close>

definition update_head_2bytes :: "byte \<Rightarrow> byte \<Rightarrow> websocket \<Rightarrow> websocket" where
  "update_head_2bytes ch1 ch2 ws = ws\<lparr>ws_header := (ws_header ws)\<lparr>
     fh_fin := (drop_bit 7 ch1 AND 0x01 \<noteq> 0), fh_rsv1 := (drop_bit 6 ch1 AND 0x01 \<noteq> 0),
     fh_rsv2 := (drop_bit 5 ch1 AND 0x01 \<noteq> 0), fh_rsv3 := (drop_bit 4 ch1 AND 0x01 \<noteq> 0),
     fh_opcode := ucast (ch1 AND 0x0f), fh_mask := (drop_bit 7 ch2 AND 0x01 \<noteq> 0),
     fh_payload_len := ucast (ch2 AND 0x7f)\<rparr>\<rparr>"

definition set_payload_len_of :: "bool \<Rightarrow> byte list \<Rightarrow> websocket \<Rightarrow> websocket" where
  "set_payload_len_of be buf ws = ws\<lparr>ws_header := (ws_header ws)\<lparr>fh_payload_len :=
     (if length buf = 2 then ucast (ntohs be (load16 be buf)) else ntoh64 be (load64 be buf))\<rparr>\<rparr>"

text \<open>
  \<open>rd\<close> is the blocking read of a given number of bytes, as for the MQTT client; \<^const>\<open>None\<close> for
  the stream after stands for the result false.
\<close>

definition read_masking_key ::
  "bool \<Rightarrow> 'c reader \<Rightarrow> websocket \<Rightarrow> 'c \<Rightarrow> websocket \<times> 'c option" where
  "read_masking_key be rd ws c =
     (if \<not> fh_mask (ws_header ws) then (ws, Some c)
      else case rd c 4 of
        None \<Rightarrow> (ws, None)
      | Some (buf, c') \<Rightarrow>
          (ws\<lparr>ws_header := (ws_header ws)\<lparr>fh_masking_key := load32 be buf\<rparr>\<rparr>, Some c'))"

definition read_frame_head ::
  "bool \<Rightarrow> 'c reader \<Rightarrow> websocket \<Rightarrow> 'c \<Rightarrow> websocket \<times> 'c option" where
  "read_frame_head be rd ws c =
     (let ws0 = ws_reset ws in
      case rd c 2 of
        None \<Rightarrow> (ws0, None)
      | Some (buf, c1) \<Rightarrow>
          let ws1 = update_head_2bytes (buf ! 0) (buf ! 1) ws0;
              count = (if fh_payload_len (ws_header ws1) = 126 then 2
                       else if fh_payload_len (ws_header ws1) > 126 then 8 else 0)
          in if count > 0 then
               (case rd c1 count of
                  None \<Rightarrow> (ws1, None)
                | Some (ext, c2) \<Rightarrow> read_masking_key be rd (set_payload_len_of be ext ws1) c2)
             else read_masking_key be rd ws1 c1)"

text \<open>\<open>rd1\<close> is the read that gives what is there, up to a number of bytes.\<close>

definition read_frame_data ::
  "bool \<Rightarrow> 'c reader \<Rightarrow> nat \<Rightarrow> websocket \<Rightarrow> 'c \<Rightarrow>
   websocket \<times> (byte list \<times> 'c) option" where
  "read_frame_data be rd1 len ws c =
     (if ws_payload_nread ws \<ge> fh_payload_len (ws_header ws) then (ws, Some ([], c))
      else
        let left = fh_payload_len (ws_header ws) - ws_payload_nread ws;
            n = (if fh_payload_len (ws_header ws) < ws_payload_nread ws + word_of_nat len
                 then unat left else len)
        in case rd1 c n of
             None \<Rightarrow> (ws, None)
           | Some (buf, c') \<Rightarrow>
               let buf' = (if fh_mask (ws_header ws)
                           then xor_mask (mem32 be (fh_masking_key (ws_header ws))) (ws_payload_nread ws) buf
                           else buf)
               in (ws\<lparr>ws_payload_nread := ws_payload_nread ws + word_of_nat (length buf)\<rparr>,
                   Some (buf', c')))"

section \<open>Reading the header as bytes arrive\<close>

text \<open>
  \<open>readn_peek buf n avail\<close> is \<^verbatim>\<open>istream::readn_peek\<close> on the bytes \<open>avail\<close> that have arrived: it
  moves up to \<open>n\<close> of them to the end of the buffer and says whether it got all. The count is
  passed on as an \<^verbatim>\<open>int\<close>, and \<^const>\<open>None\<close> is the fatal error for one that is not positive.
\<close>

definition readn_peek :: "byte list \<Rightarrow> nat \<Rightarrow> byte list \<Rightarrow> (byte list \<times> byte list \<times> bool) option" where
  "readn_peek buf n avail =
     (let cnt = sint (word_of_nat n :: 32 word) in
      if cnt \<le> 0 then None
      else Some (buf @ take (nat cnt) avail, drop (nat cnt) avail, nat cnt \<le> length avail))"

text \<open>
  One of the four \<^verbatim>\<open>peek_head_...\<close> functions: \<open>n\<close> is the size of its field and \<open>k\<close> what it does
  with the complete field, before the buffer is cleared. A buffer that is already full is
  \<^verbatim>\<open>logger_fatal\<close>, which ends the process.
\<close>

definition peek_field ::
  "nat \<Rightarrow> (byte list \<Rightarrow> websocket \<Rightarrow> websocket) \<Rightarrow> websocket \<Rightarrow> byte list \<Rightarrow> websocket hres" where
  "peek_field n k ws avail =
     (case ws_peek_buf ws of
        None \<Rightarrow> Abort
      | Some pb \<Rightarrow>
          if n \<le> length pb then Abort
          else case readn_peek pb (n - length pb) avail of
            None \<Rightarrow> Abort
          | Some (pb', rest, ready) \<Rightarrow>
              if \<not> ready then Ret (ws\<lparr>ws_peek_buf := Some pb'\<rparr>) rest
              else Ret ((k pb' ws)\<lparr>ws_peek_buf := Some []\<rparr>) rest)"

definition after_len :: "websocket \<Rightarrow> websocket" where
  "after_len ws = ws\<lparr>ws_status := (if fh_mask (ws_header ws) then WS_HEAD_MASKING_KEY else WS_HEAD_FINISH)\<rparr>"

definition peek_head_2bytes :: "websocket \<Rightarrow> byte list \<Rightarrow> websocket hres" where
  "peek_head_2bytes = peek_field 2 (\<lambda>s ws.
     let ws' = update_head_2bytes (s ! 0) (s ! 1) ws in
     ws'\<lparr>ws_status :=
       (if fh_payload_len (ws_header ws') = 126 then WS_HEAD_LEN_2BYTES
        else if fh_payload_len (ws_header ws') > 126 then WS_HEAD_LEN_8BYTES
        else if fh_mask (ws_header ws') then WS_HEAD_MASKING_KEY else WS_HEAD_FINISH)\<rparr>)"

definition peek_head_len_2bytes :: "bool \<Rightarrow> websocket \<Rightarrow> byte list \<Rightarrow> websocket hres" where
  "peek_head_len_2bytes be = peek_field 2 (\<lambda>s ws. after_len
     (ws\<lparr>ws_header := (ws_header ws)\<lparr>fh_payload_len := ucast (ntohs be (load16 be s))\<rparr>\<rparr>))"

definition peek_head_len_8bytes :: "bool \<Rightarrow> websocket \<Rightarrow> byte list \<Rightarrow> websocket hres" where
  "peek_head_len_8bytes be = peek_field 8 (\<lambda>s ws. after_len
     (ws\<lparr>ws_header := (ws_header ws)\<lparr>fh_payload_len := ntoh64 be (load64 be s)\<rparr>\<rparr>))"

definition peek_head_masking_key :: "bool \<Rightarrow> websocket \<Rightarrow> byte list \<Rightarrow> websocket hres" where
  "peek_head_masking_key be = peek_field 4 (\<lambda>s ws.
     ws\<lparr>ws_header := (ws_header ws)\<lparr>fh_masking_key := load32 be s\<rparr>, ws_status := WS_HEAD_FINISH\<rparr>)"

definition peek_handler :: "bool \<Rightarrow> websocket \<Rightarrow> byte list \<Rightarrow> websocket hres" where
  "peek_handler be ws =
     (case ws_status ws of
        WS_HEAD_2BYTES \<Rightarrow> peek_head_2bytes ws
      | WS_HEAD_LEN_2BYTES \<Rightarrow> peek_head_len_2bytes be ws
      | WS_HEAD_LEN_8BYTES \<Rightarrow> peek_head_len_8bytes be ws
      | WS_HEAD_MASKING_KEY \<Rightarrow> peek_head_masking_key be ws
      | WS_HEAD_FINISH \<Rightarrow> Ret ws)"

definition is_head_finish :: "websocket \<Rightarrow> bool" where
  "is_head_finish ws \<longleftrightarrow> ws_status ws = WS_HEAD_FINISH"

text \<open>
  The loop of \<^verbatim>\<open>peek_frame_head\<close> calls the function of the state until one finds too few bytes
  or the header is complete; a call that finds none leaves everything as it is. Whether it
  returned true is \<open>is_head_finish\<close> of the result.
\<close>

definition peek_frame_head :: "bool \<Rightarrow> websocket \<Rightarrow> byte list \<Rightarrow> websocket hres option" where
  "peek_frame_head be ws avail =
     update_loop is_head_finish (peek_handler be)
       (if ws_peek_buf ws = None then ws\<lparr>ws_peek_buf := Some []\<rparr> else ws) avail"

text \<open>
  The two \<^verbatim>\<open>peek_frame_data\<close>: into the caller's memory, through \<^verbatim>\<open>peek_buf_\<close>, and to the
  end of a string (here the bytes added to it). \<open>Peeked\<close> holds the data that the caller
  gets, \<^const>\<open>None\<close> for the result -1; \<open>PeekAbort\<close> is a fatal error or a failed assertion.
\<close>

datatype peeked = PeekAbort | Peeked websocket "byte list option" "byte list"

definition peek_left :: "nat \<Rightarrow> websocket \<Rightarrow> nat" where
  "peek_left len ws =
     (if fh_payload_len (ws_header ws) < ws_payload_nread ws + word_of_nat len
      then unat (fh_payload_len (ws_header ws) - ws_payload_nread ws) else len)"

definition unmask :: "bool \<Rightarrow> websocket \<Rightarrow> byte list \<Rightarrow> byte list" where
  "unmask be ws d =
     (if fh_mask (ws_header ws)
      then xor_mask (mem32 be (fh_masking_key (ws_header ws))) (ws_payload_nread ws) d else d)"

definition peek_frame_data_buf :: "bool \<Rightarrow> nat \<Rightarrow> websocket \<Rightarrow> byte list \<Rightarrow> peeked" where
  "peek_frame_data_buf be len ws avail =
     (if ws_payload_nread ws \<ge> fh_payload_len (ws_header ws) then Peeked (ws_reset ws) (Some []) avail
      else case ws_peek_buf ws of
        None \<Rightarrow> PeekAbort
      | Some _ \<Rightarrow>
         (case readn_peek [] (peek_left len ws) avail of
            None \<Rightarrow> PeekAbort
          | Some (d, rest, ready) \<Rightarrow>
              let ws1 = ws\<lparr>ws_peek_buf := Some d\<rparr> in
              if \<not> ready \<and> d = [] then Peeked ws1 None rest
              else if d = [] then PeekAbort
              else Peeked (ws1\<lparr>ws_payload_nread := ws_payload_nread ws + word_of_nat (length d)\<rparr>)
                     (Some (unmask be ws d)) rest))"

definition peek_frame_data_str :: "bool \<Rightarrow> nat \<Rightarrow> websocket \<Rightarrow> byte list \<Rightarrow> peeked" where
  "peek_frame_data_str be len ws avail =
     (if ws_payload_nread ws \<ge> fh_payload_len (ws_header ws) then Peeked (ws_reset ws) (Some []) avail
      else case readn_peek [] (peek_left len ws) avail of
        None \<Rightarrow> PeekAbort
      | Some (d, rest, ready) \<Rightarrow>
          if \<not> ready \<and> d = [] then Peeked ws None rest
          else if d = [] then PeekAbort
          else Peeked (ws\<lparr>ws_payload_nread := ws_payload_nread ws + word_of_nat (length d)\<rparr>)
                 (Some (unmask be ws d)) rest)"

lemma readn_peek_small:
  assumes "0 < n" "n < 2 ^ 31"
  shows "readn_peek buf n avail = Some (buf @ take n avail, drop n avail, n \<le> length avail)"
proof -
  have "sint (word_of_nat n :: 32 word) = int n"
    using assms by (simp add: signed_of_nat signed_take_bit_int_eq_self)
  with assms show ?thesis by (simp add: readn_peek_def)
qed

section \<open>The peeking reader meets the streaming contract\<close>

definition peek_need :: "ws_stat \<Rightarrow> nat" where
  "peek_need st = (case st of WS_HEAD_2BYTES \<Rightarrow> 2 | WS_HEAD_LEN_2BYTES \<Rightarrow> 2
     | WS_HEAD_LEN_8BYTES \<Rightarrow> 8 | WS_HEAD_MASKING_KEY \<Rightarrow> 4 | WS_HEAD_FINISH \<Rightarrow> 1)"

lemma peek_need_bounds [simp]: "0 < peek_need st" "peek_need st \<le> 8"
  by (simp_all add: peek_need_def split: ws_stat.split)

definition peek_inv :: "websocket \<Rightarrow> bool" where
  "peek_inv ws \<longleftrightarrow> (case ws_peek_buf ws of None \<Rightarrow> False | Some pb \<Rightarrow> length pb < peek_need (ws_status ws))"

lemma peek_field_eq:
  assumes "ws_peek_buf ws = Some pb" "length pb < n" "n \<le> 8"
  shows "peek_field n k ws xs =
    (if n \<le> length pb + length xs
     then Ret ((k (pb @ take (n - length pb) xs) ws)\<lparr>ws_peek_buf := Some []\<rparr>) (drop (n - length pb) xs)
     else Ret (ws\<lparr>ws_peek_buf := Some (pb @ xs)\<rparr>) [])"
  using assms readn_peek_small [of "n - length pb" pb xs]
  by (auto simp: peek_field_def)

text \<open>What each state does with its field.\<close>

definition peek_apply :: "bool \<Rightarrow> ws_stat \<Rightarrow> byte list \<Rightarrow> websocket \<Rightarrow> websocket" where
  "peek_apply be st s ws =
     (case st of
        WS_HEAD_2BYTES \<Rightarrow>
          (let ws' = update_head_2bytes (s ! 0) (s ! 1) ws in
           ws'\<lparr>ws_status :=
             (if fh_payload_len (ws_header ws') = 126 then WS_HEAD_LEN_2BYTES
              else if fh_payload_len (ws_header ws') > 126 then WS_HEAD_LEN_8BYTES
              else if fh_mask (ws_header ws') then WS_HEAD_MASKING_KEY else WS_HEAD_FINISH)\<rparr>)
      | WS_HEAD_LEN_2BYTES \<Rightarrow> after_len
          (ws\<lparr>ws_header := (ws_header ws)\<lparr>fh_payload_len := ucast (ntohs be (load16 be s))\<rparr>\<rparr>)
      | WS_HEAD_LEN_8BYTES \<Rightarrow> after_len
          (ws\<lparr>ws_header := (ws_header ws)\<lparr>fh_payload_len := ntoh64 be (load64 be s)\<rparr>\<rparr>)
      | WS_HEAD_MASKING_KEY \<Rightarrow>
          ws\<lparr>ws_header := (ws_header ws)\<lparr>fh_masking_key := load32 be s\<rparr>, ws_status := WS_HEAD_FINISH\<rparr>
      | WS_HEAD_FINISH \<Rightarrow> ws)"

lemma peek_handler_field:
  "ws_status ws \<noteq> WS_HEAD_FINISH \<Longrightarrow>
   peek_handler be ws xs = peek_field (peek_need (ws_status ws)) (peek_apply be (ws_status ws)) ws xs"
  by (cases "ws_status ws")
    (simp_all add: peek_handler_def peek_need_def peek_apply_def [abs_def] peek_head_2bytes_def
      peek_head_len_2bytes_def peek_head_len_8bytes_def peek_head_masking_key_def)

lemma peek_apply_buf:
  "(peek_apply be st s (ws\<lparr>ws_peek_buf := b\<rparr>))\<lparr>ws_peek_buf := c\<rparr> = (peek_apply be st s ws)\<lparr>ws_peek_buf := c\<rparr>"
  by (cases st) (simp_all add: peek_apply_def update_head_2bytes_def after_len_def Let_def)

lemma peek_handler_eq:
  assumes "peek_inv ws" "\<not> is_head_finish ws"
  obtains pb where "ws_peek_buf ws = Some pb" "length pb < peek_need (ws_status ws)"
    "\<And>xs. peek_handler be ws xs =
      (if peek_need (ws_status ws) \<le> length pb + length xs
       then Ret ((peek_apply be (ws_status ws) (pb @ take (peek_need (ws_status ws) - length pb) xs) ws)
               \<lparr>ws_peek_buf := Some []\<rparr>) (drop (peek_need (ws_status ws) - length pb) xs)
       else Ret (ws\<lparr>ws_peek_buf := Some (pb @ xs)\<rparr>) [])"
proof -
  obtain pb where pb: "ws_peek_buf ws = Some pb" "length pb < peek_need (ws_status ws)"
    using assms(1) by (auto simp: peek_inv_def split: option.splits)
  from assms(2) have "ws_status ws \<noteq> WS_HEAD_FINISH" by (simp add: is_head_finish_def)
  with pb show thesis
    using that peek_field_eq [OF pb peek_need_bounds(2)] by (auto simp: peek_handler_field)
qed

interpretation peek: progressing is_head_finish "peek_handler be" peek_inv "\<lambda>_. 0" for be
proof
  fix ws ws' and xs rest :: "byte list"
  assume inv: "peek_inv ws" "\<not> is_head_finish ws" and xs: "xs \<noteq> []"
  obtain pb where pb: "ws_peek_buf ws = Some pb" "length pb < peek_need (ws_status ws)"
    and h: "\<And>xs. peek_handler be ws xs =
      (if peek_need (ws_status ws) \<le> length pb + length xs
       then Ret ((peek_apply be (ws_status ws) (pb @ take (peek_need (ws_status ws) - length pb) xs) ws)
               \<lparr>ws_peek_buf := Some []\<rparr>) (drop (peek_need (ws_status ws) - length pb) xs)
       else Ret (ws\<lparr>ws_peek_buf := Some (pb @ xs)\<rparr>) [])"
    using peek_handler_eq [OF inv] by metis
  show "peek_inv ws'" if "peek_handler be ws xs = Ret ws' rest"
    using that pb by (auto simp: h peek_inv_def split: if_splits)
  show "length rest < length xs \<or> length rest = length xs \<and> (0::nat) < 0"
    if "peek_handler be ws xs = Ret ws' rest"
    using that pb xs by (auto simp: h split: if_splits)
  show "cut_ok is_head_finish (peek_handler be) ws xs"
  proof (cases "peek_need (ws_status ws) \<le> length pb + length xs")
    case True
    then show ?thesis by (intro cut_ok_done) (auto simp: h)
  next
    case False
    let ?ws = "ws\<lparr>ws_peek_buf := Some (pb @ xs)\<rparr>"
    have inv': "peek_inv ?ws" "\<not> is_head_finish ?ws"
      using False inv by (auto simp: peek_inv_def is_head_finish_def)
    show ?thesis
    proof (rule cut_ok_pending)
      show "peek_handler be ws xs = Ret ?ws []" using False by (simp add: h)
      show "\<not> is_head_finish ?ws" by (rule inv')
      fix ys :: "byte list" assume "ys \<noteq> []"
      obtain pb' where pb': "ws_peek_buf ?ws = Some pb'"
        and h': "\<And>xs. peek_handler be ?ws xs =
          (if peek_need (ws_status ?ws) \<le> length pb' + length xs
           then Ret ((peek_apply be (ws_status ?ws) (pb' @ take (peek_need (ws_status ?ws) - length pb') xs) ?ws)
                   \<lparr>ws_peek_buf := Some []\<rparr>) (drop (peek_need (ws_status ?ws) - length pb') xs)
           else Ret (?ws\<lparr>ws_peek_buf := Some (pb' @ xs)\<rparr>) [])"
        using peek_handler_eq [OF inv'] by metis
      define n where "n = peek_need (ws_status ws)"
      from pb' have [simp]: "pb' = pb @ xs" by simp
      have "take (n - length pb) (xs @ ys) = xs @ take (n - (length pb + length xs)) ys"
        "drop (n - length pb) (xs @ ys) = drop (n - (length pb + length xs)) ys"
        using False by (simp_all add: n_def diff_diff_left)
      then show "peek_handler be ws (xs @ ys) = peek_handler be ?ws ys"
        unfolding h h' n_def [symmetric]
        by (simp add: peek_apply_buf n_def [symmetric])
    qed
  qed
qed

end
