(* ===== verification/WebsocketWire.thy ===== *)
theory WebsocketWire
  imports Websocket
begin

text \<open>
  A frame header on the wire: the bytes that \<^verbatim>\<open>make_frame_header\<close> writes are read back by the
  blocking reader and, in any pieces, by the peeking one; the mask is undone by itself.
\<close>

section \<open>The bytes of a header\<close>

lemma and_one_bit: "(drop_bit k w AND 0x01 \<noteq> (0::'a::len word)) = bit w k"
  by (simp add: bit_iff_odd_drop_bit and_one_eq odd_iff_mod_2_eq_one)

lemma small_word_bits:
  assumes "(w::'a::len word) < 2 ^ m" "m < LENGTH('a)" "bit w k"
  shows "k < m"
proof -
  have "(2 ^ m :: 'a word) = word_of_nat (2 ^ m)" by simp
  then have "unat (2 ^ m :: 'a word) = 2 ^ m"
    using assms(2) by (simp only: unsigned_of_nat) (simp add: take_bit_nat_eq_self)
  then have "unat w < 2 ^ m" using assms(1) by (simp add: word_less_nat_alt)
  moreover have "bit (unat w) k" using assms(3) by (simp add: bit_unsigned_iff)
  then have "2 ^ k \<le> unat w" by (cases "unat w < 2 ^ k") (simp_all add: bit_iff_odd)
  ultimately have "(2::nat) ^ k < 2 ^ m" by linarith
  then show ?thesis by simp
qed

definition head0 :: "frame_header \<Rightarrow> byte" where
  "head0 h = (if fh_fin h then 0x80 else 0x00) OR ucast (fh_opcode h)"

lemma bit_head0: "bit (head0 h) k \<longleftrightarrow> k = 7 \<and> fh_fin h \<or> bit (fh_opcode h) k"
proof -
  have "(0x80 :: byte) = push_bit 7 1" by simp
  then show ?thesis
    using bit_imp_le_length [of "fh_opcode h" k]
    by (auto simp: head0_def bit_or_iff bit_push_bit_iff bit_unsigned_iff bit_1_iff)
qed

lemma head0_fields:
  "(drop_bit 7 (head0 h) AND 0x01 \<noteq> 0) = fh_fin h"
  "drop_bit 6 (head0 h) AND 0x01 = 0" "drop_bit 5 (head0 h) AND 0x01 = 0" "drop_bit 4 (head0 h) AND 0x01 = 0"
  "ucast (head0 h AND 0x0f) = fh_opcode h"
proof -
  have hi: "\<not> bit (fh_opcode h) (4 + k)" for k
    using bit_imp_le_length [of "fh_opcode h" "4 + k"] by auto
  show "(drop_bit 7 (head0 h) AND 0x01 \<noteq> 0) = fh_fin h"
    "drop_bit 6 (head0 h) AND 0x01 = 0" "drop_bit 5 (head0 h) AND 0x01 = 0" "drop_bit 4 (head0 h) AND 0x01 = 0"
    using and_one_bit [of 7 "head0 h"] and_one_bit [of 6 "head0 h"] and_one_bit [of 5 "head0 h"]
      and_one_bit [of 4 "head0 h"] hi [of 3] hi [of 2] hi [of 1] hi [of 0]
    by (auto simp: bit_head0)
  have m: "(0x0f :: byte) = mask 4" by (simp add: mask_eq_exp_minus_1)
  show "ucast (head0 h AND 0x0f) = fh_opcode h"
    unfolding m
    by (rule bit_word_eqI) (auto simp: bit_unsigned_iff bit_and_iff bit_mask_iff bit_head0)
qed

definition head1 :: "bool \<Rightarrow> u64 \<Rightarrow> byte" where
  "head1 masked n = (if masked then 0x80 else 0x00) OR ucast n"

lemma head1_fields:
  assumes "n \<le> 127"
  shows "(drop_bit 7 (head1 m n) AND 0x01 \<noteq> 0) = m" "(ucast (head1 m n AND 0x7f) :: u64) = n"
proof -
  have "n < 2 ^ 7" using assms by (simp add: word_le_nat_alt word_less_nat_alt)
  then have small: "k < 7" if "bit n k" for k using small_word_bits [of n 7 k] that by simp
  have b: "(0x80 :: byte) = push_bit 7 1" "(0x7f :: byte) = mask 7" by (simp_all add: mask_eq_exp_minus_1)
  have bit: "bit (head1 m n) k \<longleftrightarrow> k = 7 \<and> m \<or> k < 7 \<and> bit n k" for k
  proof (cases "k = 7")
    case True
    with small [of 7] show ?thesis
      unfolding head1_def b by (auto simp: bit_or_iff bit_unsigned_iff)
  next
    case False
    with small [of k] show ?thesis
      unfolding head1_def b by (auto simp: bit_or_iff bit_push_bit_iff bit_unsigned_iff bit_1_iff simp del: push_bit_of_1)
  qed
  show "(drop_bit 7 (head1 m n) AND 0x01 \<noteq> 0) = m"
    unfolding and_one_bit by (simp add: bit)
  show "(ucast (head1 m n AND 0x7f) :: u64) = n"
    unfolding b
    by (rule bit_word_eqI) (fastforce simp: bit_unsigned_iff bit_and_iff bit_mask_iff bit dest: small)
qed

text \<open>The header that is written, in its four parts.\<close>

definition head_len7 :: "u64 \<Rightarrow> u64" where
  "head_len7 n = (if n \<le> 125 then n else if n \<le> 65535 then 126 else 127)"

definition head_ext :: "u64 \<Rightarrow> byte list" where
  "head_ext n = (if n \<le> 125 then [] else if n \<le> 65535 then [ucast (drop_bit 8 n), ucast n] else bytes64 n)"

definition head_key :: "frame_header \<Rightarrow> byte list" where
  "head_key h = (if fh_mask h \<and> fh_payload_len h \<noteq> 0 then bytes32 (fh_masking_key h) else [])"

lemma frame_header_bytes_eq:
  "frame_header_bytes h =
   head0 h # head1 (fh_mask h \<and> fh_payload_len h \<noteq> 0) (head_len7 (fh_payload_len h)) #
   head_ext (fh_payload_len h) @ head_key h"
proof -
  have ff: "(0xff :: byte) = mask 8" "(0xff :: u64) = mask 8" by (simp_all add: mask_eq_exp_minus_1)
  have 1: "ucast n AND 0xff = (ucast n :: byte)" "ucast (n AND 0xff) = (ucast n :: byte)"
    "ucast (drop_bit 8 n) AND 0xff = (ucast (drop_bit 8 n) :: byte)" for n :: u64
    unfolding ff by (rule bit_word_eqI, auto simp: bit_unsigned_iff bit_and_iff bit_mask_iff)+
  have "n > 0 \<longleftrightarrow> n \<noteq> 0" for n :: u64 by (simp add: word_neq_0_conv)
  then show ?thesis
    by (auto simp: frame_header_bytes_def Let_def head0_def head1_def head_len7_def head_ext_def
        head_key_def 1)
qed

lemma frame_header_bytes_length:
  "length (frame_header_bytes h) = frame_header_len h - (if fh_mask h \<and> fh_payload_len h = 0 then 4 else 0)"
proof -
  have "fh_payload_len h \<le> 65535 \<longleftrightarrow> \<not> 65535 < fh_payload_len h"
    "126 \<le> fh_payload_len h \<longleftrightarrow> \<not> fh_payload_len h \<le> 125" for h
    by (auto simp: word_le_nat_alt word_less_nat_alt)
  moreover have "\<not> 65535 < (0::u64)" "65535 < n \<Longrightarrow> \<not> n \<le> 125" for n :: u64
    by (auto simp: word_le_nat_alt word_less_nat_alt)
  ultimately show ?thesis
    by (auto simp: frame_header_bytes_eq frame_header_len_def head_ext_def head_key_def)
qed

lemma head_ext_length:
  "length (head_ext n) = (if head_len7 n = 126 then 2 else if head_len7 n > 126 then 8 else 0)"
proof (cases "n \<le> 125")
  case True
  then have "n \<noteq> 126" "\<not> 126 < n" by (auto simp: word_le_nat_alt word_less_nat_alt)
  with True show ?thesis by (simp add: head_ext_def head_len7_def)
qed (simp add: head_ext_def head_len7_def)

lemma head_ext_value:
  assumes "head_len7 n \<ge> 126"
  shows "(if length (head_ext n) = 2 then ucast (ntohs be (load16 be (head_ext n)))
          else ntoh64 be (load64 be (head_ext n))) = n"
proof (cases "n \<le> 65535")
  case True
  then have "n < 2 ^ 16" by (simp add: word_le_nat_alt word_less_nat_alt)
  then have small: "k < 16" if "bit n k" for k using small_word_bits [of n 16 k] that by simp
  have e: "head_ext n = [ucast (drop_bit 8 n), ucast n]"
    using True assms by (auto simp: head_ext_def head_len7_def word_le_nat_alt)
  show ?thesis
    unfolding e
    by (simp add: ntohs_load16, rule bit_word_eqI)
      (auto simp: bit_unsigned_iff bit_or_iff bit_push_bit_iff bit_drop_bit_eq dest: small)
next
  case False
  then have "head_ext n = bytes64 n" by (auto simp: head_ext_def word_le_nat_alt)
  then show ?thesis by (simp add: ntoh64_load64)
qed

section \<open>A header that was written is read back\<close>

text \<open>What the reader has in its header, \<open>h0\<close> being the header before.\<close>

definition masked :: "frame_header \<Rightarrow> bool" where
  "masked h \<longleftrightarrow> fh_mask h \<and> fh_payload_len h \<noteq> 0"

definition frame_seen :: "bool \<Rightarrow> frame_header \<Rightarrow> frame_header \<Rightarrow> frame_header" where
  "frame_seen be h h0 =
     (let h1 = h0\<lparr>fh_fin := fh_fin h, fh_rsv1 := False, fh_rsv2 := False, fh_rsv3 := False,
           fh_opcode := fh_opcode h, fh_mask := masked h, fh_payload_len := fh_payload_len h\<rparr>
      in if masked h then h1\<lparr>fh_masking_key := load32 be (bytes32 (fh_masking_key h))\<rparr> else h1)"

lemma update_head_written:
  "update_head_2bytes (head0 h) (head1 m (head_len7 n)) ws = ws\<lparr>ws_header := (ws_header ws)\<lparr>
     fh_fin := fh_fin h, fh_rsv1 := False, fh_rsv2 := False, fh_rsv3 := False,
     fh_opcode := fh_opcode h, fh_mask := m, fh_payload_len := head_len7 n\<rparr>\<rparr>"
proof -
  have "head_len7 n \<le> 127" by (auto simp: head_len7_def word_le_nat_alt)
  then show ?thesis by (simp add: update_head_2bytes_def head0_fields head1_fields)
qed

lemma head_len7_small: "head_len7 n \<noteq> 126 \<Longrightarrow> \<not> 126 < head_len7 n \<Longrightarrow> head_len7 n = n"
  by (auto simp: head_len7_def split: if_splits)

text \<open>The state in which a reader is before a header, and after it.\<close>

definition head_waiting :: "websocket \<Rightarrow> bool" where
  "head_waiting ws \<longleftrightarrow> ws_status ws = WS_HEAD_2BYTES \<and> ws_peek_buf ws = Some []"

definition head_read :: "bool \<Rightarrow> frame_header \<Rightarrow> websocket \<Rightarrow> websocket" where
  "head_read be h ws = ws\<lparr>ws_header := frame_seen be h (ws_header ws), ws_status := WS_HEAD_FINISH\<rparr>"

lemma peek_step:
  assumes "ws_peek_buf ws = Some []" "ws_status ws \<noteq> WS_HEAD_FINISH" "length f = peek_need (ws_status ws)"
  shows "update_loop is_head_finish (peek_handler be) ws (f @ rest) =
    update_loop is_head_finish (peek_handler be)
      ((peek_apply be (ws_status ws) f ws)\<lparr>ws_peek_buf := Some []\<rparr>) rest"
proof -
  have "peek_inv ws" "\<not> is_head_finish ws" using assms by (simp_all add: peek_inv_def is_head_finish_def)
  then obtain pb where "ws_peek_buf ws = Some pb" "\<And>xs. peek_handler be ws xs =
      (if peek_need (ws_status ws) \<le> length pb + length xs
       then Ret ((peek_apply be (ws_status ws) (pb @ take (peek_need (ws_status ws) - length pb) xs) ws)
               \<lparr>ws_peek_buf := Some []\<rparr>) (drop (peek_need (ws_status ws) - length pb) xs)
       else Ret (ws\<lparr>ws_peek_buf := Some (pb @ xs)\<rparr>) [])"
    using peek_handler_eq by metis
  with assms have "peek_handler be ws (f @ rest) = Ret ((peek_apply be (ws_status ws) f ws)\<lparr>ws_peek_buf := Some []\<rparr>) rest"
    by simp
  moreover have "0 < length f" unfolding assms(3) by simp
  then have "f @ rest \<noteq> []" by auto
  ultimately show ?thesis using assms(2) by (intro update_loop_step) (auto simp: is_head_finish_def)
qed

lemma peek_key:
  assumes "ws_peek_buf ws = Some []" "ws_status ws = WS_HEAD_MASKING_KEY" "length k = 4"
  shows "update_loop is_head_finish (peek_handler be) ws (k @ rest) =
    Some (Ret (ws\<lparr>ws_header := (ws_header ws)\<lparr>fh_masking_key := load32 be k\<rparr>, ws_status := WS_HEAD_FINISH\<rparr>) rest)"
  using peek_step [of ws k be rest] assms
  by (simp add: peek_need_def peek_apply_def is_head_finish_def)

lemma keep_peek_buf:
  "ws_peek_buf ws = b \<Longrightarrow>
   ws\<lparr>ws_header := h, ws_status := s, ws_peek_buf := b\<rparr> = ws\<lparr>ws_header := h, ws_status := s\<rparr>"
  by (cases ws) simp

theorem peek_header_back:
  assumes "head_waiting ws"
  shows "update_loop is_head_finish (peek_handler be) ws (frame_header_bytes h @ rest) =
    Some (Ret (head_read be h ws) rest)"
proof -
  define m where "m = masked h"
  let ?n = "fh_payload_len h"
  let ?upd = "update_loop is_head_finish (peek_handler be)"
  let ?st = "if head_len7 ?n = 126 then WS_HEAD_LEN_2BYTES else if head_len7 ?n > 126 then WS_HEAD_LEN_8BYTES
    else if m then WS_HEAD_MASKING_KEY else WS_HEAD_FINISH"
  let ?hd = "\<lambda>n. (ws_header ws)\<lparr>fh_fin := fh_fin h, fh_rsv1 := False, fh_rsv2 := False,
    fh_rsv3 := False, fh_opcode := fh_opcode h, fh_mask := m, fh_payload_len := n\<rparr>"
  let ?w = "\<lambda>n st. ws\<lparr>ws_header := ?hd n, ws_status := st\<rparr>"
  have wait: "ws_status ws = WS_HEAD_2BYTES" "ws_peek_buf ws = Some []"
    using assms by (auto simp: head_waiting_def)
  note buf = keep_peek_buf [OF wait(2)]
  have hk: "head_key h = (if m then bytes32 (fh_masking_key h) else [])"
    by (auto simp: head_key_def m_def masked_def)
  have hb: "frame_header_bytes h = [head0 h, head1 m (head_len7 ?n)] @ head_ext ?n @ head_key h"
    by (simp add: frame_header_bytes_eq m_def masked_def)
  have fr: "head_read be h ws = (if m
      then ws\<lparr>ws_header := (?hd ?n)\<lparr>fh_masking_key := load32 be (bytes32 (fh_masking_key h))\<rparr>,
        ws_status := WS_HEAD_FINISH\<rparr> else ?w ?n WS_HEAD_FINISH)"
    by (simp add: head_read_def frame_seen_def m_def Let_def)
  have key: "?upd (?w ?n (if m then WS_HEAD_MASKING_KEY else WS_HEAD_FINISH)) (head_key h @ rest) =
      Some (Ret (head_read be h ws) rest)"
    using peek_key [of "?w ?n WS_HEAD_MASKING_KEY" "bytes32 (fh_masking_key h)" be rest] wait(2)
    unfolding hk fr by (cases m) (simp_all add: is_head_finish_def)
  have "?upd ws (frame_header_bytes h @ rest) = ?upd (?w (head_len7 ?n) ?st) (head_ext ?n @ head_key h @ rest)"
    using peek_step [of ws "[head0 h, head1 m (head_len7 ?n)]" be "head_ext ?n @ head_key h @ rest"] wait
    unfolding hb by (simp add: buf peek_need_def peek_apply_def update_head_written Let_def)
  also have "\<dots> = ?upd (?w ?n (if m then WS_HEAD_MASKING_KEY else WS_HEAD_FINISH)) (head_key h @ rest)"
  proof (cases "head_len7 ?n = 126 \<or> 126 < head_len7 ?n")
    case False
    then show ?thesis using head_len7_small [of ?n] head_ext_length [of ?n] by simp
  next
    case True
    then have len: "length (head_ext ?n) = peek_need ?st" "?st \<noteq> WS_HEAD_FINISH"
      using head_ext_length [of ?n] by (auto simp: peek_need_def)
    have "126 \<le> head_len7 ?n" using True by auto
    note val = head_ext_value [OF this, of be]
    show ?thesis
      using peek_step [of "?w (head_len7 ?n) ?st" "head_ext ?n" be "head_key h @ rest"] len wait True val
      by (auto simp: buf peek_apply_def after_len_def head_ext_length split: if_splits)
  qed
  finally show ?thesis using key by simp
qed

section \<open>The header in any pieces\<close>

text \<open>What holds of a reader before a call: \<^verbatim>\<open>peek_buf_\<close> is made by the first one.\<close>

definition with_peek_buf :: "websocket \<Rightarrow> websocket" where
  "with_peek_buf ws = (if ws_peek_buf ws = None then ws\<lparr>ws_peek_buf := Some []\<rparr> else ws)"

definition reader_inv :: "websocket \<Rightarrow> bool" where
  "reader_inv ws \<longleftrightarrow> peek_inv (with_peek_buf ws)"

lemma peek_frame_head_update_call:
  "xs \<noteq> [] \<Longrightarrow> peek_frame_head be ws xs = update_call is_head_finish (peek_handler be) (with_peek_buf ws) xs"
  by (simp add: peek_frame_head_def update_call_def with_peek_buf_def)

lemma with_peek_buf_simps [simp]:
  "is_head_finish (with_peek_buf ws) = is_head_finish ws"
  "peek_inv ws \<Longrightarrow> with_peek_buf ws = ws" "peek_inv ws \<Longrightarrow> reader_inv ws"
  by (auto simp: with_peek_buf_def is_head_finish_def peek_inv_def reader_inv_def)

interpretation peek_call: chunked is_head_finish "peek_frame_head be" reader_inv for be
proof
  fix ws ws' and xs ys rest :: "byte list"
  assume "reader_inv ws" "\<not> is_head_finish ws" and xs: "xs \<noteq> []"
  then have ws: "peek_inv (with_peek_buf ws)" "\<not> is_head_finish (with_peek_buf ws)"
    by (simp_all add: reader_inv_def)
  note eq = peek_frame_head_update_call
  note inv' = peek.upd_inv [OF ws xs]
  show "reader_inv ws'" if "peek_frame_head be ws xs = Some (Ret ws' rest)"
    using that inv' eq [OF xs] by simp
  show "is_head_finish ws'" if "peek_frame_head be ws xs = Some (Ret ws' rest)" "rest \<noteq> []"
    using that peek.upd_rest [OF ws xs] eq [OF xs] by simp
  show "peek_frame_head be ws (xs @ ys) =
      (if is_head_finish ws' then Some (Ret ws' (rest @ ys)) else peek_frame_head be ws' ys)"
    if "ys \<noteq> []" "peek_frame_head be ws xs = Some (Ret ws' rest)"
    using that peek.upd_more [OF ws xs that(1)] inv' eq [of _ be] xs by (simp add: eq)
  show "peek_frame_head be ws (xs @ ys) = Some (Fail ws')" if "peek_frame_head be ws xs = Some (Fail ws')"
    using that peek.upd_fail [OF ws xs] xs by (simp add: eq)
  show "peek_frame_head be ws (xs @ ys) = Some Abort" if "peek_frame_head be ws xs = Some Abort"
    using that peek.upd_abort [OF ws xs] xs by (simp add: eq)
  show "peek_frame_head be ws (xs @ ys) = None" if "peek_frame_head be ws xs = None"
    using that peek.upd_prefix [OF ws xs] xs by (simp add: eq)
qed

definition reader_start :: "websocket \<Rightarrow> bool" where
  "reader_start ws \<longleftrightarrow> ws_status ws = WS_HEAD_2BYTES \<and> ws_peek_buf ws \<in> {None, Some []}"

lemma reader_start_simps [simp]:
  "reader_start ws \<Longrightarrow> reader_inv ws" "reader_start ws \<Longrightarrow> \<not> is_head_finish ws"
  "reader_start ws \<Longrightarrow> head_waiting (with_peek_buf ws)"
  by (auto simp: reader_start_def reader_inv_def with_peek_buf_def peek_inv_def peek_need_def
      is_head_finish_def head_waiting_def)

lemma peek_frame_head_back:
  "reader_start ws \<Longrightarrow>
   peek_frame_head be ws (frame_header_bytes h @ rest) = Some (Ret (head_read be h (with_peek_buf ws)) rest)"
  using peek_header_back [of "with_peek_buf ws" be h rest]
  by (simp add: peek_frame_head_def with_peek_buf_def [symmetric])

lemma peek_frame_head_chunks:
  assumes "reader_start ws" "concat cs = frame_header_bytes h @ rest" "[] \<notin> set cs"
  shows "feed is_head_finish (peek_frame_head be) ws cs = Some (Ret (head_read be h (with_peek_buf ws)) rest)"
proof -
  have "cs \<noteq> []" using assms(2) by (auto simp: frame_header_bytes_eq)
  with assms have "feed is_head_finish (peek_frame_head be) ws cs = feed is_head_finish (peek_frame_head be) ws [concat cs]"
    by (intro peek_call.feed_concat) simp_all
  also have "\<dots> = Some (Ret (head_read be h (with_peek_buf ws)) rest)"
    unfolding assms(2) using assms(1) peek_frame_head_back [OF assms(1), of be h rest] by simp
  finally show ?thesis .
qed

section \<open>The header on a blocking stream\<close>

lemma reset_simps [simp]:
  "ws_status (ws_reset ws) = WS_HEAD_2BYTES" "ws_payload_nread (ws_reset ws) = 0"
  "ws_payload_nsent (ws_reset ws) = 0" "ws_header_sent (ws_reset ws) = False"
  "ws_out (ws_reset ws) = ws_out ws"
  "fh_mask (ws_header (ws_reset ws)) = fh_mask (ws_header ws)"
  "fh_masking_key (ws_header (ws_reset ws)) = fh_masking_key (ws_header ws)"
  by (simp_all add: ws_reset_def)

lemma frame_seen_simps [simp]:
  "fh_fin (frame_seen be h h0) = fh_fin h" "fh_opcode (frame_seen be h h0) = fh_opcode h"
  "fh_payload_len (frame_seen be h h0) = fh_payload_len h" "fh_mask (frame_seen be h h0) = masked h"
  "masked h \<Longrightarrow> fh_masking_key (frame_seen be h h0) = load32 be (bytes32 (fh_masking_key h))"
  by (simp_all add: frame_seen_def Let_def)

lemma bytes32_not_Nil [simp]: "bytes32 k \<noteq> []"
  by (simp add: bytes32_def)

lemma read_frame_head_back:
  assumes rd: "stream_ok rd contents" "contents c = frame_header_bytes h @ rest"
  shows "\<exists>c'. read_frame_head be rd ws c =
      ((ws_reset ws)\<lparr>ws_header := frame_seen be h (ws_header (ws_reset ws))\<rparr>, Some c') \<and> contents c' = rest"
proof -
  define m where "m = masked h"
  let ?n = "fh_payload_len h"
  let ?hd = "\<lambda>n. (ws_header (ws_reset ws))\<lparr>fh_fin := fh_fin h, fh_rsv1 := False, fh_rsv2 := False,
    fh_rsv3 := False, fh_opcode := fh_opcode h, fh_mask := m, fh_payload_len := n\<rparr>"
  let ?w = "\<lambda>n. (ws_reset ws)\<lparr>ws_header := ?hd n\<rparr>"
  have hk: "head_key h = (if m then bytes32 (fh_masking_key h) else [])"
    by (auto simp: head_key_def m_def masked_def)
  have hb: "contents c = [head0 h, head1 m (head_len7 ?n)] @ head_ext ?n @ head_key h @ rest"
    using rd(2) by (simp add: frame_header_bytes_eq m_def masked_def)
  obtain c1 where c1: "rd c 2 = Some ([head0 h, head1 m (head_len7 ?n)], c1)"
    "contents c1 = head_ext ?n @ head_key h @ rest"
    by (rule stream_okD [OF rd(1) hb]) (simp_all add: numeral_2_eq_2)
  have key: "\<exists>c'. read_masking_key be rd (?w ?n) c2 =
      ((ws_reset ws)\<lparr>ws_header := frame_seen be h (ws_header (ws_reset ws))\<rparr>, Some c') \<and> contents c' = rest"
    if c2: "contents c2 = head_key h @ rest" for c2
  proof (cases m)
    case True
    with c2 obtain c3 where "rd c2 4 = Some (bytes32 (fh_masking_key h), c3)" "contents c3 = rest"
      using stream_okD [OF rd(1), of c2 "bytes32 (fh_masking_key h)" rest]
      by (auto simp: hk)
    with True show ?thesis by (simp add: read_masking_key_def frame_seen_def Let_def m_def)
  next
    case False
    with c2 show ?thesis by (simp add: read_masking_key_def frame_seen_def Let_def hk m_def)
  qed
  have r: "read_frame_head be rd ws c =
     (let k = (if head_len7 ?n = 126 then 2 else if head_len7 ?n > 126 then 8 else 0) in
      if k > 0 then (case rd c1 k of None \<Rightarrow> (?w (head_len7 ?n), None)
         | Some (ext, c2) \<Rightarrow> read_masking_key be rd (set_payload_len_of be ext (?w (head_len7 ?n))) c2)
      else read_masking_key be rd (?w (head_len7 ?n)) c1)"
  proof -
    have e: "[a, b] ! 0 = a" "[a, b] ! 1 = b" for a b :: byte by simp_all
    show ?thesis unfolding read_frame_head_def c1(1) Let_def option.case prod.case e update_head_written by simp
  qed
  show ?thesis
  proof (cases "head_len7 ?n = 126 \<or> 126 < head_len7 ?n")
    case False
    then have "length (head_ext ?n) = 0" unfolding head_ext_length by simp
    then have e: "head_len7 ?n = ?n" "head_ext ?n = []"
      using False head_len7_small [of ?n] by simp_all
    have "?n \<noteq> 126" "\<not> 126 < ?n" using False unfolding e by simp_all
    then show ?thesis using key [of c1] c1(2) unfolding r e by simp
  next
    case True
    then have len1: "length (head_ext ?n) = (if head_len7 ?n = 126 then 2 else 8)"
      unfolding head_ext_length by auto
    then have "head_ext ?n \<noteq> []" by (metis list.size(3) zero_neq_numeral)
    note len = len1 this
    have "126 \<le> head_len7 ?n" using True by auto
    note val = head_ext_value [OF this, of be]
    obtain c2 where c2: "rd c1 (length (head_ext ?n)) = Some (head_ext ?n, c2)" "contents c2 = head_key h @ rest"
      using stream_okD [OF rd(1) c1(2) len(2)] by auto
    have "set_payload_len_of be (head_ext ?n) (?w (head_len7 ?n)) = ?w ?n"
      using val by (simp add: set_payload_len_of_def)
    then show ?thesis
      using True c2 len key [OF c2(2)] unfolding r by (auto split: if_splits)
  qed
qed

section \<open>What goes out\<close>

lemma take_put_at_0: "length xs \<le> length buf \<Longrightarrow> take (length xs) (put_at buf 0 xs) = xs"
  using take_put_at [of 0 xs buf] by simp

definition header_room :: "(nat \<Rightarrow> byte) \<Rightarrow> websocket \<Rightarrow> byte list" where
  "header_room junk ws =
     (let hlen = frame_header_len (ws_header ws); old = ws_header_buf ws
      in if hlen > length old then old @ map junk [length old..<hlen] else old)"

lemma drop_put_at: "n + length xs \<le> length buf \<Longrightarrow> drop (n + length xs) (put_at buf n xs) = drop (n + length xs) buf"
proof (induction xs arbitrary: buf n)
  case Nil
  then show ?case by simp
next
  case (Cons c xs)
  from Cons.IH [of "Suc n" "buf[n := c]"] Cons.prems show ?case by (simp add: put_at_Cons)
qed

text \<open>The header that is written, and the four bytes too many of a masked one without payload.\<close>

lemma make_frame_header_out:
  "take (ws_header_len (make_frame_header be junk ws)) (ws_header_buf (make_frame_header be junk ws)) =
   frame_header_bytes (ws_header ws) @
   (if fh_mask (ws_header ws) \<and> fh_payload_len (ws_header ws) = 0
    then take 4 (drop 2 (header_room junk ws)) else [])"
proof -
  let ?h = "ws_header ws" and ?r = "header_room junk ws"
  let ?b = "frame_header_bytes ?h"
  have len: "ws_header_len (make_frame_header be junk ws) = frame_header_len ?h"
    and buf: "ws_header_buf (make_frame_header be junk ws) = put_at ?r 0 ?b"
    by (simp_all add: make_frame_header_def header_room_def Let_def)
  have room: "frame_header_len ?h \<le> length ?r" by (simp add: header_room_def Let_def)
  show ?thesis
  proof (cases "fh_mask ?h \<and> fh_payload_len ?h = 0")
    case False
    then have "length ?b = frame_header_len ?h" by (auto simp: frame_header_bytes_length)
    with False room show ?thesis using take_put_at_0 [of ?b ?r] unfolding len buf by auto
  next
    case True
    then have l: "frame_header_len ?h = 6" "length ?b = 2"
      by (simp_all add: frame_header_len_def frame_header_bytes_length)
    have "take 6 (put_at ?r 0 ?b) = take 2 (put_at ?r 0 ?b) @ take 4 (drop 2 (put_at ?r 0 ?b))"
      using take_add [of 2 4 "put_at ?r 0 ?b"] by simp
    also have "take 2 (put_at ?r 0 ?b) = ?b" using take_put_at_0 [of ?b ?r] room l by simp
    also have "drop 2 (put_at ?r 0 ?b) = drop 2 ?r" using drop_put_at [of 0 ?b ?r] room l by (simp add: numeral_2_eq_2)
    finally show ?thesis using True unfolding len buf l by simp
  qed
qed

lemma make_frame_header_simps [simp]:
  "ws_payload_nsent (make_frame_header be junk ws) = ws_payload_nsent ws"
  "ws_header_sent (make_frame_header be junk ws) = ws_header_sent ws"
  "ws_out (make_frame_header be junk ws) = ws_out ws"
  "fh_mask (ws_header (make_frame_header be junk ws)) = fh_mask (ws_header ws)"
  "fh_payload_len (ws_header (make_frame_header be junk ws)) = fh_payload_len (ws_header ws)"
  by (simp_all add: make_frame_header_def Let_def)

lemma make_frame_header_key:
  "masked (ws_header ws) \<Longrightarrow>
   mem32 be (fh_masking_key (ws_header (make_frame_header be junk ws))) = bytes32 (fh_masking_key (ws_header ws))"
  by (simp add: make_frame_header_def Let_def masked_def frame_header_bytes_eq head_key_def word_neq_0_conv)

section \<open>The mask\<close>

lemma xor_mask_length [simp]: "length (xor_mask k off d) = length d"
  by (simp add: xor_mask_def)

lemma xor_mask_involution [simp]: "xor_mask k off (xor_mask k off d) = d"
  by (rule nth_equalityI) (simp_all add: xor_mask_def xor.assoc)

lemma xor_mask_append:
  "xor_mask k off (xs @ ys) = xor_mask k off xs @ xor_mask k (off + word_of_nat (length xs)) ys"
proof (rule nth_equalityI)
  fix i assume i: "i < length (xor_mask k off (xs @ ys))"
  show "xor_mask k off (xs @ ys) ! i = (xor_mask k off xs @ xor_mask k (off + word_of_nat (length xs)) ys) ! i"
    using i by (auto simp: xor_mask_def nth_append add.assoc simp flip: of_nat_add)
qed simp

end
