(* ===== verification/WebsocketData.thy ===== *)
theory WebsocketData
  imports WebsocketWire
begin

text \<open>
  The payload of a frame: sending it in pieces, and reading it in pieces from a blocking stream
  or from the bytes that have arrived.
\<close>

section \<open>Sending a payload in pieces\<close>

fun send_pieces :: "bool \<Rightarrow> (nat \<Rightarrow> byte) \<Rightarrow> byte list list \<Rightarrow> websocket \<Rightarrow> websocket \<times> bool" where
  "send_pieces be junk [] ws = (ws, True)"
| "send_pieces be junk (d # ds) ws =
     (case send_frame_data_const be junk (\<lambda>_. True) (Some d) ws of
        (ws', ok) \<Rightarrow> if ok then send_pieces be junk ds ws' else (ws', False))"

text \<open>The payload as it goes over the wire from position \<open>off\<close> on, under the key \<open>k\<close> if any.\<close>

definition on_the_wire :: "byte list option \<Rightarrow> u64 \<Rightarrow> byte list \<Rightarrow> byte list" where
  "on_the_wire k off d = (case k of None \<Rightarrow> d | Some k \<Rightarrow> xor_mask k off d)"

lemma on_the_wire_simps [simp]:
  "length (on_the_wire k off d) = length d" "on_the_wire k off [] = []"
  "on_the_wire k off (on_the_wire k off d) = d"
  by (auto simp: on_the_wire_def split: option.splits) (simp add: xor_mask_def)

lemma on_the_wire_append:
  "on_the_wire k off (xs @ ys) = on_the_wire k off xs @ on_the_wire k (off + word_of_nat (length xs)) ys"
  by (auto simp: on_the_wire_def xor_mask_append split: option.splits)

lemma on_the_wire_take: "take n (on_the_wire k off d) = on_the_wire k off (take n d)"
  by (metis append_take_drop_id append_eq_conv_conj length_take on_the_wire_append on_the_wire_simps(1) take_take
      append_eq_append_conv min.idem)

lemma on_the_wire_drop:
  "n \<le> length d \<Longrightarrow> drop n (on_the_wire k off d) = on_the_wire k (off + word_of_nat n) (drop n d)"
  using on_the_wire_append [of k off "take n d" "drop n d"] by simp

definition key_of :: "frame_header \<Rightarrow> byte list option" where
  "key_of h = (if fh_mask h then Some (bytes32 (fh_masking_key h)) else None)"

definition mem_key :: "bool \<Rightarrow> frame_header \<Rightarrow> byte list option" where
  "mem_key be h = (if fh_mask h then Some (mem32 be (fh_masking_key h)) else None)"

lemma unat_u64: "unat (w :: u64) < 2 ^ 64"
  using unsigned_less [of w] by simp

lemma unat_add_ok:
  "unat a + n < 2 ^ 64 \<Longrightarrow> unat (a + word_of_nat n :: u64) = unat a + n"
  by (subst unat_word_ariths) (simp add: unsigned_of_nat take_bit_nat_eq_self)

lemma send_data_piece:
  assumes "ws_header_sent ws" "unat (ws_payload_nsent ws) + length d \<le> unat (fh_payload_len (ws_header ws))"
  shows "send_frame_data_const be junk (\<lambda>_. True) (Some d) ws =
    (ws\<lparr>ws_out := ws_out ws @ on_the_wire (mem_key be (ws_header ws)) (ws_payload_nsent ws) d,
        ws_payload_nsent := ws_payload_nsent ws + word_of_nat (length d)\<rparr>, True)"
proof -
  have "unat (ws_payload_nsent ws) + length d < 2 ^ 64"
    using assms(2) unat_u64 [of "fh_payload_len (ws_header ws)"] by simp
  from unat_add_ok [OF this] assms(2)
  have "\<not> fh_payload_len (ws_header ws) < ws_payload_nsent ws + word_of_nat (length d)"
    by (simp add: word_less_nat_alt)
  with assms(1) show ?thesis
    by (cases ws) (auto simp: send_frame_data_const_def send_frame_data_def on_the_wire_def mem_key_def Let_def xor_mask_def)
qed

lemma send_pieces_sent:
  assumes "ws_header_sent ws"
    "unat (ws_payload_nsent ws) + length (concat ds) \<le> unat (fh_payload_len (ws_header ws))"
  shows "send_pieces be junk ds ws =
    (ws\<lparr>ws_out := ws_out ws @ on_the_wire (mem_key be (ws_header ws)) (ws_payload_nsent ws) (concat ds),
        ws_payload_nsent := ws_payload_nsent ws + word_of_nat (length (concat ds))\<rparr>, True)"
  using assms
proof (induction ds arbitrary: ws)
  case Nil
  then show ?case by simp
next
  case (Cons d ds)
  have "unat (ws_payload_nsent ws) + length d < 2 ^ 64"
    using Cons.prems(2) unat_u64 [of "fh_payload_len (ws_header ws)"] by simp
  note u = unat_add_ok [OF this]
  show ?case
    using Cons.prems send_data_piece [of ws d be junk] Cons.IH u
    by (simp add: on_the_wire_append add.assoc)
qed

text \<open>A whole frame: its header and the payload in any pieces.\<close>

definition frame_wire :: "frame_header \<Rightarrow> byte list \<Rightarrow> byte list" where
  "frame_wire h d = frame_header_bytes h @ on_the_wire (key_of h) 0 d"

lemma send_frame_first:
  assumes "\<not> ws_header_sent ws"
  shows "send_frame_data_const be junk (\<lambda>_. True) (Some d) ws =
    send_frame_data_const be junk (\<lambda>_. True) (Some d)
      (let ws1 = make_frame_header be junk (ws\<lparr>ws_header_sent := True\<rparr>)
       in ws1\<lparr>ws_out := ws_out ws1 @ take (ws_header_len ws1) (ws_header_buf ws1)\<rparr>)"
  using assms by (simp add: send_frame_data_const_def send_frame_data_def Let_def)

lemma send_frame_wire:
  assumes "\<not> ws_header_sent ws" "ws_payload_nsent ws = 0" "ds \<noteq> []"
    and "length (concat ds) = unat (fh_payload_len (ws_header ws))"
    and "\<not> (fh_mask (ws_header ws) \<and> fh_payload_len (ws_header ws) = 0)"
  shows "\<exists>ws'. send_pieces be junk ds ws = (ws', True) \<and>
    ws_out ws' = ws_out ws @ frame_wire (ws_header ws) (concat ds)"
proof -
  let ?h = "ws_header ws"
  let ?w = "let ws1 = make_frame_header be junk (ws\<lparr>ws_header_sent := True\<rparr>)
       in ws1\<lparr>ws_out := ws_out ws1 @ take (ws_header_len ws1) (ws_header_buf ws1)\<rparr>"
  obtain d es where ds: "ds = d # es" using assms(3) by (cases ds) auto
  have "send_pieces be junk ds ws = send_pieces be junk ds ?w"
    unfolding ds send_pieces.simps using send_frame_first [OF assms(1), of be junk d] by simp
  moreover have "send_pieces be junk ds ?w = (?w\<lparr>
      ws_out := ws_out ?w @ on_the_wire (mem_key be (ws_header ?w)) (ws_payload_nsent ?w) (concat ds),
      ws_payload_nsent := ws_payload_nsent ?w + word_of_nat (length (concat ds))\<rparr>, True)"
    by (rule send_pieces_sent) (use assms in \<open>simp_all add: Let_def\<close>)
  moreover have "ws_out ?w = ws_out ws @ frame_header_bytes ?h"
    using make_frame_header_out [of be junk "ws\<lparr>ws_header_sent := True\<rparr>"] assms(5) by (auto simp: Let_def)
  moreover have "mem_key be (ws_header ?w) = key_of ?h"
    using make_frame_header_key [of "ws\<lparr>ws_header_sent := True\<rparr>" be junk] assms(5)
    by (auto simp: mem_key_def key_of_def masked_def Let_def)
  ultimately show ?thesis using assms(2) by (simp add: frame_wire_def Let_def)
qed

section \<open>Any calls of send_frame_data\<close>

text \<open>Each call with what its writes give; the results are the answers of the calls.\<close>

fun send_calls ::
  "bool \<Rightarrow> (nat \<Rightarrow> byte) \<Rightarrow> ((byte list \<Rightarrow> bool) \<times> byte list option) list \<Rightarrow> websocket \<Rightarrow> bool list \<times> websocket" where
  "send_calls be junk [] ws = ([], ws)"
| "send_calls be junk ((wr, d) # calls) ws =
     (case send_frame_data be junk wr d ws of
        (ws, _, ok) \<Rightarrow> (case send_calls be junk calls ws of (oks, ws) \<Rightarrow> (ok # oks, ws)))"

definition data_of :: "byte list option \<Rightarrow> byte list" where
  "data_of d = (case d of None \<Rightarrow> [] | Some d \<Rightarrow> d)"

text \<open>The data of the calls that answered true.\<close>

fun accepted :: "((byte list \<Rightarrow> bool) \<times> byte list option) list \<Rightarrow> bool list \<Rightarrow> byte list" where
  "accepted (call # calls) (ok # oks) = (if ok then data_of (snd call) else []) @ accepted calls oks"
| "accepted _ _ = []"

lemma send_data_any:
  assumes "ws_header_sent ws" "unat (ws_payload_nsent ws) \<le> unat (fh_payload_len (ws_header ws))"
    and "unat (fh_payload_len (ws_header ws)) < 2 ^ 63" "length (data_of d) < 2 ^ 63"
    and "send_frame_data be junk wr d ws = (ws1, d1, ok)"
  shows "ws1 = (if ok then ws\<lparr>ws_out := ws_out ws @ on_the_wire (mem_key be (ws_header ws)) (ws_payload_nsent ws) (data_of d),
        ws_payload_nsent := ws_payload_nsent ws + word_of_nat (length (data_of d))\<rparr> else ws)"
    "ok \<Longrightarrow> unat (ws_payload_nsent ws) + length (data_of d) \<le> unat (fh_payload_len (ws_header ws))"
proof -
  have "unat (ws_payload_nsent ws) + length (data_of d) < 2 ^ 64" using assms(2-4) by simp
  from unat_add_ok [OF this]
  have le: "\<not> fh_payload_len (ws_header ws) < ws_payload_nsent ws + word_of_nat (length (data_of d)) \<longleftrightarrow>
      unat (ws_payload_nsent ws) + length (data_of d) \<le> unat (fh_payload_len (ws_header ws))"
    by (auto simp: word_less_nat_alt)
  show "ok \<Longrightarrow> unat (ws_payload_nsent ws) + length (data_of d) \<le> unat (fh_payload_len (ws_header ws))"
    using assms(1,2,5) le by (cases d) (auto simp: send_frame_data_def data_of_def Let_def split: if_splits)
  show "ws1 = (if ok then ws\<lparr>ws_out := ws_out ws @ on_the_wire (mem_key be (ws_header ws)) (ws_payload_nsent ws) (data_of d),
        ws_payload_nsent := ws_payload_nsent ws + word_of_nat (length (data_of d))\<rparr> else ws)"
    using assms(1,5) by (cases d) (auto simp: send_frame_data_def data_of_def on_the_wire_def mem_key_def xor_mask_def Let_def split: if_splits)
qed

lemma send_calls_sent:
  assumes "ws_header_sent ws" "unat (ws_payload_nsent ws) \<le> unat (fh_payload_len (ws_header ws))"
    and "unat (fh_payload_len (ws_header ws)) < 2 ^ 63" "\<forall>c \<in> set calls. length (data_of (snd c)) < 2 ^ 63"
    and "send_calls be junk calls ws = (oks, ws1)"
  shows "ws_out ws1 = ws_out ws @ on_the_wire (mem_key be (ws_header ws)) (ws_payload_nsent ws) (accepted calls oks) \<and>
    unat (ws_payload_nsent ws) + length (accepted calls oks) \<le> unat (fh_payload_len (ws_header ws))"
  using assms
proof (induction calls arbitrary: ws oks)
  case Nil
  then show ?case by simp
next
  case (Cons c calls)
  obtain wr d where c: "c = (wr, d)" by (cases c)
  obtain ws2 d2 ok where s: "send_frame_data be junk wr d ws = (ws2, d2, ok)" by (cases "send_frame_data be junk wr d ws")
  obtain oks' where oks: "oks = ok # oks'" "send_calls be junk calls ws2 = (oks', ws1)"
    using Cons.prems(5) s by (auto simp: c split: prod.splits)
  have d: "length (data_of d) < 2 ^ 63" using Cons.prems(4) by (simp add: c)
  note any = send_data_any [OF Cons.prems(1-3) d s]
  have "unat (ws_payload_nsent ws) + length (data_of d) < 2 ^ 64" using Cons.prems(2,3) d by simp
  note u = unat_add_ok [OF this]
  show ?case
  proof (cases ok)
    case True
    then show ?thesis
      using any Cons.IH [of ws2 oks'] Cons.prems oks u by (simp add: c on_the_wire_append)
  next
    case False
    then show ?thesis using any(1) Cons.IH [of ws2 oks'] Cons.prems oks by simp
  qed
qed

text \<open>A frame from its first call on; the header is not written again if its write fails.\<close>

lemma frame_calls_sent:
  assumes "\<not> ws_header_sent ws" "ws_payload_nsent ws = 0" "calls \<noteq> []"
    and "\<not> (fh_mask (ws_header ws) \<and> fh_payload_len (ws_header ws) = 0)"
    and "unat (fh_payload_len (ws_header ws)) < 2 ^ 63" "\<forall>c \<in> set calls. length (data_of (snd c)) < 2 ^ 63"
    and "send_calls be junk calls ws = (oks, ws1)"
  shows "ws_out ws1 = ws_out ws @ (if fst (hd calls) (frame_header_bytes (ws_header ws)) then frame_header_bytes (ws_header ws) else []) @
      on_the_wire (key_of (ws_header ws)) 0 (accepted calls oks) \<and>
    length (accepted calls oks) \<le> unat (fh_payload_len (ws_header ws))"
proof -
  let ?h = "ws_header ws"
  let ?w = "make_frame_header be junk (ws\<lparr>ws_header_sent := True\<rparr>)"
  have bytes: "take (ws_header_len ?w) (ws_header_buf ?w) = frame_header_bytes ?h"
    using make_frame_header_out [of be junk "ws\<lparr>ws_header_sent := True\<rparr>"] assms(4) by auto
  have key: "mem_key be (ws_header ?w) = key_of ?h"
    using make_frame_header_key [of "ws\<lparr>ws_header_sent := True\<rparr>" be junk] assms(4)
    by (auto simp: mem_key_def key_of_def masked_def)
  obtain wr d cs where calls: "calls = (wr, d) # cs" using assms(3) by (cases calls) auto
  show ?thesis
  proof (cases "wr (frame_header_bytes ?h)")
    case True
    let ?w1 = "?w\<lparr>ws_out := ws_out ?w @ frame_header_bytes ?h\<rparr>"
    have "send_frame_data be junk wr d ws = send_frame_data be junk wr d ?w1"
      using assms(1) True by (simp add: send_frame_data_def bytes Let_def)
    then have "send_calls be junk calls ?w1 = (oks, ws1)" using assms(7) by (simp add: calls)
    then show ?thesis
      using send_calls_sent [of ?w1 calls be junk oks ws1] assms(2,5,6) True key by (simp add: calls)
  next
    case False
    then have f: "send_frame_data be junk wr d ws = (?w, d, False)"
      using assms(1) by (simp add: send_frame_data_def bytes Let_def)
    obtain oks' where "oks = False # oks'" "send_calls be junk cs ?w = (oks', ws1)"
      using assms(7) f by (auto simp: calls split: prod.splits)
    then show ?thesis
      using send_calls_sent [of ?w cs be junk oks' ws1] assms(2,5,6) False key by (simp add: calls)
  qed
qed

section \<open>Reading a payload\<close>

text \<open>
  \<open>to_read ws p\<close>: the reader has the payload \<open>p\<close> (in plain text) still to get; \<open>wire_left\<close> are
  the bytes that carry it.
\<close>

definition to_read :: "websocket \<Rightarrow> byte list \<Rightarrow> bool" where
  "to_read ws p \<longleftrightarrow> unat (fh_payload_len (ws_header ws)) = unat (ws_payload_nread ws) + length p"

definition wire_left :: "bool \<Rightarrow> websocket \<Rightarrow> byte list \<Rightarrow> byte list" where
  "wire_left be ws p = on_the_wire (mem_key be (ws_header ws)) (ws_payload_nread ws) p"

definition advance :: "nat \<Rightarrow> websocket \<Rightarrow> websocket" where
  "advance n ws = ws\<lparr>ws_payload_nread := ws_payload_nread ws + word_of_nat n\<rparr>"

lemma to_read_advance:
  assumes "to_read ws p" "n \<le> length p"
  shows "to_read (advance n ws) (drop n p)" "wire_left be (advance n ws) (drop n p) = drop n (wire_left be ws p)"
proof -
  have "unat (ws_payload_nread ws) + n < 2 ^ 64"
    using assms unat_u64 [of "fh_payload_len (ws_header ws)"] by (simp add: to_read_def)
  from unat_add_ok [OF this] show "to_read (advance n ws) (drop n p)"
    using assms by (simp add: to_read_def advance_def)
  show "wire_left be (advance n ws) (drop n p) = drop n (wire_left be ws p)"
    using assms(2) by (simp add: wire_left_def advance_def on_the_wire_drop)
qed

lemma to_read_done: "to_read ws p \<Longrightarrow> (ws_payload_nread ws \<ge> fh_payload_len (ws_header ws)) = (p = [])"
  by (simp add: to_read_def word_le_nat_alt)

lemma unmask_eq: "unmask be ws d = on_the_wire (mem_key be (ws_header ws)) (ws_payload_nread ws) d"
  by (simp add: unmask_def on_the_wire_def mem_key_def)

lemma peek_left_eq:
  assumes "to_read ws p" "unat (ws_payload_nread ws) + len < 2 ^ 64"
  shows "peek_left len ws = min len (length p)"
proof -
  note u = unat_add_ok [OF assms(2)]
  have "unat (fh_payload_len (ws_header ws) - ws_payload_nread ws) = length p"
    using assms(1) by (simp add: to_read_def unat_sub word_le_nat_alt)
  then show ?thesis
    using assms(1) u by (simp add: peek_left_def word_less_nat_alt to_read_def)
qed

text \<open>
  The read that gives what is there (\<^verbatim>\<open>acl_vstream_read\<close>): at least one byte when there are
  any, and at most the number asked for.
\<close>

definition part_ok :: "'c reader \<Rightarrow> ('c \<Rightarrow> byte list) \<Rightarrow> bool" where
  "part_ok rd1 contents \<longleftrightarrow> (\<forall>c n. 0 < n \<longrightarrow> contents c \<noteq> [] \<longrightarrow>
     (\<exists>k c'. 0 < k \<and> k \<le> n \<and> k \<le> length (contents c) \<and> rd1 c n = Some (take k (contents c), c') \<and>
        contents c' = drop k (contents c)))"

fun read_pieces ::
  "bool \<Rightarrow> 'c reader \<Rightarrow> nat list \<Rightarrow> websocket \<Rightarrow> 'c \<Rightarrow> (websocket \<times> byte list \<times> 'c) option" where
  "read_pieces be rd1 [] ws c = Some (ws, [], c)"
| "read_pieces be rd1 (n # ns) ws c =
     (case read_frame_data be rd1 n ws c of
        (ws', None) \<Rightarrow> None
      | (ws', Some (d, c')) \<Rightarrow>
          map_option (\<lambda>(w, ds, c). (w, d @ ds, c)) (read_pieces be rd1 ns ws' c'))"

lemma read_frame_data_eq:
  "read_frame_data be rd1 len ws c =
     (if ws_payload_nread ws \<ge> fh_payload_len (ws_header ws) then (ws, Some ([], c))
      else case rd1 c (peek_left len ws) of
             None \<Rightarrow> (ws, None)
           | Some (buf, c') \<Rightarrow> (advance (length buf) ws, Some (unmask be ws buf, c')))"
  unfolding read_frame_data_def peek_left_def advance_def unmask_def Let_def ..

lemma read_frame_data_part:
  assumes "to_read ws p" "p \<noteq> []" "0 < len" "unat (ws_payload_nread ws) + len < 2 ^ 64"
    and "part_ok rd1 contents" "contents c = wire_left be ws p @ rest"
  shows "\<exists>k c'. 0 < k \<and> k \<le> length p \<and>
    read_frame_data be rd1 len ws c = (advance k ws, Some (take k p, c')) \<and>
    contents c' = wire_left be (advance k ws) (drop k p) @ rest"
proof -
  have wl: "length (wire_left be ws p) = length p" by (simp add: wire_left_def)
  have "wire_left be ws p \<noteq> []" using wl assms(2) by (metis length_0_conv)
  then have n: "0 < min len (length p)" "contents c \<noteq> []" using assms(2,3,6) by auto
  obtain k c' where k: "0 < k" "k \<le> min len (length p)" "k \<le> length (contents c)"
      "rd1 c (min len (length p)) = Some (take k (contents c), c')" "contents c' = drop k (contents c)"
    using assms(5) n unfolding part_ok_def by blast
  have t: "take k (contents c) = on_the_wire (mem_key be (ws_header ws)) (ws_payload_nread ws) (take k p)"
    using k(2) wl assms(6) by (simp add: on_the_wire_take wire_left_def)
  have "unmask be ws (take k (contents c)) = take k p" unfolding t unmask_eq by simp
  moreover have "length (take k (contents c)) = k" using k(3) by simp
  ultimately have "read_frame_data be rd1 len ws c = (advance k ws, Some (take k p, c'))"
    using assms(2) to_read_done [OF assms(1)] peek_left_eq [OF assms(1,4)] k(4)
    by (simp add: read_frame_data_eq)
  moreover have "contents c' = wire_left be (advance k ws) (drop k p) @ rest"
    using k(2,5) assms(6) wl to_read_advance(2) [OF assms(1), of k be] by simp
  ultimately show ?thesis using k(1,2) by auto
qed

lemma read_pieces_all:
  assumes "to_read ws p" "\<And>n. n \<in> set ns \<Longrightarrow> 0 < n \<and> unat (fh_payload_len (ws_header ws)) + n < 2 ^ 64"
    and "length p \<le> length ns" "part_ok rd1 contents" "contents c = wire_left be ws p @ rest"
  shows "\<exists>ws' c'. read_pieces be rd1 ns ws c = Some (ws', p, c') \<and> contents c' = rest"
  using assms(1,2,3,5)
proof (induction ns arbitrary: ws p c)
  case Nil
  then show ?case by (simp add: wire_left_def)
next
  case (Cons n ns)
  show ?case
  proof (cases "p = []")
    case True
    then have "read_frame_data be rd1 n ws c = (ws, Some ([], c))"
      using to_read_done [OF Cons.prems(1)] by (simp add: read_frame_data_eq)
    then show ?thesis using Cons.IH [of ws "[]" c] Cons.prems True by auto
  next
    case False
    have n: "0 < n" "unat (ws_payload_nread ws) + n < 2 ^ 64"
      using Cons.prems(1) Cons.prems(2) [of n] by (auto simp: to_read_def)
    obtain k c' where k: "0 < k" "k \<le> length p"
        "read_frame_data be rd1 n ws c = (advance k ws, Some (take k p, c'))"
        "contents c' = wire_left be (advance k ws) (drop k p) @ rest"
      using read_frame_data_part [OF Cons.prems(1) False n assms(4) Cons.prems(4)] by blast
    have "\<exists>ws' c''. read_pieces be rd1 ns (advance k ws) c' = Some (ws', drop k p, c'') \<and> contents c'' = rest"
    proof (rule Cons.IH)
      show "to_read (advance k ws) (drop k p)" using to_read_advance(1) [OF Cons.prems(1) k(2)] .
      show "length (drop k p) \<le> length ns" using Cons.prems(3) k(1) by simp
      show "contents c' = wire_left be (advance k ws) (drop k p) @ rest" by (rule k(4))
      show "0 < m \<and> unat (fh_payload_len (ws_header (advance k ws))) + m < 2 ^ 64" if "m \<in> set ns" for m
        using Cons.prems(2) [of m] that by (simp add: advance_def)
    qed
    then show ?thesis using k(3) by auto
  qed
qed

text \<open>A frame read from a blocking stream: the header, then its payload in pieces.\<close>

lemma seen_to_read:
  assumes "length d = unat (fh_payload_len h)" "\<not> (fh_mask h \<and> fh_payload_len h = 0)"
    and "ws_header ws = frame_seen be h h0" "ws_payload_nread ws = 0"
  shows "to_read ws d" "wire_left be ws d = on_the_wire (key_of h) 0 d"
proof -
  show "to_read ws d" using assms by (simp add: to_read_def)
  have "mem_key be (ws_header ws) = key_of h"
    using assms(2,3) by (auto simp: mem_key_def key_of_def masked_def)
  then show "wire_left be ws d = on_the_wire (key_of h) 0 d" using assms(4) by (simp add: wire_left_def)
qed

lemma read_frame_back:
  assumes "stream_ok rd contents" "part_ok rd1 contents" "contents c = frame_wire h d @ rest"
    and "length d = unat (fh_payload_len h)" "\<not> (fh_mask h \<and> fh_payload_len h = 0)"
    and "\<And>n. n \<in> set ns \<Longrightarrow> 0 < n \<and> unat (fh_payload_len h) + n < 2 ^ 64" "length d \<le> length ns"
  shows "\<exists>ws1 c1 ws2 c2. read_frame_head be rd ws c = (ws1, Some c1) \<and>
    fh_fin (ws_header ws1) = fh_fin h \<and> fh_opcode (ws_header ws1) = fh_opcode h \<and>
    fh_payload_len (ws_header ws1) = fh_payload_len h \<and>
    read_pieces be rd1 ns ws1 c1 = Some (ws2, d, c2) \<and> contents c2 = rest"
proof -
  let ?ws1 = "(ws_reset ws)\<lparr>ws_header := frame_seen be h (ws_header (ws_reset ws))\<rparr>"
  obtain c1 where c1: "read_frame_head be rd ws c = (?ws1, Some c1)"
      "contents c1 = on_the_wire (key_of h) 0 d @ rest"
    using read_frame_head_back [OF assms(1), of c h "on_the_wire (key_of h) 0 d @ rest" be ws] assms(3)
    by (auto simp: frame_wire_def)
  have tr: "to_read ?ws1 d" "wire_left be ?ws1 d = on_the_wire (key_of h) 0 d"
    by (rule seen_to_read [OF assms(4,5)], simp_all)+
  have "\<exists>ws2 c2. read_pieces be rd1 ns ?ws1 c1 = Some (ws2, d, c2) \<and> contents c2 = rest"
    by (rule read_pieces_all [OF tr(1) _ assms(7,2)]) (use assms(6) c1(2) tr(2) in simp_all)
  with c1(1) show ?thesis by auto
qed

end
