(* ===== verification/WsClient.thy ===== *)
theory WsClient
  imports WebsocketData
begin

text \<open>
  The WebSocket side of the event-driven HTTP client (\<^verbatim>\<open>http/http_aclient.cpp\<close>): what
  \<^verbatim>\<open>read_wakeup\<close> does with the bytes that have arrived, once the handshake is over.

  \<open>closed\<close> says whether the peer has closed behind those bytes (then \<^verbatim>\<open>eof\<close> is true when a read
  finds nothing). The virtual methods of the application are the fields of a record; each
  works on the application's own state. The event loop calls \<^verbatim>\<open>read_wakeup\<close> again while
  bytes are left in the stream's buffer, which is \<^const>\<open>run\<close>.
\<close>

section \<open>The client\<close>

record 'u ws_app =
  app_text :: "'u \<Rightarrow> bool \<times> 'u"
  app_binary :: "'u \<Rightarrow> bool \<times> 'u"
  app_closed :: "'u \<Rightarrow> 'u"
  app_data :: "byte list \<Rightarrow> 'u \<Rightarrow> bool \<times> 'u"
  app_finish :: "'u \<Rightarrow> bool \<times> 'u"
  app_ping :: "byte list \<Rightarrow> 'u \<Rightarrow> byte list \<times> 'u"
  app_pong :: "byte list \<Rightarrow> 'u \<Rightarrow> 'u"

record 'u ws_client =
  wc_in :: websocket
  wc_out :: websocket
  wc_buff :: "byte list option"
  wc_user :: 'u

text \<open>The two ends that \<^verbatim>\<open>ws_handshake\<close> makes; the one for output masks with the key ~0.\<close>

definition ws_handshake :: "'u \<Rightarrow> 'u ws_client" where
  "ws_handshake u = \<lparr>wc_in = websocket_new, wc_out = set_frame_masking_key (NOT 0) websocket_new,
     wc_buff = None, wc_user = u\<rparr>"

definition ws_send ::
  "(bool \<Rightarrow> (nat \<Rightarrow> byte) \<Rightarrow> byte list option \<Rightarrow> websocket \<Rightarrow> websocket \<times> byte list option \<times> bool) \<Rightarrow>
   bool \<Rightarrow> (nat \<Rightarrow> byte) \<Rightarrow> byte list option \<Rightarrow> 'u ws_client \<Rightarrow> 'u ws_client \<times> byte list option \<times> bool" where
  "ws_send f be junk data st =
     (case f be junk data (wc_out st) of (ws, d, ok) \<Rightarrow> (st\<lparr>wc_out := ws\<rparr>, d, ok))"

definition ws_send_text where "ws_send_text = ws_send send_frame_text_aio"
definition ws_send_binary where "ws_send_binary = ws_send send_frame_binary_aio"
definition ws_send_ping where "ws_send_ping = ws_send send_frame_ping_aio"
definition ws_send_pong where "ws_send_pong = ws_send send_frame_pong_aio"

text \<open>
  The loop that the four handlers of a payload have: \<open>peekf\<close> gets the next piece, \<open>on_d\<close> takes
  it, \<open>on_eof\<close> is done when the peer has closed, and \<open>finished\<close> when the payload is complete.
\<close>

partial_function (option) ws_loop ::
  "(websocket \<Rightarrow> byte list \<Rightarrow> peeked) \<Rightarrow> bool \<Rightarrow>
   (byte list \<Rightarrow> 'u ws_client \<Rightarrow> bool \<times> 'u ws_client) \<Rightarrow> ('u ws_client \<Rightarrow> 'u ws_client) \<Rightarrow>
   ('u ws_client \<Rightarrow> byte list \<Rightarrow> 'u ws_client hres) \<Rightarrow>
   'u ws_client \<Rightarrow> byte list \<Rightarrow> 'u ws_client hres option" where
  "ws_loop peekf closed on_d on_eof finished st avail =
     (case peekf (wc_in st) avail of
        PeekAbort \<Rightarrow> Some Abort
      | Peeked ws None rest \<Rightarrow>
          if closed then Some (Fail (on_eof (st\<lparr>wc_in := ws\<rparr>))) else Some (Ret (st\<lparr>wc_in := ws\<rparr>) rest)
      | Peeked ws (Some d) rest \<Rightarrow>
          if d = [] then Some (finished (st\<lparr>wc_in := ws\<rparr>) rest)
          else (case on_d d (st\<lparr>wc_in := ws\<rparr>) of
                  (ok, st') \<Rightarrow>
                    if ok then ws_loop peekf closed on_d on_eof finished st' rest else Some (Fail st')))"

definition buff_of :: "'u ws_client \<Rightarrow> byte list" where
  "buff_of st = (case wc_buff st of None \<Rightarrow> [] | Some b \<Rightarrow> b)"

definition with_buff :: "'u ws_client \<Rightarrow> 'u ws_client" where
  "with_buff st = st\<lparr>wc_buff := Some (buff_of st)\<rparr>"

definition clear_buff :: "'u ws_client \<Rightarrow> 'u ws_client" where
  "clear_buff st = st\<lparr>wc_buff := Some []\<rparr>"

definition collect :: "byte list \<Rightarrow> 'u ws_client \<Rightarrow> bool \<times> 'u ws_client" where
  "collect d st = (True, st\<lparr>wc_buff := Some (buff_of st @ d)\<rparr>)"

definition ping_finished ::
  "bool \<Rightarrow> (nat \<Rightarrow> byte) \<Rightarrow> 'u ws_app \<Rightarrow> 'u ws_client \<Rightarrow> byte list \<Rightarrow> 'u ws_client hres" where
  "ping_finished be junk app st rest =
     (case app_ping app (buff_of st) (wc_user st) of
        (b, u) \<Rightarrow>
          if b = [] then Ret (st\<lparr>wc_buff := Some b, wc_user := u\<rparr>) rest
          else case ws_send_pong be junk (Some b) (st\<lparr>wc_user := u\<rparr>) of
            (st', _, ok) \<Rightarrow> if ok then Ret (clear_buff st') rest else Fail (clear_buff st'))"

definition handle_ws_ping ::
  "bool \<Rightarrow> (nat \<Rightarrow> byte) \<Rightarrow> 'u ws_app \<Rightarrow> bool \<Rightarrow> 'u ws_client \<Rightarrow> byte list \<Rightarrow> 'u ws_client hres option" where
  "handle_ws_ping be junk app closed st avail =
     ws_loop (peek_frame_data_str be 1024) closed collect clear_buff (ping_finished be junk app) (with_buff st) avail"

definition handle_ws_pong ::
  "bool \<Rightarrow> 'u ws_app \<Rightarrow> bool \<Rightarrow> 'u ws_client \<Rightarrow> byte list \<Rightarrow> 'u ws_client hres option" where
  "handle_ws_pong be app closed st avail =
     ws_loop (peek_frame_data_str be 1024) closed collect clear_buff
       (\<lambda>st rest. Ret (clear_buff (st\<lparr>wc_user := app_pong app (buff_of st) (wc_user st)\<rparr>)) rest) (with_buff st) avail"

definition handle_ws_other :: "bool \<Rightarrow> bool \<Rightarrow> 'u ws_client \<Rightarrow> byte list \<Rightarrow> 'u ws_client hres option" where
  "handle_ws_other be closed st avail =
     ws_loop (peek_frame_data_str be 1024) closed collect clear_buff
       (\<lambda>st rest. Ret (clear_buff st) rest) (with_buff st) avail"

definition data_finished :: "'u ws_app \<Rightarrow> 'u ws_client \<Rightarrow> byte list \<Rightarrow> 'u ws_client hres" where
  "data_finished app st rest =
     (case app_finish app (wc_user st) of
        (ok, u) \<Rightarrow> if ok then Ret (st\<lparr>wc_user := u\<rparr>) rest else Fail (st\<lparr>wc_user := u\<rparr>))"

definition pass_data :: "'u ws_app \<Rightarrow> byte list \<Rightarrow> 'u ws_client \<Rightarrow> bool \<times> 'u ws_client" where
  "pass_data app d st = (case app_data app d (wc_user st) of (ok, u) \<Rightarrow> (ok, st\<lparr>wc_user := u\<rparr>))"

definition handle_ws_data ::
  "bool \<Rightarrow> 'u ws_app \<Rightarrow> bool \<Rightarrow> 'u ws_client \<Rightarrow> byte list \<Rightarrow> 'u ws_client hres option" where
  "handle_ws_data be app closed st avail =
     ws_loop (peek_frame_data_buf be 8191) closed (pass_data app) (\<lambda>st. st) (data_finished app) st avail"

definition handle_payload ::
  "bool \<Rightarrow> (nat \<Rightarrow> byte) \<Rightarrow> 'u ws_app \<Rightarrow> bool \<Rightarrow> 'u ws_client \<Rightarrow> byte list \<Rightarrow> 'u ws_client hres option" where
  "handle_payload be junk app closed st avail =
     (let opcode = fh_opcode (ws_header (wc_in st)) in
      if opcode = FRAME_TEXT \<or> opcode = FRAME_BINARY then handle_ws_data be app closed st avail
      else if opcode = FRAME_PING then handle_ws_ping be junk app closed st avail
      else if opcode = FRAME_PONG then handle_ws_pong be app closed st avail
      else handle_ws_other be closed st avail)"

text \<open>\<^const>\<open>None\<close>: the frame is one for which the call goes on to the payload.\<close>

definition head_finished :: "'u ws_app \<Rightarrow> 'u ws_client \<Rightarrow> byte list \<Rightarrow> 'u ws_client \<times> 'u ws_client hres option" where
  "head_finished app st rest =
     (let opcode = fh_opcode (ws_header (wc_in st)) in
      if opcode = FRAME_TEXT then
        (case app_text app (wc_user st) of (ok, u) \<Rightarrow>
          let st' = st\<lparr>wc_user := u\<rparr> in (st', if ok then None else Some (Fail st')))
      else if opcode = FRAME_BINARY then
        (case app_binary app (wc_user st) of (ok, u) \<Rightarrow>
          let st' = st\<lparr>wc_user := u\<rparr> in (st', if ok then None else Some (Fail st')))
      else if opcode = FRAME_CLOSE then
        (let st' = st\<lparr>wc_user := app_closed app (wc_user st)\<rparr> in (st', Some (Fail st')))
      else (st, Some (Ret st rest)))"

definition handle_websocket ::
  "bool \<Rightarrow> (nat \<Rightarrow> byte) \<Rightarrow> 'u ws_app \<Rightarrow> bool \<Rightarrow> 'u ws_client \<Rightarrow> byte list \<Rightarrow> 'u ws_client hres option" where
  "handle_websocket be junk app closed st avail =
     (if is_head_finish (wc_in st) then handle_payload be junk app closed st avail
      else case peek_frame_head be (wc_in st) avail of
        None \<Rightarrow> None
      | Some Abort \<Rightarrow> Some Abort
      | Some (Fail ws) \<Rightarrow> Some (Fail (st\<lparr>wc_in := ws\<rparr>))
      | Some (Ret ws rest) \<Rightarrow>
          let st1 = st\<lparr>wc_in := ws\<rparr> in
          if \<not> is_head_finish ws then (if closed then Some (Fail st1) else Some (Ret st1 rest))
          else case head_finished app st1 rest of
            (_, Some r) \<Rightarrow> Some r
          | (st2, None) \<Rightarrow> handle_payload be junk app closed st2 rest)"

section \<open>The loop over a payload\<close>

text \<open>The two peeks as one: \<open>inbuf\<close> for the one that goes through \<^verbatim>\<open>peek_buf_\<close>.\<close>

definition peek_data :: "bool \<Rightarrow> bool \<Rightarrow> nat \<Rightarrow> websocket \<Rightarrow> byte list \<Rightarrow> peeked" where
  "peek_data inbuf be = (if inbuf then peek_frame_data_buf be else peek_frame_data_str be)"

definition keep :: "bool \<Rightarrow> byte list \<Rightarrow> websocket \<Rightarrow> websocket" where
  "keep inbuf d ws = (if inbuf then ws\<lparr>ws_peek_buf := Some d\<rparr> else ws)"

definition payload_left :: "websocket \<Rightarrow> nat" where
  "payload_left ws = unat (fh_payload_len (ws_header ws)) - unat (ws_payload_nread ws)"

lemma keep_simps [simp]:
  "ws_header (keep b d ws) = ws_header ws" "ws_payload_nread (keep b d ws) = ws_payload_nread ws"
  "ws_status (keep b d ws) = ws_status ws" "keep b d (keep b e ws) = keep b d ws"
  "payload_left (keep b d ws) = payload_left ws" "unmask be (keep b d ws) x = unmask be ws x"
  "advance n (keep b d ws) = keep b d (advance n ws)"
  "ws_peek_buf ws \<noteq> None \<Longrightarrow> ws_peek_buf (keep b d ws) \<noteq> None"
  "ws_peek_buf ws \<noteq> None \<Longrightarrow> ws_reset (keep b d ws) = ws_reset ws"
  by (auto simp: keep_def payload_left_def unmask_def advance_def ws_reset_def)

lemma advance_simps [simp]:
  "ws_header (advance n ws) = ws_header ws" "ws_status (advance n ws) = ws_status ws"
  "ws_peek_buf (advance n ws) = ws_peek_buf ws" "advance 0 ws = ws"
  "advance m (advance n ws) = advance (m + n) ws"
  "ws_reset (advance n ws) = ws_reset ws"
  by (simp_all add: advance_def ws_reset_def ac_simps)

text \<open>How far the counter of a frame may get: no connection carries that many bytes.\<close>

definition room :: "websocket \<Rightarrow> nat \<Rightarrow> bool" where
  "room ws n \<longleftrightarrow> unat (ws_payload_nread ws) + n < 2 ^ 63"

lemma nread_advance: "room ws n \<Longrightarrow> unat (ws_payload_nread (advance n ws)) = unat (ws_payload_nread ws) + n"
  by (simp add: advance_def room_def unat_add_ok)

lemma room_advance [simp]: "room ws (n + m) \<Longrightarrow> room (advance n ws) m"
  using nread_advance [of ws n] by (simp add: room_def)

lemma left_advance: "room ws n \<Longrightarrow> payload_left (advance n ws) = payload_left ws - n"
  using nread_advance [of ws n] by (simp add: payload_left_def)

lemma unmask_append: "unmask be ws (xs @ ys) = unmask be ws xs @ unmask be (advance (length xs) ws) ys"
  by (simp add: unmask_eq on_the_wire_append advance_def)

lemma unmask_Nil [simp]: "unmask be ws [] = []" "unmask be ws xs = [] \<longleftrightarrow> xs = []"
  by (simp_all add: unmask_eq) (metis length_0_conv on_the_wire_simps(1))

lemma peek_data_eq:
  assumes "ws_peek_buf ws \<noteq> None" "room ws 0" "0 < cap" "cap \<le> 8191"
  shows "peek_data inbuf be cap ws xs =
    (let k = min (min cap (payload_left ws)) (length xs) in
     if payload_left ws = 0 then Peeked (ws_reset ws) (Some []) xs
     else if xs = [] then Peeked (keep inbuf [] ws) None []
     else Peeked (keep inbuf (take k xs) (advance k ws)) (Some (unmask be ws (take k xs))) (drop k xs))"
proof (cases "payload_left ws = 0")
  case True
  then have "fh_payload_len (ws_header ws) \<le> ws_payload_nread ws"
    by (simp add: payload_left_def word_le_nat_alt)
  with True show ?thesis
    by (simp add: peek_data_def peek_frame_data_buf_def peek_frame_data_str_def)
next
  case False
  then have less: "\<not> fh_payload_len (ws_header ws) \<le> ws_payload_nread ws"
    by (simp add: payload_left_def word_le_nat_alt)
  then have "to_read ws (replicate (payload_left ws) 0)"
    by (simp add: to_read_def payload_left_def word_le_nat_alt)
  from peek_left_eq [OF this, of cap] assms have left: "peek_left cap ws = min cap (payload_left ws)"
    by (simp add: room_def)
  define n where "n = min cap (payload_left ws)"
  have n: "0 < n" "n < 2 ^ 31" using False assms by (auto simp: n_def)
  have rd: "readn_peek [] n xs = Some (take n xs, drop n xs, n \<le> length xs)"
    using readn_peek_small [OF n] by simp
  have k: "take (min n (length xs)) xs = take n xs" "drop (min n (length xs)) xs = drop n xs"
    by (simp_all add: min_def)
  obtain b where b: "ws_peek_buf ws = Some b" using assms(1) by auto
  have swap: "ws\<lparr>ws_peek_buf := p, ws_payload_nread := r\<rparr> = ws\<lparr>ws_payload_nread := r, ws_peek_buf := p\<rparr>" for p r
    by (cases ws) simp
  show ?thesis
  proof (cases "xs = []")
    case True
    then show ?thesis
      using less rd n False b
      by (auto simp: peek_data_def peek_frame_data_buf_def peek_frame_data_str_def left n_def [symmetric] keep_def)
  next
    case xs: False
    then have "take n xs \<noteq> []" using n by simp
    then show ?thesis
      using less rd n False b xs
      by (auto simp: peek_data_def peek_frame_data_buf_def peek_frame_data_str_def left n_def [symmetric] keep_def
          advance_def Let_def k swap min.commute [of "length xs" n])
  qed
qed

text \<open>
  What a piece does to the client, for handlers that never refuse one and for which two pieces
  in a row are the same as the two joined.
\<close>

definition calm_sink ::
  "(byte list \<Rightarrow> 'u ws_client \<Rightarrow> bool \<times> 'u ws_client) \<Rightarrow> (byte list \<Rightarrow> 'u ws_client \<Rightarrow> 'u ws_client) \<Rightarrow> bool" where
  "calm_sink on_d g \<longleftrightarrow>
     (\<forall>d st w. d \<noteq> [] \<longrightarrow> on_d d (st\<lparr>wc_in := w\<rparr>) = (True, (g d st)\<lparr>wc_in := w\<rparr>)) \<and>
     (\<forall>st. g [] st = st) \<and> (\<forall>d st w. g d (st\<lparr>wc_in := w\<rparr>) = (g d st)\<lparr>wc_in := w\<rparr>) \<and>
     (\<forall>d e st. g (d @ e) st = g e (g d st))"

lemma ws_loop_eq:
  assumes sink: "calm_sink on_d g"
    and "ws_peek_buf (wc_in st) \<noteq> None" "room (wc_in st) (length xs)" "0 < cap" "cap \<le> 8191"
  shows "ws_loop (peek_data inbuf be cap) False on_d on_eof finished st xs =
    (let ws = wc_in st; n = payload_left ws in
     if length xs < n
     then Some (Ret ((g (unmask be ws xs) st)\<lparr>wc_in := keep inbuf [] (advance (length xs) ws)\<rparr>) [])
     else Some (finished ((g (unmask be ws (take n xs)) st)\<lparr>wc_in := ws_reset ws\<rparr>) (drop n xs)))"
  using assms(2,3)
proof (induction "length xs" arbitrary: st xs rule: less_induct)
  case less
  let ?ws = "wc_in st"
  let ?n = "payload_left ?ws"
  define k where "k = min (min cap (payload_left ?ws)) (length xs)"
  have room0: "room ?ws 0" using less.prems(2) by (simp add: room_def)
  note peek = peek_data_eq [OF less.prems(1) room0 assms(4,5), of inbuf be xs, folded k_def]
  have g: "d \<noteq> [] \<Longrightarrow> on_d d (s\<lparr>wc_in := w\<rparr>) = (True, (g d s)\<lparr>wc_in := w\<rparr>)" "g [] s = s"
    "g (d @ e) s = g e (g d s)" "g d (s\<lparr>wc_in := w\<rparr>) = (g d s)\<lparr>wc_in := w\<rparr>" for d e s w
    using sink unfolding calm_sink_def by metis+
  consider "?n = 0" | "?n \<noteq> 0" "xs = []" | "?n \<noteq> 0" "xs \<noteq> []" by blast
  then show ?case
  proof cases
    case 1
    with peek show ?thesis by (subst ws_loop.simps) (simp add: g)
  next
    case 2
    with peek show ?thesis by (subst ws_loop.simps) (simp add: g)
  next
    case 3
    then have k: "0 < k" "k \<le> length xs" "k \<le> ?n" using assms(4) by (auto simp: k_def)
    let ?d = "take k xs"
    let ?w = "keep inbuf ?d (advance k ?ws)"
    let ?st = "(g (unmask be ?ws ?d) st)\<lparr>wc_in := ?w\<rparr>"
    have d: "unmask be ?ws ?d \<noteq> []" using k by auto
    have step: "ws_loop (peek_data inbuf be cap) False on_d on_eof finished st xs =
        ws_loop (peek_data inbuf be cap) False on_d on_eof finished ?st (drop k xs)"
      using peek 3 k(1) by (subst ws_loop.simps) (simp add: g Let_def)
    have rm: "room ?ws k" "room ?w (length (drop k xs))" using less.prems(2) k
      by (auto simp: room_def nread_advance)
    have IH: "ws_loop (peek_data inbuf be cap) False on_d on_eof finished ?st (drop k xs) =
      (let ws = ?w; n = payload_left ws in
       if length (drop k xs) < n
       then Some (Ret ((g (unmask be ws (drop k xs)) ?st)\<lparr>wc_in := keep inbuf [] (advance (length (drop k xs)) ws)\<rparr>) [])
       else Some (finished ((g (unmask be ws (take n (drop k xs))) ?st)\<lparr>wc_in := ws_reset ws\<rparr>) (drop n (drop k xs))))"
      using less.hyps [of "drop k xs" ?st] k rm(2) less.prems(1) by simp
    have u: "unmask be ?ws xs = unmask be ?ws ?d @ unmask be (advance k ?ws) (drop k xs)"
      using unmask_append [of be ?ws ?d "drop k xs"] k(2) by (simp add: min_def)
    have u': "unmask be ?ws (take ?n xs) = unmask be ?ws ?d @ unmask be (advance k ?ws) (take (?n - k) (drop k xs))"
    proof -
      have "take ?n xs = ?d @ take (?n - k) (drop k xs)" using k(3) by (metis le_add_diff_inverse take_add)
      then show ?thesis using unmask_append [of be ?ws ?d] k(2) by simp
    qed
    have gu: "g (unmask be ?ws xs) st = g (unmask be (advance k ?ws) (drop k xs)) (g (unmask be ?ws ?d) st)"
      "g (unmask be ?ws (take ?n xs)) st =
        g (unmask be (advance k ?ws) (take (?n - k) (drop k xs))) (g (unmask be ?ws ?d) st)"
      unfolding u' by (subst u, rule g(3)) (rule g(3))
    show ?thesis
      unfolding step IH using k left_advance [OF rm(1)] less.prems(1)
      by (auto simp: Let_def g gu [symmetric])
  qed
qed

end
