(* ===== verification/WsSession.thy ===== *)
theory WsSession
  imports WsClient
begin

text \<open>
  What a frame does to the event-driven client, and that it does not depend on how the bytes
  arrive: the client meets the contract of a session.
\<close>

section \<open>What a frame does to the client\<close>

text \<open>
  An application that never refuses a frame, and for which data that come in two pieces are the
  same as the data in one.
\<close>

definition calm_app :: "'u ws_app \<Rightarrow> bool" where
  "calm_app app \<longleftrightarrow> (\<forall>u. fst (app_text app u) \<and> fst (app_binary app u) \<and> fst (app_finish app u) \<and>
     (\<forall>d. fst (app_data app d u)) \<and>
     (\<forall>d e. d \<noteq> [] \<longrightarrow> e \<noteq> [] \<longrightarrow>
        snd (app_data app (d @ e) u) = snd (app_data app e (snd (app_data app d u)))))"

definition data_user :: "'u ws_app \<Rightarrow> byte list \<Rightarrow> 'u \<Rightarrow> 'u" where
  "data_user app d u = (if d = [] then u else snd (app_data app d u))"

definition is_data_op :: "4 word \<Rightarrow> bool" where
  "is_data_op p \<longleftrightarrow> p = FRAME_TEXT \<or> p = FRAME_BINARY"

definition enter :: "'u ws_app \<Rightarrow> 4 word \<Rightarrow> 'u ws_client \<Rightarrow> 'u ws_client" where
  "enter app p st =
     (if p = FRAME_TEXT then st\<lparr>wc_user := snd (app_text app (wc_user st))\<rparr>
      else if p = FRAME_BINARY then st\<lparr>wc_user := snd (app_binary app (wc_user st))\<rparr> else st)"

definition prepare :: "4 word \<Rightarrow> 'u ws_client \<Rightarrow> 'u ws_client" where
  "prepare p st = (if is_data_op p then st else with_buff st)"

definition sink :: "'u ws_app \<Rightarrow> bool \<Rightarrow> byte list \<Rightarrow> 'u ws_client \<Rightarrow> 'u ws_client" where
  "sink app data d st =
     (if data then st\<lparr>wc_user := data_user app d (wc_user st)\<rparr>
      else if d = [] then st else st\<lparr>wc_buff := Some (buff_of st @ d)\<rparr>)"

definition leave :: "bool \<Rightarrow> (nat \<Rightarrow> byte) \<Rightarrow> 'u ws_app \<Rightarrow> 4 word \<Rightarrow> 'u ws_client \<Rightarrow> 'u ws_client" where
  "leave be junk app p st =
     (if is_data_op p then st\<lparr>wc_user := snd (app_finish app (wc_user st))\<rparr>
      else if p = FRAME_PING then
        (case app_ping app (buff_of st) (wc_user st) of
           (b, u) \<Rightarrow> if b = [] then st\<lparr>wc_buff := Some b, wc_user := u\<rparr>
                     else clear_buff (fst (ws_send_pong be junk (Some b) (st\<lparr>wc_user := u\<rparr>))))
      else if p = FRAME_PONG then clear_buff (st\<lparr>wc_user := app_pong app (buff_of st) (wc_user st)\<rparr>)
      else clear_buff st)"

definition frame_effect ::
  "bool \<Rightarrow> (nat \<Rightarrow> byte) \<Rightarrow> 'u ws_app \<Rightarrow> 4 word \<Rightarrow> byte list \<Rightarrow> 'u ws_client \<Rightarrow> 'u ws_client" where
  "frame_effect be junk app p d st = leave be junk app p (sink app (is_data_op p) d (prepare p (enter app p st)))"

text \<open>None of it looks at the reading end.\<close>

lemma buff_of_in [simp]: "buff_of (st\<lparr>wc_in := w\<rparr>) = buff_of st"
  by (simp add: buff_of_def)

lemma ws_send_pong_simps [simp]:
  "fst (ws_send_pong be junk d (st\<lparr>wc_in := w\<rparr>)) = (fst (ws_send_pong be junk d st))\<lparr>wc_in := w\<rparr>"
  "wc_in (fst (ws_send_pong be junk d st)) = wc_in st"
  by (simp_all add: ws_send_pong_def ws_send_def split: prod.split)

lemma effect_in [simp]:
  "prepare p (st\<lparr>wc_in := w\<rparr>) = (prepare p st)\<lparr>wc_in := w\<rparr>"
  "enter app p (st\<lparr>wc_in := w\<rparr>) = (enter app p st)\<lparr>wc_in := w\<rparr>"
  "sink app data d (st\<lparr>wc_in := w\<rparr>) = (sink app data d st)\<lparr>wc_in := w\<rparr>"
  by (simp_all add: prepare_def enter_def sink_def with_buff_def)

lemma leave_in [simp]: "leave be junk app p (st\<lparr>wc_in := w\<rparr>) = (leave be junk app p st)\<lparr>wc_in := w\<rparr>"
proof -
  have swap: "st\<lparr>wc_in := w, wc_user := u\<rparr> = st\<lparr>wc_user := u, wc_in := w\<rparr>" for u by simp
  show ?thesis by (simp add: leave_def clear_buff_def swap split: prod.split)
qed

lemma wc_in_effects [simp]:
  "wc_in (prepare p st) = wc_in st" "wc_in (enter app p st) = wc_in st" "wc_in (sink app data d st) = wc_in st"
  "wc_in (leave be junk app p st) = wc_in st"
  by (simp_all add: prepare_def enter_def sink_def leave_def with_buff_def clear_buff_def split: prod.split)

lemma frame_effect_in [simp]:
  "frame_effect be junk app p d (st\<lparr>wc_in := w\<rparr>) = (frame_effect be junk app p d st)\<lparr>wc_in := w\<rparr>"
  by (simp add: frame_effect_def)

lemma sink_Nil [simp]: "sink app data [] st = st"
  by (simp add: sink_def data_user_def)

lemma sink_append: "calm_app app \<Longrightarrow> sink app data (d @ e) st = sink app data e (sink app data d st)"
  by (auto simp: sink_def data_user_def calm_app_def buff_of_def)

lemma prepare_sink [simp]: "prepare p (sink app (is_data_op p) d (prepare p st)) = sink app (is_data_op p) d (prepare p st)"
  by (simp add: prepare_def sink_def with_buff_def buff_of_def)

section \<open>The payload in one step\<close>

lemma collect_sink: "calm_sink collect (sink app False)"
  by (auto simp: calm_sink_def collect_def sink_def buff_of_def)

lemma pass_data_sink: "calm_app app \<Longrightarrow> calm_sink (pass_data app) (sink app True)"
  unfolding calm_sink_def
  by (auto simp: pass_data_def sink_append split: prod.split)
    (auto simp: sink_def data_user_def calm_app_def prod_eq_iff)

text \<open>The answer to a ping always fits the length that is set for it.\<close>

lemma send_pong_ok: "snd (snd (ws_send_pong be junk d st))"
proof -
  have "snd (snd (send_frame_pong_aio be junk d ws))" for ws
    by (auto simp: send_frame_pong_aio_def aio_send_frame_def aio_send_frame_data_def send_frame_data_def Let_def
        set_frame_payload_len_def set_frame_opcode_def set_frame_fin_def split: option.split)
  then show ?thesis by (simp add: ws_send_pong_def ws_send_def split: prod.split) (metis snd_conv)
qed

lemma handle_payload_eq:
  assumes "calm_app app" "ws_peek_buf (wc_in st) \<noteq> None" "room (wc_in st) (length xs)"
  shows "handle_payload be junk app False st xs =
    (let ws = wc_in st; p = fh_opcode (ws_header ws); n = payload_left ws; st0 = prepare p st in
     if length xs < n
     then Some (Ret ((sink app (is_data_op p) (unmask be ws xs) st0)
            \<lparr>wc_in := keep (is_data_op p) [] (advance (length xs) ws)\<rparr>) [])
     else Some (Ret ((leave be junk app p (sink app (is_data_op p) (unmask be ws (take n xs)) st0))
            \<lparr>wc_in := ws_reset ws\<rparr>) (drop n xs)))"
proof -
  let ?ws = "wc_in st"
  let ?p = "fh_opcode (ws_header ?ws)"
  show ?thesis
  proof (cases "is_data_op ?p")
    case True
    have fin: "data_finished app s r = Ret (leave be junk app ?p s) r" for s r
      using assms(1) True by (simp add: data_finished_def leave_def calm_app_def split: prod.split)
        (metis prod.collapse prod.inject)
    have "handle_payload be junk app False st xs = handle_ws_data be app False st xs"
      using True by (simp add: handle_payload_def is_data_op_def)
    then show ?thesis
      using ws_loop_eq [OF pass_data_sink [OF assms(1)] assms(2,3), of 8191 True be "\<lambda>st. st" "data_finished app"] True
      by (simp add: handle_ws_data_def peek_data_def fin prepare_def Let_def)
  next
    case False
    have b: "ws_peek_buf (wc_in (with_buff st)) \<noteq> None" "room (wc_in (with_buff st)) (length xs)"
      using assms by (simp_all add: with_buff_def)
    have fin: "(if ?p = FRAME_PING then ping_finished be junk app s r
        else if ?p = FRAME_PONG then Ret (clear_buff (s\<lparr>wc_user := app_pong app (buff_of s) (wc_user s)\<rparr>)) r
        else Ret (clear_buff s) r) = Ret (leave be junk app ?p s) r" for s r
    proof -
      have "ok" if "ws_send_pong be junk d t = (t', d', ok)" for d t t' d' ok
        using send_pong_ok [of be junk d t] that by simp
      then show ?thesis using False by (auto simp: leave_def ping_finished_def split: prod.split)
    qed
    have "handle_payload be junk app False st xs = ws_loop (peek_frame_data_str be 1024) False collect clear_buff
        (\<lambda>s r. if ?p = FRAME_PING then ping_finished be junk app s r
        else if ?p = FRAME_PONG then Ret (clear_buff (s\<lparr>wc_user := app_pong app (buff_of s) (wc_user s)\<rparr>)) r
        else Ret (clear_buff s) r) (with_buff st) xs"
      using False unfolding handle_payload_def is_data_op_def handle_ws_ping_def handle_ws_pong_def
        handle_ws_other_def Let_def
      by (cases "?p = FRAME_PING"; cases "?p = FRAME_PONG") simp_all
    then show ?thesis
      using ws_loop_eq [OF collect_sink [of app] b, of 1024 False be clear_buff "\<lambda>s r. Ret (leave be junk app ?p s) r"] False
      unfolding fin by (simp add: peek_data_def prepare_def Let_def with_buff_def)
  qed
qed

section \<open>The contract of a session\<close>

definition wc_inv :: "'u ws_client \<Rightarrow> bool" where
  "wc_inv st \<longleftrightarrow> (if is_head_finish (wc_in st) then ws_peek_buf (wc_in st) \<noteq> None
     else reader_inv (wc_in st) \<and> ws_payload_nread (wc_in st) = 0)"

definition wc_good :: "'u ws_client \<Rightarrow> byte list \<Rightarrow> bool" where
  "wc_good st xs \<longleftrightarrow> room (wc_in st) (length xs)"

lemma reset_inv [simp]: "ws_peek_buf ws \<noteq> None \<Longrightarrow> wc_inv (st\<lparr>wc_in := ws_reset ws\<rparr>)"
  by (auto simp: wc_inv_def reader_inv_def peek_inv_def with_peek_buf_def ws_reset_def is_head_finish_def
      peek_need_def)

lemma nread_peek_apply: "ws_payload_nread (peek_apply be c f ws) = ws_payload_nread ws"
  by (cases c) (simp_all add: peek_apply_def update_head_2bytes_def after_len_def Let_def)

lemma peek_frame_head_keeps:
  assumes "peek_frame_head be ws xs = Some (Ret ws' rest)" "reader_inv ws"
  shows "ws_payload_nread ws' = ws_payload_nread ws" "ws_peek_buf ws' \<noteq> None" "length rest \<le> length xs"
proof -
  have "case r of Ret ws' rest \<Rightarrow> peek_inv w \<longrightarrow>
      ws_payload_nread ws' = ws_payload_nread w \<and> ws_peek_buf ws' \<noteq> None \<and> length rest \<le> length xs | _ \<Rightarrow> True"
    if "update_loop is_head_finish (peek_handler be) w xs = Some r" for r w
    using that
  proof (induction rule: update_loop_induct)
    case (stop s data)
    then show ?case by (auto simp: peek_inv_def split: option.splits)
  next
    case (step s data s' rest r)
    have "ws_payload_nread s' = ws_payload_nread s" "length rest \<le> length data" "peek_inv s'" if "peek_inv s"
    proof -
      show "peek_inv s'" using peek.inv_step step.hyps that by blast
      show "ws_payload_nread s' = ws_payload_nread s" "length rest \<le> length data"
        by (rule peek_handler_eq [OF that step.hyps(2), of be];
            use step.hyps(3) in \<open>auto split: if_splits simp: nread_peek_apply\<close>)+
    qed
    with step.IH show ?case by (auto split: hres.splits)
  qed auto
  from this [of "with_peek_buf ws" "Ret ws' rest"] assms
  show "ws_payload_nread ws' = ws_payload_nread ws" "ws_peek_buf ws' \<noteq> None" "length rest \<le> length xs"
    by (auto simp: peek_frame_head_def reader_inv_def with_peek_buf_def split: if_splits)
qed

lemma finish_advance [simp]:
  "is_head_finish (keep b d ws) = is_head_finish ws" "is_head_finish (advance n ws) = is_head_finish ws"
  by (simp_all add: is_head_finish_def)

lemma payload_cut:
  assumes "calm_app app" "wc_inv st" "is_head_finish (wc_in st)" "wc_good st (xs @ ys)"
  shows "\<exists>st' rest. handle_payload be junk app False st xs = Some (Ret st' rest) \<and>
    wc_inv st' \<and> wc_good st' (rest @ ys) \<and>
    (handle_payload be junk app False st (xs @ ys) = Some (Ret st' (rest @ ys)) \<or>
     rest = [] \<and> is_head_finish (wc_in st') \<and>
     handle_payload be junk app False st (xs @ ys) = handle_payload be junk app False st' ys)"
proof -
  let ?ws = "wc_in st"
  let ?p = "fh_opcode (ws_header ?ws)" and ?n = "payload_left ?ws"
  let ?w = "keep (is_data_op ?p) [] (advance (length xs) ?ws)"
  let ?st = "(sink app (is_data_op ?p) (unmask be ?ws xs) (prepare ?p st))\<lparr>wc_in := ?w\<rparr>"
  have pb: "ws_peek_buf ?ws \<noteq> None" using assms(2,3) by (simp add: wc_inv_def)
  have rm: "room ?ws (length xs + length ys)" "room ?ws (length xs)" "room ?ws (length (xs @ ys))"
    using assms(4) by (simp_all add: wc_good_def room_def)
  note eq = handle_payload_eq [OF assms(1) pb, of _ be junk]
  show ?thesis
  proof (cases "length xs < ?n")
    case True
    have pb': "ws_peek_buf (wc_in ?st) \<noteq> None" "room (wc_in ?st) (length ys)"
      using pb room_advance [OF rm(1)] by (simp_all add: room_def)
    have l: "payload_left ?w = ?n - length xs" using left_advance [OF rm(2)] by simp
    have "handle_payload be junk app False st (xs @ ys) = handle_payload be junk app False ?st ys"
      unfolding eq [OF rm(3)] handle_payload_eq [OF assms(1) pb', of be junk]
      using True pb l by (auto simp: Let_def unmask_append sink_append [OF assms(1)] add.commute [of "length ys"])
    moreover have "wc_inv ?st" "wc_good ?st ys" "is_head_finish (wc_in ?st)"
      using assms(3) pb' by (simp_all add: wc_inv_def wc_good_def)
    ultimately show ?thesis using eq [OF rm(2)] True by (auto simp: Let_def)
  next
    case False
    let ?st' = "(leave be junk app ?p (sink app (is_data_op ?p) (unmask be ?ws (take ?n xs)) (prepare ?p st)))
            \<lparr>wc_in := ws_reset ?ws\<rparr>"
    have "handle_payload be junk app False st xs = Some (Ret ?st' (drop ?n xs))"
      "handle_payload be junk app False st (xs @ ys) = Some (Ret ?st' (drop ?n xs @ ys))"
      using eq [OF rm(2)] eq [OF rm(3)] False by (simp_all add: Let_def)
    moreover have "wc_inv ?st'" using pb by (rule reset_inv)
    moreover have "wc_good ?st' (drop ?n xs @ ys)" using rm(1) by (auto simp: wc_good_def room_def)
    ultimately show ?thesis by blast
  qed
qed

lemma head_finished_calm:
  assumes "calm_app app"
  shows "head_finished app st rest =
    (let p = fh_opcode (ws_header (wc_in st)) in
     if is_data_op p then (enter app p st, None)
     else if p = FRAME_CLOSE
     then (st\<lparr>wc_user := app_closed app (wc_user st)\<rparr>, Some (Fail (st\<lparr>wc_user := app_closed app (wc_user st)\<rparr>)))
     else (st, Some (Ret st rest)))"
proof -
  have "fst (app_text app (wc_user st))" "fst (app_binary app (wc_user st))"
    using assms by (simp_all add: calm_app_def)
  then show ?thesis
    by (cases "app_text app (wc_user st)"; cases "app_binary app (wc_user st)")
      (simp add: head_finished_def is_data_op_def enter_def Let_def FRAME_TEXT_def FRAME_BINARY_def)
qed

lemma handle_websocket_cut:
  assumes calm: "calm_app app" and inv: "wc_inv st" and xs: "xs \<noteq> []" and ys: "ys \<noteq> []"
    and good: "wc_good st (xs @ ys)"
  shows "case handle_websocket be junk app False st xs of
      None \<Rightarrow> handle_websocket be junk app False st (xs @ ys) = None
    | Some Abort \<Rightarrow> handle_websocket be junk app False st (xs @ ys) = Some Abort
    | Some (Fail s') \<Rightarrow> handle_websocket be junk app False st (xs @ ys) = Some (Fail s')
    | Some (Ret s' rest) \<Rightarrow> wc_inv s' \<and> wc_good s' (rest @ ys) \<and>
        (handle_websocket be junk app False st (xs @ ys) = Some (Ret s' (rest @ ys)) \<or>
         rest = [] \<and> handle_websocket be junk app False st (xs @ ys) = handle_websocket be junk app False s' ys)"
proof (cases "is_head_finish (wc_in st)")
  case True
  then have h: "handle_websocket be junk app False st zs = handle_payload be junk app False st zs" for zs
    by (simp add: handle_websocket_def)
  from payload_cut [OF calm inv True good, of be junk] show ?thesis
    unfolding h by (auto simp: handle_websocket_def)
next
  case False
  then have ri: "reader_inv (wc_in st)" "ws_payload_nread (wc_in st) = 0" using inv by (simp_all add: wc_inv_def)
  obtain r where r: "peek_frame_head be (wc_in st) xs = Some r"
    using peek.update_returns [of "with_peek_buf (wc_in st)" be xs] ri(1)
    by (auto simp: peek_frame_head_def reader_inv_def with_peek_buf_def)
  show ?thesis
  proof (cases r)
    case Abort
    then show ?thesis using False r peek_call.upd_abort [OF ri(1) False xs, of be ys] by (simp add: handle_websocket_def)
  next
    case (Fail ws)
    then show ?thesis using False r peek_call.upd_fail [OF ri(1) False xs, of be ws ys] by (simp add: handle_websocket_def)
  next
    case (Ret ws rest)
    with r have r: "peek_frame_head be (wc_in st) xs = Some (Ret ws rest)" by simp
    let ?p = "fh_opcode (ws_header ws)"
    note keeps = peek_frame_head_keeps [OF r ri(1)]
    note more = peek_call.upd_more [OF ri(1) False xs ys r]
    have g: "room ws (length (rest @ ys))" using good keeps ri(2) by (simp add: wc_good_def room_def)
    show ?thesis
    proof (cases "is_head_finish ws")
      case unfinished: False
      have rest: "rest = []" using peek_call.upd_rest [OF ri(1) False xs r] unfinished by blast
      have "wc_inv (st\<lparr>wc_in := ws\<rparr>)" "wc_good (st\<lparr>wc_in := ws\<rparr>) ys"
        using peek_call.upd_inv [OF ri(1) False xs r] keeps ri(2) unfinished g rest
        by (simp_all add: wc_inv_def wc_good_def)
      with unfinished False r more rest show ?thesis
        by (simp add: handle_websocket_def Let_def cong: option.case_cong hres.case_cong)
    next
      case True
      with more have more: "peek_frame_head be (wc_in st) (xs @ ys) = Some (Ret ws (rest @ ys))" by simp
      let ?st = "st\<lparr>wc_in := ws\<rparr>"
      have inv': "wc_inv ?st" "wc_good ?st (rest @ ys)" using True keeps g by (simp_all add: wc_inv_def wc_good_def)
      show ?thesis
      proof (cases "is_data_op ?p")
        case data: True
        have h: "handle_websocket be junk app False st xs = handle_payload be junk app False (enter app ?p ?st) rest"
          "handle_websocket be junk app False st (xs @ ys) = handle_payload be junk app False (enter app ?p ?st) (rest @ ys)"
          using False True r more data by (simp_all add: handle_websocket_def head_finished_calm [OF calm])
        have "wc_inv (enter app ?p ?st)" "wc_good (enter app ?p ?st) (rest @ ys)" "is_head_finish (wc_in (enter app ?p ?st))"
          using inv' True by (simp_all add: wc_inv_def wc_good_def)
        from payload_cut [OF calm this(1,3,2), of be junk] show ?thesis
          unfolding h by (auto simp: handle_websocket_def)
      next
        case nd: False
        then show ?thesis
          using False True r more inv' by (cases "?p = FRAME_CLOSE")
            (simp_all add: handle_websocket_def head_finished_calm [OF calm] Let_def)
      qed
    qed
  qed
qed

interpretation wsc: session "handle_websocket be junk app False" "\<lambda>st. calm_app app \<and> wc_inv st" wc_good
  for be junk and app :: "'u ws_app"
proof
  fix st :: "'u ws_client" and xs ys :: "byte list"
  assume st: "calm_app app \<and> wc_inv st" and xs: "xs \<noteq> []" and ys: "ys \<noteq> []" and good: "wc_good st (xs @ ys)"
  from handle_websocket_cut [OF conjunct1 [OF st] conjunct2 [OF st] xs ys good, of be junk] st
  show "case handle_websocket be junk app False st xs of
      None \<Rightarrow> handle_websocket be junk app False st (xs @ ys) = None
    | Some Abort \<Rightarrow> handle_websocket be junk app False st (xs @ ys) = Some Abort
    | Some (Fail s') \<Rightarrow> handle_websocket be junk app False st (xs @ ys) = Some (Fail s')
    | Some (Ret s' rest) \<Rightarrow> (calm_app app \<and> wc_inv s') \<and> wc_good s' (rest @ ys) \<and>
        (handle_websocket be junk app False st (xs @ ys) = Some (Ret s' (rest @ ys)) \<or>
         rest = [] \<and> handle_websocket be junk app False st (xs @ ys) = handle_websocket be junk app False s' ys)"
    by (simp split: option.splits hres.splits)
qed

section \<open>Whole frames\<close>

definition wc_idle :: "'u ws_client \<Rightarrow> bool" where
  "wc_idle st \<longleftrightarrow> reader_start (wc_in st) \<and> ws_payload_nread (wc_in st) = 0"

lemma wc_idle_reset [simp]: "ws_peek_buf ws \<noteq> None \<Longrightarrow> wc_idle (st\<lparr>wc_in := ws_reset ws\<rparr>)"
  by (auto simp: wc_idle_def reader_start_def ws_reset_def)

lemma wc_idle_inv: "wc_idle st \<Longrightarrow> wc_inv st"
  by (auto simp: wc_idle_def wc_inv_def)

text \<open>
  A frame as it is sent: header and payload fit, it is not one of the masked frames without
  payload, and not a close.
\<close>

definition frame_ok :: "frame_header \<times> byte list \<Rightarrow> bool" where
  "frame_ok f \<longleftrightarrow> length (snd f) = unat (fh_payload_len (fst f)) \<and>
     \<not> (fh_mask (fst f) \<and> fh_payload_len (fst f) = 0) \<and> fh_opcode (fst f) \<noteq> FRAME_CLOSE"

text \<open>An empty control frame is handled only when more bytes come.\<close>

definition frame_prompt :: "frame_header \<times> byte list \<Rightarrow> bool" where
  "frame_prompt f \<longleftrightarrow> is_data_op (fh_opcode (fst f)) \<or> snd f \<noteq> []"

lemma handle_payload_whole:
  assumes "calm_app app" "ws_peek_buf (wc_in st) \<noteq> None" "ws_payload_nread (wc_in st) = 0"
    and "to_read (wc_in st) d" "wire_left be (wc_in st) d = w" "length (w @ rest) < 2 ^ 63"
  shows "handle_payload be junk app False st (w @ rest) =
    Some (Ret ((leave be junk app (fh_opcode (ws_header (wc_in st)))
       (sink app (is_data_op (fh_opcode (ws_header (wc_in st)))) d
         (prepare (fh_opcode (ws_header (wc_in st))) st)))\<lparr>wc_in := ws_reset (wc_in st)\<rparr>) rest)"
proof -
  have n: "payload_left (wc_in st) = length d" using assms(4) by (simp add: payload_left_def to_read_def)
  have w: "length w = length d" "unmask be (wc_in st) w = d"
    unfolding assms(5) [symmetric] wire_left_def unmask_eq by simp_all
  have "room (wc_in st) (length (w @ rest))" using assms(3,6) by (simp add: room_def)
  from handle_payload_eq [OF assms(1,2) this, of be junk] n w show ?thesis by (simp add: Let_def)
qed

lemma frame_run:
  assumes calm: "calm_app app" and idle: "wc_idle st" and ok: "frame_ok (h, d)"
    and len: "length (frame_wire h d @ rest) < 2 ^ 63" and rest: "rest \<noteq> [] \<or> frame_prompt (h, d)"
  shows "\<exists>w. let st' = (frame_effect be junk app (fh_opcode h) d st)\<lparr>wc_in := w\<rparr> in wc_idle st' \<and>
    run (handle_websocket be junk app False) st (frame_wire h d @ rest) =
      (if rest = [] then Some (Ret st' []) else run (handle_websocket be junk app False) st' rest)"
proof -
  let ?H = "handle_websocket be junk app False"
  let ?ws = "head_read be h (with_peek_buf (wc_in st))" and ?p = "fh_opcode h"
  let ?wire = "on_the_wire (key_of h) 0 d"
  let ?st = "st\<lparr>wc_in := ?ws\<rparr>" and ?st' = "(frame_effect be junk app ?p d st)\<lparr>wc_in := ws_reset ?ws\<rparr>"
  have start: "reader_start (wc_in st)" "\<not> is_head_finish (wc_in st)" using idle by (simp_all add: wc_idle_def)
  have hd: "ws_header ?ws = frame_seen be h (ws_header (with_peek_buf (wc_in st)))" "ws_payload_nread ?ws = 0"
      "is_head_finish ?ws" "ws_peek_buf ?ws \<noteq> None" "fh_opcode (ws_header ?ws) = ?p"
    using idle by (auto simp: head_read_def is_head_finish_def wc_idle_def with_peek_buf_def)
  have peek: "peek_frame_head be (wc_in st) (frame_wire h d @ rest) = Some (Ret ?ws (?wire @ rest))"
    using peek_frame_head_back [OF start(1), of be h "?wire @ rest"] by (simp add: frame_wire_def)
  have okd: "length d = unat (fh_payload_len h)" "\<not> (fh_mask h \<and> fh_payload_len h = 0)" "?p \<noteq> FRAME_CLOSE"
    using ok by (simp_all add: frame_ok_def)
  note tr = seen_to_read [OF okd(1,2) hd(1,2)]
  have len': "length (?wire @ rest) < 2 ^ 63" using len by (simp add: frame_wire_def)
  have idle': "wc_idle ?st'" using hd(4) by simp
  show ?thesis
  proof (cases "is_data_op ?p")
    case True
    have "?H st (frame_wire h d @ rest) = handle_payload be junk app False (enter app ?p ?st) (?wire @ rest)"
      using start peek hd(3,5) True by (simp add: handle_websocket_def head_finished_calm [OF calm])
    also have "\<dots> = Some (Ret ?st' rest)"
      using handle_payload_whole [OF calm _ _ _ _ len', of "enter app ?p ?st" d be junk] hd tr
      by (simp add: frame_effect_def)
    finally have "?H st (frame_wire h d @ rest) = Some (Ret ?st' rest)" .
    then show ?thesis using idle' by (subst run.simps) (auto simp: Let_def)
  next
    case False
    have 1: "?H st (frame_wire h d @ rest) = Some (Ret ?st (?wire @ rest))"
      using start peek hd(3,5) False okd(3) by (simp add: handle_websocket_def head_finished_calm [OF calm] Let_def)
    have e: "enter app ?p st = st" using False by (simp add: enter_def is_data_op_def)
    have 2: "?H ?st (?wire @ rest) = Some (Ret ?st' rest)"
      using handle_payload_whole [OF calm _ _ _ _ len', of ?st d be junk] hd tr
      by (simp add: handle_websocket_def frame_effect_def e)
    have "?wire @ rest \<noteq> []"
    proof (cases "rest = []")
      case True
      then have "d \<noteq> []" using rest False by (simp add: frame_prompt_def)
      then show ?thesis by (metis append_is_Nil_conv length_0_conv on_the_wire_simps(1))
    qed simp
    with 1 have "run ?H st (frame_wire h d @ rest) = run ?H ?st (?wire @ rest)" by (subst run.simps) auto
    also have "\<dots> = (if rest = [] then Some (Ret ?st' []) else run ?H ?st' rest)"
      using 2 by (subst run.simps) simp
    finally show ?thesis using idle' by (auto simp: Let_def)
  qed
qed

lemma frames_run:
  assumes "calm_app app" "wc_idle st" "fs \<noteq> []" "\<And>f. f \<in> set fs \<Longrightarrow> frame_ok f" "frame_prompt (last fs)"
    and "length (concat (map (\<lambda>(h, d). frame_wire h d) fs)) < 2 ^ 63"
  shows "\<exists>w. let st' = (fold (\<lambda>(h, d). frame_effect be junk app (fh_opcode h) d) fs st)\<lparr>wc_in := w\<rparr> in
    wc_idle st' \<and>
    run (handle_websocket be junk app False) st (concat (map (\<lambda>(h, d). frame_wire h d) fs)) = Some (Ret st' [])"
  using assms(2-)
proof (induction fs arbitrary: st)
  case Nil
  then show ?case by simp
next
  case (Cons f fs)
  obtain h d where f: "f = (h, d)" by (cases f)
  let ?rest = "concat (map (\<lambda>(h, d). frame_wire h d) fs)"
  have rest: "?rest = [] \<longleftrightarrow> fs = []"
    by (cases fs) (auto simp: frame_wire_def frame_header_bytes_eq)
  have ok: "frame_ok (h, d)" and l: "length (frame_wire h d @ ?rest) < 2 ^ 63"
    using Cons.prems f by simp_all
  have pr: "?rest \<noteq> [] \<or> frame_prompt (h, d)" using Cons.prems(4) f rest by auto
  obtain w where w: "let st' = (frame_effect be junk app (fh_opcode h) d st)\<lparr>wc_in := w\<rparr> in wc_idle st' \<and>
    run (handle_websocket be junk app False) st (frame_wire h d @ ?rest) =
      (if ?rest = [] then Some (Ret st' []) else run (handle_websocket be junk app False) st' ?rest)"
    using frame_run [OF assms(1) Cons.prems(1) ok l pr] by blast
  show ?case
  proof (cases "fs = []")
    case True
    with w f show ?thesis by (auto simp: Let_def)
  next
    case False
    let ?st = "(frame_effect be junk app (fh_opcode h) d st)\<lparr>wc_in := w\<rparr>"
    have fold_in: "fold (\<lambda>(h, d). frame_effect be junk app (fh_opcode h) d) gs (s\<lparr>wc_in := w\<rparr>) =
        (fold (\<lambda>(h, d). frame_effect be junk app (fh_opcode h) d) gs s)\<lparr>wc_in := w\<rparr>" for gs s w
      by (induction gs arbitrary: s) (auto split: prod.split)
    have "\<exists>w'. let st' = (fold (\<lambda>(h, d). frame_effect be junk app (fh_opcode h) d) fs ?st)\<lparr>wc_in := w'\<rparr> in
      wc_idle st' \<and> run (handle_websocket be junk app False) ?st ?rest = Some (Ret st' [])"
      using Cons.prems w False l by (intro Cons.IH) (auto simp: Let_def)
    with w f rest False show ?thesis by (auto simp: Let_def fold_in)
  qed
qed

lemma frames_deliver:
  assumes "calm_app app" "wc_idle st" "fs \<noteq> []" "\<And>f. f \<in> set fs \<Longrightarrow> frame_ok f" "frame_prompt (last fs)"
    and "concat cs = concat (map (\<lambda>(h, d). frame_wire h d) fs)" "[] \<notin> set cs" "length (concat cs) < 2 ^ 63"
  shows "\<exists>w. let st' = (fold (\<lambda>(h, d). frame_effect be junk app (fh_opcode h) d) fs st)\<lparr>wc_in := w\<rparr> in
    wc_idle st' \<and> deliver (run (handle_websocket be junk app False)) st cs = Some (Ret st' [])"
proof -
  have "cs \<noteq> []" using assms(3,6) by (cases fs) (auto simp: frame_wire_def frame_header_bytes_eq)
  moreover have "wc_good st (concat cs)" using assms(2,8) by (simp add: wc_good_def wc_idle_def room_def)
  ultimately have "deliver (run (handle_websocket be junk app False)) st cs =
      run (handle_websocket be junk app False) st (concat cs)"
    using assms(1) wc_idle_inv [OF assms(2)] assms(7) by (intro wsc.deliver_chunks) simp_all
  with frames_run [OF assms(1-5), of be junk] assms(6,8) show ?thesis by simp
qed

section \<open>What the application sees\<close>

text \<open>
  The calls for one whole message or control frame and the bytes of its payload, on the state of the application and
  the end for output: the begin, the data and the end of a message, a ping, which is answered by a pong with
  what the application leaves of the payload, and a pong.
\<close>

definition app_frame ::
  "bool \<Rightarrow> (nat \<Rightarrow> byte) \<Rightarrow> 'u ws_app \<Rightarrow> 4 word \<Rightarrow> byte list \<Rightarrow> 'u \<times> websocket \<Rightarrow> 'u \<times> websocket" where
  "app_frame be junk app p d = (\<lambda>(u, out).
     if p = FRAME_TEXT then (snd (app_finish app (data_user app d (snd (app_text app u)))), out)
     else if p = FRAME_BINARY then (snd (app_finish app (data_user app d (snd (app_binary app u)))), out)
     else if p = FRAME_PING then
       (case app_ping app d u of (b, u) \<Rightarrow> (u, if b = [] then out else fst (send_frame_pong_aio be junk (Some b) out)))
     else (app_pong app d u, out))"

definition whole_frame :: "frame_header \<Rightarrow> bool" where
  "whole_frame h \<longleftrightarrow> fh_fin h \<and> fh_opcode h \<in> {FRAME_TEXT, FRAME_BINARY, FRAME_PING, FRAME_PONG}"

lemmas frame_codes = FRAME_TEXT_def FRAME_BINARY_def FRAME_PING_def FRAME_PONG_def

lemma effect_app:
  assumes "whole_frame h" "buff_of st = []"
  shows "(wc_user (frame_effect be junk app (fh_opcode h) d st), wc_out (frame_effect be junk app (fh_opcode h) d st)) =
      app_frame be junk app (fh_opcode h) d (wc_user st, wc_out st) \<and>
    buff_of (frame_effect be junk app (fh_opcode h) d st) = []"
proof -
  have b: "buff_of (sink app False d (with_buff st)) = d" "buff_of (clear_buff x) = []" for x :: "'a ws_client"
    using assms(2) by (simp_all add: sink_def with_buff_def clear_buff_def buff_of_def)
  have u: "wc_user (sink app False d (with_buff st)) = wc_user st" "wc_out (sink app False d (with_buff st)) = wc_out st"
    by (simp_all add: sink_def with_buff_def)
  have buff_def: "buff_of (x\<lparr>wc_buff := Some [], wc_user := u\<rparr>) = []" for x :: "'a ws_client" and u by (simp add: buff_of_def)
  have c: "wc_user (clear_buff x) = wc_user x" "wc_out (clear_buff x) = wc_out x" for x :: "'a ws_client"
    by (simp_all add: clear_buff_def)
  consider (data) "fh_opcode h = FRAME_TEXT \<or> fh_opcode h = FRAME_BINARY" | (ping) "fh_opcode h = FRAME_PING" | (pong) "fh_opcode h = FRAME_PONG"
    using assms(1) by (auto simp: whole_frame_def)
  then show ?thesis
  proof cases
    case data
    then show ?thesis
      using assms(2) by (auto simp: frame_effect_def app_frame_def leave_def sink_def prepare_def enter_def is_data_op_def buff_of_def frame_codes)
  next
    case ping
    have e: "frame_effect be junk app FRAME_PING d st = leave be junk app FRAME_PING (sink app False d (with_buff st))"
      by (simp add: frame_effect_def prepare_def enter_def is_data_op_def frame_codes)
    obtain r u' where r: "app_ping app d (wc_user st) = (r, u')" by (cases "app_ping app d (wc_user st)")
    have "leave be junk app FRAME_PING x = (if r = [] then x\<lparr>wc_buff := Some r, wc_user := u'\<rparr>
        else clear_buff (fst (ws_send_pong be junk (Some r) (x\<lparr>wc_user := u'\<rparr>))))"
      if "buff_of x = d" "wc_user x = wc_user st" for x
      using r that by (simp add: leave_def is_data_op_def frame_codes)
    then have "leave be junk app FRAME_PING (sink app False d (with_buff st)) = (if r = []
        then (sink app False d (with_buff st))\<lparr>wc_buff := Some r, wc_user := u'\<rparr>
        else clear_buff (fst (ws_send_pong be junk (Some r) ((sink app False d (with_buff st))\<lparr>wc_user := u'\<rparr>))))"
      using b(1) u(1) by blast
    moreover have "app_frame be junk app FRAME_PING d (wc_user st, wc_out st) =
        (u', if r = [] then wc_out st else fst (send_frame_pong_aio be junk (Some r) (wc_out st)))"
      using r by (simp add: app_frame_def frame_codes)
    ultimately show ?thesis
      using u b(2) c unfolding ping e
      by (simp add: ws_send_pong_def ws_send_def buff_def split: prod.split)
  next
    case pong
    have e: "frame_effect be junk app FRAME_PONG d st = leave be junk app FRAME_PONG (sink app False d (with_buff st))"
      by (simp add: frame_effect_def prepare_def enter_def is_data_op_def frame_codes)
    have "leave be junk app FRAME_PONG x = clear_buff (x\<lparr>wc_user := app_pong app (buff_of x) (wc_user x)\<rparr>)" for x
      by (simp add: leave_def is_data_op_def frame_codes)
    then show ?thesis using u b c unfolding pong e by (simp add: app_frame_def frame_codes)
  qed
qed

lemma effects_app:
  assumes "\<And>f. f \<in> set fs \<Longrightarrow> whole_frame (fst f)" "buff_of st = []"
  shows "(wc_user (fold (\<lambda>(h, d). frame_effect be junk app (fh_opcode h) d) fs st),
      wc_out (fold (\<lambda>(h, d). frame_effect be junk app (fh_opcode h) d) fs st)) =
    fold (\<lambda>(h, d). app_frame be junk app (fh_opcode h) d) fs (wc_user st, wc_out st)"
  using assms
proof (induction fs arbitrary: st)
  case (Cons f fs)
  obtain h d where f: "f = (h, d)" by (cases f)
  have "whole_frame h" using Cons.prems(1) [of f] f by simp
  note e = effect_app [OF this Cons.prems(2), of be junk app d]
  show ?case using Cons.IH [of "frame_effect be junk app (fh_opcode h) d st"] Cons.prems(1) e by (simp add: f)
qed simp

end
