(* ===== verification/WsServlet.thy ===== *)
theory WsServlet
  imports WebsocketData
begin

text \<open>
  The WebSocket side of a servlet (\<^verbatim>\<open>http/WebSocketServlet.cpp\<close>), from the time the connection
  is upgraded: each call of \<^verbatim>\<open>doRun\<close> reads one frame header and calls the method for its
  opcode, which reads the payload and may send frames on the same \<^verbatim>\<open>websocket\<close> object.
\<close>

text \<open>The methods of the application, on the \<^verbatim>\<open>websocket\<close> and the connection it reads from.\<close>

record 'c servlet_app =
  on_ping :: "u64 \<Rightarrow> bool \<Rightarrow> websocket \<times> 'c \<Rightarrow> bool \<times> websocket \<times> 'c"
  on_pong :: "u64 \<Rightarrow> bool \<Rightarrow> websocket \<times> 'c \<Rightarrow> bool \<times> websocket \<times> 'c"
  on_close :: "websocket \<times> 'c \<Rightarrow> websocket \<times> 'c"
  on_message :: "u64 \<Rightarrow> bool \<Rightarrow> bool \<Rightarrow> websocket \<times> 'c \<Rightarrow> bool \<times> websocket \<times> 'c"

record 'c servlet =
  sv_ws :: websocket
  sv_opcode :: "4 word"
  sv_conn :: 'c

definition doWebSocket :: "'c \<Rightarrow> 'c servlet" where
  "doWebSocket c = \<lparr>sv_ws = websocket_new, sv_opcode = 0, sv_conn = c\<rparr>"

definition servlet_run :: "bool \<Rightarrow> 'c reader \<Rightarrow> 'c servlet_app \<Rightarrow> 'c servlet \<Rightarrow> bool \<times> 'c servlet" where
  "servlet_run be rd app sv =
     (case read_frame_head be rd (sv_ws sv) (sv_conn sv) of
        (ws, None) \<Rightarrow> (False, sv\<lparr>sv_ws := ws\<rparr>)
      | (ws, Some c) \<Rightarrow>
          let len = fh_payload_len (ws_header ws);
              finish = fh_fin (ws_header ws);
              op0 = fh_opcode (ws_header ws);
              opcode = (if finish \<and> op0 = FRAME_CONTINUATION then sv_opcode sv else op0);
              saved = (if \<not> finish \<and> op0 \<noteq> FRAME_CONTINUATION then op0 else sv_opcode sv);
              r = (if opcode = FRAME_PING then on_ping app len finish (ws, c)
                   else if opcode = FRAME_PONG then on_pong app len finish (ws, c)
                   else if opcode = FRAME_CLOSE then (False, on_close app (ws, c))
                   else if opcode = FRAME_TEXT then on_message app len True finish (ws, c)
                   else if opcode = FRAME_BINARY then on_message app len False finish (ws, c)
                   else (False, ws, c))
          in case r of (ret, ws', c') \<Rightarrow>
               (ret, \<lparr>sv_ws = ws', sv_opcode = (if finish then 0 else saved), sv_conn = c'\<rparr>))"

definition readPayload :: "bool \<Rightarrow> 'c reader \<Rightarrow> nat \<Rightarrow> websocket \<Rightarrow> 'c \<Rightarrow> websocket \<times> (byte list \<times> 'c) option" where
  "readPayload be rd1 len ws c = read_frame_data be rd1 len ws c"

definition servlet_send ::
  "4 word \<Rightarrow> bool \<Rightarrow> (nat \<Rightarrow> byte) \<Rightarrow> (byte list \<Rightarrow> bool) \<Rightarrow> u64 \<Rightarrow> byte list option \<Rightarrow> websocket \<Rightarrow> websocket \<times> bool" where
  "servlet_send p be junk wr len data ws =
     send_frame_data_const be junk wr data
       (set_frame_payload_len len (set_frame_fin True (set_frame_opcode (ucast p) ws)))"

text \<open>The length of \<^verbatim>\<open>sendBinary\<close> is an \<^verbatim>\<open>int\<close>; here it is the length of the data.\<close>

definition sendBinary :: "bool \<Rightarrow> (nat \<Rightarrow> byte) \<Rightarrow> (byte list \<Rightarrow> bool) \<Rightarrow> byte list \<Rightarrow> websocket \<Rightarrow> websocket \<times> bool" where
  "sendBinary be junk wr d ws =
     servlet_send FRAME_BINARY be junk wr (scast (word_of_nat (length d) :: 32 word)) (Some d) ws"

definition sendText :: "bool \<Rightarrow> (nat \<Rightarrow> byte) \<Rightarrow> (byte list \<Rightarrow> bool) \<Rightarrow> byte list \<Rightarrow> websocket \<Rightarrow> websocket \<times> bool" where
  "sendText be junk wr s ws =
     servlet_send FRAME_TEXT be junk wr (word_of_nat (length (cstr s))) (Some (cstr s)) ws"

definition text_arg :: "byte list option \<Rightarrow> nat" where
  "text_arg s = (case s of None \<Rightarrow> 0 | Some s \<Rightarrow> length (cstr s))"

definition sendPong :: "bool \<Rightarrow> (nat \<Rightarrow> byte) \<Rightarrow> (byte list \<Rightarrow> bool) \<Rightarrow> byte list option \<Rightarrow> websocket \<Rightarrow> websocket \<times> bool" where
  "sendPong be junk wr s ws =
     servlet_send FRAME_PONG be junk wr (word_of_nat (text_arg s)) (map_option cstr s) ws"

definition sendPing :: "bool \<Rightarrow> (nat \<Rightarrow> byte) \<Rightarrow> (byte list \<Rightarrow> bool) \<Rightarrow> byte list option \<Rightarrow> websocket \<Rightarrow> websocket \<times> bool" where
  "sendPing be junk wr s ws =
     servlet_send FRAME_PING be junk wr (word_of_nat (text_arg s)) (map_option cstr s) ws"

section \<open>Which method a frame reaches\<close>

lemma servlet_run_frame:
  assumes rd: "stream_ok rd contents" "contents (sv_conn sv) = frame_header_bytes h @ rest"
  obtains ws c where "contents c = rest" "ws_header ws = frame_seen be h (ws_header (ws_reset (sv_ws sv)))"
    "ws_header_sent ws = False" "ws_payload_nsent ws = 0" "ws_payload_nread ws = 0"
    "servlet_run be rd app sv =
      (let opcode = (if fh_fin h \<and> fh_opcode h = FRAME_CONTINUATION then sv_opcode sv else fh_opcode h);
           saved = (if \<not> fh_fin h \<and> fh_opcode h \<noteq> FRAME_CONTINUATION then fh_opcode h else sv_opcode sv);
           len = fh_payload_len h;
           r = (if opcode = FRAME_PING then on_ping app len (fh_fin h) (ws, c)
                else if opcode = FRAME_PONG then on_pong app len (fh_fin h) (ws, c)
                else if opcode = FRAME_CLOSE then (False, on_close app (ws, c))
                else if opcode = FRAME_TEXT then on_message app len True (fh_fin h) (ws, c)
                else if opcode = FRAME_BINARY then on_message app len False (fh_fin h) (ws, c)
                else (False, ws, c))
       in case r of (ret, ws', c') \<Rightarrow>
            (ret, \<lparr>sv_ws = ws', sv_opcode = (if fh_fin h then 0 else saved), sv_conn = c'\<rparr>))"
proof -
  let ?ws = "(ws_reset (sv_ws sv))\<lparr>ws_header := frame_seen be h (ws_header (ws_reset (sv_ws sv)))\<rparr>"
  obtain c where c: "read_frame_head be rd (sv_ws sv) (sv_conn sv) = (?ws, Some c)" "contents c = rest"
    using read_frame_head_back [OF rd, of be "sv_ws sv"] by blast
  show thesis
    by (rule that [of c ?ws]) (use c(2) in \<open>simp_all add: servlet_run_def c(1) Let_def\<close>)
qed

lemma opcodes_differ [simp]:
  "FRAME_CONTINUATION \<noteq> FRAME_PING" "FRAME_CONTINUATION \<noteq> FRAME_PONG" "FRAME_CONTINUATION \<noteq> FRAME_CLOSE"
  "FRAME_CONTINUATION \<noteq> FRAME_TEXT" "FRAME_CONTINUATION \<noteq> FRAME_BINARY" "(0::4 word) \<noteq> FRAME_TEXT"
  "FRAME_TEXT \<noteq> FRAME_CONTINUATION" "FRAME_TEXT \<noteq> FRAME_PING" "FRAME_TEXT \<noteq> FRAME_PONG" "FRAME_TEXT \<noteq> FRAME_CLOSE"
  "FRAME_PING \<noteq> FRAME_CONTINUATION"
  by (simp_all add: FRAME_CONTINUATION_def FRAME_PING_def FRAME_PONG_def FRAME_CLOSE_def FRAME_TEXT_def
      FRAME_BINARY_def)

section \<open>Sending from a method\<close>

lemma ucast_4_8 [simp]: "ucast (ucast (p :: 4 word) :: byte) = p"
  by (rule bit_word_eqI) (simp add: bit_unsigned_iff)

lemma servlet_send_first:
  assumes "\<not> ws_header_sent ws" "ws_payload_nsent ws = 0" "d \<noteq> []" "length d < 2 ^ 64" "len = word_of_nat (length d)"
  shows "\<exists>ws'. servlet_send p be junk (\<lambda>_. True) len (Some d) ws = (ws', True) \<and>
    ws_out ws' = ws_out ws @ frame_wire ((ws_header ws)\<lparr>fh_opcode := p, fh_fin := True, fh_payload_len := len\<rparr>) d \<and>
    ws_header_sent ws' \<and> ws_payload_nsent ws' = len"
proof -
  let ?ws = "set_frame_payload_len len (set_frame_fin True (set_frame_opcode (ucast p) ws))"
  let ?w = "let ws1 = make_frame_header be junk (?ws\<lparr>ws_header_sent := True\<rparr>)
       in ws1\<lparr>ws_out := ws_out ws1 @ take (ws_header_len ws1) (ws_header_buf ws1)\<rparr>"
  have hdr: "ws_header ?ws = (ws_header ws)\<lparr>fh_opcode := p, fh_fin := True, fh_payload_len := len\<rparr>"
    by (simp add: set_frame_payload_len_def set_frame_fin_def set_frame_opcode_def)
  have simps: "ws_header_sent ?ws = ws_header_sent ws" "ws_payload_nsent ?ws = ws_payload_nsent ws" "ws_out ?ws = ws_out ws"
    by (simp_all add: set_frame_payload_len_def set_frame_fin_def set_frame_opcode_def)
  have u: "unat len = length d" using assms(4,5) by (simp add: unsigned_of_nat take_bit_nat_eq_self)
  then have nz: "len \<noteq> 0" using assms(3) by auto
  have 1: "servlet_send p be junk (\<lambda>_. True) len (Some d) ws = send_frame_data_const be junk (\<lambda>_. True) (Some d) ?w"
    unfolding servlet_send_def using send_frame_first [of ?ws be junk d] assms(1) simps by simp
  have 2: "send_frame_data_const be junk (\<lambda>_. True) (Some d) ?w =
    (?w\<lparr>ws_out := ws_out ?w @ on_the_wire (mem_key be (ws_header ?w)) (ws_payload_nsent ?w) d,
        ws_payload_nsent := ws_payload_nsent ?w + word_of_nat (length d)\<rparr>, True)"
    by (rule send_data_piece) (use assms u hdr simps in \<open>simp_all add: Let_def\<close>)
  have 3: "ws_out ?w = ws_out ws @ frame_header_bytes (ws_header ?ws)"
    using make_frame_header_out [of be junk "?ws\<lparr>ws_header_sent := True\<rparr>"] nz hdr simps by (auto simp: Let_def)
  have 4: "mem_key be (ws_header ?w) = key_of (ws_header ?ws)"
    using make_frame_header_key [of "?ws\<lparr>ws_header_sent := True\<rparr>" be junk] nz hdr
    by (auto simp: mem_key_def key_of_def masked_def Let_def)
  show ?thesis
    unfolding 1 2 using 3 4 assms(2,5) hdr simps by (simp add: frame_wire_def Let_def)
qed

lemma servlet_send_again:
  assumes "ws_header_sent ws" "ws_payload_nsent ws \<noteq> 0" "d \<noteq> []" "len = word_of_nat (length d)"
    and "unat (ws_payload_nsent ws) + length d < 2 ^ 64"
  shows "snd (servlet_send p be junk wr len (Some d) ws) = False"
    "ws_out (fst (servlet_send p be junk wr len (Some d) ws)) = ws_out ws"
proof -
  have "length d < 2 ^ 64" using assms(5) by simp
  then have "unat len = length d" using assms(4) by (simp add: unsigned_of_nat take_bit_nat_eq_self)
  moreover have "unat (ws_payload_nsent ws + len) = unat (ws_payload_nsent ws) + length d"
    using unat_add_ok [OF assms(5)] assms(4) by simp
  moreover have "0 < unat (ws_payload_nsent ws)" using assms(2) by (simp add: unat_gt_0)
  ultimately have "len < ws_payload_nsent ws + len" by (simp add: word_less_nat_alt)
  with assms show "snd (servlet_send p be junk wr len (Some d) ws) = False"
    "ws_out (fst (servlet_send p be junk wr len (Some d) ws)) = ws_out ws"
    by (simp_all add: servlet_send_def send_frame_data_const_def send_frame_data_def Let_def
        set_frame_payload_len_def set_frame_fin_def set_frame_opcode_def)
qed

end
