(* ===== verification/WsProperties.thy ===== *)
theory WsProperties
  imports WsSession WsServlet
begin

text \<open>
  The properties of the WebSocket component and of its two users, the event-driven HTTP client
  and the servlet, each with a concrete run that meets its hypotheses.
\<close>

section \<open>Frames\<close>

text \<open>C7: a frame that is sent in any pieces by send_frame_data is read back by read_frame_head and
  repeated calls of read_frame_data from any stream that starts with what was written: final flag,
  opcode, length and payload, with nothing behind the frame consumed; the hosts may differ in
  byte order, and the payload may be masked, unless it is empty: then
  the sender writes four bytes of uninitialised memory behind the header (empty_masked_frame_leaks).\<close>

theorem frame_sent_is_read_back:
  assumes "\<not> ws_header_sent ws" "ws_payload_nsent ws = 0" "ds \<noteq> []"
    and "length (concat ds) = unat (fh_payload_len (ws_header ws))"
    and "\<not> (fh_mask (ws_header ws) \<and> fh_payload_len (ws_header ws) = 0)"
    and "stream_ok rd contents" "part_ok rd1 contents"
    and "\<And>n. n \<in> set ns \<Longrightarrow> 0 < n \<and> unat (fh_payload_len (ws_header ws)) + n < 2 ^ 64"
    and "length (concat ds) \<le> length ns"
  shows "\<exists>ws' bs. send_pieces be junk ds ws = (ws', True) \<and> ws_out ws' = ws_out ws @ bs \<and>
    (\<forall>r c rest. contents c = bs @ rest \<longrightarrow>
      (\<exists>r1 c1 r2 c2. read_frame_head be' rd r c = (r1, Some c1) \<and>
         fh_fin (ws_header r1) = fh_fin (ws_header ws) \<and> fh_opcode (ws_header r1) = fh_opcode (ws_header ws) \<and>
         fh_payload_len (ws_header r1) = fh_payload_len (ws_header ws) \<and>
         read_pieces be' rd1 ns r1 c1 = Some (r2, concat ds, c2) \<and> contents c2 = rest))"
  using send_frame_wire [OF assms(1-5), of be junk] read_frame_back [OF assms(6,7) _ assms(4,5,8,9)] by blast

definition text_header :: "u32 \<Rightarrow> u64 \<Rightarrow> frame_header" where
  "text_header key n = \<lparr>fh_fin = True, fh_rsv1 = False, fh_rsv2 = False, fh_rsv3 = False, fh_opcode = FRAME_TEXT,
     fh_mask = (key \<noteq> 0), fh_payload_len = n, fh_masking_key = key\<rparr>"

lemma list_reader_part: "part_ok (\<lambda>c n. if n \<le> length c then list_reader c n else list_reader c (length c)) (\<lambda>c. c)"
  unfolding part_ok_def list_reader_def
proof (intro allI impI)
  fix c :: "byte list" and n :: nat
  assume "0 < n" "c \<noteq> []"
  then show "\<exists>k c'. 0 < k \<and> k \<le> n \<and> k \<le> length c \<and>
      (if n \<le> length c then if n \<le> length c then Some (take n c, drop n c) else None
       else if length c \<le> length c then Some (take (length c) c, drop (length c) c) else None) =
      Some (take k c, c') \<and> c' = drop k c"
    by (intro exI [of _ "min n (length c)"] exI [of _ "drop (min n (length c)) c"]) (auto simp: min_def)
qed

theorem frame_sent_is_read_back_witness:
  "\<exists>ws' bs. send_pieces False (\<lambda>_. 0) [[104], [105, 33]] (websocket_new\<lparr>ws_header := text_header 0x01020304 3\<rparr>) = (ws', True) \<and>
    ws_out ws' = bs \<and>
    (\<forall>r c rest. c = bs @ rest \<longrightarrow>
      (\<exists>r1 c1 r2 c2. read_frame_head True list_reader r c = (r1, Some c1) \<and>
         fh_fin (ws_header r1) \<and> fh_opcode (ws_header r1) = FRAME_TEXT \<and> fh_payload_len (ws_header r1) = 3 \<and>
         read_pieces True (\<lambda>c n. if n \<le> length c then list_reader c n else list_reader c (length c)) [2, 5, 9] r1 c1 =
           Some (r2, [104, 105, 33], c2) \<and> c2 = rest))"
proof -
  let ?ws = "websocket_new\<lparr>ws_header := text_header 0x01020304 3\<rparr>"
  have h: "\<not> ws_header_sent ?ws" "ws_payload_nsent ?ws = 0" "ws_out ?ws = []"
      "ws_header ?ws = text_header 0x01020304 3"
    by (simp_all add: websocket_new_def ws_reset_def)
  have f: "fh_fin (text_header k n)" "fh_opcode (text_header k n) = FRAME_TEXT" "fh_payload_len (text_header k n) = n" for k n
    by (simp_all add: text_header_def)
  have n: "\<And>n. n \<in> set [2, 5, 9] \<Longrightarrow> 0 < n \<and> unat (fh_payload_len (ws_header ?ws)) + n < 2 ^ 64"
    unfolding h f by auto
  have fin: "fh_fin (text_header 0x01020304 3) = True" using f(1) by simp
  from frame_sent_is_read_back [where ws = ?ws and ds = "[[104], [105, 33]]" and ns = "[2, 5, 9]" and be = False and
      junk = "\<lambda>_. 0" and be' = True, OF h(1,2) _ _ _ list_reader_ok list_reader_part n]
  show ?thesis unfolding h(3,4) f(2,3) fin by (auto simp del: send_pieces.simps read_pieces.simps)
qed

text \<open>The header of a frame is recognised by the peeking reader from any pieces of the stream,
  on a host of any byte order: final flag, opcode, length and whether the payload is masked, and
  the bytes behind the header are left.\<close>

lemma header_peeked_any_cut:
  assumes "reader_start ws" "concat cs = frame_header_bytes h @ rest" "[] \<notin> set cs"
  shows "\<exists>ws'. feed is_head_finish (peek_frame_head be) ws cs = Some (Ret ws' rest) \<and> is_head_finish ws' \<and>
    fh_fin (ws_header ws') = fh_fin h \<and> fh_opcode (ws_header ws') = fh_opcode h \<and>
    fh_payload_len (ws_header ws') = fh_payload_len h \<and>
    fh_mask (ws_header ws') = (fh_mask h \<and> fh_payload_len h \<noteq> 0)"
  using peek_frame_head_chunks [OF assms, of be] by (simp add: head_read_def is_head_finish_def masked_def)

text \<open>For any bytes, valid or not, the peeking reader ends in the same state and leaves the same
  bytes whether they come in one piece or in many.\<close>

lemma peek_any_chunking:
  assumes "reader_inv ws" "[] \<notin> set cs" "cs \<noteq> []"
  shows "feed is_head_finish (peek_frame_head be) ws cs = feed is_head_finish (peek_frame_head be) ws [concat cs]"
  by (rule peek_call.feed_concat [OF assms])



section \<open>The HTTP client\<close>

text \<open>C9: for a sequence of whole frames - final ones that are a text, a binary message, a ping or a pong - the
  event-driven client makes the calls of the application in order with the payloads unmasked, and answers the pings,
  however the bytes are cut into wake-ups; afterwards it is ready for the next frame. The application does not
  refuse a frame, and data in two calls are to it as data in one; there is no masked frame without payload, and the last
  frame is not a control frame without payload. Continuation frames are not among them: their data are dropped
  (ws_client_drops_continuation).\<close>

theorem ws_client_frames_any_cut:
  assumes "calm_app app" "wc_idle st" "buff_of st = []" "fs \<noteq> []"
    and "\<And>f. f \<in> set fs \<Longrightarrow> frame_ok f \<and> whole_frame (fst f)" "frame_prompt (last fs)"
    and "concat cs = concat (map (\<lambda>(h, d). frame_wire h d) fs)" "[] \<notin> set cs" "length (concat cs) < 2 ^ 63"
  shows "\<exists>st'. deliver (run (handle_websocket be junk app False)) st cs = Some (Ret st' []) \<and> wc_idle st' \<and>
    (wc_user st', wc_out st') = fold (\<lambda>(h, d). app_frame be junk app (fh_opcode h) d) fs (wc_user st, wc_out st)"
proof -
  obtain w where "let st' = (fold (\<lambda>(h, d). frame_effect be junk app (fh_opcode h) d) fs st)\<lparr>wc_in := w\<rparr> in
      wc_idle st' \<and> deliver (run (handle_websocket be junk app False)) st cs = Some (Ret st' [])"
    using frames_deliver [OF assms(1,2,4) _ assms(6-9)] assms(5) by blast
  moreover have "\<And>f. f \<in> set fs \<Longrightarrow> whole_frame (fst f)" using assms(5) by blast
  note effects_app [OF this assms(3), where be = be and junk = junk and app = app]
  ultimately show ?thesis by (auto simp: Let_def)
qed

text \<open>An application that collects the messages.\<close>

definition log_app :: "(byte list \<times> byte list list) ws_app" where
  "log_app = \<lparr>app_text = (\<lambda>u. (True, u)), app_binary = (\<lambda>u. (True, u)), app_closed = (\<lambda>u. u),
     app_data = (\<lambda>d (c, ms). (True, (c @ d, ms))), app_finish = (\<lambda>(c, ms). (True, ([], ms @ [c]))),
     app_ping = (\<lambda>d u. (d, u)), app_pong = (\<lambda>d u. u)\<rparr>"

lemma calm_log_app: "calm_app log_app"
  by (auto simp: calm_app_def log_app_def)

lemma handshake_idle: "wc_idle (ws_handshake u)"
  by (simp add: wc_idle_def ws_handshake_def reader_start_def websocket_new_def ws_reset_def)

theorem ws_client_frames_any_cut_witness:
  "\<exists>st'. deliver (run (handle_websocket False (\<lambda>_. 0) log_app False)) (ws_handshake ([], []))
      (map (\<lambda>b. [b]) (concat (map (\<lambda>(h, d). frame_wire h d) [(text_header 0x01020304 2, [104, 105]), (text_header 0 1, [33])]))) =
      Some (Ret st' []) \<and> wc_idle st' \<and> wc_user st' = ([], [[104, 105], [33]])"
proof -
  let ?fs = "[(text_header 0x01020304 2, [104, 105]), (text_header 0 1, [33])]"
  let ?cs = "map (\<lambda>b. [b]) (concat (map (\<lambda>(h, d). frame_wire h d) ?fs))"
  have c: "concat ?cs = concat (map (\<lambda>(h, d). frame_wire h d) ?fs)" by (induction ?cs) simp_all
  have l: "length (frame_wire h d) \<le> 14 + length d" for h d
    by (auto simp: frame_wire_def frame_header_bytes_eq head_ext_def head_key_def)
  have "length (concat (map (\<lambda>(h, d). frame_wire h d) ?fs)) < 2 ^ 63"
    using l [of "text_header 0x01020304 2" "[104, 105]"] l [of "text_header 0 1" "[33]"] by simp
  then have l': "length (concat ?cs) < 2 ^ 63" unfolding c .
  have ok: "frame_ok f \<and> whole_frame (fst f)" if "f \<in> set ?fs" for f
    using that by (auto simp: frame_ok_def whole_frame_def text_header_def FRAME_TEXT_def FRAME_CLOSE_def)
  have pr: "frame_prompt (last ?fs)" by (simp add: frame_prompt_def)
  have nn: "[] \<notin> set ?cs" by auto
  have bf: "buff_of (ws_handshake ([], [])) = []" by (simp add: buff_of_def ws_handshake_def)
  have "fst (fold (\<lambda>(h, d). app_frame False (\<lambda>_. 0) log_app (fh_opcode h) d) ?fs
      (wc_user (ws_handshake ([], [])), wc_out (ws_handshake ([], [])))) = ([], [[104, 105], [33]])"
    by (simp add: app_frame_def data_user_def log_app_def text_header_def ws_handshake_def)
  with ws_client_frames_any_cut [OF calm_log_app handshake_idle bf _ ok pr c nn l', of False "\<lambda>_. 0"] show ?thesis
    by (metis fst_conv list.distinct(1))
qed

text \<open>C10: for any bytes at all, valid frames or not, the event-driven client and its application end in the same
  state whether the bytes come in one wake-up or in many, if the application does not refuse a frame and data in two
  calls are to it as the same data in one: it is called for the data of a frame once for each piece.\<close>

theorem ws_client_any_chunking:
  assumes "calm_app app" "wc_inv st" "[] \<notin> set cs" "cs \<noteq> []"
    and "unat (ws_payload_nread (wc_in st)) + length (concat cs) < 2 ^ 63"
  shows "deliver (run (handle_websocket be junk app False)) st cs =
    run (handle_websocket be junk app False) st (concat cs)"
  by (rule wsc.deliver_chunks) (use assms in \<open>simp_all add: wc_good_def room_def\<close>)

theorem ws_client_any_chunking_witness:
  "deliver (run (handle_websocket False (\<lambda>_. 0) log_app False)) (ws_handshake ([], [])) [[0x83], [0xff, 0xff], [7]] =
   run (handle_websocket False (\<lambda>_. 0) log_app False) (ws_handshake ([], [])) [0x83, 0xff, 0xff, 7]"
  using ws_client_any_chunking [OF calm_log_app wc_idle_inv [OF handshake_idle],
      of "[[0x83], [0xff, 0xff], [7]]" "([], [])" False "\<lambda>_. 0"]
  by (simp add: ws_handshake_def websocket_new_def ws_reset_def)

text \<open>An empty message, ping or pong that the client sends first after the handshake puts four
  bytes of uninitialised memory on the stream behind a header that says there is neither a key nor
  a payload: the server reads the header, and takes those bytes for the next frame.\<close>

lemma empty_masked_frame_leaks:
  assumes "f \<in> {send_frame_text_aio, send_frame_binary_aio, send_frame_ping_aio, send_frame_pong_aio}"
    and "stream_ok rd contents"
  shows "\<exists>bs st'. ws_send f be junk None (ws_handshake u) = (st', None, True) \<and>
    ws_out (wc_out st') = bs @ [junk 2, junk 3, junk 4, junk 5] \<and> length bs = 2 \<and>
    (\<forall>r c rest. contents c = ws_out (wc_out st') @ rest \<longrightarrow>
      (\<exists>r1 c1. read_frame_head be' rd r c = (r1, Some c1) \<and>
        fh_payload_len (ws_header r1) = 0 \<and> \<not> fh_mask (ws_header r1) \<and>
        contents c1 = [junk 2, junk 3, junk 4, junk 5] @ rest))"
proof -
  have *: "\<exists>bs st'. ws_send (aio_send_frame p) be junk None (ws_handshake u) = (st', None, True) \<and>
    ws_out (wc_out st') = bs @ [junk 2, junk 3, junk 4, junk 5] \<and> length bs = 2 \<and>
    (\<forall>r c rest. contents c = ws_out (wc_out st') @ rest \<longrightarrow>
      (\<exists>r1 c1. read_frame_head be' rd r c = (r1, Some c1) \<and>
        fh_payload_len (ws_header r1) = 0 \<and> \<not> fh_mask (ws_header r1) \<and>
        contents c1 = [junk 2, junk 3, junk 4, junk 5] @ rest))" for p
  proof -
    let ?w = "set_frame_payload_len 0 (set_frame_opcode (ucast p) (set_frame_fin True
        (ws_reset (set_frame_masking_key (NOT 0) websocket_new))))\<lparr>ws_header_sent := True\<rparr>"
    let ?h = "ws_header ?w" and ?ws = "make_frame_header be junk ?w"
    have h: "fh_mask ?h" "fh_payload_len ?h = 0" "ws_header_buf ?w = []" "ws_out ?w = []"
      by (simp_all add: set_frame_payload_len_def set_frame_opcode_def set_frame_fin_def set_frame_masking_key_def
          websocket_new_def ws_reset_def)
    have len: "length (frame_header_bytes ?h) = 2" using h
      by (simp add: frame_header_bytes_eq head_ext_def head_key_def)
    have "header_room junk ?w = [junk 0, junk 1, junk 2, junk 3, junk 4, junk 5]"
    proof -
      have "frame_header_len ?h = 6" using h by (simp add: frame_header_len_def)
      moreover have "[0..<6] = [0, 1, 2, 3, 4, 5::nat]" by (simp add: upt_rec numeral_eq_Suc)
      ultimately show ?thesis unfolding header_room_def h(3) by (simp only: Let_def) simp
    qed
    then have out: "take (ws_header_len ?ws) (ws_header_buf ?ws) = frame_header_bytes ?h @ [junk 2, junk 3, junk 4, junk 5]"
      using make_frame_header_out [of be junk ?w] h(1,2) by simp
    have "ws_send (aio_send_frame p) be junk None (ws_handshake u) =
        ((ws_handshake u)\<lparr>wc_out := ?ws\<lparr>ws_out := ws_out ?ws @ take (ws_header_len ?ws) (ws_header_buf ?ws)\<rparr>\<rparr>, None, True)"
      by (simp add: ws_send_def aio_send_frame_def aio_send_frame_data_def send_frame_data_def ws_handshake_def
          set_frame_payload_len_def set_frame_opcode_def set_frame_fin_def Let_def set_frame_masking_key_def
          websocket_new_def ws_reset_def)
    moreover have "\<exists>r1 c1. read_frame_head be' rd r c = (r1, Some c1) \<and> fh_payload_len (ws_header r1) = 0 \<and>
        \<not> fh_mask (ws_header r1) \<and> contents c1 = [junk 2, junk 3, junk 4, junk 5] @ rest"
      if "contents c = (frame_header_bytes ?h @ [junk 2, junk 3, junk 4, junk 5]) @ rest" for r c rest
      using read_frame_head_back [OF assms(2), of c ?h "[junk 2, junk 3, junk 4, junk 5] @ rest" be' r] that h(2)
      by (auto simp: masked_def)
    ultimately show ?thesis unfolding out using len h(4) by (auto simp: ws_handshake_def)
  qed
  from assms(1) * show ?thesis
    unfolding send_frame_text_aio_def send_frame_binary_aio_def send_frame_ping_aio_def send_frame_pong_aio_def
    by (elim insertE emptyE) simp_all
qed

text \<open>A message of two frames reaches the application of the event-driven client only with the data
  of the first: it is finished with that frame, and the data of the continuation are discarded.\<close>

lemma ws_client_drops_continuation:
  assumes "calm_app app" "wc_idle st" "frame_ok (ha, da)" "frame_ok (hb, db)" "da \<noteq> []" "db \<noteq> []"
    and "fh_opcode ha = FRAME_TEXT" "\<not> fh_fin ha" "fh_opcode hb = FRAME_CONTINUATION" "fh_fin hb"
    and "concat cs = frame_wire ha da @ frame_wire hb db" "[] \<notin> set cs" "length (concat cs) < 2 ^ 63"
  shows "\<exists>st'. deliver (run (handle_websocket be junk app False)) st cs = Some (Ret st' []) \<and>
    wc_user st' = snd (app_finish app (snd (app_data app da (snd (app_text app (wc_user st))))))"
proof -
  let ?fs = "[(ha, da), (hb, db)]"
  have "\<exists>w. let st' = (fold (\<lambda>(h, d). frame_effect be junk app (fh_opcode h) d) ?fs st)\<lparr>wc_in := w\<rparr> in
    wc_idle st' \<and> deliver (run (handle_websocket be junk app False)) st cs = Some (Ret st' [])"
    by (rule frames_deliver [OF assms(1,2)]) (use assms in \<open>auto simp: frame_prompt_def\<close>)
  moreover have "wc_user (fold (\<lambda>(h, d). frame_effect be junk app (fh_opcode h) d) ?fs st) =
      snd (app_finish app (snd (app_data app da (snd (app_text app (wc_user st))))))"
    using assms(5-10) by (simp add: frame_effect_def leave_def sink_def prepare_def enter_def is_data_op_def
        data_user_def with_buff_def clear_buff_def FRAME_TEXT_def FRAME_BINARY_def FRAME_CONTINUATION_def
        FRAME_PING_def FRAME_PONG_def)
  ultimately show ?thesis by (auto simp: Let_def)
qed

definition fragment :: "bool \<Rightarrow> 4 word \<Rightarrow> u64 \<Rightarrow> frame_header" where
  "fragment fin p n = (text_header 0 n)\<lparr>fh_fin := fin, fh_opcode := p\<rparr>"

lemma fragment_simps [simp]:
  "fh_fin (fragment f p n) = f" "fh_opcode (fragment f p n) = p" "fh_payload_len (fragment f p n) = n"
  "fh_mask (fragment f p n) = False"
  by (simp_all add: fragment_def text_header_def)

lemma concat_singles [simp]: "concat (map (\<lambda>b. [b]) bs) = bs"
  by (induction bs) simp_all

section \<open>The servlet\<close>

text \<open>Each frame of a message of two frames reaches on_message of the servlet with the type of the
  message, the final flag telling the second from the first.\<close>

lemma servlet_two_fragments:
  assumes "stream_ok rd contents" "contents (sv_conn sv) = frame_header_bytes ha @ rest"
    and "fh_opcode ha \<in> {FRAME_TEXT, FRAME_BINARY}" "\<not> fh_fin ha" "fh_opcode hb = FRAME_CONTINUATION" "fh_fin hb"
    and "\<And>len t f ws c. contents (snd (snd (on_message app len t f (ws, c)))) = drop (unat len) (contents c)"
    and "drop (unat (fh_payload_len ha)) rest = frame_header_bytes hb @ rest'"
  shows "\<exists>ws1 c1 ws2 c2.
    servlet_run be rd app sv =
      (let (ok, ws, c) = on_message app (fh_payload_len ha) (fh_opcode ha = FRAME_TEXT) False (ws1, c1)
       in (ok, \<lparr>sv_ws = ws, sv_opcode = fh_opcode ha, sv_conn = c\<rparr>)) \<and> contents c1 = rest \<and>
    servlet_run be rd app (snd (servlet_run be rd app sv)) =
      (let (ok, ws, c) = on_message app (fh_payload_len hb) (fh_opcode ha = FRAME_TEXT) True (ws2, c2)
       in (ok, \<lparr>sv_ws = ws, sv_opcode = 0, sv_conn = c\<rparr>)) \<and> contents c2 = rest'"
proof -
  have d: "FRAME_BINARY \<noteq> FRAME_TEXT" "FRAME_BINARY \<noteq> FRAME_CONTINUATION" "FRAME_BINARY \<noteq> FRAME_PING"
      "FRAME_BINARY \<noteq> FRAME_PONG" "FRAME_BINARY \<noteq> FRAME_CLOSE"
    by (simp_all add: FRAME_BINARY_def FRAME_TEXT_def FRAME_CONTINUATION_def FRAME_PING_def FRAME_PONG_def FRAME_CLOSE_def)
  obtain ws1 c1 where r1: "contents c1 = rest" "servlet_run be rd app sv =
      (let (ok, ws, c) = on_message app (fh_payload_len ha) (fh_opcode ha = FRAME_TEXT) False (ws1, c1)
       in (ok, \<lparr>sv_ws = ws, sv_opcode = fh_opcode ha, sv_conn = c\<rparr>))"
    using assms(3,4) d by (rule_tac servlet_run_frame [OF assms(1,2), of be app]) (auto simp: Let_def)
  let ?sv = "snd (servlet_run be rd app sv)"
  obtain ok ws c where m: "on_message app (fh_payload_len ha) (fh_opcode ha = FRAME_TEXT) False (ws1, c1) = (ok, ws, c)"
    by (metis prod_cases3)
  have c: "contents (sv_conn ?sv) = frame_header_bytes hb @ rest'" "sv_opcode ?sv = fh_opcode ha"
    using assms(7) [of "fh_payload_len ha" "fh_opcode ha = FRAME_TEXT" False ws1 c1] assms(8) r1 m by simp_all
  obtain ws2 c2 where r2: "contents c2 = rest'" "servlet_run be rd app ?sv =
      (let (ok, ws, c) = on_message app (fh_payload_len hb) (fh_opcode ha = FRAME_TEXT) True (ws2, c2)
       in (ok, \<lparr>sv_ws = ws, sv_opcode = 0, sv_conn = c\<rparr>))"
    using assms(3,5,6) d c(2) by (rule_tac servlet_run_frame [OF assms(1) c(1), of be app]) (auto simp: Let_def)
  from r1 r2 show ?thesis by blast
qed

text \<open>A continuation frame that is not the last of its message is refused by the servlet, without
  a call of the application: a message can have at most two frames.\<close>

lemma servlet_refuses_middle_fragment:
  assumes "stream_ok rd contents" "contents (sv_conn sv) = frame_header_bytes h @ rest"
    and "fh_opcode h = FRAME_CONTINUATION" "\<not> fh_fin h"
  shows "\<exists>ws c. servlet_run be rd app sv = (False, \<lparr>sv_ws = ws, sv_opcode = sv_opcode sv, sv_conn = c\<rparr>) \<and> contents c = rest"
  by (rule servlet_run_frame [OF assms(1,2), of be app]) (use assms(3,4) in \<open>auto simp: Let_def\<close>)

definition quiet_app :: "byte list servlet_app" where
  "quiet_app = \<lparr>on_ping = (\<lambda>n f (ws, c). (True, ws, drop (unat n) c)), on_pong = (\<lambda>n f (ws, c). (True, ws, drop (unat n) c)),
     on_close = (\<lambda>s. s), on_message = (\<lambda>n t f (ws, c). (True, ws, drop (unat n) c))\<rparr>"

text \<open>A ping between the two frames of a message makes the servlet forget the type of the message:
  the continuation that follows is refused.\<close>

lemma servlet_ping_breaks_message:
  assumes "stream_ok rd contents" "contents (sv_conn sv) = frame_header_bytes hp @ rest"
    and "fh_opcode hp = FRAME_PING" "fh_fin hp" "fh_opcode h = FRAME_CONTINUATION"
    and "\<And>len f ws c. contents (snd (snd (on_ping app len f (ws, c)))) = drop (unat len) (contents c)"
    and "drop (unat (fh_payload_len hp)) rest = frame_header_bytes h @ rest'"
  shows "fst (servlet_run be rd app (snd (servlet_run be rd app sv))) = False"
proof -
  let ?sv = "snd (servlet_run be rd app sv)"
  obtain ws1 c1 where r1: "contents c1 = rest" "servlet_run be rd app sv =
      (let (ok, ws, c) = on_ping app (fh_payload_len hp) True (ws1, c1)
       in (ok, \<lparr>sv_ws = ws, sv_opcode = 0, sv_conn = c\<rparr>))"
    using assms(3,4) by (rule_tac servlet_run_frame [OF assms(1,2), of be app]) (auto simp: Let_def)
  obtain ok ws c where m: "on_ping app (fh_payload_len hp) True (ws1, c1) = (ok, ws, c)"
    by (metis prod_cases3)
  have c: "contents (sv_conn ?sv) = frame_header_bytes h @ rest'" "sv_opcode ?sv = 0"
    using assms(6) [of "fh_payload_len hp" True ws1 c1] assms(7) r1 m by simp_all
  have z: "(0::4 word) \<noteq> FRAME_PING" "(0::4 word) \<noteq> FRAME_PONG" "(0::4 word) \<noteq> FRAME_CLOSE" "(0::4 word) \<noteq> FRAME_TEXT"
      "(0::4 word) \<noteq> FRAME_BINARY"
    by (simp_all add: FRAME_PING_def FRAME_PONG_def FRAME_CLOSE_def FRAME_TEXT_def FRAME_BINARY_def)
  show ?thesis
    by (rule servlet_run_frame [OF assms(1) c(1), of be app]) (use assms(5) c(2) z in \<open>simp add: Let_def\<close>)
qed

text \<open>A method of the servlet can send one text: the first is written as a frame, a second one in the
  same call is refused and nothing of it is written, since the frame state is reset only when the
  next frame is read.\<close>

lemma servlet_second_text_refused:
  assumes "\<not> ws_header_sent ws" "ws_payload_nsent ws = 0" "cstr s1 \<noteq> []" "cstr s2 \<noteq> []"
    and "length (cstr s1) + length (cstr s2) < 2 ^ 64"
  shows "\<exists>ws'. sendText be junk (\<lambda>_. True) s1 ws = (ws', True) \<and>
    ws_out ws' = ws_out ws @ frame_wire ((ws_header ws)\<lparr>fh_opcode := FRAME_TEXT, fh_fin := True,
      fh_payload_len := word_of_nat (length (cstr s1))\<rparr>) (cstr s1) \<and>
    snd (sendText be junk wr s2 ws') = False \<and> ws_out (fst (sendText be junk wr s2 ws')) = ws_out ws'"
proof -
  let ?n = "word_of_nat (length (cstr s1)) :: u64"
  have l: "length (cstr s1) < 2 ^ 64" using assms(5) by simp
  then have u: "unat ?n = length (cstr s1)" by (simp add: unsigned_of_nat take_bit_nat_eq_self)
  then have "?n \<noteq> 0" using assms(3) by (metis length_0_conv unsigned_0)
  obtain ws' where w: "sendText be junk (\<lambda>_. True) s1 ws = (ws', True)"
      "ws_out ws' = ws_out ws @ frame_wire ((ws_header ws)\<lparr>fh_opcode := FRAME_TEXT, fh_fin := True,
        fh_payload_len := ?n\<rparr>) (cstr s1)" "ws_header_sent ws'" "ws_payload_nsent ws' = ?n"
    using servlet_send_first [OF assms(1-3) l refl, of FRAME_TEXT be junk] by (auto simp: sendText_def)
  with \<open>?n \<noteq> 0\<close> u assms(5) servlet_send_again [OF w(3) _ assms(4) refl, of FRAME_TEXT be junk wr]
  show ?thesis by (simp add: sendText_def)
qed

text \<open>The answer of a servlet to a masked frame is masked with the client's own key, although a
  server must not mask: reading a frame sets the mask for the frames that are sent.\<close>

lemma servlet_answer_is_masked:
  assumes "stream_ok rd contents" "contents c = frame_header_bytes h @ rest"
    and "fh_mask h" "fh_payload_len h \<noteq> 0" "cstr s \<noteq> []" "length (cstr s) < 2 ^ 64"
  shows "\<exists>ws1 c1 ws2 h2. read_frame_head be rd ws c = (ws1, Some c1) \<and>
    sendText be junk (\<lambda>_. True) s ws1 = (ws2, True) \<and> ws_out ws2 = ws_out ws1 @ frame_wire h2 (cstr s) \<and>
    fh_mask h2 \<and> fh_masking_key h2 = load32 be (bytes32 (fh_masking_key h))"
proof -
  let ?ws1 = "(ws_reset ws)\<lparr>ws_header := frame_seen be h (ws_header (ws_reset ws))\<rparr>"
  obtain c1 where c1: "read_frame_head be rd ws c = (?ws1, Some c1)"
    using read_frame_head_back [OF assms(1,2), of be ws] by blast
  have "masked h" using assms(3,4) by (simp add: masked_def)
  then have k: "fh_mask (ws_header ?ws1)" "fh_masking_key (ws_header ?ws1) = load32 be (bytes32 (fh_masking_key h))"
    by simp_all
  have s: "\<not> ws_header_sent ?ws1" "ws_payload_nsent ?ws1 = 0" by simp_all
  let ?h2 = "(ws_header ?ws1)\<lparr>fh_opcode := FRAME_TEXT, fh_fin := True, fh_payload_len := word_of_nat (length (cstr s))\<rparr>"
  obtain ws2 where w: "sendText be junk (\<lambda>_. True) s ?ws1 = (ws2, True)" "ws_out ws2 = ws_out ?ws1 @ frame_wire ?h2 (cstr s)"
    unfolding sendText_def using servlet_send_first [OF s assms(5,6) refl, of FRAME_TEXT be junk] by blast
  have "fh_mask ?h2" "fh_masking_key ?h2 = load32 be (bytes32 (fh_masking_key h))" using k by simp_all
  with c1 w show ?thesis by blast
qed

end
