(* ===== verification/Buffered.thy ===== *)
theory Buffered
  imports AclPrelude
begin

text \<open>
  The MIME coders all collect their input in a buffer of fixed size and run over the buffer when it
  is full and more bytes come. This theory holds that loop and its contract: the result does not
  depend on the pieces the input comes in, and, for a coder that may be run over its input in parts,
  it is the run over the whole.
\<close>

text \<open>
  The loop \<^verbatim>\<open>while (n > 0) { if (cnt == sizeof(buf)) crunch(out); i = min(n, sizeof(buf) - cnt);
  memcpy(buf + cnt, src, i); ... }\<close>. \<open>crunch\<close> gives the output for the bytes in the buffer and the
  bytes it leaves in it. \<^const>\<open>None\<close>: the loop does not end, or copies a negative number of bytes.
\<close>

partial_function (option) fill_loop ::
  "nat \<Rightarrow> (byte list \<Rightarrow> byte list \<times> byte list) \<Rightarrow> byte list \<Rightarrow> byte list \<Rightarrow> byte list \<Rightarrow>
   (byte list \<times> byte list) option" where
  "fill_loop cap crunch buf src out =
     (if src = [] then Some (buf, out)
      else
        let (buf1, out1) = (if length buf = cap then (case crunch buf of (w, r) \<Rightarrow> (r, out @ w)) else (buf, out));
            i = min (length src) (cap - length buf1)
        in if cap < length buf1 then None
           else fill_loop cap crunch (buf1 @ take i src) (drop i src) out1)"

declare fill_loop.simps [code]

text \<open>One byte at a time.\<close>

definition push_byte ::
  "nat \<Rightarrow> (byte list \<Rightarrow> byte list \<times> byte list) \<Rightarrow> byte \<Rightarrow> byte list \<times> byte list \<Rightarrow> byte list \<times> byte list" where
  "push_byte cap crunch b = (\<lambda>(buf, out).
     if length buf = cap then (snd (crunch buf) @ [b], out @ fst (crunch buf)) else (buf @ [b], out))"

locale buffered =
  fixes cap :: nat and crunch :: "byte list \<Rightarrow> byte list \<times> byte list"
  assumes crunch_rest: "length xs = cap \<Longrightarrow> length (snd (crunch xs)) < cap"
begin

lemma push_fits:
  "length buf + length bs \<le> cap \<Longrightarrow> fold (push_byte cap crunch) bs (buf, out) = (buf @ bs, out)"
  by (induction bs arbitrary: buf) (auto simp: push_byte_def)

lemma fill_loop_push:
  "length buf \<le> cap \<Longrightarrow> fill_loop cap crunch buf src out = Some (fold (push_byte cap crunch) src (buf, out))"
proof (induction "length src" arbitrary: buf src out rule: less_induct)
  case less
  show ?case
  proof (cases "src = []")
    case True
    then show ?thesis by (subst fill_loop.simps) simp
  next
    case False
    define b1 where "b1 = (if length buf = cap then snd (crunch buf) else buf)"
    define o1 where "o1 = (if length buf = cap then out @ fst (crunch buf) else out)"
    define i where "i = min (length src) (cap - length b1)"
    have b1: "length b1 < cap" using less.prems crunch_rest [of buf] by (auto simp: b1_def)
    have i: "0 < i" "i \<le> length src" "length b1 + i \<le> cap" using b1 False by (auto simp: i_def)
    have "(if length buf = cap then (case crunch buf of (w, r) \<Rightarrow> (r, out @ w)) else (buf, out)) = (b1, o1)"
      by (simp add: b1_def o1_def split: prod.split)
    then have step: "fill_loop cap crunch buf src out = fill_loop cap crunch (b1 @ take i src) (drop i src) o1"
      using False b1 by (subst fill_loop.simps) (simp add: i_def [symmetric])
    also have "\<dots> = Some (fold (push_byte cap crunch) (drop i src) (b1 @ take i src, o1))"
      using i by (intro less.hyps) auto
    also have "(b1 @ take i src, o1) = fold (push_byte cap crunch) (take i src) (buf, out)"
    proof -
      obtain c cs where c: "take i src = c # cs" using i False by (cases "take i src") auto
      then have "length (c # cs) = i" using i(2) by (metis length_take min.absorb2)
      then have "length b1 + length (c # cs) \<le> cap" using i(3) by simp
      then have "fold (push_byte cap crunch) cs (b1 @ [c], o1) = (b1 @ c # cs, o1)"
        using push_fits [of "b1 @ [c]" cs o1] by simp
      moreover have "push_byte cap crunch c (buf, out) = (b1 @ [c], o1)"
        by (simp add: push_byte_def b1_def o1_def)
      ultimately show ?thesis by (simp add: c)
    qed
    finally show ?thesis
      by (metis append_take_drop_id fold_append comp_apply)
  qed
qed

lemma push_keeps: "length (fst s) \<le> cap \<Longrightarrow> length (fst (fold (push_byte cap crunch) bs s)) \<le> cap"
proof (induction bs arbitrary: s)
  case Nil
  then show ?case by simp
next
  case (Cons b bs)
  have "length (fst (push_byte cap crunch b s)) \<le> cap"
    using Cons.prems crunch_rest [of "fst s"] by (cases s) (auto simp: push_byte_def)
  with Cons.IH show ?case by simp
qed

lemma fill_loop_keeps:
  "fill_loop cap crunch buf src out = Some (buf', out') \<Longrightarrow> length buf \<le> cap \<Longrightarrow> length buf' \<le> cap"
  using push_keeps [of "(buf, out)" src] fill_loop_push [of buf src out] by auto

lemma fill_loop_append:
  assumes "length buf \<le> cap"
  shows "fill_loop cap crunch buf (xs @ ys) out =
    (case fill_loop cap crunch buf xs out of None \<Rightarrow> None
     | Some (buf', out') \<Rightarrow> fill_loop cap crunch buf' ys out')"
proof -
  obtain b w where "fold (push_byte cap crunch) xs (buf, out) = (b, w)" by (metis prod.exhaust)
  then show ?thesis
    using fill_loop_push [OF assms, of xs out] fill_loop_push [OF assms, of "xs @ ys" out]
      push_keeps [of "(buf, out)" xs] fill_loop_push [of b ys w] assms by simp
qed

end

text \<open>A coder that may be run over a first part of its input.\<close>

locale partial_coder = buffered +
  assumes crunch_append:
    "crunch (xs @ ys) = (case crunch xs of (w, r) \<Rightarrow> case crunch (r @ ys) of (w', r') \<Rightarrow> (w @ w', r'))"
begin

definition crunch_state :: "byte list \<times> byte list \<Rightarrow> byte list \<times> byte list" where
  "crunch_state s = (case crunch (fst s) of (w, r) \<Rightarrow> (snd s @ w, r))"

lemma crunch_push:
  "crunch_state (push_byte cap crunch b s) = (case crunch (fst s @ [b]) of (w, r) \<Rightarrow> (snd s @ w, r))"
proof (cases s)
  case (Pair buf out)
  then show ?thesis
    using crunch_append [of buf "[b]"]
    by (cases "crunch buf"; cases "crunch (buf @ [b])"; cases "crunch (snd (crunch buf) @ [b])")
      (auto simp: crunch_state_def push_byte_def)
qed

lemma crunch_fold:
  "crunch_state (fold (push_byte cap crunch) bs s) = (case crunch (fst s @ bs) of (w, r) \<Rightarrow> (snd s @ w, r))"
proof (induction bs rule: rev_induct)
  case Nil
  then show ?case by (simp add: crunch_state_def)
next
  case (snoc b bs)
  let ?s = "fold (push_byte cap crunch) bs s"
  have "crunch_state (fold (push_byte cap crunch) (bs @ [b]) s) =
      (case crunch (fst ?s @ [b]) of (w, r) \<Rightarrow> (snd ?s @ w, r))"
    by (simp add: crunch_push)
  also have "\<dots> = (case crunch_state ?s of (w, r) \<Rightarrow> case crunch (r @ [b]) of (w', r') \<Rightarrow> (w @ w', r'))"
    by (simp add: crunch_state_def crunch_append [of "fst ?s" "[b]"] split: prod.split)
  also have "\<dots> = (case crunch (fst s @ bs @ [b]) of (w, r) \<Rightarrow> (snd s @ w, r))"
    unfolding snoc.IH using crunch_append [of "fst s @ bs" "[b]"] by (auto split: prod.split)
  finally show ?case by simp
qed

lemma fill_loop_crunch:
  assumes "fill_loop cap crunch buf src out = Some (buf', out')" "length buf \<le> cap"
  shows "out' @ fst (crunch buf') = out @ fst (crunch (buf @ src))" "snd (crunch buf') = snd (crunch (buf @ src))"
proof -
  have "fold (push_byte cap crunch) src (buf, out) = (buf', out')"
    using fill_loop_push [OF assms(2), of src out] assms(1) by simp
  with crunch_fold [of src "(buf, out)"]
  show "out' @ fst (crunch buf') = out @ fst (crunch (buf @ src))" "snd (crunch buf') = snd (crunch (buf @ src))"
    by (auto simp: crunch_state_def split: prod.splits)
qed

end

end
