(* ===== verification/MimeCode.thy ===== *)
theory MimeCode
  imports Buffered
begin

text \<open>
  The base64, uucode and xxcode coders (\<^verbatim>\<open>mime/mime_code.cpp\<close> and the three files with their
  tables): the buffered encoder and decoder, and the \<^verbatim>\<open>pipe_stream\<close> methods on top of them.

  The decoding tables have 255 entries; \<open>oob\<close> is the byte that lies behind a table, which the
  decoder reads for the byte 255. Counts are lengths of lists, below the range of \<^verbatim>\<open>int\<close>.
\<close>

section \<open>The tables\<close>

definition to_b64_tab :: "byte list" where
  "to_b64_tab = [
    65, 66, 67, 68, 69, 70, 71, 72, 73, 74, 75, 76, 77, 78, 79, 80,
    81, 82, 83, 84, 85, 86, 87, 88, 89, 90, 97, 98, 99, 100, 101, 102,
    103, 104, 105, 106, 107, 108, 109, 110, 111, 112, 113, 114, 115, 116, 117, 118,
    119, 120, 121, 122, 48, 49, 50, 51, 52, 53, 54, 55, 56, 57, 43, 47]"

definition un_b64_tab :: "byte list" where
  "un_b64_tab = [
    255, 255, 255, 255, 255, 255, 255, 255, 255, 255, 255, 255, 255, 255, 255, 255,
    255, 255, 255, 255, 255, 255, 255, 255, 255, 255, 255, 255, 255, 255, 255, 255,
    255, 255, 255, 255, 255, 255, 255, 255, 255, 255, 255, 62, 255, 255, 255, 63,
    52, 53, 54, 55, 56, 57, 58, 59, 60, 61, 255, 255, 255, 255, 255, 255,
    255, 0, 1, 2, 3, 4, 5, 6, 7, 8, 9, 10, 11, 12, 13, 14,
    15, 16, 17, 18, 19, 20, 21, 22, 23, 24, 25, 255, 255, 255, 255, 255,
    255, 26, 27, 28, 29, 30, 31, 32, 33, 34, 35, 36, 37, 38, 39, 40,
    41, 42, 43, 44, 45, 46, 47, 48, 49, 50, 51, 255, 255, 255, 255, 255,
    255, 255, 255, 255, 255, 255, 255, 255, 255, 255, 255, 255, 255, 255, 255, 255,
    255, 255, 255, 255, 255, 255, 255, 255, 255, 255, 255, 255, 255, 255, 255, 255,
    255, 255, 255, 255, 255, 255, 255, 255, 255, 255, 255, 255, 255, 255, 255, 255,
    255, 255, 255, 255, 255, 255, 255, 255, 255, 255, 255, 255, 255, 255, 255, 255,
    255, 255, 255, 255, 255, 255, 255, 255, 255, 255, 255, 255, 255, 255, 255, 255,
    255, 255, 255, 255, 255, 255, 255, 255, 255, 255, 255, 255, 255, 255, 255, 255,
    255, 255, 255, 255, 255, 255, 255, 255, 255, 255, 255, 255, 255, 255, 255, 255,
    255, 255, 255, 255, 255, 255, 255, 255, 255, 255, 255, 255, 255, 255, 255]"

definition to_uucode_tab :: "byte list" where
  "to_uucode_tab = [
    96, 33, 34, 35, 36, 37, 38, 39, 40, 41, 42, 43, 44, 45, 46, 47,
    48, 49, 50, 51, 52, 53, 54, 55, 56, 57, 58, 59, 60, 61, 62, 63,
    64, 65, 66, 67, 68, 69, 70, 71, 72, 73, 74, 75, 76, 77, 78, 79,
    80, 81, 82, 83, 84, 85, 86, 87, 88, 89, 90, 91, 92, 93, 94, 95]"

definition un_uucode_tab :: "byte list" where
  "un_uucode_tab = [
    255, 255, 255, 255, 255, 255, 255, 255, 255, 255, 255, 255, 255, 255, 255, 255,
    255, 255, 255, 255, 255, 255, 255, 255, 255, 255, 255, 255, 255, 255, 255, 255,
    255, 1, 2, 3, 4, 5, 6, 7, 8, 9, 10, 11, 12, 13, 14, 15,
    16, 17, 18, 19, 20, 21, 22, 23, 24, 25, 26, 27, 28, 29, 30, 31,
    32, 33, 34, 35, 36, 37, 38, 39, 40, 41, 42, 43, 44, 45, 46, 47,
    48, 49, 50, 51, 52, 53, 54, 55, 56, 57, 58, 59, 60, 61, 62, 63,
    0, 255, 255, 255, 255, 255, 255, 255, 255, 255, 255, 255, 255, 255, 255, 255,
    255, 255, 255, 255, 255, 255, 255, 255, 255, 255, 255, 255, 255, 255, 255, 255,
    255, 255, 255, 255, 255, 255, 255, 255, 255, 255, 255, 255, 255, 255, 255, 255,
    255, 255, 255, 255, 255, 255, 255, 255, 255, 255, 255, 255, 255, 255, 255, 255,
    255, 255, 255, 255, 255, 255, 255, 255, 255, 255, 255, 255, 255, 255, 255, 255,
    255, 255, 255, 255, 255, 255, 255, 255, 255, 255, 255, 255, 255, 255, 255, 255,
    255, 255, 255, 255, 255, 255, 255, 255, 255, 255, 255, 255, 255, 255, 255, 255,
    255, 255, 255, 255, 255, 255, 255, 255, 255, 255, 255, 255, 255, 255, 255, 255,
    255, 255, 255, 255, 255, 255, 255, 255, 255, 255, 255, 255, 255, 255, 255, 255,
    255, 255, 255, 255, 255, 255, 255, 255, 255, 255, 255, 255, 255, 255, 255]"

definition to_xx_tab :: "byte list" where
  "to_xx_tab = [
    43, 45, 48, 49, 50, 51, 52, 53, 54, 55, 56, 57, 65, 66, 67, 68,
    69, 70, 71, 72, 73, 74, 75, 76, 77, 78, 79, 80, 81, 82, 83, 84,
    85, 86, 87, 88, 89, 90, 97, 98, 99, 100, 101, 102, 103, 104, 105, 106,
    107, 108, 109, 110, 111, 112, 113, 114, 115, 116, 117, 118, 119, 120, 121, 122]"

definition un_xx_tab :: "byte list" where
  "un_xx_tab = [
    255, 255, 255, 255, 255, 255, 255, 255, 255, 255, 255, 255, 255, 255, 255, 255,
    255, 255, 255, 255, 255, 255, 255, 255, 255, 255, 255, 255, 255, 255, 255, 255,
    255, 255, 255, 255, 255, 255, 255, 255, 255, 255, 255, 0, 255, 1, 255, 255,
    2, 3, 4, 5, 6, 7, 8, 9, 10, 11, 255, 255, 255, 255, 255, 255,
    255, 12, 13, 14, 15, 16, 17, 18, 19, 20, 21, 22, 23, 24, 25, 26,
    27, 28, 29, 30, 31, 32, 33, 34, 35, 36, 37, 255, 255, 255, 255, 255,
    255, 38, 39, 40, 41, 42, 43, 44, 45, 46, 47, 48, 49, 50, 51, 52,
    53, 54, 55, 56, 57, 58, 59, 60, 61, 62, 63, 255, 255, 255, 255, 255,
    255, 255, 255, 255, 255, 255, 255, 255, 255, 255, 255, 255, 255, 255, 255, 255,
    255, 255, 255, 255, 255, 255, 255, 255, 255, 255, 255, 255, 255, 255, 255, 255,
    255, 255, 255, 255, 255, 255, 255, 255, 255, 255, 255, 255, 255, 255, 255, 255,
    255, 255, 255, 255, 255, 255, 255, 255, 255, 255, 255, 255, 255, 255, 255, 255,
    255, 255, 255, 255, 255, 255, 255, 255, 255, 255, 255, 255, 255, 255, 255, 255,
    255, 255, 255, 255, 255, 255, 255, 255, 255, 255, 255, 255, 255, 255, 255, 255,
    255, 255, 255, 255, 255, 255, 255, 255, 255, 255, 255, 255, 255, 255, 255, 255,
    255, 255, 255, 255, 255, 255, 255, 255, 255, 255, 255, 255, 255, 255, 255]"

definition un_at :: "byte \<Rightarrow> byte list \<Rightarrow> byte \<Rightarrow> byte" where
  "un_at oob tab c = (if unat c < length tab then tab ! unat c else oob)"

definition INVALID :: byte where "INVALID = 0xff"

section \<open>The coder\<close>

record mime_code =
  mc_encode_buf :: "byte list"
  mc_decode_buf :: "byte list"
  mc_add_crlf :: bool
  mc_add_invalid :: bool
  mc_encoding :: bool
  mc_to_tab :: "byte list"
  mc_un_tab :: "byte list"
  mc_fill :: byte
  mc_pbuf :: "byte list option"

definition mime_code_new :: "bool \<Rightarrow> bool \<Rightarrow> mime_code" where
  "mime_code_new crlf invalid = \<lparr>mc_encode_buf = [], mc_decode_buf = [], mc_add_crlf = crlf,
     mc_add_invalid = invalid, mc_encoding = False, mc_to_tab = [], mc_un_tab = [],
     mc_fill = 61, mc_pbuf = None\<rparr>"

definition mime_init :: "byte list \<Rightarrow> byte list \<Rightarrow> byte \<Rightarrow> mime_code \<Rightarrow> mime_code" where
  "mime_init to_tab un_tab fill mc = mc\<lparr>mc_to_tab := to_tab, mc_un_tab := un_tab, mc_fill := fill\<rparr>"

definition mime_reset :: "mime_code \<Rightarrow> mime_code" where
  "mime_reset mc = mc\<lparr>mc_encode_buf := [], mc_decode_buf := []\<rparr>"

definition add_crlf :: "bool \<Rightarrow> mime_code \<Rightarrow> mime_code" where
  "add_crlf on mc = mc\<lparr>mc_add_crlf := on\<rparr>"

definition add_invalid :: "bool \<Rightarrow> mime_code \<Rightarrow> mime_code" where
  "add_invalid on mc = mc\<lparr>mc_add_invalid := on\<rparr>"

definition mime_set_status :: "bool \<Rightarrow> mime_code \<Rightarrow> mime_code" where
  "mime_set_status encoding mc = mc\<lparr>mc_encoding := encoding\<rparr>"

definition mime_base64 :: "bool \<Rightarrow> bool \<Rightarrow> mime_code" where
  "mime_base64 crlf invalid = mime_init to_b64_tab un_b64_tab 61 (mime_code_new crlf invalid)"

definition mime_uucode :: "bool \<Rightarrow> bool \<Rightarrow> mime_code" where
  "mime_uucode crlf invalid = mime_init to_uucode_tab un_uucode_tab 126 (mime_code_new crlf invalid)"

definition mime_xxcode :: "bool \<Rightarrow> bool \<Rightarrow> mime_code" where
  "mime_xxcode crlf invalid = mime_init to_xx_tab un_xx_tab 126 (mime_code_new crlf invalid)"

section \<open>Encoding\<close>

text \<open>The characters of the bytes in the buffer, three bytes at a time.\<close>

fun encode_groups :: "byte list \<Rightarrow> byte \<Rightarrow> byte list \<Rightarrow> byte list" where
  "encode_groups t fill [] = []"
| "encode_groups t fill [a] =
     [t ! unat (drop_bit 2 a), t ! unat (push_bit 4 (a AND 0x3)), fill, fill]"
| "encode_groups t fill [a, b] =
     [t ! unat (drop_bit 2 a), t ! unat (push_bit 4 (a AND 0x3) OR drop_bit 4 b),
      t ! unat (push_bit 2 (b AND 0xf)), fill]"
| "encode_groups t fill (a # b # c # cs) =
     [t ! unat (drop_bit 2 a), t ! unat (push_bit 4 (a AND 0x3) OR drop_bit 4 b),
      t ! unat (push_bit 2 (b AND 0xf) OR drop_bit 6 c), t ! unat (c AND 0x3f)] @
     encode_groups t fill cs"

definition CRLF :: "byte list" where "CRLF = [13, 10]"

definition mime_encode :: "mime_code \<Rightarrow> byte list \<Rightarrow> byte list" where
  "mime_encode mc bs = encode_groups (mc_to_tab mc) (mc_fill mc) bs @ (if mc_add_crlf mc then CRLF else [])"

definition encode_update :: "mime_code \<Rightarrow> byte list \<Rightarrow> byte list \<Rightarrow> (mime_code \<times> byte list) option" where
  "encode_update mc src out =
     map_option (\<lambda>(buf, out'). (mc\<lparr>mc_encode_buf := buf\<rparr>, out'))
       (fill_loop 57 (\<lambda>bs. (mime_encode mc bs, [])) (mc_encode_buf mc) src out)"

definition encode_finish :: "mime_code \<Rightarrow> byte list \<Rightarrow> mime_code \<times> byte list" where
  "encode_finish mc out = (mc\<lparr>mc_encode_buf := []\<rparr>, out @ mime_encode mc (mc_encode_buf mc))"

section \<open>Decoding\<close>

text \<open>
  One turn of the loop of \<^verbatim>\<open>decode\<close>, for at least four bytes: what it writes, and the bytes it
  leaves. \<open>un\<close> is the decoding table as it is read; \<open>v\<close> says whether invalid bytes are kept.
\<close>

fun decode_group :: "bool \<Rightarrow> byte \<Rightarrow> (byte \<Rightarrow> byte) \<Rightarrow> byte list \<Rightarrow> byte list \<times> byte list" where
  "decode_group v fill un (c0 # c1 # c2 # c3 # r) =
     (let keep = (\<lambda>c. if v then [c] else []) in
      if c0 = 13 \<or> c0 = 10 \<or> c0 = fill then ([], c1 # c2 # c3 # r)
      else if un c0 = INVALID then (keep c0, c1 # c2 # c3 # r)
      else if un c1 = INVALID then (keep c1, c2 # c3 # r)
      else
        let w1 = [push_bit 2 (un c0) OR drop_bit 4 (un c1)] in
        if c2 = fill then (w1, c3 # r)
        else if un c2 = INVALID then (w1 @ keep c2, c3 # r)
        else
          let w2 = w1 @ [push_bit 4 (un c1) OR drop_bit 2 (un c2)] in
          if c3 = fill then (w2, r)
          else if un c3 = INVALID then (w2 @ keep c3, r)
          else (w2 @ [push_bit 6 (un c2) OR un c3], r))"
| "decode_group v fill un bs = ([], [])"

lemma decode_group_shorter: "4 \<le> length bs \<Longrightarrow> length (snd (decode_group v fill un bs)) < length bs"
  by (cases "(v, fill, un, bs)" rule: decode_group.cases) (auto simp: Let_def)

text \<open>
  The loop: what is written for the bytes of the buffer, and the bytes, at most three, that are
  moved to the front of it.
\<close>

function decode_groups :: "bool \<Rightarrow> byte \<Rightarrow> (byte \<Rightarrow> byte) \<Rightarrow> byte list \<Rightarrow> byte list \<times> byte list" where
  "decode_groups v fill un bs =
     (if length bs < 4 then ([], bs)
      else case decode_group v fill un bs of
        (w, b) \<Rightarrow> (case decode_groups v fill un b of (w', r) \<Rightarrow> (w @ w', r)))"
  by pat_completeness auto
termination
  apply (relation "measure (\<lambda>(_, _, _, bs). length bs)")
   apply simp
  subgoal for v fill un bs w b
    using decode_group_shorter [of bs v fill un] by (cases "decode_group v fill un bs") simp
  done

definition mime_decode :: "byte \<Rightarrow> mime_code \<Rightarrow> byte list \<Rightarrow> byte list \<times> byte list" where
  "mime_decode oob mc bs =
     decode_groups (mc_add_invalid mc) (mc_fill mc) (un_at oob (mc_un_tab mc)) bs"

definition decode_update :: "byte \<Rightarrow> mime_code \<Rightarrow> byte list \<Rightarrow> byte list \<Rightarrow> (mime_code \<times> byte list) option" where
  "decode_update oob mc src out =
     map_option (\<lambda>(buf, out'). (mc\<lparr>mc_decode_buf := buf\<rparr>, out'))
       (fill_loop 76 (mime_decode oob mc) (mc_decode_buf mc) src out)"

definition decode_finish :: "byte \<Rightarrow> mime_code \<Rightarrow> byte list \<Rightarrow> mime_code \<times> byte list" where
  "decode_finish oob mc out =
     (case mime_decode oob mc (mc_decode_buf mc) of
        (w, r) \<Rightarrow> (mc\<lparr>mc_decode_buf := []\<rparr>, out @ w @ (if mc_add_invalid mc then r else [])))"

text \<open>The static methods of the three classes, for one call on the whole input.\<close>

definition mime_encode_all :: "(bool \<Rightarrow> bool \<Rightarrow> mime_code) \<Rightarrow> byte list \<Rightarrow> byte list \<Rightarrow> byte list option" where
  "mime_encode_all cls src out =
     map_option (\<lambda>(mc, out'). snd (encode_finish mc out')) (encode_update (cls False False) src out)"

definition mime_decode_all :: "(bool \<Rightarrow> bool \<Rightarrow> mime_code) \<Rightarrow> byte \<Rightarrow> byte list \<Rightarrow> byte list \<Rightarrow> byte list option" where
  "mime_decode_all cls oob src out =
     map_option (\<lambda>(mc, out'). snd (decode_finish oob mc out')) (decode_update oob (cls False False) src out)"

definition base64_encode where "base64_encode = mime_encode_all mime_base64"
definition base64_decode where "base64_decode = mime_decode_all mime_base64"
definition uucode_encode where "uucode_encode = mime_encode_all mime_uucode"
definition uucode_decode where "uucode_decode = mime_decode_all mime_uucode"
definition xxcode_encode where "xxcode_encode = mime_encode_all mime_xxcode"
definition xxcode_decode where "xxcode_decode = mime_decode_all mime_xxcode"

section \<open>The coder as a pipe\<close>

text \<open>
  \<open>src\<close> is \<^const>\<open>None\<close> for NULL, \<open>out\<close> too; a maximum of 0 is none. The results are the coder,
  the output and the number returned.
\<close>

definition push_pop ::
  "byte \<Rightarrow> byte list option \<Rightarrow> byte list option \<Rightarrow> nat \<Rightarrow> mime_code \<Rightarrow>
   (mime_code \<times> byte list option \<times> nat) option" where
  "push_pop oob src out most mc =
     (let pb = (case mc_pbuf mc of None \<Rightarrow> [] | Some b \<Rightarrow> b);
          r = (case src of
                 None \<Rightarrow> Some (mc, pb)
               | Some s \<Rightarrow> if s = [] then Some (mc, pb)
                           else if mc_encoding mc then encode_update mc s pb
                           else decode_update oob mc s pb)
      in case r of
           None \<Rightarrow> None
         | Some (mc1, pb1) \<Rightarrow>
             (case out of
                None \<Rightarrow> Some (mc1\<lparr>mc_pbuf := Some pb1\<rparr>, None, 0)
              | Some w \<Rightarrow>
                  let n = (if most > 0 then min most (length pb1) else length pb1) in
                  if pb1 = [] then Some (mc1\<lparr>mc_pbuf := Some pb1\<rparr>, Some w, 0)
                  else Some (mc1\<lparr>mc_pbuf := Some (drop n pb1)\<rparr>, Some (w @ take n pb1), n)))"

text \<open>\<^const>\<open>None\<close>: the result -1, since nothing was pushed before.\<close>

definition pop_end ::
  "byte \<Rightarrow> byte list option \<Rightarrow> nat \<Rightarrow> mime_code \<Rightarrow> (mime_code \<times> byte list option \<times> nat) option" where
  "pop_end oob out most mc =
     (case mc_pbuf mc of
        None \<Rightarrow> None
      | Some pb \<Rightarrow>
          let (mc1, pb1) = (if mc_encoding mc then encode_finish mc pb else decode_finish oob mc pb) in
          case out of
            None \<Rightarrow> Some (mc1\<lparr>mc_pbuf := Some []\<rparr>, None, 0)
          | Some w \<Rightarrow>
              let n = (if most > 0 \<and> length pb1 > most then most else length pb1) in
              if pb1 = [] then Some (mc1\<lparr>mc_pbuf := Some pb1\<rparr>, Some w, 0)
              else Some (mc1\<lparr>mc_pbuf := Some []\<rparr>, Some (w @ take n pb1), n))"

definition mime_clear :: "mime_code \<Rightarrow> mime_code" where
  "mime_clear mc = mc\<lparr>mc_pbuf := map_option (\<lambda>_. []) (mc_pbuf mc)\<rparr>"

section \<open>The coders meet the contract\<close>

declare decode_groups.simps [simp del]

lemma decode_groups_short [simp]: "length bs < 4 \<Longrightarrow> decode_groups v fill un bs = ([], bs)"
  by (subst decode_groups.simps) simp

lemma decode_groups_rest: "length (snd (decode_groups v fill un bs)) < 4"
proof (induction v fill un bs rule: decode_groups.induct)
  case (1 v fill un bs)
  then show ?case by (subst decode_groups.simps) (auto split: prod.split)
qed

lemma decode_group_append:
  "4 \<le> length bs \<Longrightarrow> decode_group v fill un (bs @ ys) = (case decode_group v fill un bs of (w, b) \<Rightarrow> (w, b @ ys))"
  by (cases "(v, fill, un, bs)" rule: decode_group.cases) (auto simp: Let_def)

lemma decode_groups_append:
  "decode_groups v fill un (xs @ ys) =
   (case decode_groups v fill un xs of (w, r) \<Rightarrow> case decode_groups v fill un (r @ ys) of (w', r') \<Rightarrow> (w @ w', r'))"
proof (induction v fill un xs rule: decode_groups.induct)
  case (1 v fill un bs)
  show ?case
  proof (cases "length bs < 4")
    case False
    obtain w b where g: "decode_group v fill un bs = (w, b)" by (metis prod.exhaust)
    have "decode_groups v fill un (bs @ ys) =
        (case decode_groups v fill un (b @ ys) of (w', r) \<Rightarrow> (w @ w', r))"
      using False decode_group_append [of bs v fill un ys] g by (subst decode_groups.simps) simp
    also have "\<dots> = (case decode_groups v fill un b of (w1, r1) \<Rightarrow>
        case decode_groups v fill un (r1 @ ys) of (w2, r2) \<Rightarrow> (w @ w1 @ w2, r2))"
      using 1 [OF False g [symmetric]] by (auto split: prod.split)
    also have "\<dots> = (case decode_groups v fill un bs of (w1, r1) \<Rightarrow>
        case decode_groups v fill un (r1 @ ys) of (w2, r2) \<Rightarrow> (w1 @ w2, r2))"
      using False g by (subst (3) decode_groups.simps) (auto split: prod.split)
    finally show ?thesis .
  qed (auto split: prod.split)
qed

interpretation mime_dec: partial_coder 76 "mime_decode oob mc" for oob mc
proof
  show "length (snd (mime_decode oob mc xs)) < 76" for xs
    unfolding mime_decode_def
    using decode_groups_rest [of "mc_add_invalid mc" "mc_fill mc" "un_at oob (mc_un_tab mc)" xs] by linarith
  show "mime_decode oob mc (xs @ ys) =
      (case mime_decode oob mc xs of (w, r) \<Rightarrow> case mime_decode oob mc (r @ ys) of (w', r') \<Rightarrow> (w @ w', r'))" for xs ys
    unfolding mime_decode_def by (rule decode_groups_append)
qed

interpretation mime_enc: buffered 57 "\<lambda>bs. (mime_encode mc bs, [])" for mc
  by unfold_locales simp

end
