(* ===== verification/MimeRound.thy ===== *)
theory MimeRound
  imports MimeCode
begin

text \<open>
  What the three table coders do to a whole input: decoding undoes encoding, and neither depends on
  the pieces the input comes in.
\<close>

section \<open>Groups of six bits\<close>

lemma sextet_bits:
  assumes "\<not> bit w 6" "\<not> bit w 7"
  shows "unat (w::byte) < 64"
proof -
  have "take_bit 6 w = w"
    by (rule byte_eqI) (use assms in \<open>auto simp: bit_take_bit_iff\<close>)
  then have "unat w = take_bit 6 (unat w)" by (metis unsigned_take_bit_eq)
  then show ?thesis by (simp add: take_bit_eq_mod)
qed

lemma sextets_small:
  "unat (drop_bit 2 (a::byte)) < 64" "unat (push_bit 4 (a AND 0x3)) < 64"
  "unat (push_bit 4 (a AND 0x3) OR drop_bit 4 (b::byte)) < 64" "unat (push_bit 2 (b AND 0xf)) < 64"
  "unat (push_bit 2 (b AND 0xf) OR drop_bit 6 (c::byte)) < 64" "unat (c AND 0x3f) < 64"
  by (rule sextet_bits; simp only: byte_bits; simp add: byte_high)+

lemma sextets_join:
  "push_bit 2 (drop_bit 2 a) OR drop_bit 4 (push_bit 4 (a AND 0x3) OR drop_bit 4 b) = (a::byte)"
  "push_bit 2 (drop_bit 2 a) OR drop_bit 4 (push_bit 4 (a AND 0x3)) = a"
  "push_bit 4 (push_bit 4 (a AND 0x3) OR drop_bit 4 b) OR drop_bit 2 (push_bit 2 (b AND 0xf) OR drop_bit 6 c) = (b::byte)"
  "push_bit 4 (push_bit 4 (a AND 0x3) OR drop_bit 4 b) OR drop_bit 2 (push_bit 2 (b AND 0xf)) = b"
  "push_bit 6 (push_bit 2 (b AND 0xf) OR drop_bit 6 c) OR (c AND 0x3f) = (c::byte)"
  by (rule byte_eqI; simp only: byte_bits; elim insertE emptyE; simp add: byte_high)+

section \<open>A table and its inverse\<close>

definition codec_ok :: "byte list \<Rightarrow> (byte \<Rightarrow> byte) \<Rightarrow> byte \<Rightarrow> bool" where
  "codec_ok t un fill \<longleftrightarrow>
     list_all (\<lambda>i. un (t ! i) = word_of_nat i \<and> t ! i \<noteq> 13 \<and> t ! i \<noteq> 10 \<and> t ! i \<noteq> fill) [0..<64]"

lemma b64_ok: "codec_ok to_b64_tab (un_at oob un_b64_tab) 61"
  unfolding codec_ok_def by code_simp

lemma uucode_ok: "codec_ok to_uucode_tab (un_at oob un_uucode_tab) 126"
  unfolding codec_ok_def by code_simp

lemma xx_ok: "codec_ok to_xx_tab (un_at oob un_xx_tab) 126"
  unfolding codec_ok_def by code_simp

lemma codec_okD:
  assumes "codec_ok t un fill" "unat w < 64"
  shows "un (t ! unat w) = w" "t ! unat w \<noteq> 13" "t ! unat w \<noteq> 10" "t ! unat w \<noteq> fill" "un (t ! unat w) \<noteq> INVALID"
proof -
  have "unat w \<in> set [0..<64]" using assms(2) by simp
  with assms(1) have e: "un (t ! unat w) = word_of_nat (unat w) \<and> t ! unat w \<noteq> 13 \<and> t ! unat w \<noteq> 10 \<and> t ! unat w \<noteq> fill"
    unfolding codec_ok_def list_all_iff by blast
  then show u: "un (t ! unat w) = w" "t ! unat w \<noteq> 13" "t ! unat w \<noteq> 10" "t ! unat w \<noteq> fill" by simp_all
  show "un (t ! unat w) \<noteq> INVALID" unfolding u using assms(2) by (auto simp: INVALID_def)
qed

lemma small_valid: "unat w < 64 \<Longrightarrow> w \<noteq> INVALID"
  by (auto simp: INVALID_def)

lemmas sextets_valid = sextets_small [THEN small_valid]

section \<open>Groups\<close>

lemma decode_groups_step:
  "4 \<le> length bs \<Longrightarrow> decode_groups v fill un bs =
     (case decode_group v fill un bs of (w, b) \<Rightarrow> case decode_groups v fill un b of (w', r) \<Rightarrow> (w @ w', r))"
  by (subst decode_groups.simps) simp

lemma decode_group_full:
  assumes "codec_ok t un fill"
  shows "decode_group v fill un (encode_groups t fill [a, b, c] @ ys) = ([a, b, c], ys)"
  by (simp only: encode_groups.simps append.simps decode_group.simps Let_def sextets_small
      codec_okD [OF assms] sextets_join sextets_valid if_False if_True simp_thms)

lemma decode_group_two:
  assumes "codec_ok t un fill"
  shows "decode_group v fill un (encode_groups t fill [a, b] @ ys) = ([a, b], ys)"
  by (simp only: encode_groups.simps append.simps decode_group.simps Let_def sextets_small
      codec_okD [OF assms] sextets_join sextets_valid if_False if_True simp_thms)

lemma decode_group_one:
  assumes "codec_ok t un fill"
  shows "decode_group v fill un (encode_groups t fill [a] @ ys) = ([a], fill # ys)"
  by (simp only: encode_groups.simps append.simps decode_group.simps Let_def sextets_small
      codec_okD [OF assms] sextets_join sextets_valid if_False if_True simp_thms)

lemma length_encode_groups: "length (encode_groups t fill bs) = 4 * ((length bs + 2) div 3)"
proof (induction t fill bs rule: encode_groups.induct)
  case (4 t fill a b c cs)
  have "Suc (Suc (Suc (Suc (Suc n)))) div 3 = Suc (Suc (Suc n) div 3)" for n :: nat by presburger
  with 4 show ?case by simp
qed simp_all

lemma encode_groups_cons:
  "encode_groups t fill (a # b # c # cs) = encode_groups t fill [a, b, c] @ encode_groups t fill cs"
  by simp

lemma decode_groups_lines:
  "\<lbrakk>codec_ok t un fill; length bs mod 3 = 0\<rbrakk> \<Longrightarrow>
   decode_groups v fill un (encode_groups t fill bs @ ys) =
     (case decode_groups v fill un ys of (w, r) \<Rightarrow> (bs @ w, r))"
proof (induction t fill bs rule: encode_groups.induct)
  case (4 t fill a b c cs)
  have m: "length cs mod 3 = 0" using 4(3) by simp
  have "4 \<le> length (encode_groups t fill [a, b, c] @ encode_groups t fill cs @ ys)" by simp
  then show ?case
    unfolding encode_groups_cons [of t fill a b c cs] append_assoc
    using decode_groups_step [of "encode_groups t fill [a, b, c] @ encode_groups t fill cs @ ys" v fill un]
      decode_group_full [OF 4(2), of v a b c "encode_groups t fill cs @ ys"] 4(1) [OF 4(2) m]
    by (auto split: prod.split)
qed (auto split: prod.split)

text \<open>What is left of the last group: the second fill byte stays in the buffer.\<close>

lemma decode_groups_last:
  assumes ok: "codec_ok t un fill" and short: "length ys \<le> 2"
  shows "decode_groups v fill un (encode_groups t fill bs @ ys) =
     (bs, (if length bs mod 3 = 1 then [fill] else []) @ ys)"
  using ok
proof (induction t fill bs rule: encode_groups.induct)
  case (2 t fill a)
  have "4 \<le> length (encode_groups t fill [a] @ ys)" by simp
  then show ?case using decode_groups_step decode_group_one [OF 2] short by fastforce
next
  case (3 t fill a b)
  have "4 \<le> length (encode_groups t fill [a, b] @ ys)" by simp
  then show ?case using decode_groups_step decode_group_two [OF 3] short by fastforce
next
  case (4 t fill a b c cs)
  have "length [a, b, c] mod 3 = 0" by simp
  then show ?case
    unfolding encode_groups_cons [of t fill a b c cs] append_assoc
    using decode_groups_lines [OF 4(2), of "[a, b, c]" v "encode_groups t fill cs @ ys"] 4(1) [OF 4(2)]
    by simp
qed (use short in auto)

lemma decode_groups_crlf:
  assumes "2 < length ys"
  shows "decode_groups v fill un (CRLF @ ys) = decode_groups v fill un ys"
proof -
  obtain a b c zs where y: "ys = a # b # c # zs"
    using assms by (cases ys rule: remdups_adj.cases; cases "tl (tl ys)") auto
  have skip: "decode_groups v fill un (d # e # f # g # zs') = decode_groups v fill un (e # f # g # zs')"
    if "d = 13 \<or> d = 10" for d e f g zs'
    using that by (subst decode_groups_step) (auto split: prod.split)
  show ?thesis
    unfolding y CRLF_def append.simps using skip [of 13 10 a b "c # zs"] skip [of 10 a b c zs] by simp
qed

section \<open>Whole inputs, in pieces\<close>

text \<open>The calls a user makes: one update for every piece, then finish.\<close>

fun encode_pieces :: "mime_code \<Rightarrow> byte list list \<Rightarrow> byte list \<Rightarrow> byte list option" where
  "encode_pieces mc [] out = Some (snd (encode_finish mc out))"
| "encode_pieces mc (x # xs) out =
     (case encode_update mc x out of None \<Rightarrow> None | Some (mc', out') \<Rightarrow> encode_pieces mc' xs out')"

fun decode_pieces :: "byte \<Rightarrow> mime_code \<Rightarrow> byte list list \<Rightarrow> byte list \<Rightarrow> byte list option" where
  "decode_pieces oob mc [] out = Some (snd (decode_finish oob mc out))"
| "decode_pieces oob mc (x # xs) out =
     (case decode_update oob mc x out of None \<Rightarrow> None | Some (mc', out') \<Rightarrow> decode_pieces oob mc' xs out')"

text \<open>The text of an input: lines of 57 bytes, the last one with what is left.\<close>

function mime_lines :: "mime_code \<Rightarrow> byte list \<Rightarrow> byte list" where
  "mime_lines mc bs =
     (if length bs \<le> 57 then mime_encode mc bs
      else mime_encode mc (take 57 bs) @ mime_lines mc (drop 57 bs))"
  by pat_completeness auto
termination by (relation "measure (\<lambda>(_, bs). length bs)") auto

declare mime_lines.simps [simp del]

lemma mime_lines_short [simp]: "length bs \<le> 57 \<Longrightarrow> mime_lines mc bs = mime_encode mc bs"
  by (subst mime_lines.simps) simp

lemma mime_lines_full:
  "length xs = 57 \<Longrightarrow> ys \<noteq> [] \<Longrightarrow> mime_lines mc (xs @ ys) = mime_encode mc xs @ mime_lines mc ys"
  by (subst mime_lines.simps) simp

lemma mime_encode_buf [simp]: "mime_encode (mc\<lparr>mc_encode_buf := b\<rparr>) = mime_encode mc"
  by (simp add: mime_encode_def fun_eq_iff)

lemma mime_lines_buf [simp]: "mime_lines (mc\<lparr>mc_encode_buf := b\<rparr>) bs = mime_lines mc bs"
  by (induction mc bs rule: mime_lines.induct) (subst (1 2) mime_lines.simps, simp)

lemma encode_push:
  assumes "length (fst s) \<le> 57"
  shows "(case fold (push_byte 57 (\<lambda>bs. (mime_encode mc bs, []))) bs s of (buf, out) \<Rightarrow> out @ mime_lines mc (buf @ ys)) =
     snd s @ mime_lines mc (fst s @ bs @ ys)"
  using assms
proof (induction bs arbitrary: s)
  case Nil
  then show ?case by (simp split: prod.split)
next
  case (Cons b bs)
  have "length (fst (push_byte 57 (\<lambda>bs. (mime_encode mc bs, [])) b s)) \<le> 57"
    using mime_enc.push_keeps [of s mc "[b]"] Cons.prems by simp
  with Cons.IH Cons.prems show ?case
    by (cases s) (auto simp: push_byte_def mime_lines_full)
qed

lemma encode_pieces_lines:
  "length (mc_encode_buf mc) \<le> 57 \<Longrightarrow>
   encode_pieces mc xss out = Some (out @ mime_lines mc (mc_encode_buf mc @ concat xss))"
proof (induction xss arbitrary: mc out)
  case Nil
  then show ?case by (simp add: encode_finish_def)
next
  case (Cons x xs)
  obtain b w where f: "fold (push_byte 57 (\<lambda>bs. (mime_encode mc bs, []))) x (mc_encode_buf mc, out) = (b, w)"
    by (metis prod.exhaust)
  have u: "encode_update mc x out = Some (mc\<lparr>mc_encode_buf := b\<rparr>, w)"
    using mime_enc.fill_loop_push [OF Cons.prems, of mc x out] f by (simp add: encode_update_def)
  have "length b \<le> 57"
    using mime_enc.push_keeps [of "(mc_encode_buf mc, out)" mc x] Cons.prems f by simp
  with Cons.IH [of "mc\<lparr>mc_encode_buf := b\<rparr>" w] u
    encode_push [where s = "(mc_encode_buf mc, out)" and mc = mc and bs = x and ys = "concat xs"] Cons.prems f
  show ?case by simp
qed

lemma mime_decode_buf [simp]: "mime_decode oob (mc\<lparr>mc_decode_buf := b\<rparr>) = mime_decode oob mc"
  by (simp add: mime_decode_def fun_eq_iff)

lemma decode_pieces_run:
  "length (mc_decode_buf mc) \<le> 76 \<Longrightarrow>
   decode_pieces oob mc xss out =
     (case mime_decode oob mc (mc_decode_buf mc @ concat xss) of
        (w, r) \<Rightarrow> Some (out @ w @ (if mc_add_invalid mc then r else [])))"
proof (induction xss arbitrary: mc out)
  case Nil
  then show ?case by (simp add: decode_finish_def split: prod.split)
next
  case (Cons x xs)
  obtain b w where f: "fill_loop 76 (mime_decode oob mc) (mc_decode_buf mc) x out = Some (b, w)"
    using mime_dec.fill_loop_push [OF Cons.prems] by (metis prod.exhaust)
  have u: "decode_update oob mc x out = Some (mc\<lparr>mc_decode_buf := b\<rparr>, w)"
    using f by (simp add: decode_update_def)
  have "length b \<le> 76" using mime_dec.fill_loop_keeps [OF f Cons.prems] .
  then have "decode_pieces oob mc (x # xs) out =
      (case mime_decode oob mc (b @ concat xs) of (w', r) \<Rightarrow> Some (w @ w' @ (if mc_add_invalid mc then r else [])))"
    using Cons.IH [of "mc\<lparr>mc_decode_buf := b\<rparr>" w] u by simp
  also have "\<dots> = (case mime_decode oob mc (mc_decode_buf mc @ x @ concat xs) of
      (w', r) \<Rightarrow> Some (out @ w' @ (if mc_add_invalid mc then r else [])))"
    using mime_dec.fill_loop_crunch [OF f Cons.prems]
      mime_dec.crunch_append [of oob mc b "concat xs"]
      mime_dec.crunch_append [of oob mc "mc_decode_buf mc @ x" "concat xs"]
    by (auto split: prod.splits simp flip: append_assoc)
  finally show ?case by simp
qed

section \<open>Decoding the text\<close>

lemma mime_lines_nonempty: "bs \<noteq> [] \<Longrightarrow> 4 \<le> length (mime_lines mc bs)"
proof (induction mc bs rule: mime_lines.induct)
  case (1 mc bs)
  have g: "4 \<le> 4 * ((length xs + 2) div 3)" if "xs \<noteq> []" for xs :: "byte list"
    using that by (cases xs) auto
  show ?case
    using g [of bs] g [of "take 57 bs"] 1(2)
    by (subst mime_lines.simps) (simp add: mime_encode_def length_encode_groups)
qed

lemma decode_mime_lines:
  assumes "codec_ok (mc_to_tab mc) un (mc_fill mc)"
  shows "decode_groups v (mc_fill mc) un (mime_lines mc bs) =
    (bs, (if length bs mod 3 = 1 then [mc_fill mc] else []) @ (if mc_add_crlf mc then CRLF else []))"
  using assms
proof (induction mc bs rule: mime_lines.induct)
  case (1 mc bs)
  show ?case
  proof (cases "length bs \<le> 57")
    case True
    then show ?thesis
      using decode_groups_last [OF 1(2), of "if mc_add_crlf mc then CRLF else []" v bs]
      by (simp add: mime_encode_def CRLF_def)
  next
    case False
    define ys where "ys = mime_lines mc (drop 57 bs)"
    have l: "2 < length ys"
      using mime_lines_nonempty [of "drop 57 bs" mc] False by (simp add: ys_def)
    have "decode_groups v (mc_fill mc) un ((if mc_add_crlf mc then CRLF else []) @ ys) =
        decode_groups v (mc_fill mc) un ys"
      using decode_groups_crlf [OF l] by simp
    then have "decode_groups v (mc_fill mc) un (mime_encode mc (take 57 bs) @ ys) =
        (case decode_groups v (mc_fill mc) un ys of (w, r) \<Rightarrow> (take 57 bs @ w, r))"
      using decode_groups_lines [OF 1(2), of "take 57 bs" v "(if mc_add_crlf mc then CRLF else []) @ ys"] False
      by (simp add: mime_encode_def)
    moreover have "(length bs - 57) mod 3 = length bs mod 3"
    proof -
      obtain m where "length bs = m + 57" using False by (metis add.commute not_le less_imp_add_positive)
      then show ?thesis by simp presburger
    qed
    ultimately show ?thesis
      using 1(1) [OF False 1(2)] False by (subst mime_lines.simps) (simp add: ys_def)
  qed
qed

section \<open>The length of the text\<close>

lemma length_mime_lines:
  "length (mime_lines mc bs) =
     4 * ((length bs + 2) div 3) + (if mc_add_crlf mc then 2 * max 1 ((length bs + 56) div 57) else 0)"
proof (induction mc bs rule: mime_lines.induct)
  case (1 mc bs)
  show ?case
  proof (cases "length bs \<le> 57")
    case True
    then have "max 1 ((length bs + 56) div 57) = 1" by (cases "length bs = 0") auto
    with True show ?thesis by (simp add: mime_encode_def length_encode_groups CRLF_def)
  next
    case False
    then obtain m where m: "length bs = m + 57" "0 < m" by (metis add.commute not_le less_imp_add_positive)
    have "(m + 57 + 2) div 3 = 19 + (m + 2) div 3" by presburger
    moreover have "(m + 57 + 56) div 57 = 1 + (m + 56) div 57"
      using div_add_self2 [of 57 "m + 56"] by (simp add: ac_simps)
    moreover have "1 \<le> (m + 56) div 57" using m(2) div_le_mono [of 57 "m + 56" 57] by simp
    ultimately
    show ?thesis
      using 1 [OF False] m by (subst mime_lines.simps) (simp add: mime_encode_def length_encode_groups CRLF_def)
  qed
qed

end
