(* ===== verification/MimeSpec.thy ===== *)
theory MimeSpec
  imports MimeRound
begin

text \<open>
  The table encoders against RFC 4648: the input as a string of bits, cut into groups of six, each the
  index of a character. Then the coder as a pipe: whatever maxima the user pops with, it gets the
  same bytes.
\<close>

section \<open>RFC 4648\<close>

definition byte_msb :: "byte \<Rightarrow> bool list" where
  "byte_msb b = map (bit b) [7, 6, 5, 4, 3, 2, 1, 0]"

definition bits_val :: "bool list \<Rightarrow> nat" where
  "bits_val = foldl (\<lambda>n x. 2 * n + (if x then 1 else 0)) 0"

fun sextets :: "bool list \<Rightarrow> nat list" where
  "sextets [] = []"
| "sextets (a # b # c # d # e # f # r) = bits_val [a, b, c, d, e, f] # sextets r"
| "sextets xs = [bits_val (xs @ replicate (6 - length xs) False)]"

definition radix64 :: "byte list \<Rightarrow> byte \<Rightarrow> byte list \<Rightarrow> byte list" where
  "radix64 alphabet pad bs =
     map (\<lambda>i. alphabet ! i) (sextets (concat (map byte_msb bs))) @ replicate ((3 - length bs mod 3) mod 3) pad"

text \<open>Table 1 of the RFC: the capital letters, the small ones, the digits, plus and slash.\<close>

definition rfc_alphabet :: "byte list" where
  "rfc_alphabet = map word_of_nat ([65..<91] @ [97..<123] @ [48..<58] @ [43, 47])"

definition rfc4648 :: "byte list \<Rightarrow> byte list" where
  "rfc4648 = radix64 rfc_alphabet 61"

lemma to_b64_tab_rfc: "to_b64_tab = rfc_alphabet"
  by code_simp

lemma six_bits:
  assumes "unat (w::byte) < 64"
  shows "bits_val (map (bit w) [5, 4, 3, 2, 1, 0]) = unat w"
proof -
  have "list_all (\<lambda>i. bits_val (map (bit (word_of_nat i :: byte)) [5, 4, 3, 2, 1, 0]) = i) [0..<64]"
    by code_simp
  moreover have "unat w \<in> set [0..<64]" using assms by simp
  ultimately have "bits_val (map (bit (word_of_nat (unat w) :: byte)) [5, 4, 3, 2, 1, 0]) = unat w"
    unfolding list_all_iff by blast
  then show ?thesis by simp
qed

lemmas sextet_vals = sextets_small [THEN six_bits, symmetric]

lemma radix64_groups: "radix64 t pad bs = encode_groups t pad bs"
proof (induction t pad bs rule: encode_groups.induct)
  case (1 t pad)
  then show ?case by (simp add: radix64_def)
next
  case (2 t pad a)
  have "replicate 4 x = [x, x, x, x]" "replicate 2 y = [y, y]" for x :: bool and y :: byte
    by (simp_all add: numeral_eq_Suc)
  then show ?case
    by (simp only: encode_groups.simps sextet_vals list.map byte_bits)
      (simp add: radix64_def byte_msb_def)
next
  case (3 t pad a b)
  have "replicate 2 x = [x, x]" for x :: bool by (simp add: numeral_eq_Suc)
  then show ?case
    by (simp only: encode_groups.simps sextet_vals list.map byte_bits)
      (simp add: radix64_def byte_msb_def byte_high)
next
  case (4 t pad a b c cs)
  have "radix64 t pad (a # b # c # cs) = radix64 t pad [a, b, c] @ radix64 t pad cs"
    by (simp add: radix64_def byte_msb_def)
  moreover have "radix64 t pad [a, b, c] = encode_groups t pad [a, b, c]"
    by (simp only: encode_groups.simps sextet_vals list.map byte_bits)
      (simp add: radix64_def byte_msb_def byte_high)
  ultimately show ?case using 4 encode_groups_cons [of t pad a b c cs] by simp
qed

lemma mime_lines_groups:
  "\<not> mc_add_crlf mc \<Longrightarrow> mime_lines mc bs = encode_groups (mc_to_tab mc) (mc_fill mc) bs"
proof (induction mc bs rule: mime_lines.induct)
  case (1 mc bs)
  have app: "encode_groups t fill (xs @ ys) = encode_groups t fill xs @ encode_groups t fill ys"
    if "length xs mod 3 = 0" for t fill xs ys
    using that by (induction t fill xs rule: encode_groups.induct) simp_all
  show ?case
    using 1 app [of "take 57 bs" "mc_to_tab mc" "mc_fill mc" "drop 57 bs"]
    by (subst mime_lines.simps) (simp add: mime_encode_def)
qed

section \<open>The pipe\<close>

text \<open>
  The calls on the pipe: \<open>push_pop\<close> with a piece and a maximum each, then \<open>pop_end\<close> with the maximum \<open>lm\<close>, whose
  answer is given with all that was popped.
\<close>

fun pipe_run :: "byte \<Rightarrow> nat \<Rightarrow> (byte list option \<times> nat) list \<Rightarrow> mime_code \<Rightarrow> byte list \<Rightarrow> (byte list \<times> nat) option" where
  "pipe_run oob lm [] mc out =
     (case pop_end oob (Some out) lm mc of Some (_, Some out', n) \<Rightarrow> Some (out', n) | _ \<Rightarrow> None)"
| "pipe_run oob lm ((s, most) # rest) mc out =
     (case push_pop oob s (Some out) most mc of
        Some (mc', Some out', _) \<Rightarrow> pipe_run oob lm rest mc' out'
      | _ \<Rightarrow> None)"

definition pushed :: "(byte list option \<times> nat) list \<Rightarrow> byte list" where
  "pushed calls = concat (map (\<lambda>(s, _). case s of None \<Rightarrow> [] | Some x \<Rightarrow> x) calls)"

lemma pushed_simps [simp]:
  "pushed [] = []" "pushed ((None, most) # calls) = pushed calls" "pushed ((Some x, most) # calls) = x @ pushed calls"
  by (simp_all add: pushed_def)

text \<open>What the coder still has to give for the bytes in its buffer and those to come.\<close>

definition pipe_rest :: "byte \<Rightarrow> mime_code \<Rightarrow> byte list \<Rightarrow> byte list" where
  "pipe_rest oob mc bs =
     (if mc_encoding mc then mime_lines mc (mc_encode_buf mc @ bs)
      else case mime_decode oob mc (mc_decode_buf mc @ bs) of (w, r) \<Rightarrow> w @ (if mc_add_invalid mc then r else []))"

definition pipe_fits :: "mime_code \<Rightarrow> bool" where
  "pipe_fits mc \<longleftrightarrow> length (mc_encode_buf mc) \<le> 57 \<and> length (mc_decode_buf mc) \<le> 76"

lemma mime_pbuf [simp]:
  "mime_lines (mc\<lparr>mc_pbuf := p\<rparr>) = mime_lines mc" "mime_decode oob (mc\<lparr>mc_pbuf := p\<rparr>) = mime_decode oob mc"
proof -
  have e: "mime_encode (mc\<lparr>mc_pbuf := p\<rparr>) = mime_encode mc" by (simp add: mime_encode_def fun_eq_iff)
  show "mime_lines (mc\<lparr>mc_pbuf := p\<rparr>) = mime_lines mc"
  proof
    fix bs
    show "mime_lines (mc\<lparr>mc_pbuf := p\<rparr>) bs = mime_lines mc bs"
      by (induction mc bs rule: mime_lines.induct) (subst (1 2) mime_lines.simps, simp add: e mime_encode_def)
  qed
  show "mime_decode oob (mc\<lparr>mc_pbuf := p\<rparr>) = mime_decode oob mc" by (simp add: mime_decode_def fun_eq_iff)
qed

lemma pipe_rest_pbuf [simp]: "pipe_rest oob (mc\<lparr>mc_pbuf := p\<rparr>) bs = pipe_rest oob mc bs"
  by (simp add: pipe_rest_def)

lemma pipe_encode_update:
  assumes "pipe_fits mc" "mc_encoding mc"
  obtains mc' w where "encode_update mc x out = Some (mc', w)" "pipe_fits mc'"
    "w @ pipe_rest oob mc' ys = out @ pipe_rest oob mc (x @ ys)"
proof -
  obtain b w where f: "fold (push_byte 57 (\<lambda>bs. (mime_encode mc bs, []))) x (mc_encode_buf mc, out) = (b, w)"
    by (metis prod.exhaust)
  have l: "length (mc_encode_buf mc) \<le> 57" using assms by (simp add: pipe_fits_def)
  have "encode_update mc x out = Some (mc\<lparr>mc_encode_buf := b\<rparr>, w)"
    using mime_enc.fill_loop_push [OF l, of mc x out] f by (simp add: encode_update_def)
  moreover have "length b \<le> 57"
    using mime_enc.push_keeps [of "(mc_encode_buf mc, out)" mc x] l f by simp
  ultimately show ?thesis
    using that [of "mc\<lparr>mc_encode_buf := b\<rparr>" w] assms f l
      encode_push [where s = "(mc_encode_buf mc, out)" and mc = mc and bs = x and ys = ys]
    by (simp add: pipe_fits_def pipe_rest_def)
qed

lemma pipe_decode_update:
  assumes "pipe_fits mc" "\<not> mc_encoding mc"
  obtains mc' w where "decode_update oob mc x out = Some (mc', w)" "pipe_fits mc'"
    "w @ pipe_rest oob mc' ys = out @ pipe_rest oob mc (x @ ys)"
proof -
  have l: "length (mc_decode_buf mc) \<le> 76" using assms by (simp add: pipe_fits_def)
  obtain b w where f: "fill_loop 76 (mime_decode oob mc) (mc_decode_buf mc) x out = Some (b, w)"
    using mime_dec.fill_loop_push [OF l] by (metis prod.exhaust)
  have "w @ pipe_rest oob (mc\<lparr>mc_decode_buf := b\<rparr>) ys = out @ pipe_rest oob mc (x @ ys)"
    using assms mime_dec.fill_loop_crunch [OF f l]
      mime_dec.crunch_append [of oob mc b ys]
      mime_dec.crunch_append [of oob mc "mc_decode_buf mc @ x" ys]
    by (auto simp: pipe_rest_def split: prod.splits simp flip: append_assoc)
  then show ?thesis
    using that [of "mc\<lparr>mc_decode_buf := b\<rparr>" w] assms f mime_dec.fill_loop_keeps [OF f l]
    by (simp add: pipe_fits_def decode_update_def)
qed

definition pb_of :: "mime_code \<Rightarrow> byte list" where
  "pb_of mc = (case mc_pbuf mc of None \<Rightarrow> [] | Some b \<Rightarrow> b)"

lemma pipe_update:
  assumes "pipe_fits mc"
  obtains mc' w where
    "(case s of None \<Rightarrow> Some (mc, pb)
      | Some x \<Rightarrow> if x = [] then Some (mc, pb)
                  else if mc_encoding mc then encode_update mc x pb else decode_update oob mc x pb) = Some (mc', w)"
    "pipe_fits mc'" "w @ pipe_rest oob mc' ys = pb @ pipe_rest oob mc (pushed [(s, most)] @ ys)"
proof (cases "s = None \<or> s = Some []")
  case True
  then show ?thesis using assms by (auto intro: that [of mc pb])
next
  case False
  then obtain x where x: "s = Some x" "x \<noteq> []" by auto
  show ?thesis
  proof (cases "mc_encoding mc")
    case True
    obtain mc' w where "encode_update mc x pb = Some (mc', w)" "pipe_fits mc'"
      "w @ pipe_rest oob mc' ys = pb @ pipe_rest oob mc (x @ ys)"
      using pipe_encode_update [OF assms True, of x pb oob ys] .
    then show ?thesis using x True by (intro that [of mc' w]) simp_all
  next
    case False
    obtain mc' w where "decode_update oob mc x pb = Some (mc', w)" "pipe_fits mc'"
      "w @ pipe_rest oob mc' ys = pb @ pipe_rest oob mc (x @ ys)"
      using pipe_decode_update [OF assms False, of oob x pb ys] .
    then show ?thesis using x False by (intro that [of mc' w]) simp_all
  qed
qed

lemma push_pop_step:
  assumes "pipe_fits mc"
  obtains mc' out' pb n where "push_pop oob s (Some out) most mc = Some (mc', Some out', n)"
    "pipe_fits mc'" "mc_pbuf mc' = Some pb"
    "out' @ pb @ pipe_rest oob mc' ys = out @ pb_of mc @ pipe_rest oob mc (pushed [(s, most)] @ ys)"
proof -
  obtain mc1 w where u:
    "(case s of None \<Rightarrow> Some (mc, pb_of mc)
      | Some x \<Rightarrow> if x = [] then Some (mc, pb_of mc)
                  else if mc_encoding mc then encode_update mc x (pb_of mc) else decode_update oob mc x (pb_of mc))
     = Some (mc1, w)"
    "pipe_fits mc1" "w @ pipe_rest oob mc1 ys = pb_of mc @ pipe_rest oob mc (pushed [(s, most)] @ ys)"
    by (rule pipe_update [OF assms])
  define n where "n = (if most > 0 then min most (length w) else length w)"
  have p: "push_pop oob s (Some out) most mc =
      (if w = [] then Some (mc1\<lparr>mc_pbuf := Some w\<rparr>, Some out, 0)
       else Some (mc1\<lparr>mc_pbuf := Some (drop n w)\<rparr>, Some (out @ take n w), n))"
    unfolding push_pop_def Let_def pb_of_def [symmetric] u(1) n_def by simp
  show ?thesis
  proof (cases "w = []")
    case True
    with p u(2,3) show ?thesis
      by (intro that [of "mc1\<lparr>mc_pbuf := Some w\<rparr>" out 0 w]) (simp_all add: pipe_fits_def)
  next
    case False
    have "take n w @ drop n w @ pipe_rest oob mc1 ys = pb_of mc @ pipe_rest oob mc (pushed [(s, most)] @ ys)"
      using u(3) by (simp flip: append_assoc)
    with False p u(2) show ?thesis
      by (intro that [of "mc1\<lparr>mc_pbuf := Some (drop n w)\<rparr>" "out @ take n w" n "drop n w"])
        (simp_all add: pipe_fits_def)
  qed
qed

lemma pop_end_all:
  assumes "pipe_fits mc" "mc_pbuf mc = Some pb"
  shows "\<exists>mc' w rest n. pop_end oob (Some out) lm mc = Some (mc', Some (out @ w), n) \<and> pb @ pipe_rest oob mc [] = w @ rest \<and>
    (lm = 0 \<or> n < lm \<longrightarrow> rest = [])"
proof -
  have "snd (if mc_encoding mc then encode_finish mc pb else decode_finish oob mc pb) = pb @ pipe_rest oob mc []"
    using assms by (auto simp: encode_finish_def decode_finish_def pipe_rest_def pipe_fits_def split: prod.split)
  then obtain mc1 where
    f: "(if mc_encoding mc then encode_finish mc pb else decode_finish oob mc pb) = (mc1, pb @ pipe_rest oob mc [])"
    by (cases "if mc_encoding mc then encode_finish mc pb else decode_finish oob mc pb") simp
  let ?pb = "pb @ pipe_rest oob mc []" and ?n = "if lm > 0 \<and> length (pb @ pipe_rest oob mc []) > lm then lm else length (pb @ pipe_rest oob mc [])"
  show ?thesis
  proof (cases "?pb = []")
    case True
    then show ?thesis unfolding pop_end_def assms(2) option.case Let_def f prod.case by simp
  next
    case False
    then have "pop_end oob (Some out) lm mc = Some (mc1\<lparr>mc_pbuf := Some []\<rparr>, Some (out @ take ?n ?pb), ?n)"
      unfolding pop_end_def assms(2) option.case Let_def f prod.case by (simp only: if_False)
    moreover have "?pb = take ?n ?pb @ drop ?n ?pb" "lm = 0 \<or> ?n < lm \<longrightarrow> drop ?n ?pb = []"
      by (simp only: append_take_drop_id) auto
    ultimately show ?thesis by blast
  qed
qed

lemma pipe_run_rest:
  assumes "pipe_fits mc" "calls = [] \<Longrightarrow> mc_pbuf mc \<noteq> None"
  shows "\<exists>w rest n. pipe_run oob lm calls mc out = Some (w, n) \<and> out @ pb_of mc @ pipe_rest oob mc (pushed calls) = w @ rest \<and>
    (lm = 0 \<or> n < lm \<longrightarrow> rest = [])"
  using assms
proof (induction calls arbitrary: mc out)
  case Nil
  then obtain pb where pb: "mc_pbuf mc = Some pb" by auto
  obtain mc' w rest n where "pop_end oob (Some out) lm mc = Some (mc', Some (out @ w), n)" "pb @ pipe_rest oob mc [] = w @ rest"
    "lm = 0 \<or> n < lm \<longrightarrow> rest = []"
    using pop_end_all [OF Nil(1) pb, of oob out lm] by blast
  then show ?case using pb by (intro exI [of _ "out @ w"] exI [of _ rest] exI [of _ n]) (simp add: pb_of_def)
next
  case (Cons c calls)
  obtain s most where c: "c = (s, most)" by (cases c)
  obtain mc' out' pb n where st: "push_pop oob s (Some out) most mc = Some (mc', Some out', n)"
    "pipe_fits mc'" "mc_pbuf mc' = Some pb"
    "out' @ pb @ pipe_rest oob mc' (pushed calls) =
     out @ pb_of mc @ pipe_rest oob mc (pushed [(s, most)] @ pushed calls)"
    by (rule push_pop_step [OF Cons.prems(1), where ys = "pushed calls"])
  have "pushed [(s, most)] @ pushed calls = pushed (c # calls)" by (simp add: c pushed_def)
  with st Cons.IH [OF st(2), of out'] show ?case by (simp add: c pb_of_def)
qed

end
