(* ===== verification/MimeQp.thy ===== *)
theory MimeQp
  imports MimeRound
begin

text \<open>
  The quoted-printable coder (\<^verbatim>\<open>mime/mime_quoted_printable.cpp\<close>). It keeps its own buffers of 72 and
  144 bytes; a space at the end of the buffer stays in it, since what follows decides how it is
  written, and the decoder keeps an escape that is not complete.
\<close>

section \<open>The coder\<close>

record mime_qp =
  qp_encode_buf :: "byte list"
  qp_decode_buf :: "byte list"
  qp_crlf :: bool
  qp_invalid :: bool

definition mime_qp_new :: "bool \<Rightarrow> bool \<Rightarrow> mime_qp" where
  "mime_qp_new crlf invalid = \<lparr>qp_encode_buf = [], qp_decode_buf = [], qp_crlf = crlf, qp_invalid = invalid\<rparr>"

definition qp_reset :: "mime_qp \<Rightarrow> mime_qp" where
  "qp_reset qp = qp\<lparr>qp_encode_buf := [], qp_decode_buf := []\<rparr>"

definition qp_add_crlf :: "bool \<Rightarrow> mime_qp \<Rightarrow> mime_qp" where
  "qp_add_crlf on qp = qp\<lparr>qp_crlf := on\<rparr>"

definition qp_add_invalid :: "bool \<Rightarrow> mime_qp \<Rightarrow> mime_qp" where
  "qp_add_invalid on qp = qp\<lparr>qp_invalid := on\<rparr>"

definition hexchars :: "byte list" where
  "hexchars = [48, 49, 50, 51, 52, 53, 54, 55, 56, 57, 65, 66, 67, 68, 69, 70]"

definition QP_ENCODE :: "byte \<Rightarrow> byte list" where
  "QP_ENCODE ch = [61, hexchars ! unat (drop_bit 4 ch AND 0xff), hexchars ! unat (ch AND 0xf)]"

definition QP_SOFT_LINE :: "byte list" where
  "QP_SOFT_LINE = [61, 13, 10]"

text \<open>
  One turn of the loop of \<^verbatim>\<open>encode\<close>: what is written for the byte \<open>c\<close> when \<open>cs\<close> follows it in the
  buffer, and the length \<open>n\<close> of the line after it. Then the soft line break, and the loop: what it
  writes and the byte it keeps. The length is counted from the start of the buffer.
\<close>

definition qp_char :: "byte \<Rightarrow> byte list \<Rightarrow> nat \<Rightarrow> byte list \<times> nat" where
  "qp_char c cs n =
     (if c = 32 \<or> c = 9 then
        (if hd cs = 13 \<or> hd cs = 10 then (QP_ENCODE c, n + 3) else ([c], n + 1))
      else if c = 13 \<or> c = 10 then ([c], 0)
      else if c < 32 \<or> c = 61 \<or> c > 126 then (QP_ENCODE c, n + 3)
      else ([c], n + 1))"

definition qp_soft :: "bool \<Rightarrow> byte list \<times> nat \<Rightarrow> byte list \<times> nat" where
  "qp_soft crlf = (\<lambda>(w, n). if n \<ge> 72 \<and> crlf then (w @ QP_SOFT_LINE, 0) else (w, n))"

fun qp_encode_loop :: "bool \<Rightarrow> nat \<Rightarrow> byte list \<Rightarrow> byte list \<times> byte list" where
  "qp_encode_loop crlf n [] = ([], [])"
| "qp_encode_loop crlf n (c # cs) =
     (if (c = 32 \<or> c = 9) \<and> cs = [] then ([], [c])
      else case qp_soft crlf (qp_char c cs n) of
        (w, n') \<Rightarrow> (case qp_encode_loop crlf n' cs of (w', r) \<Rightarrow> (w @ w', r)))"

definition qp_encode_update :: "mime_qp \<Rightarrow> byte list \<Rightarrow> byte list \<Rightarrow> (mime_qp \<times> byte list) option" where
  "qp_encode_update qp src out =
     map_option (\<lambda>(buf, out'). (qp\<lparr>qp_encode_buf := buf\<rparr>, out'))
       (fill_loop 72 (qp_encode_loop (qp_crlf qp) 0) (qp_encode_buf qp) src out)"

definition qp_encode_finish :: "mime_qp \<Rightarrow> byte list \<Rightarrow> mime_qp \<times> byte list" where
  "qp_encode_finish qp out =
     (case qp_encode_loop (qp_crlf qp) 0 (qp_encode_buf qp) of
        (w, r) \<Rightarrow> (qp\<lparr>qp_encode_buf := []\<rparr>, out @ w @ (if length r = 1 then QP_ENCODE (hd r) else [])))"

definition hex_val :: "byte \<Rightarrow> byte option" where
  "hex_val h =
     (if h \<ge> 48 \<and> h \<le> 57 then Some (h - 48)
      else if h \<ge> 65 \<and> h \<le> 70 then Some (h - 65 + 10)
      else if h \<ge> 97 \<and> h \<le> 102 then Some (h - 97 + 10)
      else None)"

definition hex_decode :: "byte \<Rightarrow> byte \<Rightarrow> byte option" where
  "hex_decode first second =
     (case hex_val first of None \<Rightarrow> None
      | Some a \<Rightarrow> (case hex_val second of None \<Rightarrow> None | Some b \<Rightarrow> Some (push_bit 4 a OR b)))"

fun qp_decode_loop :: "bool \<Rightarrow> byte list \<Rightarrow> byte list \<times> byte list" where
  "qp_decode_loop v [] = ([], [])"
| "qp_decode_loop v (c # cs) =
     (if c \<noteq> 61 then (case qp_decode_loop v cs of (w, r) \<Rightarrow> (c # w, r))
      else case cs of
        first # second # ds \<Rightarrow>
          if first = 13 then
            (case qp_decode_loop v ds of
               (w, r) \<Rightarrow> ((if second \<noteq> 10 \<and> v then [first, second] else []) @ w, r))
          else if first = 10 then qp_decode_loop v (second # ds)
          else
            (case qp_decode_loop v ds of
               (w, r) \<Rightarrow>
                 ((case hex_decode first second of
                     Some b \<Rightarrow> [b]
                   | None \<Rightarrow> if v then [first, second] else []) @ w, r))
      | _ \<Rightarrow> ([], c # cs))"

definition qp_decode_update :: "mime_qp \<Rightarrow> byte list \<Rightarrow> byte list \<Rightarrow> (mime_qp \<times> byte list) option" where
  "qp_decode_update qp src out =
     map_option (\<lambda>(buf, out'). (qp\<lparr>qp_decode_buf := buf\<rparr>, out'))
       (fill_loop 144 (qp_decode_loop (qp_invalid qp)) (qp_decode_buf qp) src out)"

definition qp_decode_finish :: "mime_qp \<Rightarrow> byte list \<Rightarrow> mime_qp \<times> byte list" where
  "qp_decode_finish qp out =
     (case qp_decode_loop (qp_invalid qp) (qp_decode_buf qp) of
        (w, r) \<Rightarrow> (qp\<lparr>qp_decode_buf := []\<rparr>, out @ w @ (if qp_invalid qp then r else [])))"

text \<open>The static methods.\<close>

definition qp_encode :: "byte list \<Rightarrow> byte list \<Rightarrow> byte list option" where
  "qp_encode src out =
     map_option (\<lambda>(qp, out'). snd (qp_encode_finish qp out')) (qp_encode_update (mime_qp_new False False) src out)"

definition qp_decode :: "byte list \<Rightarrow> byte list \<Rightarrow> byte list option" where
  "qp_decode src out =
     map_option (\<lambda>(qp, out'). snd (qp_decode_finish qp out')) (qp_decode_update (mime_qp_new False False) src out)"

section \<open>The coder meets the contract\<close>

lemma qp_encode_rest: "snd (qp_encode_loop crlf n bs) \<in> {[], [32], [9]}"
  by (induction crlf n bs rule: qp_encode_loop.induct) (auto split: prod.split)

interpretation qp_enc: buffered 72 "qp_encode_loop crlf 0" for crlf
proof
  show "length (snd (qp_encode_loop crlf 0 xs)) < 72" for xs
    using qp_encode_rest [of crlf 0 xs] by auto
qed

lemma qp_decode_escape_split:
  fixes c :: byte
  obtains "c \<noteq> 61" | "c = 61" "length cs < 2" | first second ds where "c = 61" "cs = first # second # ds"
proof -
  have "length cs < 2 \<or> (\<exists>first second ds. cs = first # second # ds)"
    by (cases cs rule: remdups_adj.cases) auto
  then show ?thesis using that by blast
qed

lemma qp_decode_short: "length cs < 2 \<Longrightarrow> qp_decode_loop v (61 # cs) = ([], 61 # cs)"
proof (cases cs)
  case (Cons d ds)
  assume "length cs < 2"
  with Cons show ?thesis by simp
qed simp

lemma qp_decode_append:
  "qp_decode_loop v (xs @ ys) =
   (case qp_decode_loop v xs of (w, r) \<Rightarrow> case qp_decode_loop v (r @ ys) of (w', r') \<Rightarrow> (w @ w', r'))"
proof (induction v xs rule: qp_decode_loop.induct)
  case (2 v c cs)
  show ?case
  proof (cases rule: qp_decode_escape_split [where c = c and cs = cs])
    case 1
    then show ?thesis using 2(1) by (simp split: prod.split)
  next
    case 2
    then show ?thesis by (simp add: qp_decode_short del: qp_decode_loop.simps split: prod.split)
  next
    case (3 first second ds)
    then show ?thesis using 2(2-4) by (simp split: prod.split)
  qed
qed (simp split: prod.split)

lemma qp_decode_rest: "length (snd (qp_decode_loop v bs)) < 3"
proof (induction v bs rule: qp_decode_loop.induct)
  case (2 v c cs)
  show ?case
  proof (cases rule: qp_decode_escape_split [where c = c and cs = cs])
    case 1
    then show ?thesis using 2(1) by (cases "qp_decode_loop v cs") simp
  next
    case 2
    then show ?thesis by (simp add: qp_decode_short del: qp_decode_loop.simps)
  next
    case (3 first second ds)
    then show ?thesis using 2(2-4)
      by (cases "qp_decode_loop v ds") simp
  qed
qed simp

interpretation qp_dec: partial_coder 144 "qp_decode_loop v" for v
proof
  show "length (snd (qp_decode_loop v xs)) < 144" for xs using qp_decode_rest [of v xs] by simp
  show "qp_decode_loop v (xs @ ys) =
      (case qp_decode_loop v xs of (w, r) \<Rightarrow> case qp_decode_loop v (r @ ys) of (w', r') \<Rightarrow> (w @ w', r'))" for xs ys
    by (rule qp_decode_append)
qed

section \<open>Decoding undoes encoding\<close>

lemma hex_read_back:
  "hex_decode (hexchars ! unat (drop_bit 4 ch AND 0xff)) (hexchars ! unat (ch AND 0xf)) = Some ch \<and>
   hexchars ! unat (drop_bit 4 ch AND 0xff) \<noteq> 13 \<and> hexchars ! unat (drop_bit 4 ch AND 0xff) \<noteq> 10"
proof -
  have "list_all (\<lambda>i. let ch = word_of_nat i :: byte in
      hex_decode (hexchars ! unat (drop_bit 4 ch AND 0xff)) (hexchars ! unat (ch AND 0xf)) = Some ch \<and>
      hexchars ! unat (drop_bit 4 ch AND 0xff) \<noteq> 13 \<and> hexchars ! unat (drop_bit 4 ch AND 0xff) \<noteq> 10) [0..<256]"
    by code_simp
  moreover have "unat ch \<in> set [0..<256]" using unsigned_less [of ch] by simp
  ultimately show ?thesis unfolding list_all_iff Let_def by force
qed

lemma qp_decode_escape:
  "qp_decode_loop v (QP_ENCODE ch @ ys) = (case qp_decode_loop v ys of (w, r) \<Rightarrow> (ch # w, r))"
  using hex_read_back [of ch] by (simp add: QP_ENCODE_def split: prod.split)

lemma qp_decode_char:
  "qp_decode_loop v (fst (qp_soft crlf (qp_char c cs n)) @ ys) = (case qp_decode_loop v ys of (w, r) \<Rightarrow> (c # w, r))"
proof -
  have soft: "qp_decode_loop v (QP_SOFT_LINE @ ys) = qp_decode_loop v ys"
    by (simp add: QP_SOFT_LINE_def split: prod.split)
  have "qp_decode_loop v (fst (qp_char c cs n) @ zs) = (case qp_decode_loop v zs of (w, r) \<Rightarrow> (c # w, r))" for zs
    using qp_decode_escape [of v c zs] by (auto simp: qp_char_def)
  then show ?thesis
    using soft by (auto simp: qp_soft_def split: prod.splits)
qed

text \<open>The decoder gets from the output what the encoder has taken from its buffer.\<close>

lemma qp_decode_encoded:
  "qp_decode_loop v (fst (qp_encode_loop crlf n bs) @ ys) =
   (case qp_decode_loop v ys of (w, r) \<Rightarrow> (take (length bs - length (snd (qp_encode_loop crlf n bs))) bs @ w, r))"
proof (induction crlf n bs rule: qp_encode_loop.induct)
  case (2 crlf n c cs)
  show ?case
  proof (cases "(c = 32 \<or> c = 9) \<and> cs = []")
    case False
    obtain w n' where s: "qp_soft crlf (qp_char c cs n) = (w, n')" by (metis prod.exhaust)
    have "length (snd (qp_encode_loop crlf n' cs)) \<le> length cs"
      using qp_encode_rest [of crlf n' cs] by (cases cs) auto
    then show ?thesis
      using 2 [OF False s [symmetric]] False s
        qp_decode_char [of v crlf c cs n "fst (qp_encode_loop crlf n' cs) @ ys"]
      by (auto simp: Suc_diff_le split: prod.splits)
  qed (auto split: prod.split)
qed (simp split: prod.split)

lemma qp_encode_split:
  "take (length bs - length (snd (qp_encode_loop crlf n bs))) bs @ snd (qp_encode_loop crlf n bs) = bs"
proof (induction crlf n bs rule: qp_encode_loop.induct)
  case (2 crlf n c cs)
  show ?case
  proof (cases "(c = 32 \<or> c = 9) \<and> cs = []")
    case False
    obtain w n' where s: "qp_soft crlf (qp_char c cs n) = (w, n')" by (metis prod.exhaust)
    have "length (snd (qp_encode_loop crlf n' cs)) \<le> length cs"
      using qp_encode_rest [of crlf n' cs] by (cases cs) auto
    then show ?thesis
      using 2 [OF False s [symmetric]] False s by (auto simp: Suc_diff_le split: prod.splits)
  qed auto
qed simp

end
