(* ===== verification/MimeProperties.thy ===== *)
theory MimeProperties
  imports MimeSpec MimeQp
begin

text \<open>
  The properties of the MIME coders, for whole runs: one update for every piece of the input, then
  finish, or the calls on the pipe.
\<close>

section \<open>The table coders\<close>

lemma mime_classes:
  assumes "cls \<in> {mime_base64, mime_uucode, mime_xxcode}"
  shows "mc_encode_buf (cls crlf keep) = []" "mc_decode_buf (cls crlf keep) = []"
    "mc_add_crlf (cls crlf keep) = crlf" "mc_add_invalid (cls crlf keep) = keep"
    "mc_to_tab (cls crlf keep) = mc_to_tab (cls crlf' keep')" "mc_un_tab (cls crlf keep) = mc_un_tab (cls crlf' keep')"
    "mc_fill (cls crlf keep) = mc_fill (cls crlf' keep')"
    "codec_ok (mc_to_tab (cls crlf keep)) (un_at oob (mc_un_tab (cls crlf keep))) (mc_fill (cls crlf keep))"
  using assms b64_ok uucode_ok xx_ok
  by (auto simp: mime_base64_def mime_uucode_def mime_xxcode_def mime_init_def mime_code_new_def)

lemma mime_decode_text:
  assumes "cls \<in> {mime_base64, mime_uucode, mime_xxcode}" "encode_pieces (cls crlf keep) xss [] = Some (concat yss)"
  shows "mime_decode oob (cls crlf' keep') (concat yss) =
    (concat xss, (if length (concat xss) mod 3 = 1 then [mc_fill (cls crlf keep)] else []) @ (if crlf then CRLF else []))"
proof -
  note c = mime_classes [OF assms(1)]
  have "concat yss = mime_lines (cls crlf keep) (concat xss)"
    using encode_pieces_lines [of "cls crlf keep" xss "[]"] assms(2) by (simp add: c)
  then show ?thesis
    using decode_mime_lines [OF c(8) [of crlf keep oob], of keep' "concat xss"]
      c(5-7) [of crlf keep crlf' keep']
    by (simp add: mime_decode_def c(3,4))
qed

text \<open>C11: what a base64, uucode or xxcode encoder writes, with or without line breaks and for any
  pieces of the input, the decoder gives back, for any pieces of the text.\<close>

theorem mime_round_trip:
  assumes "cls \<in> {mime_base64, mime_uucode, mime_xxcode}"
    and "encode_pieces (cls crlf keep) xss [] = Some (concat yss)"
  shows "decode_pieces oob (cls crlf' False) yss [] = Some (concat xss)"
  using mime_decode_text [OF assms, of oob crlf' False] decode_pieces_run [of "cls crlf' False" oob yss "[]"]
    mime_classes [OF assms(1)]
  by simp

theorem mime_round_trip_witness:
  "decode_pieces 0 (mime_base64 False False) [[65, 81, 73], [68, 66], [65, 61, 61, 13, 10]] [] = Some [1, 2, 3, 4]"
proof -
  have "encode_pieces (mime_base64 True False) [[1], [2, 3, 4]] [] =
      Some (concat [[65, 81, 73], [68, 66], [65, 61, 61, 13, 10]])"
    by code_simp
  then show ?thesis
    using mime_round_trip [of mime_base64 True False "[[1], [2, 3, 4]]"
        "[[65, 81, 73], [68, 66], [65, 61, 61, 13, 10]]" 0 False] by simp
qed

text \<open>C12: the static encode of the base64 class appends the base64 encoding of RFC 4648, which reads the input as a
  string of bits.\<close>

theorem base64_encode_rfc4648: "base64_encode src out = Some (out @ rfc4648 src)"
proof -
  have c: "mc_to_tab (mime_base64 False False) = rfc_alphabet" "mc_fill (mime_base64 False False) = 61"
    "mc_encode_buf (mime_base64 False False) = []" "\<not> mc_add_crlf (mime_base64 False False)"
    by (simp_all add: mime_base64_def mime_init_def mime_code_new_def to_b64_tab_rfc)
  have "base64_encode src out = encode_pieces (mime_base64 False False) [src] out"
    by (simp add: base64_encode_def mime_encode_all_def split: option.split)
  also have "\<dots> = Some (out @ mime_lines (mime_base64 False False) src)"
    using encode_pieces_lines [of "mime_base64 False False" "[src]" out] c(3) by simp
  finally show ?thesis
    using mime_lines_groups [OF c(4)] by (simp add: c radix64_groups rfc4648_def)
qed

text \<open>The encoder always returns, and the length of its text is four characters for every three
  bytes or part of them, and two for the break of every line of 57 bytes, at least one.\<close>

lemma mime_text_length:
  assumes "cls \<in> {mime_base64, mime_uucode, mime_xxcode}" and "n = length (concat xss)"
  shows "map_option length (encode_pieces (cls crlf keep) xss []) =
    Some (4 * ((n + 2) div 3) + (if crlf then 2 * max 1 ((n + 56) div 57) else 0))"
  using encode_pieces_lines [of "cls crlf keep" xss "[]"] length_mime_lines [of "cls crlf keep" "concat xss"]
    mime_classes [OF assms(1), of crlf keep] assms(2)
  by simp

text \<open>For any bytes, valid or not, and whatever is in its buffer, the decoder's result depends
  only on the bytes and not on the pieces they come in.\<close>

lemma mime_decode_any_pieces:
  assumes "length (mc_decode_buf mc) \<le> 76" and "concat xss = concat yss"
  shows "decode_pieces oob mc xss out = decode_pieces oob mc yss out \<and> decode_pieces oob mc xss out \<noteq> None"
  using assms by (simp_all add: decode_pieces_run split: prod.split)

text \<open>A decoder that keeps invalid bytes does not give the input back: of a padded text without
  line breaks it keeps the second fill character.\<close>

lemma mime_decode_keeps_padding:
  assumes "cls \<in> {mime_base64, mime_uucode, mime_xxcode}"
    and "encode_pieces (cls False keep) xss [] = Some (concat yss)"
  shows "decode_pieces oob (cls crlf' True) yss [] =
    Some (concat xss @ (if length (concat xss) mod 3 = 1 then [mc_fill (cls False keep)] else []))"
  using mime_decode_text [OF assms, of oob crlf' True] decode_pieces_run [of "cls crlf' True" oob yss "[]"]
    mime_classes [OF assms(1)]
  by simp



text \<open>The byte 255 is decoded by what lies behind the table.\<close>

lemma base64_reads_behind_table:
  "base64_decode 0 [255, 65, 65, 65] [] = Some [0, 0, 0]" "base64_decode 0xff [255, 65, 65, 65] [] = Some []"
  by code_simp+

text \<open>With a maximum, \<^verbatim>\<open>pop_end\<close> drops what does not fit.\<close>

lemma pop_end_drops:
  "pop_end oob (Some []) 2 (mime_base64 False False\<lparr>mc_encoding := True, mc_encode_buf := [1], mc_pbuf := Some []\<rparr>) =
   Some (mime_base64 False False\<lparr>mc_encoding := True, mc_pbuf := Some []\<rparr>, Some [65, 81], 2)"
  by code_simp

section \<open>Quoted-printable\<close>

fun qp_encode_pieces :: "mime_qp \<Rightarrow> byte list list \<Rightarrow> byte list \<Rightarrow> byte list option" where
  "qp_encode_pieces qp [] out = Some (snd (qp_encode_finish qp out))"
| "qp_encode_pieces qp (x # xs) out =
     (case qp_encode_update qp x out of None \<Rightarrow> None | Some (qp', out') \<Rightarrow> qp_encode_pieces qp' xs out')"

fun qp_decode_pieces :: "mime_qp \<Rightarrow> byte list list \<Rightarrow> byte list \<Rightarrow> byte list option" where
  "qp_decode_pieces qp [] out = Some (snd (qp_decode_finish qp out))"
| "qp_decode_pieces qp (x # xs) out =
     (case qp_decode_update qp x out of None \<Rightarrow> None | Some (qp', out') \<Rightarrow> qp_decode_pieces qp' xs out')"

text \<open>What the encoder has written decodes to what it has taken; the rest is in its buffer.\<close>

definition qp_reads :: "byte list \<times> byte list \<Rightarrow> byte list \<Rightarrow> bool" where
  "qp_reads s bs \<longleftrightarrow> length (fst s) \<le> 72 \<and>
     (\<forall>v. \<exists>done. qp_decode_loop v (snd s) = (done, []) \<and> done @ fst s = bs)"

lemma qp_crunch_reads:
  assumes "qp_decode_loop v out = (done, [])"
  shows "qp_decode_loop v (out @ fst (qp_encode_loop crlf n buf)) =
    (done @ take (length buf - length (snd (qp_encode_loop crlf n buf))) buf, [])"
  using assms qp_decode_append [of v out "fst (qp_encode_loop crlf n buf)"] qp_decode_encoded [of v crlf n buf "[]"]
  by simp

lemma qp_push_reads: "qp_reads s bs \<Longrightarrow> qp_reads (push_byte 72 (qp_encode_loop crlf 0) b s) (bs @ [b])"
proof (cases "length (fst s) = 72")
  case True
  assume r: "qp_reads s bs"
  show ?thesis
    unfolding qp_reads_def
  proof (intro conjI allI)
    show "length (fst (push_byte 72 (qp_encode_loop crlf 0) b s)) \<le> 72"
      using qp_enc.push_keeps [of s crlf "[b]"] r by (simp add: qp_reads_def)
    fix v
    obtain d where d: "qp_decode_loop v (snd s) = (d, [])" "d @ fst s = bs" using r by (auto simp: qp_reads_def)
    show "\<exists>done. qp_decode_loop v (snd (push_byte 72 (qp_encode_loop crlf 0) b s)) = (done, []) \<and>
        done @ fst (push_byte 72 (qp_encode_loop crlf 0) b s) = bs @ [b]"
      using qp_crunch_reads [OF d(1), of crlf 0 "fst s"] qp_encode_split [of "fst s" crlf 0] d(2) True
      by (cases s) (auto simp: push_byte_def)
  qed
next
  case False
  assume "qp_reads s bs"
  with False show ?thesis by (cases s) (auto simp: push_byte_def qp_reads_def)
qed

lemma qp_fold_reads: "qp_reads s bs \<Longrightarrow> qp_reads (fold (push_byte 72 (qp_encode_loop crlf 0)) xs s) (bs @ xs)"
proof (induction xs arbitrary: s bs)
  case (Cons x xs)
  show ?case using Cons.IH [OF qp_push_reads [OF Cons.prems]] by simp
qed simp

lemma qp_encode_pieces_reads:
  assumes "qp_reads (qp_encode_buf qp, out) bs"
  shows "\<exists>text. qp_encode_pieces qp xss out = Some text \<and> (\<forall>v. qp_decode_loop v text = (bs @ concat xss, []))"
  using assms
proof (induction xss arbitrary: qp out bs)
  case Nil
  define r where "r = snd (qp_encode_loop (qp_crlf qp) 0 (qp_encode_buf qp))"
  have "qp_decode_loop v (snd (qp_encode_finish qp out)) = (bs, [])" for v
  proof -
    obtain d where d: "qp_decode_loop v out = (d, [])" "d @ qp_encode_buf qp = bs"
      using Nil by (auto simp: qp_reads_def)
    have "qp_decode_loop v (if length r = 1 then QP_ENCODE (hd r) else []) = (r, [])"
      using qp_encode_rest [of "qp_crlf qp" 0 "qp_encode_buf qp"] qp_decode_escape [of v "hd r" "[]"]
      by (auto simp: r_def)
    then show ?thesis
      using qp_crunch_reads [OF d(1), of "qp_crlf qp" 0 "qp_encode_buf qp"]
        qp_encode_split [of "qp_encode_buf qp" "qp_crlf qp" 0] d(2)
        qp_decode_append [of v "out @ fst (qp_encode_loop (qp_crlf qp) 0 (qp_encode_buf qp))"]
      by (auto simp: qp_encode_finish_def r_def split: prod.split)
  qed
  then show ?case by simp
next
  case (Cons x xs)
  obtain b w where f: "fold (push_byte 72 (qp_encode_loop (qp_crlf qp) 0)) x (qp_encode_buf qp, out) = (b, w)"
    by (metis prod.exhaust)
  have "qp_encode_update qp x out = Some (qp\<lparr>qp_encode_buf := b\<rparr>, w)"
    using Cons.prems qp_enc.fill_loop_push [of "qp_encode_buf qp" "qp_crlf qp" x out] f
    by (simp add: qp_encode_update_def qp_reads_def)
  moreover have "qp_reads (b, w) (bs @ x)" using qp_fold_reads [OF Cons.prems, of "qp_crlf qp" x] f by simp
  ultimately show ?case using Cons.IH [of "qp\<lparr>qp_encode_buf := b\<rparr>" w "bs @ x"] by simp
qed

lemma qp_decode_pieces_run:
  "length (qp_decode_buf qp) \<le> 144 \<Longrightarrow>
   qp_decode_pieces qp xss out =
     (case qp_decode_loop (qp_invalid qp) (qp_decode_buf qp @ concat xss) of
        (w, r) \<Rightarrow> Some (out @ w @ (if qp_invalid qp then r else [])))"
proof (induction xss arbitrary: qp out)
  case Nil
  then show ?case by (simp add: qp_decode_finish_def split: prod.split)
next
  case (Cons x xs)
  obtain b w where f: "fill_loop 144 (qp_decode_loop (qp_invalid qp)) (qp_decode_buf qp) x out = Some (b, w)"
    using qp_dec.fill_loop_push [OF Cons.prems] by (metis prod.exhaust)
  have u: "qp_decode_update qp x out = Some (qp\<lparr>qp_decode_buf := b\<rparr>, w)"
    using f by (simp add: qp_decode_update_def)
  have "qp_decode_pieces qp (x # xs) out =
      (case qp_decode_loop (qp_invalid qp) (b @ concat xs) of
         (w', r) \<Rightarrow> Some (w @ w' @ (if qp_invalid qp then r else [])))"
    using Cons.IH [of "qp\<lparr>qp_decode_buf := b\<rparr>" w] u qp_dec.fill_loop_keeps [OF f Cons.prems] by simp
  also have "\<dots> = (case qp_decode_loop (qp_invalid qp) (qp_decode_buf qp @ x @ concat xs) of
      (w', r) \<Rightarrow> Some (out @ w' @ (if qp_invalid qp then r else [])))"
    using qp_dec.fill_loop_crunch [OF f Cons.prems]
      qp_decode_append [of "qp_invalid qp" b "concat xs"]
      qp_decode_append [of "qp_invalid qp" "qp_decode_buf qp @ x" "concat xs"]
    by (auto split: prod.splits simp flip: append_assoc)
  finally show ?case by simp
qed

text \<open>C14: what the quoted-printable encoder writes, with or without soft line breaks and for any
  pieces of the input, every decoder gives back, for any pieces of the text.\<close>

theorem qp_round_trip:
  assumes "qp_encode_pieces (mime_qp_new crlf keep) xss [] = Some (concat yss)"
  shows "qp_decode_pieces (mime_qp_new crlf' keep') yss [] = Some (concat xss)"
proof -
  have "qp_reads (qp_encode_buf (mime_qp_new crlf keep), []) []" by (simp add: qp_reads_def mime_qp_new_def)
  from qp_encode_pieces_reads [OF this, of xss] assms
  have "qp_decode_loop v (concat yss) = (concat xss, [])" for v by simp
  then show ?thesis
    using qp_decode_pieces_run [of "mime_qp_new crlf' keep'" yss "[]"] by (simp add: mime_qp_new_def)
qed

theorem qp_round_trip_witness:
  "qp_decode_pieces (mime_qp_new False False) [[97, 61], [50, 48, 13, 10, 61, 51], [68, 61, 50, 48]] [] =
   Some [97, 32, 13, 10, 61, 32]"
proof -
  have "qp_encode_pieces (mime_qp_new True False) [[97, 32], [13, 10, 61], [32]] [] =
      Some (concat [[97, 61], [50, 48, 13, 10, 61, 51], [68, 61, 50, 48]])"
    by code_simp
  then show ?thesis
    using qp_round_trip [of True False "[[97, 32], [13, 10, 61], [32]]"
        "[[97, 61], [50, 48, 13, 10, 61, 51], [68, 61, 50, 48]]" False False] by simp
qed

end
