(* ===== verification/BlockHash.thy ===== *)
theory BlockHash
  imports AclPrelude
begin

text \<open>
  What the two digest classes share: messages in blocks of 64 bytes, numbers as bytes, and the
  contract of an object that takes a message in pieces.
\<close>

section \<open>Words and bytes\<close>

abbreviation rotl :: "nat \<Rightarrow> u32 \<Rightarrow> u32" where
  "rotl s w \<equiv> push_bit s w OR drop_bit (32 - s) w"

text \<open>The bytes of a word, the low one first, and a word from its bytes.\<close>

definition load32 :: "byte list \<Rightarrow> u32" where
  "load32 bs = foldr (\<lambda>b w. ucast b OR push_bit 8 w) bs 0"

definition store32 :: "u32 \<Rightarrow> byte list" where
  "store32 w = map (\<lambda>i. ucast (drop_bit (8 * i) w)) [0..<4]"

definition store64 :: "u64 \<Rightarrow> byte list" where
  "store64 w = map (\<lambda>i. ucast (drop_bit (8 * i) w)) [0..<8]"

lemma length_store [simp]: "length (store32 w) = 4" "length (store64 v) = 8"
  by (simp_all add: store32_def store64_def)

lemma bit_word_of_nat: "bit (word_of_nat n :: 'a::len word) i \<longleftrightarrow> i < LENGTH('a) \<and> bit n i"
  by transfer (auto simp: bit_take_bit_iff bit_of_nat_iff)

lemma ucast_drop_of_nat:
  "k + 8 \<le> LENGTH('a) \<Longrightarrow> (ucast (drop_bit k (word_of_nat n :: 'a::len word)) :: byte) = word_of_nat (n div 2 ^ k)"
  by (rule bit_word_eqI) (auto simp: bit_unsigned_iff bit_drop_bit_eq bit_word_of_nat simp flip: drop_bit_eq_div)

lemma store64_of_nat:
  "store64 (word_of_nat n) = store32 (word_of_nat n) @ store32 (word_of_nat (n div 2 ^ 32))"
proof -
  have low: "(ucast (drop_bit (8 * i) (word_of_nat n :: u64)) :: byte) = ucast (drop_bit (8 * i) (word_of_nat n :: u32))"
    if "i < 4" for i using that by (simp add: ucast_drop_of_nat)
  have high: "(ucast (drop_bit (8 * (4 + i)) (word_of_nat n :: u64)) :: byte) =
      ucast (drop_bit (8 * i) (word_of_nat (n div 2 ^ 32) :: u32))" if "i < 4" for i
  proof -
    have "(2::nat) ^ (8 * (4 + i)) = 2 ^ 32 * 2 ^ (8 * i)" by (simp add: power_add)
    then show ?thesis
      using that ucast_drop_of_nat [where k = "8 * (4 + i)" and 'a = 64 and n = n]
        ucast_drop_of_nat [where k = "8 * i" and 'a = 32 and n = "n div 2 ^ 32"]
      by (simp add: div_mult2_eq)
  qed
  have "[0..<8] = [0..<4] @ map ((+) 4) [0..<4]" by (simp add: upt_rec)
  then show ?thesis
    unfolding store64_def store32_def
    by (simp only: map_append map_map o_def) (intro arg_cong2 [where f = append] map_cong refl low high; simp)
qed

section \<open>Blocks\<close>

text \<open>A message is absorbed block by block; what does not fill a block is left.\<close>

function blocks :: "('s \<Rightarrow> byte list \<Rightarrow> 's) \<Rightarrow> 's \<Rightarrow> byte list \<Rightarrow> 's" where
  "blocks f st bs = (if length bs < 64 then st else blocks f (f st (take 64 bs)) (drop 64 bs))"
  by pat_completeness auto
termination by (relation "measure (\<lambda>(_, _, bs). length bs)") auto

declare blocks.simps [simp del]

definition tail_of :: "byte list \<Rightarrow> byte list" where
  "tail_of bs = drop (64 * (length bs div 64)) bs"

lemma blocks_short [simp]: "length bs < 64 \<Longrightarrow> blocks f st bs = st"
  by (subst blocks.simps) simp

lemma blocks_block: "length b = 64 \<Longrightarrow> blocks f st (b @ bs) = blocks f (f st b) bs"
  by (subst blocks.simps) simp

lemma tail_short [simp]: "length bs < 64 \<Longrightarrow> tail_of bs = bs"
  by (simp add: tail_of_def)

lemma length_tail: "length (tail_of bs) = length bs mod 64"
  by (simp add: tail_of_def minus_mult_div_eq_mod)

lemma tail_block:
  assumes "length b = 64"
  shows "tail_of (b @ bs) = tail_of bs"
proof -
  have "(64 + n) div 64 = Suc (n div 64)" for n :: nat using div_add_self1 [of 64 n] by simp
  then show ?thesis using assms by (simp add: tail_of_def)
qed

lemma blocks_append: "blocks f st (xs @ ys) = blocks f (blocks f st xs) (tail_of xs @ ys)"
proof (induction f st xs rule: blocks.induct)
  case (1 f st bs)
  show ?case
  proof (cases "length bs < 64")
    case False
    define b where "b = take 64 bs"
    define r where "r = drop 64 bs"
    have b: "length b = 64" "bs = b @ r" using False by (simp_all add: b_def r_def)
    show ?thesis
      using 1 [OF False] by (simp add: b(2) blocks_block [OF b(1)] tail_block [OF b(1)] b(1))
  qed simp
qed

lemma tail_append: "tail_of (xs @ ys) = tail_of (tail_of xs @ ys)"
proof (induction "length xs" arbitrary: xs rule: less_induct)
  case less
  show ?case
  proof (cases "length xs < 64")
    case False
    define b where "b = take 64 xs"
    define r where "r = drop 64 xs"
    have b: "length b = 64" "xs = b @ r" using False by (simp_all add: b_def r_def)
    have "tail_of (r @ ys) = tail_of (tail_of r @ ys)" by (rule less) (simp add: b)
    then show ?thesis by (simp add: b(2) tail_block [OF b(1)])
  qed simp
qed

section \<open>The contract\<close>

text \<open>
  \<open>absorbed xs s\<close>: the state after the message \<open>xs\<close>, of which pieces that are \<open>ok\<close> are taken in one
  call.
\<close>

fun pieces_ok :: "(byte list \<Rightarrow> byte list \<Rightarrow> bool) \<Rightarrow> byte list \<Rightarrow> byte list list \<Rightarrow> bool" where
  "pieces_ok ok xs [] \<longleftrightarrow> True"
| "pieces_ok ok xs (p # ps) \<longleftrightarrow> ok xs p \<and> pieces_ok ok (xs @ p) ps"

locale absorber =
  fixes absorbed :: "byte list \<Rightarrow> 's \<Rightarrow> bool" and update :: "'s \<Rightarrow> byte list \<Rightarrow> 's"
    and ok :: "byte list \<Rightarrow> byte list \<Rightarrow> bool"
  assumes absorbed_update: "absorbed xs s \<Longrightarrow> ok xs ys \<Longrightarrow> absorbed (xs @ ys) (update s ys)"
begin

lemma absorbed_pieces:
  "absorbed xs s \<Longrightarrow> pieces_ok ok xs ps \<Longrightarrow> absorbed (xs @ concat ps) (foldl update s ps)"
proof (induction ps arbitrary: xs s)
  case (Cons p ps)
  then show ?case using Cons.IH [of "xs @ p" "update s p"] absorbed_update by simp
qed simp

end

end
