(* ===== verification/Md5.thy ===== *)
theory Md5
  imports BlockHash
begin

text \<open>
  The class \<^verbatim>\<open>md5\<close> (\<^verbatim>\<open>stdlib/md5.cpp\<close>) on a little-endian host, where \<^verbatim>\<open>byteSwap\<close> is empty, and the
  algorithm of RFC 1321 it computes.
\<close>

unbundle bit_operations_syntax

section \<open>The transformation of a block\<close>

definition F1 :: "u32 \<Rightarrow> u32 \<Rightarrow> u32 \<Rightarrow> u32" where "F1 x y z = z XOR (x AND (y XOR z))"
definition F2 :: "u32 \<Rightarrow> u32 \<Rightarrow> u32 \<Rightarrow> u32" where "F2 x y z = F1 z x y"
definition F3 :: "u32 \<Rightarrow> u32 \<Rightarrow> u32 \<Rightarrow> u32" where "F3 x y z = x XOR y XOR z"
definition F4 :: "u32 \<Rightarrow> u32 \<Rightarrow> u32 \<Rightarrow> u32" where "F4 x y z = y XOR (x OR NOT z)"

type_synonym md5_regs = "u32 \<times> u32 \<times> u32 \<times> u32"

definition MD5STEP :: "(u32 \<Rightarrow> u32 \<Rightarrow> u32 \<Rightarrow> u32) \<Rightarrow> u32 \<Rightarrow> u32 \<Rightarrow> u32 \<Rightarrow> u32 \<Rightarrow> u32 \<Rightarrow> nat \<Rightarrow> u32" where
  "MD5STEP f w x y z data s = rotl s (w + (f x y z + data)) + x"

text \<open>The lines of \<^verbatim>\<open>transform\<close>: each sets one of the four registers.\<close>

definition step_a :: "(u32 \<Rightarrow> u32 \<Rightarrow> u32 \<Rightarrow> u32) \<Rightarrow> nat \<Rightarrow> u32 \<Rightarrow> nat \<Rightarrow> u32 list \<Rightarrow> md5_regs \<Rightarrow> md5_regs" where
  "step_a f k t s ws = (\<lambda>(a, b, c, d). (MD5STEP f a b c d (ws ! k + t) s, b, c, d))"

definition step_d :: "(u32 \<Rightarrow> u32 \<Rightarrow> u32 \<Rightarrow> u32) \<Rightarrow> nat \<Rightarrow> u32 \<Rightarrow> nat \<Rightarrow> u32 list \<Rightarrow> md5_regs \<Rightarrow> md5_regs" where
  "step_d f k t s ws = (\<lambda>(a, b, c, d). (a, b, c, MD5STEP f d a b c (ws ! k + t) s))"

definition step_c :: "(u32 \<Rightarrow> u32 \<Rightarrow> u32 \<Rightarrow> u32) \<Rightarrow> nat \<Rightarrow> u32 \<Rightarrow> nat \<Rightarrow> u32 list \<Rightarrow> md5_regs \<Rightarrow> md5_regs" where
  "step_c f k t s ws = (\<lambda>(a, b, c, d). (a, b, MD5STEP f c d a b (ws ! k + t) s, d))"

definition step_b :: "(u32 \<Rightarrow> u32 \<Rightarrow> u32 \<Rightarrow> u32) \<Rightarrow> nat \<Rightarrow> u32 \<Rightarrow> nat \<Rightarrow> u32 list \<Rightarrow> md5_regs \<Rightarrow> md5_regs" where
  "step_b f k t s ws = (\<lambda>(a, b, c, d). (a, MD5STEP f b c d a (ws ! k + t) s, c, d))"

definition md5_lines :: "(u32 list \<Rightarrow> md5_regs \<Rightarrow> md5_regs) list" where
  "md5_lines = [
    step_a F1 0 0xd76aa478 7, step_d F1 1 0xe8c7b756 12,
    step_c F1 2 0x242070db 17, step_b F1 3 0xc1bdceee 22,
    step_a F1 4 0xf57c0faf 7, step_d F1 5 0x4787c62a 12,
    step_c F1 6 0xa8304613 17, step_b F1 7 0xfd469501 22,
    step_a F1 8 0x698098d8 7, step_d F1 9 0x8b44f7af 12,
    step_c F1 10 0xffff5bb1 17, step_b F1 11 0x895cd7be 22,
    step_a F1 12 0x6b901122 7, step_d F1 13 0xfd987193 12,
    step_c F1 14 0xa679438e 17, step_b F1 15 0x49b40821 22,
    step_a F2 1 0xf61e2562 5, step_d F2 6 0xc040b340 9,
    step_c F2 11 0x265e5a51 14, step_b F2 0 0xe9b6c7aa 20,
    step_a F2 5 0xd62f105d 5, step_d F2 10 0x02441453 9,
    step_c F2 15 0xd8a1e681 14, step_b F2 4 0xe7d3fbc8 20,
    step_a F2 9 0x21e1cde6 5, step_d F2 14 0xc33707d6 9,
    step_c F2 3 0xf4d50d87 14, step_b F2 8 0x455a14ed 20,
    step_a F2 13 0xa9e3e905 5, step_d F2 2 0xfcefa3f8 9,
    step_c F2 7 0x676f02d9 14, step_b F2 12 0x8d2a4c8a 20,
    step_a F3 5 0xfffa3942 4, step_d F3 8 0x8771f681 11,
    step_c F3 11 0x6d9d6122 16, step_b F3 14 0xfde5380c 23,
    step_a F3 1 0xa4beea44 4, step_d F3 4 0x4bdecfa9 11,
    step_c F3 7 0xf6bb4b60 16, step_b F3 10 0xbebfbc70 23,
    step_a F3 13 0x289b7ec6 4, step_d F3 0 0xeaa127fa 11,
    step_c F3 3 0xd4ef3085 16, step_b F3 6 0x04881d05 23,
    step_a F3 9 0xd9d4d039 4, step_d F3 12 0xe6db99e5 11,
    step_c F3 15 0x1fa27cf8 16, step_b F3 2 0xc4ac5665 23,
    step_a F4 0 0xf4292244 6, step_d F4 7 0x432aff97 10,
    step_c F4 14 0xab9423a7 15, step_b F4 5 0xfc93a039 21,
    step_a F4 12 0x655b59c3 6, step_d F4 3 0x8f0ccc92 10,
    step_c F4 10 0xffeff47d 15, step_b F4 1 0x85845dd1 21,
    step_a F4 8 0x6fa87e4f 6, step_d F4 15 0xfe2ce6e0 10,
    step_c F4 6 0xa3014314 15, step_b F4 13 0x4e0811a1 21,
    step_a F4 4 0xf7537e82 6, step_d F4 11 0xbd3af235 10,
    step_c F4 2 0x2ad7d2bb 15, step_b F4 9 0xeb86d391 21]"

definition transform :: "md5_regs \<Rightarrow> u32 list \<Rightarrow> md5_regs" where
  "transform buf ws =
     (case fold (\<lambda>line. line ws) md5_lines buf of
        (a, b, c, d) \<Rightarrow> (case buf of (a0, b0, c0, d0) \<Rightarrow> (a0 + a, b0 + b, c0 + c, d0 + d)))"

text \<open>The 16 words of the 64 bytes of \<^verbatim>\<open>in_\<close>.\<close>

definition block_words :: "byte list \<Rightarrow> u32 list" where
  "block_words bs = map (\<lambda>i. load32 (take 4 (drop (4 * i) bs))) [0..<16]"

section \<open>The object\<close>

record md5 =
  md5_buf :: md5_regs
  md5_bytes0 :: u32
  md5_bytes1 :: u32
  md5_in :: "byte list"
  md5_digest :: "byte list"

definition md5_reset :: "md5 \<Rightarrow> md5" where
  "md5_reset m = m\<lparr>md5_buf := (0x67452301, 0xefcdab89, 0x98badcfe, 0x10325476),
     md5_bytes0 := 0, md5_bytes1 := 0, md5_in := replicate 64 0, md5_digest := (md5_digest m)[0 := 0]\<rparr>"

text \<open>The constructor resets; the digest is uninitialised.\<close>

definition md5_new :: "byte list \<Rightarrow> md5" where
  "md5_new junk = md5_reset \<lparr>md5_buf = (0, 0, 0, 0), md5_bytes0 = 0, md5_bytes1 = 0, md5_in = [], md5_digest = junk\<rparr>"

text \<open>The loop over whole blocks, and the bytes after them.\<close>

function md5_chunks :: "md5 \<Rightarrow> byte list \<Rightarrow> md5" where
  "md5_chunks m buf =
     (if 64 \<le> length buf
      then md5_chunks (m\<lparr>md5_in := take 64 buf, md5_buf := transform (md5_buf m) (block_words (take 64 buf))\<rparr>) (drop 64 buf)
      else m\<lparr>md5_in := put_at (md5_in m) 0 buf\<rparr>)"
  by pat_completeness auto
termination by (relation "measure (\<lambda>(_, buf). length buf)") auto

definition md5_update :: "md5 \<Rightarrow> byte list \<Rightarrow> md5" where
  "md5_update m buf =
     (let t = md5_bytes0 m;
          low = t + word_of_nat (length buf);
          m1 = m\<lparr>md5_bytes0 := low, md5_bytes1 := (if low < t then md5_bytes1 m + 1 else md5_bytes1 m)\<rparr>;
          space = 64 - unat (t AND 0x3f)
      in if length buf < space then m1\<lparr>md5_in := put_at (md5_in m1) (64 - space) buf\<rparr>
         else
           let block = put_at (md5_in m1) (64 - space) (take space buf)
           in md5_chunks (m1\<lparr>md5_in := block, md5_buf := transform (md5_buf m1) (block_words block)\<rparr>)
                (drop space buf))"

definition md5_finish :: "md5 \<Rightarrow> md5" where
  "md5_finish m =
     (let n = unat (md5_bytes0 m AND 0x3f);
          blk = put_at (md5_in m) n [0x80];
          (buf1, blk1) =
            (if 55 < n
             then (transform (md5_buf m) (block_words (put_at blk (n + 1) (replicate (63 - n) 0))),
                   put_at (put_at blk (n + 1) (replicate (63 - n) 0)) 0 (replicate 56 0))
             else (md5_buf m, put_at blk (n + 1) (replicate (55 - n) 0)));
          blk2 = put_at blk1 56 (store32 (push_bit 3 (md5_bytes0 m)));
          blk3 = put_at blk2 60 (store32 (push_bit 3 (md5_bytes1 m) OR drop_bit 29 (md5_bytes0 m)))
      in case transform buf1 (block_words blk3) of
           (a, b, c, d) \<Rightarrow>
             \<lparr>md5_buf = (0, 0, 0, 0), md5_bytes0 = 0, md5_bytes1 = 0, md5_in = replicate 64 0,
              md5_digest = store32 a @ store32 b @ store32 c @ store32 d\<rparr>)"

section \<open>The digest as text\<close>

definition hexdigit :: "byte \<Rightarrow> byte" where
  "hexdigit d = (if d < 10 then 48 + d else 87 + d)"

text \<open>What \<^verbatim>\<open>sprintf\<close> writes for \<^verbatim>\<open>%02x\<close>: two digits and the terminating zero.\<close>

definition sprintf_02x :: "byte \<Rightarrow> byte list" where
  "sprintf_02x b = [hexdigit (drop_bit 4 b), hexdigit (b AND 0xf), 0]"

text \<open>
  A write into a buffer of fixed size; \<^const>\<open>None\<close> when it goes past the end.
\<close>

definition poke :: "byte list \<Rightarrow> nat \<Rightarrow> byte list \<Rightarrow> byte list option" where
  "poke buf n xs = (if n + length xs \<le> length buf then Some (put_at buf n xs) else None)"

fun hex_loop :: "byte list \<Rightarrow> nat \<Rightarrow> byte list \<Rightarrow> byte list option" where
  "hex_loop buf i [] = Some buf"
| "hex_loop buf i (d # ds) =
     (case poke buf (2 * i) (sprintf_02x d) of
        None \<Rightarrow> None
      | Some buf1 \<Rightarrow>
          (case poke buf1 (2 * i + 1) (sprintf_02x (push_bit 4 d)) of
             None \<Rightarrow> None
           | Some buf2 \<Rightarrow> hex_loop buf2 (Suc i) ds))"

text \<open>
  \<open>junk\<close> is the local buffer of 34 bytes before anything is written; the result is what is stored
  in \<open>out\<close>. \<^const>\<open>None\<close>: abort, or a write past the end of the buffer.
\<close>

definition hex_encode :: "byte list \<Rightarrow> byte list \<Rightarrow> nat \<Rightarrow> byte list option" where
  "hex_encode junk digest out_size =
     (if out_size < 33 then None
      else map_option (\<lambda>buf. take 32 buf @ [0]) (hex_loop junk 0 (take 16 digest)))"

definition md5_get_string :: "byte list \<Rightarrow> md5 \<Rightarrow> byte list option" where
  "md5_get_string junk m = hex_encode junk (md5_digest m) 33"

section \<open>The static functions\<close>

text \<open>\<open>key\<close> is \<^const>\<open>None\<close> for NULL.\<close>

definition md5_keyed :: "byte list \<Rightarrow> byte list option \<Rightarrow> md5" where
  "md5_keyed junk key =
     (case key of None \<Rightarrow> md5_new junk
      | Some k \<Rightarrow> if k = [] then md5_new junk else md5_update (md5_new junk) k)"

definition md5_digest_of :: "byte list \<Rightarrow> byte list \<Rightarrow> byte list option \<Rightarrow> nat \<Rightarrow> byte list" where
  "md5_digest_of junk dat key out_size =
     take (if out_size > 16 then 16 else out_size) (md5_digest (md5_finish (md5_update (md5_keyed junk key) dat)))"

definition md5_string :: "byte list \<Rightarrow> byte list \<Rightarrow> byte list \<Rightarrow> byte list option \<Rightarrow> nat \<Rightarrow> byte list option" where
  "md5_string junk junk34 dat key out_size =
     hex_encode junk34 (md5_digest (md5_finish (md5_update (md5_keyed junk key) dat))) out_size"

text \<open>
  \<^verbatim>\<open>md5_file\<close> over an open stream. \<open>pieces\<close> are the results of \<^verbatim>\<open>read\<close> with a buffer of 8192 bytes up
  to the one below zero. \<open>Inl ()\<close> is the result -1.
\<close>

definition md5_file :: "byte list \<Rightarrow> byte list \<Rightarrow> byte list list \<Rightarrow> byte list option \<Rightarrow> nat \<Rightarrow> unit + (int \<times> byte list option)" where
  "md5_file junk junk34 pieces key out_size =
     (if out_size < 33 then Inl ()
      else
        let n = sum_list (map (\<lambda>p. int (length p)) pieces);
            m = foldl md5_update (md5_keyed junk key) pieces
        in if n = 0 then Inl ()
           else Inr (n, hex_encode junk34 (md5_digest (md5_finish m)) out_size))"

section \<open>RFC 1321\<close>

definition rfc_F :: "nat \<Rightarrow> u32 \<Rightarrow> u32 \<Rightarrow> u32 \<Rightarrow> u32" where
  "rfc_F r = [\<lambda>x y z. (x AND y) OR (NOT x AND z), \<lambda>x y z. (x AND z) OR (y AND NOT z),
              \<lambda>x y z. x XOR y XOR z, \<lambda>x y z. y XOR (x OR NOT z)] ! r"

definition rfc_T :: "u32 list" where
  "rfc_T = [
    0xd76aa478, 0xe8c7b756, 0x242070db, 0xc1bdceee,
    0xf57c0faf, 0x4787c62a, 0xa8304613, 0xfd469501,
    0x698098d8, 0x8b44f7af, 0xffff5bb1, 0x895cd7be,
    0x6b901122, 0xfd987193, 0xa679438e, 0x49b40821,
    0xf61e2562, 0xc040b340, 0x265e5a51, 0xe9b6c7aa,
    0xd62f105d, 0x02441453, 0xd8a1e681, 0xe7d3fbc8,
    0x21e1cde6, 0xc33707d6, 0xf4d50d87, 0x455a14ed,
    0xa9e3e905, 0xfcefa3f8, 0x676f02d9, 0x8d2a4c8a,
    0xfffa3942, 0x8771f681, 0x6d9d6122, 0xfde5380c,
    0xa4beea44, 0x4bdecfa9, 0xf6bb4b60, 0xbebfbc70,
    0x289b7ec6, 0xeaa127fa, 0xd4ef3085, 0x04881d05,
    0xd9d4d039, 0xe6db99e5, 0x1fa27cf8, 0xc4ac5665,
    0xf4292244, 0x432aff97, 0xab9423a7, 0xfc93a039,
    0x655b59c3, 0x8f0ccc92, 0xffeff47d, 0x85845dd1,
    0x6fa87e4f, 0xfe2ce6e0, 0xa3014314, 0x4e0811a1,
    0xf7537e82, 0xbd3af235, 0x2ad7d2bb, 0xeb86d391]"

definition rfc_index :: "nat \<Rightarrow> nat" where
  "rfc_index i = [i, 5 * i + 1, 3 * i + 5, 7 * i] ! (i div 16) mod 16"

definition rfc_shift :: "nat \<Rightarrow> nat" where
  "rfc_shift i = [[7, 12, 17, 22], [5, 9, 14, 20], [4, 11, 16, 23], [6, 10, 15, 21]] ! (i div 16) ! (i mod 4)"

text \<open>Step \<open>i\<close> of the 64, with the registers renamed after it.\<close>

definition rfc_op :: "(u32 \<Rightarrow> u32 \<Rightarrow> u32 \<Rightarrow> u32) \<Rightarrow> nat \<Rightarrow> u32 \<Rightarrow> nat \<Rightarrow> u32 list \<Rightarrow> md5_regs \<Rightarrow> md5_regs" where
  "rfc_op f k t s ws = (\<lambda>(a, b, c, d). (d, b + rotl s (a + f b c d + ws ! k + t), b, c))"

definition rfc_step :: "u32 list \<Rightarrow> nat \<Rightarrow> md5_regs \<Rightarrow> md5_regs" where
  "rfc_step ws i = rfc_op (rfc_F (i div 16)) (rfc_index i) (rfc_T ! i) (rfc_shift i) ws"

definition rfc_block :: "md5_regs \<Rightarrow> byte list \<Rightarrow> md5_regs" where
  "rfc_block buf bs =
     (case fold (rfc_step (block_words bs)) [0..<64] buf of
        (a, b, c, d) \<Rightarrow> (case buf of (a0, b0, c0, d0) \<Rightarrow> (a0 + a, b0 + b, c0 + c, d0 + d)))"

definition rfc_pad :: "byte list \<Rightarrow> byte list" where
  "rfc_pad bs = bs @ [0x80] @ replicate ((119 - length bs mod 64) mod 64) 0 @ store64 (word_of_nat (8 * length bs))"

definition rfc1321 :: "byte list \<Rightarrow> byte list" where
  "rfc1321 bs =
     (case blocks rfc_block (0x67452301, 0xefcdab89, 0x98badcfe, 0x10325476) (rfc_pad bs) of
        (a, b, c, d) \<Rightarrow> store32 a @ store32 b @ store32 c @ store32 d)"

text \<open>The digest the RFC gives for \<^verbatim>\<open>abc\<close>.\<close>

lemma rfc1321_abc:
  "rfc1321 [97, 98, 99] = [0x90, 0x01, 0x50, 0x98, 0x3c, 0xd2, 0x4f, 0xb0, 0xd6, 0x96, 0x3f, 0x7d, 0x28, 0xe1, 0x7f, 0x72]"
  by code_simp

section \<open>The transformation is the one of the RFC\<close>

lemma F_rfc: "F1 = rfc_F 0" "F2 = rfc_F 1" "F3 = rfc_F 2" "F4 = rfc_F 3"
  by (auto simp: F1_def F2_def F3_def F4_def rfc_F_def fun_eq_iff bit_eq_iff bit_simps)

lemma four_lines:
  "step_b f k4 t4 s4 ws (step_c f k3 t3 s3 ws (step_d f k2 t2 s2 ws (step_a f k1 t1 s1 ws st))) =
   rfc_op f k4 t4 s4 ws (rfc_op f k3 t3 s3 ws (rfc_op f k2 t2 s2 ws (rfc_op f k1 t1 s1 ws st)))"
  by (cases st) (simp add: step_a_def step_b_def step_c_def step_d_def rfc_op_def MD5STEP_def ac_simps)

definition rfc_table :: "(nat \<times> nat \<times> u32 \<times> nat) list" where
  "rfc_table = map (\<lambda>i. (i div 16, rfc_index i, rfc_T ! i, rfc_shift i)) [0..<64]"

lemma rfc_table_rows: "rfc_table = [
     (0, 0, 0xd76aa478, 7), (0, 1, 0xe8c7b756, 12), (0, 2, 0x242070db, 17), (0, 3, 0xc1bdceee, 22),
     (0, 4, 0xf57c0faf, 7), (0, 5, 0x4787c62a, 12), (0, 6, 0xa8304613, 17), (0, 7, 0xfd469501, 22),
     (0, 8, 0x698098d8, 7), (0, 9, 0x8b44f7af, 12), (0, 10, 0xffff5bb1, 17), (0, 11, 0x895cd7be, 22),
     (0, 12, 0x6b901122, 7), (0, 13, 0xfd987193, 12), (0, 14, 0xa679438e, 17), (0, 15, 0x49b40821, 22),
     (1, 1, 0xf61e2562, 5), (1, 6, 0xc040b340, 9), (1, 11, 0x265e5a51, 14), (1, 0, 0xe9b6c7aa, 20),
     (1, 5, 0xd62f105d, 5), (1, 10, 0x02441453, 9), (1, 15, 0xd8a1e681, 14), (1, 4, 0xe7d3fbc8, 20),
     (1, 9, 0x21e1cde6, 5), (1, 14, 0xc33707d6, 9), (1, 3, 0xf4d50d87, 14), (1, 8, 0x455a14ed, 20),
     (1, 13, 0xa9e3e905, 5), (1, 2, 0xfcefa3f8, 9), (1, 7, 0x676f02d9, 14), (1, 12, 0x8d2a4c8a, 20),
     (2, 5, 0xfffa3942, 4), (2, 8, 0x8771f681, 11), (2, 11, 0x6d9d6122, 16), (2, 14, 0xfde5380c, 23),
     (2, 1, 0xa4beea44, 4), (2, 4, 0x4bdecfa9, 11), (2, 7, 0xf6bb4b60, 16), (2, 10, 0xbebfbc70, 23),
     (2, 13, 0x289b7ec6, 4), (2, 0, 0xeaa127fa, 11), (2, 3, 0xd4ef3085, 16), (2, 6, 0x04881d05, 23),
     (2, 9, 0xd9d4d039, 4), (2, 12, 0xe6db99e5, 11), (2, 15, 0x1fa27cf8, 16), (2, 2, 0xc4ac5665, 23),
     (3, 0, 0xf4292244, 6), (3, 7, 0x432aff97, 10), (3, 14, 0xab9423a7, 15), (3, 5, 0xfc93a039, 21),
     (3, 12, 0x655b59c3, 6), (3, 3, 0x8f0ccc92, 10), (3, 10, 0xffeff47d, 15), (3, 1, 0x85845dd1, 21),
     (3, 8, 0x6fa87e4f, 6), (3, 15, 0xfe2ce6e0, 10), (3, 6, 0xa3014314, 15), (3, 13, 0x4e0811a1, 21),
     (3, 4, 0xf7537e82, 6), (3, 11, 0xbd3af235, 10), (3, 2, 0x2ad7d2bb, 15), (3, 9, 0xeb86d391, 21)]"
  by code_simp

lemma rfc_steps_table:
  "fold (rfc_step ws) [0..<64] st = fold (\<lambda>(r, k, t, s). rfc_op (rfc_F r) k t s ws) rfc_table st"
  by (simp add: rfc_table_def fold_map o_def rfc_step_def [abs_def])

lemma lines_table: "fold (\<lambda>line. line ws) md5_lines st = fold (\<lambda>(r, k, t, s). rfc_op (rfc_F r) k t s ws) rfc_table st"
  by (simp only: md5_lines_def rfc_table_rows fold_simps prod.case four_lines F_rfc)

lemma transform_rfc: "transform buf (block_words bs) = rfc_block buf bs"
  unfolding transform_def rfc_block_def lines_table rfc_steps_table ..

section \<open>Padding\<close>

text \<open>The byte counter of 64 bits in two words.\<close>

lemma carry:
  fixes r len M :: nat
  assumes "r < M" "len < M"
  shows "(r + len) mod M < r \<longleftrightarrow> M \<le> r + len" "(q * M + r + len) div M = q + (if M \<le> r + len then 1 else 0)"
proof -
  have "(r + len) mod M = (if M \<le> r + len then r + len - M else r + len)"
    using assms by (simp add: le_mod_geq)
  then show "(r + len) mod M < r \<longleftrightarrow> M \<le> r + len" using assms by auto
  have "(r + len) div M = (if M \<le> r + len then 1 else 0)"
    using assms by (simp add: le_div_geq)
  then show "(q * M + r + len) div M = q + (if M \<le> r + len then 1 else 0)"
    using assms by (simp add: add.assoc)
qed

lemma md5_count:
  fixes n len :: nat
  assumes "len < 2 ^ 32"
  defines "t \<equiv> word_of_nat n :: u32"
  shows "t + word_of_nat len = word_of_nat (n + len)"
    "(if t + word_of_nat len < t then word_of_nat (n div 2 ^ 32) + 1 else word_of_nat (n div 2 ^ 32) :: u32) =
     word_of_nat ((n + len) div 2 ^ 32)"
proof -
  show s: "t + word_of_nat len = word_of_nat (n + len)" by (simp add: t_def)
  define q where "q = n div 2 ^ 32"
  define r where "r = n mod 2 ^ 32"
  have n: "n = q * 2 ^ 32 + r" "r < 2 ^ 32" by (simp_all add: q_def r_def)
  have u: "unat t = r" by (simp add: t_def r_def unat_of_nat)
  have v: "unat (t + word_of_nat len) = (r + len) mod 2 ^ 32"
    unfolding s unat_of_nat by (simp add: r_def mod_simps)
  have less: "t + word_of_nat len < t \<longleftrightarrow> 2 ^ 32 \<le> r + len"
    unfolding unat_less_iff u v by (rule carry(1) [OF n(2) assms(1)])
  have "(n + len) div 2 ^ 32 = q + (if 2 ^ 32 \<le> r + len then 1 else 0)"
    using carry(2) [OF n(2) assms(1), of q] n(1) by simp
  then show "(if t + word_of_nat len < t then word_of_nat (n div 2 ^ 32) + 1 else word_of_nat (n div 2 ^ 32) :: u32) =
     word_of_nat ((n + len) div 2 ^ 32)"
    unfolding less q_def [symmetric] by simp
qed

lemma md5_position: "unat ((word_of_nat n :: u32) AND 0x3f) = n mod 64"
proof -
  have m: "(0x3f :: u32) = mask 6" by (simp add: mask_eq_exp_minus_1)
  have "unat (take_bit 6 (word_of_nat n :: u32)) = n mod 64"
    unfolding unsigned_take_bit_eq unat_of_nat unfolding take_bit_eq_mod by (simp add: mod_mod_cancel)
  then show ?thesis unfolding m by (simp only: take_bit_eq_mask)
qed

lemma md5_bit_count:
  "store32 (push_bit 3 (word_of_nat n)) @ store32 (push_bit 3 (word_of_nat (n div 2 ^ 32)) OR drop_bit 29 (word_of_nat n)) =
   store64 (word_of_nat (8 * n))"
proof -
  have p: "push_bit 3 (n :: nat) = 8 * n" by (simp add: push_bit_eq_mult)
  have low: "push_bit 3 (word_of_nat n) = (word_of_nat (8 * n) :: u32)"
    unfolding p [symmetric]
    by (rule bit_word_eqI) (auto simp: bit_push_bit_iff bit_word_of_nat)
  have d: "8 * n div 2 ^ 32 = drop_bit 32 (push_bit 3 n)" "n div 2 ^ 32 = drop_bit 32 n"
    by (simp_all add: p drop_bit_eq_div)
  have high: "push_bit 3 (word_of_nat (n div 2 ^ 32)) OR drop_bit 29 (word_of_nat n) = (word_of_nat (8 * n div 2 ^ 32) :: u32)"
    unfolding d
  proof (rule bit_word_eqI)
    fix i
    assume "i < LENGTH(32)"
    then show "bit (push_bit 3 (word_of_nat (drop_bit 32 n)) OR drop_bit 29 (word_of_nat n) :: u32) i \<longleftrightarrow>
        bit (word_of_nat (drop_bit 32 (push_bit 3 n)) :: u32) i"
      by (cases "3 \<le> i")
        (auto simp: bit_push_bit_iff bit_drop_bit_eq bit_or_iff bit_word_of_nat algebra_simps)
  qed
  show ?thesis unfolding low high store64_of_nat ..
qed

end
