(* ===== verification/Md5Run.thy ===== *)
theory Md5Run
  imports Md5
begin

text \<open>The object after any calls of \<^verbatim>\<open>update\<close>, and the digest \<^verbatim>\<open>finish\<close> computes.\<close>

declare md5_chunks.simps [simp del]

abbreviation md5_iv :: md5_regs where
  "md5_iv \<equiv> (0x67452301, 0xefcdab89, 0x98badcfe, 0x10325476)"

definition md5_absorbed :: "byte list \<Rightarrow> md5 \<Rightarrow> bool" where
  "md5_absorbed xs m \<longleftrightarrow>
     length (md5_in m) = 64 \<and> md5_bytes0 m = word_of_nat (length xs) \<and>
     md5_bytes1 m = word_of_nat (length xs div 2 ^ 32) \<and>
     md5_buf m = blocks rfc_block md5_iv xs \<and> take (length (tail_of xs)) (md5_in m) = tail_of xs"

lemma md5_new_absorbed: "md5_absorbed [] (md5_new junk)"
  by (simp add: md5_absorbed_def md5_new_def md5_reset_def)

lemma md5_chunks_absorb:
  "length (md5_in m) = 64 \<Longrightarrow>
   length (md5_in (md5_chunks m ys)) = 64 \<and> md5_bytes0 (md5_chunks m ys) = md5_bytes0 m \<and>
   md5_bytes1 (md5_chunks m ys) = md5_bytes1 m \<and> md5_buf (md5_chunks m ys) = blocks rfc_block (md5_buf m) ys \<and>
   take (length (tail_of ys)) (md5_in (md5_chunks m ys)) = tail_of ys"
proof (induction m ys rule: md5_chunks.induct)
  case (1 m buf)
  show ?case
  proof (cases "64 \<le> length buf")
    case True
    define b where "b = take 64 buf"
    define r where "r = drop 64 buf"
    have b: "length b = 64" "buf = b @ r" using True by (simp_all add: b_def r_def)
    have "md5_chunks m buf = md5_chunks (m\<lparr>md5_in := b, md5_buf := rfc_block (md5_buf m) b\<rparr>) r"
      using True by (subst md5_chunks.simps) (simp add: b_def r_def transform_rfc)
    then show ?thesis
      using 1(1) [OF True] b by (simp add: transform_rfc blocks_block tail_block)
  next
    case False
    then show ?thesis
      using 1(2) take_put_at [of 0 buf "md5_in m"] by (subst (1 2 3 4 5) md5_chunks.simps) simp
  qed
qed

lemma md5_update_absorbed:
  assumes "md5_absorbed xs m" "length ys < 2 ^ 32"
  shows "md5_absorbed (xs @ ys) (md5_update m ys)"
proof -
  define n where "n = length xs mod 64"
  define m1 where "m1 = m\<lparr>md5_bytes0 := word_of_nat (length (xs @ ys)), md5_bytes1 := word_of_nat (length (xs @ ys) div 2 ^ 32)\<rparr>"
  have n: "length (tail_of xs) = n" "n < 64" by (simp_all add: n_def length_tail)
  have a: "length (md5_in m) = 64" "md5_buf m = blocks rfc_block md5_iv xs" "take n (md5_in m) = tail_of xs"
    using assms(1) n by (auto simp: md5_absorbed_def)
  have put: "take (n + length zs) (put_at (md5_in m) n zs) = tail_of xs @ zs" if "n + length zs \<le> 64" for zs
    using take_put_at [of n zs "md5_in m"] that a by simp
  have c: "md5_bytes0 m = word_of_nat (length xs)" "md5_bytes1 m = word_of_nat (length xs div 2 ^ 32)"
    using assms(1) by (simp_all add: md5_absorbed_def)
  have m1: "m\<lparr>md5_bytes0 := md5_bytes0 m + word_of_nat (length ys),
      md5_bytes1 := (if md5_bytes0 m + word_of_nat (length ys) < md5_bytes0 m then md5_bytes1 m + 1 else md5_bytes1 m)\<rparr> = m1"
    unfolding m1_def c length_append md5_count(2) [OF assms(2)] unfolding md5_count(1) [OF assms(2)] ..
  have pos: "unat (md5_bytes0 m AND 0x3f) = n" unfolding c n_def by (rule md5_position)
  have sp: "64 - (64 - n) = n" "md5_in m1 = md5_in m" "md5_buf m1 = md5_buf m" using n(2) by (simp_all add: m1_def)
  have u: "md5_update m ys =
      (if length ys < 64 - n then m1\<lparr>md5_in := put_at (md5_in m) n ys\<rparr>
       else md5_chunks (m1\<lparr>md5_in := put_at (md5_in m) n (take (64 - n) ys),
              md5_buf := rfc_block (md5_buf m) (put_at (md5_in m) n (take (64 - n) ys))\<rparr>) (drop (64 - n) ys))"
    unfolding md5_update_def Let_def m1 pos sp transform_rfc ..
  show ?thesis
  proof (cases "length ys < 64 - n")
    case True
    then have t: "tail_of (xs @ ys) = tail_of xs @ ys" "blocks rfc_block md5_iv (xs @ ys) = blocks rfc_block md5_iv xs"
      using n by (simp_all add: tail_append [of xs] blocks_append [of _ _ xs])
    then show ?thesis
      unfolding u md5_absorbed_def using True a put [of ys] n by (simp add: m1_def)
  next
    case False
    define b where "b = put_at (md5_in m) n (take (64 - n) ys)"
    define r where "r = drop (64 - n) ys"
    have "take 64 b = tail_of xs @ take (64 - n) ys" using put [of "take (64 - n) ys"] False n by (simp add: b_def)
    then have b: "length b = 64" "tail_of xs @ ys = b @ r" using a False n by (simp_all add: b_def r_def)
    have t: "tail_of (xs @ ys) = tail_of r" "blocks rfc_block md5_iv (xs @ ys) = blocks rfc_block (rfc_block (md5_buf m) b) r"
      using a by (simp_all add: tail_append [of xs] blocks_append [of _ _ xs] b(2) tail_block [OF b(1)] blocks_block [OF b(1)])
    define m2 where "m2 = m1\<lparr>md5_in := b, md5_buf := rfc_block (md5_buf m) b\<rparr>"
    have "md5_update m ys = md5_chunks m2 r" unfolding u using False by (simp add: m2_def b_def r_def)
    then show ?thesis
      unfolding md5_absorbed_def t using md5_chunks_absorb [of m2 r] b(1) by (simp add: m2_def m1_def)
  qed
qed

interpretation md5_msg: absorber md5_absorbed md5_update "\<lambda>xs ys. length ys < 2 ^ 32"
  by unfold_locales (rule md5_update_absorbed)

lemma md5_pieces_ok: "\<forall>p \<in> set ps. length p < 2 ^ 32 \<Longrightarrow> pieces_ok (\<lambda>xs ys. length ys < 2 ^ 32) xs ps"
  by (induction ps arbitrary: xs) auto

section \<open>Finish\<close>

lemma md5_finish_digest:
  assumes "md5_absorbed xs m"
  shows "md5_digest (md5_finish m) = rfc1321 xs"
proof -
  define n where "n = length xs mod 64"
  define t where "t = tail_of xs"
  define len where "len = store64 (word_of_nat (8 * length xs))"
  have n: "length t = n" "n < 64" "length len = 8" by (simp_all add: n_def t_def len_def length_tail)
  have a: "length (md5_in m) = 64" "md5_buf m = blocks rfc_block md5_iv xs" "take n (md5_in m) = t"
    "md5_bytes0 m = word_of_nat (length xs)" "md5_bytes1 m = word_of_nat (length xs div 2 ^ 32)"
    using assms n by (auto simp: md5_absorbed_def t_def)
  define z where "z = (if 55 < n then 63 - n else 55 - n)"
  define blk where "blk = put_at (put_at (md5_in m) n [0x80]) (n + 1) (replicate z 0)"
  have "take (n + 1) (put_at (md5_in m) n [0x80]) = t @ [0x80]"
    using take_put_at [of n "[0x80]" "md5_in m"] a(1,3) n(2) by simp
  then have blk: "take (n + 1 + z) blk = t @ [0x80] @ replicate z 0" "length blk = 64"
    using take_put_at [of "n + 1" "replicate z 0" "put_at (md5_in m) n [0x80]"] a(1) n(2)
    by (simp_all add: blk_def z_def)
  have put_len: "put_at (put_at b 56 (store32 (push_bit 3 (md5_bytes0 m)))) 60
      (store32 (push_bit 3 (md5_bytes1 m) OR drop_bit 29 (md5_bytes0 m))) = ys @ len"
    if "length b = 64" "take 56 b = ys" for b ys
  proof -
    have "len = store32 (push_bit 3 (md5_bytes0 m)) @ store32 (push_bit 3 (md5_bytes1 m) OR drop_bit 29 (md5_bytes0 m))"
      unfolding len_def a md5_bit_count ..
    moreover have "put_at (put_at b 56 v) 60 w = put_at b 56 (v @ w)" if "length v = 4" for v w
      using that by (simp add: put_at_append)
    ultimately show ?thesis
      using put_at_all [of 56 b ys len] that n(3) by auto
  qed
  have pos: "unat (md5_bytes0 m AND 0x3f) = n" unfolding a(4) n_def by (rule md5_position)
  have zeros: "(119 - n) mod 64 = (if 55 < n then 119 - n else 55 - n)"
    using n(2) by (auto simp: le_mod_geq)
  have pad: "blocks rfc_block md5_iv (rfc_pad xs) =
      blocks rfc_block (md5_buf m) (t @ [0x80] @ replicate (if 55 < n then 119 - n else 55 - n) 0 @ len)"
    unfolding rfc_pad_def n_def [symmetric] zeros a(2) len_def [symmetric] t_def by (rule blocks_append)
  have finish: "md5_digest (md5_finish m) =
      (case blocks rfc_block md5_iv (rfc_pad xs) of (a, b, c, d) \<Rightarrow> store32 a @ store32 b @ store32 c @ store32 d)"
  proof (cases "55 < n")
    case True
    have b: "blk = t @ [0x80] @ replicate (63 - n) 0" using blk True n by (simp add: z_def)
    have "take 56 (put_at blk 0 (replicate 56 0)) = replicate 56 0"
      using take_put_at [of 0 "replicate 56 0" blk] blk(2) by simp
    note l = put_len [of "put_at blk 0 (replicate 56 0)", OF _ this]
    have e: "replicate (119 - n) (0 :: byte) = replicate (63 - n) 0 @ replicate 56 0"
      unfolding replicate_add [symmetric] using True n(2) by (intro arg_cong2 [where f = replicate]) simp_all
    have "t @ [0x80] @ replicate (119 - n) 0 @ len = blk @ replicate 56 0 @ len"
      unfolding b e by (simp only: append_assoc)
    then have "blocks rfc_block md5_iv (rfc_pad xs) = blocks rfc_block (md5_buf m) (blk @ replicate 56 0 @ len)"
      unfolding pad using True by (simp only: if_True)
    also have "\<dots> = rfc_block (rfc_block (md5_buf m) blk) (replicate 56 0 @ len)"
      using blk(2) n(3) blocks_block [of blk rfc_block] blocks_block [of "replicate 56 0 @ len" rfc_block _ "[]"] by simp
    finally have "blocks rfc_block md5_iv (rfc_pad xs) = rfc_block (rfc_block (md5_buf m) blk) (replicate 56 0 @ len)" .
    moreover have "put_at (put_at (md5_in m) n [0x80]) (n + 1) (replicate (63 - n) 0) = blk"
      using True by (simp add: blk_def z_def)
    ultimately show ?thesis
      unfolding md5_finish_def Let_def pos
      using True l blk(2) by (simp add: transform_rfc split: prod.split)
  next
    case False
    have b: "take 56 blk = t @ [0x80] @ replicate (55 - n) 0" using blk False n by (simp add: z_def)
    note l = put_len [OF blk(2) b]
    have "blocks rfc_block md5_iv (rfc_pad xs) = rfc_block (md5_buf m) (t @ [0x80] @ replicate (55 - n) 0 @ len)"
      unfolding pad using False n blocks_block [of "t @ [0x80] @ replicate (55 - n) 0 @ len" rfc_block _ "[]"]
      by simp
    moreover have "put_at (put_at (md5_in m) n [0x80]) (n + 1) (replicate (55 - n) 0) = blk"
      using False by (simp add: blk_def z_def)
    ultimately show ?thesis
      unfolding md5_finish_def Let_def pos
      using False l by (simp add: transform_rfc split: prod.split)
  qed
  show ?thesis unfolding finish rfc1321_def ..
qed

end
