(* ===== verification/Sha1.thy ===== *)
theory Sha1
  imports BlockHash
begin

text \<open>
  The class \<^verbatim>\<open>sha1\<close> (\<^verbatim>\<open>stdlib/sha1.cpp\<close>), and the algorithm of FIPS 180-4 it computes.
\<close>

unbundle bit_operations_syntax

section \<open>The object\<close>

type_synonym sha1_regs = "u32 \<times> u32 \<times> u32 \<times> u32 \<times> u32"

record sha1 =
  sha1_h :: sha1_regs
  length_low :: u32
  length_high :: u32
  message_block :: "byte list"
  message_block_index :: nat
  computed :: bool
  corrupted :: bool

definition sha1_reset :: "sha1 \<Rightarrow> sha1" where
  "sha1_reset s = s\<lparr>length_low := 0, length_high := 0, message_block_index := 0,
     sha1_h := (0x67452301, 0xEFCDAB89, 0x98BADCFE, 0x10325476, 0xC3D2E1F0),
     computed := False, corrupted := False\<rparr>"

text \<open>The constructor resets; the block of 64 bytes is uninitialised.\<close>

definition sha1_new :: "byte list \<Rightarrow> sha1" where
  "sha1_new junk = sha1_reset \<lparr>sha1_h = (0, 0, 0, 0, 0), length_low = 0, length_high = 0,
     message_block = junk, message_block_index = 0, computed = False, corrupted = False\<rparr>"

section \<open>A block\<close>

definition circular_shift :: "nat \<Rightarrow> u32 \<Rightarrow> u32" where
  "circular_shift bits w = (push_bit bits w AND 0xFFFFFFFF) OR drop_bit (32 - bits) (w AND 0xFFFFFFFF)"

definition sha1_word :: "byte list \<Rightarrow> nat \<Rightarrow> u32" where
  "sha1_word blk t =
     push_bit 24 (ucast (blk ! (t * 4))) OR push_bit 16 (ucast (blk ! (t * 4 + 1))) OR
     push_bit 8 (ucast (blk ! (t * 4 + 2))) OR ucast (blk ! (t * 4 + 3))"

definition sha1_words :: "byte list \<Rightarrow> u32 list" where
  "sha1_words blk =
     fold (\<lambda>t W. W @ [circular_shift 1 (W ! (t - 3) XOR W ! (t - 8) XOR W ! (t - 14) XOR W ! (t - 16))])
       [16..<80] (map (sha1_word blk) [0..<16])"

definition sha1_turn :: "(u32 \<Rightarrow> u32 \<Rightarrow> u32 \<Rightarrow> u32) \<Rightarrow> u32 \<Rightarrow> u32 list \<Rightarrow> nat \<Rightarrow> sha1_regs \<Rightarrow> sha1_regs" where
  "sha1_turn f k W t = (\<lambda>(A, B, C, D, E).
     ((circular_shift 5 A + f B C D + E + W ! t + k) AND 0xFFFFFFFF, A, circular_shift 30 B, C, D))"

definition sha1_block :: "sha1_regs \<Rightarrow> byte list \<Rightarrow> sha1_regs" where
  "sha1_block h blk =
     (let W = sha1_words blk;
          r1 = fold (sha1_turn (\<lambda>B C D. (B AND C) OR (NOT B AND D)) 0x5A827999 W) [0..<20] h;
          r2 = fold (sha1_turn (\<lambda>B C D. B XOR C XOR D) 0x6ED9EBA1 W) [20..<40] r1;
          r3 = fold (sha1_turn (\<lambda>B C D. (B AND C) OR (B AND D) OR (C AND D)) 0x8F1BBCDC W) [40..<60] r2;
          r4 = fold (sha1_turn (\<lambda>B C D. B XOR C XOR D) 0xCA62C1D6 W) [60..<80] r3
      in case r4 of (A, B, C, D, E) \<Rightarrow> case h of (h0, h1, h2, h3, h4) \<Rightarrow>
           ((h0 + A) AND 0xFFFFFFFF, (h1 + B) AND 0xFFFFFFFF, (h2 + C) AND 0xFFFFFFFF,
            (h3 + D) AND 0xFFFFFFFF, (h4 + E) AND 0xFFFFFFFF))"

definition process_message_block :: "sha1 \<Rightarrow> sha1" where
  "process_message_block s = s\<lparr>sha1_h := sha1_block (sha1_h s) (message_block s), message_block_index := 0\<rparr>"

section \<open>Input\<close>

definition sha1_count :: "sha1 \<Rightarrow> sha1" where
  "sha1_count s =
     (let low = (length_low s + 8) AND 0xFFFFFFFF;
          high = (length_high s + 1) AND 0xFFFFFFFF
      in if low = 0
         then s\<lparr>length_low := low, length_high := high, corrupted := (high = 0 \<or> corrupted s)\<rparr>
         else s\<lparr>length_low := low\<rparr>)"

definition sha1_byte :: "byte \<Rightarrow> sha1 \<Rightarrow> sha1" where
  "sha1_byte b s =
     (let s1 = sha1_count (s\<lparr>message_block := (message_block s)[message_block_index s := b AND 0xFF],
                 message_block_index := message_block_index s + 1\<rparr>)
      in if message_block_index s1 = 64 then process_message_block s1 else s1)"

fun sha1_loop :: "byte list \<Rightarrow> sha1 \<Rightarrow> sha1" where
  "sha1_loop [] s = s"
| "sha1_loop (b # bs) s = (if corrupted s then s else sha1_loop bs (sha1_byte b s))"

text \<open>The first bytes of an array, as many as the length, an \<^verbatim>\<open>unsigned\<close>, says.\<close>

definition sha1_input :: "sha1 \<Rightarrow> byte list \<Rightarrow> u32 \<Rightarrow> sha1" where
  "sha1_input s message len =
     (if len = 0 then s
      else if computed s \<or> corrupted s then s\<lparr>corrupted := True\<rparr>
      else sha1_loop (take (unat len) message) s)"

definition sha1_input_char :: "sha1 \<Rightarrow> byte \<Rightarrow> sha1" where
  "sha1_input_char s c = sha1_input s [c] 1"

text \<open>The operator for strings: every character up to the terminating zero.\<close>

definition sha1_string :: "sha1 \<Rightarrow> byte list \<Rightarrow> sha1" where
  "sha1_string s message = foldl sha1_input_char s (cstr message)"

section \<open>Padding and the result\<close>

definition pad_message :: "sha1 \<Rightarrow> sha1" where
  "pad_message s =
     (let i = message_block_index s;
          s1 = (if i > 55
                then
                  (let s2 = process_message_block
                              (s\<lparr>message_block := put_at (message_block s) i (0x80 # replicate (63 - i) 0),
                                 message_block_index := 64\<rparr>)
                   in s2\<lparr>message_block := put_at (message_block s2) (message_block_index s2) (replicate 56 0),
                         message_block_index := 56\<rparr>)
                else s\<lparr>message_block := put_at (message_block s) i (0x80 # replicate (55 - i) 0),
                       message_block_index := 56\<rparr>);
          high = length_high s1;
          low = length_low s1
      in process_message_block
           (s1\<lparr>message_block := put_at (message_block s1) 56
             [ucast (drop_bit 24 high AND 0xFF), ucast (drop_bit 16 high AND 0xFF), ucast (drop_bit 8 high AND 0xFF), ucast (high AND 0xFF),
              ucast (drop_bit 24 low AND 0xFF), ucast (drop_bit 16 low AND 0xFF), ucast (drop_bit 8 low AND 0xFF), ucast (low AND 0xFF)]\<rparr>))"

text \<open>\<^const>\<open>None\<close> for the result false.\<close>

definition sha1_finished :: "sha1 \<Rightarrow> sha1" where
  "sha1_finished s = (if computed s then s else (pad_message s)\<lparr>computed := True\<rparr>)"

definition sha1_result2 :: "sha1 \<Rightarrow> sha1 \<times> sha1_regs option" where
  "sha1_result2 s = (if corrupted s then (s, None) else (sha1_finished s, Some (sha1_h (sha1_finished s))))"

definition sha1_result :: "sha1 \<Rightarrow> sha1 \<times> byte list option" where
  "sha1_result s =
     (if corrupted s then (s, None)
      else
        (sha1_finished s,
         Some (case sha1_h (sha1_finished s) of (h0, h1, h2, h3, h4) \<Rightarrow>
           map (\<lambda>i. ucast (drop_bit (8 * (3 - i mod 4)) ([h0, h1, h2, h3, h4] ! (i div 4)))) [0..<20])))"

section \<open>FIPS 180-4\<close>

definition fips_f :: "nat \<Rightarrow> u32 \<Rightarrow> u32 \<Rightarrow> u32 \<Rightarrow> u32" where
  "fips_f t x y z =
     (if t < 20 then (x AND y) XOR (NOT x AND z)
      else if t < 40 then x XOR y XOR z
      else if t < 60 then (x AND y) XOR (x AND z) XOR (y AND z)
      else x XOR y XOR z)"

definition fips_K :: "nat \<Rightarrow> u32" where
  "fips_K t = (if t < 20 then 0x5a827999 else if t < 40 then 0x6ed9eba1 else if t < 60 then 0x8f1bbcdc else 0xca62c1d6)"

text \<open>The message schedule, over the words of the block with the high byte first.\<close>

fun fips_W :: "byte list \<Rightarrow> nat \<Rightarrow> u32" where
  "fips_W blk t =
     (if t < 16 then load32 (rev (take 4 (drop (4 * t) blk)))
      else word_rotl 1 (fips_W blk (t - 3) XOR fips_W blk (t - 8) XOR fips_W blk (t - 14) XOR fips_W blk (t - 16)))"

definition fips_step :: "byte list \<Rightarrow> nat \<Rightarrow> sha1_regs \<Rightarrow> sha1_regs" where
  "fips_step blk t = (\<lambda>(a, b, c, d, e).
     (word_rotl 5 a + fips_f t b c d + e + fips_K t + fips_W blk t, a, word_rotl 30 b, c, d))"

definition fips_block :: "sha1_regs \<Rightarrow> byte list \<Rightarrow> sha1_regs" where
  "fips_block h blk =
     (case fold (fips_step blk) [0..<80] h of (a, b, c, d, e) \<Rightarrow>
        case h of (h0, h1, h2, h3, h4) \<Rightarrow> (h0 + a, h1 + b, h2 + c, h3 + d, h4 + e))"

definition fips_pad :: "byte list \<Rightarrow> byte list" where
  "fips_pad bs = bs @ [0x80] @ replicate ((119 - length bs mod 64) mod 64) 0 @ rev (store64 (word_of_nat (8 * length bs)))"

abbreviation sha1_iv :: sha1_regs where
  "sha1_iv \<equiv> (0x67452301, 0xefcdab89, 0x98badcfe, 0x10325476, 0xc3d2e1f0)"

definition fips_sha1 :: "byte list \<Rightarrow> byte list" where
  "fips_sha1 bs =
     (case blocks fips_block sha1_iv (fips_pad bs) of
        (a, b, c, d, e) \<Rightarrow> concat (map (\<lambda>w. rev (store32 w)) [a, b, c, d, e]))"

end
