(* ===== verification/Sha1Run.thy ===== *)
theory Sha1Run
  imports Sha1
begin

text \<open>The object after any calls of \<^verbatim>\<open>input\<close>, and the digest of the result.\<close>

section \<open>The block function is the one of the standard\<close>

lemma and_ones [simp]: "(w::u32) AND 0xFFFFFFFF = w"
proof -
  have "(0xFFFFFFFF :: u32) = - 1" by simp
  then show ?thesis by (simp only: and.right_neutral)
qed

lemma and_ff: "(b::byte) AND 0xFF = b"
  by simp

lemma circular_shift_rotl:
  assumes "0 < n" "n < 32"
  shows "circular_shift n w = word_rotl n w"
proof (rule bit_word_eqI)
  fix i
  assume i: "i < LENGTH(32)"
  have m: "(i + (32 - n mod 32)) mod 32 = (if n \<le> i then i - n else i + 32 - n)"
  proof (cases "n \<le> i")
    case True
    then have e: "i + (32 - n mod 32) = (i - n) + 32" using assms by simp
    show ?thesis unfolding e mod_add_self2 using True i by simp
  next
    case False
    then show ?thesis using assms by simp
  qed
  have m': "(i + (LENGTH(32) - n mod LENGTH(32))) mod LENGTH(32) = (if n \<le> i then i - n else i + 32 - n)"
    using m by simp
  show "bit (circular_shift n w) i \<longleftrightarrow> bit (word_rotl n w) i"
    unfolding circular_shift_def and_ones bit_word_rotl_iff m' bit_or_iff
  proof (cases "n \<le> i")
    case True
    have "\<not> bit w (32 - n + i)" using bit_imp_le_length [of w "32 - n + i"] True assms by auto
    then show "(bit (push_bit n w) i \<or> bit (drop_bit (32 - n) w) i) =
        (i < LENGTH(32) \<and> bit w (if n \<le> i then i - n else i + 32 - n))"
      using True i by (simp add: bit_push_bit_iff bit_drop_bit_eq)
  next
    case False
    have "32 - n + i = i + 32 - n" using assms by linarith
    then show "(bit (push_bit n w) i \<or> bit (drop_bit (32 - n) w) i) =
        (i < LENGTH(32) \<and> bit w (if n \<le> i then i - n else i + 32 - n))"
      using False i by (simp add: bit_push_bit_iff bit_drop_bit_eq)
  qed
qed

lemma load32_rev:
  "load32 (rev [a, b, c, d]) = push_bit 24 (ucast a) OR push_bit 16 (ucast b) OR push_bit 8 (ucast c) OR ucast d"
  by (simp add: load32_def push_bit_or ac_simps)

declare fips_W.simps [simp del]

lemma fips_W_less: "t < 16 \<Longrightarrow> fips_W blk t = load32 (rev (take 4 (drop (4 * t) blk)))"
  by (subst fips_W.simps) simp

lemma fips_W_more:
  "16 \<le> t \<Longrightarrow> fips_W blk t =
     word_rotl 1 (fips_W blk (t - 3) XOR fips_W blk (t - 8) XOR fips_W blk (t - 14) XOR fips_W blk (t - 16))"
  by (subst fips_W.simps) simp

lemma sha1_word_fips:
  assumes "length blk = 64" "t < 16"
  shows "sha1_word blk t = fips_W blk t"
proof -
  have "take 4 (drop (4 * t) blk) = [blk ! (t * 4), blk ! (t * 4 + 1), blk ! (t * 4 + 2), blk ! (t * 4 + 3)]"
    using assms by (intro nth_equalityI) (auto simp: less_Suc_eq numeral_eq_Suc ac_simps)
  then show ?thesis unfolding fips_W_less [OF assms(2)] by (simp only: load32_rev sha1_word_def)
qed

lemma sha1_words_fips:
  assumes "length blk = 64"
  shows "sha1_words blk = map (fips_W blk) [0..<80]"
proof -
  have gen: "fold (\<lambda>t W. W @ [circular_shift 1 (W ! (t - 3) XOR W ! (t - 8) XOR W ! (t - 14) XOR W ! (t - 16))])
      [16..<16 + n] (map (sha1_word blk) [0..<16]) = map (fips_W blk) [0..<16 + n]" for n
  proof (induction n)
    case 0
    then show ?case using sha1_word_fips [OF assms] by simp
  next
    case (Suc n)
    have u: "[lo..<16 + Suc n] = [lo..<16 + n] @ [16 + n]" if "lo \<le> 16" for lo
      unfolding add_Suc_right by (rule upt_Suc_append) (use that in simp)
    have W: "map (fips_W blk) [0..<16 + n] ! (16 + n - k) = fips_W blk (16 + n - k)" if "0 < k" "k \<le> 16" for k
      using that by (simp add: nth_map_upt [of "16 + n - k" "16 + n" 0] del: upt_Suc)
    have Ws: "map (fips_W blk) [0..<16 + n] ! (16 + n - 3) = fips_W blk (16 + n - 3)"
      "map (fips_W blk) [0..<16 + n] ! (16 + n - 8) = fips_W blk (16 + n - 8)"
      "map (fips_W blk) [0..<16 + n] ! (16 + n - 14) = fips_W blk (16 + n - 14)"
      "map (fips_W blk) [0..<16 + n] ! (16 + n - 16) = fips_W blk (16 + n - 16)"
      by (rule W; simp)+
    have e: "circular_shift 1 (fips_W blk (16 + n - 3) XOR fips_W blk (16 + n - 8) XOR
        fips_W blk (16 + n - 14) XOR fips_W blk (16 + n - 16)) = fips_W blk (16 + n)"
      unfolding fips_W_more [OF le_add1] by (rule circular_shift_rotl) simp_all
    show ?case
      unfolding u [OF order_refl] u [OF zero_le] fold_append map_append comp_apply Suc
      by (simp only: fold_simps Ws e list.map)
  qed
  have e: "(16::nat) + 64 = 80" by simp
  show ?thesis using gen [of 64] unfolding sha1_words_def e .
qed

lemma sha1_turns:
  assumes "length blk = 64" "hi \<le> 80"
    and "\<And>t. lo \<le> t \<Longrightarrow> t < hi \<Longrightarrow> f = fips_f t \<and> k = fips_K t"
  shows "fold (sha1_turn f k (sha1_words blk)) [lo..<hi] h = fold (fips_step blk) [lo..<hi] h"
proof (rule fold_cong)
  fix t
  assume t: "t \<in> set [lo..<hi]"
  then have "f = fips_f t" "k = fips_K t" "map (fips_W blk) [0..<80] ! t = fips_W blk t" using assms(2) assms(3) [of t] by auto
  then show "sha1_turn f k (sha1_words blk) t = fips_step blk t"
    unfolding sha1_words_fips [OF assms(1)]
    by (auto simp: sha1_turn_def fips_step_def circular_shift_rotl fun_eq_iff ac_simps)
qed simp_all

lemma fips_f_forms:
  "t < 20 \<Longrightarrow> (\<lambda>B C D. (B AND C) OR (NOT B AND D)) = fips_f t"
  "40 \<le> t \<Longrightarrow> t < 60 \<Longrightarrow> (\<lambda>B C D. (B AND C) OR (B AND D) OR (C AND D)) = fips_f t"
  by (auto simp: fips_f_def fun_eq_iff bit_eq_iff bit_simps)

lemma sha1_block_fips: "length blk = 64 \<Longrightarrow> sha1_block h blk = fips_block h blk"
proof -
  assume l: "length blk = 64"
  have u: "[0..<80] = [0..<20] @ [20..<40] @ [40..<60] @ [60..<80]"
    using upt_add_eq_append [of 0 20 60] upt_add_eq_append [of 20 40 40] upt_add_eq_append [of 40 60 20] by simp
  have "fold (sha1_turn (\<lambda>B C D. (B AND C) OR (NOT B AND D)) 0x5A827999 (sha1_words blk)) [0..<20] r =
      fold (fips_step blk) [0..<20] r" for r
    by (rule sha1_turns [OF l]) (simp_all add: fips_f_forms fips_K_def)
  moreover have "fold (sha1_turn (\<lambda>B C D. B XOR C XOR D) 0x6ED9EBA1 (sha1_words blk)) [20..<40] r =
      fold (fips_step blk) [20..<40] r" for r
    by (rule sha1_turns [OF l]) (auto simp: fips_f_def fips_K_def fun_eq_iff)
  moreover have "fold (sha1_turn (\<lambda>B C D. (B AND C) OR (B AND D) OR (C AND D)) 0x8F1BBCDC (sha1_words blk)) [40..<60] r =
      fold (fips_step blk) [40..<60] r" for r
    by (rule sha1_turns [OF l]) (simp_all add: fips_f_forms fips_K_def)
  moreover have "fold (sha1_turn (\<lambda>B C D. B XOR C XOR D) 0xCA62C1D6 (sha1_words blk)) [60..<80] r =
      fold (fips_step blk) [60..<80] r" for r
    by (rule sha1_turns [OF l]) (auto simp: fips_f_def fips_K_def fun_eq_iff)
  ultimately show ?thesis
    unfolding sha1_block_def fips_block_def Let_def u fold_append comp_apply and_ones by simp
qed

section \<open>Input\<close>

definition sha1_absorbed :: "byte list \<Rightarrow> sha1 \<Rightarrow> bool" where
  "sha1_absorbed xs s \<longleftrightarrow>
     \<not> computed s \<and> \<not> corrupted s \<and> length (message_block s) = 64 \<and>
     message_block_index s = length xs mod 64 \<and> take (length xs mod 64) (message_block s) = tail_of xs \<and>
     sha1_h s = blocks fips_block sha1_iv xs \<and> 8 * length xs < 2 ^ 64 \<and>
     length_low s = word_of_nat (8 * length xs) \<and> length_high s = word_of_nat (8 * length xs div 2 ^ 32)"

lemma sha1_new_absorbed: "length junk = 64 \<Longrightarrow> sha1_absorbed [] (sha1_new junk)"
  by (simp add: sha1_absorbed_def sha1_new_def sha1_reset_def)

lemma sha1_count_words:
  assumes "length_low s = word_of_nat (8 * n)" "length_high s = word_of_nat (8 * n div 2 ^ 32)"
    and "8 * Suc n < 2 ^ 64"
  shows "sha1_count s = s\<lparr>length_low := word_of_nat (8 * Suc n), length_high := word_of_nat (8 * Suc n div 2 ^ 32)\<rparr>"
proof -
  define M where "M = (2::nat) ^ 29"
  have d: "8 * m div 2 ^ 32 = m div M" for m :: nat by (simp add: M_def)
  have z: "(word_of_nat (8 * Suc n) :: u32) = 0 \<longleftrightarrow> M dvd Suc n"
  proof -
    have "(word_of_nat (8 * Suc n) :: u32) = 0 \<longleftrightarrow> 2 ^ 32 dvd 8 * Suc n"
      unfolding word_of_nat_eq_0_iff by simp
    also have "\<dots> \<longleftrightarrow> 8 * M dvd 8 * Suc n" by (simp add: M_def)
    finally show ?thesis by (simp only: nat_mult_dvd_cancel_disj) simp
  qed
  have low: "length_low s + 8 = word_of_nat (8 * Suc n)" using assms(1) by (simp add: algebra_simps)
  show ?thesis
  proof (cases "M dvd Suc n")
    case True
    then have q: "Suc n div M = Suc (n div M)" by (simp add: div_Suc dvd_eq_mod_eq_0)
    have "Suc n div M < 2 ^ 32"
    proof -
      have "Suc n < M * 2 ^ 32" using assms(3) by (simp add: M_def)
      then show ?thesis by (simp add: less_mult_imp_div_less mult.commute)
    qed
    then have "(word_of_nat (Suc (n div M)) :: u32) \<noteq> 0"
      unfolding q word_of_nat_eq_0_iff by (auto dest: dvd_imp_le)
    moreover have "length_high s + 1 = word_of_nat (8 * Suc n div 2 ^ 32)" "length_high s + 1 = word_of_nat (Suc (n div M))"
      using assms(2) unfolding d q by (simp_all add: add.commute)
    ultimately show ?thesis
      unfolding sha1_count_def low and_ones Let_def using True z by simp
  next
    case False
    then have "Suc n div M = n div M" by (simp add: div_Suc dvd_eq_mod_eq_0)
    then have "length_high s = word_of_nat (8 * Suc n div 2 ^ 32)" using assms(2) unfolding d by simp
    then show ?thesis unfolding sha1_count_def low and_ones Let_def using False z by simp
  qed
qed

lemma sha1_byte_absorbed:
  assumes "sha1_absorbed xs s" "8 * Suc (length xs) < 2 ^ 64"
  shows "sha1_absorbed (xs @ [b]) (sha1_byte b s)"
proof -
  define n where "n = length xs mod 64"
  have n: "n < 64" "length (tail_of xs) = n" by (simp_all add: n_def length_tail)
  have a: "\<not> computed s" "\<not> corrupted s" "length (message_block s) = 64" "message_block_index s = n"
    "take n (message_block s) = tail_of xs" "sha1_h s = blocks fips_block sha1_iv xs"
    "length_low s = word_of_nat (8 * length xs)" "length_high s = word_of_nat (8 * length xs div 2 ^ 32)"
    using assms(1) by (auto simp: sha1_absorbed_def n_def)
  define blk where "blk = (message_block s)[n := b]"
  define s0 where "s0 = s\<lparr>message_block := blk, message_block_index := n + 1\<rparr>"
  define s1 where "s1 = s0\<lparr>length_low := word_of_nat (8 * Suc (length xs)), length_high := word_of_nat (8 * Suc (length xs) div 2 ^ 32)\<rparr>"
  have c: "sha1_count s0 = s1"
    unfolding s1_def by (rule sha1_count_words) (use a assms(2) in \<open>simp_all add: s0_def\<close>)
  have i: "s\<lparr>message_block := (message_block s)[message_block_index s := b AND 0xFF],
      message_block_index := message_block_index s + 1\<rparr> = s0"
    unfolding s0_def blk_def a(4) and_ff ..
  have "message_block_index s1 = n + 1" by (simp add: s1_def s0_def)
  then have byte: "sha1_byte b s = (if n + 1 = 64 then process_message_block s1 else s1)"
    unfolding sha1_byte_def i c Let_def by simp
  have blk: "take (n + 1) blk = tail_of xs @ [b]" "length blk = 64"
    using a(3,5) n by (simp_all add: blk_def take_Suc_conv_app_nth)
  have len: "length (xs @ [b]) = Suc (length xs)" by simp
  have t: "tail_of (xs @ [b]) = tail_of (tail_of xs @ [b])"
    "blocks fips_block sha1_iv (xs @ [b]) = blocks fips_block (sha1_h s) (tail_of xs @ [b])"
    by (simp_all add: tail_append [of xs] blocks_append [of _ _ xs] a(6))
  show ?thesis
  proof (cases "n + 1 = 64")
    case True
    then have b: "tail_of xs @ [b] = blk" using blk by simp
    have "Suc (length xs) mod 64 = 0" using True by (simp add: n_def mod_Suc)
    moreover have "tail_of blk = []" "blocks fips_block (sha1_h s) blk = fips_block (sha1_h s) blk"
      using tail_block [OF blk(2), of "[]"] blocks_block [OF blk(2), of fips_block "sha1_h s" "[]"] by simp_all
    ultimately show ?thesis
      unfolding sha1_absorbed_def len byte t b
      using True a assms(2) blk(2) by (simp add: process_message_block_def s1_def s0_def sha1_block_fips)
  next
    case False
    then have m: "Suc (length xs) mod 64 = n + 1" using n by (simp add: n_def mod_Suc)
    have "tail_of (tail_of xs @ [b]) = tail_of xs @ [b]" "blocks fips_block (sha1_h s) (tail_of xs @ [b]) = sha1_h s"
      using n False by simp_all
    then show ?thesis
      unfolding sha1_absorbed_def len byte t m
      using False a(1-3) assms(2) blk by (simp add: s1_def s0_def)
  qed
qed

lemma sha1_loop_absorbed:
  "sha1_absorbed xs s \<Longrightarrow> 8 * length (xs @ ys) < 2 ^ 64 \<Longrightarrow> sha1_absorbed (xs @ ys) (sha1_loop ys s)"
proof (induction ys arbitrary: xs s)
  case (Cons y ys)
  have "sha1_absorbed (xs @ [y]) (sha1_byte y s)"
    by (rule sha1_byte_absorbed) (use Cons.prems in simp_all)
  moreover have "\<not> corrupted s" using Cons.prems(1) by (simp add: sha1_absorbed_def)
  ultimately show ?case using Cons.IH [of "xs @ [y]" "sha1_byte y s"] Cons.prems(2) by simp
qed simp

text \<open>A piece with its length.\<close>

definition sha1_feed :: "sha1 \<Rightarrow> byte list \<Rightarrow> sha1" where
  "sha1_feed s piece = sha1_input s piece (word_of_nat (length piece))"

definition sha1_fits :: "byte list \<Rightarrow> byte list \<Rightarrow> bool" where
  "sha1_fits xs ys \<longleftrightarrow> 8 * length (xs @ ys) < 2 ^ 64 \<and> length ys < 2 ^ 32"

lemma sha1_feed_absorbed:
  assumes "sha1_absorbed xs s" "sha1_fits xs ys"
  shows "sha1_absorbed (xs @ ys) (sha1_feed s ys)"
proof -
  have n: "unat (word_of_nat (length ys) :: u32) = length ys"
    using assms(2) by (simp add: sha1_fits_def unat_of_nat take_bit_nat_eq_self)
  then have "(word_of_nat (length ys) :: u32) = 0 \<longleftrightarrow> ys = []" by (metis unat_0 unat_eq_zero length_0_conv)
  then show ?thesis
    using sha1_loop_absorbed [OF assms(1), of ys] assms n
    by (auto simp: sha1_feed_def sha1_input_def sha1_absorbed_def sha1_fits_def)
qed

interpretation sha1_msg: absorber sha1_absorbed sha1_feed sha1_fits
  by unfold_locales (rule sha1_feed_absorbed)

lemma sha1_pieces_ok:
  "8 * length (xs @ concat ps) < 2 ^ 64 \<Longrightarrow> \<forall>p \<in> set ps. length p < 2 ^ 32 \<Longrightarrow> pieces_ok sha1_fits xs ps"
  by (induction ps arbitrary: xs) (auto simp: sha1_fits_def)

section \<open>The result\<close>

lemma be_length:
  "[ucast (drop_bit 24 high AND 0xFF), ucast (drop_bit 16 high AND 0xFF), ucast (drop_bit 8 high AND 0xFF), ucast (high AND 0xFF),
    ucast (drop_bit 24 low AND 0xFF), ucast (drop_bit 16 low AND 0xFF), ucast (drop_bit 8 low AND 0xFF), ucast (low AND 0xFF)] =
   rev (store32 (low :: u32) @ store32 high)"
proof -
  have m: "(0xFF :: u32) = mask 8" by (simp add: mask_eq_exp_minus_1)
  have "(ucast (w AND 0xFF) :: byte) = ucast (w :: u32)" for w
    unfolding m by (rule bit_word_eqI) (simp add: bit_unsigned_iff bit_and_iff bit_mask_iff)
  then show ?thesis by (simp only: store32_def) (simp add: upt_rec)
qed

lemma sha1_pad_result:
  assumes "sha1_absorbed xs s"
  shows "sha1_h (pad_message s) = blocks fips_block sha1_iv (fips_pad xs)"
proof -
  define n where "n = length xs mod 64"
  define t where "t = tail_of xs"
  define len where "len = rev (store64 (word_of_nat (8 * length xs)))"
  have n: "length t = n" "n < 64" "length len = 8" by (simp_all add: n_def t_def len_def length_tail)
  have a: "length (message_block s) = 64" "message_block_index s = n" "take n (message_block s) = t"
    "sha1_h s = blocks fips_block sha1_iv xs"
    "length_low s = word_of_nat (8 * length xs)" "length_high s = word_of_nat (8 * length xs div 2 ^ 32)"
    using assms by (auto simp: sha1_absorbed_def n_def t_def)
  have len: "rev (store32 (length_low s) @ store32 (length_high s)) = len"
    unfolding len_def a store64_of_nat ..
  have zeros: "(119 - n) mod 64 = (if 55 < n then 119 - n else 55 - n)"
    using n(2) by (auto simp: le_mod_geq)
  have pad: "blocks fips_block sha1_iv (fips_pad xs) =
      blocks fips_block (sha1_h s) (t @ [0x80] @ replicate (if 55 < n then 119 - n else 55 - n) 0 @ len)"
    unfolding fips_pad_def n_def [symmetric] zeros a(4) len_def [symmetric] t_def by (rule blocks_append)
  show ?thesis
  proof (cases "55 < n")
    case True
    define blk where "blk = put_at (message_block s) n (0x80 # replicate (63 - n) 0)"
    have b: "blk = t @ [0x80] @ replicate (63 - n) 0" "length blk = 64"
      using put_at_all [of n "message_block s" t "0x80 # replicate (63 - n) 0"] a n True by (simp_all add: blk_def)
    have "take 56 (put_at blk 0 (replicate 56 0)) = replicate 56 0"
      using take_put_at [of 0 "replicate 56 0" blk] b(2) by simp
    then have p: "put_at (put_at blk 0 (replicate 56 0)) 56 len = replicate 56 0 @ len"
      using b(2) n(3) by (intro put_at_all) simp_all
    have e: "replicate (119 - n) (0 :: byte) = replicate (63 - n) 0 @ replicate 56 0"
      unfolding replicate_add [symmetric] using True n(2) by (intro arg_cong2 [where f = replicate]) simp_all
    have "t @ [0x80] @ replicate (119 - n) 0 @ len = blk @ replicate 56 0 @ len"
      unfolding b(1) e by (simp only: append_assoc)
    then have "blocks fips_block sha1_iv (fips_pad xs) = blocks fips_block (sha1_h s) (blk @ replicate 56 0 @ len)"
      unfolding pad using True by (simp only: if_True)
    also have "\<dots> = fips_block (fips_block (sha1_h s) blk) (replicate 56 0 @ len)"
      using b(2) n(3) blocks_block [of blk fips_block] blocks_block [of "replicate 56 0 @ len" fips_block _ "[]"] by simp
    finally show ?thesis
      unfolding pad_message_def Let_def a(2) be_length using True p len b(2) n(3)
      by (simp add: process_message_block_def blk_def [symmetric] sha1_block_fips)
  next
    case False
    define blk where "blk = put_at (message_block s) n (0x80 # replicate (55 - n) 0)"
    have "take (n + length ((0x80 :: byte) # replicate (55 - n) (0 :: byte))) blk = t @ (0x80 :: byte) # replicate (55 - n) 0"
      unfolding blk_def a(3) [symmetric] by (rule take_put_at) (use a(1) False in simp)
    then have b: "take 56 blk = t @ [0x80] @ replicate (55 - n) 0" "length blk = 64"
      using a False by (simp_all add: blk_def)
    have p: "put_at blk 56 len = (t @ [0x80] @ replicate (55 - n) 0) @ len"
      using b n False by (intro put_at_all) simp_all
    have "blocks fips_block sha1_iv (fips_pad xs) = fips_block (sha1_h s) ((t @ [0x80] @ replicate (55 - n) 0) @ len)"
      unfolding pad using False n blocks_block [of "(t @ [0x80] @ replicate (55 - n) 0) @ len" fips_block _ "[]"]
      by simp
    then show ?thesis
      unfolding pad_message_def Let_def a(2) be_length using False p len n
      by (simp add: process_message_block_def blk_def [symmetric] sha1_block_fips)
  qed
qed

lemma sha1_bytes_out:
  "(case h of (h0, h1, h2, h3, h4) \<Rightarrow>
      map (\<lambda>i. (ucast (drop_bit (8 * (3 - i mod 4)) ([h0, h1, h2, h3, h4] ! (i div 4))) :: byte)) [0..<20]) =
   (case h of (a, b, c, d, e) \<Rightarrow> concat (map (\<lambda>w. rev (store32 w)) [a, b, c, d, e]))"
  by (simp add: store32_def upt_rec split: prod.split)

lemma sha1_result_digest:
  assumes "sha1_absorbed xs s"
  shows "snd (sha1_result s) = Some (fips_sha1 xs)"
proof -
  have "\<not> corrupted s" "\<not> computed s" using assms by (simp_all add: sha1_absorbed_def)
  then show ?thesis
    unfolding sha1_result_def sha1_bytes_out fips_sha1_def
    using sha1_pad_result [OF assms] by (simp add: sha1_finished_def)
qed

end
