(* ===== verification/HashProperties.thy ===== *)
theory HashProperties
  imports Md5Run Sha1Run
begin

text \<open>The properties of the two digest classes.\<close>

section \<open>The digest as text\<close>

text \<open>Lower-case hexadecimal digits, the high one of each byte first.\<close>

definition hex_of :: "byte list \<Rightarrow> byte list" where
  "hex_of bs = concat (map (\<lambda>b. [hexdigit (drop_bit 4 b), hexdigit (b AND 0xf)]) bs)"

lemma low_nibble: "drop_bit 4 (push_bit 4 (b :: byte)) = b AND 0xf"
  by (rule byte_eqI; simp only: byte_bits; elim insertE emptyE; simp add: byte_high)

lemma length_hex_of [simp]: "length (hex_of bs) = 2 * length bs"
  by (induction bs) (simp_all add: hex_of_def)

lemma hex_loop_digits:
  assumes "length buf = 34" "i + length ds \<le> 16"
  shows "\<exists>buf'. hex_loop buf i ds = Some buf' \<and> length buf' = 34 \<and>
    take (2 * (i + length ds)) buf' = take (2 * i) buf @ hex_of ds"
  using assms
proof (induction ds arbitrary: buf i)
  case Nil
  then show ?case by (simp add: hex_of_def)
next
  case (Cons d ds)
  define b1 where "b1 = put_at buf (2 * i) (sprintf_02x d)"
  define b2 where "b2 = put_at b1 (2 * i + 1) (sprintf_02x (push_bit 4 d))"
  have l: "length (sprintf_02x e) = 3" for e by (simp add: sprintf_02x_def)
  have p: "poke buf (2 * i) (sprintf_02x d) = Some b1" "poke b1 (2 * i + 1) (sprintf_02x (push_bit 4 d)) = Some b2"
    "length b1 = 34" "length b2 = 34"
    using Cons.prems by (simp_all add: poke_def l b1_def b2_def)
  have t: "take m (put_at b n xs) = take m (take n b @ xs)" if "m \<le> n + length xs" "n + length xs \<le> length b" for m n b and xs :: "byte list"
    using take_put_at [OF that(2)] that(1) by (metis take_take min.absorb1)
  have "take (2 * i + 1) b1 = take (2 * i) buf @ [hexdigit (drop_bit 4 d)]"
    using t [of "2 * i + 1" "2 * i" "sprintf_02x d" buf] Cons.prems by (simp add: b1_def sprintf_02x_def)
  then have "take (2 * Suc i) b2 = take (2 * i) buf @ [hexdigit (drop_bit 4 d), hexdigit (d AND 0xf)]"
    using t [of "2 * Suc i" "2 * i + 1" "sprintf_02x (push_bit 4 d)" b1] Cons.prems p(3)
    by (simp add: b2_def sprintf_02x_def low_nibble)
  then show ?case
    using Cons.IH [of b2 "Suc i"] p Cons.prems(2) by (simp add: hex_of_def)
qed

lemma hex_encode_digits:
  assumes "length junk = 34" "length digest = 16" "33 \<le> n"
  shows "hex_encode junk digest n = Some (hex_of digest @ [0])"
  using hex_loop_digits [of junk 0 digest] assms by (auto simp: hex_encode_def)

lemma length_rfc1321 [simp]: "length (rfc1321 bs) = 16"
  by (simp add: rfc1321_def split: prod.split)

lemma hex_needs_34: "length junk = 33 \<Longrightarrow> hex_loop junk 15 [d] = None"
  by (simp add: poke_def sprintf_02x_def)

section \<open>MD5\<close>

text \<open>C15: for a message given in pieces of less than 4 GiB each, the digest of the object is the one
  of RFC 1321 for the whole message.\<close>

theorem md5_any_pieces:
  assumes "\<forall>p \<in> set ps. length p < 2 ^ 32"
  shows "md5_digest (md5_finish (foldl md5_update (md5_new junk) ps)) = rfc1321 (concat ps)"
  using md5_msg.absorbed_pieces [OF md5_new_absorbed md5_pieces_ok [OF assms]] md5_finish_digest by fastforce

theorem md5_any_pieces_witness:
  "md5_digest (md5_finish (foldl md5_update (md5_new (replicate 16 7)) [[97], [], [98, 99]])) =
   [0x90, 0x01, 0x50, 0x98, 0x3c, 0xd2, 0x4f, 0xb0, 0xd6, 0x96, 0x3f, 0x7d, 0x28, 0xe1, 0x7f, 0x72]"
  using md5_any_pieces [of "[[97], [], [98, 99]]" "replicate 16 7"] rfc1321_abc by simp

text \<open>The text of a keyed digest is the 32 hexadecimal digits of the digest of the key followed by
  the data, and a zero, and nothing is written past the 34 bytes of the local buffer.\<close>

lemma md5_string_digits:
  assumes "length junk34 = 34" and "33 \<le> out_size"
    and "length dat < 2 ^ 32" and "length (case key of None \<Rightarrow> [] | Some k \<Rightarrow> k) < 2 ^ 32"
  shows "md5_string junk junk34 dat key out_size =
    Some (hex_of (rfc1321 ((case key of None \<Rightarrow> [] | Some k \<Rightarrow> k) @ dat)) @ [0])"
proof -
  have "md5_absorbed (case key of None \<Rightarrow> [] | Some k \<Rightarrow> k) (md5_keyed junk key)"
    using md5_update_absorbed [OF md5_new_absorbed assms(4)] md5_new_absorbed
    by (auto simp: md5_keyed_def split: option.split)
  from md5_finish_digest [OF md5_update_absorbed [OF this assms(3)]] show ?thesis
    unfolding md5_string_def using assms(1,2) by (simp add: hex_encode_digits)
qed

section \<open>SHA-1\<close>

text \<open>For a message of less than two to the 61 bytes, in any pieces of less than 4 GiB, the result is the SHA-1 digest
  of FIPS 180-4.\<close>

lemma sha1_any_pieces:
  assumes "length junk = 64" and "length (concat ps) < 2 ^ 61" and "\<forall>p \<in> set ps. length p < 2 ^ 32"
  shows "snd (sha1_result (foldl sha1_feed (sha1_new junk) ps)) = Some (fips_sha1 (concat ps))"
proof -
  have "8 * length ([] @ concat ps) < 2 ^ 64" using assms(2) by simp
  from sha1_msg.absorbed_pieces [OF sha1_new_absorbed [OF assms(1)] sha1_pieces_ok [OF this assms(3)]]
  show ?thesis using sha1_result_digest by fastforce
qed

text \<open>Once the result has been taken it can be taken again and is the same, but more input spoils
  the object: from then on there is no result, until it is reset.\<close>

lemma sha1_input_after_result:
  assumes "\<not> corrupted s" and "len \<noteq> 0"
  shows "sha1_result (fst (sha1_result s)) = sha1_result s \<and>
    (let t = sha1_input (fst (sha1_result s)) message len in
       sha1_result t = (t, None) \<and> sha1_result2 t = (t, None) \<and>
       (\<forall>more. corrupted (foldl sha1_feed t more)))"
proof -
  have f: "computed (sha1_finished s)" "\<not> corrupted (sha1_finished s)"
    using assms(1) by (auto simp: sha1_finished_def pad_message_def process_message_block_def Let_def)
  have stay: "corrupted (foldl sha1_feed t more)" if "corrupted t" for t more
    using that by (induction more arbitrary: t) (auto simp: sha1_feed_def sha1_input_def)
  show ?thesis
    using assms f stay by (simp add: sha1_result_def sha1_result2_def sha1_input_def Let_def sha1_finished_def [of "sha1_finished s"])
qed

end
