(* ===== verification/Timers.thy ===== *)
theory Timers
  imports AclPrelude "HOL-Library.Multiset"
begin

text \<open>
  What the two timer classes share (\<^verbatim>\<open>event/event_timer.cpp\<close> and \<^verbatim>\<open>stream/aio_timer_callback.cpp\<close>): the
  list of tasks, ordered by the time they are due. Times are microseconds, below the range of
  \<^verbatim>\<open>acl_int64\<close>. The clock is a parameter, a function on the state of the world.
\<close>

record timer_task =
  task_id :: u32
  task_delay :: int
  task_when :: int

record timer =
  tm_tasks :: "timer_task list"
  tm_length :: nat
  tm_present :: int
  tm_keep :: bool

type_synonym 'w clock = "'w \<Rightarrow> int \<times> 'w"

section \<open>The list of tasks\<close>

fun insert_task :: "timer_task \<Rightarrow> timer_task list \<Rightarrow> timer_task list" where
  "insert_task t [] = [t]"
| "insert_task t (x # xs) = (if task_when t < task_when x then t # x # xs else x # insert_task t xs)"

text \<open>The first task with the id, and the list without it.\<close>

fun find_task :: "u32 \<Rightarrow> timer_task list \<Rightarrow> timer_task option \<times> timer_task list" where
  "find_task i [] = (None, [])"
| "find_task i (x # xs) = (if task_id x = i then (Some x, xs) else (case find_task i xs of (f, ys) \<Rightarrow> (f, x # ys)))"

fun take_due :: "int \<Rightarrow> timer_task list \<Rightarrow> timer_task list \<times> timer_task list" where
  "take_due now [] = ([], [])"
| "take_due now (x # xs) =
     (if task_when x > now then ([], x # xs) else (case take_due now xs of (ys, zs) \<Rightarrow> (x # ys, zs)))"

definition timer_set_time :: "int \<Rightarrow> 'a timer_scheme \<Rightarrow> 'a timer_scheme" where
  "timer_set_time now t = t\<lparr>tm_present := now\<rparr>"

text \<open>\<^verbatim>\<open>clear\<close>: the number of tasks that were removed.\<close>

definition timer_clear :: "'a timer_scheme \<Rightarrow> 'a timer_scheme \<times> nat" where
  "timer_clear t = (t\<lparr>tm_tasks := [], tm_length := 0\<rparr>, length (tm_tasks t))"

definition timer_keep :: "bool \<Rightarrow> 'a timer_scheme \<Rightarrow> 'a timer_scheme" where
  "timer_keep on t = t\<lparr>tm_keep := on\<rparr>"

definition timer_empty :: "'a timer_scheme \<Rightarrow> bool" where
  "timer_empty t \<longleftrightarrow> tm_tasks t = []"

definition TIMER_EMPTY :: int where "TIMER_EMPTY = -1"

section \<open>The invariant\<close>

definition by_when :: "timer_task list \<Rightarrow> bool" where
  "by_when xs \<longleftrightarrow> sorted (map task_when xs)"

definition timer_ok :: "'a timer_scheme \<Rightarrow> bool" where
  "timer_ok t \<longleftrightarrow> by_when (tm_tasks t) \<and> tm_length t = length (tm_tasks t)"

lemma by_when_simps [simp]:
  "by_when []" "by_when (x # xs) \<longleftrightarrow> (\<forall>y \<in> set xs. task_when x \<le> task_when y) \<and> by_when xs"
  by (auto simp: by_when_def)

lemma mset_insert_task [simp]: "mset (insert_task t xs) = add_mset t (mset xs)"
  by (induction xs) auto

lemma set_insert_task [simp]: "set (insert_task t xs) = insert t (set xs)"
  using mset_insert_task [of t xs] by (metis set_mset_add_mset_insert set_mset_mset)

lemma length_insert_task [simp]: "length (insert_task t xs) = Suc (length xs)"
  using mset_insert_task [of t xs] by (metis size_add_mset size_mset)

lemma insert_task_not_Nil [simp]: "insert_task t xs \<noteq> []"
  by (cases xs) auto

lemma by_when_insert [simp]: "by_when xs \<Longrightarrow> by_when (insert_task t xs)"
  by (induction xs) auto

lemma find_task_some:
  "find_task i xs = (Some x, ys) \<Longrightarrow> mset xs = add_mset x (mset ys) \<and> task_id x = i \<and> (by_when xs \<longrightarrow> by_when ys)"
proof (induction xs arbitrary: ys)
  case (Cons a xs)
  show ?case
  proof (cases "task_id a = i")
    case False
    then obtain zs where "find_task i xs = (Some x, zs)" "ys = a # zs"
      using Cons.prems by (auto split: prod.splits)
    with Cons.IH [of zs] have "mset xs = add_mset x (mset zs)" "task_id x = i" "by_when xs \<longrightarrow> by_when zs" by auto
    moreover have "set zs \<subseteq> set xs" using calculation(1) by (metis insert_subset order_refl set_mset_add_mset_insert set_mset_mset)
    ultimately show ?thesis using \<open>ys = a # zs\<close> by auto
  qed (use Cons.prems in auto)
qed simp

lemma find_task_none: "find_task i xs = (None, ys) \<Longrightarrow> ys = xs \<and> i \<notin> task_id ` set xs"
  by (induction xs arbitrary: ys) (auto split: if_splits prod.splits)

lemma take_due_append: "take_due now xs = (ys, zs) \<Longrightarrow> xs = ys @ zs"
  by (induction xs arbitrary: ys) (auto split: if_splits prod.splits)

lemma take_due_filter:
  "by_when xs \<Longrightarrow> take_due now xs = (filter (\<lambda>x. task_when x \<le> now) xs, filter (\<lambda>x. now < task_when x) xs)"
proof (induction xs)
  case (Cons x xs)
  show ?case
  proof (cases "now < task_when x")
    case True
    then have "\<forall>y \<in> set xs. now < task_when y" using Cons.prems by force
    then have "filter (\<lambda>x. task_when x \<le> now) xs = []" "filter (\<lambda>x. now < task_when x) xs = xs"
      by (auto simp: filter_empty_conv)
    with True show ?thesis by auto
  qed (use Cons in auto)
qed simp

lemma by_when_append: "by_when (xs @ ys) \<Longrightarrow> by_when ys"
  by (simp add: by_when_def sorted_append)

lemma timer_ok_simps [simp]:
  "timer_ok (timer_set_time now t) = timer_ok t" "timer_ok (timer_keep on t) = timer_ok t"
  "timer_ok (fst (timer_clear t))" "tm_tasks (timer_set_time now t) = tm_tasks t"
  "tm_length (timer_set_time now t) = tm_length t" "tm_present (timer_set_time now t) = now"
  by (simp_all add: timer_ok_def timer_set_time_def timer_keep_def timer_clear_def)

end
