(* ===== verification/EventTimer.thy ===== *)
theory EventTimer
  imports Timers
begin

text \<open>
  The class \<^verbatim>\<open>event_timer\<close> (\<^verbatim>\<open>event/event_timer.cpp\<close>). The virtual \<^verbatim>\<open>timer_callback\<close> is a parameter: a
  function on the timer and the world. The state is a pair of the two.
\<close>

record event_timer = timer +
  et_min_delay :: int

type_synonym 'w et_state = "event_timer \<times> 'w"

definition et_new :: "bool \<Rightarrow> int \<Rightarrow> event_timer" where
  "et_new keep junk = \<lparr>tm_tasks = [], tm_length = 0, tm_present = junk, tm_keep = keep, et_min_delay = 2147483647\<rparr>"

text \<open>The time to the first task, at most its delay.\<close>

definition et_next :: "event_timer \<Rightarrow> int" where
  "et_next t =
     (case tm_tasks t of
        [] \<Rightarrow> TIMER_EMPTY
      | first # _ \<Rightarrow>
          let delay = task_when first - tm_present t
          in if delay < 0 then 0 else if delay > task_delay first then task_delay first else delay)"

definition et_del_task :: "'w clock \<Rightarrow> u32 \<Rightarrow> 'w et_state \<Rightarrow> 'w et_state \<times> int" where
  "et_del_task gettime i = (\<lambda>(t, w).
     let (found, rest) = find_task i (tm_tasks t);
         t1 = (case found of None \<Rightarrow> t | Some _ \<Rightarrow> t\<lparr>tm_tasks := rest, tm_length := tm_length t - 1\<rparr>)
     in if timer_empty t1 then ((t1, w), TIMER_EMPTY)
        else
          let (now, w1) = gettime w; t2 = timer_set_time now t1
          in ((t2, w1), et_next t2))"

text \<open>The private \<^verbatim>\<open>set_task\<close> for a task object.\<close>

definition et_put_task :: "'w clock \<Rightarrow> timer_task \<Rightarrow> 'w et_state \<Rightarrow> 'w et_state \<times> int" where
  "et_put_task gettime task = (\<lambda>(t, w).
     let (now, w1) = gettime w;
         t1 = timer_set_time now t;
         task1 = task\<lparr>task_when := tm_present t1 + task_delay task\<rparr>;
         t2 = t1\<lparr>et_min_delay := (if task_delay task < et_min_delay t1 then task_delay task else et_min_delay t1),
                 tm_tasks := insert_task task1 (tm_tasks t1), tm_length := tm_length t1 + 1\<rparr>
     in ((t2, w1), et_next t2))"

definition et_set_task :: "'w clock \<Rightarrow> u32 \<Rightarrow> int \<Rightarrow> 'w et_state \<Rightarrow> 'w et_state \<times> int" where
  "et_set_task gettime i delay = (\<lambda>(t, w).
     if delay < 0 then ((t, w), -1)
     else
       case find_task i (tm_tasks t) of
         (None, _) \<Rightarrow> et_put_task gettime \<lparr>task_id = i, task_delay = delay, task_when = 0\<rparr> (t, w)
       | (Some task, rest) \<Rightarrow>
           et_put_task gettime (task\<lparr>task_delay := delay\<rparr>) (t\<lparr>tm_tasks := rest, tm_length := tm_length t - 1\<rparr>, w))"

text \<open>The loop over the tasks that are due: each is put back and its callback called.\<close>

fun et_fire :: "'w clock \<Rightarrow> (u32 \<Rightarrow> 'w et_state \<Rightarrow> 'w et_state) \<Rightarrow> timer_task list \<Rightarrow> 'w et_state \<Rightarrow> 'w et_state" where
  "et_fire gettime cb [] s = s"
| "et_fire gettime cb (x # xs) s = et_fire gettime cb xs (cb (task_id x) (fst (et_put_task gettime x s)))"

text \<open>\<^const>\<open>None\<close>: an assertion fails.\<close>

definition et_trigger ::
  "'w clock \<Rightarrow> (u32 \<Rightarrow> 'w et_state \<Rightarrow> 'w et_state) \<Rightarrow> 'w et_state \<Rightarrow> ('w et_state \<times> int) option" where
  "et_trigger gettime cb = (\<lambda>(t, w).
     if timer_empty t then Some ((t, w), TIMER_EMPTY)
     else if \<not> tm_length t > 0 then None
     else
       let (now, w1) = gettime w;
           t1 = timer_set_time now t;
           (due, rest) = take_due (tm_present t1) (tm_tasks t1);
           t2 = t1\<lparr>tm_tasks := rest, tm_length := tm_length t1 - length due\<rparr>
       in if due = [] then
            (case tm_tasks t2 of
               [] \<Rightarrow> None
             | first # _ \<Rightarrow>
                 let delay = task_when first - tm_present t2 in Some ((t2, w1), if delay < 0 then 0 else delay))
          else
            let s3 = et_fire gettime cb due (t2, w1)
            in if timer_empty (fst s3) then Some (s3, TIMER_EMPTY) else Some (s3, et_next (fst s3)))"

section \<open>What a user can reach\<close>

text \<open>The calls a callback or any other code makes, between which the world may change.\<close>

inductive et_calls :: "'w clock \<Rightarrow> 'w et_state \<Rightarrow> 'w et_state \<Rightarrow> bool" for gettime where
  none: "et_calls gettime s s"
| world: "et_calls gettime s (t, w) \<Longrightarrow> et_calls gettime s (t, w')"
| set_task: "et_calls gettime s s' \<Longrightarrow> et_calls gettime s (fst (et_set_task gettime i delay s'))"
| del_task: "et_calls gettime s s' \<Longrightarrow> et_calls gettime s (fst (et_del_task gettime i s'))"
| clear: "et_calls gettime s (t, w) \<Longrightarrow> et_calls gettime s (fst (timer_clear t), w)"
| keep: "et_calls gettime s (t, w) \<Longrightarrow> et_calls gettime s (timer_keep on t, w)"

inductive et_reachable :: "'w clock \<Rightarrow> (u32 \<Rightarrow> 'w et_state \<Rightarrow> 'w et_state) \<Rightarrow> 'w et_state \<Rightarrow> bool" for gettime cb where
  new: "et_reachable gettime cb (et_new keep junk, w)"
| calls: "et_reachable gettime cb s \<Longrightarrow> et_calls gettime s s' \<Longrightarrow> et_reachable gettime cb s'"
| trigger: "et_reachable gettime cb s \<Longrightarrow> et_trigger gettime cb s = Some (s', r) \<Longrightarrow> et_reachable gettime cb s'"

text \<open>No task has a negative delay or one below the least that was ever set.\<close>

definition et_ok :: "event_timer \<Rightarrow> bool" where
  "et_ok t \<longleftrightarrow> timer_ok t \<and> (\<forall>x \<in> set (tm_tasks t). 0 \<le> task_delay x \<and> et_min_delay t \<le> task_delay x)"

lemma et_ok_keep [simp]: "et_ok (timer_keep on t) = et_ok t" "et_ok (timer_set_time now t) = et_ok t"
  by (simp_all add: et_ok_def timer_keep_def timer_set_time_def timer_ok_def)

lemma et_ok_clear [simp]: "et_ok (fst (timer_clear t))"
  by (simp add: et_ok_def timer_clear_def timer_ok_def)

lemma et_put_task_ok:
  assumes "et_ok (fst s)" "0 \<le> task_delay x"
  shows "et_ok (fst (fst (et_put_task gettime x s)))"
  using assms
  by (cases s) (fastforce simp: et_put_task_def et_ok_def timer_ok_def timer_set_time_def Let_def split: prod.split)

lemma et_without_ok:
  assumes "et_ok t" "find_task i (tm_tasks t) = (Some x, rest)"
  shows "et_ok (t\<lparr>tm_tasks := rest, tm_length := tm_length t - 1\<rparr>)" "0 \<le> task_delay x" "0 < tm_length t"
proof -
  note f = find_task_some [OF assms(2)]
  have "set rest \<subseteq> set (tm_tasks t)" "x \<in> set (tm_tasks t)"
    using f by (metis insert_subset order_refl set_mset_add_mset_insert set_mset_mset)+
  moreover have "length (tm_tasks t) = Suc (length rest)" using f by (metis size_add_mset size_mset)
  ultimately show "et_ok (t\<lparr>tm_tasks := rest, tm_length := tm_length t - 1\<rparr>)" "0 \<le> task_delay x" "0 < tm_length t"
    using assms(1) f by (auto simp: et_ok_def timer_ok_def)
qed

lemma et_set_task_ok: "et_ok (fst s) \<Longrightarrow> et_ok (fst (fst (et_set_task gettime i delay s)))"
proof -
  assume ok: "et_ok (fst s)"
  obtain t w f rest where e: "s = (t, w)" "find_task i (tm_tasks t) = (f, rest)" by (metis prod.exhaust)
  show ?thesis
  proof (cases f)
    case None
    then show ?thesis using ok e et_put_task_ok [where gettime = gettime] by (simp add: et_set_task_def)
  next
    case (Some x)
    have "et_ok (t\<lparr>tm_tasks := rest, tm_length := tm_length t - 1\<rparr>)" using et_without_ok e Some ok by simp
    then show ?thesis using e Some ok et_put_task_ok [where gettime = gettime] by (simp add: et_set_task_def)
  qed
qed

lemma et_del_task_ok: "et_ok (fst s) \<Longrightarrow> et_ok (fst (fst (et_del_task gettime i s)))"
proof -
  assume ok: "et_ok (fst s)"
  obtain t w f rest where e: "s = (t, w)" "find_task i (tm_tasks t) = (f, rest)" by (metis prod.exhaust)
  then have "et_ok (case f of None \<Rightarrow> t | Some _ \<Rightarrow> t\<lparr>tm_tasks := rest, tm_length := tm_length t - 1\<rparr>)"
    using ok et_without_ok [of t i] by (simp split: option.split)
  then show ?thesis by (simp add: et_del_task_def e Let_def split: prod.split)
qed

lemma et_calls_ok: "et_calls gettime s s' \<Longrightarrow> et_ok (fst s) \<Longrightarrow> et_ok (fst s')"
  by (induction rule: et_calls.induct) (simp_all add: et_set_task_ok et_del_task_ok)

lemma et_fire_ok:
  assumes "\<And>i s. et_calls gettime s (cb i s)"
  shows "et_ok (fst s) \<Longrightarrow> \<forall>x \<in> set xs. 0 \<le> task_delay x \<Longrightarrow> et_ok (fst (et_fire gettime cb xs s))"
proof (induction xs arbitrary: s)
  case (Cons x xs)
  have "et_ok (fst (fst (et_put_task gettime x s)))" using Cons.prems by (intro et_put_task_ok) auto
  then have "et_ok (fst (cb (task_id x) (fst (et_put_task gettime x s))))" by (rule et_calls_ok [OF assms])
  with Cons show ?case by simp
qed simp

lemma et_trigger_ok:
  assumes "\<And>i s. et_calls gettime s (cb i s)" "et_ok (fst s)"
  shows "\<exists>s' r. et_trigger gettime cb s = Some (s', r) \<and> et_ok (fst s')"
proof -
  obtain t w where s: "s = (t, w)" by (cases s)
  show ?thesis
  proof (cases "timer_empty t")
    case True
    then show ?thesis using assms(2) by (simp add: et_trigger_def s)
  next
    case False
    obtain now w1 due rest where g: "gettime w = (now, w1)" "take_due now (tm_tasks t) = (due, rest)" by (metis prod.exhaust)
    have a: "tm_tasks t = due @ rest" using take_due_append [OF g(2)] .
    define t2 where "t2 = (timer_set_time now t)\<lparr>tm_tasks := rest, tm_length := tm_length t - length due\<rparr>"
    have ok: "et_ok t2" "\<forall>x \<in> set due. 0 \<le> task_delay x"
      using assms(2) a by (auto simp: s et_ok_def timer_ok_def t2_def timer_set_time_def by_when_append)
    have l: "0 < tm_length t" using assms(2) False by (simp add: s et_ok_def timer_ok_def timer_empty_def)
    have tr: "et_trigger gettime cb s =
        (if due = [] then
           (case rest of [] \<Rightarrow> None | first # _ \<Rightarrow> Some ((t2, w1), if task_when first - now < 0 then 0 else task_when first - now))
         else
           let s3 = et_fire gettime cb due (t2, w1)
           in if timer_empty (fst s3) then Some (s3, TIMER_EMPTY) else Some (s3, et_next (fst s3)))"
      using False l by (simp add: et_trigger_def s g t2_def Let_def timer_set_time_def split: list.split)
    show ?thesis
    proof (cases "due = []")
      case True
      then have "rest \<noteq> []" using a False by (simp add: timer_empty_def)
      then show ?thesis unfolding tr using True ok by (auto split: list.split)
    next
      case False
      then show ?thesis unfolding tr using et_fire_ok [where gettime = gettime and cb = cb and xs = due and s = "(t2, w1)", OF assms(1)] ok
        by (cases "et_fire gettime cb due (t2, w1)") (auto simp: Let_def)
    qed
  qed
qed

lemma et_reachable_ok:
  assumes "\<And>i s. et_calls gettime s (cb i s)"
  shows "et_reachable gettime cb s \<Longrightarrow> et_ok (fst s)"
proof (induction rule: et_reachable.induct)
  case (new keep junk w)
  then show ?case by (simp add: et_new_def et_ok_def timer_ok_def)
next
  case (calls s s')
  then show ?case using et_calls_ok by blast
next
  case (trigger s s' r)
  then show ?case using et_trigger_ok [where gettime = gettime and cb = cb and s = s, OF assms trigger.IH] by auto
qed

end
