(* ===== verification/AioTimer.thy ===== *)
theory AioTimer
  imports Timers
begin

text \<open>
  The class \<^verbatim>\<open>aio_timer_callback\<close> (\<^verbatim>\<open>stream/aio_timer_callback.cpp\<close>, with the lock of its base
  \<^verbatim>\<open>stream/aio_delay_free.cpp\<close>) and the methods of \<^verbatim>\<open>aio_handle\<close> that drive it
  (\<^verbatim>\<open>stream/aio_handle.cpp\<close>).

  The virtual methods are parameters: \<^verbatim>\<open>timer_callback\<close>, and \<^verbatim>\<open>destroy\<close>, which usually deletes the
  object and then clears \<open>at_alive\<close>. The timers of the C event loop are parameters too: a request
  with its delay and its keep flag, and a cancellation, which act on the world.
\<close>

record aio_timer = timer +
  at_locked :: bool
  at_locked_fixed :: bool
  at_destroy_on_unlock :: bool
  at_in_gc :: bool
  at_alive :: bool

type_synonym 'w at_state = "aio_timer \<times> 'w"

record 'w aio_env =
  env_gettime :: "'w clock"
  env_callback :: "u32 \<Rightarrow> 'w at_state \<Rightarrow> 'w at_state"
  env_destroy :: "aio_timer \<Rightarrow> aio_timer"
  env_request :: "int \<Rightarrow> bool \<Rightarrow> 'w \<Rightarrow> 'w"
  env_cancel :: "'w \<Rightarrow> 'w"

definition at_new :: "bool \<Rightarrow> int \<Rightarrow> bool \<Rightarrow> aio_timer" where
  "at_new keep junk junk2 = \<lparr>tm_tasks = [], tm_length = 0, tm_present = junk, tm_keep = keep, at_locked = False,
     at_locked_fixed = False, at_destroy_on_unlock = junk2, at_in_gc = False, at_alive = True\<rparr>"

definition at_is_locked :: "aio_timer \<Rightarrow> bool" where
  "at_is_locked t \<longleftrightarrow> at_locked t \<or> at_locked_fixed t"

definition at_set_locked :: "aio_timer \<Rightarrow> aio_timer" where
  "at_set_locked t = t\<lparr>at_locked_fixed := True\<rparr>"

definition at_unset_locked :: "aio_timer \<Rightarrow> aio_timer" where
  "at_unset_locked t = t\<lparr>at_locked_fixed := False\<rparr>"

section \<open>The timer\<close>

definition at_next :: "aio_timer \<Rightarrow> int" where
  "at_next t =
     (case tm_tasks t of
        [] \<Rightarrow> TIMER_EMPTY
      | first # _ \<Rightarrow> let delay = task_when first - tm_present t in if delay < 0 then 0 else delay)"

definition at_del_task :: "'w clock \<Rightarrow> u32 \<Rightarrow> 'w at_state \<Rightarrow> 'w at_state \<times> int" where
  "at_del_task gettime i = (\<lambda>(t, w).
     let (found, rest) = find_task i (tm_tasks t);
         t1 = (case found of None \<Rightarrow> t | Some _ \<Rightarrow> t\<lparr>tm_tasks := rest, tm_length := tm_length t - 1\<rparr>)
     in if timer_empty t1 then ((t1, w), TIMER_EMPTY)
        else let (now, w1) = gettime w; t2 = timer_set_time now t1 in ((t2, w1), at_next t2))"

definition at_put_task :: "'w clock \<Rightarrow> timer_task \<Rightarrow> 'w at_state \<Rightarrow> 'w at_state \<times> int" where
  "at_put_task gettime task = (\<lambda>(t, w).
     let (now, w1) = gettime w;
         t1 = timer_set_time now t;
         task1 = task\<lparr>task_when := tm_present t1 + task_delay task\<rparr>;
         t2 = t1\<lparr>tm_tasks := insert_task task1 (tm_tasks t1), tm_length := tm_length t1 + 1\<rparr>
     in ((t2, w1), at_next t2))"

definition at_set_task :: "'w clock \<Rightarrow> u32 \<Rightarrow> int \<Rightarrow> 'w at_state \<Rightarrow> 'w at_state \<times> int" where
  "at_set_task gettime i delay = (\<lambda>(t, w).
     case find_task i (tm_tasks t) of
       (None, _) \<Rightarrow> at_put_task gettime \<lparr>task_id = i, task_delay = delay, task_when = 0\<rparr> (t, w)
     | (Some task, rest) \<Rightarrow>
         at_put_task gettime (task\<lparr>task_delay := delay\<rparr>) (t\<lparr>tm_tasks := rest, tm_length := tm_length t - 1\<rparr>, w))"

fun at_fire :: "'w aio_env \<Rightarrow> timer_task list \<Rightarrow> 'w at_state \<Rightarrow> 'w at_state" where
  "at_fire env [] s = s"
| "at_fire env (x # xs) s =
     at_fire env xs (env_callback env (task_id x) (fst (at_put_task (env_gettime env) x s)))"

text \<open>\<^const>\<open>None\<close>: an assertion fails.\<close>

definition at_trigger :: "'w aio_env \<Rightarrow> 'w at_state \<Rightarrow> ('w at_state \<times> int) option" where
  "at_trigger env = (\<lambda>(t, w).
     if timer_empty t then Some ((t, w), TIMER_EMPTY)
     else if \<not> tm_length t > 0 then None
     else
       let (now, w1) = env_gettime env w;
           t1 = timer_set_time now t;
           (due, rest) = take_due (tm_present t1) (tm_tasks t1);
           t2 = t1\<lparr>tm_tasks := rest, tm_length := tm_length t1 - length due\<rparr>
       in if due = [] then (if timer_empty t2 then None else Some ((t2, w1), at_next t2))
          else
            let (t3, w3) = at_fire env due ((at_set_locked t2)\<lparr>at_destroy_on_unlock := False\<rparr>, w1);
                t4 = at_unset_locked t3
            in if timer_empty t4 then Some ((t4, w3), TIMER_EMPTY)
               else if at_destroy_on_unlock t4 then Some ((env_destroy env t4, w3), TIMER_EMPTY)
               else Some ((t4, w3), at_next t4))"

section \<open>The handle\<close>

definition aio_destroy_timer :: "'w aio_env \<Rightarrow> aio_timer \<Rightarrow> aio_timer" where
  "aio_destroy_timer env t =
     (let t1 = t\<lparr>at_in_gc := False\<rparr>
      in if at_is_locked t1 then t1\<lparr>at_destroy_on_unlock := True\<rparr> else env_destroy env t1)"

definition aio_del_timer_all :: "'w aio_env \<Rightarrow> 'w at_state \<Rightarrow> 'w at_state" where
  "aio_del_timer_all env = (\<lambda>(t, w). (aio_destroy_timer env (fst (timer_clear t)), env_cancel env w))"

definition aio_del_timer :: "'w aio_env \<Rightarrow> u32 \<Rightarrow> 'w at_state \<Rightarrow> 'w at_state" where
  "aio_del_timer env i s =
     (case at_del_task (env_gettime env) i s of
        ((t, w), next_delay) \<Rightarrow>
          if timer_empty t then aio_del_timer_all env (t, w)
          else (t, env_request env (if next_delay < 0 then 0 else next_delay) (tm_keep t) w))"

definition aio_set_timer :: "'w aio_env \<Rightarrow> int \<Rightarrow> u32 \<Rightarrow> 'w at_state \<Rightarrow> 'w at_state" where
  "aio_set_timer env delay i s =
     (case at_set_task (env_gettime env) i delay s of
        ((t, w), d) \<Rightarrow> (t, env_request env (if d < 0 then 0 else d) (tm_keep t) w))"

text \<open>
  The event loop calls this when a request is due. \<^const>\<open>None\<close>: an assertion fails, or a member of an
  object that was destroyed is used.
\<close>

definition on_timer_callback :: "'w aio_env \<Rightarrow> 'w at_state \<Rightarrow> 'w at_state option" where
  "on_timer_callback env s =
     (case at_trigger env s of
        None \<Rightarrow> None
      | Some ((t, w), next_delay) \<Rightarrow>
          if \<not> at_alive t then None
          else if timer_empty t then Some (aio_del_timer_all env (t, w))
          else if \<not> tm_keep t then Some (aio_del_timer_all env (t, w))
          else Some (t, env_request env (if next_delay < 0 then 0 else next_delay) (tm_keep t) w))"

section \<open>Callbacks that only set timers\<close>

inductive at_sets :: "'w aio_env \<Rightarrow> 'w at_state \<Rightarrow> 'w at_state \<Rightarrow> bool" for env where
  none: "at_sets env s s"
| world: "at_sets env s (t, w) \<Longrightarrow> at_sets env s (t, w')"
| set_timer: "at_sets env s s' \<Longrightarrow> at_sets env s (aio_set_timer env delay i s')"
| keep: "at_sets env s (t, w) \<Longrightarrow> at_sets env s (timer_keep on t, w)"

definition at_same :: "aio_timer \<Rightarrow> aio_timer \<Rightarrow> bool" where
  "at_same t u \<longleftrightarrow> at_alive u = at_alive t \<and> at_destroy_on_unlock u = at_destroy_on_unlock t \<and>
     at_locked u = at_locked t \<and> at_locked_fixed u = at_locked_fixed t"

lemma at_same_trans: "at_same t u \<Longrightarrow> at_same u v \<Longrightarrow> at_same t v"
  by (simp add: at_same_def)

lemma at_put_task_ok:
  assumes "timer_ok (fst s)"
  shows "timer_ok (fst (fst (at_put_task gettime x s))) \<and> at_same (fst s) (fst (fst (at_put_task gettime x s)))"
  using assms by (cases s) (auto simp: at_put_task_def timer_ok_def timer_set_time_def at_same_def Let_def split: prod.split)

lemma at_set_task_ok:
  assumes "timer_ok (fst s)"
  shows "timer_ok (fst (fst (at_set_task gettime i d s))) \<and> at_same (fst s) (fst (fst (at_set_task gettime i d s)))"
proof -
  obtain t w f rest where e: "s = (t, w)" "find_task i (tm_tasks t) = (f, rest)" by (metis prod.exhaust)
  show ?thesis
  proof (cases f)
    case None
    then show ?thesis using assms e at_put_task_ok [where gettime = gettime and s = "(t, w)"] by (simp add: at_set_task_def)
  next
    case (Some x)
    define t1 where "t1 = t\<lparr>tm_tasks := rest, tm_length := tm_length t - 1\<rparr>"
    have f: "find_task i (tm_tasks t) = (Some x, rest)" using e Some by simp
    have "length (tm_tasks t) = Suc (length rest)"
      using find_task_some [OF f] by (metis size_add_mset size_mset)
    then have "timer_ok t1" "at_same t t1"
      using assms e find_task_some [OF f] by (auto simp: t1_def timer_ok_def at_same_def)
    then show ?thesis
      using e Some at_put_task_ok [where gettime = gettime and s = "(t1, w)" and x = "x\<lparr>task_delay := d\<rparr>"] at_same_trans
      by (auto simp: at_set_task_def t1_def)
  qed
qed

lemma aio_set_timer_ok:
  "timer_ok (fst s) \<Longrightarrow> timer_ok (fst (aio_set_timer env d i s)) \<and> at_same (fst s) (fst (aio_set_timer env d i s))"
  using at_set_task_ok [of s "env_gettime env" i d] by (auto simp: aio_set_timer_def split: prod.split)

lemma at_sets_ok: "at_sets env s s' \<Longrightarrow> timer_ok (fst s) \<Longrightarrow> timer_ok (fst s') \<and> at_same (fst s) (fst s')"
proof (induction rule: at_sets.induct)
  case (set_timer s s' delay i)
  then show ?case using aio_set_timer_ok [of s' env delay i] at_same_trans by blast
next
  case (keep s t w on)
  then show ?case by (auto simp: at_same_def timer_keep_def timer_ok_def)
qed (simp_all add: at_same_def)

lemma at_sets_nonempty: "at_sets env s s' \<Longrightarrow> \<not> timer_empty (fst s) \<Longrightarrow> \<not> timer_empty (fst s')"
proof (induction rule: at_sets.induct)
  case (set_timer s s' delay i)
  show ?case
    by (cases s') (auto simp: aio_set_timer_def at_set_task_def at_put_task_def timer_empty_def Let_def
        split: prod.split option.split)
qed (simp_all add: timer_empty_def timer_keep_def)

lemma at_fire_ok:
  assumes "\<And>i s. at_sets env s (env_callback env i s)"
  shows "timer_ok (fst s) \<Longrightarrow> timer_ok (fst (at_fire env xs s)) \<and> at_same (fst s) (fst (at_fire env xs s)) \<and>
    (xs \<noteq> [] \<or> \<not> timer_empty (fst s) \<longrightarrow> \<not> timer_empty (fst (at_fire env xs s)))"
proof (induction xs arbitrary: s)
  case Nil
  then show ?case by (simp add: at_same_def)
next
  case (Cons x xs)
  define s1 where "s1 = fst (at_put_task (env_gettime env) x s)"
  define s2 where "s2 = env_callback env (task_id x) s1"
  have s1: "timer_ok (fst s1)" "at_same (fst s) (fst s1)"
    using at_put_task_ok [OF Cons.prems] by (simp_all add: s1_def)
  have "\<not> timer_empty (fst s1)"
    by (cases s) (simp add: s1_def at_put_task_def timer_empty_def Let_def split: prod.split)
  then have s2: "timer_ok (fst s2)" "at_same (fst s1) (fst s2)" "\<not> timer_empty (fst s2)"
    using at_sets_ok [OF assms s1(1)] at_sets_nonempty [OF assms] by (simp_all add: s2_def)
  then show ?case
    using Cons.IH [OF s2(1)] at_same_trans [OF s1(2)] at_same_trans by (auto simp: s1_def s2_def)
qed

end
