(* ===== verification/TimerProperties.thy ===== *)
theory TimerProperties
  imports EventTimer AioTimer
begin

text \<open>The properties of the two timer classes.\<close>

section \<open>\<^verbatim>\<open>event_timer\<close>\<close>

text \<open>C16: whatever calls the user and the callbacks make, the tasks stay ordered by the time they are
  due, the length kept beside the list is its length, no delay is negative or below the least one
  recorded, and no assertion of the trigger fails.\<close>

theorem et_reachable_invariant:
  assumes "\<And>i s. et_calls gettime s (cb i s)" and "et_reachable gettime cb s"
  shows "sorted (map task_when (tm_tasks (fst s))) \<and> tm_length (fst s) = length (tm_tasks (fst s)) \<and>
    (\<forall>x \<in> set (tm_tasks (fst s)). max 0 (et_min_delay (fst s)) \<le> task_delay x) \<and>
    et_trigger gettime cb s \<noteq> None"
  using et_reachable_ok [OF assms] et_trigger_ok [where gettime = gettime and cb = cb and s = s, OF assms(1)]
  by (auto simp: et_ok_def timer_ok_def by_when_def)

theorem et_reachable_invariant_witness:
  "et_trigger (\<lambda>w. (w, w + 1)) (\<lambda>i s. fst (et_del_task (\<lambda>w. (w, w + 1)) i s))
     (fst (et_set_task (\<lambda>w. (w, w + 1)) 7 5 (et_new False 0, 100))) \<noteq> None"
proof -
  define g where "g = (\<lambda>w :: int. (w, w + 1))"
  define cb where "cb = (\<lambda>i s. fst (et_del_task g i s))"
  have c: "et_calls g s (cb i s)" for i s
    unfolding cb_def by (rule et_calls.del_task [OF et_calls.none])
  have "et_reachable g cb (fst (et_set_task g 7 5 (et_new False 0, 100)))"
    by (rule et_reachable.calls [OF et_reachable.new et_calls.set_task [OF et_calls.none]])
  from et_reachable_invariant [where gettime = g and cb = cb, OF c this] show ?thesis
    unfolding g_def cb_def by blast
qed

text \<open>A clock with any readings and callbacks that note the id they are called with.\<close>

definition tick :: "(nat \<Rightarrow> int) \<Rightarrow> (nat \<times> u32 list) clock" where
  "tick time = (\<lambda>(n, ids). (time n, (Suc n, ids)))"

definition note_id :: "u32 \<Rightarrow> (nat \<times> u32 list) et_state \<Rightarrow> (nat \<times> u32 list) et_state" where
  "note_id i = (\<lambda>(t, n, ids). (t, n, ids @ [i]))"

definition put_back :: "(nat \<Rightarrow> int) \<Rightarrow> nat \<times> timer_task \<Rightarrow> timer_task list \<Rightarrow> timer_task list" where
  "put_back time = (\<lambda>(k, x). insert_task (x\<lparr>task_when := time k + task_delay x\<rparr>))"

lemma et_fire_notes:
  "\<exists>t'. et_fire (tick time) note_id xs (t, n, ids) = (t', n + length xs, ids @ map task_id xs) \<and>
     tm_tasks t' = fold (put_back time) (enumerate n xs) (tm_tasks t)"
proof (induction xs arbitrary: t n ids)
  case Nil
  then show ?case by simp
next
  case (Cons x xs)
  obtain t1 where t1: "fst (et_put_task (tick time) x (t, n, ids)) = (t1, Suc n, ids)"
    "tm_tasks t1 = put_back time (n, x) (tm_tasks t)"
    by (simp add: et_put_task_def tick_def put_back_def Let_def timer_set_time_def)
  with Cons.IH [of t1 "Suc n" "ids @ [task_id x]"] show ?case by (simp add: note_id_def)
qed

text \<open>A trigger calls the callbacks of exactly the tasks that are due, in the order of their times
  and of their insertion, and puts each back one delay after the moment it was fired; the other tasks
  are not touched.\<close>

lemma et_trigger_fires_due:
  assumes "et_ok t" and "tm_tasks t \<noteq> []"
  shows "\<exists>t' r. et_trigger (tick time) note_id (t, n, ids) =
      Some ((t', n + 1 + length (filter (\<lambda>x. task_when x \<le> time n) (tm_tasks t)),
             ids @ map task_id (filter (\<lambda>x. task_when x \<le> time n) (tm_tasks t))), r) \<and>
    tm_tasks t' = fold (put_back time) (enumerate (n + 1) (filter (\<lambda>x. task_when x \<le> time n) (tm_tasks t)))
      (filter (\<lambda>x. time n < task_when x) (tm_tasks t)) \<and> 0 \<le> r"
proof -
  define due where "due = filter (\<lambda>x. task_when x \<le> time n) (tm_tasks t)"
  define rest where "rest = filter (\<lambda>x. time n < task_when x) (tm_tasks t)"
  define t2 where "t2 = (timer_set_time (time n) t)\<lparr>tm_tasks := rest, tm_length := tm_length t - length due\<rparr>"
  have d: "take_due (time n) (tm_tasks t) = (due, rest)"
    using take_due_filter assms(1) by (simp add: due_def rest_def et_ok_def timer_ok_def)
  have l: "0 < tm_length t" using assms by (simp add: et_ok_def timer_ok_def)
  have k: "et_trigger (tick time) note_id (t, n, ids) =
      (if due = [] then
         (case rest of [] \<Rightarrow> None | first # _ \<Rightarrow>
            Some ((t2, Suc n, ids), if task_when first - time n < 0 then 0 else task_when first - time n))
       else
         let s3 = et_fire (tick time) note_id due (t2, Suc n, ids)
         in if timer_empty (fst s3) then Some (s3, TIMER_EMPTY) else Some (s3, et_next (fst s3)))"
    using assms(2) l by (simp add: et_trigger_def timer_empty_def tick_def d t2_def Let_def timer_set_time_def split: list.split)
  show ?thesis
  proof (cases "due = []")
    case True
    then obtain f fs where r: "rest = f # fs" using take_due_append [OF d] assms(2) by (cases rest) auto
    then show ?thesis unfolding k using True unfolding due_def [symmetric] rest_def [symmetric] by (simp add: t2_def)
  next
    case False
    obtain t' where t': "et_fire (tick time) note_id due (t2, Suc n, ids) = (t', Suc n + length due, ids @ map task_id due)"
      "tm_tasks t' = fold (put_back time) (enumerate (Suc n) due) rest"
      using et_fire_notes [of time due t2 "Suc n" ids] by (auto simp: t2_def)
    have delays: "\<forall>x \<in> set (tm_tasks t'). 0 \<le> task_delay x"
    proof -
      have "task_delay ` set (fold (put_back time) xs ys) \<subseteq> task_delay ` snd ` set xs \<union> task_delay ` set ys" for xs ys
      proof (induction xs arbitrary: ys)
        case (Cons a xs)
        have "task_delay ` set (put_back time a ys) \<subseteq> task_delay ` insert (snd a) (set ys)"
          by (cases a) (auto simp: put_back_def)
        with Cons.IH [of "put_back time a ys"] show ?case by simp blast
      qed simp
      moreover have snds: "snd ` set (enumerate (Suc n) due) = set due"
        by (metis list.set_map map_snd_enumerate)
      ultimately have "task_delay ` set (fold (put_back time) (enumerate (Suc n) due) rest) \<subseteq>
          task_delay ` set due \<union> task_delay ` set rest" by metis
      then
      have "\<forall>y \<in> set (tm_tasks t'). task_delay y \<in> task_delay ` set (tm_tasks t)"
        unfolding t'(2) by (auto simp: rest_def due_def)
      then show ?thesis using assms(1) by (fastforce simp: et_ok_def)
    qed
    have "tm_tasks t' \<noteq> []"
    proof -
      have "fold (put_back time) xs ys \<noteq> []" if "xs \<noteq> []" for xs ys
        using that by (induction xs rule: rev_induct) (auto simp: put_back_def split: prod.split)
      moreover have "enumerate (Suc n) due \<noteq> []" using False by (cases due) simp_all
      ultimately show ?thesis unfolding t'(2) by blast
    qed
    then obtain f fs where f: "tm_tasks t' = f # fs" by (cases "tm_tasks t'") auto
    then have "0 \<le> et_next t'" "\<not> timer_empty t'"
      using delays by (auto simp: et_next_def Let_def timer_empty_def)
    then show ?thesis
      unfolding k due_def [symmetric] rest_def [symmetric] using False t' by (simp add: Let_def)
  qed
qed

text \<open>A callback that sets the timer of a task that is due as well, but not yet fired, leaves two tasks
  with the same id.\<close>

lemma et_trigger_doubles_id:
  "map task_id (tm_tasks (fst (fst (the (et_trigger (\<lambda>w. (100, w))
      (\<lambda>i s. if i = 1 then fst (et_set_task (\<lambda>w. (100, w)) 2 50 s) else s)
      (\<lparr>tm_tasks = [\<lparr>task_id = 1, task_delay = 10, task_when = 90\<rparr>, \<lparr>task_id = 2, task_delay = 20, task_when = 95\<rparr>],
        tm_length = 2, tm_present = 80, tm_keep = True, et_min_delay = 10\<rparr>, ())))))) = [1, 2, 2]"
  by code_simp

section \<open>\<^verbatim>\<open>aio_timer_callback\<close>\<close>

text \<open>C17: as long as the callbacks only set timers and the keep flag, the event loop's call returns, the
  object is not used after its destruction, and it is destroyed at most at the very end.\<close>

theorem on_timer_callback_safe:
  assumes "\<And>i s. at_sets env s (env_callback env i s)"
    and "timer_ok t" and "at_alive t" and "\<not> at_is_locked t" and "\<not> timer_empty t"
  shows "\<exists>t' w'. on_timer_callback env (t, w) = Some (t', w') \<and>
    (timer_ok t' \<and> at_alive t' \<and> \<not> at_is_locked t' \<and> \<not> timer_empty t' \<and> tm_keep t' \<or>
     (\<exists>u. t' = env_destroy env u \<and> at_alive u \<and> timer_empty u \<and> \<not> at_is_locked u))"
proof -
  obtain now w1 due rest where g: "env_gettime env w = (now, w1)" "take_due now (tm_tasks t) = (due, rest)"
    by (metis prod.exhaust)
  define t2 where "t2 = (timer_set_time now t)\<lparr>tm_tasks := rest, tm_length := tm_length t - length due\<rparr>"
  have a: "tm_tasks t = due @ rest" using take_due_append [OF g(2)] .
  have l: "0 < tm_length t" using assms(2,5) by (simp add: timer_ok_def timer_empty_def)
  have t2: "timer_ok t2" using assms(2) a by (auto simp: timer_ok_def t2_def timer_set_time_def by_when_append)
  have finished: "\<exists>t' w'. on_timer_callback env (t, w) = Some (t', w') \<and>
      (timer_ok t' \<and> at_alive t' \<and> \<not> at_is_locked t' \<and> \<not> timer_empty t' \<and> tm_keep t' \<or>
       (\<exists>u. t' = env_destroy env u \<and> at_alive u \<and> timer_empty u \<and> \<not> at_is_locked u))"
    if "at_trigger env (t, w) = Some ((v, w3), r)" "timer_ok v" "at_alive v" "\<not> at_is_locked v" "\<not> timer_empty v" for v w3 r
  proof (cases "tm_keep v")
    case True
    then show ?thesis using that by (simp add: on_timer_callback_def)
  next
    case False
    have u: "\<exists>u. aio_destroy_timer env (fst (timer_clear v)) = env_destroy env u \<and> at_alive u \<and> timer_empty u \<and> \<not> at_is_locked u"
      using that(3,4) by (auto simp: aio_destroy_timer_def timer_clear_def timer_empty_def at_is_locked_def Let_def)
    have "on_timer_callback env (t, w) = Some (aio_destroy_timer env (fst (timer_clear v)), env_cancel env w3)"
      using that False by (simp add: on_timer_callback_def aio_del_timer_all_def)
    with u show ?thesis by blast
  qed
  show ?thesis
  proof (cases "due = []")
    case True
    have "\<not> timer_empty t2" using a True assms(5) by (simp add: t2_def timer_empty_def)
    moreover from this have "at_trigger env (t, w) = Some ((t2, w1), at_next t2)"
      using True assms(5) l by (simp add: at_trigger_def g t2_def timer_set_time_def Let_def)
    moreover have "at_alive t2" "\<not> at_is_locked t2"
      using assms(3,4) by (simp_all add: t2_def timer_set_time_def at_is_locked_def)
    ultimately show ?thesis using finished t2 by blast
  next
    case False
    define s2 where "s2 = ((at_set_locked t2)\<lparr>at_destroy_on_unlock := False\<rparr>, w1)"
    obtain t3 w3 where f: "at_fire env due s2 = (t3, w3)" by (metis prod.exhaust)
    have "timer_ok (fst s2)" using t2 by (simp add: s2_def at_set_locked_def timer_ok_def)
    from at_fire_ok [of env, OF assms(1) this, of due] f False
    have t3: "timer_ok t3" "at_same (fst s2) t3" "\<not> timer_empty t3" by simp_all
    define t4 where "t4 = at_unset_locked t3"
    have t4: "timer_ok t4" "at_alive t4" "\<not> at_is_locked t4" "\<not> timer_empty t4" "\<not> at_destroy_on_unlock t4"
      using t3 assms(3,4)
      by (auto simp: t4_def at_unset_locked_def timer_ok_def at_same_def s2_def t2_def timer_set_time_def
          at_set_locked_def at_is_locked_def timer_empty_def)
    have "at_trigger env (t, w) = Some ((t4, w3), at_next t4)"
      using False assms(5) l f t4(4,5)
      by (simp add: at_trigger_def g timer_set_time_def Let_def s2_def t2_def t4_def)
    with finished t4 show ?thesis by blast
  qed
qed

definition aio_env1 :: "int aio_env" where
  "aio_env1 = \<lparr>env_gettime = (\<lambda>w. (100, w + 1)), env_callback = (\<lambda>i s. s), env_destroy = (\<lambda>t. t\<lparr>at_alive := False\<rparr>),
     env_request = (\<lambda>d k w. w), env_cancel = (\<lambda>w. w)\<rparr>"

definition aio_two_due :: aio_timer where
  "aio_two_due = \<lparr>tm_tasks = [\<lparr>task_id = 1, task_delay = 10, task_when = 90\<rparr>, \<lparr>task_id = 2, task_delay = 20, task_when = 95\<rparr>],
     tm_length = 2, tm_present = 80, tm_keep = True, at_locked = False, at_locked_fixed = False,
     at_destroy_on_unlock = False, at_in_gc = False, at_alive = True\<rparr>"

theorem on_timer_callback_safe_witness:
  "on_timer_callback (aio_env1\<lparr>env_callback := (\<lambda>i s. aio_set_timer aio_env1 5 i s)\<rparr>) (aio_two_due, 100) \<noteq> None"
proof -
  define env where "env = aio_env1\<lparr>env_callback := (\<lambda>i s. aio_set_timer aio_env1 5 i s)\<rparr>"
  have "aio_set_timer aio_env1 = aio_set_timer env"
    by (simp add: env_def aio_set_timer_def fun_eq_iff)
  then have "env_callback env = (\<lambda>i s. aio_set_timer env 5 i s)" by (simp add: env_def)
  then have c: "at_sets env s (env_callback env i s)" for i s
    using at_sets.set_timer [OF at_sets.none] by simp
  have "timer_ok aio_two_due" "at_alive aio_two_due" "\<not> at_is_locked aio_two_due" "\<not> timer_empty aio_two_due"
    by (simp_all add: aio_two_due_def timer_ok_def at_is_locked_def timer_empty_def)
  from on_timer_callback_safe [of env, OF c this] show ?thesis unfolding env_def by (metis option.distinct(1))
qed

text \<open>If two tasks are due and the callback of the first deletes its own task, then the object is
  destroyed inside the trigger and used after that by the event loop's handler.\<close>

lemma on_timer_use_after_destroy:
  assumes "env_callback env (task_id x) = aio_del_timer env (task_id x)" and "env_callback env (task_id y) = (\<lambda>s. s)"
    and "env_destroy env = (\<lambda>t. t\<lparr>at_alive := False\<rparr>)" and "\<And>w. fst (env_gettime env w) = now"
    and "tm_tasks t = [x, y]" and "tm_length t = 2" and "task_id x \<noteq> task_id y"
    and "task_when x \<le> now" and "task_when y \<le> now"
  shows "on_timer_callback env (t, w) = None"
proof -
  have g: "\<exists>v'. env_gettime env v = (now, v')" for v using assms(4) [of v] by (cases "env_gettime env v") simp
  define t1 where "t1 = ((at_set_locked ((timer_set_time now t)\<lparr>tm_tasks := [], tm_length := 0\<rparr>))\<lparr>at_destroy_on_unlock := False\<rparr>)"
  define x1 where "x1 = x\<lparr>task_when := now + task_delay x\<rparr>"
  obtain w1 w2 where w: "env_gettime env w = (now, w1)" "env_gettime env w1 = (now, w2)" using g by blast
  have p: "fst (at_put_task (env_gettime env) x (t1, w1)) = (t1\<lparr>tm_present := now, tm_tasks := [x1], tm_length := 1\<rparr>, w2)"
    by (simp add: at_put_task_def w timer_set_time_def Let_def t1_def x1_def at_set_locked_def)
  have del: "\<exists>t2 w2. aio_del_timer env i (u, v) = (t2, w2) \<and> tm_tasks t2 = [] \<and> at_destroy_on_unlock t2"
    if "tm_tasks u = [z]" "task_id z = i" "at_is_locked u" for i u v z
    using that
    by (simp add: aio_del_timer_def at_del_task_def aio_del_timer_all_def aio_destroy_timer_def timer_empty_def
        timer_clear_def at_is_locked_def Let_def)
  have d: "\<exists>t2 w2. aio_del_timer env (task_id x) (t1\<lparr>tm_present := now, tm_tasks := [x1], tm_length := 1\<rparr>, v) = (t2, w2) \<and>
      tm_tasks t2 = [] \<and> at_destroy_on_unlock t2" for v
    by (rule del [where z = x1]) (simp_all add: x1_def t1_def at_is_locked_def at_set_locked_def)
  have y: "\<exists>t3 w3. at_fire env [y] (t2, v) = (t3, w3) \<and> \<not> timer_empty t3 \<and> at_destroy_on_unlock t3"
    if "tm_tasks t2 = []" "at_destroy_on_unlock t2" for t2 v
  proof -
    obtain v' where "env_gettime env v = (now, v')" using g by blast
    then show ?thesis
      using that by (simp add: assms(2) at_put_task_def timer_set_time_def Let_def timer_empty_def)
  qed
  have "\<exists>t3 w3. at_fire env [x, y] (t1, w1) = (t3, w3) \<and> \<not> timer_empty t3 \<and> at_destroy_on_unlock t3"
    using d [of w2] y by (auto simp: p assms(1))
  then obtain t3 w3 where f: "at_fire env [x, y] (t1, w1) = (t3, w3)" "\<not> timer_empty t3" "at_destroy_on_unlock t3"
    by blast
  have "at_trigger env (t, w) = Some ((env_destroy env (at_unset_locked t3), w3), TIMER_EMPTY)"
    using f assms(5,6,8,9)
    by (simp add: at_trigger_def w timer_empty_def timer_set_time_def Let_def at_unset_locked_def
        t1_def del: at_fire.simps)
  then show ?thesis by (simp add: on_timer_callback_def assms(3))
qed

lemma aio_del_timer_callback: "aio_del_timer (env\<lparr>env_callback := c\<rparr>) = aio_del_timer env"
proof -
  have "aio_del_timer_all (env\<lparr>env_callback := c\<rparr>) = aio_del_timer_all env"
    by (simp add: aio_del_timer_all_def aio_destroy_timer_def Let_def fun_eq_iff)
  then show ?thesis by (simp add: aio_del_timer_def fun_eq_iff split: prod.split)
qed

end
