(* ===== verification/TextLines.thy ===== *)
theory TextLines
  imports Streaming
begin

text \<open>
  What the clients of text protocols share: decimal numbers, the C functions that read and write them, and
  the reading of lines.
\<close>

section \<open>Numbers\<close>

definition is_space :: "byte \<Rightarrow> bool" where
  "is_space c \<longleftrightarrow> c = 32 \<or> (9 \<le> c \<and> c \<le> 13)"

definition is_digit :: "byte \<Rightarrow> bool" where
  "is_digit c \<longleftrightarrow> 48 \<le> c \<and> c \<le> 57"

definition digits_val :: "byte list \<Rightarrow> int" where
  "digits_val ds = foldl (\<lambda>n d. 10 * n + (uint d - 48)) 0 ds"

text \<open>A number as an \<^verbatim>\<open>int\<close>.\<close>

definition to_int :: "int \<Rightarrow> int" where
  "to_int i = sint (word_of_int i :: u32)"

lemma to_int_id: "- (2 ^ 31) \<le> i \<Longrightarrow> i < 2 ^ 31 \<Longrightarrow> to_int i = i"
  by (simp add: to_int_def signed_of_int signed_take_bit_int_eq_self)

text \<open>
  The C functions \<^verbatim>\<open>strtol\<close> (base 10), which stops at the ends of \<^verbatim>\<open>long\<close>, and \<^verbatim>\<open>atoi\<close>, its value as an \<^verbatim>\<open>int\<close>:
  the C standard leaves open what \<^verbatim>\<open>atoi\<close> gives for a number that is no \<^verbatim>\<open>int\<close>; this is what the GNU library gives.
\<close>

definition digits_number :: "byte list \<Rightarrow> int" where
  "digits_number s =
     (case dropWhile is_space s of
        [] \<Rightarrow> 0
      | c # cs \<Rightarrow>
          if c = 45 then - digits_val (takeWhile is_digit cs)
          else if c = 43 then digits_val (takeWhile is_digit cs)
          else digits_val (takeWhile is_digit (c # cs)))"

definition strtol :: "byte list \<Rightarrow> int" where
  "strtol s = max (- (2 ^ 63)) (min (2 ^ 63 - 1) (digits_number s))"

definition atoi :: "byte list \<Rightarrow> int" where
  "atoi s = to_int (strtol s)"

lemma atoi_range: "- (2 ^ 31) \<le> atoi s \<and> atoi s < 2 ^ 31"
  using sint_greater_eq [of "word_of_int (strtol s) :: u32"] sint_less [of "word_of_int (strtol s) :: u32"]
  by (simp add: atoi_def to_int_def)

lemma atoi_number:
  assumes "- (2 ^ 31) \<le> digits_number s" "digits_number s < 2 ^ 31"
  shows "atoi s = digits_number s"
proof -
  have "strtol s = digits_number s" using assms by (simp add: strtol_def)
  then show ?thesis using to_int_id [OF assms] by (simp add: atoi_def)
qed

fun decimal :: "nat \<Rightarrow> byte list" where
  "decimal n = (if n < 10 then [48 + word_of_nat n] else decimal (n div 10) @ [48 + word_of_nat (n mod 10)])"

declare decimal.simps [simp del]

lemma digit_byte: "n < 10 \<Longrightarrow> is_digit (48 + word_of_nat n) \<and> uint (48 + word_of_nat n :: byte) - 48 = int n"
proof -
  assume "n < 10"
  then have "unat (48 + word_of_nat n :: byte) = 48 + n" by (simp add: unat_word_ariths(1) unat_of_nat)
  then have "uint (48 + word_of_nat n :: byte) = 48 + int n" by (metis int_ops(2) of_nat_add of_nat_numeral uint_nat)
  then show ?thesis using \<open>n < 10\<close> by (simp add: is_digit_def word_le_def)
qed

lemma decimal_digits: "list_all is_digit (decimal n)" "decimal n \<noteq> []" "digits_val (decimal n) = int n"
proof (induction n rule: decimal.induct)
  case (1 n)
  {
    case 1
    then show ?case using digit_byte [of n] digit_byte [of "n mod 10"] "1.IH"(1) by (subst decimal.simps) auto
  next
    case 2
    then show ?case by (subst decimal.simps) simp
  next
    case 3
    have "digits_val (xs @ [d]) = 10 * digits_val xs + (uint d - 48)" for xs d by (simp add: digits_val_def)
    moreover have "10 * int (n div 10) + int (n mod 10) = int n"
      by (metis mult_div_mod_eq of_nat_add of_nat_mult of_nat_numeral)
    ultimately show ?case
      using digit_byte [of n] digit_byte [of "n mod 10"] "1.IH"(3) by (subst decimal.simps) (auto simp: digits_val_def)
  }
qed

lemma digit_no_space: "is_digit c \<Longrightarrow> \<not> is_space c \<and> c \<noteq> 45 \<and> c \<noteq> 43 \<and> c \<noteq> 0 \<and> c \<noteq> 10 \<and> c \<noteq> 13"
  by (auto simp: is_digit_def is_space_def word_le_nat_alt)

lemma decimal_clean: "x \<in> set (decimal n) \<Longrightarrow> x \<noteq> 0 \<and> x \<noteq> 10 \<and> x \<noteq> 13"
  using decimal_digits(1) [of n] digit_no_space by (auto simp: list_all_iff)

lemma number_decimal: "digits_number (decimal n) = int n"
proof -
  obtain c cs where c: "decimal n = c # cs" using decimal_digits(2) by (cases "decimal n") auto
  then have dc: "is_digit c" and ds: "\<forall>x \<in> set cs. is_digit x"
    using decimal_digits(1) [of n] by (simp_all add: list_all_iff)
  have tw: "takeWhile is_digit (c # cs) = c # cs" using dc ds by (auto simp: takeWhile_eq_all_conv)
  have dw: "dropWhile is_space (c # cs) = c # cs" using digit_no_space [OF dc] by simp
  have "digits_number (c # cs) = digits_val (takeWhile is_digit (c # cs))"
    unfolding digits_number_def dw list.case using digit_no_space [OF dc] by (simp only: if_False simp_thms)
  then show ?thesis using decimal_digits(3) [of n] unfolding c tw by simp
qed

lemma atoi_decimal [simp]: "n < 2 ^ 31 \<Longrightarrow> atoi (decimal n) = int n"
  using atoi_number [of "decimal n"] number_decimal [of n] by simp

lemma cstr_decimal [simp]: "cstr (decimal n) = decimal n"
  by (rule cstr_id) (use decimal_clean in \<open>auto simp: no_nul_def\<close>)

text \<open>\<^verbatim>\<open>"%d"\<close> of a number.\<close>

definition decimal_int :: "int \<Rightarrow> byte list" where
  "decimal_int i = (if i < 0 then 45 # decimal (nat (- i)) else decimal (nat i))"

section \<open>Lines\<close>

text \<open>\<^verbatim>\<open>istream::gets\<close> is a parameter: it gives a line without its end, or fails.\<close>

type_synonym 'c line_reader = "'c \<Rightarrow> (byte list \<times> 'c) option"

abbreviation crlf :: "byte list" where "crlf \<equiv> [13, 10]"

definition clean_line :: "byte list \<Rightarrow> bool" where
  "clean_line s \<longleftrightarrow> 10 \<notin> set s \<and> 13 \<notin> set s"

text \<open>What is documented of \<^verbatim>\<open>gets\<close>: it gives the next line without its end.\<close>

definition gets_ok :: "'c line_reader \<Rightarrow> ('c \<Rightarrow> byte list) \<Rightarrow> bool" where
  "gets_ok gets contents \<longleftrightarrow>
     (\<forall>c line rest. contents c = line @ crlf @ rest \<longrightarrow> clean_line line \<longrightarrow>
       (\<exists>c'. gets c = Some (line, c') \<and> contents c' = rest))"

lemma gets_okD:
  assumes "gets_ok gets contents" "contents c = line @ crlf @ rest" "clean_line line"
  obtains c' where "gets c = Some (line, c')" "contents c' = rest"
  using assms unfolding gets_ok_def by blast

text \<open>Such a stream, over a list of bytes.\<close>

definition list_gets :: "byte list line_reader" where
  "list_gets c =
     (let line = takeWhile (\<lambda>b. b \<noteq> 10) c in
      if length line < length c then
        Some (if line \<noteq> [] \<and> last line = 13 then butlast line else line, drop (Suc (length line)) c)
      else None)"

lemma list_gets_ok: "gets_ok list_gets (\<lambda>c. c)"
proof -
  have "list_gets (line @ crlf @ rest) = Some (line, rest)" if "clean_line line" for line rest
  proof -
    have "takeWhile (\<lambda>b. b \<noteq> 10) (line @ crlf @ rest) = line @ [13]"
      using that by (induction line) (auto simp: clean_line_def)
    then show ?thesis by (simp add: list_gets_def)
  qed
  then show ?thesis by (simp add: gets_ok_def)
qed

lemma clean_decimal: "clean_line (decimal n)"
  using decimal_clean by (auto simp: clean_line_def)

end
