(* ===== verification/Redis.thy ===== *)
theory Redis
  imports TextLines
begin

text \<open>
  The replies of a redis server: \<^verbatim>\<open>redis_result\<close> (\<^verbatim>\<open>redis/redis_result.cpp\<close>) and the reply parser and
  the retry loop of \<^verbatim>\<open>redis_client\<close> (\<^verbatim>\<open>redis/redis_client.cpp\<close>).

  The memory of results comes from a pool and is never given back here, so a result is a value. The
  stream is a parameter: \<open>rd\<close> reads exactly the number of bytes asked for, \<open>gets\<close> a line without its
  end; both give \<^const>\<open>None\<close> on failure. Lengths are below the range of \<^verbatim>\<open>int\<close>.
\<close>

section \<open>Results\<close>

datatype redis_type = RT_NIL | RT_ERROR | RT_STATUS | RT_INTEGER | RT_STRING | RT_ARRAY

datatype redis_result = Redis_result
  (rr_type: redis_type) (rr_size: nat) (rr_argv: "byte list list") (rr_children: "redis_result list")

definition rr_new :: redis_result where
  "rr_new = Redis_result RT_NIL 0 [] []"

definition rr_set_type :: "redis_type \<Rightarrow> redis_result \<Rightarrow> redis_result" where
  "rr_set_type ty r = Redis_result ty (rr_size r) (rr_argv r) (rr_children r)"

definition rr_set_size :: "nat \<Rightarrow> redis_result \<Rightarrow> redis_result" where
  "rr_set_size n r = (if rr_argv r \<noteq> [] then r else Redis_result (rr_type r) n (rr_argv r) (rr_children r))"

definition rr_put :: "byte list \<Rightarrow> redis_result \<Rightarrow> redis_result" where
  "rr_put buf r =
     (if rr_size r = 0 then r
      else if length (rr_argv r) \<ge> rr_size r then r
      else Redis_result (rr_type r) (rr_size r) (rr_argv r @ [buf]) (rr_children r))"

definition rr_put_child :: "redis_result \<Rightarrow> nat \<Rightarrow> redis_result \<Rightarrow> redis_result" where
  "rr_put_child child idx r =
     Redis_result (rr_type r) (rr_size r) (rr_argv r) ((if idx = 0 then [] else rr_children r) @ [child])"

definition rr_get_size :: "redis_result \<Rightarrow> nat" where
  "rr_get_size r =
     (if rr_type r = RT_ARRAY then length (rr_children r)
      else if rr_type r = RT_STRING then (if rr_argv r = [] then 0 else rr_size r)
      else rr_size r)"

definition rr_get :: "nat \<Rightarrow> redis_result \<Rightarrow> byte list option" where
  "rr_get i r = (if i \<ge> length (rr_argv r) then None else Some (rr_argv r ! i))"

definition rr_get_length :: "redis_result \<Rightarrow> nat" where
  "rr_get_length r = sum_list (map length (rr_argv r))"

definition rr_get_status :: "redis_result \<Rightarrow> byte list" where
  "rr_get_status r = (if rr_type r \<noteq> RT_STATUS then [] else case rr_get 0 r of None \<Rightarrow> [] | Some p \<Rightarrow> p)"

definition rr_get_error :: "redis_result \<Rightarrow> byte list" where
  "rr_get_error r = (if rr_type r \<noteq> RT_ERROR then [] else case rr_get 0 r of None \<Rightarrow> [] | Some p \<Rightarrow> p)"

definition rr_argv_to_string :: "redis_result \<Rightarrow> byte list \<times> nat" where
  "rr_argv_to_string r = (concat (rr_argv r), sum_list (map length (rr_argv r)))"

text \<open>Into a buffer of \<open>n\<close> bytes: what is stored, the zero included, and the length.\<close>

fun rr_copy :: "byte list list \<Rightarrow> nat \<Rightarrow> byte list" where
  "rr_copy [] room = []"
| "rr_copy (x # xs) room =
     (let n = (if room > length x then length x else room)
      in take n x @ (if room - n = 0 then [] else rr_copy xs (room - n)))"

definition rr_argv_to_buf :: "nat \<Rightarrow> redis_result \<Rightarrow> byte list \<times> nat" where
  "rr_argv_to_buf n r =
     (if rr_argv r = [] \<or> n = 0 then ([], 0)
      else if n - 1 = 0 then ([], 0)
      else let w = rr_copy (rr_argv r) (n - 1) in (w @ [0], length w))"

definition rr_get_child :: "nat \<Rightarrow> redis_result \<Rightarrow> redis_result option" where
  "rr_get_child i r = (if i \<ge> length (rr_children r) then None else Some (rr_children r ! i))"

fun rr_to_string :: "redis_result \<Rightarrow> byte list" where
  "rr_to_string (Redis_result ty n argv children) =
     (if ty \<noteq> RT_ARRAY then concat argv @ [13, 10] else concat (map rr_to_string children))"

definition rr_get_integer :: "redis_result \<Rightarrow> int option" where
  "rr_get_integer r =
     (if rr_type r \<noteq> RT_INTEGER then None
      else case rr_get 0 r of
        None \<Rightarrow> None
      | Some p \<Rightarrow> if cstr p = [] then None else Some (atoi (cstr p)))"

section \<open>The reply parser\<close>

text \<open>\<^verbatim>\<open>get_error\<close>, \<^verbatim>\<open>get_status\<close> and \<^verbatim>\<open>get_integer\<close>. \<^const>\<open>None\<close> is the result NULL.\<close>

definition redis_line :: "redis_type \<Rightarrow> 'c line_reader \<Rightarrow> 'c \<Rightarrow> (redis_result \<times> 'c) option" where
  "redis_line ty gets c =
     (case gets c of
        None \<Rightarrow> None
      | Some (buf, c') \<Rightarrow> Some (rr_put buf (rr_set_size 1 (rr_set_type ty rr_new)), c'))"

definition CHUNK_LENGTH :: nat where "CHUNK_LENGTH = 8192"

text \<open>The loop that reads a string in slices.\<close>

function redis_slices :: "'c reader \<Rightarrow> nat \<Rightarrow> redis_result \<Rightarrow> 'c \<Rightarrow> (redis_result \<times> 'c) option" where
  "redis_slices rd len r c =
     (if len > 0 then
        let n = (if len > CHUNK_LENGTH - 1 then CHUNK_LENGTH - 1 else len) in
        case rd c n of
          None \<Rightarrow> None
        | Some (buf, c') \<Rightarrow> redis_slices rd (len - n) (rr_put buf r) c'
      else Some (r, c))"
  by pat_completeness auto
termination by (relation "measure (\<lambda>(_, len, _, _). len)") (auto simp: CHUNK_LENGTH_def)

declare redis_slices.simps [simp del]

definition get_string :: "bool \<Rightarrow> 'c reader \<Rightarrow> 'c line_reader \<Rightarrow> 'c \<Rightarrow> (redis_result \<times> 'c) option" where
  "get_string sliced rd gets c =
     (case gets c of
        None \<Rightarrow> None
      | Some (sbuf, c1) \<Rightarrow>
          let r = rr_set_type RT_STRING rr_new; len = atoi (cstr sbuf) in
          if len < 0 then Some (r, c1)
          else if \<not> sliced then
            (case (if len > 0 then rd c1 (nat len) else Some ([], c1)) of
               None \<Rightarrow> None
             | Some (buf, c2) \<Rightarrow>
                 (case gets c2 of
                    None \<Rightarrow> None
                  | Some (_, c3) \<Rightarrow> Some (rr_put buf (rr_set_size 1 r), c3)))
          else
            let size = nat len div CHUNK_LENGTH + (if nat len mod CHUNK_LENGTH \<noteq> 0 then 1 else 0) in
            (case redis_slices rd (nat len) (rr_set_size size r) c1 of
               None \<Rightarrow> None
             | Some (r2, c2) \<Rightarrow> (case gets c2 of None \<Rightarrow> None | Some (_, c3) \<Rightarrow> Some (r2, c3))))"

text \<open>
  A reply, and the elements \<open>i\<close>, \<open>i + 1\<close>, ... of an array. \<open>depth\<close> bounds the nesting of arrays; the
  outer \<^const>\<open>None\<close> says that it was not enough, the inner one is the result NULL.
\<close>

fun get_object :: "nat \<Rightarrow> bool \<Rightarrow> 'c reader \<Rightarrow> 'c line_reader \<Rightarrow> 'c \<Rightarrow> (redis_result \<times> 'c) option option"
  and get_elements :: "nat \<Rightarrow> bool \<Rightarrow> 'c reader \<Rightarrow> 'c line_reader \<Rightarrow> nat \<Rightarrow> nat \<Rightarrow> redis_result \<Rightarrow> 'c \<Rightarrow>
    (redis_result \<times> 'c) option option" where
  "get_object 0 sliced rd gets c = None"
| "get_object (Suc depth) sliced rd gets c =
     (case rd c 1 of
        None \<Rightarrow> Some None
      | Some (ch, c1) \<Rightarrow>
          if ch = [45] then Some (redis_line RT_ERROR gets c1)
          else if ch = [43] then Some (redis_line RT_STATUS gets c1)
          else if ch = [58] then Some (redis_line RT_INTEGER gets c1)
          else if ch = [36] then Some (get_string sliced rd gets c1)
          else if ch = [42] then
            (case gets c1 of
               None \<Rightarrow> Some None
             | Some (buf, c2) \<Rightarrow>
                 let r = rr_set_type RT_ARRAY rr_new; count = atoi (cstr buf) in
                 if count \<le> 0 then Some (Some (r, c2))
                 else get_elements depth sliced rd gets (nat count) 0 (rr_set_size (nat count) r) c2)
          else Some None)"
| "get_elements depth sliced rd gets 0 i r c = Some (Some (r, c))"
| "get_elements depth sliced rd gets (Suc n) i r c =
     (case get_object depth sliced rd gets c of
        None \<Rightarrow> None
      | Some None \<Rightarrow> Some None
      | Some (Some (child, c1)) \<Rightarrow> get_elements depth sliced rd gets n (Suc i) (rr_put_child child i r) c1)"

definition get_objects :: "nat \<Rightarrow> bool \<Rightarrow> 'c reader \<Rightarrow> 'c line_reader \<Rightarrow> nat \<Rightarrow> 'c \<Rightarrow> (redis_result \<times> 'c) option option" where
  "get_objects depth sliced rd gets nobjs c =
     get_elements depth sliced rd gets nobjs 0 (rr_set_size nobjs (rr_set_type RT_ARRAY rr_new)) c"

section \<open>A request and its retry\<close>

text \<open>
  What \<^verbatim>\<open>run\<close> does with the connection, on the state of the world: open it if it is not, compare the
  address of the peer, write the request, read the reply (\<^const>\<open>None\<close> for NULL), close it.
\<close>

record ('w, 'r) redis_conn =
  conn_open :: "'w \<Rightarrow> bool \<times> 'w"
  conn_check :: "'w \<Rightarrow> bool \<times> 'w"
  conn_write :: "byte list \<Rightarrow> 'w \<Rightarrow> bool \<times> 'w"
  conn_reply :: "'w \<Rightarrow> 'r option \<times> 'w"
  conn_close :: "'w \<Rightarrow> 'w"

record redis_client =
  rc_check_addr :: bool
  rc_retry :: bool

text \<open>The body of the loop: the result, or another turn.\<close>

definition run_turn :: "('w, 'r) redis_conn \<Rightarrow> redis_client \<Rightarrow> byte list \<Rightarrow> bool \<Rightarrow> 'w \<Rightarrow> ('r option + unit) \<times> 'w" where
  "run_turn conn rc req retried w =
     (case conn_open conn w of
        (False, w1) \<Rightarrow> (Inl None, w1)
      | (True, w1) \<Rightarrow>
          (case (if rc_check_addr rc then conn_check conn w1 else (True, w1)) of
             (False, w2) \<Rightarrow> (Inl None, conn_close conn w2)
           | (True, w2) \<Rightarrow>
               (case (if req \<noteq> [] then conn_write conn req w2 else (True, w2)) of
                  (False, w3) \<Rightarrow>
                    if rc_retry rc \<and> \<not> retried then (Inr (), conn_close conn w3)
                    else (Inl None, conn_close conn w3)
                | (True, w3) \<Rightarrow>
                    (case conn_reply conn w3 of
                       (Some r, w4) \<Rightarrow> (Inl (Some r), w4)
                     | (None, w4) \<Rightarrow>
                         if req = [] then (Inl None, conn_close conn w4)
                         else if \<not> rc_retry rc \<or> retried then (Inl None, conn_close conn w4)
                         else (Inr (), conn_close conn w4)))))"

text \<open>The loop; it sets \<open>retried\<close> before every further turn.\<close>

function run_loop :: "('w, 'r) redis_conn \<Rightarrow> redis_client \<Rightarrow> byte list \<Rightarrow> bool \<Rightarrow> 'w \<Rightarrow> 'r option \<times> 'w" where
  "run_loop conn rc req retried w =
     (case run_turn conn rc req retried w of
        (Inl r, w1) \<Rightarrow> (r, w1)
      | (Inr u, w1) \<Rightarrow> run_loop conn rc req True w1)"
  by pat_completeness auto
termination
  by (relation "measure (\<lambda>(_, _, _, retried, _). if retried then 0 else 1)")
    (auto simp: run_turn_def split: bool.splits prod.splits if_splits option.splits)

declare run_loop.simps [simp del]

definition redis_run :: "('w, 'r) redis_conn \<Rightarrow> redis_client \<Rightarrow> byte list \<Rightarrow> 'w \<Rightarrow> 'r option \<times> 'w" where
  "redis_run conn rc req = run_loop conn rc req False"

end
