(* ===== verification/RedisRun.thy ===== *)
theory RedisRun
  imports Redis
begin

text \<open>
  The replies of the redis protocol as data, the bytes a server sends for them and the results the
  client is to give; the lemmas that reading gives back what was sent.
\<close>

section \<open>Replies\<close>

datatype resp = P_error "byte list" | P_status "byte list" | P_integer "byte list" | P_string "byte list"
  | P_nil | P_array "resp list" | P_nil_array

fun resp_bytes :: "resp \<Rightarrow> byte list" where
  "resp_bytes (P_error s) = 45 # s @ crlf"
| "resp_bytes (P_status s) = 43 # s @ crlf"
| "resp_bytes (P_integer s) = 58 # s @ crlf"
| "resp_bytes (P_string s) = 36 # decimal (length s) @ crlf @ s @ crlf"
| "resp_bytes P_nil = [36, 45, 49] @ crlf"
| "resp_bytes (P_array vs) = 42 # decimal (length vs) @ crlf @ concat (map resp_bytes vs)"
| "resp_bytes P_nil_array = [42, 45, 49] @ crlf"

text \<open>Lines have no line breaks, and lengths fit an \<^verbatim>\<open>int\<close>.\<close>

fun resp_ok :: "resp \<Rightarrow> bool" where
  "resp_ok (P_error s) \<longleftrightarrow> clean_line s"
| "resp_ok (P_status s) \<longleftrightarrow> clean_line s"
| "resp_ok (P_integer s) \<longleftrightarrow> clean_line s"
| "resp_ok (P_string s) \<longleftrightarrow> length s < 2 ^ 31"
| "resp_ok (P_array vs) \<longleftrightarrow> length vs < 2 ^ 31 \<and> list_all resp_ok vs"
| "resp_ok _ \<longleftrightarrow> True"

fun resp_depth :: "resp \<Rightarrow> nat" where
  "resp_depth (P_array vs) = Suc (foldr max (map resp_depth vs) 0)"
| "resp_depth _ = 1"

text \<open>The pieces a sliced string is read in.\<close>

function slices_of :: "byte list \<Rightarrow> byte list list" where
  "slices_of s = (if s = [] then [] else take 8191 s # slices_of (drop 8191 s))"
  by pat_completeness auto
termination by (relation "measure length") auto

declare slices_of.simps [simp del]

definition slice_count :: "byte list \<Rightarrow> nat" where
  "slice_count s = (length s + 8191) div 8192"

text \<open>What reading a reply gives: without slices its value,\<close>

fun reply_of :: "resp \<Rightarrow> redis_result" where
  "reply_of (P_error s) = Redis_result RT_ERROR 1 [s] []"
| "reply_of (P_status s) = Redis_result RT_STATUS 1 [s] []"
| "reply_of (P_integer s) = Redis_result RT_INTEGER 1 [s] []"
| "reply_of (P_string s) = Redis_result RT_STRING 1 [s] []"
| "reply_of P_nil = Redis_result RT_STRING 0 [] []"
| "reply_of (P_array vs) = Redis_result RT_ARRAY (length vs) [] (map reply_of vs)"
| "reply_of P_nil_array = Redis_result RT_ARRAY 0 [] []"

text \<open>and with slices, of a string only as many pieces as are counted.\<close>

fun result_of :: "bool \<Rightarrow> resp \<Rightarrow> redis_result" where
  "result_of sliced (P_error s) = Redis_result RT_ERROR 1 [s] []"
| "result_of sliced (P_status s) = Redis_result RT_STATUS 1 [s] []"
| "result_of sliced (P_integer s) = Redis_result RT_INTEGER 1 [s] []"
| "result_of sliced (P_string s) =
     (if sliced then Redis_result RT_STRING (slice_count s) (take (slice_count s) (slices_of s)) []
      else Redis_result RT_STRING 1 [s] [])"
| "result_of sliced P_nil = Redis_result RT_STRING 0 [] []"
| "result_of sliced (P_array vs) = Redis_result RT_ARRAY (length vs) [] (map (result_of sliced) vs)"
| "result_of sliced P_nil_array = Redis_result RT_ARRAY 0 [] []"

lemma result_of_reply: "result_of False v = reply_of v"
  by (induction v) simp_all

lemma redis_line_read:
  assumes "gets_ok gets contents" "contents c = s @ crlf @ rest" "clean_line s"
  shows "\<exists>c'. redis_line ty gets c = Some (Redis_result ty 1 [s] [], c') \<and> contents c' = rest"
  using gets_okD [OF assms]
  by (fastforce simp: redis_line_def rr_put_def rr_set_size_def rr_set_type_def rr_new_def)

section \<open>Strings\<close>

lemma put_all:
  "length argv \<le> n \<Longrightarrow> foldl (\<lambda>r b. rr_put b r) (Redis_result ty n argv ch) bs = Redis_result ty n (take n (argv @ bs)) ch"
proof (induction bs arbitrary: argv)
  case (Cons b bs)
  show ?case
  proof (cases "length argv < n")
    case True
    then have "rr_put b (Redis_result ty n argv ch) = Redis_result ty n (argv @ [b]) ch" by (simp add: rr_put_def)
    then show ?thesis using Cons.IH [of "argv @ [b]"] True by simp
  next
    case False
    then have "rr_put b (Redis_result ty n argv ch) = Redis_result ty n argv ch" by (simp add: rr_put_def)
    then show ?thesis using Cons.IH [of argv] Cons.prems False by simp
  qed
qed simp

lemma redis_slices_read:
  assumes "stream_ok rd contents" "contents c = s @ rest"
  shows "\<exists>c'. redis_slices rd (length s) r c = Some (foldl (\<lambda>r b. rr_put b r) r (slices_of s), c') \<and> contents c' = rest"
  using assms(2)
proof (induction "length s" arbitrary: s r c rule: less_induct)
  case less
  show ?case
  proof (cases "s = []")
    case True
    then show ?thesis using less.prems by (simp add: redis_slices.simps [of _ 0] slices_of.simps [of "[]"])
  next
    case False
    define x where "x = take 8191 s"
    define y where "y = drop 8191 s"
    have s: "s = x @ y" "x \<noteq> []" "length x = min (length s) 8191" using False by (simp_all add: x_def y_def)
    obtain c1 where c1: "rd c (length x) = Some (x, c1)" "contents c1 = y @ rest"
      using stream_okD [OF assms(1) _ s(2), of c "y @ rest"] less.prems s(1) by auto
    have n: "(if length s > CHUNK_LENGTH - 1 then CHUNK_LENGTH - 1 else length s) = length x"
      using s(3) by (simp add: CHUNK_LENGTH_def)
    have l: "length s - length x = length y" "0 < length s" using s by (simp_all add: x_def y_def)
    have "redis_slices rd (length s) r c = redis_slices rd (length y) (rr_put x r) c1"
      unfolding redis_slices.simps [of rd "length s" r c] Let_def n c1(1) l(1) using l(2) by simp
    moreover have "slices_of s = x # slices_of y" using False by (subst slices_of.simps) (simp add: x_def y_def)
    moreover have "length y < length s" using l s(2) by (metis length_greater_0_conv diff_less)
    then have "\<exists>c'. redis_slices rd (length y) (rr_put x r) c1 = Some (foldl (\<lambda>r b. rr_put b r) (rr_put x r) (slices_of y), c') \<and>
      contents c' = rest"
      by (rule less.hyps) (rule c1(2))
    ultimately show ?thesis by simp
  qed
qed

lemma slices_concat: "concat (take n (slices_of s)) = take (8191 * n) s"
proof (induction n arbitrary: s)
  case (Suc n)
  show ?case
  proof (cases "s = []")
    case False
    then have "concat (take (Suc n) (slices_of s)) = take 8191 s @ take (8191 * n) (drop 8191 s)"
      by (subst slices_of.simps) (simp add: Suc)
    also have "\<dots> = take (8191 + 8191 * n) s" by (simp only: take_add)
    finally show ?thesis by simp
  qed (simp add: slices_of.simps [of "[]"])
qed simp

lemma get_string_read:
  assumes "stream_ok rd contents" "gets_ok gets contents"
    and "contents c = decimal (length s) @ crlf @ s @ crlf @ rest" "length s < 2 ^ 31"
  shows "\<exists>c'. get_string sliced rd gets c = Some (result_of sliced (P_string s), c') \<and> contents c' = rest"
proof -
  obtain c1 where c1: "gets c = Some (decimal (length s), c1)" "contents c1 = s @ crlf @ rest"
    using gets_okD [OF assms(2,3) clean_decimal] .
  have nl: "\<exists>c'. gets c2 = Some ([], c') \<and> contents c' = rest" if "contents c2 = crlf @ rest" for c2
    using gets_okD [OF assms(2), of c2 "[]" rest] that by (auto simp: clean_line_def)
  show ?thesis
  proof (cases sliced)
    case False
    have "\<exists>c2. (if 0 < length s then rd c1 (length s) else Some ([], c1)) = Some (s, c2) \<and> contents c2 = crlf @ rest"
    proof (cases "s = []")
      case False
      then obtain c2 where "rd c1 (length s) = Some (s, c2)" "contents c2 = crlf @ rest"
        using stream_okD [OF assms(1) c1(2)] by blast
      with False show ?thesis by simp
    qed (use c1(2) in simp)
    then obtain c2 where "(if 0 < length s then rd c1 (length s) else Some ([], c1)) = Some (s, c2)" "contents c2 = crlf @ rest"
      by blast
    with nl [of c2] False c1(1) assms(4) show ?thesis
      by (auto simp: get_string_def Let_def rr_put_def rr_set_size_def rr_set_type_def rr_new_def)
  next
    case True
    have size: "length s div CHUNK_LENGTH + (if length s mod CHUNK_LENGTH \<noteq> 0 then 1 else 0) = slice_count s"
    proof -
      have "(n + 8191) div 8192 = n div 8192 + (if n mod 8192 \<noteq> 0 then 1 else 0)" for n :: nat
      proof -
        define q where "q = n div 8192"
        define r where "r = n mod 8192"
        have n: "n = 8192 * q + r" "r < 8192" by (simp_all add: q_def r_def)
        have "(n + 8191) div 8192 = q + (r + 8191) div 8192" unfolding n(1) by (simp add: add.assoc)
        also have "(r + 8191) div 8192 = (if r \<noteq> 0 then 1 else 0)" using n(2) by (auto simp: le_div_geq)
        finally show ?thesis by (simp add: q_def r_def)
      qed
      then show ?thesis by (simp add: CHUNK_LENGTH_def slice_count_def)
    qed
    define r where "r = Redis_result RT_STRING (slice_count s) [] []"
    obtain c2 where "redis_slices rd (length s) r c1 = Some (foldl (\<lambda>r b. rr_put b r) r (slices_of s), c2)"
      "contents c2 = crlf @ rest"
      using redis_slices_read [OF assms(1) c1(2)] by blast
    moreover have "foldl (\<lambda>r b. rr_put b r) r (slices_of s) = result_of sliced (P_string s)"
      using True by (simp add: r_def put_all)
    moreover have "rr_set_size (slice_count s) (rr_set_type RT_STRING rr_new) = r"
      by (simp add: r_def rr_set_size_def rr_set_type_def rr_new_def)
    ultimately show ?thesis
      using nl [of c2] True unfolding get_string_def c1(1) option.case prod.case Let_def cstr_decimal atoi_decimal [OF assms(4)] nat_int size
      by auto
  qed
qed

section \<open>Whole replies\<close>

lemma get_elements_read:
  assumes "\<And>v d c rest. v \<in> set vs \<Longrightarrow> P v d \<Longrightarrow> contents c = resp_bytes v @ rest \<Longrightarrow>
      \<exists>c'. get_object d sliced rd gets c = Some (Some (result_of sliced v, c')) \<and> contents c' = rest"
    and "\<forall>v \<in> set vs. P v d" "i = 0 \<longrightarrow> ch = []" "contents c = concat (map resp_bytes vs) @ rest"
  shows "\<exists>c'. get_elements d sliced rd gets (length vs) i (Redis_result ty n argv ch) c =
    Some (Some (Redis_result ty n argv (ch @ map (result_of sliced) vs), c')) \<and> contents c' = rest"
  using assms
proof (induction vs arbitrary: i ch c)
  case (Cons v vs)
  obtain c1 where c1: "get_object d sliced rd gets c = Some (Some (result_of sliced v, c1))"
    "contents c1 = concat (map resp_bytes vs) @ rest"
    using Cons.prems(1) [of v d c "concat (map resp_bytes vs) @ rest"] Cons.prems(2,4) by auto
  have p: "rr_put_child (result_of sliced v) i (Redis_result ty n argv ch) =
      Redis_result ty n argv (ch @ [result_of sliced v])"
    using Cons.prems(3) by (auto simp: rr_put_child_def)
  have "\<exists>c'. get_elements d sliced rd gets (length vs) (Suc i) (Redis_result ty n argv (ch @ [result_of sliced v])) c1 =
      Some (Some (Redis_result ty n argv ((ch @ [result_of sliced v]) @ map (result_of sliced) vs), c')) \<and> contents c' = rest"
    by (rule Cons.IH) (use Cons.prems c1(2) in auto)
  then show ?case using c1(1) p by simp
qed simp

lemma depth_elements: "v \<in> set vs \<Longrightarrow> resp_depth v \<le> foldr max (map resp_depth vs) 0"
  by (induction vs) auto

lemma get_object_read:
  assumes s: "stream_ok rd contents" and g: "gets_ok gets contents"
  shows "resp_ok v \<Longrightarrow> resp_depth v \<le> d \<Longrightarrow> contents c = resp_bytes v @ rest \<Longrightarrow>
    \<exists>c'. get_object d sliced rd gets c = Some (Some (result_of sliced v, c')) \<and> contents c' = rest"
proof (induction v arbitrary: d c rest)
  have first: "\<exists>c1. rd c 1 = Some ([b], c1) \<and> contents c1 = bs" if "contents c = b # bs" for c b bs
    using stream_okD [OF s, of c "[b]" bs] that by auto
  have minus: "atoi (cstr [45, 49]) = -1" by code_simp
  have ml: "clean_line [45, 49]" by (simp add: clean_line_def)
  {
    case (P_error x)
    obtain d' where d: "d = Suc d'" using P_error(2) by (cases d) auto
    obtain c1 where c1: "rd c 1 = Some ([45], c1)" "contents c1 = x @ crlf @ rest"
      using first [of c 45 "x @ crlf @ rest"] P_error(3) by auto
    then show ?case using redis_line_read [OF g c1(2), of RT_ERROR] P_error(1) by (simp add: d)
  next
    case (P_status x)
    obtain d' where d: "d = Suc d'" using P_status(2) by (cases d) auto
    obtain c1 where c1: "rd c 1 = Some ([43], c1)" "contents c1 = x @ crlf @ rest"
      using first [of c 43 "x @ crlf @ rest"] P_status(3) by auto
    then show ?case using redis_line_read [OF g c1(2), of RT_STATUS] P_status(1) by (simp add: d)
  next
    case (P_integer x)
    obtain d' where d: "d = Suc d'" using P_integer(2) by (cases d) auto
    obtain c1 where c1: "rd c 1 = Some ([58], c1)" "contents c1 = x @ crlf @ rest"
      using first [of c 58 "x @ crlf @ rest"] P_integer(3) by auto
    then show ?case using redis_line_read [OF g c1(2), of RT_INTEGER] P_integer(1) by (simp add: d)
  next
    case (P_string x)
    obtain d' where d: "d = Suc d'" using P_string(2) by (cases d) auto
    obtain c1 where c1: "rd c 1 = Some ([36], c1)" "contents c1 = decimal (length x) @ crlf @ x @ crlf @ rest"
      using first [of c 36 "decimal (length x) @ crlf @ x @ crlf @ rest"] P_string(3) by auto
    then show ?case using get_string_read [OF s g c1(2), of sliced] P_string(1) by (simp add: d)
  next
    case P_nil
    obtain d' where d: "d = Suc d'" using P_nil(2) by (cases d) auto
    obtain c1 where c1: "rd c 1 = Some ([36], c1)" "contents c1 = [45, 49] @ crlf @ rest"
      using first [of c 36 "[45, 49] @ crlf @ rest"] P_nil(3) by auto
    obtain c2 where "gets c1 = Some ([45, 49], c2)" "contents c2 = rest" using gets_okD [OF g c1(2) ml] .
    then show ?case using c1(1) minus by (simp add: d get_string_def Let_def rr_set_type_def rr_new_def)
  next
    case (P_array vs)
    obtain d' where d: "d = Suc d'" using P_array(3) by (cases d) auto
    obtain c1 where c1: "rd c 1 = Some ([42], c1)" "contents c1 = decimal (length vs) @ crlf @ concat (map resp_bytes vs) @ rest"
      using first [of c 42 "decimal (length vs) @ crlf @ concat (map resp_bytes vs) @ rest"] P_array(4) by auto
    obtain c2 where c2: "gets c1 = Some (decimal (length vs), c2)" "contents c2 = concat (map resp_bytes vs) @ rest"
      using gets_okD [OF g c1(2) clean_decimal] .
    have "\<exists>c'. get_elements d' sliced rd gets (length vs) 0 (Redis_result RT_ARRAY (length vs) [] []) c2 =
      Some (Some (Redis_result RT_ARRAY (length vs) [] ([] @ map (result_of sliced) vs), c')) \<and> contents c' = rest"
    proof (rule get_elements_read [where P = "\<lambda>v d. resp_ok v \<and> resp_depth v \<le> d"])
      show "\<forall>v \<in> set vs. resp_ok v \<and> resp_depth v \<le> d'"
        using P_array(2,3) depth_elements d by (fastforce simp: list_all_iff)
    qed (use P_array(1) c2(2) in auto)
    then show ?case
      using c1(1) c2 P_array(2) by (cases "vs = []") (auto simp: d Let_def rr_set_type_def rr_set_size_def rr_new_def)
  next
    case P_nil_array
    obtain d' where d: "d = Suc d'" using P_nil_array(2) by (cases d) auto
    obtain c1 where c1: "rd c 1 = Some ([42], c1)" "contents c1 = [45, 49] @ crlf @ rest"
      using first [of c 42 "[45, 49] @ crlf @ rest"] P_nil_array(3) by auto
    obtain c2 where "gets c1 = Some ([45, 49], c2)" "contents c2 = rest" using gets_okD [OF g c1(2) ml] .
    then show ?case using c1(1) minus by (simp add: d Let_def rr_set_type_def rr_new_def)
  }
qed

end
