(* ===== verification/RedisCommand.thy ===== *)
theory RedisCommand
  imports RedisRun
begin

text \<open>
  The requests of \<^verbatim>\<open>redis_command\<close> (\<^verbatim>\<open>redis/redis_command.cpp\<close>), the list of pieces
  \<^verbatim>\<open>redis_request\<close> (\<^verbatim>\<open>redis/redis_request.cpp\<close>) and the access to the results.

  The arrays \<^verbatim>\<open>argv_\<close> and \<^verbatim>\<open>argv_lens_\<close> are a list of slots: \<^const>\<open>None\<close> is memory that was never
  written, otherwise the bytes the slot was last set to; a slot that an earlier call has set is read
  through a pointer the caller may have freed since. Reading memory that was never written, writing
  behind an array and \<^verbatim>\<open>logger_fatal\<close> give \<^const>\<open>None\<close>.
\<close>

section \<open>Numbers as text\<close>

definition digit_char :: "nat \<Rightarrow> byte" where
  "digit_char d = (if d > 9 then word_of_nat (d - 10) + 97 else 48 + word_of_nat d)"

text \<open>The first loop of \<^verbatim>\<open>x64toa\<close> stores the digits, the second turns them around.\<close>

fun x64_digits :: "nat \<Rightarrow> u64 \<Rightarrow> u64 \<Rightarrow> byte list" where
  "x64_digits 0 val radix = []"
| "x64_digits (Suc n) val radix =
     digit_char (unat (val mod radix)) # (if val div radix > 0 then x64_digits n (val div radix) radix else [])"

definition x64toa :: "u64 \<Rightarrow> nat \<Rightarrow> u64 \<Rightarrow> bool \<Rightarrow> byte list" where
  "x64toa val n radix is_neg =
     (if is_neg then 45 # rev (x64_digits n (- val) radix) else rev (x64_digits n val radix))"

definition ui64toa_radix :: "u64 \<Rightarrow> nat \<Rightarrow> u64 \<Rightarrow> byte list" where
  "ui64toa_radix val n radix = x64toa val n radix False"

text \<open>What \<^verbatim>\<open>safe_snprintf\<close> stores of a text and returns.\<close>

definition safe_snprintf :: "nat \<Rightarrow> byte list \<Rightarrow> byte list \<times> nat" where
  "safe_snprintf n s = (take (n - 1) s, length s)"

definition INT_LEN :: nat where "INT_LEN = 11"
definition LONG_LEN :: nat where "LONG_LEN = 21"
definition BLEN :: nat where "BLEN = 32"

section \<open>The pieces of a request\<close>

text \<open>A piece lies in the memory pool of the command or is an argument of the caller.\<close>

datatype piece = In_dbuf "byte list" | Of_caller "byte list"

definition piece_bytes :: "piece \<Rightarrow> byte list" where
  "piece_bytes x = (case x of In_dbuf bs \<Rightarrow> bs | Of_caller bs \<Rightarrow> bs)"

record redis_request =
  rq_iov :: "piece option list"
  rq_argc :: nat

definition rq_new :: redis_request where
  "rq_new = \<lparr>rq_iov = [], rq_argc = 0\<rparr>"

definition rq_clear :: "redis_request \<Rightarrow> redis_request" where
  "rq_clear r = r\<lparr>rq_argc := 0\<rparr>"

definition rq_reserve :: "nat \<Rightarrow> redis_request \<Rightarrow> redis_request" where
  "rq_reserve n r =
     (if length (rq_iov r) \<ge> n then r
      else r\<lparr>rq_iov := rq_iov r @ replicate (n - length (rq_iov r)) None\<rparr>)"

definition rq_put :: "piece \<Rightarrow> redis_request \<Rightarrow> redis_request option" where
  "rq_put data r =
     (if rq_argc r < length (rq_iov r) then
        Some (r\<lparr>rq_iov := (rq_iov r)[rq_argc r := Some data], rq_argc := Suc (rq_argc r)\<rparr>)
      else None)"

definition rq_pieces :: "redis_request \<Rightarrow> piece option list" where
  "rq_pieces r = take (rq_argc r) (rq_iov r)"

section \<open>Requests\<close>

record redis_command =
  cm_argv :: "byte list option list"
  cm_argc :: nat
  cm_slot :: int
  cm_pipeline :: bool
  cm_slice_req :: bool
  cm_buf :: "byte list option"
  cm_obj :: "redis_request option"
  cm_msg :: "int option"

definition cm_new :: redis_command where
  "cm_new = \<lparr>cm_argv = [], cm_argc = 0, cm_slot = -1, cm_pipeline = False, cm_slice_req = False,
     cm_buf = None, cm_obj = None, cm_msg = None\<rparr>"

definition set_slice_request :: "bool \<Rightarrow> redis_command \<Rightarrow> redis_command" where
  "set_slice_request on c = c\<lparr>cm_slice_req := on\<rparr>"

text \<open>\<^verbatim>\<open>clear\<close> resets the memory pool: what lay in it is no more.\<close>

definition rq_released :: "redis_request \<Rightarrow> redis_request" where
  "rq_released r = r\<lparr>rq_iov := map (\<lambda>x. case x of Some (Of_caller a) \<Rightarrow> x | _ \<Rightarrow> None) (rq_iov r)\<rparr>"

definition cm_clear :: "bool \<Rightarrow> redis_command \<Rightarrow> redis_command" where
  "cm_clear save_slot c =
     (let c = c\<lparr>cm_obj := map_option rq_released (cm_obj c)\<rparr> in if save_slot then c else c\<lparr>cm_slot := -1\<rparr>)"

text \<open>\<open>max_slot\<close> is the one of the cluster or the pipeline, \<^const>\<open>None\<close> without either.\<close>

definition hash_slot :: "(byte list \<Rightarrow> nat) \<Rightarrow> int option \<Rightarrow> byte list \<Rightarrow> redis_command \<Rightarrow> redis_command" where
  "hash_slot crc16 max_slot key c =
     (case max_slot of
        None \<Rightarrow> c
      | Some m \<Rightarrow>
          if m \<le> 0 then c
          else if cm_slot c \<ge> 0 \<and> cm_slot c < m then c
          else c\<lparr>cm_slot := int (crc16 key) mod m\<rparr>)"

definition argv_space :: "nat \<Rightarrow> byte list option list \<Rightarrow> byte list option list" where
  "argv_space n argv = (if length argv \<ge> n then argv else argv @ replicate (n - length argv) None)"

text \<open>The static \<^verbatim>\<open>build_request\<close>, which appends to a string.\<close>

definition append_number :: "byte \<Rightarrow> nat \<Rightarrow> byte list \<Rightarrow> byte list" where
  "append_number c n out = out @ [c] @ ui64toa_radix (word_of_nat n) 64 10 @ crlf"

fun append_args :: "byte list option list \<Rightarrow> byte list \<Rightarrow> byte list option" where
  "append_args [] out = Some out"
| "append_args (None # args) out = None"
| "append_args (Some a # args) out = append_args args (append_number 36 (length a) out @ a @ crlf)"

definition build_request_to :: "byte list option list \<Rightarrow> byte list \<Rightarrow> byte list option" where
  "build_request_to argv out = append_args argv (append_number 42 (length argv) out)"

definition build_request1 :: "byte list option list \<Rightarrow> redis_command \<Rightarrow> redis_command option" where
  "build_request1 argv c =
     (case build_request_to argv [] of None \<Rightarrow> None | Some buf \<Rightarrow> Some (c\<lparr>cm_buf := Some buf\<rparr>))"

definition put_number :: "byte \<Rightarrow> nat \<Rightarrow> redis_request \<Rightarrow> redis_request option" where
  "put_number c n r = (let (buf, len) = safe_snprintf BLEN (c # decimal n @ crlf) in rq_put (In_dbuf (take len buf)) r)"

fun put_args :: "byte list option list \<Rightarrow> redis_request \<Rightarrow> redis_request option" where
  "put_args [] r = Some r"
| "put_args (None # args) r = None"
| "put_args (Some a # args) r =
     (case put_number 36 (length a) r of
        None \<Rightarrow> None
      | Some r1 \<Rightarrow>
          (case rq_put (Of_caller a) r1 of
             None \<Rightarrow> None
           | Some r2 \<Rightarrow> (case rq_put (In_dbuf crlf) r2 of None \<Rightarrow> None | Some r3 \<Rightarrow> put_args args r3)))"

definition build_request2 :: "byte list option list \<Rightarrow> redis_command \<Rightarrow> redis_command option" where
  "build_request2 argv c =
     (let n = 1 + length argv * 3;
          obj = rq_reserve n (case cm_obj c of None \<Rightarrow> rq_new | Some r \<Rightarrow> rq_clear r)
      in case put_number 42 (length argv) obj of
           None \<Rightarrow> None
         | Some r \<Rightarrow> (case put_args argv r of None \<Rightarrow> None | Some r' \<Rightarrow> Some (c\<lparr>cm_obj := Some r'\<rparr>)))"

text \<open>A message of the pipeline refers to the request buffer, and keeps the slot.\<close>

definition build_request :: "byte list option list \<Rightarrow> redis_command \<Rightarrow> redis_command option" where
  "build_request argv c =
     (if cm_pipeline c then
        (case build_request1 argv c of None \<Rightarrow> None | Some c' \<Rightarrow> Some (c'\<lparr>cm_msg := Some (cm_slot c')\<rparr>))
      else if cm_slice_req c then build_request2 argv c
      else build_request1 argv c)"

text \<open>
  All the methods \<^verbatim>\<open>build\<close> have one shape: they reserve the slots, set the command, the key if it is not
  NULL and the arguments from the first slot on, and build a request of the first \<^verbatim>\<open>argc_\<close> slots. Those
  that know the length of the key skip an empty one (\<open>skip\<close>).
\<close>

definition key_args :: "bool \<Rightarrow> byte list option \<Rightarrow> byte list list" where
  "key_args skip key = (case key of None \<Rightarrow> [] | Some k \<Rightarrow> if skip \<and> k = [] then [] else [k])"

definition build_with :: "bool \<Rightarrow> byte list \<Rightarrow> byte list option \<Rightarrow> byte list list \<Rightarrow> redis_command \<Rightarrow> redis_command option" where
  "build_with skip cmd key args c =
     (let argc = 1 + length args + (if key \<noteq> None then 1 else 0);
          argv = argv_space argc (cm_argv c);
          stored = cmd # key_args skip key @ args;
          argv' = map Some stored @ drop (length stored) argv
      in build_request (take argc argv') (c\<lparr>cm_argc := argc, cm_argv := argv'\<rparr>))"

definition pairs_args :: "(byte list \<times> byte list) list \<Rightarrow> byte list list" where
  "pairs_args ps = concat (map (\<lambda>(n, v). [n, v]) ps)"

definition int_arg :: "int \<Rightarrow> byte list" where
  "int_arg i = fst (safe_snprintf INT_LEN (decimal_int i))"

text \<open>With a map of strings, in the order of the map; of strings and C strings; with two vectors.\<close>

definition build_attrs :: "byte list \<Rightarrow> byte list option \<Rightarrow> (byte list \<times> byte list) list \<Rightarrow> redis_command \<Rightarrow> redis_command option" where
  "build_attrs cmd key attrs = build_with True cmd key (pairs_args attrs)"

definition build_attrs_cstr :: "byte list \<Rightarrow> byte list option \<Rightarrow> (byte list \<times> byte list) list \<Rightarrow> redis_command \<Rightarrow> redis_command option" where
  "build_attrs_cstr cmd key attrs =
     build_with False cmd (map_option cstr key) (pairs_args (map (map_prod (\<lambda>n. n) cstr) attrs))"

definition build_pairs :: "byte list \<Rightarrow> byte list option \<Rightarrow> byte list list \<Rightarrow> byte list list \<Rightarrow> redis_command \<Rightarrow> redis_command option" where
  "build_pairs cmd key names values c =
     (if length names \<noteq> length values then None else build_with True cmd key (pairs_args (zip names values)) c)"

definition build_pairs_cstr :: "byte list \<Rightarrow> byte list option \<Rightarrow> byte list list \<Rightarrow> byte list list \<Rightarrow> redis_command \<Rightarrow> redis_command option" where
  "build_pairs_cstr cmd key names values c =
     (if length names \<noteq> length values then None
      else build_with False cmd (map_option cstr key) (pairs_args (zip (map cstr names) (map cstr values))) c)"

definition build_arrays :: "byte list \<Rightarrow> byte list option \<Rightarrow> (byte list \<times> byte list) list \<Rightarrow> redis_command \<Rightarrow> redis_command option" where
  "build_arrays cmd key ps = build_with False cmd (map_option cstr key) (pairs_args (map (map_prod cstr cstr) ps))"

definition build_int_arrays :: "byte list \<Rightarrow> byte list option \<Rightarrow> (int \<times> byte list) list \<Rightarrow> redis_command \<Rightarrow> redis_command option" where
  "build_int_arrays cmd key ps = build_with False cmd (map_option cstr key) (pairs_args (map (map_prod int_arg cstr) ps))"

definition build_arrays_len :: "byte list \<Rightarrow> byte list option \<Rightarrow> (byte list \<times> byte list) list \<Rightarrow> redis_command \<Rightarrow> redis_command option" where
  "build_arrays_len cmd key ps = build_with True cmd key (pairs_args ps)"

text \<open>With one list: of strings (or an array with lengths), of C strings, of numbers.\<close>

definition build_names :: "byte list \<Rightarrow> byte list option \<Rightarrow> byte list list \<Rightarrow> redis_command \<Rightarrow> redis_command option" where
  "build_names cmd key names = build_with True cmd key names"

definition build_names_cstr :: "byte list \<Rightarrow> byte list option \<Rightarrow> byte list list \<Rightarrow> redis_command \<Rightarrow> redis_command option" where
  "build_names_cstr cmd key names = build_with False cmd (map_option cstr key) (map cstr names)"

definition build_ints :: "byte list \<Rightarrow> byte list option \<Rightarrow> int list \<Rightarrow> redis_command \<Rightarrow> redis_command option" where
  "build_ints cmd key names = build_with False cmd (map_option cstr key) (map int_arg names)"

text \<open>\<^verbatim>\<open>request\<close> with a vector; NULL if it is empty.\<close>

definition request_args :: "byte list list \<Rightarrow> redis_command \<Rightarrow> redis_command option" where
  "request_args args c =
     (let argv = argv_space (length args) (cm_argv c);
          argv' = map Some args @ drop (length args) argv
      in build_request (take (length args) argv') (c\<lparr>cm_argc := length args, cm_argv := argv'\<rparr>))"

text \<open>What \<^verbatim>\<open>run\<close> hands over: the buffer, or the pieces for \<^verbatim>\<open>writev\<close>.\<close>

definition sent_request :: "redis_command \<Rightarrow> byte list option" where
  "sent_request c =
     (if cm_slice_req c \<and> \<not> cm_pipeline c then
        (case cm_obj c of
           None \<Rightarrow> Some []
         | Some r \<Rightarrow> if None \<in> set (rq_pieces r) then None else Some (concat (map (\<lambda>x. piece_bytes (the x)) (rq_pieces r))))
      else (case cm_buf c of None \<Rightarrow> Some [] | Some b \<Rightarrow> Some b))"

section \<open>Results\<close>

text \<open>What the methods make of the result of \<^verbatim>\<open>run\<close>; \<^const>\<open>None\<close> is NULL.\<close>

definition is_type :: "redis_type \<Rightarrow> redis_result option \<Rightarrow> bool" where
  "is_type ty r = (case r of None \<Rightarrow> False | Some rr \<Rightarrow> rr_type rr = ty)"

definition integer_or :: "redis_result \<Rightarrow> int" where
  "integer_or r = (case rr_get_integer r of None \<Rightarrow> -1 | Some i \<Rightarrow> i)"

definition get_number :: "redis_result option \<Rightarrow> int \<times> bool" where
  "get_number r = (if \<not> is_type RT_INTEGER r then (-1, False) else (integer_or (the r), True))"

definition get_numbers :: "redis_result option \<Rightarrow> int \<times> int list" where
  "get_numbers r =
     (if \<not> is_type RT_ARRAY r then (-1, [])
      else (int (length (rr_children (the r))), map integer_or (rr_children (the r))))"

definition check_status :: "byte list option \<Rightarrow> redis_result option \<Rightarrow> bool" where
  "check_status success r =
     (if \<not> is_type RT_STATUS r then False
      else let status = cstr (rr_get_status (the r)) in
        if status = [] then False
        else case success of
          None \<Rightarrow> True
        | Some s \<Rightarrow> map to_lower status = map to_lower (cstr s))"

definition get_statuses :: "redis_result option \<Rightarrow> int \<times> bool list" where
  "get_statuses r =
     (if \<not> is_type RT_ARRAY r then (-1, [])
      else (int (length (rr_children (the r))), map (\<lambda>c. integer_or c > 0) (rr_children (the r))))"

definition get_status :: "redis_result option \<Rightarrow> byte list" where
  "get_status r = (if \<not> is_type RT_STATUS r then [] else rr_get_status (the r))"

definition cmd_get_string :: "redis_result option \<Rightarrow> int \<times> byte list" where
  "cmd_get_string r =
     (if \<not> is_type RT_STRING r then (-1, [])
      else let (buf, n) = rr_argv_to_string (the r) in (int n, buf))"

definition string_or_empty :: "redis_result \<Rightarrow> byte list" where
  "string_or_empty r = (if rr_type r \<noteq> RT_STRING then [] else if rr_get_size r = 0 then [] else fst (rr_argv_to_string r))"

definition get_strings :: "redis_result option \<Rightarrow> int \<times> byte list list" where
  "get_strings r =
     (if \<not> is_type RT_ARRAY r then (-1, [])
      else (int (length (rr_children (the r))), map string_or_empty (rr_children (the r))))"

text \<open>The loop over names and values; \<open>f\<close> takes the text out of a result.\<close>

fun string_pairs :: "(redis_result \<Rightarrow> 'a) \<Rightarrow> redis_result list \<Rightarrow> ('a \<times> 'a) list" where
  "string_pairs f (n # v # rest) =
     (if rr_type n \<noteq> RT_STRING then string_pairs f rest
      else if rr_type v \<noteq> RT_STRING then string_pairs f rest
      else (f n, f v) # string_pairs f rest)"
| "string_pairs f _ = []"

definition pairs_of :: "(redis_result \<Rightarrow> 'a) \<Rightarrow> redis_result option \<Rightarrow> int \<times> ('a \<times> 'a) list" where
  "pairs_of f r =
     (if \<not> is_type RT_ARRAY r then (-1, [])
      else let cs = rr_children (the r) in
        if rr_get_size (the r) = 0 then (0, [])
        else if length cs mod 2 \<noteq> 0 then (-1, [])
        else let ps = string_pairs f cs in (int (length ps), ps))"

definition result_text :: "redis_result \<Rightarrow> byte list" where
  "result_text r = fst (rr_argv_to_string r)"

definition get_strings_map :: "redis_result option \<Rightarrow> int \<times> (byte list \<rightharpoonup> byte list)" where
  "get_strings_map r =
     (let (n, ps) = pairs_of result_text r
      in (if n < 0 then n else int (length (remdups (map fst ps))), map_of (rev ps)))"

definition get_strings_pairs :: "redis_result option \<Rightarrow> int \<times> byte list list \<times> byte list list" where
  "get_strings_pairs r = (let (n, ps) = pairs_of result_text r in (n, map fst ps, map snd ps))"

text \<open>With C strings: what is stored in a buffer of one byte more than the text.\<close>

definition result_cstr :: "redis_result \<Rightarrow> byte list" where
  "result_cstr r = fst (rr_argv_to_buf (rr_get_length r + 1) r)"

definition get_cstr_pairs :: "redis_result option \<Rightarrow> int \<times> byte list list \<times> byte list list" where
  "get_cstr_pairs r = (let (n, ps) = pairs_of result_cstr r in (n, map fst ps, map snd ps))"

definition result_value :: "nat \<Rightarrow> redis_result option \<Rightarrow> byte list option" where
  "result_value i r =
     (if \<not> is_type RT_ARRAY r then None
      else case rr_get_child i (the r) of
        None \<Rightarrow> None
      | Some child \<Rightarrow>
          if rr_get_size child = 0 then None
          else if rr_get_size child = 1 then rr_get 0 child
          else Some (result_cstr child))"

section \<open>Scanning\<close>

definition scan_args :: "byte list \<Rightarrow> byte list \<Rightarrow> int \<Rightarrow> byte list \<Rightarrow> nat option \<Rightarrow> byte list list" where
  "scan_args cmd key cursor pattern count =
     [cmd] @ (if key \<noteq> [] \<and> hd key \<noteq> 0 then [key] else []) @ [int_arg cursor] @
     (if cstr pattern \<noteq> [] then [[77, 65, 84, 67, 72], cstr pattern] else []) @
     (case count of
        None \<Rightarrow> []
      | Some n \<Rightarrow> if n > 0 then [[67, 79, 85, 78, 84], fst (safe_snprintf LONG_LEN (decimal n))] else [])"

text \<open>The new cursor and the elements; \<^const>\<open>None\<close> is NULL.\<close>

definition scan_reply :: "redis_result option \<Rightarrow> int \<times> redis_result list option" where
  "scan_reply r =
     (case r of
        None \<Rightarrow> (-1, None)
      | Some result \<Rightarrow>
          if rr_get_size result \<noteq> 2 then (-1, None)
          else case rr_get_child 0 result of
            None \<Rightarrow> (-1, None)
          | Some rr \<Rightarrow>
              let (tmp, n) = rr_argv_to_string rr in
              if n = 0 then (-1, None)
              else let cursor = atoi (cstr tmp) in
                if cursor < 0 then (-1, None)
                else case rr_get_child 1 result of
                  None \<Rightarrow> (-1, None)
                | Some rr1 \<Rightarrow> (cursor, if rr_children rr1 = [] then None else Some (rr_children rr1)))"

end
