(* ===== verification/RedisCommandRun.thy ===== *)
theory RedisCommandRun
  imports RedisCommand
begin

text \<open>
  Lemmas on requests: the text of a number, the bytes of a request as a string and in pieces, the
  slots the methods \<^verbatim>\<open>build\<close> leave, and the numbers among the arguments.
\<close>

section \<open>Numbers\<close>

lemma x64_decimal: "unat v < 10 ^ n \<Longrightarrow> n > 0 \<Longrightarrow> rev (x64_digits n v 10) = decimal (unat v)"
proof (induction n arbitrary: v)
  case (Suc n)
  have m: "unat (v mod 10) = unat v mod 10" "unat (v div 10) = unat v div 10" by (simp_all add: unat_mod unat_div)
  have d: "digit_char (unat v mod 10) = 48 + word_of_nat (unat v mod 10)" by (simp add: digit_char_def)
  have z: "v div 10 > 0 \<longleftrightarrow> unat v \<ge> 10"
    using m(2) by (metis div_greater_zero_iff unat_gt_0 zero_less_numeral word_gt_0)
  show ?case
  proof (cases "unat v < 10")
    case True
    then show ?thesis using m(1) d z by (simp add: decimal.simps [of "unat v"])
  next
    case False
    have b: "unat (v div 10) < 10 ^ n" using Suc.prems(1) by (simp add: m(2) div_less_iff_less_mult mult.commute)
    have "n > 0" using b False m(2) by (cases n) auto
    then show ?thesis using Suc.IH [OF b] m d z False by (simp add: decimal.simps [of "unat v"])
  qed
qed simp

lemma ui64toa_decimal:
  assumes "n < 2 ^ 64"
  shows "ui64toa_radix (word_of_nat n) 64 10 = decimal n"
proof -
  have u: "unat (word_of_nat n :: u64) = n" using assms by (simp add: unat_of_nat)
  have "n < 10 ^ 64" using assms by (rule less_le_trans) simp
  then show ?thesis using x64_decimal [of "word_of_nat n" 64] unfolding ui64toa_radix_def x64toa_def u by simp
qed

lemma length_decimal: "n < 10 ^ k \<Longrightarrow> k > 0 \<Longrightarrow> length (decimal n) \<le> k"
proof (induction k arbitrary: n)
  case (Suc k)
  show ?case
  proof (cases "n < 10")
    case False
    then have "n div 10 < 10 ^ k" using Suc.prems(1) by (simp add: div_less_iff_less_mult mult.commute)
    moreover have "k > 0" using False Suc.prems(1) by (cases k) auto
    ultimately show ?thesis using Suc.IH [of "n div 10"] False by (simp add: decimal.simps [of n])
  qed (simp add: decimal.simps [of n])
qed simp

section \<open>A request as a string\<close>

abbreviation wire :: "byte list list \<Rightarrow> byte list" where
  "wire args \<equiv> resp_bytes (P_array (map P_string args))"

lemma append_args_read: 
  "\<forall>a \<in> set args. length a < 2 ^ 31 \<Longrightarrow>
    append_args (map Some args) out = Some (out @ concat (map resp_bytes (map P_string args)))"
proof (induction args arbitrary: out)
  case (Cons a args)
  have "length a < 2 ^ 64" using Cons.prems by (auto intro: less_trans)
  then show ?case using Cons by (simp add: append_number_def ui64toa_decimal)
qed simp

lemma build_request_to_wire:
  assumes "length args < 2 ^ 31" "\<forall>a \<in> set args. length a < 2 ^ 31"
  shows "build_request_to (map Some args) [] = Some (wire args)"
proof -
  have "length args < 2 ^ 64" using assms(1) by (rule less_trans) simp
  then show ?thesis using append_args_read [OF assms(2)] by (simp add: build_request_to_def append_number_def ui64toa_decimal)
qed

section \<open>A request in pieces\<close>

definition rq_holds :: "redis_request \<Rightarrow> piece list \<Rightarrow> nat \<Rightarrow> bool" where
  "rq_holds r ps room \<longleftrightarrow>
     rq_argc r = length ps \<and> rq_pieces r = map Some ps \<and> length ps + room \<le> length (rq_iov r)"

lemma rq_put_holds:
  assumes "rq_holds r ps (Suc room)"
  obtains r' where "rq_put d r = Some r'" "rq_holds r' (ps @ [d]) room"
proof -
  have a: "rq_argc r < length (rq_iov r)" "take (length ps) (rq_iov r) = map Some ps"
    using assms by (auto simp: rq_holds_def rq_pieces_def)
  have "take (Suc (length ps)) ((rq_iov r)[length ps := Some d]) = map Some ps @ [Some d]"
    using a assms by (simp add: take_Suc_conv_app_nth rq_holds_def)
  then show ?thesis using that a assms by (simp add: rq_put_def rq_holds_def rq_pieces_def)
qed

lemma put_number_holds:
  assumes "n < 2 ^ 31" "rq_holds r ps (Suc room)"
  obtains r' where "put_number c n r = Some r'" "rq_holds r' (ps @ [In_dbuf (c # decimal n @ crlf)]) room"
proof -
  have "n < 10 ^ 10" using assms(1) by (rule less_trans) simp
  then have "length (decimal n) \<le> 10" by (rule length_decimal) simp
  then have "put_number c n r = rq_put (In_dbuf (c # decimal n @ crlf)) r"
    by (simp add: put_number_def safe_snprintf_def BLEN_def)
  then show ?thesis using rq_put_holds [OF assms(2)] that by metis
qed

lemma put_args_holds:
  assumes "\<forall>a \<in> set args. length a < 2 ^ 31" "rq_holds r ps (3 * length args + room)"
  shows "\<exists>r' qs. put_args (map Some args) r = Some r' \<and> rq_holds r' (ps @ qs) room \<and>
    concat (map piece_bytes qs) = concat (map resp_bytes (map P_string args))"
  using assms
proof (induction args arbitrary: r ps)
  case Nil
  then have "rq_holds r (ps @ []) room" by simp
  then show ?case by fastforce
next
  case (Cons a args)
  have h: "rq_holds r ps (Suc (Suc (Suc (3 * length args + room))))" "length a < 2 ^ 31"
    using Cons.prems by (simp_all add: numeral_3_eq_3)
  obtain r1 where 1: "put_number 36 (length a) r = Some r1"
    "rq_holds r1 (ps @ [In_dbuf (36 # decimal (length a) @ crlf)]) (Suc (Suc (3 * length args + room)))"
    using put_number_holds [OF h(2,1)] .
  obtain r2 where 2: "rq_put (Of_caller a) r1 = Some r2"
    "rq_holds r2 ((ps @ [In_dbuf (36 # decimal (length a) @ crlf)]) @ [Of_caller a]) (Suc (3 * length args + room))"
    using rq_put_holds [OF 1(2)] .
  obtain r3 where 3: "rq_put (In_dbuf crlf) r2 = Some r3"
    "rq_holds r3 (((ps @ [In_dbuf (36 # decimal (length a) @ crlf)]) @ [Of_caller a]) @ [In_dbuf crlf]) (3 * length args + room)"
    using rq_put_holds [OF 2(2)] .
  have s: "\<forall>a \<in> set args. length a < 2 ^ 31" using Cons.prems(1) by simp
  obtain r' qs where 4: "put_args (map Some args) r3 = Some r'"
    "rq_holds r' ((((ps @ [In_dbuf (36 # decimal (length a) @ crlf)]) @ [Of_caller a]) @ [In_dbuf crlf]) @ qs) room"
    "concat (map piece_bytes qs) = concat (map resp_bytes (map P_string args))"
    using Cons.IH [OF s 3(2)] by blast
  have "rq_holds r' (ps @ ([In_dbuf (36 # decimal (length a) @ crlf), Of_caller a, In_dbuf crlf] @ qs)) room" using 4(2) by simp
  moreover have "concat (map piece_bytes ([In_dbuf (36 # decimal (length a) @ crlf), Of_caller a, In_dbuf crlf] @ qs)) = concat (map resp_bytes (map P_string (a # args)))"
    using 4(3) by (simp add: piece_bytes_def)
  moreover have "put_args (map Some (a # args)) r = Some r'" using 1(1) 2(1) 3(1) 4(1) by simp
  ultimately show ?case by blast
qed

lemma build_request2_pieces:
  assumes "length args < 2 ^ 31" "\<forall>a \<in> set args. length a < 2 ^ 31"
  shows "\<exists>r qs. build_request2 (map Some args) c = Some (c\<lparr>cm_obj := Some r\<rparr>) \<and>
    rq_pieces r = map Some (In_dbuf (42 # decimal (length args) @ crlf) # qs) \<and>
    concat (map piece_bytes qs) = concat (map resp_bytes (map P_string args))"
proof -
  define r0 where "r0 = rq_reserve (1 + length args * 3) (case cm_obj c of None \<Rightarrow> rq_new | Some r \<Rightarrow> rq_clear r)"
  have "rq_holds r0 [] (Suc (3 * length args + 0))"
    by (auto simp: r0_def rq_holds_def rq_pieces_def rq_reserve_def rq_clear_def rq_new_def split: option.splits)
  then obtain r1 where 1: "put_number 42 (length args) r0 = Some r1"
    "rq_holds r1 ([] @ [In_dbuf (42 # decimal (length args) @ crlf)]) (3 * length args + 0)"
    using put_number_holds [OF assms(1)] by blast
  obtain r2 qs where 2: "put_args (map Some args) r1 = Some r2"
    "rq_holds r2 (([] @ [In_dbuf (42 # decimal (length args) @ crlf)]) @ qs) 0"
    "concat (map piece_bytes qs) = concat (map resp_bytes (map P_string args))"
    using put_args_holds [OF assms(2) 1(2)] by blast
  have "build_request2 (map Some args) c = Some (c\<lparr>cm_obj := Some r2\<rparr>)"
    using 1(1) 2(1) by (simp add: build_request2_def r0_def)
  moreover have "rq_pieces r2 = map Some (In_dbuf (42 # decimal (length args) @ crlf) # qs)" using 2(2) by (simp add: rq_holds_def)
  ultimately show ?thesis using 2(3) by blast
qed

lemma build_request2_wire:
  assumes "length args < 2 ^ 31" "\<forall>a \<in> set args. length a < 2 ^ 31"
  shows "\<exists>r. build_request2 (map Some args) c = Some (c\<lparr>cm_obj := Some r\<rparr>) \<and>
    None \<notin> set (rq_pieces r) \<and> concat (map (\<lambda>x. piece_bytes (the x)) (rq_pieces r)) = wire args"
proof -
  obtain r qs where r: "build_request2 (map Some args) c = Some (c\<lparr>cm_obj := Some r\<rparr>)"
    "rq_pieces r = map Some (In_dbuf (42 # decimal (length args) @ crlf) # qs)"
    "concat (map piece_bytes qs) = concat (map resp_bytes (map P_string args))"
    using build_request2_pieces [OF assms] by blast
  then have "None \<notin> set (rq_pieces r) \<and> concat (map (\<lambda>x. piece_bytes (the x)) (rq_pieces r)) = wire args"
    by (auto simp: comp_def piece_bytes_def [of "In_dbuf x" for x])
  then show ?thesis using r(1) by blast
qed

lemma build_request_wire:
  assumes "length args < 2 ^ 31" "\<forall>a \<in> set args. length a < 2 ^ 31"
  shows "\<exists>c'. build_request (map Some args) c = Some c' \<and> sent_request c' = Some (wire args)"
proof -
  have b: "build_request1 (map Some args) c = Some (c\<lparr>cm_buf := Some (wire args)\<rparr>)"
    using build_request_to_wire [OF assms] by (simp add: build_request1_def)
  show ?thesis
  proof (cases "cm_slice_req c \<and> \<not> cm_pipeline c")
    case True
    obtain r where "build_request2 (map Some args) c = Some (c\<lparr>cm_obj := Some r\<rparr>)"
      "None \<notin> set (rq_pieces r)" "concat (map (\<lambda>x. piece_bytes (the x)) (rq_pieces r)) = wire args"
      using build_request2_wire [OF assms] by blast
    with True show ?thesis by (auto simp: build_request_def sent_request_def)
  next
    case False
    with b show ?thesis by (cases "cm_pipeline c") (auto simp: build_request_def sent_request_def)
  qed
qed

lemma append_args_undefined: "append_args (map Some xs @ None # ys) out = None"
  by (induction xs arbitrary: out) auto

lemma put_args_undefined: "put_args (map Some xs @ None # ys) r = None"
  by (induction xs arbitrary: r) (auto split: option.splits)

lemma build_request_undefined: "build_request (map Some xs @ None # ys) c = None"
  by (auto simp: build_request_def build_request1_def build_request2_def build_request_to_def append_args_undefined
    put_args_undefined Let_def split: option.splits)

text \<open>The request is read by the client's own parser.\<close>

lemma wire_read:
  assumes "length args < 2 ^ 31" "\<forall>a \<in> set args. length a < 2 ^ 31"
  shows "get_object 2 False list_reader list_gets (wire args @ rest) =
    Some (Some (Redis_result RT_ARRAY (length args) [] (map (\<lambda>a. Redis_result RT_STRING 1 [a] []) args), rest))"
proof -
  have ok: "resp_ok (P_array (map P_string args))" using assms by (auto simp: list_all_iff)
  have "foldr max (map resp_depth (map P_string args)) 0 \<le> 1" by (induction args) auto
  then have d: "resp_depth (P_array (map P_string args)) \<le> 2" by simp
  show ?thesis
    using get_object_read [OF list_reader_ok list_gets_ok ok d refl, of False rest] by (simp add: comp_def)
qed

section \<open>The slots\<close>

lemma build_with_slots:
  assumes "key \<noteq> Some [] \<or> \<not> skip"
  shows "\<exists>argv n. build_with skip cmd key args c =
    build_request (map Some (cmd # (case key of None \<Rightarrow> [] | Some k \<Rightarrow> [k]) @ args)) (c\<lparr>cm_argc := n, cm_argv := argv\<rparr>)"
proof -
  define stored where "stored = cmd # (case key of None \<Rightarrow> [] | Some k \<Rightarrow> [k]) @ args"
  have k: "cmd # key_args skip key @ args = stored"
    using assms by (auto simp: key_args_def stored_def split: option.splits)
  have l: "1 + length args + (if key \<noteq> None then 1 else 0) = length stored"
    by (auto simp: stored_def split: option.splits)
  have t: "take (length stored) (map Some stored @ xs) = map Some stored" for xs by simp
  have "build_with skip cmd key args c = build_request (map Some stored) (c\<lparr>cm_argc := length stored,
      cm_argv := map Some stored @ drop (length stored) (argv_space (length stored) (cm_argv c))\<rparr>)"
    unfolding build_with_def Let_def k l t ..
  then show ?thesis unfolding stored_def by blast
qed

lemma build_with_empty_key:
  fixes args :: "byte list list"
  assumes i: "i = Suc (length args)"
  shows "\<exists>argv n. build_with True cmd (Some []) args c =
    build_request (map Some (cmd # args) @ [if i < length (cm_argv c) then cm_argv c ! i else None])
      (c\<lparr>cm_argc := n, cm_argv := argv\<rparr>)"
proof -
  define argv where "argv = argv_space (Suc i) (cm_argv c)"
  have n: "i < length argv" and a: "argv ! i = (if i < length (cm_argv c) then cm_argv c ! i else None)"
    by (auto simp: argv_def argv_space_def nth_append)
  have "take (Suc i) (map Some (cmd # args) @ drop i argv) = map Some (cmd # args) @ [argv ! i]"
    using n by (simp add: i take_Suc_conv_app_nth Cons_nth_drop_Suc [symmetric])
  then have "build_with True cmd (Some []) args c = build_request (map Some (cmd # args) @ [argv ! i])
      (c\<lparr>cm_argc := Suc i, cm_argv := map Some (cmd # args) @ drop i argv\<rparr>)"
    by (simp add: build_with_def key_args_def argv_def i Let_def)
  then show ?thesis unfolding a by blast
qed

section \<open>Numbers among the arguments\<close>

lemma digits_of_decimal: "takeWhile is_digit (decimal n) = decimal n"
  using decimal_digits(1) [of n] by (auto simp: takeWhile_eq_all_conv list_all_iff)

lemma number_minus: "digits_number (45 # ds) = - digits_val (takeWhile is_digit ds)"
  by (simp add: digits_number_def is_space_def)

lemma atoi_minus:
  assumes "n \<le> 2 ^ 31"
  shows "atoi (45 # decimal n) = - int n"
proof -
  have "digits_number (45 # decimal n) = - int n"
    using decimal_digits(3) [of n] by (simp add: number_minus digits_of_decimal)
  then show ?thesis using assms atoi_number [of "45 # decimal n"] by simp
qed

lemma int_arg_value:
  assumes "- (2 ^ 31) \<le> i" "i < 2 ^ 31"
  shows "atoi (int_arg i) = (if i > - 1000000000 then i else - ((- i) div 10))"
proof -
  define k where "k = nat \<bar>i\<bar>"
  have k: "k < 10 ^ 10" using assms by (simp add: k_def)
  have l: "length (decimal k) \<le> 10" using k by (rule length_decimal) simp
  show ?thesis
  proof (cases "i < 0")
    case False
    moreover have "nat i < 2 ^ 31" using False assms(2) by simp
    ultimately show ?thesis using l by (simp add: int_arg_def decimal_int_def safe_snprintf_def INT_LEN_def k_def)
  next
    case neg: True
    show ?thesis
    proof (cases "k < 10 ^ 9")
      case True
      have "length (decimal k) \<le> 9" using True by (rule length_decimal) simp
      then show ?thesis using neg True assms
        by (simp add: int_arg_def decimal_int_def safe_snprintf_def INT_LEN_def k_def atoi_minus digits_of_decimal decimal_digits(3))
    next
      case False
      have d: "decimal k = decimal (k div 10) @ [48 + word_of_nat (k mod 10)]" using False by (subst decimal.simps) simp
      have "k div 10 < 10 ^ 9" using k by simp
      then have l9: "length (decimal (k div 10)) \<le> 9" by (rule length_decimal) simp
      have "\<not> k div 10 < 10 ^ 8" using False by simp
      have g: "length (decimal m) \<ge> 9" if "m \<ge> 10 ^ 8" for m
      proof -
        have "length (decimal m) \<ge> Suc j" if "m \<ge> 10 ^ j" for m j
          using that
        proof (induction j arbitrary: m)
          case 0
          then show ?case using decimal_digits(2) [of m] by (simp add: Suc_le_eq)
        next
          case (Suc j)
          then have "10 ^ j \<le> m div 10" by (simp add: less_eq_div_iff_mult_less_eq)
          moreover have "\<not> m < 10" using Suc.prems by (meson dual_order.trans not_less one_le_power power_increasing Suc_le_eq self_le_power one_le_numeral zero_less_Suc)
          ultimately show ?case using Suc.IH [of "m div 10"] by (simp add: decimal.simps [of m])
        qed
        from this [of 8 m] that show ?thesis by simp
      qed
      have "length (decimal (k div 10)) = 9" using l9 g [of "k div 10"] False by simp
      then have "int_arg i = 45 # decimal (k div 10)"
        using neg d by (simp add: int_arg_def decimal_int_def safe_snprintf_def INT_LEN_def k_def)
      then show ?thesis using False neg assms
        by (simp add: atoi_minus k_def zdiv_int)
    qed
  qed
qed

end
