(* ===== verification/RedisProperties.thy ===== *)
theory RedisProperties
  imports RedisCommandRun
begin

text \<open>
  The properties of the redis client: replies read back, requests read back, sliced strings, the
  retry loop, the arguments and the access to results.
\<close>

section \<open>Replies\<close>





text \<open>C19: With slicing, what is kept of a string are its first 8191 * ((n + 8191) div 8192) bytes, so of
  8192 bytes the last one is lost, although the whole string is read from the stream: the pieces are
  counted with 8192 bytes and read with 8191. Without slicing it is kept whole.\<close>
theorem redis_slices_lose:
  assumes "stream_ok rd contents" "gets_ok gets contents"
    and "length s < 2 ^ 31" "contents c = resp_bytes (P_string s) @ rest"
  shows "\<exists>r c'. get_object 1 sliced rd gets c = Some (Some (r, c')) \<and> contents c' = rest \<and>
    fst (rr_argv_to_string r) = (if sliced then take (8191 * ((length s + 8191) div 8192)) s else s)"
proof -
  have v: "resp_ok (P_string s)" "resp_depth (P_string s) \<le> 1" using assms(3) by simp_all
  obtain c' where "get_object 1 sliced rd gets c = Some (Some (result_of sliced (P_string s), c'))" "contents c' = rest"
    using get_object_read [OF assms(1,2) v assms(4)] by blast
  moreover have "fst (rr_argv_to_string (result_of sliced (P_string s))) =
      (if sliced then take (8191 * ((length s + 8191) div 8192)) s else s)"
    by (simp add: rr_argv_to_string_def slices_concat slice_count_def)
  ultimately show ?thesis by blast
qed

theorem redis_slices_lose_witness:
  "\<exists>r c'. get_object 1 True list_reader list_gets (resp_bytes (P_string (replicate 8192 7)) @ []) = Some (Some (r, c')) \<and>
     fst (rr_argv_to_string r) = replicate 8191 7"
proof -
  have "length (replicate 8192 (7 :: byte)) < 2 ^ 31" unfolding length_replicate by simp
  moreover have "take (8191 * ((length (replicate 8192 (7 :: byte)) + 8191) div 8192)) (replicate 8192 7) = replicate 8191 (7 :: byte)"
    unfolding length_replicate take_replicate by simp
  ultimately show ?thesis
    using redis_slices_lose [OF list_reader_ok list_gets_ok, of "replicate 8192 7" _ "[]" True] by fastforce
qed

section \<open>Well-formed results\<close>

text \<open>What the type of a result says of its parts.\<close>

fun rr_wf :: "redis_result \<Rightarrow> bool" where
  "rr_wf (Redis_result ty n argv ch) =
     (case ty of
        RT_NIL \<Rightarrow> False
      | RT_STRING \<Rightarrow> ch = [] \<and> length argv \<le> n \<and> (argv = [] \<longrightarrow> n = 0)
      | RT_ARRAY \<Rightarrow> argv = [] \<and> length ch = n \<and> list_all rr_wf ch
      | _ \<Rightarrow> ch = [] \<and> n = 1 \<and> length argv = 1)"

lemma redis_line_wf:
  "redis_line ty gets c = Some (r, c') \<Longrightarrow> ty \<in> {RT_ERROR, RT_STATUS, RT_INTEGER} \<Longrightarrow> rr_wf r"
  by (auto simp: redis_line_def rr_put_def rr_set_size_def rr_set_type_def rr_new_def split: option.splits)

lemma redis_slices_wf:
  assumes "redis_slices rd len (Redis_result RT_STRING n argv []) c = Some (r, c')" "length argv \<le> n" "n > 0 \<or> len = 0"
  shows "\<exists>argv'. r = Redis_result RT_STRING n argv' [] \<and> length argv' \<le> n \<and> (len > 0 \<longrightarrow> argv' \<noteq> []) \<and> (argv \<noteq> [] \<longrightarrow> argv' \<noteq> [])"
  using assms
proof (induction len arbitrary: argv c rule: less_induct)
  case (less len)
  show ?case
  proof (cases "len > 0")
    case False
    then show ?thesis using less.prems by (auto simp: redis_slices.simps [of rd 0])
  next
    case True
    define k where "k = (if len > CHUNK_LENGTH - 1 then CHUNK_LENGTH - 1 else len)"
    have k: "0 < k" "len - k < len" using True by (auto simp: k_def CHUNK_LENGTH_def)
    obtain buf c1 where 1: "rd c k = Some (buf, c1)"
      "redis_slices rd (len - k) (rr_put buf (Redis_result RT_STRING n argv [])) c1 = Some (r, c')"
      using less.prems(1) True by (auto simp: redis_slices.simps [of rd len] k_def Let_def split: option.splits)
    obtain argv1 where 2: "rr_put buf (Redis_result RT_STRING n argv []) = Redis_result RT_STRING n argv1 []"
      "length argv1 \<le> n" "argv1 \<noteq> []"
    proof (cases "length argv < n")
      case True
      then show ?thesis using that [of "argv @ [buf]"] by (simp add: rr_put_def)
    next
      case False
      then show ?thesis using that [of argv] less.prems(2,3) \<open>len > 0\<close> by (auto simp: rr_put_def)
    qed
    show ?thesis using less.IH [OF k(2) 1(2) [unfolded 2(1)] 2(2)] 2(3) less.prems(3) True by auto
  qed
qed

lemma get_string_wf:
  assumes "get_string sliced rd gets c = Some (r, c')"
  shows "rr_wf r"
proof -
  obtain sbuf c1 where g: "gets c = Some (sbuf, c1)" using assms by (auto simp: get_string_def split: option.splits)
  show ?thesis
  proof (cases "\<not> sliced \<or> atoi (cstr sbuf) < 0")
    case True
    then show ?thesis using assms g
      by (auto simp: get_string_def rr_put_def rr_set_size_def rr_set_type_def rr_new_def Let_def split: option.splits if_splits)
  next
    case False
    define len where "len = nat (atoi (cstr sbuf))"
    define n where "n = len div CHUNK_LENGTH + (if len mod CHUNK_LENGTH \<noteq> 0 then 1 else 0)"
    have n: "n > 0 \<or> len = 0" by (cases "len < CHUNK_LENGTH") (auto simp: n_def CHUNK_LENGTH_def div_greater_zero_iff)
    have z: "len = 0 \<longrightarrow> n = 0" by (simp add: n_def)
    have "rr_set_size n (rr_set_type RT_STRING rr_new) = Redis_result RT_STRING n [] []"
      by (simp add: rr_set_size_def rr_set_type_def rr_new_def)
    then obtain c2 where "redis_slices rd len (Redis_result RT_STRING n [] []) c1 = Some (r, c2)"
      using assms False unfolding get_string_def g option.case prod.case Let_def len_def [symmetric] n_def [symmetric]
      by (auto split: option.splits)
    from redis_slices_wf [OF this _ n] show ?thesis using z by (cases "len = 0") auto
  qed
qed

lemma get_elements_wf:
  assumes "\<And>c r c'. get_object d sliced rd gets c = Some (Some (r, c')) \<Longrightarrow> rr_wf r"
  shows "get_elements d sliced rd gets k i (Redis_result RT_ARRAY n [] ch) c = Some (Some (r, c')) \<Longrightarrow>
    list_all rr_wf ch \<Longrightarrow> length ch = i \<Longrightarrow> i + k = n \<Longrightarrow> rr_wf r"
proof (induction k arbitrary: i ch c)
  case (Suc k)
  obtain child c1 where 1: "get_object d sliced rd gets c = Some (Some (child, c1))"
    "get_elements d sliced rd gets k (Suc i) (rr_put_child child i (Redis_result RT_ARRAY n [] ch)) c1 = Some (Some (r, c'))"
    using Suc.prems(1) by (auto split: option.splits)
  have p: "rr_put_child child i (Redis_result RT_ARRAY n [] ch) = Redis_result RT_ARRAY n [] (ch @ [child])"
    using Suc.prems(3) by (auto simp: rr_put_child_def)
  show ?case by (rule Suc.IH [OF 1(2) [unfolded p]]) (use Suc.prems assms [OF 1(1)] in auto)
qed auto

lemma get_object_wf: "get_object d sliced rd gets c = Some (Some (r, c')) \<Longrightarrow> rr_wf r"
proof (induction d arbitrary: c r c')
  case (Suc d)
  obtain ch c1 where 1: "rd c 1 = Some (ch, c1)" using Suc.prems by (auto split: option.splits)
  show ?case
  proof (cases "ch = [42]")
    case False
    then have "Some (r, c') \<in> {redis_line RT_ERROR gets c1, redis_line RT_STATUS gets c1, redis_line RT_INTEGER gets c1,
        get_string sliced rd gets c1}"
      using Suc.prems 1 by (simp split: if_splits)
    then show ?thesis using redis_line_wf [of _ gets c1 r c'] get_string_wf [of sliced rd gets c1 r c'] by force
  next
    case arr: True
    obtain buf c2 where 2: "gets c1 = Some (buf, c2)" using Suc.prems 1 arr by (auto split: option.splits)
    show ?thesis
    proof (cases "atoi (cstr buf) \<le> 0")
      case True
      then show ?thesis using Suc.prems 1 arr 2 by (auto simp: rr_set_type_def rr_new_def Let_def)
    next
      case False
      define n where "n = nat (atoi (cstr buf))"
      have r0: "rr_set_size n (rr_set_type RT_ARRAY rr_new) = Redis_result RT_ARRAY n [] []"
        by (simp add: rr_set_size_def rr_set_type_def rr_new_def)
      have "get_elements d sliced rd gets n 0 (Redis_result RT_ARRAY n [] []) c2 = Some (Some (r, c'))"
        using Suc.prems 1 arr 2 False by (simp add: Let_def n_def [symmetric] r0)
      from get_elements_wf [OF Suc.IH this] show ?thesis by simp
    qed
  qed
qed simp

text \<open>C20: Whatever bytes arrive, valid or not, a result of the parser is well-formed: errors, status lines and
  numbers have exactly one text, strings no children and at most as many pieces as their size, arrays
  exactly as many children as their size, all well-formed; none has the type of nothing.\<close>
theorem parsed_result_wf:
  assumes "get_object d sliced rd gets c = Some (Some (r, c'))"
  shows "rr_wf r"
  using get_object_wf [OF assms] .

theorem parsed_result_wf_witness:
  "\<exists>r c'. get_object 2 True list_reader list_gets (resp_bytes (P_array [P_status [79, 75], P_string [1, 2]])) = Some (Some (r, c')) \<and> rr_wf r"
proof -
  have ok: "resp_ok (P_array [P_status [79, 75], P_string [1, 2]])" "resp_depth (P_array [P_status [79, 75], P_string [1, 2]]) \<le> 2"
    by (simp_all add: clean_line_def)
  obtain r c' where "get_object 2 True list_reader list_gets (resp_bytes (P_array [P_status [79, 75], P_string [1, 2]])) = Some (Some (r, c'))"
    using get_object_read [OF list_reader_ok list_gets_ok ok append_Nil2 [symmetric], of True] by blast
  from this parsed_result_wf [OF this] show ?thesis by (intro exI conjI)
qed

section \<open>The retry loop\<close>

text \<open>
  What \<^verbatim>\<open>open\<close>, \<^verbatim>\<open>write\<close> and \<^verbatim>\<open>close\<close> are documented to do, with the attempts to write counted.
\<close>

definition conn_ok :: "('w, 'r) redis_conn \<Rightarrow> ('w \<Rightarrow> bool) \<Rightarrow> ('w \<Rightarrow> nat) \<Rightarrow> bool" where
  "conn_ok conn is_open writes \<longleftrightarrow>
     (\<forall>w. is_open (snd (conn_open conn w)) = fst (conn_open conn w) \<and> writes (snd (conn_open conn w)) = writes w) \<and>
     (\<forall>w. is_open (snd (conn_check conn w)) = is_open w \<and> writes (snd (conn_check conn w)) = writes w) \<and>
     (\<forall>w req. is_open (snd (conn_write conn req w)) = is_open w \<and> writes (snd (conn_write conn req w)) = Suc (writes w)) \<and>
     (\<forall>w. is_open (snd (conn_reply conn w)) = is_open w \<and> writes (snd (conn_reply conn w)) = writes w) \<and>
     (\<forall>w. \<not> is_open (conn_close conn w) \<and> writes (conn_close conn w) = writes w)"

lemma run_turn_ok:
  assumes "conn_ok conn is_open writes"
  obtains r w' where "run_turn conn rc req retried w = (r, w')" "writes w \<le> writes w'" "writes w' \<le> Suc (writes w)"
    "req = [] \<longrightarrow> writes w' = writes w \<and> r \<noteq> Inr ()" "r = Inr () \<longrightarrow> \<not> is_open w' \<and> rc_retry rc \<and> \<not> retried"
    "\<forall>x. r = Inl x \<longrightarrow> is_open w' = (x \<noteq> None)"
proof -
  obtain b1 w1 where 1: "conn_open conn w = (b1, w1)" by force
  obtain b2 w2 where 2: "(if rc_check_addr rc then conn_check conn w1 else (True, w1)) = (b2, w2)" by force
  obtain b3 w3 where 3: "(if req \<noteq> [] then conn_write conn req w2 else (True, w2)) = (b3, w3)" by force
  obtain x w4 where 4: "conn_reply conn w3 = (x, w4)" by force
  have check: "is_open v' = is_open v \<and> writes v' = writes v" if "conn_check conn v = (b, v')" for v b v'
    using assms that by (metis conn_ok_def snd_conv)
  have wr: "is_open v' = is_open v \<and> writes v' = Suc (writes v)" if "conn_write conn req v = (b, v')" for v b v'
    using assms that by (metis conn_ok_def snd_conv)
  have o: "is_open w1 = b1 \<and> writes w1 = writes w" using assms 1 by (metis conn_ok_def fst_conv snd_conv)
  have c: "is_open w2 = is_open w1 \<and> writes w2 = writes w1"
    using check [of w1 b2 w2] 2 by (auto split: if_splits)
  have w: "is_open w3 = is_open w2 \<and> writes w3 = (if req = [] then writes w2 else Suc (writes w2))" "req = [] \<longrightarrow> b3"
    using wr [of w2 b3 w3] 3 by (auto split: if_splits)
  have r: "is_open w4 = is_open w3 \<and> writes w4 = writes w3" using assms 4 by (metis conn_ok_def snd_conv)
  have d: "\<not> is_open (conn_close conn v) \<and> writes (conn_close conn v) = writes v" for v
    using assms by (simp add: conn_ok_def)
  have t: "run_turn conn rc req retried w =
    (if \<not> b1 then (Inl None, w1) else if \<not> b2 then (Inl None, conn_close conn w2)
     else if \<not> b3 then (if rc_retry rc \<and> \<not> retried then Inr () else Inl None, conn_close conn w3)
     else case x of Some r \<Rightarrow> (Inl (Some r), w4)
       | None \<Rightarrow> (if req \<noteq> [] \<and> rc_retry rc \<and> \<not> retried then Inr () else Inl None, conn_close conn w4))"
    unfolding run_turn_def 1 prod.case 2 3 4 by (cases b1; cases b2; cases b3; cases x) simp_all
  obtain r' w' where R: "run_turn conn rc req retried w = (r', w')" by force
  show ?thesis
    by (rule that [OF R]; use R [unfolded t] o c w r d [of w2] d [of w3] d [of w4] in \<open>auto split: if_splits option.splits\<close>)
qed

text \<open>The loop of a request returns, after two attempts to write at most and one without retry, none for
  an empty request; the connection is left open exactly when there is a result.\<close>
lemma redis_run_retries:
  assumes "conn_ok conn is_open writes"
  shows "\<exists>r w'. redis_run conn rc req w = (r, w') \<and>
    writes w' \<le> writes w + (if req = [] then 0 else if rc_retry rc then 2 else 1) \<and> is_open w' = (r \<noteq> None)"
proof -
  obtain r1 w1 where 1: "run_turn conn rc req False w = (r1, w1)" "writes w \<le> writes w1" "writes w1 \<le> Suc (writes w)"
    "req = [] \<longrightarrow> writes w1 = writes w \<and> r1 \<noteq> Inr ()" "r1 = Inr () \<longrightarrow> \<not> is_open w1 \<and> rc_retry rc \<and> \<not> False"
    "\<forall>x. r1 = Inl x \<longrightarrow> is_open w1 = (x \<noteq> None)"
    using run_turn_ok [OF assms] .
  show ?thesis
  proof (cases r1)
    case (Inl x)
    then show ?thesis using 1 by (auto simp: redis_run_def run_loop.simps [of conn rc req False w])
  next
    case (Inr u)
    obtain r2 w2 where 2: "run_turn conn rc req True w1 = (r2, w2)" "writes w1 \<le> writes w2" "writes w2 \<le> Suc (writes w1)"
      "req = [] \<longrightarrow> writes w2 = writes w1 \<and> r2 \<noteq> Inr ()" "r2 = Inr () \<longrightarrow> \<not> is_open w2 \<and> rc_retry rc \<and> \<not> True"
      "\<forall>x. r2 = Inl x \<longrightarrow> is_open w2 = (x \<noteq> None)"
      using run_turn_ok [OF assms] .
    then show ?thesis using 1 Inr
      by (cases r2) (auto simp: redis_run_def run_loop.simps [of conn rc req False w] run_loop.simps [of conn rc req True w1])
  qed
qed

text \<open>A connection whose first write fails.\<close>

definition shaky_conn :: "(bool \<times> nat, nat) redis_conn" where
  "shaky_conn = \<lparr>conn_open = \<lambda>(b, n). (True, True, n), conn_check = \<lambda>w. (True, w),
     conn_write = \<lambda>req (b, n). (n > 0, b, Suc n), conn_reply = \<lambda>w. (Some 5, w), conn_close = \<lambda>(b, n). (False, n)\<rparr>"

lemma redis_run_shaky:
  "(\<exists>r w'. redis_run shaky_conn \<lparr>rc_check_addr = True, rc_retry = True\<rparr> [42] (False, 0) = (r, w') \<and> snd w' \<le> 2 \<and> fst w' = (r \<noteq> None)) \<and>
   redis_run shaky_conn \<lparr>rc_check_addr = True, rc_retry = True\<rparr> [42] (False, 0) = (Some 5, True, 2)"
proof
  have "conn_ok shaky_conn fst snd" by (simp add: conn_ok_def shaky_conn_def case_prod_unfold)
  from redis_run_retries [OF this, of "\<lparr>rc_check_addr = True, rc_retry = True\<rparr>" "[42]" "(False, 0)"]
  show "\<exists>r w'. redis_run shaky_conn \<lparr>rc_check_addr = True, rc_retry = True\<rparr> [42] (False, 0) = (r, w') \<and> snd w' \<le> 2 \<and> fst w' = (r \<noteq> None)"
    by (simp add: numeral_2_eq_2)
  show "redis_run shaky_conn \<lparr>rc_check_addr = True, rc_retry = True\<rparr> [42] (False, 0) = (Some 5, True, 2)"
    by (simp add: redis_run_def run_loop.simps [of _ _ _ False] run_loop.simps [of _ _ _ True] run_turn_def shaky_conn_def)
qed

section \<open>Requests\<close>

text \<open>C21: Whatever arguments a command is built from - less than 2 ^ 31 of less than 2 ^ 31 bytes each, and a key
  that is not empty when its length is known (skip; what an empty one does says empty_key_leftover) - and
  whatever was built before, what is sent, as a string or in pieces, is read as the array of exactly
  these arguments.\<close>
theorem request_parsed_back:
  assumes "key \<noteq> Some [] \<or> \<not> skip"
    and "all = cmd # (case key of None \<Rightarrow> [] | Some k \<Rightarrow> [k]) @ args" "length all < 2 ^ 31" "\<forall>a \<in> set all. length a < 2 ^ 31"
  shows "\<exists>c' bytes. build_with skip cmd key args c = Some c' \<and> sent_request c' = Some bytes \<and>
    get_object 2 False list_reader list_gets (bytes @ rest) =
      Some (Some (Redis_result RT_ARRAY (length all) [] (map (\<lambda>a. Redis_result RT_STRING 1 [a] []) all), rest))"
proof -
  obtain argv n where "build_with skip cmd key args c = build_request (map Some all) (c\<lparr>cm_argc := n, cm_argv := argv\<rparr>)"
    using build_with_slots [OF assms(1)] assms(2) by blast
  then obtain c' where "build_with skip cmd key args c = Some c'" "sent_request c' = Some (wire all)"
    using build_request_wire [OF assms(3,4)] by metis
  then show ?thesis using wire_read [OF assms(3,4)] by blast
qed

theorem request_parsed_back_witness:
  "\<exists>c' bytes. build_with True [71] (Some [107]) [[13, 10]] (set_slice_request True cm_new) = Some c' \<and>
    sent_request c' = Some bytes \<and>
    get_object 2 False list_reader list_gets (bytes @ [9]) =
      Some (Some (Redis_result RT_ARRAY (length [[71], [107], [13, 10 :: byte]]) []
        (map (\<lambda>a. Redis_result RT_STRING 1 [a] []) [[71], [107], [13, 10]]), [9]))"
  by (rule request_parsed_back) simp_all

text \<open>With an empty key whose length is known the key is counted but not stored: the request ends with
  the argument that an earlier command left in the next slot, or reads a slot that was never
  written.\<close>
lemma empty_key_leftover:
  assumes "length args < 2 ^ 30" "\<forall>a \<in> set (cmd # args @ [old]). length a < 2 ^ 31"
  shows "(length (cm_argv c) \<le> Suc (length args) \<longrightarrow> build_with True cmd (Some []) args c = None) \<and>
    (length (cm_argv c) > Suc (length args) \<and> cm_argv c ! Suc (length args) = Some old \<longrightarrow>
       (\<exists>c'. build_with True cmd (Some []) args c = Some c' \<and> sent_request c' = Some (wire (cmd # args @ [old]))))"
proof -
  obtain argv n where b: "build_with True cmd (Some []) args c =
    build_request (map Some (cmd # args) @ [if Suc (length args) < length (cm_argv c) then cm_argv c ! Suc (length args) else None])
      (c\<lparr>cm_argc := n, cm_argv := argv\<rparr>)"
    using build_with_empty_key [OF refl] by blast
  have l: "length (cmd # args @ [old]) < 2 ^ 31" using assms(1) by simp
  have "map Some (cmd # args) @ [Some old] = map Some (cmd # args @ [old])" by simp
  then show ?thesis
    using b build_request_undefined [of "cmd # args" "[]"] build_request_wire [OF l assms(2)] by fastforce
qed

text \<open>\<^verbatim>\<open>HMSET\<close> with one pair and an empty key, on a new command and after a command of four arguments.\<close>

text \<open>A number among the arguments is sent as it is if it is above \<open>- 1000000000\<close>; of the others the last
  digit is cut off.\<close>
lemma int_argument_cut:
  assumes "- (2 ^ 31) \<le> i" "i < 2 ^ 31"
  shows "atoi (int_arg i) = (if i > - 1000000000 then i else - ((- i) div 10))"
  using int_arg_value [OF assms] .

lemma int_argument_examples: "atoi (int_arg (- 2000000001)) = - 200000000 \<and> atoi (int_arg (- 999999999)) = - 999999999"
  using int_argument_cut [of "- 2000000001"] int_argument_cut [of "- 999999999"] by simp

section \<open>Results\<close>

lemma strings_pairs:
  "string_pairs f (map (result_of False) (map P_string (pairs_args ps))) =
    map (\<lambda>(n, v). (f (result_of False (P_string n)), f (result_of False (P_string v)))) ps"
  by (induction ps) (auto simp: pairs_args_def)

lemma length_pairs_args: "length (pairs_args ps) = 2 * length ps"
  by (induction ps) (auto simp: pairs_args_def)

lemma pairs_of_reply:
  "pairs_of f (Some (result_of False (P_array (map P_string (pairs_args ps))))) =
    (int (length ps), map (\<lambda>(n, v). (f (result_of False (P_string n)), f (result_of False (P_string v)))) ps)"
proof -
  define cs where "cs = map (result_of False) (map P_string (pairs_args ps))"
  have l: "length cs = 2 * length ps" by (simp add: cs_def length_pairs_args)
  have "string_pairs f cs = map (\<lambda>(n, v). (f (result_of False (P_string n)), f (result_of False (P_string v)))) ps"
    unfolding cs_def by (rule strings_pairs)
  then show ?thesis
    unfolding result_of.simps(6) cs_def [symmetric]
    using l by (cases "ps = []") (auto simp: pairs_of_def is_type_def rr_get_size_def Let_def simp del: result_of.simps)
qed

lemma result_cstr_read: "result_cstr (result_of False (P_string s)) = (if s = [] then [] else s @ [0])"
  by (simp add: result_cstr_def rr_argv_to_buf_def rr_get_length_def Let_def)

text \<open>The names and values of a hash, sent as an array of strings, are given back in order by the methods
  that fill two vectors, and as a map; as C strings only the non-empty ones are stored with their
  zero: nothing at all is written into the buffer of an empty one.\<close>
lemma hash_reply_read:
  "let r = Some (result_of False (P_array (map P_string (pairs_args ps)))) in
   get_strings_pairs r = (int (length ps), map fst ps, map snd ps) \<and>
   get_strings_map r = (int (length (remdups (map fst ps))), map_of (rev ps)) \<and>
   get_cstr_pairs r = (int (length ps), map (\<lambda>s. if s = [] then [] else s @ [0]) (map fst ps),
     map (\<lambda>s. if s = [] then [] else s @ [0]) (map snd ps))"
proof -
  have t: "result_text (result_of False (P_string s)) = s" for s by (simp add: result_text_def rr_argv_to_string_def)
  have p: "pairs_of result_text (Some (result_of False (P_array (map P_string (pairs_args ps))))) = (int (length ps), ps)"
    unfolding pairs_of_reply t by (simp add: case_prod_unfold)
  show ?thesis
    unfolding Let_def get_strings_pairs_def get_strings_map_def get_cstr_pairs_def p
    unfolding pairs_of_reply result_cstr_read
    by (simp add: case_prod_unfold comp_def)
qed

end
