(* ===== verification/ConnectPool.thy ===== *)
theory ConnectPool
  imports AclPrelude
begin

text \<open>
  The pool of connections to one server: \<^verbatim>\<open>connect_pool\<close> (\<^verbatim>\<open>connpool/connect_pool.cpp\<close>).

  A connection is a value that the list of the pool or a user holds. Every operation runs under the
  lock of the pool, except that \<^verbatim>\<open>peek\<close> opens a new connection between two sections under the
  lock; these sections are the operations here. The readings of the clock are arguments. The pool
  of a connection is named by a number, \<open>cp_self\<close> is the one of this pool.
\<close>

section \<open>State\<close>

record connect_client =
  cc_id :: nat
  cc_when :: int
  cc_pool :: "nat option"

record connect_pool =
  cp_self :: nat
  cp_key :: "byte list"
  cp_addr :: "byte list"
  cp_conn_timeout :: int
  cp_rw_timeout :: int
  cp_idx :: nat
  cp_alive :: bool
  cp_delay_destroy :: bool
  cp_last_dead :: int
  cp_retry_inter :: int
  cp_max :: u64
  cp_count :: u64
  cp_idle_ttl :: int
  cp_last_check :: int
  cp_check_inter :: int
  cp_total_used :: u64
  cp_current_used :: u64
  cp_last :: int
  cp_pool :: "connect_client list"

text \<open>\<^verbatim>\<open>ACL_SAFE_STRNCPY\<close> into an array of 256 bytes.\<close>

definition strncpy256 :: "byte list \<Rightarrow> byte list" where
  "strncpy256 s = take 255 (cstr s)"

definition cp_new :: "nat \<Rightarrow> byte list \<Rightarrow> u64 \<Rightarrow> nat \<Rightarrow> connect_pool" where
  "cp_new self addr m idx = \<lparr>cp_self = self, cp_key = map to_lower (strncpy256 addr), cp_addr = strncpy256 addr,
     cp_conn_timeout = 30, cp_rw_timeout = 30, cp_idx = idx, cp_alive = True, cp_delay_destroy = False, cp_last_dead = 0, cp_retry_inter = 1,
     cp_max = m, cp_count = 0, cp_idle_ttl = -1, cp_last_check = 0, cp_check_inter = 30,
     cp_total_used = 0, cp_current_used = 0, cp_last = 0, cp_pool = []\<rparr>"

definition set_key :: "byte list \<Rightarrow> connect_pool \<Rightarrow> connect_pool" where
  "set_key key p = p\<lparr>cp_key := map to_lower (strncpy256 key)\<rparr>"

definition set_timeout :: "int \<Rightarrow> int \<Rightarrow> connect_pool \<Rightarrow> connect_pool" where
  "set_timeout conn_timeout rw_timeout p = p\<lparr>cp_conn_timeout := conn_timeout, cp_rw_timeout := rw_timeout\<rparr>"

definition set_idle_ttl :: "int \<Rightarrow> connect_pool \<Rightarrow> connect_pool" where
  "set_idle_ttl ttl p = p\<lparr>cp_idle_ttl := ttl\<rparr>"

definition set_retry_inter :: "int \<Rightarrow> connect_pool \<Rightarrow> connect_pool" where
  "set_retry_inter n p = p\<lparr>cp_retry_inter := n\<rparr>"

definition set_check_inter :: "int \<Rightarrow> connect_pool \<Rightarrow> connect_pool" where
  "set_check_inter n p = p\<lparr>cp_check_inter := n\<rparr>"

definition reset_statistics :: "int \<Rightarrow> int \<Rightarrow> connect_pool \<Rightarrow> connect_pool" where
  "reset_statistics now secs p = (if now - cp_last p \<ge> secs then p\<lparr>cp_last := now, cp_current_used := 0\<rparr> else p)"

definition aliving :: "int \<Rightarrow> connect_pool \<Rightarrow> bool \<times> connect_pool" where
  "aliving now p =
     (if cp_alive p then (True, p)
      else if cp_retry_inter p > 0 \<and> now - cp_last_dead p \<ge> cp_retry_inter p then (True, p\<lparr>cp_alive := True\<rparr>)
      else (False, p))"

section \<open>Taking a connection\<close>

text \<open>The first section of \<^verbatim>\<open>peek\<close>: NULL, a connection, or a place reserved for a new one.\<close>

datatype pool_peeked = Peek_null | Peek_conn connect_client | Peek_open

definition peek_begin :: "int \<Rightarrow> bool \<Rightarrow> connect_pool \<Rightarrow> pool_peeked \<times> connect_pool" where
  "peek_begin now on p =
     (if \<not> cp_alive p \<and> (cp_retry_inter p \<le> 0 \<or> now - cp_last_dead p < cp_retry_inter p) then (Peek_null, p)
      else let p = p\<lparr>cp_alive := True\<rparr> in
        case cp_pool p of
          c # cs \<Rightarrow>
            (Peek_conn c, p\<lparr>cp_pool := cs, cp_total_used := cp_total_used p + 1, cp_current_used := cp_current_used p + 1\<rparr>)
        | [] \<Rightarrow>
            if cp_max p > 0 \<and> cp_count p \<ge> cp_max p then (Peek_null, p)
            else if \<not> on then (Peek_null, p)
            else (Peek_open, p\<lparr>cp_count := cp_count p + 1, cp_total_used := cp_total_used p + 1,
                   cp_current_used := cp_current_used p + 1\<rparr>))"

text \<open>The end of \<^verbatim>\<open>peek\<close> for a connection that was opened, and for one that was not.\<close>

definition peek_opened :: "connect_client \<Rightarrow> connect_pool \<Rightarrow> connect_client" where
  "peek_opened c p = c\<lparr>cc_pool := Some (cp_self p)\<rparr>"

definition peek_failed :: "connect_pool \<Rightarrow> connect_pool" where
  "peek_failed p = p\<lparr>cp_count := cp_count p - 1, cp_total_used := cp_total_used p - 1, cp_current_used := cp_current_used p - 1\<rparr>"

definition bind_one :: "connect_client \<Rightarrow> connect_pool \<Rightarrow> connect_client \<times> connect_pool" where
  "bind_one c p =
     (if cc_pool c \<noteq> Some (cp_self p) then (c\<lparr>cc_pool := Some (cp_self p)\<rparr>, p\<lparr>cp_count := cp_count p + 1\<rparr>) else (c, p))"

section \<open>Idle connections\<close>

text \<open>The loop from the end of the list: the connections left, in the order of the loop, the count and the number freed.\<close>

fun idle_loop :: "nat \<Rightarrow> int \<Rightarrow> int \<Rightarrow> connect_client list \<Rightarrow> u64 \<Rightarrow> nat \<Rightarrow> connect_client list \<times> u64 \<times> nat" where
  "idle_loop self ttl now [] count n = ([], count, n)"
| "idle_loop self ttl now (c # cs) count n =
     (if cc_when c \<le> 0 then
        (let (cs', count', n') = idle_loop self ttl now cs count n in (c # cs', count', n'))
      else if now - cc_when c < ttl then (c # cs, count, n)
      else idle_loop self ttl now cs (if cc_pool c = Some self then count - 1 else count) (Suc n))"

definition check_idle :: "int \<Rightarrow> int \<Rightarrow> connect_pool \<Rightarrow> nat \<times> connect_pool" where
  "check_idle ttl now p =
     (if ttl < 0 then (0, p)
      else if cp_pool p = [] then (0, p)
      else if ttl = 0 then (length (cp_pool p), p\<lparr>cp_pool := [], cp_count := 0\<rparr>)
      else let (cs, count, n) = idle_loop (cp_self p) ttl now (rev (cp_pool p)) (cp_count p) 0
           in (n, p\<lparr>cp_pool := rev cs, cp_count := count\<rparr>))"

section \<open>Giving a connection back\<close>

text \<open>The pool goes on, destroys itself, or the assertion fails.\<close>

datatype put_result = Put_ok connect_pool | Put_destroyed | Put_abort

definition put_end :: "int \<Rightarrow> int \<Rightarrow> int \<Rightarrow> connect_pool \<Rightarrow> connect_pool" where
  "put_end now now2 now3 p =
     (if cp_idle_ttl p \<ge> 0 \<and> now - cp_last_check p \<ge> cp_check_inter p then
        (snd (check_idle (cp_idle_ttl p) now2 p))\<lparr>cp_last_check := now3\<rparr>
      else p)"

definition pool_put :: "int \<Rightarrow> int \<Rightarrow> int \<Rightarrow> connect_client \<Rightarrow> bool \<Rightarrow> connect_pool \<Rightarrow> put_result" where
  "pool_put now now2 now3 c keep p =
     (if cp_delay_destroy p then
        let p = (if cc_pool c = Some (cp_self p) then p\<lparr>cp_count := cp_count p - 1\<rparr> else p)
        in if cp_count p \<le> 0 then Put_destroyed else Put_ok p
      else if keep \<and> cp_alive p then Put_ok (put_end now now2 now3 (p\<lparr>cp_pool := c\<lparr>cc_when := now\<rparr> # cp_pool p\<rparr>))
      else if \<not> cp_count p > 0 then Put_abort
      else Put_ok (put_end now now2 now3
        (if cc_pool c = Some (cp_self p) then p\<lparr>cp_count := cp_count p - 1\<rparr> else p)))"

definition set_delay_destroy :: "connect_pool \<Rightarrow> connect_pool" where
  "set_delay_destroy p = p\<lparr>cp_delay_destroy := True\<rparr>"

definition set_alive :: "int \<Rightarrow> bool \<Rightarrow> connect_pool \<Rightarrow> connect_pool" where
  "set_alive now yes p = (if yes then p\<lparr>cp_alive := True\<rparr> else p\<lparr>cp_alive := False, cp_last_dead := now\<rparr>)"

section \<open>Threads\<close>

text \<open>
  The pool with what its users hold: the connections taken, the number of places reserved for
  connections being opened, and the number of connections bound. A step is one section under the
  lock, of any thread; fewer than \<open>2 ^ 63\<close> connections exist at a time.
\<close>

record pool_sys =
  ps_pool :: connect_pool
  ps_used :: "connect_client list"
  ps_opening :: nat
  ps_bound :: nat

definition ps_total :: "pool_sys \<Rightarrow> nat" where
  "ps_total s = length (cp_pool (ps_pool s)) + length (ps_used s) + ps_opening s"

inductive pool_step :: "pool_sys \<Rightarrow> pool_sys \<Rightarrow> bool" where
  peek_none: "peek_begin now on (ps_pool s) = (Peek_null, p) \<Longrightarrow> pool_step s (s\<lparr>ps_pool := p\<rparr>)"
| peek_idle: "peek_begin now on (ps_pool s) = (Peek_conn c, p) \<Longrightarrow>
    pool_step s (s\<lparr>ps_pool := p, ps_used := c # ps_used s\<rparr>)"
| peek_reserve: "peek_begin now on (ps_pool s) = (Peek_open, p) \<Longrightarrow> ps_total s < 2 ^ 63 \<Longrightarrow>
    pool_step s (s\<lparr>ps_pool := p, ps_opening := Suc (ps_opening s)\<rparr>)"
| opened: "ps_opening s = Suc n \<Longrightarrow>
    pool_step s (s\<lparr>ps_used := peek_opened c (ps_pool s) # ps_used s, ps_opening := n\<rparr>)"
| open_failed: "ps_opening s = Suc n \<Longrightarrow> pool_step s (s\<lparr>ps_pool := peek_failed (ps_pool s), ps_opening := n\<rparr>)"
| bind: "bind_one c (ps_pool s) = (c', p) \<Longrightarrow> cc_pool c \<noteq> Some (cp_self (ps_pool s)) \<Longrightarrow> ps_total s < 2 ^ 63 \<Longrightarrow>
    pool_step s (s\<lparr>ps_pool := p, ps_used := c' # ps_used s, ps_bound := Suc (ps_bound s)\<rparr>)"
| put: "c \<in> set (ps_used s) \<Longrightarrow> pool_put now now2 now3 c keep (ps_pool s) = Put_ok p \<Longrightarrow>
    pool_step s (s\<lparr>ps_pool := p, ps_used := remove1 c (ps_used s)\<rparr>)"
| idle: "ttl \<noteq> 0 \<or> cp_pool (ps_pool s) = [] \<or> ps_used s = [] \<and> ps_opening s = 0 \<Longrightarrow> check_idle ttl now (ps_pool s) = (n, p) \<Longrightarrow> pool_step s (s\<lparr>ps_pool := p\<rparr>)"
| idle_ttl: "ttl \<noteq> 0 \<Longrightarrow> pool_step s (s\<lparr>ps_pool := set_idle_ttl ttl (ps_pool s)\<rparr>)"
| alive: "pool_step s (s\<lparr>ps_pool := set_alive now yes (ps_pool s)\<rparr>)"
| aliving: "aliving now (ps_pool s) = (b, p) \<Longrightarrow> pool_step s (s\<lparr>ps_pool := p\<rparr>)"
| key: "pool_step s (s\<lparr>ps_pool := set_key k (ps_pool s)\<rparr>)"
| timeout: "pool_step s (s\<lparr>ps_pool := set_timeout n m (ps_pool s)\<rparr>)"
| retry: "pool_step s (s\<lparr>ps_pool := set_retry_inter n (ps_pool s)\<rparr>)"
| check_inter: "pool_step s (s\<lparr>ps_pool := set_check_inter n (ps_pool s)\<rparr>)"
| statistics: "pool_step s (s\<lparr>ps_pool := reset_statistics now secs (ps_pool s)\<rparr>)"
| delay: "pool_step s (s\<lparr>ps_pool := set_delay_destroy (ps_pool s)\<rparr>)"

text \<open>Every counted connection is idle, used or being opened, and belongs to the pool.\<close>

definition pool_inv :: "pool_sys \<Rightarrow> bool" where
  "pool_inv s \<longleftrightarrow>
     (let p = ps_pool s in
      unat (cp_count p) = ps_total s \<and> cp_idle_ttl p \<noteq> 0 \<and>
      (\<forall>c \<in> set (cp_pool p) \<union> set (ps_used s). cc_pool c = Some (cp_self p)) \<and>
      (cp_max p = 0 \<or> ps_total s \<le> unat (cp_max p) + ps_bound s))"

text \<open>What a step may not change.\<close>

definition same_pool :: "connect_pool \<Rightarrow> connect_pool \<Rightarrow> bool" where
  "same_pool p q \<longleftrightarrow> cp_self q = cp_self p \<and> cp_max q = cp_max p"

lemma count_dec: "unat (n :: u64) = Suc k \<Longrightarrow> unat (n - 1) = k"
  by (metis diff_Suc_1 unat_minus_one unat_0 Zero_not_Suc)

lemma count_inc: "unat (n :: u64) < 2 ^ 63 \<Longrightarrow> unat (n + 1) = Suc (unat n)"
  by (subst unat_word_ariths(1)) simp

lemma idle_loop_count:
  assumes "idle_loop self ttl now cs count n = (cs', count', n')" "\<forall>c \<in> set cs. cc_pool c = Some self"
    and "unat count = length cs + k"
  shows "set cs' \<subseteq> set cs \<and> unat count' = length cs' + k \<and> length cs' + n' = length cs + n"
  using assms
proof (induction cs arbitrary: cs' count n k)
  case (Cons c cs)
  consider "cc_when c \<le> 0" | "0 < cc_when c" "now - cc_when c < ttl" | "0 < cc_when c" "\<not> now - cc_when c < ttl" by linarith
  then show ?case
  proof cases
    case 1
    then obtain ds where d: "idle_loop self ttl now cs count n = (ds, count', n')" "cs' = c # ds"
      using Cons.prems(1) by (auto split: prod.splits)
    have "unat count = length cs + Suc k" using Cons.prems(3) by simp
    from Cons.IH [OF d(1) _ this] Cons.prems(2) d(2) show ?thesis by auto
  next
    case 2
    then show ?thesis using Cons.prems by auto
  next
    case 3
    have "unat (count - 1) = length cs + k" using Cons.prems(3) by (intro count_dec) simp
    then show ?thesis using Cons.IH [of "count - 1" "Suc n" cs' k] 3 Cons.prems by auto
  qed
qed auto

lemma check_idle_count:
  assumes "check_idle ttl now p = (n, q)" "ttl \<noteq> 0 \<or> cp_pool p = [] \<or> k = 0" "\<forall>c \<in> set (cp_pool p). cc_pool c = Some (cp_self p)"
    and "unat (cp_count p) = length (cp_pool p) + k"
  shows "same_pool p q \<and> cp_idle_ttl q = cp_idle_ttl p \<and> set (cp_pool q) \<subseteq> set (cp_pool p) \<and>
    unat (cp_count q) = length (cp_pool q) + k \<and> length (cp_pool q) \<le> length (cp_pool p)"
proof (cases "ttl < 0 \<or> cp_pool p = []")
  case True
  then have "q = p" using assms(1) by (cases "ttl < 0") (simp_all add: check_idle_def split: if_splits)
  then show ?thesis using assms(4) by (simp add: same_pool_def)
next
  case ne: False
  show ?thesis
  proof (cases "ttl = 0")
    case True
    then have "q = p\<lparr>cp_pool := [], cp_count := 0\<rparr>" using assms(1) ne by (simp add: check_idle_def)
    then show ?thesis using True ne assms(2) by (auto simp: same_pool_def)
  next
    case False
    obtain cs count m where l: "idle_loop (cp_self p) ttl now (rev (cp_pool p)) (cp_count p) 0 = (cs, count, m)"
      by (metis prod_cases3)
    have "unat (cp_count p) = length (rev (cp_pool p)) + k" using assms(4) by simp
    from idle_loop_count [OF l _ this] assms(3)
    have "set cs \<subseteq> set (cp_pool p)" "unat count = length cs + k" "length cs \<le> length (cp_pool p)" by auto
    moreover have "q = p\<lparr>cp_pool := rev cs, cp_count := count\<rparr>"
      using assms(1) ne False l by (auto simp: check_idle_def)
    ultimately show ?thesis by (simp add: same_pool_def)
  qed
qed

lemma put_end_count:
  assumes "cp_idle_ttl p \<noteq> 0" "\<forall>c \<in> set (cp_pool p). cc_pool c = Some (cp_self p)"
    and "unat (cp_count p) = length (cp_pool p) + k"
  shows "same_pool p (put_end now now2 now3 p) \<and> cp_idle_ttl (put_end now now2 now3 p) = cp_idle_ttl p \<and>
    set (cp_pool (put_end now now2 now3 p)) \<subseteq> set (cp_pool p) \<and>
    unat (cp_count (put_end now now2 now3 p)) = length (cp_pool (put_end now now2 now3 p)) + k \<and>
    length (cp_pool (put_end now now2 now3 p)) \<le> length (cp_pool p)"
proof -
  obtain n q where q: "check_idle (cp_idle_ttl p) now2 p = (n, q)" by force
  show ?thesis
  proof (cases "cp_idle_ttl p \<ge> 0 \<and> now - cp_last_check p \<ge> cp_check_inter p")
    case True
    then show ?thesis using check_idle_count [OF q disjI1 [OF assms(1)] assms(2,3)] q by (simp add: put_end_def same_pool_def)
  next
    case False
    then show ?thesis using assms by (auto simp: put_end_def same_pool_def)
  qed
qed

lemma put_keeps:
  assumes "pool_inv s" "c \<in> set (ps_used s)" "pool_put now now2 now3 c keep (ps_pool s) = Put_ok p"
  shows "pool_inv (s\<lparr>ps_pool := p, ps_used := remove1 c (ps_used s)\<rparr>)"
proof -
  let ?p = "ps_pool s"
  define k where "k = length (remove1 c (ps_used s)) + ps_opening s"
  have own: "cc_pool c = Some (cp_self ?p)" "\<forall>c \<in> set (cp_pool ?p). cc_pool c = Some (cp_self ?p)"
    and used: "\<forall>x \<in> set (remove1 c (ps_used s)). cc_pool x = Some (cp_self ?p)"
    using assms(1,2) set_remove1_subset [of c "ps_used s"] by (auto simp: pool_inv_def Let_def)
  have l: "length (ps_used s) = Suc (length (remove1 c (ps_used s)))"
    using assms(2) length_pos_if_in_set [OF assms(2)] by (simp add: length_remove1)
  have n: "unat (cp_count ?p) = Suc (length (cp_pool ?p) + k)" and ttl: "cp_idle_ttl ?p \<noteq> 0"
    and m: "cp_max ?p = 0 \<or> Suc (length (cp_pool ?p) + k) \<le> unat (cp_max ?p) + ps_bound s"
    using assms(1) unfolding pool_inv_def Let_def ps_total_def l k_def by (simp_all add: add.assoc)
  have inv: "pool_inv (s\<lparr>ps_pool := q, ps_used := remove1 c (ps_used s)\<rparr>)"
    if "same_pool ?p q" "cp_idle_ttl q \<noteq> 0" "\<forall>c \<in> set (cp_pool q). cc_pool c = Some (cp_self ?p)"
      "unat (cp_count q) = length (cp_pool q) + k" "length (cp_pool q) \<le> Suc (length (cp_pool ?p))" for q
  proof -
    have "ps_total (s\<lparr>ps_pool := q, ps_used := remove1 c (ps_used s)\<rparr>) = length (cp_pool q) + k"
      by (simp add: ps_total_def k_def)
    then show ?thesis using that used m by (auto simp: pool_inv_def Let_def same_pool_def)
  qed
  have dec: "unat (cp_count ?p - 1) = length (cp_pool ?p) + k" using count_dec [OF n] .
  show ?thesis
  proof (cases "cp_delay_destroy ?p")
    case True
    then have "p = ?p\<lparr>cp_count := cp_count ?p - 1\<rparr>" using assms(3) own(1) by (simp add: pool_put_def Let_def split: if_splits)
    then show ?thesis using ttl own(2) dec by (intro inv) (simp_all add: same_pool_def)
  next
    case nd: False
    show ?thesis
    proof (cases "keep \<and> cp_alive ?p")
      case True
      define q where "q = ?p\<lparr>cp_pool := c\<lparr>cc_when := now\<rparr> # cp_pool ?p\<rparr>"
      have p: "p = put_end now now2 now3 q" using assms(3) nd True by (simp add: pool_put_def q_def)
      have q: "cp_idle_ttl q \<noteq> 0" "\<forall>c \<in> set (cp_pool q). cc_pool c = Some (cp_self q)" "unat (cp_count q) = length (cp_pool q) + k"
        using ttl own n by (simp_all add: q_def)
      have "same_pool q p \<and> cp_idle_ttl p = cp_idle_ttl q \<and> set (cp_pool p) \<subseteq> set (cp_pool q) \<and>
          unat (cp_count p) = length (cp_pool p) + k \<and> length (cp_pool p) \<le> length (cp_pool q)"
        unfolding p by (rule put_end_count [OF q])
      then show ?thesis using q(1,2) by (intro inv) (auto simp: q_def same_pool_def)
    next
      case False
      define q where "q = ?p\<lparr>cp_count := cp_count ?p - 1\<rparr>"
      have p: "p = put_end now now2 now3 q" using assms(3) nd False own(1) by (auto simp: pool_put_def q_def split: if_splits)
      have q: "cp_idle_ttl q \<noteq> 0" "\<forall>c \<in> set (cp_pool q). cc_pool c = Some (cp_self q)" "unat (cp_count q) = length (cp_pool q) + k"
        using ttl own dec by (simp_all add: q_def)
      have "same_pool q p \<and> cp_idle_ttl p = cp_idle_ttl q \<and> set (cp_pool p) \<subseteq> set (cp_pool q) \<and>
          unat (cp_count p) = length (cp_pool p) + k \<and> length (cp_pool p) \<le> length (cp_pool q)"
        unfolding p by (rule put_end_count [OF q])
      then show ?thesis using q(1,2) by (intro inv) (auto simp: q_def same_pool_def)
    qed
  qed
qed

lemma unat_ge_max: "m > 0 \<Longrightarrow> \<not> n \<ge> m \<Longrightarrow> unat (n :: u64) < unat m"
  by (simp add: word_less_nat_alt word_le_nat_alt)

lemma peek_begin_cases:
  assumes "peek_begin now on p = (r, q)"
  shows "same_pool p q \<and> cp_idle_ttl q = cp_idle_ttl p \<and> cp_delay_destroy q = cp_delay_destroy p \<and>
    (r = Peek_null \<and> cp_pool q = cp_pool p \<and> cp_count q = cp_count p \<or>
     (\<exists>c. r = Peek_conn c \<and> cp_pool p = c # cp_pool q \<and> cp_count q = cp_count p) \<or>
     r = Peek_open \<and> cp_pool p = [] \<and> cp_pool q = [] \<and> cp_count q = cp_count p + 1 \<and> (cp_max p > 0 \<longrightarrow> \<not> cp_count p \<ge> cp_max p))"
  using assms by (auto simp: peek_begin_def same_pool_def Let_def split: if_splits list.splits)

lemma step_inv: "pool_step s s' \<Longrightarrow> pool_inv s \<Longrightarrow> pool_inv s'"
proof (induction rule: pool_step.induct)
  case (peek_none now on s p)
  then show ?case using peek_begin_cases [OF peek_none(1)] by (auto simp: pool_inv_def Let_def ps_total_def same_pool_def)
next
  case (peek_idle now on s c p)
  then show ?case using peek_begin_cases [OF peek_idle(1)] by (auto simp: pool_inv_def Let_def ps_total_def same_pool_def)
next
  case (peek_reserve now on s p)
  have b: "unat (cp_count (ps_pool s)) = ps_total s" using peek_reserve(3) by (simp add: pool_inv_def Let_def)
  have "unat (cp_count (ps_pool s) + 1) = Suc (ps_total s)" using count_inc [of "cp_count (ps_pool s)"] peek_reserve(2) b by simp
  moreover have "cp_max (ps_pool s) = 0 \<or> ps_total s < unat (cp_max (ps_pool s))"
    using peek_begin_cases [OF peek_reserve(1)] unat_ge_max [of "cp_max (ps_pool s)" "cp_count (ps_pool s)"] b
    by (auto simp: word_gt_0)
  ultimately show ?case
    using peek_begin_cases [OF peek_reserve(1)] peek_reserve(3) by (auto simp: pool_inv_def Let_def ps_total_def same_pool_def)
next
  case (opened s n c)
  then show ?case by (auto simp: pool_inv_def Let_def ps_total_def peek_opened_def)
next
  case (open_failed s n)
  then have "unat (cp_count (ps_pool s)) = Suc (length (cp_pool (ps_pool s)) + length (ps_used s) + n)"
    by (simp add: pool_inv_def Let_def ps_total_def)
  from count_dec [OF this] show ?case
    using open_failed by (auto simp: pool_inv_def Let_def ps_total_def peek_failed_def)
next
  case (bind c s c' p)
  have b: "unat (cp_count (ps_pool s)) = ps_total s" using bind(4) by (simp add: pool_inv_def Let_def)
  have "unat (cp_count (ps_pool s) + 1) = Suc (ps_total s)" using count_inc [of "cp_count (ps_pool s)"] bind(3) b by simp
  moreover have "c' = c\<lparr>cc_pool := Some (cp_self (ps_pool s))\<rparr>" "p = (ps_pool s)\<lparr>cp_count := cp_count (ps_pool s) + 1\<rparr>"
    using bind(1,2) by (simp_all add: bind_one_def)
  ultimately show ?case using bind(4) by (auto simp: pool_inv_def Let_def ps_total_def)
next
  case (put c s now now2 now3 keep p)
  then show ?case by (intro put_keeps)
next
  case (idle ttl s now n p)
  have "unat (cp_count (ps_pool s)) = length (cp_pool (ps_pool s)) + (length (ps_used s) + ps_opening s)"
    using idle(3) by (simp add: pool_inv_def Let_def ps_total_def)
  from check_idle_count [OF idle(2) _ _ this] idle(1,3) show ?case
    by (auto simp: pool_inv_def Let_def ps_total_def same_pool_def)
next
  case (aliving now s b p)
  then show ?case by (auto simp: aliving_def pool_inv_def Let_def ps_total_def split: if_splits)
qed (auto simp: pool_inv_def Let_def ps_total_def set_idle_ttl_def set_alive_def set_key_def set_timeout_def set_retry_inter_def set_check_inter_def
    reset_statistics_def set_delay_destroy_def)

inductive pool_reachable :: "pool_sys \<Rightarrow> bool" where
  start: "pool_reachable \<lparr>ps_pool = cp_new self addr m idx, ps_used = [], ps_opening = 0, ps_bound = 0\<rparr>"
| step: "pool_reachable s \<Longrightarrow> pool_step s s' \<Longrightarrow> pool_reachable s'"

lemma reachable_inv: "pool_reachable s \<Longrightarrow> pool_inv s"
proof (induction rule: pool_reachable.induct)
  case (start self addr m idx)
  show ?case by (simp add: pool_inv_def cp_new_def ps_total_def)
qed (rule step_inv)

text \<open>What giving back keeps without any condition.\<close>

lemma idle_loop_length: "idle_loop self ttl now cs count n = (cs', count', n') \<Longrightarrow> length cs' \<le> length cs"
  by (induction cs arbitrary: cs' count n) (fastforce split: if_splits prod.splits)+

lemma check_idle_fields:
  assumes "check_idle ttl now p = (n, q)"
  shows "cp_self q = cp_self p \<and> cp_delay_destroy q = cp_delay_destroy p \<and> length (cp_pool q) \<le> length (cp_pool p)"
proof -
  obtain cs count m where l: "idle_loop (cp_self p) ttl now (rev (cp_pool p)) (cp_count p) 0 = (cs, count, m)"
    by (metis prod_cases3)
  show ?thesis using assms idle_loop_length [OF l] l by (simp add: check_idle_def split: if_splits) auto
qed

lemma put_end_fields:
  "cp_self (put_end now now2 now3 p) = cp_self p \<and> cp_delay_destroy (put_end now now2 now3 p) = cp_delay_destroy p \<and>
    length (cp_pool (put_end now now2 now3 p)) \<le> length (cp_pool p)"
proof -
  obtain n q where q: "check_idle (cp_idle_ttl p) now2 p = (n, q)" by force
  show ?thesis using check_idle_fields [OF q] q by (simp add: put_end_def)
qed

lemma put_fields:
  assumes "pool_put now now2 now3 c keep p = Put_ok q"
  shows "cp_self q = cp_self p \<and> cp_delay_destroy q = cp_delay_destroy p \<and> length (cp_pool q) \<le> Suc (length (cp_pool p))"
proof (cases "cp_delay_destroy p")
  case True
  then show ?thesis using assms by (auto simp: pool_put_def Let_def split: if_splits)
next
  case nd: False
  show ?thesis
  proof (cases "keep \<and> cp_alive p")
    case True
    then have "q = put_end now now2 now3 (p\<lparr>cp_pool := c\<lparr>cc_when := now\<rparr> # cp_pool p\<rparr>)"
      using assms nd by (simp add: pool_put_def)
    then show ?thesis using put_end_fields [of now now2 now3 "p\<lparr>cp_pool := c\<lparr>cc_when := now\<rparr> # cp_pool p\<rparr>"] by simp
  next
    case False
    then have "q = put_end now now2 now3 (if cc_pool c = Some (cp_self p) then p\<lparr>cp_count := cp_count p - 1\<rparr> else p)"
      using assms nd by (auto simp: pool_put_def split: if_splits)
    then show ?thesis
      using put_end_fields [of now now2 now3 "if cc_pool c = Some (cp_self p) then p\<lparr>cp_count := cp_count p - 1\<rparr> else p"]
      by (auto split: if_splits)
  qed
qed

lemma put_no_abort:
  assumes "pool_inv s" "c \<in> set (ps_used s)"
  shows "pool_put now now2 now3 c keep (ps_pool s) \<noteq> Put_abort"
proof -
  have "ps_total s \<noteq> 0" using assms(2) by (auto simp: ps_total_def)
  then have "cp_count (ps_pool s) \<noteq> 0" using assms(1) by (auto simp: pool_inv_def Let_def)
  then show ?thesis by (auto simp: pool_put_def Let_def word_gt_0)
qed

lemma put_destroyed_iff:
  assumes "pool_inv s" "c \<in> set (ps_used s)"
  shows "pool_put now now2 now3 c keep (ps_pool s) = Put_destroyed \<longleftrightarrow>
    cp_delay_destroy (ps_pool s) \<and> ps_used s = [c] \<and> ps_opening s = 0 \<and> cp_pool (ps_pool s) = []"
proof -
  let ?p = "ps_pool s"
  have own: "cc_pool c = Some (cp_self ?p)" using assms by (auto simp: pool_inv_def Let_def)
  obtain k where k: "ps_total s = Suc k" using assms(2) by (cases "ps_total s") (auto simp: ps_total_def)
  then have "unat (cp_count ?p) = Suc k" using assms(1) by (simp add: pool_inv_def Let_def)
  then have "unat (cp_count ?p - 1) = k" by (rule count_dec)
  then have z: "cp_count ?p - 1 \<le> 0 \<longleftrightarrow> k = 0" by (metis unat_0 word_le_0_iff unat_eq_zero)
  have "k = 0 \<longleftrightarrow> ps_used s = [c] \<and> ps_opening s = 0 \<and> cp_pool ?p = []"
  proof
    assume "k = 0"
    then have t: "length (cp_pool ?p) + length (ps_used s) + ps_opening s = 1" using k by (simp add: ps_total_def)
    moreover have "length (ps_used s) \<ge> 1" using assms(2) by (cases "ps_used s") auto
    ultimately have "length (ps_used s) = 1" "ps_opening s = 0" "length (cp_pool ?p) = 0" by linarith+
    then show "ps_used s = [c] \<and> ps_opening s = 0 \<and> cp_pool ?p = []"
      using assms(2) by (auto simp: length_Suc_conv)
  qed (use k in \<open>simp add: ps_total_def\<close>)
  then show ?thesis using z own by (auto simp: pool_put_def Let_def)
qed

end
