(* ===== verification/PoolProperties.thy ===== *)
theory PoolProperties
  imports ConnectPool
begin

text \<open>The properties of the connection pool.\<close>

text \<open>C22: In every state that interleaved calls of any threads can reach - but for a time to live of zero for the idle
  connections, and a check of them with one of zero while there are idle ones and others are in use or being opened;
  what these do say zero_ttl_aborts and zero_check_aborts -: the count is the number of connections that are idle, used or
  being opened; it exceeds the maximum by at most the connections bound from outside; giving back a
  used connection fails no assertion, and destroys the pool exactly if that was asked for and the
  connection was the last one of all, idle ones included.\<close>
theorem pool_reachable_invariant:
  assumes "pool_reachable s" "c \<in> set (ps_used s)"
  shows "unat (cp_count (ps_pool s)) = length (cp_pool (ps_pool s)) + length (ps_used s) + ps_opening s \<and>
    (cp_max (ps_pool s) = 0 \<or> unat (cp_count (ps_pool s)) \<le> unat (cp_max (ps_pool s)) + ps_bound s) \<and>
    pool_put now now2 now3 c keep (ps_pool s) \<noteq> Put_abort \<and>
    (pool_put now now2 now3 c keep (ps_pool s) = Put_destroyed \<longleftrightarrow>
       cp_delay_destroy (ps_pool s) \<and> ps_used s = [c] \<and> ps_opening s = 0 \<and> cp_pool (ps_pool s) = [])"
  using reachable_inv [OF assms(1)] put_no_abort [OF reachable_inv [OF assms(1)] assms(2)]
    put_destroyed_iff [OF reachable_inv [OF assms(1)] assms(2)]
  by (auto simp: pool_inv_def Let_def ps_total_def)

text \<open>A pool of at most two connections, with one of them taken.\<close>

definition one_taken :: pool_sys where
  "one_taken = \<lparr>ps_pool = (cp_new 7 [104] 2 0)\<lparr>cp_count := 1, cp_total_used := 1, cp_current_used := 1\<rparr>,
     ps_used = [\<lparr>cc_id = 1, cc_when = 0, cc_pool = Some 7\<rparr>], ps_opening = 0, ps_bound = 0\<rparr>"

lemma one_taken_reachable: "pool_reachable one_taken"
proof -
  define s0 where "s0 = \<lparr>ps_pool = cp_new 7 [104] 2 0, ps_used = [], ps_opening = 0, ps_bound = 0\<rparr>"
  define p where "p = (cp_new 7 [104] 2 0)\<lparr>cp_count := 1, cp_total_used := 1, cp_current_used := 1\<rparr>"
  have "peek_begin 0 True (ps_pool s0) = (Peek_open, p)" by (simp add: peek_begin_def s0_def p_def cp_new_def Let_def)
  then have 1: "pool_step s0 (s0\<lparr>ps_pool := p, ps_opening := Suc (ps_opening s0)\<rparr>)"
    by (rule peek_reserve) (simp add: ps_total_def s0_def cp_new_def)
  have 2: "pool_step (s0\<lparr>ps_pool := p, ps_opening := Suc (ps_opening s0)\<rparr>) one_taken"
    using opened [of "s0\<lparr>ps_pool := p, ps_opening := Suc (ps_opening s0)\<rparr>" 0 "\<lparr>cc_id = 1, cc_when = 0, cc_pool = None\<rparr>"]
    by (simp add: s0_def p_def one_taken_def peek_opened_def cp_new_def)
  have "pool_reachable s0" unfolding s0_def by (rule pool_reachable.start)
  then show ?thesis using 1 2 pool_reachable.step by blast
qed

theorem pool_reachable_invariant_witness:
  "unat (cp_count (ps_pool one_taken)) = 1 \<and>
   pool_put 5 5 5 \<lparr>cc_id = 1, cc_when = 0, cc_pool = Some 7\<rparr> True (ps_pool one_taken) \<noteq> Put_abort"
  using pool_reachable_invariant [OF one_taken_reachable, of "\<lparr>cc_id = 1, cc_when = 0, cc_pool = Some 7\<rparr>" 5 5 5 True]
  by (simp add: one_taken_def cp_new_def)

text \<open>With a time to live of zero, giving one connection back for keeping sets the count to zero
  although others are in use: the next one that is given back to be closed fails the assertion, and
  a new one is opened whatever the maximum is.\<close>
lemma zero_ttl_aborts:
  assumes "cp_alive p" "\<not> cp_delay_destroy p" "cp_idle_ttl p = 0" "now - cp_last_check p \<ge> cp_check_inter p"
  shows "\<exists>q. pool_put now now2 now3 c True p = Put_ok q \<and> cp_pool q = [] \<and> cp_count q = 0 \<and>
    pool_put t t2 t3 d False q = Put_abort \<and> fst (peek_begin t True q) = Peek_open"
  using assms by (auto simp: pool_put_def put_end_def check_idle_def peek_begin_def Let_def)

text \<open>So does a check of the idle connections with a time to live of zero.\<close>
lemma zero_check_aborts:
  assumes "cp_pool p \<noteq> []" "\<not> cp_delay_destroy p"
  shows "\<exists>q. check_idle 0 now p = (length (cp_pool p), q) \<and> cp_count q = 0 \<and> pool_put t t2 t3 d False q = Put_abort"
  using assms by (auto simp: check_idle_def pool_put_def)

text \<open>A pool that is dead stays so if the retry interval is zero or less, until it is set alive.\<close>

lemma dead_pool_stays_dead:
  "\<not> cp_alive p \<Longrightarrow> cp_retry_inter p \<le> 0 \<Longrightarrow> aliving now p = (False, p) \<and> peek_begin now on p = (Peek_null, p)"
  by (simp add: aliving_def peek_begin_def)

end
