(* ===== verification/ConnectManager.thy ===== *)
theory ConnectManager
  imports ConnectPool "HOL-Library.Monad_Syntax"
begin

text \<open>
  The manager of the pools of several servers: \<^verbatim>\<open>connect_manager\<close> (\<^verbatim>\<open>connpool/connect_manager.cpp\<close>).

  The pools are objects on a heap, named by numbers; using a pool that has destroyed itself gives
  \<^const>\<open>None\<close>. \<open>tid\<close> is the result of \<^verbatim>\<open>get_id\<close>: 0, or the thread if threads are bound.
\<close>

section \<open>Addresses\<close>

fun bytes_less :: "byte list \<Rightarrow> byte list \<Rightarrow> bool" where
  "bytes_less _ [] = False"
| "bytes_less [] (_ # _) = True"
| "bytes_less (x # xs) (y # ys) = (x < y \<or> x = y \<and> bytes_less xs ys)"

record conn_config =
  cf_addr :: "byte list"
  cf_count :: u64
  cf_conn_timeout :: int
  cf_rw_timeout :: int

text \<open>A map with strings as keys, in the order of the keys.\<close>

fun map_set :: "byte list \<Rightarrow> 'a \<Rightarrow> (byte list \<times> 'a) list \<Rightarrow> (byte list \<times> 'a) list" where
  "map_set k v [] = [(k, v)]"
| "map_set k v ((k', v') # xs) =
     (if k = k' then (k, v) # xs else if bytes_less k k' then (k, v) # (k', v') # xs else (k', v') # map_set k v xs)"

section \<open>State\<close>

record conns_pools =
  kp_check_next :: u64
  kp_conns_next :: u64
  kp_pools :: "nat list"

record connect_manager =
  mg_addrs :: "(byte list \<times> conn_config) list"
  mg_manager :: "(nat \<times> conns_pools) list"
  mg_heap :: "nat \<Rightarrow> connect_pool option"
  mg_next :: nat
  mg_retry_inter :: int
  mg_idle_ttl :: int
  mg_check_inter :: int

definition mg_new :: connect_manager where
  "mg_new = \<lparr>mg_addrs = [], mg_manager = [], mg_heap = (\<lambda>_. None), mg_next = 0, mg_retry_inter = 1,
     mg_idle_ttl = -1, mg_check_inter = -1\<rparr>"

definition mg_set_pool :: "nat \<Rightarrow> connect_pool \<Rightarrow> connect_manager \<Rightarrow> connect_manager" where
  "mg_set_pool i p m = m\<lparr>mg_heap := (mg_heap m)(i \<mapsto> p)\<rparr>"

definition mg_set_pools :: "nat \<Rightarrow> conns_pools \<Rightarrow> connect_manager \<Rightarrow> connect_manager" where
  "mg_set_pools tid k m = m\<lparr>mg_manager := map (\<lambda>(i, k'). (i, if i = tid then k else k')) (mg_manager m)\<rparr>"

definition mg_set_idle_ttl :: "int \<Rightarrow> connect_manager \<Rightarrow> connect_manager" where
  "mg_set_idle_ttl ttl m = m\<lparr>mg_idle_ttl := ttl\<rparr>"

definition mg_set_check_inter :: "int \<Rightarrow> connect_manager \<Rightarrow> connect_manager" where
  "mg_set_check_inter n m = m\<lparr>mg_check_inter := n\<rparr>"

text \<open>An operation on the pools of a list, in its order.\<close>

fun for_pools :: "(connect_pool \<Rightarrow> connect_pool) \<Rightarrow> nat list \<Rightarrow> connect_manager \<Rightarrow> connect_manager option" where
  "for_pools f [] m = Some m"
| "for_pools f (i # is) m = do { p \<leftarrow> mg_heap m i; for_pools f is (mg_set_pool i (f p) m) }"

definition mg_set_retry_inter :: "int \<Rightarrow> connect_manager \<Rightarrow> connect_manager option" where
  "mg_set_retry_inter n m =
     (if n = mg_retry_inter m then Some m
      else for_pools (set_retry_inter n) (concat (map (\<lambda>(i, k). kp_pools k) (mg_manager m))) (m\<lparr>mg_retry_inter := n\<rparr>))"

section \<open>Configuration\<close>

definition mg_set :: "byte list \<Rightarrow> u64 \<Rightarrow> int \<Rightarrow> int \<Rightarrow> connect_manager \<Rightarrow> connect_manager" where
  "mg_set addr count conn_timeout rw_timeout m =
     (let buf = map to_lower addr in
      case map_of (mg_addrs m) buf of
        None \<Rightarrow> m\<lparr>mg_addrs := map_set buf \<lparr>cf_addr = addr, cf_count = count, cf_conn_timeout = conn_timeout,
          cf_rw_timeout = rw_timeout\<rparr> (mg_addrs m)\<rparr>
      | Some cf \<Rightarrow> m\<lparr>mg_addrs := map_set buf (cf\<lparr>cf_count := count, cf_conn_timeout := conn_timeout,
          cf_rw_timeout := rw_timeout\<rparr>) (mg_addrs m)\<rparr>)"

definition mg_get_config :: "byte list \<Rightarrow> bool \<Rightarrow> connect_manager \<Rightarrow> conn_config option" where
  "mg_get_config addr use_first m =
     (case map_of (mg_addrs m) (map to_lower addr) of
        Some cf \<Rightarrow> Some cf
      | None \<Rightarrow> if \<not> use_first \<or> mg_addrs m = [] then None else Some (snd (hd (mg_addrs m))))"

section \<open>Pools\<close>

definition get_pools_by_id :: "nat \<Rightarrow> connect_manager \<Rightarrow> conns_pools \<times> connect_manager" where
  "get_pools_by_id tid m =
     (case map_of (mg_manager m) tid of
        Some k \<Rightarrow> (k, m)
      | None \<Rightarrow> let k = \<lparr>kp_check_next = 0, kp_conns_next = 0, kp_pools = []\<rparr>
                in (k, m\<lparr>mg_manager := mg_manager m @ [(tid, k)]\<rparr>))"

definition new_pool :: "nat \<Rightarrow> conn_config \<Rightarrow> nat \<Rightarrow> connect_manager \<Rightarrow> connect_pool" where
  "new_pool i cf idx m =
     (let p = set_timeout (cf_conn_timeout cf) (cf_rw_timeout cf)
            (set_retry_inter (mg_retry_inter m)
              (set_key (map to_lower (cf_addr cf)) (cp_new i (cf_addr cf) (cf_count cf) idx)));
          p = (if mg_idle_ttl m \<ge> 0 then set_idle_ttl (mg_idle_ttl m) p else p)
      in if mg_check_inter m > 0 then set_check_inter (mg_check_inter m) p else p)"

definition create_pool :: "conn_config \<Rightarrow> nat \<Rightarrow> connect_manager \<Rightarrow> nat \<times> connect_manager" where
  "create_pool cf idx m =
     (mg_next m, mg_set_pool (mg_next m) (new_pool (mg_next m) cf idx m) (m\<lparr>mg_next := Suc (mg_next m)\<rparr>))"

text \<open>The first pool of a list with a key.\<close>

fun find_key :: "byte list \<Rightarrow> nat list \<Rightarrow> connect_manager \<Rightarrow> nat option option" where
  "find_key key [] m = Some None"
| "find_key key (i # is) m = do { p \<leftarrow> mg_heap m i; if cp_key p = key then Some (Some i) else find_key key is m }"

definition mg_get :: "nat \<Rightarrow> int \<Rightarrow> byte list \<Rightarrow> bool \<Rightarrow> connect_manager \<Rightarrow> (nat option \<times> connect_manager) option" where
  "mg_get tid now addr restore m =
     (let key = map to_lower addr; (k, m) = get_pools_by_id tid m in
      do { r \<leftarrow> find_key key (kp_pools k) m;
           case r of
             Some i \<Rightarrow>
               do { p \<leftarrow> mg_heap m i;
                    let (ok, p') = aliving now p in
                    Some (Some i, if restore
                      then mg_set_pool i (if \<not> ok then set_alive now True p' else p') m else m) }
           | None \<Rightarrow>
               (case map_of (mg_addrs m) key of
                  None \<Rightarrow> Some (None, m)
                | Some cf \<Rightarrow>
                    let (i, m) = create_pool cf (length (kp_pools k)) m
                    in Some (Some i, mg_set_pools tid (k\<lparr>kp_pools := kp_pools k @ [i]\<rparr>) m)) })"

fun create_pools_for :: "conn_config list \<Rightarrow> nat list \<Rightarrow> connect_manager \<Rightarrow> nat list \<times> connect_manager" where
  "create_pools_for [] is m = (is, m)"
| "create_pools_for (cf # cfs) is m =
     (let (i, m) = create_pool cf (length is) m in create_pools_for cfs (is @ [i]) m)"

text \<open>The search for a pool that is alive; \<open>now\<close> reads the clock.\<close>

fun peek_loop :: "(nat \<Rightarrow> int) \<Rightarrow> nat \<Rightarrow> u64 \<Rightarrow> nat list \<Rightarrow> connect_manager \<Rightarrow> (nat option \<times> u64 \<times> connect_manager) option" where
  "peek_loop now 0 conns_next is m = Some (None, conns_next, m)"
| "peek_loop now (Suc n) conns_next is m =
     (let i = is ! (unat conns_next mod length is) in
      do { p \<leftarrow> mg_heap m i;
           let (ok, p') = aliving (now n) p in
           if ok then Some (Some i, conns_next + 1, mg_set_pool i p' m)
           else peek_loop now n (conns_next + 1) is (mg_set_pool i p' m) })"

definition mg_pools :: "nat \<Rightarrow> connect_manager \<Rightarrow> conns_pools \<times> connect_manager" where
  "mg_pools tid m =
     (let (k, m) = get_pools_by_id tid m in
      if kp_pools k = [] then
        let (is, m) = create_pools_for (map snd (mg_addrs m)) [] m;
            k = k\<lparr>kp_pools := is\<rparr>
        in (k, mg_set_pools tid k m)
      else (k, m))"

definition mg_peek :: "nat \<Rightarrow> (nat \<Rightarrow> int) \<Rightarrow> connect_manager \<Rightarrow> (nat option \<times> connect_manager) option" where
  "mg_peek tid now m =
     (if mg_addrs m = [] then Some (None, m)
      else let (k, m) = mg_pools tid m in
        do { (r, next, m) \<leftarrow> peek_loop now (length (kp_pools k)) (kp_conns_next k) (kp_pools k) m;
             Some (r, mg_set_pools tid (k\<lparr>kp_conns_next := next\<rparr>) m) })"

definition mg_peek_addr :: "nat \<Rightarrow> (byte list \<Rightarrow> u32) \<Rightarrow> (nat \<Rightarrow> int) \<Rightarrow> byte list \<Rightarrow> connect_manager \<Rightarrow>
    (nat option \<times> connect_manager) option" where
  "mg_peek_addr tid crc32 now addr m =
     (if addr = [] then mg_peek tid now m
      else if mg_addrs m = [] then Some (None, m)
      else let (k, m) = mg_pools tid m
           in Some (Some (kp_pools k ! (unat (crc32 addr) mod length (kp_pools k))), m))"

section \<open>Removing, status and idle connections\<close>

fun remove_in :: "byte list \<Rightarrow> nat list \<Rightarrow> connect_manager \<Rightarrow> (nat list \<times> connect_manager) option" where
  "remove_in addr [] m = Some ([], m)"
| "remove_in addr (i # is) m =
     do { p \<leftarrow> mg_heap m i;
          if map to_lower (cp_key p) = addr then Some (is, mg_set_pool i (set_delay_destroy p) m)
          else do { (is', m') \<leftarrow> remove_in addr is m; Some (i # is', m') } }"

fun remove_all_ids :: "byte list \<Rightarrow> (nat \<times> conns_pools) list \<Rightarrow> connect_manager \<Rightarrow> connect_manager option" where
  "remove_all_ids addr [] m = Some m"
| "remove_all_ids addr ((tid, k) # ks) m =
     do { (is, m) \<leftarrow> remove_in addr (kp_pools k) m;
          remove_all_ids addr ks (mg_set_pools tid (k\<lparr>kp_pools := is\<rparr>) m) }"

definition mg_remove :: "byte list \<Rightarrow> connect_manager \<Rightarrow> connect_manager option" where
  "mg_remove addr m = remove_all_ids (map to_lower addr) (mg_manager m) m"

fun set_status :: "int \<Rightarrow> byte list \<Rightarrow> bool \<Rightarrow> nat list \<Rightarrow> connect_manager \<Rightarrow> connect_manager option" where
  "set_status now addr yes [] m = Some m"
| "set_status now addr yes (i # is) m =
     do { p \<leftarrow> mg_heap m i;
          if map to_lower addr = map to_lower (cp_key p) then Some (mg_set_pool i (set_alive now yes p) m)
          else set_status now addr yes is m }"

fun set_status_all :: "int \<Rightarrow> byte list \<Rightarrow> bool \<Rightarrow> (nat \<times> conns_pools) list \<Rightarrow> connect_manager \<Rightarrow> connect_manager option" where
  "set_status_all now addr yes [] m = Some m"
| "set_status_all now addr yes ((tid, k) # ks) m =
     do { m \<leftarrow> set_status now addr yes (kp_pools k) m; set_status_all now addr yes ks m }"

definition set_pools_status :: "int \<Rightarrow> byte list \<Rightarrow> bool \<Rightarrow> connect_manager \<Rightarrow> connect_manager option" where
  "set_pools_status now addr yes m =
     (if addr = [] then Some m else set_status_all now addr yes (mg_manager m) m)"

text \<open>The pools from \<open>pos\<close> on, \<open>step\<close> of them at most; the number freed and the connections left.\<close>

fun idle_pools :: "int \<Rightarrow> nat list \<Rightarrow> nat \<Rightarrow> u64 \<Rightarrow> connect_manager \<Rightarrow> (nat \<times> u64 \<times> connect_manager) option" where
  "idle_pools now [] nfreed nleft m = Some (nfreed, nleft, m)"
| "idle_pools now (i # is) nfreed nleft m =
     do { p \<leftarrow> mg_heap m i;
          let (n, p') = check_idle (mg_idle_ttl m) now p in
          idle_pools now is (nfreed + n) (nleft + cp_count p') (mg_set_pool i p' m) }"

definition mg_check_idle :: "nat \<Rightarrow> int \<Rightarrow> nat \<Rightarrow> connect_manager \<Rightarrow> (nat \<times> u64 \<times> connect_manager) option" where
  "mg_check_idle tid now step m =
     (let step = (if step = 0 then 1 else step); (k, m) = get_pools_by_id tid m in
      if kp_pools k = [] then Some (0, 0, m)
      else let pos = unat (kp_check_next k) mod length (kp_pools k);
               m = mg_set_pools tid (k\<lparr>kp_check_next := kp_check_next k + 1\<rparr>) m
           in idle_pools now (take step (drop pos (kp_pools k))) 0 0 m)"

end
