(* ===== verification/RedisCluster.thy ===== *)
theory RedisCluster
  imports ConnectManager RedisCommandRun
begin

text \<open>
  The client of a redis cluster: \<^verbatim>\<open>redis_client_cluster\<close> (\<^verbatim>\<open>redis/redis_client_cluster.cpp\<close>) over the
  manager of pools, without thread binding.

  The network is a parameter: the clock, opening a connection, a request on a connection
  (\<^verbatim>\<open>redis_client::run\<close>, see \<open>redis_run\<close>) and its end of file. \<^const>\<open>None\<close> is a use of memory that was
  released or a failed assertion. What is only logged is left out, and the pauses.
\<close>

section \<open>State\<close>

record 'n redis_net =
  nt_now :: "'n \<Rightarrow> int \<times> 'n"
  nt_connect :: "byte list \<Rightarrow> 'n \<Rightarrow> nat option \<times> 'n"
  nt_run :: "nat \<Rightarrow> byte list \<Rightarrow> nat \<Rightarrow> 'n \<Rightarrow> redis_result option \<times> 'n"
  nt_eof :: "nat \<Rightarrow> 'n \<Rightarrow> bool \<times> 'n"

record 'n redis_cluster =
  cl_mgr :: connect_manager
  cl_max_slot :: int
  cl_slots :: "byte list option list"
  cl_addrs :: "byte list list"
  cl_redirect_max :: int
  cl_world :: 'n

definition cl_new :: "int \<Rightarrow> 'n \<Rightarrow> 'n redis_cluster" where
  "cl_new max_slot w = \<lparr>cl_mgr = mg_new, cl_max_slot = max_slot, cl_slots = replicate (nat max_slot) None,
     cl_addrs = [], cl_redirect_max = 15, cl_world = w\<rparr>"

definition set_redirect_max :: "int \<Rightarrow> 'n redis_cluster \<Rightarrow> 'n redis_cluster" where
  "set_redirect_max m s = (if m > 0 then s\<lparr>cl_redirect_max := m\<rparr> else s)"

section \<open>The pools\<close>

text \<open>\<^verbatim>\<open>connect_pool::peek\<close> and \<^verbatim>\<open>put\<close> on a pool of the heap.\<close>

definition cl_pool :: "nat \<Rightarrow> connect_pool \<Rightarrow> 'n redis_cluster \<Rightarrow> 'n redis_cluster" where
  "cl_pool i p s = s\<lparr>cl_mgr := mg_set_pool i p (cl_mgr s)\<rparr>"

definition pool_peek :: "'n redis_net \<Rightarrow> nat \<Rightarrow> 'n redis_cluster \<Rightarrow> (connect_client option \<times> 'n redis_cluster) option" where
  "pool_peek net i s =
     do { p \<leftarrow> mg_heap (cl_mgr s) i;
          let (now, w) = nt_now net (cl_world s) in
          case peek_begin now True p of
            (Peek_null, p') \<Rightarrow> Some (None, (cl_pool i p' s)\<lparr>cl_world := w\<rparr>)
          | (Peek_conn c, p') \<Rightarrow> Some (Some c, (cl_pool i p' s)\<lparr>cl_world := w\<rparr>)
          | (Peek_open, p') \<Rightarrow>
              (case nt_connect net (cp_addr p') w of
                 (Some n, w') \<Rightarrow>
                   Some (Some (peek_opened \<lparr>cc_id = n, cc_when = 0, cc_pool = None\<rparr> p'), (cl_pool i p' s)\<lparr>cl_world := w'\<rparr>)
               | (None, w') \<Rightarrow> Some (None, (cl_pool i (peek_failed p') s)\<lparr>cl_world := w'\<rparr>)) }"

definition conn_put :: "'n redis_net \<Rightarrow> connect_client \<Rightarrow> bool \<Rightarrow> 'n redis_cluster \<Rightarrow> 'n redis_cluster option" where
  "conn_put net c keep s =
     do { i \<leftarrow> cc_pool c;
          p \<leftarrow> mg_heap (cl_mgr s) i;
          let (now, w1) = nt_now net (cl_world s); (now2, w2) = nt_now net w1; (now3, w3) = nt_now net w2 in
          case pool_put now now2 now3 c keep p of
            Put_ok p' \<Rightarrow> Some ((cl_pool i p' s)\<lparr>cl_world := w3\<rparr>)
          | Put_destroyed \<Rightarrow> Some (s\<lparr>cl_mgr := (cl_mgr s)\<lparr>mg_heap := (mg_heap (cl_mgr s))(i := None)\<rparr>, cl_world := w3\<rparr>)
          | Put_abort \<Rightarrow> None }"

definition cl_get :: "byte list \<Rightarrow> 'n redis_cluster \<Rightarrow> (nat option \<times> 'n redis_cluster) option" where
  "cl_get addr s = do { (r, m) \<leftarrow> mg_get 0 0 addr False (cl_mgr s); Some (r, s\<lparr>cl_mgr := m\<rparr>) }"

text \<open>The clock stands still during one search of the manager.\<close>

definition cl_peek :: "'n redis_net \<Rightarrow> 'n redis_cluster \<Rightarrow> (nat option \<times> 'n redis_cluster) option" where
  "cl_peek net s =
     (let (now, w) = nt_now net (cl_world s) in
      do { (r, m) \<leftarrow> mg_peek 0 (\<lambda>_. now) (cl_mgr s); Some (r, s\<lparr>cl_mgr := m, cl_world := w\<rparr>) })"

section \<open>Slots\<close>

definition peek_slot :: "int \<Rightarrow> 'n redis_cluster \<Rightarrow> (nat option \<times> 'n redis_cluster) option" where
  "peek_slot slot s =
     (if slot < 0 \<or> slot \<ge> cl_max_slot s then Some (None, s)
      else case cl_slots s ! nat slot of
        None \<Rightarrow> Some (None, s)
      | Some addr \<Rightarrow> cl_get addr s)"

definition clear_slot :: "int \<Rightarrow> 'n redis_cluster \<Rightarrow> 'n redis_cluster" where
  "clear_slot slot s =
     (if slot \<ge> 0 \<and> slot < cl_max_slot s then s\<lparr>cl_slots := (cl_slots s)[nat slot := None]\<rparr> else s)"

definition set_slot :: "int \<Rightarrow> byte list \<Rightarrow> 'n redis_cluster \<Rightarrow> 'n redis_cluster" where
  "set_slot slot addr s =
     (if slot < 0 \<or> slot \<ge> cl_max_slot s \<or> addr = [] then s
      else s\<lparr>cl_addrs := (if addr \<in> set (cl_addrs s) then cl_addrs s else cl_addrs s @ [addr]),
             cl_slots := (cl_slots s)[nat slot := Some addr]\<rparr>)"

section \<open>Taking a connection\<close>

fun redirect_loop :: "'n redis_net \<Rightarrow> nat \<Rightarrow> nat \<Rightarrow> 'n redis_cluster \<Rightarrow> (connect_client option \<times> 'n redis_cluster) option" where
  "redirect_loop net 0 conns s = Some (None, s)"
| "redirect_loop net (Suc n) conns s =
     do { (c, s) \<leftarrow> pool_peek net conns s;
          case c of
            Some conn \<Rightarrow> Some (Some conn, s)
          | None \<Rightarrow>
              do { (r, s) \<leftarrow> cl_peek net s;
                   case r of None \<Rightarrow> Some (None, s) | Some conns' \<Rightarrow> redirect_loop net n conns' s } }"

definition redirect :: "'n redis_net \<Rightarrow> byte list \<Rightarrow> u64 \<Rightarrow> 'n redis_cluster \<Rightarrow> (connect_client option \<times> 'n redis_cluster) option" where
  "redirect net addr max_conns s =
     do { (r, s) \<leftarrow> cl_get addr s;
          (r, s) \<leftarrow> (case r of
              Some i \<Rightarrow> Some (Some i, s)
            | None \<Rightarrow> cl_get addr (s\<lparr>cl_mgr := mg_set addr max_conns 30 30 (cl_mgr s)\<rparr>));
          case r of None \<Rightarrow> Some (None, s) | Some conns \<Rightarrow> redirect_loop net 5 conns s }"

fun peek_conn_loop :: "'n redis_net \<Rightarrow> nat \<Rightarrow> int \<Rightarrow> 'n redis_cluster \<Rightarrow> (connect_client option \<times> 'n redis_cluster) option" where
  "peek_conn_loop net 0 slot s = Some (None, s)"
| "peek_conn_loop net (Suc n) slot s =
     do { (r, s) \<leftarrow>
            (if slot < 0 then cl_peek net s
             else do { (r, s) \<leftarrow> peek_slot slot s;
                       case r of Some i \<Rightarrow> Some (Some i, s) | None \<Rightarrow> cl_peek net s });
          case r of
            None \<Rightarrow> peek_conn_loop net n (-1) s
          | Some conns \<Rightarrow>
              do { (c, s) \<leftarrow> pool_peek net conns s;
                   case c of
                     Some conn \<Rightarrow> Some (Some conn, s)
                   | None \<Rightarrow> peek_conn_loop net n slot (clear_slot slot s) } }"

definition peek_conn :: "'n redis_net \<Rightarrow> int \<Rightarrow> 'n redis_cluster \<Rightarrow> (connect_client option \<times> 'n redis_cluster) option" where
  "peek_conn net slot s = peek_conn_loop net 5 slot s"

section \<open>Redirection\<close>

text \<open>The address behind the second space of the message.\<close>

definition get_addr :: "byte list \<Rightarrow> byte list option" where
  "get_addr info =
     (case dropWhile (\<lambda>c. c \<noteq> 32) (cstr info) of
        [] \<Rightarrow> None
      | _ # slot \<Rightarrow>
          (case dropWhile (\<lambda>c. c \<noteq> 32) slot of
             [] \<Rightarrow> None
           | _ # addr \<Rightarrow> if addr = [] then None else Some addr))"

text \<open>Each gives the connection to go on with, or NULL, and the command after \<^verbatim>\<open>clear\<close>.\<close>

definition cl_reopen :: "'n redis_net \<Rightarrow> redis_command \<Rightarrow> connect_client \<Rightarrow> 'n redis_cluster \<Rightarrow>
    (connect_client option \<times> redis_command \<times> 'n redis_cluster) option" where
  "cl_reopen net cmd conn s =
     do { s \<leftarrow> conn_put net conn False (clear_slot (cm_slot cmd) s);
          none \<leftarrow> (if case cm_obj cmd of None \<Rightarrow> True | Some r \<Rightarrow> rq_argc r = 0
            then do { buf \<leftarrow> cm_buf cmd; Some (buf = []) } else Some False);
          if none then Some (None, cmd, s)
          else do { (c, s) \<leftarrow> peek_conn net (cm_slot cmd) s;
                    case c of
                      None \<Rightarrow> Some (None, cmd, s)
                    | Some conn' \<Rightarrow> Some (Some conn', cm_clear True cmd, s) } }"

text \<open>The common part of \<^verbatim>\<open>move\<close> and \<^verbatim>\<open>ask\<close>.\<close>

definition cl_follow :: "'n redis_net \<Rightarrow> connect_client \<Rightarrow> byte list \<Rightarrow> 'n redis_cluster \<Rightarrow>
    (connect_client option \<times> 'n redis_cluster) option" where
  "cl_follow net conn info s =
     do { s \<leftarrow> conn_put net conn True s;
          case get_addr info of
            None \<Rightarrow> Some (None, s)
          | Some addr \<Rightarrow>
              (case mg_get_config addr True (cl_mgr s) of
                 None \<Rightarrow> Some (None, s)
               | Some conf \<Rightarrow> redirect net addr (cf_count conf) s) }"

definition cl_move :: "'n redis_net \<Rightarrow> redis_command \<Rightarrow> connect_client \<Rightarrow> byte list \<Rightarrow> 'n redis_cluster \<Rightarrow>
    (connect_client option \<times> redis_command \<times> 'n redis_cluster) option" where
  "cl_move net cmd conn info s =
     do { (c, s) \<leftarrow> cl_follow net conn info s;
          case c of
            None \<Rightarrow> Some (None, cmd, s)
          | Some conn' \<Rightarrow> Some (Some conn', cm_clear True cmd, s) }"

text \<open>\<^verbatim>\<open>"ASKING\r\n"\<close> and \<^verbatim>\<open>"OK"\<close>.\<close>

definition asking :: "byte list" where "asking = [65, 83, 75, 73, 78, 71, 13, 10]"
definition ok_lower :: "byte list" where "ok_lower = [111, 107]"

definition cl_ask :: "'n redis_net \<Rightarrow> redis_command \<Rightarrow> connect_client \<Rightarrow> byte list \<Rightarrow> 'n redis_cluster \<Rightarrow>
    (connect_client option \<times> redis_command \<times> 'n redis_cluster) option" where
  "cl_ask net cmd conn info s =
     do { (c, s) \<leftarrow> cl_follow net conn info s;
          case c of
            None \<Rightarrow> Some (None, cmd, s)
          | Some conn' \<Rightarrow>
              let (result, w) = nt_run net (cc_id conn') asking 0 (cl_world s) in
              if (case result of None \<Rightarrow> True | Some r \<Rightarrow> map to_lower (cstr (rr_get_status r)) \<noteq> ok_lower) then
                let (eof, w) = nt_eof net (cc_id conn') w in
                do { s \<leftarrow> conn_put net conn' (\<not> eof) (s\<lparr>cl_world := w\<rparr>); Some (None, cmd, s) }
              else Some (Some conn', cm_clear True cmd, s\<lparr>cl_world := w\<rparr>) }"

definition cluster_down :: "'n redis_net \<Rightarrow> redis_command \<Rightarrow> connect_client \<Rightarrow> 'n redis_cluster \<Rightarrow>
    (connect_client option \<times> redis_command \<times> 'n redis_cluster) option" where
  "cluster_down net cmd conn s =
     do { i \<leftarrow> cc_pool conn;
          s \<leftarrow> conn_put net conn False (clear_slot (cm_slot cmd) s);
          p \<leftarrow> mg_heap (cl_mgr s) i;
          let (now, w) = nt_now net (cl_world s) in
          do { (c, s) \<leftarrow> peek_conn net (-1) ((cl_pool i (set_alive now False p) s)\<lparr>cl_world := w\<rparr>);
               case c of
                 None \<Rightarrow> Some (None, cmd, s)
               | Some conn' \<Rightarrow> Some (Some conn', cm_clear True cmd, s) } }"

section \<open>A request\<close>

text \<open>\<^verbatim>\<open>EQ\<close>: the text begins with a word, in upper or lower case.\<close>

definition starts_with :: "byte list \<Rightarrow> byte list \<Rightarrow> bool" where
  "starts_with s word \<longleftrightarrow> map to_lower (take (length word) s) = map to_lower word"

definition MOVED :: "byte list" where "MOVED = [77, 79, 86, 69, 68]"
definition ASK :: "byte list" where "ASK = [65, 83, 75]"
definition CLUSTERDOWN :: "byte list" where "CLUSTERDOWN = [67, 76, 85, 83, 84, 69, 82, 68, 79, 87, 78]"

text \<open>What a turn of the loop comes to: it returns, or goes on with a connection and \<^verbatim>\<open>last_moved\<close>.\<close>

type_synonym 'n cl_step =
  "(redis_result option + connect_client \<times> bool \<times> redis_command) \<times> 'n redis_cluster"

definition go_on :: "redis_result option \<Rightarrow> bool \<Rightarrow> connect_client option \<times> redis_command \<times> 'n redis_cluster \<Rightarrow> 'n cl_step" where
  "go_on result moved = (\<lambda>(c, cmd, s). (case c of None \<Rightarrow> Inl result | Some conn \<Rightarrow> Inr (conn, moved, cmd), s))"

text \<open>What is done with a result.\<close>

definition cl_result :: "'n redis_net \<Rightarrow> redis_command \<Rightarrow> connect_client \<Rightarrow> bool \<Rightarrow> redis_result \<Rightarrow> 'n redis_cluster \<Rightarrow>
    'n cl_step option" where
  "cl_result net cmd conn moved r s =
     (if rr_type r \<noteq> RT_ERROR then
        (if cm_slot cmd < 0 \<or> \<not> moved then do { s \<leftarrow> conn_put net conn True s; Some (Inl (Some r), s) }
         else do { i \<leftarrow> cc_pool conn;
                   p \<leftarrow> mg_heap (cl_mgr s) i;
                   s \<leftarrow> conn_put net conn True (set_slot (cm_slot cmd) (cp_addr p) s);
                   Some (Inl (Some r), s) })
      else let ptr = cstr (rr_get_error r) in
        if ptr = [] then do { s \<leftarrow> conn_put net conn True s; Some (Inl (Some r), s) }
        else if starts_with ptr MOVED then
          do { x \<leftarrow> cl_move net cmd conn ptr s; Some (go_on (Some r) True x) }
        else if starts_with ptr ASK then
          do { x \<leftarrow> cl_ask net cmd conn ptr s; Some (go_on (Some r) False x) }
        else if starts_with ptr CLUSTERDOWN then
          do { x \<leftarrow> cluster_down net cmd conn s; Some (go_on (Some r) moved x) }
        else do { s \<leftarrow> conn_put net conn True s; Some (Inl (Some r), s) })"

text \<open>The request: the pieces or the buffer, which must exist.\<close>

definition cl_request :: "redis_command \<Rightarrow> byte list option" where
  "cl_request cmd =
     (if cm_slice_req cmd then
        do { r \<leftarrow> cm_obj cmd;
             if None \<in> set (rq_pieces r) then None else Some (concat (map (\<lambda>x. piece_bytes (the x)) (rq_pieces r))) }
      else cm_buf cmd)"

definition cl_turn :: "'n redis_net \<Rightarrow> nat \<Rightarrow> redis_command \<Rightarrow> connect_client \<Rightarrow> bool \<Rightarrow> 'n redis_cluster \<Rightarrow> 'n cl_step option" where
  "cl_turn net nchild cmd conn moved s =
     do { req \<leftarrow> cl_request cmd;
          let (result, w) = nt_run net (cc_id conn) req nchild (cl_world s); (eof, w) = nt_eof net (cc_id conn) w;
              s = s\<lparr>cl_world := w\<rparr> in
          if eof then do { x \<leftarrow> cl_reopen net cmd conn s; Some (go_on result True x) }
          else case result of
            None \<Rightarrow> do { s \<leftarrow> conn_put net conn True s; Some (Inl None, s) }
          | Some r \<Rightarrow> cl_result net cmd conn moved r s }"

text \<open>The loop, with the turns left.\<close>

fun cl_loop :: "'n redis_net \<Rightarrow> nat \<Rightarrow> nat \<Rightarrow> redis_command \<Rightarrow> connect_client \<Rightarrow> bool \<Rightarrow> 'n redis_cluster \<Rightarrow>
    (redis_result option \<times> 'n redis_cluster) option" where
  "cl_loop net 0 nchild cmd conn moved s = do { s \<leftarrow> conn_put net conn True s; Some (None, s) }"
| "cl_loop net (Suc n) nchild cmd conn moved s =
     do { (r, s) \<leftarrow> cl_turn net nchild cmd conn moved s;
          case r of
            Inl result \<Rightarrow> Some (result, s)
          | Inr (conn', moved', cmd') \<Rightarrow> cl_loop net n nchild cmd' conn' moved' s }"

definition cluster_run :: "'n redis_net \<Rightarrow> nat \<Rightarrow> redis_command \<Rightarrow> 'n redis_cluster \<Rightarrow>
    (redis_result option \<times> 'n redis_cluster) option" where
  "cluster_run net nchild cmd s =
     do { (c, s) \<leftarrow> peek_conn net (cm_slot cmd) s;
          case c of
            None \<Rightarrow> Some (None, s)
          | Some conn \<Rightarrow> cl_loop net (nat (cl_redirect_max s)) nchild cmd conn False s }"

end
