(* ===== verification/PoolsInv.thy ===== *)
theory PoolsInv
  imports ConnectManager
begin

text \<open>
  The connections of all the pools of a manager: what is counted, idle and held, as an invariant of
  the operations of the manager.
\<close>

definition held :: "nat \<Rightarrow> connect_client list \<Rightarrow> connect_client list" where
  "held i used = filter (\<lambda>c. cc_pool c = Some i) used"

definition pool_good :: "nat \<Rightarrow> connect_pool \<Rightarrow> connect_client list \<Rightarrow> bool" where
  "pool_good n p used \<longleftrightarrow>
     pool_inv \<lparr>ps_pool = p, ps_used = used, ps_opening = 0, ps_bound = n\<rparr> \<and> length (cp_pool p) + length used \<le> n"

definition listed :: "connect_manager \<Rightarrow> nat set" where
  "listed m = set (concat (map (\<lambda>(j, k). kp_pools k) (mg_manager m)))"

text \<open>At most \<open>n\<close> connections a pool, none of them to be destroyed, and all users know their pool.\<close>

definition pools_inv :: "nat \<Rightarrow> connect_manager \<Rightarrow> connect_client list \<Rightarrow> bool" where
  "pools_inv n m used \<longleftrightarrow>
     mg_idle_ttl m \<noteq> 0 \<and>
     (\<forall>i p. mg_heap m i = Some p \<longrightarrow> i < mg_next m \<and> cp_self p = i \<and> \<not> cp_delay_destroy p \<and> pool_good n p (held i used)) \<and>
     (\<forall>c \<in> set used. \<exists>i. cc_pool c = Some i \<and> mg_heap m i \<noteq> None) \<and>
     (\<forall>i \<in> listed m. mg_heap m i \<noteq> None)"

lemma pool_good_iff:
  "pool_good n p used \<longleftrightarrow>
     unat (cp_count p) = length (cp_pool p) + length used \<and> cp_idle_ttl p \<noteq> 0 \<and>
     (\<forall>c \<in> set (cp_pool p) \<union> set used. cc_pool c = Some (cp_self p)) \<and> length (cp_pool p) + length used \<le> n"
  by (auto simp: pool_good_def pool_inv_def ps_total_def Let_def)

lemma pool_good_mono: "pool_good n p used \<Longrightarrow> n \<le> n' \<Longrightarrow> pool_good n' p used"
  by (auto simp: pool_good_iff)

lemma pools_invD:
  assumes "pools_inv n m used" "mg_heap m i = Some p"
  shows "i < mg_next m" "cp_self p = i" "\<not> cp_delay_destroy p" "pool_good n p (held i used)"
  using assms by (auto simp: pools_inv_def)

lemma held_owner: "c \<in> set (held i used) \<Longrightarrow> cc_pool c = Some i"
  by (auto simp: held_def)

lemma held_remove1: "cc_pool c = Some j \<Longrightarrow> held i (remove1 c used) = (if i = j then remove1 c (held i used) else held i used)"
  by (auto simp: held_def filter_remove1)

lemma pools_inv_update:
  assumes "pools_inv n m used" "mg_heap m i = Some p" "n \<le> n'"
    and "cp_self p' = i" "\<not> cp_delay_destroy p'" "pool_good n' p' (held i used')"
    and "\<And>j. j \<noteq> i \<Longrightarrow> held j used' = held j used" "\<forall>c \<in> set used'. \<exists>j. cc_pool c = Some j \<and> mg_heap m j \<noteq> None"
  shows "pools_inv n' (mg_set_pool i p' m) used'"
proof -
  have main: "j < mg_next m \<and> cp_self q = j \<and> \<not> cp_delay_destroy q \<and> pool_good n' q (held j used')"
    if q: "mg_heap (mg_set_pool i p' m) j = Some q" for j q
  proof (cases "j = i")
    case True
    then show ?thesis using q assms(4-6) pools_invD(1) [OF assms(1,2)] by (simp add: mg_set_pool_def)
  next
    case False
    then have "mg_heap m j = Some q" using q by (simp add: mg_set_pool_def)
    from pools_invD [OF assms(1) this] show ?thesis using assms(3,7) False pool_good_mono by simp
  qed
  have h: "mg_heap (mg_set_pool i p' m) j \<noteq> None" if "mg_heap m j \<noteq> None" for j using that by (simp add: mg_set_pool_def)
  have l: "listed (mg_set_pool i p' m) = listed m" "mg_next (mg_set_pool i p' m) = mg_next m"
    "mg_idle_ttl (mg_set_pool i p' m) = mg_idle_ttl m" by (simp_all add: mg_set_pool_def listed_def)
  have "\<forall>x \<in> listed m. mg_heap (mg_set_pool i p' m) x \<noteq> None" using assms(1) h by (simp add: pools_inv_def)
  moreover have "\<forall>c \<in> set used'. \<exists>j. cc_pool c = Some j \<and> mg_heap (mg_set_pool i p' m) j \<noteq> None"
    using assms(8) h by meson
  moreover have "mg_idle_ttl m \<noteq> 0" using assms(1) by (simp add: pools_inv_def)
  ultimately show ?thesis using main unfolding pools_inv_def l by blast
qed

text \<open>Changes of a pool that keep its connections.\<close>

definition same_conns :: "connect_pool \<Rightarrow> connect_pool \<Rightarrow> bool" where
  "same_conns p q \<longleftrightarrow> cp_self q = cp_self p \<and> cp_delay_destroy q = cp_delay_destroy p \<and> cp_pool q = cp_pool p \<and>
     cp_count q = cp_count p \<and> cp_idle_ttl q = cp_idle_ttl p"

lemma same_conns_good: "same_conns p q \<Longrightarrow> pool_good n p used \<Longrightarrow> pool_good n q used"
  by (auto simp: pool_good_iff same_conns_def)

lemma pools_inv_same:
  assumes "pools_inv n m used" "mg_heap m i = Some p" "same_conns p q"
  shows "pools_inv n (mg_set_pool i q m) used"
proof (rule pools_inv_update [OF assms(1,2) order_refl])
  show "cp_self q = i" "\<not> cp_delay_destroy q" using pools_invD [OF assms(1,2)] assms(3) by (simp_all add: same_conns_def)
  show "pool_good n q (held i used)" by (rule same_conns_good [OF assms(3) pools_invD(4) [OF assms(1,2)]])
  show "\<forall>c \<in> set used. \<exists>j. cc_pool c = Some j \<and> mg_heap m j \<noteq> None" using assms(1) by (simp add: pools_inv_def)
qed simp

lemma aliving_same: "same_conns p (snd (aliving now p))"
  by (auto simp: aliving_def same_conns_def)

lemma set_alive_same: "same_conns p (set_alive now yes p)"
  by (auto simp: set_alive_def same_conns_def)

section \<open>The operations of the manager\<close>

lemma get_pools_inv:
  assumes "pools_inv n m used" "get_pools_by_id tid m = (k, m')"
  shows "pools_inv n m' used \<and> mg_heap m' = mg_heap m \<and> mg_addrs m' = mg_addrs m \<and> (\<forall>i \<in> set (kp_pools k). mg_heap m i \<noteq> None)"
proof (cases "map_of (mg_manager m) tid")
  case None
  then have m: "k = \<lparr>kp_check_next = 0, kp_conns_next = 0, kp_pools = []\<rparr>" "m' = m\<lparr>mg_manager := mg_manager m @ [(tid, k)]\<rparr>"
    using assms(2) by (auto simp: get_pools_by_id_def Let_def)
  then have "listed m' = listed m" by (simp add: listed_def)
  then show ?thesis using assms(1) m by (simp add: pools_inv_def)
next
  case (Some k')
  then have m: "k' = k" "m' = m" using assms(2) by (simp_all add: get_pools_by_id_def)
  have "set (kp_pools k) \<subseteq> listed m" using map_of_SomeD [OF Some] m(1) by (force simp: listed_def)
  then show ?thesis using assms(1) m by (auto simp: pools_inv_def)
qed

lemma set_pools_inv:
  assumes "pools_inv n m used" "\<forall>i \<in> set (kp_pools k). mg_heap m i \<noteq> None"
  shows "pools_inv n (mg_set_pools tid k m) used"
proof -
  have "listed (mg_set_pools tid k m) \<subseteq> listed m \<union> set (kp_pools k)"
    by (auto simp: listed_def mg_set_pools_def split: if_splits)
  moreover have "mg_heap (mg_set_pools tid k m) = mg_heap m" "mg_next (mg_set_pools tid k m) = mg_next m"
    "mg_idle_ttl (mg_set_pools tid k m) = mg_idle_ttl m" by (simp_all add: mg_set_pools_def)
  ultimately show ?thesis using assms by (auto simp: pools_inv_def)
qed

lemma new_pool_fields:
  "cp_self (new_pool i cf idx m) = i" "\<not> cp_delay_destroy (new_pool i cf idx m)" "cp_pool (new_pool i cf idx m) = []"
  "cp_count (new_pool i cf idx m) = 0" "mg_idle_ttl m \<noteq> 0 \<Longrightarrow> cp_idle_ttl (new_pool i cf idx m) \<noteq> 0"
  by (simp_all add: new_pool_def Let_def cp_new_def set_key_def set_timeout_def set_retry_inter_def set_idle_ttl_def set_check_inter_def)

lemma create_pool_inv:
  assumes "pools_inv n m used" "create_pool cf idx m = (i, m')"
  shows "pools_inv n m' used \<and> mg_heap m' i \<noteq> None \<and> (\<forall>j. mg_heap m j \<noteq> None \<longrightarrow> mg_heap m' j \<noteq> None) \<and> mg_addrs m' = mg_addrs m"
proof -
  have i: "i = mg_next m" "m' = mg_set_pool i (new_pool i cf idx m) (m\<lparr>mg_next := Suc i\<rparr>)"
    using assms(2) by (auto simp: create_pool_def)
  have "mg_heap m i = None" using assms(1) i(1) by (cases "mg_heap m i") (auto simp: pools_inv_def)
  then have h: "held i used = []" using assms(1) by (auto simp: pools_inv_def held_def filter_empty_conv)
  have "pool_good n (new_pool i cf idx m) (held i used)"
    using new_pool_fields [where i = i and cf = cf and idx = idx and m = m] assms(1) by (auto simp: pool_good_iff h pools_inv_def)
  then have new: "cp_self (new_pool i cf idx m) = i" "\<not> cp_delay_destroy (new_pool i cf idx m)"
    "pool_good n (new_pool i cf idx m) (held i used)" using new_pool_fields by simp_all
  have h: "mg_heap m' = (mg_heap m)(i \<mapsto> new_pool i cf idx m)" "mg_next m' = Suc (mg_next m)" "listed m' = listed m"
    "mg_idle_ttl m' = mg_idle_ttl m" "mg_addrs m' = mg_addrs m"
    using i by (simp_all add: mg_set_pool_def listed_def)
  have main: "j < mg_next m' \<and> cp_self q = j \<and> \<not> cp_delay_destroy q \<and> pool_good n q (held j used)" if q: "mg_heap m' j = Some q" for j q
  proof (cases "j = i")
    case True
    then show ?thesis using q h(1,2) new i(1) by simp
  next
    case False
    then have "mg_heap m j = Some q" using q h(1) by simp
    from pools_invD [OF assms(1) this] h(2) show ?thesis by simp
  qed
  have old: "mg_heap m' j \<noteq> None" if "mg_heap m j \<noteq> None" for j using h(1) that by simp
  have "\<forall>c \<in> set used. \<exists>j. cc_pool c = Some j \<and> mg_heap m' j \<noteq> None" "\<forall>x \<in> listed m. mg_heap m' x \<noteq> None"
    using assms(1) old unfolding pools_inv_def by meson+
  moreover have "mg_idle_ttl m \<noteq> 0" using assms(1) by (simp add: pools_inv_def)
  ultimately have "pools_inv n m' used" using main unfolding pools_inv_def h(3,4) by blast
  then show ?thesis using old h(1,5) by simp
qed

lemma find_key_inv:
  assumes "\<forall>i \<in> set is. mg_heap m i \<noteq> None"
  obtains r where "find_key key is m = Some r" "\<And>i. r = Some i \<Longrightarrow> i \<in> set is"
  using assms
proof (induction "is" arbitrary: thesis)
  case (Cons i "is")
  obtain p where p: "mg_heap m i = Some p" using Cons.prems(2) by auto
  show ?case
  proof (cases "cp_key p = key")
    case True
    then show ?thesis using Cons.prems(1) [of "Some i"] p by simp
  next
    case False
    obtain r where "find_key key is m = Some r" "\<And>i. r = Some i \<Longrightarrow> i \<in> set is"
      using Cons.IH Cons.prems(2) by auto
    then show ?thesis using Cons.prems(1) [of r] p False by auto
  qed
qed simp

lemma mg_get_inv:
  assumes "pools_inv n m used"
  obtains r m' where "mg_get tid now addr restore m = Some (r, m')" "pools_inv n m' used"
    "\<And>i. r = Some i \<Longrightarrow> mg_heap m' i \<noteq> None"
proof -
  obtain k m1 where k: "get_pools_by_id tid m = (k, m1)" by force
  note g = get_pools_inv [OF assms k]
  obtain r where r: "find_key (map to_lower addr) (kp_pools k) m1 = Some r" "\<And>i. r = Some i \<Longrightarrow> i \<in> set (kp_pools k)"
    using find_key_inv [of "kp_pools k" m1] g by metis
  show ?thesis
  proof (cases r)
    case None
    show ?thesis
    proof (cases "map_of (mg_addrs m1) (map to_lower addr)")
      case None
      with \<open>r = None\<close> show ?thesis using that [of None m1] k r g by (simp add: mg_get_def)
    next
      case (Some cf)
      obtain i m2 where c: "create_pool cf (length (kp_pools k)) m1 = (i, m2)" by force
      have ci: "pools_inv n m2 used \<and> mg_heap m2 i \<noteq> None \<and> (\<forall>j. mg_heap m1 j \<noteq> None \<longrightarrow> mg_heap m2 j \<noteq> None)"
        using create_pool_inv [OF _ c] g by blast
      have "pools_inv n (mg_set_pools tid (k\<lparr>kp_pools := kp_pools k @ [i]\<rparr>) m2) used"
        using ci g by (intro set_pools_inv) auto
      with \<open>r = None\<close> Some c ci show ?thesis
        using that [of "Some i" "mg_set_pools tid (k\<lparr>kp_pools := kp_pools k @ [i]\<rparr>) m2"] k r
        by (simp add: mg_get_def mg_set_pools_def)
    qed
  next
    case (Some i)
    then obtain p where p: "mg_heap m1 i = Some p" using r(2) g by auto
    obtain ok p' where a: "aliving now p = (ok, p')" by force
    define q where "q = (if \<not> ok then set_alive now True p' else p')"
    have s: "same_conns p q" using aliving_same [of p now] set_alive_same [of p' now True] a by (auto simp: q_def same_conns_def)
    have "pools_inv n (mg_set_pool i q m1) used" using g by (intro pools_inv_same [OF _ p s]) auto
    then show ?thesis
      using that [of "Some i" "if restore then mg_set_pool i q m1 else m1"] Some k r p a g
      by (simp add: mg_get_def q_def mg_set_pool_def)
  qed
qed

lemma create_pools_for_inv:
  assumes "pools_inv n m used" "\<forall>i \<in> set is. mg_heap m i \<noteq> None" "create_pools_for cfs is m = (is', m')"
  shows "pools_inv n m' used \<and> (\<forall>i \<in> set is'. mg_heap m' i \<noteq> None) \<and> mg_addrs m' = mg_addrs m \<and> length is' = length is + length cfs"
  using assms
proof (induction cfs arbitrary: "is" m)
  case (Cons cf cfs)
  obtain i m1 where c: "create_pool cf (length is) m = (i, m1)" by force
  have "\<forall>j \<in> set (is @ [i]). mg_heap m1 j \<noteq> None" using create_pool_inv [OF Cons.prems(1) c] Cons.prems(2) by auto
  from Cons.IH [OF _ this] show ?case
    using create_pool_inv [OF Cons.prems(1) c] Cons.prems(3) c by auto
qed auto

lemma mg_pools_inv:
  assumes "pools_inv n m used" "mg_addrs m \<noteq> []" "mg_pools tid m = (k, m')"
  shows "pools_inv n m' used \<and> (\<forall>i \<in> set (kp_pools k). mg_heap m' i \<noteq> None) \<and> kp_pools k \<noteq> []"
proof -
  obtain k1 m1 where k: "get_pools_by_id tid m = (k1, m1)" by force
  note g = get_pools_inv [OF assms(1) k]
  show ?thesis
  proof (cases "kp_pools k1 = []")
    case True
    obtain "is" m2 where c: "create_pools_for (map snd (mg_addrs m1)) [] m1 = (is, m2)" by force
    have ci: "pools_inv n m2 used" "\<forall>i \<in> set is. mg_heap m2 i \<noteq> None" "is \<noteq> []"
      using create_pools_for_inv [OF _ _ c, of n used] g assms(2) by auto
    then have "pools_inv n (mg_set_pools tid (k1\<lparr>kp_pools := is\<rparr>) m2) used" by (intro set_pools_inv) auto
    moreover have "k = k1\<lparr>kp_pools := is\<rparr> \<and> m' = mg_set_pools tid (k1\<lparr>kp_pools := is\<rparr>) m2"
      using assms(3) k True c by (auto simp: mg_pools_def Let_def)
    ultimately show ?thesis using ci by (simp add: mg_set_pools_def)
  next
    case False
    then show ?thesis using assms(3) k g by (auto simp: mg_pools_def)
  qed
qed

lemma peek_loop_inv:
  assumes "pools_inv n m used" "\<forall>i \<in> set is. mg_heap m i \<noteq> None" "is \<noteq> []"
  shows "\<exists>r next' m'. peek_loop now t next is m = Some (r, next', m') \<and> pools_inv n m' used \<and>
    (\<forall>i. mg_heap m' i = None \<longleftrightarrow> mg_heap m i = None) \<and> (\<forall>i. r = Some i \<longrightarrow> i \<in> set is)"
  using assms
proof (induction t arbitrary: "next" m)
  case (Suc t)
  define i where "i = is ! (unat next mod length is)"
  have i: "i \<in> set is" using Suc.prems(3) by (simp add: i_def)
  then obtain p where p: "mg_heap m i = Some p" using Suc.prems(2) by auto
  obtain ok p' where a: "aliving (now t) p = (ok, p')" by force
  have s: "same_conns p p'" using aliving_same [of p "now t"] a by simp
  have inv: "pools_inv n (mg_set_pool i p' m) used" by (rule pools_inv_same [OF Suc.prems(1) p s])
  have h: "mg_heap (mg_set_pool i p' m) j = None \<longleftrightarrow> mg_heap m j = None" for j using p by (auto simp: mg_set_pool_def)
  show ?case
  proof (cases ok)
    case True
    then show ?thesis using inv h i p a by (simp add: i_def [symmetric] Let_def)
  next
    case False
    have "\<forall>j \<in> set is. mg_heap (mg_set_pool i p' m) j \<noteq> None" using Suc.prems(2) h by blast
    from Suc.IH [OF inv this Suc.prems(3), of "next + 1"] False show ?thesis
      using p a h by (auto simp: i_def [symmetric] Let_def)
  qed
qed auto

lemma mg_peek_inv:
  assumes "pools_inv n m used"
  obtains r m' where "mg_peek tid now m = Some (r, m')" "pools_inv n m' used" "\<And>i. r = Some i \<Longrightarrow> mg_heap m' i \<noteq> None"
proof (cases "mg_addrs m = []")
  case True
  then show ?thesis using that [of None m] assms by (simp add: mg_peek_def)
next
  case False
  obtain k m1 where k: "mg_pools tid m = (k, m1)" by force
  have g: "pools_inv n m1 used" "\<forall>i \<in> set (kp_pools k). mg_heap m1 i \<noteq> None" "kp_pools k \<noteq> []"
    using mg_pools_inv [OF assms False k] by auto
  obtain r nx m2 where l: "peek_loop now (length (kp_pools k)) (kp_conns_next k) (kp_pools k) m1 = Some (r, nx, m2)"
    "pools_inv n m2 used" "\<forall>i. mg_heap m2 i = None \<longleftrightarrow> mg_heap m1 i = None" "\<forall>i. r = Some i \<longrightarrow> i \<in> set (kp_pools k)"
    using peek_loop_inv [OF g] by metis
  have "pools_inv n (mg_set_pools tid (k\<lparr>kp_conns_next := nx\<rparr>) m2) used" using l(2,3) g(2) by (intro set_pools_inv) auto
  then show ?thesis
    using that [of r "mg_set_pools tid (k\<lparr>kp_conns_next := nx\<rparr>) m2"] l g False k by (auto simp: mg_peek_def mg_set_pools_def)
qed

lemma mg_set_inv: "pools_inv n m used \<Longrightarrow> pools_inv n (mg_set addr count ct rt m) used"
  by (auto simp: mg_set_def pools_inv_def listed_def Let_def split: option.splits)

end
