(* ===== verification/RedisClusterRun.thy ===== *)
theory RedisClusterRun
  imports RedisCluster PoolsInv
begin

text \<open>
  A request of the cluster client keeps the account of the connections: what it takes from the pools
  it gives back.
\<close>

definition add_conn :: "connect_client option \<Rightarrow> connect_client list \<Rightarrow> connect_client list" where
  "add_conn r used = (case r of None \<Rightarrow> used | Some c \<Rightarrow> c # used)"

lemma add_conn_simps [simp]: "add_conn None used = used" "add_conn (Some c) used = c # used"
  by (simp_all add: add_conn_def)

lemma pools_inv_Suc: "pools_inv n m used \<Longrightarrow> pools_inv (Suc n) m used"
  using pool_good_mono [of n _ _ "Suc n"] by (auto simp: pools_inv_def)

lemma pools_inv_mono: "pools_inv n m used \<Longrightarrow> n \<le> n' \<Longrightarrow> pools_inv n' m used"
  by (induction n' rule: full_nat_induct) (metis le_Suc_eq pools_inv_Suc not0_implies_Suc le_0_eq order_refl)

section \<open>The pools\<close>

lemma pool_peek_inv:
  assumes inv: "pools_inv n (cl_mgr s) used" and i: "mg_heap (cl_mgr s) i \<noteq> None" and n: "n < 2 ^ 62"
  shows "\<exists>r s'. pool_peek net i s = Some (r, s') \<and> pools_inv (Suc n) (cl_mgr s') (add_conn r used) \<and>
    (r = None \<longrightarrow> pools_inv n (cl_mgr s') used) \<and> cl_redirect_max s' = cl_redirect_max s"
proof -
  obtain p where p: "mg_heap (cl_mgr s) i = Some p" using i by auto
  note d = pools_invD [OF inv p]
  have good: "unat (cp_count p) = length (cp_pool p) + length (held i used)" "length (cp_pool p) + length (held i used) \<le> n"
    "cp_idle_ttl p \<noteq> 0" "\<forall>c \<in> set (cp_pool p) \<union> set (held i used). cc_pool c = Some i"
    using d(2,4) by (auto simp: pool_good_iff)
  obtain now w where w: "nt_now net (cl_world s) = (now, w)" by force
  obtain r q where b: "peek_begin now True p = (r, q)" by force
  note c = peek_begin_cases [OF b]
  have null: "pools_inv n (mg_set_pool i q' (cl_mgr s)) used" if "same_conns p q'" for q'
    by (rule pools_inv_same [OF inv p that])
  have more: "pools_inv (Suc n) (mg_set_pool i q (cl_mgr s)) (x # used)"
    if "cc_pool x = Some i" "unat (cp_count q) = length (cp_pool q) + Suc (length (held i used))"
      "set (cp_pool q) \<subseteq> set (cp_pool p)" "length (cp_pool q) \<le> length (cp_pool p)" for x
  proof (rule pools_inv_update [OF inv p])
    show "n \<le> Suc n" by simp
    show "cp_self q = i" "\<not> cp_delay_destroy q" using c d by (auto simp: same_pool_def)
    have h: "held i (x # used) = x # held i used" using that(1) by (simp add: held_def)
    show "pool_good (Suc n) q (held i (x # used))"
      using that good c d(2) unfolding h by (auto simp: pool_good_iff same_pool_def)
    show "held j (x # used) = held j used" if "j \<noteq> i" for j using that \<open>cc_pool x = Some i\<close> by (simp add: held_def)
    show "\<forall>c \<in> set (x # used). \<exists>j. cc_pool c = Some j \<and> mg_heap (cl_mgr s) j \<noteq> None"
      using inv i that(1) by (simp add: pools_inv_def)
  qed
  show ?thesis
  proof (cases r)
    case Peek_null
    then have "same_conns p q" using c by (auto simp: same_conns_def same_pool_def)
    then show ?thesis using Peek_null p w b null [of q] pools_inv_Suc by (auto simp: pool_peek_def cl_pool_def)
  next
    case (Peek_conn x)
    then have x: "cp_pool p = x # cp_pool q" "cp_count q = cp_count p" using c by auto
    then have "pools_inv (Suc n) (mg_set_pool i q (cl_mgr s)) (x # used)" using good by (intro more) auto
    then show ?thesis using Peek_conn p w b by (simp add: pool_peek_def cl_pool_def)
  next
    case Peek_open
    then have x: "cp_pool p = []" "cp_pool q = []" "cp_count q = cp_count p + 1" using c by auto
    have "unat (cp_count p) < 2 ^ 63" using good(1,2) n by simp
    then have u: "unat (cp_count q) = Suc (unat (cp_count p))" unfolding x(3) by (rule count_inc)
    show ?thesis
    proof (cases "nt_connect net (cp_addr q) w")
      case (Pair k w')
      show ?thesis
      proof (cases k)
        case None
        have "same_conns p (peek_failed q)" using c x by (auto simp: same_conns_def same_pool_def peek_failed_def)
        then show ?thesis using Peek_open p w b Pair None null [of "peek_failed q"] pools_inv_Suc
          by (auto simp: pool_peek_def cl_pool_def)
      next
        case (Some m)
        define y where "y = peek_opened \<lparr>cc_id = m, cc_when = 0, cc_pool = None\<rparr> q"
        have "cc_pool y = Some i" using c d(2) by (simp add: y_def peek_opened_def same_pool_def)
        then have "pools_inv (Suc n) (mg_set_pool i q (cl_mgr s)) (y # used)" using good u x by (intro more) auto
        then show ?thesis using Peek_open p w b Pair Some by (simp add: pool_peek_def cl_pool_def y_def)
      qed
    qed
  qed
qed

lemma conn_put_inv:
  assumes inv: "pools_inv n (cl_mgr s) (c # used)"
  shows "\<exists>s' i. conn_put net c keep s = Some s' \<and> pools_inv n (cl_mgr s') used \<and> cl_redirect_max s' = cl_redirect_max s \<and>
    cc_pool c = Some i \<and> mg_heap (cl_mgr s') i \<noteq> None"
proof -
  obtain i where i: "cc_pool c = Some i" "mg_heap (cl_mgr s) i \<noteq> None" using inv by (auto simp: pools_inv_def)
  then obtain p where p: "mg_heap (cl_mgr s) i = Some p" by auto
  note d = pools_invD [OF inv p]
  define st where "st = \<lparr>ps_pool = p, ps_used = held i (c # used), ps_opening = 0, ps_bound = n\<rparr>"
  have h: "held i (c # used) = c # held i used" using i(1) by (simp add: held_def)
  have pi: "pool_inv st" "length (cp_pool p) + Suc (length (held i used)) \<le> n" using d(4) by (simp_all add: pool_good_def st_def h)
  have mem: "c \<in> set (ps_used st)" by (simp add: st_def h)
  obtain now w1 where 1: "nt_now net (cl_world s) = (now, w1)" by force
  obtain now2 w2 where 2: "nt_now net w1 = (now2, w2)" by force
  obtain now3 w3 where 3: "nt_now net w2 = (now3, w3)" by force
  have "pool_put now now2 now3 c keep p \<noteq> Put_abort" "pool_put now now2 now3 c keep p \<noteq> Put_destroyed"
    using put_no_abort [OF pi(1) mem] put_destroyed_iff [OF pi(1) mem] d(3) by (simp_all add: st_def)
  then obtain q where q: "pool_put now now2 now3 c keep p = Put_ok q" by (cases "pool_put now now2 now3 c keep p") auto
  have "pool_inv (st\<lparr>ps_pool := q, ps_used := remove1 c (ps_used st)\<rparr>)"
    using put_keeps [OF pi(1) mem] q by (simp add: st_def)
  then have "pool_inv \<lparr>ps_pool = q, ps_used = held i used, ps_opening = 0, ps_bound = n\<rparr>" by (simp add: st_def h)
  then have g: "pool_good n q (held i used)" using put_fields [OF q] pi(2) by (simp add: pool_good_def)
  have "pools_inv n (mg_set_pool i q (cl_mgr s)) used"
  proof (rule pools_inv_update [OF inv p order_refl _ _ g])
    show "cp_self q = i" "\<not> cp_delay_destroy q" using put_fields [OF q] d by simp_all
    show "held j used = held j (c # used)" if "j \<noteq> i" for j using that i(1) by (simp add: held_def)
    show "\<forall>c \<in> set used. \<exists>j. cc_pool c = Some j \<and> mg_heap (cl_mgr s) j \<noteq> None" using inv by (simp add: pools_inv_def)
  qed
  then show ?thesis using i(1) p 1 2 3 q by (simp add: conn_put_def cl_pool_def mg_set_pool_def)
qed

lemma cl_get_inv:
  assumes "pools_inv n (cl_mgr s) used"
  shows "\<exists>r s'. cl_get addr s = Some (r, s') \<and> pools_inv n (cl_mgr s') used \<and> (\<forall>i. r = Some i \<longrightarrow> mg_heap (cl_mgr s') i \<noteq> None) \<and>
    cl_redirect_max s' = cl_redirect_max s"
proof -
  obtain r m' where "mg_get 0 0 addr False (cl_mgr s) = Some (r, m')" "pools_inv n m' used" "\<And>i. r = Some i \<Longrightarrow> mg_heap m' i \<noteq> None"
    using mg_get_inv [OF assms] by blast
  then show ?thesis by (simp add: cl_get_def)
qed

lemma cl_peek_inv:
  assumes "pools_inv n (cl_mgr s) used"
  shows "\<exists>r s'. cl_peek net s = Some (r, s') \<and> pools_inv n (cl_mgr s') used \<and> (\<forall>i. r = Some i \<longrightarrow> mg_heap (cl_mgr s') i \<noteq> None) \<and>
    cl_redirect_max s' = cl_redirect_max s"
proof -
  obtain now w where w: "nt_now net (cl_world s) = (now, w)" by force
  obtain r m' where "mg_peek 0 (\<lambda>_. now) (cl_mgr s) = Some (r, m')" "pools_inv n m' used" "\<And>i. r = Some i \<Longrightarrow> mg_heap m' i \<noteq> None"
    using mg_peek_inv [OF assms] by blast
  then show ?thesis by (simp add: cl_peek_def w)
qed

lemma peek_slot_inv:
  assumes "pools_inv n (cl_mgr s) used"
  shows "\<exists>r s'. peek_slot slot s = Some (r, s') \<and> pools_inv n (cl_mgr s') used \<and> (\<forall>i. r = Some i \<longrightarrow> mg_heap (cl_mgr s') i \<noteq> None) \<and>
    cl_redirect_max s' = cl_redirect_max s"
  using assms cl_get_inv [OF assms] by (auto simp: peek_slot_def split: option.splits)

lemma slot_frame [simp]:
  "cl_mgr (clear_slot slot s) = cl_mgr s" "cl_redirect_max (clear_slot slot s) = cl_redirect_max s"
  "cl_mgr (set_slot slot addr s) = cl_mgr s" "cl_redirect_max (set_slot slot addr s) = cl_redirect_max s"
  by (simp_all add: clear_slot_def set_slot_def)

section \<open>Taking a connection\<close>

definition took :: "nat \<Rightarrow> connect_client list \<Rightarrow> 'n redis_cluster \<Rightarrow> (connect_client option \<times> 'n redis_cluster) option \<Rightarrow> bool" where
  "took n used s x \<longleftrightarrow> (\<exists>r s'. x = Some (r, s') \<and> pools_inv (Suc n) (cl_mgr s') (add_conn r used) \<and>
    cl_redirect_max s' = cl_redirect_max s)"

lemma redirect_loop_inv:
  assumes "pools_inv n (cl_mgr s) used" "mg_heap (cl_mgr s) conns \<noteq> None" "n < 2 ^ 62"
  shows "took n used s (redirect_loop net t conns s)"
  using assms
proof (induction t arbitrary: conns s)
  case 0
  then show ?case by (auto simp: took_def intro: pools_inv_Suc)
next
  case (Suc t)
  obtain r s1 where 1: "pool_peek net conns s = Some (r, s1)" "pools_inv (Suc n) (cl_mgr s1) (add_conn r used)"
    "r = None \<longrightarrow> pools_inv n (cl_mgr s1) used" "cl_redirect_max s1 = cl_redirect_max s"
    using pool_peek_inv [OF Suc.prems] by blast
  show ?case
  proof (cases r)
    case None
    then have i1: "pools_inv n (cl_mgr s1) used" using 1(3) by simp
    obtain k s2 where 2: "cl_peek net s1 = Some (k, s2)" "pools_inv n (cl_mgr s2) used"
      "\<forall>i. k = Some i \<longrightarrow> mg_heap (cl_mgr s2) i \<noteq> None" "cl_redirect_max s2 = cl_redirect_max s1"
      using cl_peek_inv [OF i1] by blast
    show ?thesis
    proof (cases k)
      case None
      then show ?thesis using 1 2 \<open>r = None\<close> by (auto simp: took_def intro: pools_inv_Suc)
    next
      case (Some i)
      then show ?thesis using Suc.IH [OF 2(2) _ Suc.prems(3), of i] 1 2 \<open>r = None\<close> by (simp add: took_def)
    qed
  qed (use 1 in \<open>simp add: took_def\<close>)
qed

lemma redirect_inv:
  assumes "pools_inv n (cl_mgr s) used" "n < 2 ^ 62"
  shows "took n used s (redirect net addr max_conns s)"
proof -
  obtain r s1 where 1: "cl_get addr s = Some (r, s1)" "pools_inv n (cl_mgr s1) used"
    "\<forall>i. r = Some i \<longrightarrow> mg_heap (cl_mgr s1) i \<noteq> None" "cl_redirect_max s1 = cl_redirect_max s"
    using cl_get_inv [OF assms(1)] by blast
  have "\<exists>r2 s2. (case r of Some i \<Rightarrow> Some (Some i, s1)
      | None \<Rightarrow> cl_get addr (s1\<lparr>cl_mgr := mg_set addr max_conns 30 30 (cl_mgr s1)\<rparr>)) = Some (r2, s2) \<and>
    pools_inv n (cl_mgr s2) used \<and> (\<forall>i. r2 = Some i \<longrightarrow> mg_heap (cl_mgr s2) i \<noteq> None) \<and> cl_redirect_max s2 = cl_redirect_max s"
  proof (cases r)
    case None
    have "pools_inv n (cl_mgr (s1\<lparr>cl_mgr := mg_set addr max_conns 30 30 (cl_mgr s1)\<rparr>)) used" using 1(2) mg_set_inv by simp
    from cl_get_inv [OF this] None 1(4) show ?thesis by simp
  qed (use 1 in simp)
  then obtain r2 s2 where 2: "(case r of Some i \<Rightarrow> Some (Some i, s1)
      | None \<Rightarrow> cl_get addr (s1\<lparr>cl_mgr := mg_set addr max_conns 30 30 (cl_mgr s1)\<rparr>)) = Some (r2, s2)"
    "pools_inv n (cl_mgr s2) used" "\<forall>i. r2 = Some i \<longrightarrow> mg_heap (cl_mgr s2) i \<noteq> None" "cl_redirect_max s2 = cl_redirect_max s"
    by blast
  have r: "redirect net addr max_conns s = (case r2 of None \<Rightarrow> Some (None, s2) | Some conns \<Rightarrow> redirect_loop net 5 conns s2)"
    by (simp add: redirect_def 1(1) 2(1))
  show ?thesis
  proof (cases r2)
    case None
    then show ?thesis using r 2 by (auto simp: took_def intro: pools_inv_Suc)
  next
    case (Some i)
    then show ?thesis using r 2 redirect_loop_inv [OF 2(2) _ assms(2), of i net 5] by (simp add: took_def)
  qed
qed

lemma peek_conn_loop_inv:
  assumes "pools_inv n (cl_mgr s) used" "n < 2 ^ 62"
  shows "took n used s (peek_conn_loop net t slot s)"
  using assms(1)
proof (induction t arbitrary: slot s)
  case 0
  then show ?case by (auto simp: took_def intro: pools_inv_Suc)
next
  case (Suc t)
  have "\<exists>k s1. (if slot < 0 then cl_peek net s
      else do { (r, s) \<leftarrow> peek_slot slot s; case r of Some i \<Rightarrow> Some (Some i, s) | None \<Rightarrow> cl_peek net s }) = Some (k, s1) \<and>
    pools_inv n (cl_mgr s1) used \<and> (\<forall>i. k = Some i \<longrightarrow> mg_heap (cl_mgr s1) i \<noteq> None) \<and> cl_redirect_max s1 = cl_redirect_max s"
  proof (cases "slot < 0")
    case True
    then show ?thesis using cl_peek_inv [OF Suc.prems] by simp
  next
    case False
    obtain r s0 where 0: "peek_slot slot s = Some (r, s0)" "pools_inv n (cl_mgr s0) used"
      "\<forall>i. r = Some i \<longrightarrow> mg_heap (cl_mgr s0) i \<noteq> None" "cl_redirect_max s0 = cl_redirect_max s"
      using peek_slot_inv [OF Suc.prems] by blast
    then show ?thesis using False cl_peek_inv [OF 0(2), of net] by (cases r) auto
  qed
  then obtain k s1 where 1: "(if slot < 0 then cl_peek net s
      else do { (r, s) \<leftarrow> peek_slot slot s; case r of Some i \<Rightarrow> Some (Some i, s) | None \<Rightarrow> cl_peek net s }) = Some (k, s1)"
    "pools_inv n (cl_mgr s1) used" "\<forall>i. k = Some i \<longrightarrow> mg_heap (cl_mgr s1) i \<noteq> None" "cl_redirect_max s1 = cl_redirect_max s"
    by blast
  show ?case
  proof (cases k)
    case None
    then show ?thesis using Suc.IH [OF 1(2), of "-1"] 1(1,4) by (simp add: took_def)
  next
    case (Some conns)
    then have "mg_heap (cl_mgr s1) conns \<noteq> None" using 1(3) by simp
    then obtain r s2 where 2: "pool_peek net conns s1 = Some (r, s2)" "pools_inv (Suc n) (cl_mgr s2) (add_conn r used)"
      "r = None \<longrightarrow> pools_inv n (cl_mgr s2) used" "cl_redirect_max s2 = cl_redirect_max s1"
      using pool_peek_inv [OF 1(2) _ assms(2)] by blast
    show ?thesis
    proof (cases r)
      case None
      then have "pools_inv n (cl_mgr (clear_slot slot s2)) used" using 2(3) by simp
      from Suc.IH [OF this, of slot] show ?thesis using None Some 1(1,4) 2 by (simp add: took_def)
    next
      case (Some c)
      then show ?thesis using \<open>k = Some conns\<close> 1(1,4) 2 by (simp add: took_def)
    qed
  qed
qed

section \<open>A request\<close>

definition went :: "nat \<Rightarrow> connect_client list \<Rightarrow> redis_command \<Rightarrow> 'n redis_cluster \<Rightarrow>
    (connect_client option \<times> redis_command \<times> 'n redis_cluster) option \<Rightarrow> bool" where
  "went n used cmd s x \<longleftrightarrow> (\<exists>r cmd' s'. x = Some (r, cmd', s') \<and> pools_inv (Suc n) (cl_mgr s') (add_conn r used) \<and>
    cl_redirect_max s' = cl_redirect_max s \<and> (r \<noteq> None \<longrightarrow> cmd' = cm_clear True cmd))"

lemma reopen_inv:
  assumes "pools_inv n (cl_mgr s) (conn # used)" "n < 2 ^ 62" "cm_buf cmd \<noteq> None"
  shows "went n used cmd s (cl_reopen net cmd conn s)"
proof -
  have "pools_inv n (cl_mgr (clear_slot (cm_slot cmd) s)) (conn # used)" using assms(1) by simp
  then obtain s1 where 1: "conn_put net conn False (clear_slot (cm_slot cmd) s) = Some s1" "pools_inv n (cl_mgr s1) used"
    "cl_redirect_max s1 = cl_redirect_max s"
    using conn_put_inv [of n "clear_slot (cm_slot cmd) s" conn used net False] by auto
  obtain b where b: "cm_buf cmd = Some b" using assms(3) by auto
  obtain r s2 where 2: "peek_conn net (cm_slot cmd) s1 = Some (r, s2)" "pools_inv (Suc n) (cl_mgr s2) (add_conn r used)"
    "cl_redirect_max s2 = cl_redirect_max s1"
    using peek_conn_loop_inv [OF 1(2) assms(2), of net 5 "cm_slot cmd"] unfolding took_def peek_conn_def by blast
  define none where "none = (if case cm_obj cmd of None \<Rightarrow> True | Some r \<Rightarrow> rq_argc r = 0 then b = [] else False)"
  have "cl_reopen net cmd conn s = (if none then Some (None, cmd, s1) else
      case r of None \<Rightarrow> Some (None, cmd, s2) | Some conn' \<Rightarrow> Some (Some conn', cm_clear True cmd, s2))"
    by (auto simp: cl_reopen_def 1(1) 2(1) b none_def split: option.splits)
  then show ?thesis using 1 2 by (cases r) (auto simp: went_def intro: pools_inv_Suc)
qed

lemma follow_inv:
  assumes "pools_inv n (cl_mgr s) (conn # used)" "n < 2 ^ 62"
  shows "took n used s (cl_follow net conn info s)"
proof -
  obtain s1 where 1: "conn_put net conn True s = Some s1" "pools_inv n (cl_mgr s1) used" "cl_redirect_max s1 = cl_redirect_max s"
    using conn_put_inv [OF assms(1)] by blast
  then show ?thesis using redirect_inv [OF 1(2) assms(2)]
    by (auto simp: cl_follow_def took_def pools_inv_Suc split: option.splits)
qed

lemma move_inv:
  assumes "pools_inv n (cl_mgr s) (conn # used)" "n < 2 ^ 62"
  shows "went n used cmd s (cl_move net cmd conn info s)"
proof -
  obtain r s1 where "cl_follow net conn info s = Some (r, s1)" "pools_inv (Suc n) (cl_mgr s1) (add_conn r used)"
    "cl_redirect_max s1 = cl_redirect_max s"
    using follow_inv [OF assms, of net info] unfolding took_def by blast
  then show ?thesis by (cases r) (simp_all add: cl_move_def went_def)
qed

lemma ask_inv:
  assumes "pools_inv n (cl_mgr s) (conn # used)" "n < 2 ^ 62"
  shows "went n used cmd s (cl_ask net cmd conn info s)"
proof -
  obtain r s1 where 1: "cl_follow net conn info s = Some (r, s1)" "pools_inv (Suc n) (cl_mgr s1) (add_conn r used)"
    "cl_redirect_max s1 = cl_redirect_max s"
    using follow_inv [OF assms, of net info] unfolding took_def by blast
  show ?thesis
  proof (cases r)
    case None
    then show ?thesis using 1 by (simp add: cl_ask_def went_def)
  next
    case (Some conn')
    obtain result w where a: "nt_run net (cc_id conn') asking 0 (cl_world s1) = (result, w)" by force
    obtain eof w2 where e: "nt_eof net (cc_id conn') w = (eof, w2)" by force
    have "pools_inv (Suc n) (cl_mgr (s1\<lparr>cl_world := w2\<rparr>)) (conn' # used)" using 1(2) Some by simp
    then obtain s2 where 2: "conn_put net conn' (\<not> eof) (s1\<lparr>cl_world := w2\<rparr>) = Some s2" "pools_inv (Suc n) (cl_mgr s2) used"
      "cl_redirect_max s2 = cl_redirect_max s"
      using conn_put_inv [of "Suc n" "s1\<lparr>cl_world := w2\<rparr>" conn' used net "\<not> eof"] 1(3) by auto
    define bad where "bad = (case result of None \<Rightarrow> True | Some r \<Rightarrow> map to_lower (cstr (rr_get_status r)) \<noteq> ok_lower)"
    have "cl_ask net cmd conn info s = (if bad then Some (None, cmd, s2) else Some (Some conn', cm_clear True cmd, s1\<lparr>cl_world := w\<rparr>))"
      by (simp add: cl_ask_def 1(1) Some a e 2(1) bad_def)
    then show ?thesis using 1 2 Some by (auto simp: went_def)
  qed
qed

lemma cluster_down_inv:
  assumes "pools_inv n (cl_mgr s) (conn # used)" "n < 2 ^ 62"
  shows "went n used cmd s (cluster_down net cmd conn s)"
proof -
  have "pools_inv n (cl_mgr (clear_slot (cm_slot cmd) s)) (conn # used)" using assms(1) by simp
  then obtain s1 i where 1: "conn_put net conn False (clear_slot (cm_slot cmd) s) = Some s1" "pools_inv n (cl_mgr s1) used"
    "cl_redirect_max s1 = cl_redirect_max s" "cc_pool conn = Some i" "mg_heap (cl_mgr s1) i \<noteq> None"
    using conn_put_inv [of n "clear_slot (cm_slot cmd) s" conn used net False] by auto
  obtain p where p: "mg_heap (cl_mgr s1) i = Some p" using 1(5) by auto
  obtain now w where w: "nt_now net (cl_world s1) = (now, w)" by force
  define s2 where "s2 = (cl_pool i (set_alive now False p) s1)\<lparr>cl_world := w\<rparr>"
  have s2: "pools_inv n (cl_mgr s2) used" "cl_redirect_max s2 = cl_redirect_max s"
    using pools_inv_same [OF 1(2) p set_alive_same] 1(3) by (simp_all add: s2_def cl_pool_def)
  obtain r s3 where 3: "peek_conn net (-1) s2 = Some (r, s3)" "pools_inv (Suc n) (cl_mgr s3) (add_conn r used)"
    "cl_redirect_max s3 = cl_redirect_max s2"
    using peek_conn_loop_inv [OF s2(1) assms(2), of net 5 "-1"] unfolding took_def peek_conn_def by blast
  have "cluster_down net cmd conn s = (case r of None \<Rightarrow> Some (None, cmd, s3) | Some conn' \<Rightarrow> Some (Some conn', cm_clear True cmd, s3))"
    by (simp add: cluster_down_def 1(1,4) p w s2_def [symmetric] 3(1))
  then show ?thesis using 3 s2 by (cases r) (simp_all add: went_def)
qed

definition turned :: "nat \<Rightarrow> connect_client list \<Rightarrow> redis_command \<Rightarrow> 'n redis_cluster \<Rightarrow> 'n cl_step option \<Rightarrow> bool" where
  "turned n used cmd s x \<longleftrightarrow> (\<exists>r s'. x = Some (r, s') \<and> cl_redirect_max s' = cl_redirect_max s \<and>
    (case r of Inl _ \<Rightarrow> pools_inv (Suc n) (cl_mgr s') used
     | Inr (c, _, cmd') \<Rightarrow> pools_inv (Suc n) (cl_mgr s') (c # used) \<and> cmd' = cm_clear True cmd))"

lemma go_on_turned:
  assumes "went n used cmd s x"
  shows "turned n used cmd s (do { y \<leftarrow> x; Some (go_on result moved y) })"
proof -
  obtain r cmd' s' where "x = Some (r, cmd', s')" "pools_inv (Suc n) (cl_mgr s') (add_conn r used)"
    "cl_redirect_max s' = cl_redirect_max s" "r \<noteq> None \<longrightarrow> cmd' = cm_clear True cmd"
    using assms unfolding went_def by blast
  then show ?thesis by (cases r) (simp_all add: turned_def go_on_def)
qed

lemma put_turned:
  assumes "pools_inv n (cl_mgr s) (conn # used)"
  shows "turned n used cmd s (do { s \<leftarrow> conn_put net conn keep s; Some (Inl result, s) })"
  using conn_put_inv [OF assms, of net keep] by (auto simp: turned_def intro: pools_inv_Suc)

lemma result_turned:
  assumes "pools_inv n (cl_mgr s) (conn # used)" "n < 2 ^ 62"
  shows "turned n used cmd s (cl_result net cmd conn moved r s)"
proof (cases "rr_type r \<noteq> RT_ERROR")
  case True
  obtain i where i: "cc_pool conn = Some i" "mg_heap (cl_mgr s) i \<noteq> None" using assms(1) by (auto simp: pools_inv_def)
  then obtain p where p: "mg_heap (cl_mgr s) i = Some p" by auto
  have "pools_inv n (cl_mgr (set_slot (cm_slot cmd) (cp_addr p) s)) (conn # used)" using assms(1) by simp
  from put_turned [OF this, of cmd net True "Some r"]
  have "turned n used cmd s (do { s \<leftarrow> conn_put net conn True (set_slot (cm_slot cmd) (cp_addr p) s); Some (Inl (Some r), s) })"
    by (simp add: turned_def)
  then show ?thesis using True i(1) p put_turned [OF assms(1), of cmd net True "Some r"] by (simp add: cl_result_def)
next
  case False
  then show ?thesis
    using put_turned [OF assms(1), of cmd net True "Some r"] go_on_turned [OF move_inv [OF assms]] go_on_turned [OF ask_inv [OF assms]]
      go_on_turned [OF cluster_down_inv [OF assms]]
    by (simp add: cl_result_def Let_def)
qed

lemma turn_turned:
  assumes "pools_inv n (cl_mgr s) (conn # used)" "n < 2 ^ 62" "\<not> cm_slice_req cmd" "cm_buf cmd \<noteq> None"
  shows "turned n used cmd s (cl_turn net nchild cmd conn moved s)"
proof -
  obtain req where req: "cm_buf cmd = Some req" using assms(4) by auto
  obtain result w where r: "nt_run net (cc_id conn) req nchild (cl_world s) = (result, w)" by force
  obtain eof w2 where e: "nt_eof net (cc_id conn) w = (eof, w2)" by force
  define s1 where "s1 = s\<lparr>cl_world := w2\<rparr>"
  have i: "pools_inv n (cl_mgr s1) (conn # used)" using assms(1) by (simp add: s1_def)
  have t: "turned n used cmd s1 x \<longleftrightarrow> turned n used cmd s x" for x by (simp add: turned_def s1_def)
  have "cl_turn net nchild cmd conn moved s =
    (if eof then do { x \<leftarrow> cl_reopen net cmd conn s1; Some (go_on result True x) }
     else case result of None \<Rightarrow> do { s \<leftarrow> conn_put net conn True s1; Some (Inl None, s) }
       | Some r \<Rightarrow> cl_result net cmd conn moved r s1)"
    using assms(3) by (simp add: cl_turn_def cl_request_def req r e s1_def Let_def cong: option.case_cong)
  then show ?thesis
    using go_on_turned [OF reopen_inv [OF i assms(2,4)]] put_turned [OF i, of cmd] result_turned [OF i assms(2), of cmd]
    unfolding t by (cases eof; cases result) simp_all
qed

lemma loop_inv:
  assumes "pools_inv n (cl_mgr s) (conn # used)" "n + t < 2 ^ 62" "\<not> cm_slice_req cmd" "cm_buf cmd \<noteq> None"
  shows "\<exists>r s'. cl_loop net t nchild cmd conn moved s = Some (r, s') \<and> pools_inv (n + t) (cl_mgr s') used"
  using assms
proof (induction t arbitrary: n cmd conn moved s)
  case 0
  then show ?case using conn_put_inv [OF 0(1), of net True] by auto
next
  case (Suc t)
  have "n < 2 ^ 62" using Suc.prems(2) by simp
  then obtain r s1 where 1: "cl_turn net nchild cmd conn moved s = Some (r, s1)"
    "case r of Inl _ \<Rightarrow> pools_inv (Suc n) (cl_mgr s1) used
     | Inr (c, _, cmd') \<Rightarrow> pools_inv (Suc n) (cl_mgr s1) (c # used) \<and> cmd' = cm_clear True cmd"
    using turn_turned [OF Suc.prems(1) _ Suc.prems(3,4), of net nchild moved] unfolding turned_def by blast
  show ?case
  proof (cases r)
    case (Inl x)
    then show ?thesis using 1 pools_inv_mono [of "Suc n" "cl_mgr s1" used "n + Suc t"] by simp
  next
    case (Inr y)
    obtain c m cmd' where y: "y = (c, m, cmd')" by (metis prod_cases3)
    have i: "pools_inv (Suc n) (cl_mgr s1) (c # used)" and c: "cmd' = cm_clear True cmd" using 1(2) Inr y by simp_all
    have "\<exists>r s'. cl_loop net t nchild cmd' c m s1 = Some (r, s') \<and> pools_inv (Suc n + t) (cl_mgr s') used"
      by (rule Suc.IH [OF i]) (use Suc.prems c in \<open>simp_all add: cm_clear_def\<close>)
    then show ?thesis using 1(1) Inr y by simp
  qed
qed

lemma cluster_run_inv:
  assumes "pools_inv n (cl_mgr s) used" "n + nat (cl_redirect_max s) < 2 ^ 61" "\<not> cm_slice_req cmd" "cm_buf cmd \<noteq> None"
  shows "\<exists>r s'. cluster_run net nchild cmd s = Some (r, s') \<and> pools_inv (Suc n + nat (cl_redirect_max s)) (cl_mgr s') used"
proof -
  have "n < 2 ^ 62" using assms(2) by simp
  then obtain r s1 where 1: "peek_conn net (cm_slot cmd) s = Some (r, s1)" "pools_inv (Suc n) (cl_mgr s1) (add_conn r used)"
    "cl_redirect_max s1 = cl_redirect_max s"
    using peek_conn_loop_inv [OF assms(1), of net 5 "cm_slot cmd"] unfolding took_def peek_conn_def by blast
  show ?thesis
  proof (cases r)
    case None
    then show ?thesis using 1 pools_inv_mono [of "Suc n" "cl_mgr s1" used] by (simp add: cluster_run_def)
  next
    case (Some conn)
    have "\<exists>r s'. cl_loop net (nat (cl_redirect_max s)) nchild cmd conn False s1 = Some (r, s') \<and>
        pools_inv (Suc n + nat (cl_redirect_max s)) (cl_mgr s') used"
      by (rule loop_inv) (use 1 Some assms in simp_all)
    then show ?thesis using 1 Some by (simp add: cluster_run_def)
  qed
qed

section \<open>Sliced requests\<close>

text \<open>Every further attempt is made with a command that has been cleared.\<close>

lemma go_on_Inr:
  "go_on result moved (r, cmd1, s1) = (Inr (c, m, cmd'), s') \<longleftrightarrow> r = Some c \<and> m = moved \<and> cmd' = cmd1 \<and> s' = s1"
  by (auto simp: go_on_def split: option.splits)

lemma turn_cleared:
  assumes "cl_turn net nchild cmd conn moved s = Some (Inr (c, m, cmd'), s')"
  shows "cmd' = cm_clear True cmd"
proof -
  have re: "cl_reopen net cmd conn s = Some (Some r, cmd', s') \<Longrightarrow> cmd' = cm_clear True cmd" for r cmd' s s'
    by (auto simp: cl_reopen_def split: bind_splits option.splits if_splits)
  have mo: "cl_move net cmd conn info s = Some (Some r, cmd', s') \<Longrightarrow> cmd' = cm_clear True cmd" for r cmd' s s' info
    by (auto simp: cl_move_def split: bind_splits option.splits)
  have as: "cl_ask net cmd conn info s = Some (Some r, cmd', s') \<Longrightarrow> cmd' = cm_clear True cmd" for r cmd' s s' info
    by (auto simp: cl_ask_def Let_def split: bind_splits option.splits prod.splits if_splits)
  have dn: "cluster_down net cmd conn s = Some (Some r, cmd', s') \<Longrightarrow> cmd' = cm_clear True cmd" for r cmd' s s'
    by (auto simp: cluster_down_def split: bind_splits option.splits prod.splits)
  have res: "cl_result net cmd conn moved r s = Some (Inr (c, m, cmd'), s') \<Longrightarrow> cmd' = cm_clear True cmd" for r s
    by (auto simp: cl_result_def Let_def go_on_Inr split: if_splits bind_splits dest: mo as dn)
  show ?thesis
    using assms
    by (auto simp: cl_turn_def Let_def go_on_Inr split: bind_splits prod.splits if_splits option.splits dest: re res)
qed

end
