(* ===== verification/ClusterProperties.thy ===== *)
theory ClusterProperties
  imports RedisClusterRun
begin

text \<open>The properties of the client of a redis cluster.\<close>

text \<open>C23: Whatever the servers answer - results, errors, MOVED, ASK and CLUSTERDOWN messages, ends of
  connections - a request of a cluster client that is sent as one string (not sliced: slice_redirect_released) returns,
  uses no pool after its end, fails no assertion of a pool, and gives back every connection it took: afterwards the
  counts of all pools agree with what is idle and with what others hold, as before. It is assumed, and shown to
  hold again afterwards, that the counts agree before the request, that no pool is waiting for its destruction and
  that no time to live of idle connections is zero (pools_inv), and that there are fewer than 2 ^ 61 connections.\<close>
theorem cluster_run_accounts:
  assumes "pools_inv n (cl_mgr s) used" "n + nat (cl_redirect_max s) < 2 ^ 61" "\<not> cm_slice_req cmd" "cm_buf cmd \<noteq> None"
  shows "\<exists>r s'. cluster_run net nchild cmd s = Some (r, s') \<and>
    (\<forall>i p. mg_heap (cl_mgr s') i = Some p \<longrightarrow>
       unat (cp_count p) = length (cp_pool p) + length (filter (\<lambda>c. cc_pool c = Some i) used)) \<and>
    pools_inv (Suc n + nat (cl_redirect_max s)) (cl_mgr s') used"
proof -
  obtain r s' where r: "cluster_run net nchild cmd s = Some (r, s')"
    and i: "pools_inv (Suc n + nat (cl_redirect_max s)) (cl_mgr s') used"
    using cluster_run_inv [OF assms] by blast
  have "\<forall>i p. mg_heap (cl_mgr s') i = Some p \<longrightarrow>
      unat (cp_count p) = length (cp_pool p) + length (filter (\<lambda>c. cc_pool c = Some i) used)"
  proof (intro allI impI)
    fix j p
    assume "mg_heap (cl_mgr s') j = Some p"
    from pools_invD(4) [OF i this]
    show "unat (cp_count p) = length (cp_pool p) + length (filter (\<lambda>c. cc_pool c = Some j) used)"
      unfolding pool_good_iff held_def by (rule conjunct1)
  qed
  with r i show ?thesis by (intro exI [of _ r] exI [of _ s'] conjI)
qed

text \<open>
  Two servers: the first answers that the slot has moved to the second, which gives a number. The
  state of the network is the number of connections made.
\<close>

definition addr1 :: "byte list" where "addr1 = [49, 58, 49]"
definition addr2 :: "byte list" where "addr2 = [50, 58, 50]"

definition moved_text :: "byte list" where "moved_text = MOVED @ [32, 53, 32] @ addr2"

definition two_servers :: "nat redis_net" where
  "two_servers = \<lparr>nt_now = \<lambda>w. (100, w), nt_connect = \<lambda>addr w. (Some w, Suc w),
     nt_run = \<lambda>i req nchild w. (Some (if i = 0 then Redis_result RT_ERROR 1 [moved_text] [] else Redis_result RT_INTEGER 1 [[55]] []), w),
     nt_eof = \<lambda>i w. (False, w)\<rparr>"

definition cluster0 :: "nat redis_cluster" where
  "cluster0 = (cl_new 16 0)\<lparr>cl_mgr := mg_set addr1 5 30 30 mg_new\<rparr>"

lemma cluster0_inv: "pools_inv 0 (cl_mgr cluster0) []"
  by (simp add: cluster0_def cl_new_def mg_set_def mg_new_def pools_inv_def listed_def Let_def)

theorem cluster_run_accounts_witness:
  "\<exists>r s'. cluster_run two_servers 0 (cm_new\<lparr>cm_slot := 5, cm_buf := Some [42]\<rparr>) cluster0 = Some (r, s') \<and>
    (\<forall>i p. mg_heap (cl_mgr s') i = Some p \<longrightarrow> unat (cp_count p) = length (cp_pool p))"
  using cluster_run_accounts [OF cluster0_inv, of "cm_new\<lparr>cm_slot := 5, cm_buf := Some [42]\<rparr>" two_servers 0]
  by (fastforce simp: cluster0_def cl_new_def cm_new_def)

text \<open>A request in slices that is not done after the first turn - the server answered with a redirection
  or closed the connection - is sent again from memory that has been released: the numbers in it lie
  in the pool of the command, which is cleared before.\<close>
lemma slice_redirect_released:
  assumes "length args < 2 ^ 31" "\<forall>a \<in> set args. length a < 2 ^ 31" "cm_slice_req c0" "\<not> cm_pipeline c0"
    and "build_request (map Some args) c0 = Some cmd"
    and "cl_turn net nchild cmd conn moved s = Some (Inr (conn', moved', cmd'), s')"
  shows "cl_turn net nchild cmd' conn' moved' s' = None"
proof -
  obtain r qs where r: "build_request2 (map Some args) c0 = Some (c0\<lparr>cm_obj := Some r\<rparr>)"
    "rq_pieces r = map Some (In_dbuf (42 # decimal (length args) @ crlf) # qs)"
    using build_request2_pieces [OF assms(1,2)] by blast
  then have "cmd = c0\<lparr>cm_obj := Some r\<rparr>" using assms(3-5) by (simp add: build_request_def)
  then have c: "cm_slice_req cmd'" "cm_obj cmd' = Some (rq_released r)"
    using turn_cleared [OF assms(6)] assms(3) by (simp_all add: cm_clear_def)
  have "rq_pieces (rq_released r) = map (\<lambda>x. case x of Some (Of_caller a) \<Rightarrow> x | _ \<Rightarrow> None) (rq_pieces r)"
    by (simp add: rq_pieces_def rq_released_def take_map)
  then have "None \<in> set (rq_pieces (rq_released r))" using r(2) by simp
  then show ?thesis using c by (simp add: cl_turn_def cl_request_def)
qed

definition slice_cmd :: redis_command where
  "slice_cmd = the (build_request (map Some [[71], [107]]) (set_slice_request True (cm_new\<lparr>cm_slot := 5\<rparr>)))"

definition conn1 :: connect_client where
  "conn1 = the (fst (the (peek_conn two_servers 5 cluster0)))"

definition cluster1 :: "nat redis_cluster" where
  "cluster1 = snd (the (peek_conn two_servers 5 cluster0))"

end
