(* ===== verification/CharsetConv.thy ===== *)
theory CharsetConv
  imports AclPrelude "HOL-Library.Monad_Syntax"
begin

text \<open>
  The character set converter (\<^verbatim>\<open>stdlib/charset_conv.cpp\<close>) as it is built on Unix, around
  \<^verbatim>\<open>iconv\<close>, which is a parameter: a record of the three calls the code makes, over the states
  \<open>'h\<close> of a conversion descriptor.

  Strings are lists of bytes. A conversion that does not end is \<^const>\<open>None\<close>, as is a read of the
  pointer \<^verbatim>\<open>m_pUtf8Pre\<close> before it is set.
\<close>

section \<open>The parameter\<close>

text \<open>
  \<open>ic_open to from\<close> is \<^verbatim>\<open>iconv_open\<close>; \<open>ic_reset\<close> is the call with null pointers;
  \<open>ic_run h inp room\<close> is the call on an input and \<open>room\<close> bytes of output: the bytes of the
  input it has passed, the bytes it has written, and its return value with \<^verbatim>\<open>errno\<close>.
\<close>

datatype iconv_result = Iconv_ok | Iconv_e2big | Iconv_eilseq | Iconv_einval | Iconv_error

record 'h iconv =
  ic_open :: "byte list \<Rightarrow> byte list \<Rightarrow> 'h option"
  ic_reset :: "'h \<Rightarrow> 'h"
  ic_run :: "'h \<Rightarrow> byte list \<Rightarrow> nat \<Rightarrow> 'h \<times> nat \<times> byte list \<times> iconv_result"

section \<open>The converter\<close>

datatype conv_error =
  Conv_fine | Params_invalid | Input_invalid | Open_failed "byte list" "byte list" | Iconv_invalid

record 'h charset_conv =
  cc_add_invalid :: bool
  cc_errmsg :: conv_error
  cc_buf :: "byte list option"
  cc_from :: "byte list"
  cc_to :: "byte list"
  cc_iconv :: "'h option"
  cc_in_buf :: "byte list"
  cc_out_size :: "nat option"
  cc_utf8_pre :: "nat option"

definition UTF8_HEADER :: "byte list" where "UTF8_HEADER = [0xEF, 0xBB, 0xBF, 0]"

definition charset_conv_new :: "'h charset_conv" where
  "charset_conv_new = \<lparr>cc_add_invalid = True, cc_errmsg = Conv_fine, cc_buf = None, cc_from = [], cc_to = [],
     cc_iconv = None, cc_in_buf = [], cc_out_size = None, cc_utf8_pre = None\<rparr>"

definition set_add_invalid :: "bool \<Rightarrow> 'h charset_conv \<Rightarrow> 'h charset_conv" where
  "set_add_invalid onoff cv = cv\<lparr>cc_add_invalid := onoff\<rparr>"

definition conv_reset :: "'h charset_conv \<Rightarrow> 'h charset_conv" where
  "conv_reset cv = cv\<lparr>cc_errmsg := Conv_fine, cc_iconv := None, cc_from := [], cc_to := []\<rparr>"

text \<open>\<^verbatim>\<open>strcasecmp\<close> of two pointers that may be NULL, and the copy into 32 bytes.\<close>

fun EQ2 :: "byte list option \<Rightarrow> byte list option \<Rightarrow> bool" where
  "EQ2 None None = True"
| "EQ2 (Some x) (Some y) = strcaseeq x y"
| "EQ2 _ _ = False"

definition scopy32 :: "byte list \<Rightarrow> byte list" where
  "scopy32 s = take 31 (cstr s)"

definition UTF_8 :: "byte list" where "UTF_8 = [117, 116, 102, 45, 56]"
definition UTF8 :: "byte list" where "UTF8 = [117, 116, 102, 56]"

definition is_utf8 :: "byte list \<Rightarrow> bool" where
  "is_utf8 cs \<longleftrightarrow> strcaseeq cs UTF_8 \<or> strcaseeq cs UTF8"

definition update_begin ::
  "'h iconv \<Rightarrow> byte list option \<Rightarrow> byte list option \<Rightarrow> 'h charset_conv \<Rightarrow> 'h charset_conv \<times> bool" where
  "update_begin ic from to cv =
     (if EQ2 from to then (cv, True)
      else case (from, to) of
        (Some f, Some t) \<Rightarrow>
          let cv1 = cv\<lparr>cc_utf8_pre := Some (if is_utf8 f then 0 else 3)\<rparr> in
          if cc_iconv cv1 \<noteq> None \<and> strcaseeq (cc_from cv1) f \<and> strcaseeq (cc_to cv1) t then (cv1, True)
          else
            let cv2 = cv1\<lparr>cc_from := scopy32 f, cc_to := scopy32 t, cc_iconv := ic_open ic (cstr t) (cstr f)\<rparr> in
            (case cc_iconv cv2 of
               None \<Rightarrow> (cv2\<lparr>cc_errmsg := Open_failed (cstr t) (cstr f)\<rparr>, False)
             | Some h \<Rightarrow> (cv2\<lparr>cc_iconv := Some (ic_reset ic h)\<rparr>, True))
      | _ \<Rightarrow>
          if cc_iconv cv \<noteq> None then (cv, True)
          else (cv\<lparr>cc_errmsg := Input_invalid\<rparr>, False))"

text \<open>The loop that passes over the mark at the start of a UTF-8 text: the pointer and the bytes left.\<close>

fun pass_mark :: "nat \<Rightarrow> byte list \<Rightarrow> nat \<times> byte list" where
  "pass_mark p [] = (p, [])"
| "pass_mark p (c # cs) =
     (if UTF8_HEADER ! p = 0 then (p, c # cs)
      else if UTF8_HEADER ! p \<noteq> c then (3, c # cs)
      else pass_mark (p + 1) cs)"

text \<open>The size of a buffer that is asked for \<open>n\<close> bytes (\<^verbatim>\<open>vstring_extend\<close>), nothing being stored in it.\<close>

definition vstring_space :: "nat \<Rightarrow> nat \<Rightarrow> nat" where
  "vstring_space len n = (if n \<le> len then len else len + max len (n - len))"

text \<open>
  The loop around \<^verbatim>\<open>iconv\<close>: \<open>src\<close> is the argument of \<^verbatim>\<open>update\<close>, \<open>buf\<close> the bytes to be
  converted, \<open>room\<close> the size of the output buffer.
\<close>

partial_function (option) conv_loop ::
  "'h iconv \<Rightarrow> bool \<Rightarrow> byte list \<Rightarrow> 'h \<Rightarrow> byte list \<Rightarrow> nat \<Rightarrow> byte list \<Rightarrow> ('h \<times> byte list \<times> nat \<times> byte list) option" where
  "conv_loop ic v src h buf room out =
     (if buf = [] then Some (h, buf, room, out)
      else case ic_run ic h buf room of (h1, k, w, res) \<Rightarrow>
        (case res of
           Iconv_ok \<Rightarrow> Some (h1, [], room, out @ (if w \<noteq> [] then w else src))
         | Iconv_e2big \<Rightarrow>
             conv_loop ic v src h1 (if 0 < k \<and> k < length buf then drop k buf else buf)
               (vstring_space room (room * 2)) (out @ w)
         | Iconv_eilseq \<Rightarrow>
             if length buf \<le> k then Some (ic_reset ic h1, [], room, out @ w)
             else conv_loop ic v src (ic_reset ic h1) (drop (k + 1) buf) room
               (if v then string_add_char (out @ w) (buf ! k) else out @ w)
         | Iconv_einval \<Rightarrow> Some (ic_reset ic h1, drop k buf, room, out @ w)
         | Iconv_error \<Rightarrow> if v then Some (h1, [], room, out @ buf) else Some (h1, buf, room, out)))"

declare conv_loop.simps [code]

definition conv_update ::
  "'h iconv \<Rightarrow> byte list \<Rightarrow> 'h charset_conv \<Rightarrow> byte list \<Rightarrow> ('h charset_conv \<times> byte list \<times> bool) option" where
  "conv_update ic inp cv out =
     (if strcaseeq (cc_from cv) (cc_to cv) then Some (cv, out @ inp, True)
      else case cc_iconv cv of
        None \<Rightarrow> Some (cv\<lparr>cc_errmsg := Iconv_invalid\<rparr>, out, False)
      | Some h \<Rightarrow> do {
          p \<leftarrow> cc_utf8_pre cv;
          let (p, inp) = (if UTF8_HEADER ! p \<noteq> 0 then pass_mark p inp else (p, inp));
          let cv = cv\<lparr>cc_utf8_pre := Some p\<rparr>;
          if inp = [] then Some (cv, out, True)
          else do {
            let room = (case cc_out_size cv of None \<Rightarrow> length inp | Some s \<Rightarrow> vstring_space s (length inp));
            let buf = (if UTF8_HEADER ! p \<noteq> 0 \<and> 0 < p then take p UTF8_HEADER else cc_in_buf cv) @ inp;
            (h, buf, room, out) \<leftarrow> conv_loop ic (cc_add_invalid cv) inp h buf room out;
            Some (cv\<lparr>cc_iconv := Some h, cc_in_buf := buf, cc_out_size := Some room\<rparr>, out, True)
          }
        })"

definition update_finish :: "'h charset_conv \<Rightarrow> byte list \<Rightarrow> 'h charset_conv \<times> byte list" where
  "update_finish cv out =
     (if cc_in_buf cv \<noteq> [] \<and> cc_add_invalid cv then (cv\<lparr>cc_in_buf := []\<rparr>, out @ cc_in_buf cv) else (cv, out))"

definition convert ::
  "'h iconv \<Rightarrow> byte list option \<Rightarrow> byte list option \<Rightarrow> byte list \<Rightarrow> 'h charset_conv \<Rightarrow> byte list \<Rightarrow>
   ('h charset_conv \<times> byte list \<times> bool) option" where
  "convert ic from to inp cv out =
     (if from = None \<or> to = None \<or> inp = [] then Some (cv\<lparr>cc_errmsg := Params_invalid\<rparr>, out, False)
      else case update_begin ic from to cv of (cv, ok) \<Rightarrow>
        if \<not> ok then Some (conv_reset cv, out, False)
        else do {
          (cv, out, ok) \<leftarrow> conv_update ic inp cv out;
          if \<not> ok then Some (conv_reset cv, out, False)
          else let (cv, out) = update_finish cv out in Some (cv, out, True)
        })"

text \<open>
  The converter as a pipe. A maximum of 0 is none; \<open>inp\<close> is \<^const>\<open>None\<close> for NULL, as is the output
  of \<^verbatim>\<open>pop_end\<close>; the number is the result of the call.
\<close>

definition conv_push_pop ::
  "'h iconv \<Rightarrow> byte list option \<Rightarrow> nat \<Rightarrow> 'h charset_conv \<Rightarrow> byte list \<Rightarrow> ('h charset_conv \<times> byte list \<times> int) option" where
  "conv_push_pop ic inp most cv out = do {
     let pb = (case cc_buf cv of None \<Rightarrow> [] | Some b \<Rightarrow> b);
     (cv, pb, ok) \<leftarrow>
       (case inp of
          None \<Rightarrow> Some (cv, pb, True)
        | Some s \<Rightarrow> if s = [] then Some (cv, pb, True) else conv_update ic s cv pb);
     if \<not> ok then Some (cv\<lparr>cc_buf := Some pb\<rparr>, out, - 1)
     else if pb = [] then Some (cv\<lparr>cc_buf := Some pb\<rparr>, out, 0)
     else
       let n = (if 0 < most then min most (length pb) else length pb) in
       Some (cv\<lparr>cc_buf := Some (drop n pb)\<rparr>, out @ take n pb, int n)
   }"

definition conv_pop_end ::
  "nat \<Rightarrow> 'h charset_conv \<Rightarrow> byte list option \<Rightarrow> 'h charset_conv \<times> byte list option \<times> int" where
  "conv_pop_end most cv out =
     (case cc_buf cv of
        None \<Rightarrow> (cv, out, - 1)
      | Some pb \<Rightarrow>
          let (cv, pb) = update_finish cv pb in
          (case out of
             None \<Rightarrow> (cv\<lparr>cc_buf := Some []\<rparr>, None, 0)
           | Some w \<Rightarrow>
               if pb = [] then (cv\<lparr>cc_buf := Some pb\<rparr>, Some w, 0)
               else (cv\<lparr>cc_buf := Some []\<rparr>, Some (w @ pb),
                     int (if 0 < most \<and> most < length pb then most else length pb))))"

definition conv_clear :: "'h charset_conv \<Rightarrow> 'h charset_conv" where
  "conv_clear cv = (case cc_buf cv of None \<Rightarrow> cv | Some _ \<Rightarrow> cv\<lparr>cc_buf := Some []\<rparr>)"

definition conv_create :: "'h iconv \<Rightarrow> byte list option \<Rightarrow> byte list option \<Rightarrow> 'h charset_conv option" where
  "conv_create ic from to =
     (case (from, to) of
        (Some f, Some t) \<Rightarrow>
          if strcaseeq f t then None
          else (case update_begin ic from to charset_conv_new of (cv, ok) \<Rightarrow> if ok then Some cv else None)
      | _ \<Rightarrow> None)"

definition strconv :: "'h iconv \<Rightarrow> byte list \<Rightarrow> byte list option \<Rightarrow> byte list option \<Rightarrow> byte list option" where
  "strconv ic inp from to =
     map_option (\<lambda>(cv, res, ok). if ok then res else []) (convert ic from to inp charset_conv_new [])"

end
