(* ===== verification/Rfc2047.thy ===== *)
theory Rfc2047
  imports CharsetConv MimeCode MimeQp
begin

text \<open>
  The coder for encoded words in mail headers (\<^verbatim>\<open>mime/rfc2047.cpp\<close>): the state machine that cuts a text
  into entries, the second pass that decodes the entries and converts them to a character set, and the encoder.

  The list of entries is a list; \<open>rf_cur\<close> is the place in it of \<^verbatim>\<open>m_pCurrentEntry\<close>, \<^const>\<open>None\<close> for NULL.
  A function gives \<^const>\<open>None\<close> where the code would use that pointer when it is NULL, where an assertion fails
  and where a coder or the converter it calls does not end.
\<close>

section \<open>The state\<close>

datatype rfc_status =
  Status_next | Status_data | Status_equal_question | Status_charset | Status_question_first
| Status_coding | Status_question_second | Status_question_equal

record rfc_entry =
  re_data :: "byte list"
  re_charset :: "byte list"
  re_coding :: byte

datatype rfc_coder = Coder_base64 mime_code | Coder_qp mime_qp

record rfc2047 =
  rf_list :: "rfc_entry list"
  rf_cur :: "nat option"
  rf_coder :: "rfc_coder option"
  rf_status :: rfc_status
  rf_strip :: bool
  rf_crlf :: bool
  rf_last :: byte

definition rfc_new :: "bool \<Rightarrow> bool \<Rightarrow> rfc2047" where
  "rfc_new strip crlf = \<lparr>rf_list = [], rf_cur = None, rf_coder = None, rf_status = Status_next,
     rf_strip = strip, rf_crlf = crlf, rf_last = 0\<rparr>"

definition rfc_reset :: "bool \<Rightarrow> rfc2047 \<Rightarrow> rfc2047" where
  "rfc_reset strip rf = rf\<lparr>rf_list := [], rf_cur := None, rf_coder := None, rf_status := Status_next,
     rf_strip := strip, rf_last := 0\<rparr>"

definition cur_entry :: "rfc2047 \<Rightarrow> rfc_entry option" where
  "cur_entry rf = map_option ((!) (rf_list rf)) (rf_cur rf)"

definition set_entry :: "rfc_entry \<Rightarrow> rfc2047 \<Rightarrow> rfc2047" where
  "set_entry e rf = (case rf_cur rf of None \<Rightarrow> rf | Some i \<Rightarrow> rf\<lparr>rf_list := (rf_list rf)[i := e]\<rparr>)"

definition push_entry :: "rfc_entry \<Rightarrow> rfc2047 \<Rightarrow> rfc2047" where
  "push_entry e rf = rf\<lparr>rf_list := rf_list rf @ [e], rf_cur := Some (length (rf_list rf))\<rparr>"

definition add_data :: "byte \<Rightarrow> rfc_entry \<Rightarrow> rfc_entry" where
  "add_data c e = e\<lparr>re_data := string_add_char (re_data e) c\<rparr>"

text \<open>The macro \<^verbatim>\<open>SKIP\<close>: a line end, and blanks if the last byte noted is a line feed or none.\<close>

fun skip_blanks :: "byte \<Rightarrow> byte list \<Rightarrow> byte \<times> byte list" where
  "skip_blanks l [] = (l, [])"
| "skip_blanks l (c # s) = (if c = 32 \<or> c = 9 then skip_blanks c s else (c, c # s))"

definition skip_one :: "byte \<Rightarrow> byte \<times> byte list \<Rightarrow> byte \<times> byte list" where
  "skip_one x ls = (case ls of (l, c # s) \<Rightarrow> if c = x then (c, s) else (l, c # s) | _ \<Rightarrow> ls)"

definition SKIP :: "byte \<Rightarrow> byte list \<Rightarrow> byte \<times> byte list" where
  "SKIP l s = (case skip_one 10 (skip_one 13 (l, s)) of
     (l, s) \<Rightarrow> if l = 0 \<or> l = 10 then skip_blanks l s else (l, s))"

definition rfc_skip :: "rfc2047 \<Rightarrow> byte list \<Rightarrow> rfc2047 \<times> byte list" where
  "rfc_skip rf s = (if rf_strip rf then (case SKIP (rf_last rf) s of (l, s) \<Rightarrow> (rf\<lparr>rf_last := l\<rparr>, s)) else (rf, s))"

section \<open>The states\<close>

definition status_next :: "rfc2047 \<Rightarrow> byte list \<Rightarrow> (rfc2047 \<times> byte list) option" where
  "status_next rf s =
     (case rfc_skip rf s of
        (rf, []) \<Rightarrow> Some (rf, [])
      | (rf, c # s) \<Rightarrow>
          let e = \<lparr>re_data = [], re_charset = [], re_coding = 0\<rparr> in
          if c = 61 then Some ((push_entry e rf)\<lparr>rf_status := Status_equal_question\<rparr>, s)
          else Some ((push_entry (add_data c e) rf)\<lparr>rf_status := Status_data\<rparr>, s))"

lemma skip_blanks_shorter: "length (snd (skip_blanks l s)) \<le> length s"
  by (induction l s rule: skip_blanks.induct) auto

lemma skip_one_shorter: "length (snd (skip_one x ls)) \<le> length (snd ls)"
  by (cases ls; cases "snd ls") (auto simp: skip_one_def)

lemma SKIP_shorter: "length (snd (SKIP l s)) \<le> length s"
proof -
  have "length (snd (skip_one 10 (skip_one 13 (l, s)))) \<le> length s"
    using skip_one_shorter [of 10 "skip_one 13 (l, s)"] skip_one_shorter [of 13 "(l, s)"] by simp
  then show ?thesis
    by (auto simp: SKIP_def split: prod.split intro: order_trans [OF skip_blanks_shorter])
qed

lemma rfc_skip_shorter: "rfc_skip rf s = (rf1, s1) \<Longrightarrow> length s1 \<le> length s"
  using SKIP_shorter [of "rf_last rf" s] by (auto simp: rfc_skip_def split: prod.splits if_splits)

function data_loop :: "rfc2047 \<Rightarrow> byte list \<Rightarrow> (rfc2047 \<times> byte list) option" where
  "data_loop rf s =
     (if s = [] then Some (rf, [])
      else case rfc_skip rf s of
        (rf, []) \<Rightarrow> Some (rf, [])
      | (rf, c # s) \<Rightarrow>
          (case cur_entry rf of
             None \<Rightarrow> None
           | Some e \<Rightarrow>
               if 0 < sint (re_coding e) then
                 if c = 63 then Some (rf\<lparr>rf_status := Status_question_equal\<rparr>, s)
                 else data_loop (set_entry (add_data c e) rf) s
               else if c = 61 then Some (rf\<lparr>rf_status := Status_next\<rparr>, c # s)
               else data_loop (set_entry (add_data c e) rf) s))"
  by pat_completeness auto
termination
  by (relation "measure (\<lambda>(_, s). length s)") (auto dest!: rfc_skip_shorter [OF sym])

declare data_loop.simps [simp del]

definition status_data :: "rfc2047 \<Rightarrow> byte list \<Rightarrow> (rfc2047 \<times> byte list) option" where
  "status_data rf s = (case rfc_skip rf s of (rf, s) \<Rightarrow> data_loop rf s)"

definition status_equal_question :: "rfc2047 \<Rightarrow> byte list \<Rightarrow> (rfc2047 \<times> byte list) option" where
  "status_equal_question rf s =
     (case rfc_skip rf s of
        (rf, []) \<Rightarrow> Some (rf, [])
      | (rf, c # s) \<Rightarrow>
          if c = 63 then Some (rf\<lparr>rf_status := Status_charset\<rparr>, s)
          else map_option (\<lambda>e. ((set_entry (add_data c (add_data 61 e)) rf)\<lparr>rf_status := Status_data\<rparr>, s)) (cur_entry rf))"

definition status_charset :: "rfc2047 \<Rightarrow> byte list \<Rightarrow> (rfc2047 \<times> byte list) option" where
  "status_charset rf s =
     (case rfc_skip rf s of
        (rf, []) \<Rightarrow> Some (rf, [])
      | (rf, c # s) \<Rightarrow>
          (case cur_entry rf of
             None \<Rightarrow> None
           | Some e \<Rightarrow>
               if c = 63 then
                 if re_charset e = [] then
                   Some ((set_entry (e\<lparr>re_data := [61, 63, 63]\<rparr>) rf)\<lparr>rf_status := Status_data\<rparr>, s)
                 else Some (rf\<lparr>rf_status := Status_question_first\<rparr>, s)
               else Some (set_entry (e\<lparr>re_charset := string_add_char (re_charset e) c\<rparr>) rf, s)))"

definition status_question_first :: "rfc2047 \<Rightarrow> byte list \<Rightarrow> (rfc2047 \<times> byte list) option" where
  "status_question_first rf s =
     (case rfc_skip rf s of
        (rf, []) \<Rightarrow> Some (rf, [])
      | (rf, s) \<Rightarrow> Some (rf\<lparr>rf_status := Status_coding\<rparr>, s))"

definition status_coding :: "rfc2047 \<Rightarrow> byte list \<Rightarrow> (rfc2047 \<times> byte list) option" where
  "status_coding rf s =
     (case rfc_skip rf s of
        (rf, []) \<Rightarrow> Some (rf, [])
      | (rf, c # s) \<Rightarrow>
          (case cur_entry rf of
             None \<Rightarrow> None
           | Some e \<Rightarrow>
               if c = 66 \<or> c = 98 then
                 Some ((set_entry (e\<lparr>re_coding := 66\<rparr>) rf)\<lparr>rf_status := Status_question_second\<rparr>, s)
               else if c = 81 \<or> c = 113 then
                 Some ((set_entry (e\<lparr>re_coding := 81\<rparr>) rf)\<lparr>rf_status := Status_question_second\<rparr>, s)
               else
                 Some (set_entry (e\<lparr>re_data := re_data e @ [61, 63] @ cstr (re_charset e) @ [63],
                   re_charset := [], re_coding := 0\<rparr>) rf, s)))"

definition status_question_second :: "rfc2047 \<Rightarrow> byte list \<Rightarrow> (rfc2047 \<times> byte list) option" where
  "status_question_second rf s =
     (case rfc_skip rf s of
        (rf, []) \<Rightarrow> Some (rf, [])
      | (rf, c # s) \<Rightarrow>
          if c = 63 then Some (rf\<lparr>rf_status := Status_data\<rparr>, s)
          else map_option (\<lambda>e. ((set_entry (add_data c (e\<lparr>re_data := re_data e @ [61, 63] @ cstr (re_charset e),
            re_charset := [], re_coding := 0\<rparr>)) rf)\<lparr>rf_status := Status_data\<rparr>, s)) (cur_entry rf))"

definition status_question_equal :: "rfc2047 \<Rightarrow> byte list \<Rightarrow> (rfc2047 \<times> byte list) option" where
  "status_question_equal rf s =
     (case rfc_skip rf s of
        (rf, []) \<Rightarrow> Some (rf, [])
      | (rf, c # s) \<Rightarrow>
          if c = 61 then Some (rf\<lparr>rf_status := Status_next, rf_cur := None\<rparr>, s)
          else map_option (\<lambda>e. ((set_entry (add_data c (e\<lparr>re_data := [61, 63] @ cstr (re_charset e) @ [63] @
            string_add_char [] (re_coding e) @ [63] @ cstr (re_data e) @ [63]\<rparr>)) rf)\<lparr>rf_status := Status_data\<rparr>, s))
            (cur_entry rf))"

fun status_tab :: "rfc_status \<Rightarrow> rfc2047 \<Rightarrow> byte list \<Rightarrow> (rfc2047 \<times> byte list) option" where
  "status_tab Status_next = status_next"
| "status_tab Status_data = status_data"
| "status_tab Status_equal_question = status_equal_question"
| "status_tab Status_charset = status_charset"
| "status_tab Status_question_first = status_question_first"
| "status_tab Status_coding = status_coding"
| "status_tab Status_question_second = status_question_second"
| "status_tab Status_question_equal = status_question_equal"

partial_function (option) rfc_decode_update :: "rfc2047 \<Rightarrow> byte list \<Rightarrow> rfc2047 option" where
  "rfc_decode_update rf s =
     (if s = [] then Some rf
      else do { (rf, s) \<leftarrow> status_tab (rf_status rf) rf s; rfc_decode_update rf s })"

declare rfc_decode_update.simps [code]

section \<open>The second pass\<close>

text \<open>
  The local variables of \<^verbatim>\<open>rfc2047::decode_finish\<close>: which of the two decoders is in use, both of them,
  the character set of the last word and the converter. \<open>oob\<close> is the byte behind the base64 table.
\<close>

record 'h rfc_decoder =
  rd_qp :: bool
  rd_b64 :: mime_code
  rd_qp_coder :: mime_qp
  rd_from :: "byte list option"
  rd_conv :: "'h charset_conv"

definition coder_update :: "byte \<Rightarrow> byte list \<Rightarrow> 'h rfc_decoder \<Rightarrow> ('h rfc_decoder \<times> byte list) option" where
  "coder_update oob bs d =
     (if rd_qp d then map_option (\<lambda>(m, w). (d\<lparr>rd_qp_coder := m\<rparr>, w)) (qp_decode_update (rd_qp_coder d) bs [])
      else map_option (\<lambda>(m, w). (d\<lparr>rd_b64 := m\<rparr>, w)) (decode_update oob (rd_b64 d) bs []))"

definition coder_finish :: "byte \<Rightarrow> 'h rfc_decoder \<Rightarrow> 'h rfc_decoder \<times> byte list" where
  "coder_finish oob d =
     (if rd_qp d then (case qp_decode_finish (rd_qp_coder d) [] of (m, w) \<Rightarrow> (d\<lparr>rd_qp_coder := m\<rparr>, w))
      else (case decode_finish oob (rd_b64 d) [] of (m, w) \<Rightarrow> (d\<lparr>rd_b64 := m\<rparr>, w)))"

definition coder_reset :: "'h rfc_decoder \<Rightarrow> 'h rfc_decoder" where
  "coder_reset d =
     (if rd_qp d then d\<lparr>rd_qp_coder := qp_reset (rd_qp_coder d)\<rparr> else d\<lparr>rd_b64 := mime_reset (rd_b64 d)\<rparr>)"

definition decoder_update ::
  "'h iconv \<Rightarrow> byte \<Rightarrow> rfc_entry \<Rightarrow> byte list option \<Rightarrow> 'h rfc_decoder \<Rightarrow> byte list \<Rightarrow>
   ('h rfc_decoder \<times> byte list) option" where
  "decoder_update ic oob e to d out = do {
     (d, buf1) \<leftarrow> coder_update oob (re_data e) d;
     if buf1 = [] then Some (d, out)
     else if EQ2 (rd_from d) to then Some (d, out @ buf1)
     else case update_begin ic (rd_from d) to (rd_conv d) of (cv, ok) \<Rightarrow>
       if \<not> ok then Some (d\<lparr>rd_conv := cv\<rparr>, out @ buf1)
       else do {
         (cv, buf2, ok) \<leftarrow> conv_update ic buf1 cv [];
         Some (d\<lparr>rd_conv := cv\<rparr>, out @ (if ok then buf2 else buf1))
       }
   }"

text \<open>\<open>use\<close> says whether the converter is given, or NULL.\<close>

definition decoder_finish ::
  "'h iconv \<Rightarrow> byte \<Rightarrow> bool \<Rightarrow> 'h rfc_decoder \<Rightarrow> byte list \<Rightarrow> ('h rfc_decoder \<times> byte list) option" where
  "decoder_finish ic oob use d out =
     (case coder_finish oob d of (d, buf1) \<Rightarrow>
        if buf1 = [] then
          if use then (case update_finish (rd_conv d) [] of (cv, buf2) \<Rightarrow> Some (d\<lparr>rd_conv := cv\<rparr>, out @ buf2))
          else Some (d, out)
        else if \<not> use then Some (d, out @ buf1)
        else do {
          (cv, buf2, ok) \<leftarrow> conv_update ic buf1 (rd_conv d) [];
          if \<not> ok then Some (d\<lparr>rd_conv := cv\<rparr>, out @ buf1)
          else (case update_finish cv buf2 of (cv, buf2) \<Rightarrow> Some (d\<lparr>rd_conv := cv\<rparr>, out @ buf2))
        })"

text \<open>What ends the words before: with the converter set to the character set of the last one, or without it.\<close>

definition flush ::
  "'h iconv \<Rightarrow> byte \<Rightarrow> bool \<Rightarrow> byte list option \<Rightarrow> 'h rfc_decoder \<Rightarrow> byte list \<Rightarrow> ('h rfc_decoder \<times> byte list) option" where
  "flush ic oob plain to d out =
     (if plain then decoder_finish ic oob False d out
      else decoder_finish ic oob True (d\<lparr>rd_conv := fst (update_begin ic (rd_from d) to (rd_conv d))\<rparr>) out)"

definition non_empty :: "byte list \<Rightarrow> byte list option" where
  "non_empty cs = (if cs = [] then None else Some cs)"

definition decode_word ::
  "'h iconv \<Rightarrow> byte \<Rightarrow> byte list option \<Rightarrow> rfc_entry \<Rightarrow> bool \<Rightarrow> (byte list option \<Rightarrow> bool) \<Rightarrow>
   'h rfc_decoder \<Rightarrow> byte list \<Rightarrow> ('h rfc_decoder \<times> byte list) option" where
  "decode_word ic oob to e qp plain d out = do {
     let cs = cstr (re_charset e);
     (d, out) \<leftarrow>
       (if rd_qp d \<noteq> qp \<or> \<not> EQ2 (Some cs) (rd_from d) then do {
          let d = d\<lparr>rd_from := non_empty (case rd_from d of None \<Rightarrow> cs | Some f \<Rightarrow> f)\<rparr>;
          (d, out) \<leftarrow> flush ic oob (plain (rd_from d)) to d out;
          Some (coder_reset d, out)
        } else Some (d, out));
     decoder_update ic oob e to (d\<lparr>rd_qp := qp, rd_from := non_empty cs\<rparr>) out
   }"

definition decode_entry ::
  "'h iconv \<Rightarrow> byte \<Rightarrow> byte list option \<Rightarrow> rfc_entry \<Rightarrow> 'h rfc_decoder \<Rightarrow> byte list \<Rightarrow>
   ('h rfc_decoder \<times> byte list) option" where
  "decode_entry ic oob to e d out =
     (if re_coding e = 81 then decode_word ic oob to e True (\<lambda>from. from = None \<or> to = None) d out
      else if re_coding e = 66 then decode_word ic oob to e False (\<lambda>from. from = None \<and> to = None) d out
      else do {
        (d, out) \<leftarrow> flush ic oob (rd_from d = None \<or> to = None) to d out;
        Some (coder_reset d, out @ re_data e)
      })"

fun decode_entries ::
  "'h iconv \<Rightarrow> byte \<Rightarrow> byte list option \<Rightarrow> rfc_entry list \<Rightarrow> 'h rfc_decoder \<Rightarrow> byte list \<Rightarrow>
   ('h rfc_decoder \<times> byte list) option" where
  "decode_entries ic oob to [] d out = Some (d, out)"
| "decode_entries ic oob to (e # es) d out = do {
     (d, out) \<leftarrow> decode_entry ic oob to e d out;
     decode_entries ic oob to es d out
   }"

definition rfc_decoder_new :: "bool \<Rightarrow> 'h rfc_decoder" where
  "rfc_decoder_new addInvalid = \<lparr>rd_qp = False, rd_b64 = mime_base64 False False, rd_qp_coder = mime_qp_new False False,
     rd_from = None, rd_conv = set_add_invalid addInvalid charset_conv_new\<rparr>"

definition rfc_decode_finish ::
  "'h iconv \<Rightarrow> byte \<Rightarrow> byte list option \<Rightarrow> bool \<Rightarrow> rfc2047 \<Rightarrow> byte list \<Rightarrow> byte list option" where
  "rfc_decode_finish ic oob to addInvalid rf out = do {
     (d, out) \<leftarrow> decode_entries ic oob to (rf_list rf) (rfc_decoder_new addInvalid) out;
     (d, out) \<leftarrow> flush ic oob (rd_from d = None \<or> to = None) to d out;
     Some out
   }"

section \<open>Encoding\<close>

text \<open>The C function \<^verbatim>\<open>toupper\<close>, and \<^verbatim>\<open>string::upper\<close> of a C string.\<close>

definition to_upper :: "byte \<Rightarrow> byte" where
  "to_upper c = (if 97 \<le> c \<and> c \<le> 122 then c - 32 else c)"

definition rfc_coder_new :: "byte \<Rightarrow> bool \<Rightarrow> rfc_coder" where
  "rfc_coder_new ch crlf = (if ch = 66 then Coder_base64 (mime_base64 crlf False) else Coder_qp (mime_qp_new crlf False))"

fun rfc_coder_update :: "rfc_coder \<Rightarrow> byte list \<Rightarrow> byte list \<Rightarrow> (rfc_coder \<times> byte list) option" where
  "rfc_coder_update (Coder_base64 m) inp out = map_option (\<lambda>(m, w). (Coder_base64 m, w)) (encode_update m inp out)"
| "rfc_coder_update (Coder_qp m) inp out = map_option (\<lambda>(m, w). (Coder_qp m, w)) (qp_encode_update m inp out)"

fun rfc_coder_finish :: "rfc_coder \<Rightarrow> byte list \<Rightarrow> rfc_coder \<times> byte list" where
  "rfc_coder_finish (Coder_base64 m) out = (case encode_finish m out of (m, w) \<Rightarrow> (Coder_base64 m, w))"
| "rfc_coder_finish (Coder_qp m) out = (case qp_encode_finish m out of (m, w) \<Rightarrow> (Coder_qp m, w))"

text \<open>The end of the word before, if there is a coder.\<close>

definition end_word :: "rfc2047 \<Rightarrow> byte list \<Rightarrow> (rfc2047 \<times> byte list) option" where
  "end_word rf out =
     (case rf_coder rf of
        None \<Rightarrow> Some (rf, out)
      | Some m \<Rightarrow> do {
          _ \<leftarrow> rf_cur rf;
          Some (rf\<lparr>rf_coder := None\<rparr>, snd (rfc_coder_finish m out) @ [63, 61])
        })"

definition start_word :: "byte list \<Rightarrow> byte \<Rightarrow> rfc2047 \<Rightarrow> byte list \<Rightarrow> rfc2047 \<times> byte list" where
  "start_word cs ch rf out =
     (let cs = map to_upper (cstr cs) in
      ((push_entry \<lparr>re_data = [], re_charset = cs, re_coding = ch\<rparr> rf)\<lparr>rf_coder := Some (rfc_coder_new ch (rf_crlf rf))\<rparr>,
       out @ [61, 63] @ cs @ [63, ch, 63]))"

definition rfc_encode_update ::
  "byte list \<Rightarrow> byte list option \<Rightarrow> byte \<Rightarrow> rfc2047 \<Rightarrow> byte list \<Rightarrow> (rfc2047 \<times> byte list \<times> bool) option" where
  "rfc_encode_update inp charset coding rf out =
     (case charset of
        None \<Rightarrow> Some (rf, out, False)
      | Some cs \<Rightarrow>
          let ch = to_upper coding in
          if cstr cs = [] then Some (rf, out, False)
          else if ch \<noteq> 66 \<and> ch \<noteq> 81 then Some (rf, out, False)
          else if inp = [] then None
          else do {
            (rf, out) \<leftarrow>
              (if (case cur_entry rf of None \<Rightarrow> True | Some e \<Rightarrow> \<not> strcaseeq (re_charset e) cs \<or> re_coding e \<noteq> ch)
               then do { (rf, out) \<leftarrow> end_word rf out; Some (start_word cs ch rf out) }
               else Some (rf, out));
            _ \<leftarrow> rf_cur rf;
            m \<leftarrow> rf_coder rf;
            (m, out) \<leftarrow> rfc_coder_update m inp out;
            Some (rf\<lparr>rf_coder := Some m\<rparr>, out, True)
          })"

definition rfc_encode_finish :: "rfc2047 \<Rightarrow> byte list \<Rightarrow> (rfc2047 \<times> byte list) option" where
  "rfc_encode_finish rf out = do {
     _ \<leftarrow> rf_cur rf;
     m \<leftarrow> rf_coder rf;
     let (m, out) = rfc_coder_finish m out;
     Some (rf\<lparr>rf_coder := Some m\<rparr>, out @ [63, 61])
   }"

text \<open>The static functions: the output, and the result.\<close>

definition rfc_encode :: "byte list \<Rightarrow> byte list option \<Rightarrow> byte \<Rightarrow> bool \<Rightarrow> byte list \<Rightarrow> (byte list \<times> bool) option" where
  "rfc_encode inp charset coding crlf out = do {
     (rf, out, ok) \<leftarrow> rfc_encode_update inp charset coding (rfc_new False crlf) out;
     if \<not> ok then Some (out, False) else map_option (\<lambda>(rf, out). (out, True)) (rfc_encode_finish rf out)
   }"

definition rfc_decode ::
  "'h iconv \<Rightarrow> byte \<Rightarrow> byte list \<Rightarrow> byte list option \<Rightarrow> bool \<Rightarrow> bool \<Rightarrow> byte list \<Rightarrow> byte list option" where
  "rfc_decode ic oob inp to strip addInvalid out = do {
     rf \<leftarrow> rfc_decode_update (rfc_new strip False) inp;
     rfc_decode_finish ic oob to addInvalid rf out
   }"

end
