(* ===== verification/Rfc2047Run.thy ===== *)
theory Rfc2047Run
  imports Rfc2047
begin

text \<open>
  The first pass over a text: it always ends and never uses the entry pointer when it is NULL; without the
  stripping of blanks it does not depend on the pieces of the text; and it reads an encoded word.
\<close>

section \<open>The first pass ends\<close>

definition entry_ok :: "rfc_entry \<Rightarrow> bool" where
  "entry_ok e \<longleftrightarrow> no_nul (re_data e) \<and> no_nul (re_charset e) \<and> re_coding e \<in> {0, 66, 81}"

definition rfc_ok :: "rfc2047 \<Rightarrow> bool" where
  "rfc_ok rf \<longleftrightarrow> list_all entry_ok (rf_list rf) \<and>
     (case rf_cur rf of None \<Rightarrow> rf_status rf = Status_next | Some i \<Rightarrow> i < length (rf_list rf))"

lemma rfc_ok_new [simp]: "rfc_ok (rfc_new strip crlf)"
  by (simp add: rfc_ok_def rfc_new_def)

lemma string_add_char_no_nul [simp]: "no_nul (string_add_char s c) \<longleftrightarrow> no_nul s"
  by (auto simp: string_add_char_def no_nul_def)

lemma no_nul_Cons [simp]: "no_nul (c # s) \<longleftrightarrow> c \<noteq> 0 \<and> no_nul s"
  by (auto simp: no_nul_def)

lemma entry_ok_add [simp]: "entry_ok (add_data c e) \<longleftrightarrow> entry_ok e"
  by (simp add: entry_ok_def add_data_def)

lemma rfc_ok_cur:
  assumes "rfc_ok rf" "rf_status rf \<noteq> Status_next"
  obtains e where "cur_entry rf = Some e" "entry_ok e"
  using assms by (auto simp: rfc_ok_def cur_entry_def list_all_length split: option.splits)

lemma rfc_ok_status: "rfc_ok rf \<Longrightarrow> cur_entry rf = Some e \<Longrightarrow> rfc_ok (rf\<lparr>rf_status := st\<rparr>)"
  by (auto simp: rfc_ok_def cur_entry_def split: option.splits)

lemma rfc_ok_none: "rfc_ok rf \<Longrightarrow> rfc_ok (rf\<lparr>rf_status := Status_next, rf_cur := None\<rparr>)"
  by (simp add: rfc_ok_def)

lemma rfc_ok_set: "rfc_ok rf \<Longrightarrow> entry_ok e \<Longrightarrow> rfc_ok (set_entry e rf)"
  by (auto simp: rfc_ok_def set_entry_def list_all_length nth_list_update split: option.splits)

lemma rfc_ok_push: "rfc_ok rf \<Longrightarrow> entry_ok e \<Longrightarrow> rfc_ok ((push_entry e rf)\<lparr>rf_status := st\<rparr>)"
  by (auto simp: rfc_ok_def push_entry_def split: option.splits)

lemma set_entry_status [simp]: "rf_status (set_entry e rf) = rf_status rf"
  by (simp add: set_entry_def split: option.split)

lemma cur_entry_set: "cur_entry rf = Some e \<Longrightarrow> rfc_ok rf \<Longrightarrow> cur_entry (set_entry e1 rf) = Some e1"
  by (auto simp: cur_entry_def set_entry_def rfc_ok_def)

lemma rfc_skip_keeps:
  "rfc_skip rf s = (rf1, s1) \<Longrightarrow>
   rfc_ok rf1 = rfc_ok rf \<and> rf_status rf1 = rf_status rf \<and> cur_entry rf1 = cur_entry rf \<and> length s1 \<le> length s"
  using rfc_skip_shorter [of rf s rf1 s1]
  by (auto simp: rfc_skip_def rfc_ok_def cur_entry_def split: prod.splits if_splits option.splits)

text \<open>A step leaves a good state and makes progress.\<close>

fun status_rank :: "rfc_status \<Rightarrow> nat" where
  "status_rank Status_next = 0"
| "status_rank Status_coding = 0"
| "status_rank _ = 1"

definition good_step :: "rfc2047 \<Rightarrow> byte list \<Rightarrow> (rfc2047 \<times> byte list) option \<Rightarrow> bool" where
  "good_step rf s r \<longleftrightarrow> (\<exists>rf1 s1. r = Some (rf1, s1) \<and> rfc_ok rf1 \<and>
     (s1 = [] \<or> 2 * length s1 + status_rank (rf_status rf1) < 2 * length s + status_rank (rf_status rf)))"

lemma good_stepI:
  "rfc_ok rf1 \<Longrightarrow> length s1 < length s \<Longrightarrow> good_step rf s (Some (rf1, s1))"
  unfolding good_step_def
proof -
  assume "rfc_ok rf1" "length s1 < length s"
  moreover have "status_rank (rf_status rf1) \<le> 1" by (cases "rf_status rf1") auto
  ultimately show "\<exists>rf2 s2. Some (rf1, s1) = Some (rf2, s2) \<and> rfc_ok rf2 \<and>
     (s2 = [] \<or> 2 * length s2 + status_rank (rf_status rf2) < 2 * length s + status_rank (rf_status rf))"
    by auto
qed

lemma good_step_end: "rfc_ok rf1 \<Longrightarrow> good_step rf s (Some (rf1, []))"
  by (auto simp: good_step_def)

lemma data_loop_good:
  assumes "rfc_ok rf" "rf_status rf = Status_data"
  shows "good_step rf s (data_loop rf s)"
  using assms
proof (induction rf s rule: data_loop.induct)
  case (1 rf s)
  show ?case
  proof (cases "s = []")
    case True
    then show ?thesis using 1(3) by (subst data_loop.simps) (simp add: good_step_end)
  next
    case False
    obtain rf1 s1 where skip: "rfc_skip rf s = (rf1, s1)" by (metis prod.exhaust)
    note keep = rfc_skip_keeps [OF skip]
    show ?thesis
    proof (cases s1)
      case Nil
      then show ?thesis using keep 1(3) False skip by (subst data_loop.simps) (simp add: good_step_end)
    next
      case (Cons c s2)
      obtain e where e: "cur_entry rf1 = Some e" "entry_ok e"
        using rfc_ok_cur [of rf1] keep 1(3,4) by auto
      have ok: "rfc_ok (set_entry (add_data c e) rf1)" "rf_status (set_entry (add_data c e) rf1) = Status_data"
        using keep 1(3,4) e by (simp_all add: rfc_ok_set)
      have more: "good_step rf s (data_loop (set_entry (add_data c e) rf1) s2)"
        if "good_step (set_entry (add_data c e) rf1) s2 (data_loop (set_entry (add_data c e) rf1) s2)"
        using that keep Cons 1(4) ok(2) by (auto simp: good_step_def)
      note step = data_loop.simps [of rf s, unfolded skip prod.case Cons list.case e(1) option.case]
      consider "0 < sint (re_coding e)" "c = 63" | "0 < sint (re_coding e)" "c \<noteq> 63"
        | "\<not> 0 < sint (re_coding e)" "c = 61" | "\<not> 0 < sint (re_coding e)" "c \<noteq> 61" by blast
      then show ?thesis
      proof cases
        case 1
        then show ?thesis
          using step False keep \<open>rfc_ok rf\<close> rfc_ok_status [OF _ e(1)] Cons by (simp add: good_stepI)
      next
        case 2
        then show ?thesis
          using step False more [OF "1.IH"(1) [OF False skip [symmetric] Cons e(1)]] Cons ok by simp
      next
        case 3
        then show ?thesis
          using step False keep \<open>rfc_ok rf\<close> \<open>rf_status rf = Status_data\<close> rfc_ok_status [OF _ e(1)] Cons
          by (auto simp: good_step_def)
      next
        case 4
        then show ?thesis
          using step False more [OF "1.IH"(2) [OF False skip [symmetric] Cons e(1)]] Cons ok by simp
      qed
    qed
  qed
qed

lemma status_step_good:
  assumes "rfc_ok rf" "s \<noteq> []"
  shows "good_step rf s (status_tab (rf_status rf) rf s)"
proof -
  obtain rf1 s1 where skip: "rfc_skip rf s = (rf1, s1)" by (metis prod.exhaust)
  note keep = rfc_skip_keeps [OF skip]
  have ok: "rfc_ok rf1" using keep assms by simp
  show ?thesis
  proof (cases s1)
    case Nil
    then show ?thesis
      using skip keep assms
      by (cases "rf_status rf")
        (simp_all add: status_next_def status_data_def status_equal_question_def status_charset_def
          status_question_first_def status_coding_def status_question_second_def status_question_equal_def
          good_step_end data_loop.simps)
  next
    case (Cons c s2)
    have good: "good_step rf s (Some (rf2, s2))" if "rfc_ok rf2" for rf2
      using that keep Cons by (intro good_stepI) auto
    show ?thesis
    proof (cases "rf_status rf = Status_next")
      case True
      have "entry_ok \<lparr>re_data = [], re_charset = [], re_coding = 0\<rparr>" by (simp add: entry_ok_def)
      with True skip Cons good ok show ?thesis by (simp add: status_next_def Let_def rfc_ok_push)
    next
      case False
      then obtain e where e: "cur_entry rf1 = Some e" "entry_ok e"
        using rfc_ok_cur [OF ok] keep by auto
      have same: "rfc_ok (rf1\<lparr>rf_status := st\<rparr>)" for st using rfc_ok_status [OF ok e(1)] .
      have changed: "rfc_ok (set_entry e1 rf1)" "rfc_ok ((set_entry e1 rf1)\<lparr>rf_status := st\<rparr>)" if "entry_ok e1" for st e1
        using rfc_ok_set [OF ok that] rfc_ok_status [OF rfc_ok_set [OF ok that] cur_entry_set [OF e(1) ok]] by auto
      have entries: "entry_ok (add_data c (add_data 61 e))" "entry_ok (e\<lparr>re_data := [61, 63, 63]\<rparr>)"
        "entry_ok (e\<lparr>re_charset := string_add_char (re_charset e) c\<rparr>)"
        "entry_ok (e\<lparr>re_coding := 66\<rparr>)" "entry_ok (e\<lparr>re_coding := 81\<rparr>)"
        "entry_ok (e\<lparr>re_data := re_data e @ [61, 63] @ cstr (re_charset e) @ [63], re_charset := [], re_coding := 0\<rparr>)"
        "entry_ok (add_data c (e\<lparr>re_data := re_data e @ [61, 63] @ cstr (re_charset e), re_charset := [], re_coding := 0\<rparr>))"
        "entry_ok (add_data c (e\<lparr>re_data := [61, 63] @ cstr (re_charset e) @ [63] @
            string_add_char [] (re_coding e) @ [63] @ cstr (re_data e) @ [63]\<rparr>))"
        unfolding entry_ok_add using e(2) by (auto simp: entry_ok_def)
      show ?thesis
      proof (cases "rf_status rf")
        case Status_data
        with data_loop_good [OF ok] keep have "good_step rf1 s1 (data_loop rf1 s1)" by simp
        with Status_data keep skip show ?thesis by (auto simp: good_step_def status_data_def)
      next
        case Status_question_first
        with good_step_def skip Cons keep same show ?thesis by (auto simp: status_question_first_def)
      qed (use False skip Cons e keep same changed entries rfc_ok_none [OF ok] in
          \<open>simp_all add: status_equal_question_def status_charset_def status_coding_def
            status_question_second_def status_question_equal_def good_stepI\<close>)
    qed
  qed
qed

theorem rfc_decode_update_ends:
  assumes "rfc_ok rf"
  shows "\<exists>rf1. rfc_decode_update rf s = Some rf1 \<and> rfc_ok rf1"
  using assms
proof (induction "2 * length s + status_rank (rf_status rf)" arbitrary: rf s rule: less_induct)
  case less
  show ?case
  proof (cases "s = []")
    case True
    then show ?thesis using less.prems by (subst rfc_decode_update.simps) simp
  next
    case False
    obtain rf1 s1 where 1: "status_tab (rf_status rf) rf s = Some (rf1, s1)" "rfc_ok rf1"
      "s1 = [] \<or> 2 * length s1 + status_rank (rf_status rf1) < 2 * length s + status_rank (rf_status rf)"
      using status_step_good [OF less.prems False] by (auto simp: good_step_def)
    have "rfc_decode_update rf s = rfc_decode_update rf1 s1"
      using 1(1) False by (subst rfc_decode_update.simps) simp
    moreover have "rfc_decode_update rf1 [] = Some rf1" by (subst rfc_decode_update.simps) simp
    ultimately show ?thesis using 1(2,3) less.hyps [of s1 rf1] by (cases "s1 = []") auto
  qed
qed

section \<open>Pieces\<close>

lemma rfc_decode_update_Nil [simp]: "rfc_decode_update rf [] = Some rf"
  by (subst rfc_decode_update.simps) simp

lemma rfc_decode_update_step:
  "s \<noteq> [] \<Longrightarrow> rfc_decode_update rf s = do { (rf, s) \<leftarrow> status_tab (rf_status rf) rf s; rfc_decode_update rf s }"
  by (subst rfc_decode_update.simps) simp

lemma no_skip [simp]: "\<not> rf_strip rf \<Longrightarrow> rfc_skip rf s = (rf, s)"
  by (simp add: rfc_skip_def)

lemma set_entry_strip [simp]: "rf_strip (set_entry e rf) = rf_strip rf"
  by (simp add: set_entry_def split: option.split)

lemma push_entry_strip [simp]: "rf_strip (push_entry e rf) = rf_strip rf"
  by (simp add: push_entry_def)

lemma data_step:
  assumes "\<not> rf_strip rf" "rf_status rf = Status_data"
  shows "rfc_decode_update rf s = do { (rf, s) \<leftarrow> data_loop rf s; rfc_decode_update rf s }"
  using assms by (cases "s = []") (simp_all add: data_loop.simps [of rf "[]"] rfc_decode_update_step status_data_def)

text \<open>Without the stripping the machine reads one byte after the other.\<close>

abbreviation new_entry :: rfc_entry where
  "new_entry \<equiv> \<lparr>re_data = [], re_charset = [], re_coding = 0\<rparr>"

lemma decode_next:
  assumes "\<not> rf_strip rf" "rf_status rf = Status_next"
  shows "rfc_decode_update rf (c # s) = rfc_decode_update
    (if c = 61 then (push_entry new_entry rf)\<lparr>rf_status := Status_equal_question\<rparr>
     else (push_entry (add_data c new_entry) rf)\<lparr>rf_status := Status_data\<rparr>) s"
  using assms by (simp add: rfc_decode_update_step status_next_def Let_def)

lemma decode_data:
  assumes "\<not> rf_strip rf" "rf_status rf = Status_data" "cur_entry rf = Some e"
  shows "rfc_decode_update rf (c # s) =
    (if \<not> 0 < sint (re_coding e) \<and> c = 61 then rfc_decode_update (rf\<lparr>rf_status := Status_next\<rparr>) (c # s)
     else rfc_decode_update
       (if 0 < sint (re_coding e) \<and> c = 63 then rf\<lparr>rf_status := Status_question_equal\<rparr>
        else set_entry (add_data c e) rf) s)"
  using assms data_step [of "set_entry (add_data c e) rf" s]
  by (simp add: data_step [of rf] data_loop.simps [of rf])

lemma decode_equal_question:
  assumes "\<not> rf_strip rf" "rf_status rf = Status_equal_question" "cur_entry rf = Some e"
  shows "rfc_decode_update rf (c # s) = rfc_decode_update
    (if c = 63 then rf\<lparr>rf_status := Status_charset\<rparr>
     else (set_entry (add_data c (add_data 61 e)) rf)\<lparr>rf_status := Status_data\<rparr>) s"
  using assms by (simp add: rfc_decode_update_step status_equal_question_def)

lemma decode_charset:
  assumes "\<not> rf_strip rf" "rf_status rf = Status_charset" "cur_entry rf = Some e"
  shows "rfc_decode_update rf (c # s) = rfc_decode_update
    (if c \<noteq> 63 then set_entry (e\<lparr>re_charset := string_add_char (re_charset e) c\<rparr>) rf
     else if re_charset e = [] then (set_entry (e\<lparr>re_data := [61, 63, 63]\<rparr>) rf)\<lparr>rf_status := Status_data\<rparr>
     else rf\<lparr>rf_status := Status_question_first\<rparr>) s"
  using assms by (simp add: rfc_decode_update_step status_charset_def)

lemma decode_question_first:
  assumes "\<not> rf_strip rf" "rf_status rf = Status_question_first"
  shows "rfc_decode_update rf (c # s) = rfc_decode_update (rf\<lparr>rf_status := Status_coding\<rparr>) (c # s)"
  using assms by (simp add: rfc_decode_update_step [of _ rf] status_question_first_def)

lemma decode_coding:
  assumes "\<not> rf_strip rf" "rf_status rf = Status_coding" "cur_entry rf = Some e"
  shows "rfc_decode_update rf (c # s) = rfc_decode_update
    (if c = 66 \<or> c = 98 then (set_entry (e\<lparr>re_coding := 66\<rparr>) rf)\<lparr>rf_status := Status_question_second\<rparr>
     else if c = 81 \<or> c = 113 then (set_entry (e\<lparr>re_coding := 81\<rparr>) rf)\<lparr>rf_status := Status_question_second\<rparr>
     else set_entry (e\<lparr>re_data := re_data e @ [61, 63] @ cstr (re_charset e) @ [63], re_charset := [], re_coding := 0\<rparr>) rf) s"
  using assms by (simp add: rfc_decode_update_step status_coding_def)

lemma decode_question_second:
  assumes "\<not> rf_strip rf" "rf_status rf = Status_question_second" "cur_entry rf = Some e"
  shows "rfc_decode_update rf (c # s) = rfc_decode_update
    (if c = 63 then rf\<lparr>rf_status := Status_data\<rparr>
     else (set_entry (add_data c (e\<lparr>re_data := re_data e @ [61, 63] @ cstr (re_charset e),
       re_charset := [], re_coding := 0\<rparr>)) rf)\<lparr>rf_status := Status_data\<rparr>) s"
  using assms by (simp add: rfc_decode_update_step status_question_second_def)

lemma decode_question_equal:
  assumes "\<not> rf_strip rf" "rf_status rf = Status_question_equal" "cur_entry rf = Some e"
  shows "rfc_decode_update rf (c # s) = rfc_decode_update
    (if c = 61 then rf\<lparr>rf_status := Status_next, rf_cur := None\<rparr>
     else (set_entry (add_data c (e\<lparr>re_data := [61, 63] @ cstr (re_charset e) @ [63] @
       string_add_char [] (re_coding e) @ [63] @ cstr (re_data e) @ [63]\<rparr>)) rf)\<lparr>rf_status := Status_data\<rparr>) s"
  using assms by (simp add: rfc_decode_update_step status_question_equal_def)

lemmas decode_reads = decode_next decode_data decode_equal_question decode_charset decode_question_first
  decode_coding decode_question_second decode_question_equal

lemma rfc_decode_one:
  assumes "\<not> rf_strip rf" "rfc_ok rf"
  obtains rf1 where "\<not> rf_strip rf1" "rfc_ok rf1" "\<And>s. rfc_decode_update rf (c # s) = rfc_decode_update rf1 s"
proof -
  let ?read = "\<lambda>rf. \<exists>rf1. \<not> rf_strip rf1 \<and> (\<forall>s. rfc_decode_update rf (c # s) = rfc_decode_update rf1 s)"
  have read: "?read rf" if "\<And>s. rfc_decode_update rf (c # s) = rfc_decode_update rf1 s" "\<not> rf_strip rf1" for rf rf1
    using that by blast
  have next_read: "?read rf" if "\<not> rf_strip rf" "rf_status rf = Status_next" for rf
    by (rule read, rule decode_next [OF that]) (use that in simp)
  have coding_read: "?read rf" if "\<not> rf_strip rf" "rf_status rf = Status_coding" "cur_entry rf = Some e" for rf e
    by (rule read, rule decode_coding [OF that]) (use that in simp)
  have "?read rf"
  proof (cases "rf_status rf = Status_next")
    case True
    then show ?thesis using next_read assms(1) by blast
  next
    case False
    then obtain e where e: "cur_entry rf = Some e" using rfc_ok_cur [OF assms(2)] by blast
    show ?thesis
    proof (cases "rf_status rf")
      case Status_data
      show ?thesis
      proof (cases "\<not> 0 < sint (re_coding e) \<and> c = 61")
        case True
        then show ?thesis
          using next_read [of "rf\<lparr>rf_status := Status_next\<rparr>"] decode_data [OF assms(1) Status_data e, of c] assms(1)
          by simp
      next
        case False
        then have "rfc_decode_update rf (c # s) = rfc_decode_update
            (if 0 < sint (re_coding e) \<and> c = 63 then rf\<lparr>rf_status := Status_question_equal\<rparr>
             else set_entry (add_data c e) rf) s" for s
          using decode_data [OF assms(1) Status_data e, of c s] by (simp only: if_False)
        from read [OF this] show ?thesis using assms(1) by simp
      qed
    next
      case Status_question_first
      then show ?thesis
        using coding_read [of "rf\<lparr>rf_status := Status_coding\<rparr>" e] assms(1) e
          decode_question_first [OF assms(1), of c]
        by (simp add: cur_entry_def)
    next
      case Status_coding
      then show ?thesis using coding_read assms(1) e by blast
    next
      case Status_equal_question
      show ?thesis by (rule read, rule decode_equal_question [OF assms(1) Status_equal_question e]) (use assms in simp)
    next
      case Status_charset
      show ?thesis by (rule read, rule decode_charset [OF assms(1) Status_charset e]) (use assms in simp)
    next
      case Status_question_second
      show ?thesis by (rule read, rule decode_question_second [OF assms(1) Status_question_second e]) (use assms in simp)
    next
      case Status_question_equal
      show ?thesis by (rule read, rule decode_question_equal [OF assms(1) Status_question_equal e]) (use assms in simp)
    qed (use False in simp)
  qed
  then obtain rf1 where rf1: "\<not> rf_strip rf1" "\<And>s. rfc_decode_update rf (c # s) = rfc_decode_update rf1 s" by blast
  with rfc_decode_update_ends [OF assms(2), of "[c]"] show thesis by (auto intro: that)
qed

lemma rfc_decode_append:
  "\<not> rf_strip rf \<Longrightarrow> rfc_ok rf \<Longrightarrow>
   rfc_decode_update rf (xs @ ys) = do { rf \<leftarrow> rfc_decode_update rf xs; rfc_decode_update rf ys }"
proof (induction xs arbitrary: rf)
  case (Cons c xs)
  from rfc_decode_one [OF Cons.prems, of c] obtain rf1 where
    "\<not> rf_strip rf1" "rfc_ok rf1" "\<And>s. rfc_decode_update rf (c # s) = rfc_decode_update rf1 s" by blast
  with Cons.IH show ?case by simp
qed simp

lemma rfc_decode_strip:
  "\<not> rf_strip rf \<Longrightarrow> rfc_ok rf \<Longrightarrow> rfc_decode_update rf s = Some rf1 \<Longrightarrow> \<not> rf_strip rf1"
proof (induction s arbitrary: rf)
  case (Cons c s)
  from rfc_decode_one [OF Cons.prems(1,2), of c] obtain rf2 where
    "\<not> rf_strip rf2" "rfc_ok rf2" "\<And>s. rfc_decode_update rf (c # s) = rfc_decode_update rf2 s" by blast
  with Cons.IH [of rf2] Cons.prems show ?case by simp
qed simp

fun rfc_decode_pieces :: "byte list list \<Rightarrow> rfc2047 \<Rightarrow> rfc2047 option" where
  "rfc_decode_pieces [] rf = Some rf"
| "rfc_decode_pieces (p # ps) rf = do { rf \<leftarrow> rfc_decode_update rf p; rfc_decode_pieces ps rf }"

lemma rfc_decode_pieces_whole:
  "\<not> rf_strip rf \<Longrightarrow> rfc_ok rf \<Longrightarrow> rfc_decode_pieces ps rf = rfc_decode_update rf (concat ps)"
proof (induction ps arbitrary: rf)
  case (Cons p ps)
  from rfc_decode_update_ends [OF Cons.prems(2), of p] obtain rf1 where
    "rfc_decode_update rf p = Some rf1" "rfc_ok rf1" by blast
  with Cons rfc_decode_strip [OF Cons.prems, of p] show ?case by (simp add: rfc_decode_append)
qed simp

section \<open>An encoded word\<close>

definition rfc_at :: "rfc2047 \<Rightarrow> rfc_entry list \<Rightarrow> rfc_entry \<Rightarrow> rfc_status \<Rightarrow> rfc2047" where
  "rfc_at rf es e st = rf\<lparr>rf_list := es @ [e], rf_cur := Some (length es), rf_status := st\<rparr>"

lemma rfc_at_simps [simp]:
  "cur_entry (rfc_at rf es e st) = Some e" "set_entry e1 (rfc_at rf es e st) = rfc_at rf es e1 st"
  "(rfc_at rf es e st)\<lparr>rf_status := st1\<rparr> = rfc_at rf es e st1" "rf_status (rfc_at rf es e st) = st"
  "rf_strip (rfc_at rf es e st) = rf_strip rf"
  by (simp_all add: rfc_at_def cur_entry_def set_entry_def)

lemma push_entry_at: "(push_entry e rf)\<lparr>rf_status := st\<rparr> = rfc_at rf (rf_list rf) e st"
  by (simp add: push_entry_def rfc_at_def)

lemma decode_charset_name:
  assumes "\<not> rf_strip rf" "63 \<notin> set cs" "no_nul cs"
  shows "rfc_decode_update (rfc_at rf es e Status_charset) (cs @ s) =
    rfc_decode_update (rfc_at rf es (e\<lparr>re_charset := re_charset e @ cs\<rparr>) Status_charset) s"
  using assms(2,3)
proof (induction cs arbitrary: e)
  case (Cons c cs)
  then show ?case using assms(1) by (simp add: decode_charset string_add_char_def)
qed simp

lemma decode_word_data:
  assumes "\<not> rf_strip rf" "0 < sint (re_coding e)" "63 \<notin> set bs" "no_nul bs"
  shows "rfc_decode_update (rfc_at rf es e Status_data) (bs @ s) =
    rfc_decode_update (rfc_at rf es (e\<lparr>re_data := re_data e @ bs\<rparr>) Status_data) s"
  using assms(2-4)
proof (induction bs arbitrary: e)
  case (Cons c bs)
  then show ?case using assms(1) by (simp add: decode_data add_data_def string_add_char_def)
qed simp

text \<open>The text of a word, and the entry it gives.\<close>

definition word_text :: "byte list \<Rightarrow> byte \<Rightarrow> byte list \<Rightarrow> byte list" where
  "word_text cs ch bs = [61, 63] @ cs @ [63, ch, 63] @ bs @ [63, 61]"

definition charset_name :: "byte list \<Rightarrow> bool" where
  "charset_name cs \<longleftrightarrow> cs \<noteq> [] \<and> 63 \<notin> set cs \<and> no_nul cs"

lemma decode_word_text:
  assumes "\<not> rf_strip rf" "rf_status rf = Status_next" "charset_name cs" "ch \<in> {66, 81}" "63 \<notin> set bs" "no_nul bs"
  shows "rfc_decode_update rf (word_text cs ch bs @ s) =
    rfc_decode_update (rf\<lparr>rf_list := rf_list rf @ [\<lparr>re_data = bs, re_charset = cs, re_coding = ch\<rparr>], rf_cur := None\<rparr>) s"
proof -
  have sint: "0 < sint ch" using assms(4) by auto
  have last: "(rfc_at rf es e Status_next)\<lparr>rf_cur := None\<rparr> =
      rf\<lparr>rf_list := es @ [e], rf_cur := None\<rparr>" for es e
    using assms(2) by (simp add: rfc_at_def)
  show ?thesis
    using assms sint
    by (simp add: word_text_def charset_name_def decode_next push_entry_at decode_equal_question decode_charset_name)
      (auto simp: decode_charset decode_question_first decode_coding decode_question_second decode_word_data decode_data
        decode_question_equal last)
qed

end
