(* ===== verification/CharsetRun.thy ===== *)
theory CharsetRun
  imports CharsetConv "HOL-Library.Sublist"
begin

text \<open>
  What the converter makes of a text, over an \<^verbatim>\<open>iconv\<close> that keeps to its manual for an encoding
  without shift states, and the proof that it does not depend on the pieces the text comes in.
\<close>

section \<open>The documented behaviour of iconv\<close>

text \<open>
  What a non-empty text begins with: a character of so many bytes and its conversion, a character
  of which bytes are missing, or an invalid sequence.
\<close>

datatype ic_char = Conv nat "byte list" | Incomplete | Invalid

definition chars_ok :: "(byte list \<Rightarrow> ic_char) \<Rightarrow> bool" where
  "chars_ok one \<longleftrightarrow> (\<forall>bs. bs \<noteq> [] \<longrightarrow>
     (\<forall>n c. one bs = Conv n c \<longrightarrow> 0 < n \<and> n \<le> length bs \<and> c \<noteq> [] \<and> (\<forall>ys. one (bs @ ys) = Conv n c)) \<and>
     (one bs = Invalid \<longrightarrow> (\<forall>ys. one (bs @ ys) = Invalid)))"

lemma chars_okD:
  assumes "chars_ok one" "bs \<noteq> []"
  shows "one bs = Conv n c \<Longrightarrow> 0 < n \<and> n \<le> length bs \<and> c \<noteq> []"
    "one bs = Conv n c \<Longrightarrow> one (bs @ ys) = Conv n c"
    "one bs = Invalid \<Longrightarrow> one (bs @ ys) = Invalid"
  using assms by (auto simp: chars_ok_def)

text \<open>The first \<open>k\<close> bytes of a text are characters, and \<open>w\<close> is their conversion.\<close>

inductive converts :: "(byte list \<Rightarrow> ic_char) \<Rightarrow> byte list \<Rightarrow> nat \<Rightarrow> byte list \<Rightarrow> bool" for one where
  none: "converts one bs 0 []"
| more: "bs \<noteq> [] \<Longrightarrow> one bs = Conv n c \<Longrightarrow> converts one (drop n bs) k w \<Longrightarrow> converts one bs (n + k) (c @ w)"

text \<open>
  The manual: the call converts characters until the input is used up, an invalid or incomplete
  sequence is met or the output has no room for the next character, and says which.
\<close>

definition iconv_lawful :: "'h iconv \<Rightarrow> (byte list \<Rightarrow> ic_char) \<Rightarrow> bool" where
  "iconv_lawful ic one \<longleftrightarrow>
     (\<forall>h buf room h1 k w res. buf \<noteq> [] \<longrightarrow> ic_run ic h buf room = (h1, k, w, res) \<longrightarrow>
        converts one buf k w \<and> length w \<le> room \<and>
        (case res of
           Iconv_ok \<Rightarrow> k = length buf
         | Iconv_e2big \<Rightarrow> k < length buf \<and> (\<exists>n c. one (drop k buf) = Conv n c \<and> room < length w + length c)
         | Iconv_eilseq \<Rightarrow> k < length buf \<and> one (drop k buf) = Invalid
         | Iconv_einval \<Rightarrow> k < length buf \<and> one (drop k buf) = Incomplete
         | Iconv_error \<Rightarrow> False))"

section \<open>The conversion of a text\<close>

text \<open>The output, and the bytes at the end that are not a whole character.\<close>

function conv_spec :: "(byte list \<Rightarrow> ic_char) \<Rightarrow> bool \<Rightarrow> byte list \<Rightarrow> byte list \<times> byte list" where
  "conv_spec one v bs =
     (if bs = [] then ([], [])
      else case one bs of
        Conv n c \<Rightarrow> if n = 0 then ([], bs) else (case conv_spec one v (drop n bs) of (w, r) \<Rightarrow> (c @ w, r))
      | Incomplete \<Rightarrow> ([], bs)
      | Invalid \<Rightarrow> (case conv_spec one v (drop 1 bs) of (w, r) \<Rightarrow> (string_add_char [] (if v then hd bs else 0) @ w, r)))"
  by pat_completeness auto
termination by (relation "measure (\<lambda>(_, _, bs). length bs)") auto

declare conv_spec.simps [simp del]

lemma conv_spec_Nil [simp]: "conv_spec one v [] = ([], [])"
  by (simp add: conv_spec.simps)

lemma conv_spec_char:
  "bs \<noteq> [] \<Longrightarrow> one bs = Conv n c \<Longrightarrow> 0 < n \<Longrightarrow>
   conv_spec one v bs = (case conv_spec one v (drop n bs) of (w, r) \<Rightarrow> (c @ w, r))"
  by (subst conv_spec.simps) simp

lemma conv_spec_incomplete: "bs \<noteq> [] \<Longrightarrow> one bs = Incomplete \<Longrightarrow> conv_spec one v bs = ([], bs)"
  by (subst conv_spec.simps) simp

lemma conv_spec_invalid:
  "bs \<noteq> [] \<Longrightarrow> one bs = Invalid \<Longrightarrow>
   conv_spec one v bs = (case conv_spec one v (drop 1 bs) of (w, r) \<Rightarrow> (string_add_char [] (if v then hd bs else 0) @ w, r))"
  by (subst conv_spec.simps) simp

lemma conv_spec_converts:
  assumes "converts one bs k w" "chars_ok one"
  shows "k \<le> length bs" "(w = []) = (k = 0)"
    "conv_spec one v bs = (case conv_spec one v (drop k bs) of (w', r) \<Rightarrow> (w @ w', r))"
  using assms(1)
proof (induction rule: converts.induct)
  case (more bs n c k w)
  { case 1 then show ?case using more chars_okD(1) [OF assms(2) more.hyps(1,2)] by fastforce }
  { case 2 then show ?case using more chars_okD(1) [OF assms(2) more.hyps(1,2)] by fastforce }
  { case 3 then show ?case
      using more chars_okD(1) [OF assms(2) more.hyps(1,2)]
      by (simp add: conv_spec_char [of bs one n c] add.commute split: prod.split) }
qed (auto split: prod.split)

lemma conv_spec_append:
  assumes "chars_ok one"
  shows "conv_spec one v (xs @ ys) =
    (case conv_spec one v xs of (w, r) \<Rightarrow> case conv_spec one v (r @ ys) of (w', r') \<Rightarrow> (w @ w', r'))"
proof (induction xs rule: measure_induct_rule [of length])
  case (less xs)
  show ?case
  proof (cases "xs = []")
    case False
    show ?thesis
    proof (cases "one xs")
      case (Conv n c)
      with chars_okD [OF assms False] have n: "0 < n" "n \<le> length xs" "one (xs @ ys) = Conv n c" by auto
      with False less [of "drop n xs"] Conv show ?thesis
        by (auto simp: conv_spec_char [of _ one n c] split: prod.split)
    next
      case Incomplete
      with False show ?thesis by (simp add: conv_spec_incomplete split: prod.split)
    next
      case Invalid
      from False obtain x zs where xs: "xs = x # zs" by (cases xs) auto
      from Invalid chars_okD(3) [OF assms False] less [of zs] show ?thesis
        by (auto simp: xs conv_spec_invalid [of _ one] split: prod.split)
    qed
  qed (simp split: prod.split)
qed

section \<open>The loop\<close>

lemma string_add_char_append: "string_add_char (xs @ ys) c = xs @ string_add_char ys c"
  by (simp add: string_add_char_def)

lemma string_add_char_0 [simp]: "string_add_char xs 0 = xs"
  by (simp add: string_add_char_def)

lemma conv_loop_spec:
  assumes "iconv_lawful ic one" "chars_ok one" "0 < room"
  shows "\<exists>h1 room1. conv_loop ic v src h buf room out =
    Some (h1, snd (conv_spec one v buf), room1, out @ fst (conv_spec one v buf)) \<and> 0 < room1"
  using assms(3)
proof (induction "(length buf, case one buf of Conv _ c \<Rightarrow> length c - room | _ \<Rightarrow> 0)" arbitrary: h buf room out
    rule: wf_induct_rule [OF wf_lex_prod [OF wf_less_than wf_less_than]])
  case 1
  show ?case
  proof (cases "buf = []")
    case True
    then show ?thesis using 1(2) by (subst conv_loop.simps) auto
  next
    case False
    obtain h1 k w res where run: "ic_run ic h buf room = (h1, k, w, res)" by (metis prod_cases4)
    with assms(1) False have law: "converts one buf k w" "length w \<le> room"
      "case res of Iconv_ok \<Rightarrow> k = length buf
         | Iconv_e2big \<Rightarrow> k < length buf \<and> (\<exists>n c. one (drop k buf) = Conv n c \<and> room < length w + length c)
         | Iconv_eilseq \<Rightarrow> k < length buf \<and> one (drop k buf) = Invalid
         | Iconv_einval \<Rightarrow> k < length buf \<and> one (drop k buf) = Incomplete
         | Iconv_error \<Rightarrow> False"
      by (auto simp: iconv_lawful_def)
    note conv = conv_spec_converts [OF law(1) assms(2)]
    obtain w' r where rest: "conv_spec one v (drop k buf) = (w', r)" by (metis prod.exhaust)
    have spec: "conv_spec one v buf = (w @ w', r)" using conv(3) [of v] rest by simp
    show ?thesis
    proof (cases res)
      case Iconv_ok
      with law conv False rest have "w \<noteq> []" "w' = []" "r = []" by auto
      with Iconv_ok show ?thesis using run False 1(2) by (subst conv_loop.simps) (simp add: spec)
    next
      case Iconv_e2big
      then obtain n c where c: "k < length buf" "one (drop k buf) = Conv n c" "room < length w + length c"
        using law by auto
      have room: "0 < vstring_space room (room * 2)" "room < vstring_space room (room * 2)"
        using 1(2) by (auto simp: vstring_space_def)
      define buf1 where "buf1 = (if 0 < k \<and> k < length buf then drop k buf else buf)"
      have buf1: "buf1 = drop k buf" using c by (auto simp: buf1_def)
      have "((length buf1, case one buf1 of Conv _ c \<Rightarrow> length c - vstring_space room (room * 2) | _ \<Rightarrow> 0),
          (length buf, case one buf of Conv _ c \<Rightarrow> length c - room | _ \<Rightarrow> 0)) \<in> less_than <*lex*> less_than"
        using c room(2) False conv(2) by (cases "k = 0") (auto simp: buf1)
      from 1(1) [OF this room(1), of h1 "out @ w"]
      obtain h2 room2 where "conv_loop ic v src h1 buf1 (vstring_space room (room * 2)) (out @ w) =
          Some (h2, snd (conv_spec one v buf1), room2, (out @ w) @ fst (conv_spec one v buf1)) \<and> 0 < room2"
        by auto
      then show ?thesis
        using run False Iconv_e2big by (subst conv_loop.simps) (simp add: buf1_def [symmetric] spec, simp add: buf1 rest)
    next
      case Iconv_eilseq
      then have k: "k < length buf" "one (drop k buf) = Invalid" using law by auto
      obtain w2 r2 where rest2: "conv_spec one v (drop (k + 1) buf) = (w2, r2)" by (metis prod.exhaust)
      have w': "w' = string_add_char [] (if v then buf ! k else 0) @ w2" "r = r2"
        using rest rest2 k by (auto simp: conv_spec_invalid hd_drop_conv_nth)
      have "((length (drop (k + 1) buf), case one (drop (k + 1) buf) of Conv _ c \<Rightarrow> length c - room | _ \<Rightarrow> 0),
          (length buf, case one buf of Conv _ c \<Rightarrow> length c - room | _ \<Rightarrow> 0)) \<in> less_than <*lex*> less_than"
        using k by auto
      from 1(1) [OF this 1(2), of "ic_reset ic h1" "if v then string_add_char (out @ w) (buf ! k) else out @ w"]
      obtain h2 room2 where "conv_loop ic v src (ic_reset ic h1) (drop (k + 1) buf) room
          (if v then string_add_char (out @ w) (buf ! k) else out @ w) =
          Some (h2, r2, room2, (if v then string_add_char (out @ w) (buf ! k) else out @ w) @ w2) \<and> 0 < room2"
        using rest2 by auto
      then show ?thesis
        using run False Iconv_eilseq k w'
        by (subst conv_loop.simps) (simp add: spec string_add_char_append string_add_char_def)
    next
      case Iconv_einval
      then have k: "k < length buf" "one (drop k buf) = Incomplete" using law by auto
      with rest have "w' = []" "r = drop k buf" by (auto simp: conv_spec_incomplete)
      with Iconv_einval show ?thesis using run False 1(2) by (subst conv_loop.simps) (simp add: spec)
    next
      case Iconv_error
      with law show ?thesis by simp
    qed
  qed
qed

section \<open>Updates\<close>

definition MARK :: "byte list" where "MARK = [0xEF, 0xBB, 0xBF]"

lemma header_simps [simp]:
  "UTF8_HEADER ! 0 = 0xEF" "UTF8_HEADER ! Suc 0 = 0xBB" "UTF8_HEADER ! 2 = 0xBF" "UTF8_HEADER ! 3 = 0"
  "UTF8_HEADER ! Suc (Suc 0) = 0xBF" "UTF8_HEADER ! Suc (Suc (Suc 0)) = 0"
  by (simp_all add: UTF8_HEADER_def numeral_2_eq_2 numeral_3_eq_3)

lemma header_end: "p \<le> 3 \<Longrightarrow> UTF8_HEADER ! p = 0 \<longleftrightarrow> p = 3"
proof -
  assume "p \<le> 3"
  then have "p \<in> {0, Suc 0, 2, 3}" by auto
  then show ?thesis by auto
qed

lemma pass_mark_end [simp]: "pass_mark 3 bs = (3, bs)"
  by (cases bs) auto

lemma pass_mark_stops: "p \<le> 3 \<Longrightarrow> pass_mark p bs = (q, r) \<Longrightarrow> q \<le> 3 \<and> (r \<noteq> [] \<longrightarrow> q = 3)"
proof (induction p bs rule: pass_mark.induct)
  case (2 p c cs)
  then show ?case by (cases "p = 3") (auto simp: header_end split: if_splits)
qed auto

lemma pass_mark_append:
  "p \<le> 3 \<Longrightarrow> pass_mark p (xs @ ys) = (case pass_mark p xs of (q, r) \<Rightarrow> if r = [] then pass_mark q ys else (q, r @ ys))"
proof (induction p xs rule: pass_mark.induct)
  case (2 p c cs)
  then show ?case by (cases "p = 3") (auto simp: header_end)
qed auto

lemma pass_mark_rest: "p \<le> 3 \<Longrightarrow> snd (pass_mark p bs) = drop (length (longest_common_prefix (drop p MARK) bs)) bs"
proof (induction p bs rule: pass_mark.induct)
  case (2 p c cs)
  have "p \<in> {0, Suc 0, 2, 3}" using 2(2) by auto
  then show ?case using 2(1) by (auto simp: header_end MARK_def)
qed (auto simp: MARK_def)

definition conv_at :: "(byte list \<Rightarrow> ic_char) \<Rightarrow> bool \<Rightarrow> nat \<Rightarrow> byte list \<Rightarrow> 'h charset_conv \<Rightarrow> bool" where
  "conv_at one v p text cv \<longleftrightarrow>
     \<not> strcaseeq (cc_from cv) (cc_to cv) \<and> cc_iconv cv \<noteq> None \<and> cc_add_invalid cv = v \<and> cc_out_size cv \<noteq> Some 0 \<and>
     cc_utf8_pre cv = Some (fst (pass_mark p text)) \<and> cc_in_buf cv = snd (conv_spec one v (snd (pass_mark p text)))"

lemma vstring_space_pos [simp]: "0 < len \<Longrightarrow> 0 < vstring_space len n"
  by (auto simp: vstring_space_def)

lemma conv_update_at:
  assumes "iconv_lawful ic one" "chars_ok one" "conv_at one v p text cv" "p \<le> 3"
  shows "\<exists>cv' w. conv_update ic inp cv out = Some (cv', out @ w, True) \<and> conv_at one v p (text @ inp) cv' \<and>
    fst (conv_spec one v (snd (pass_mark p (text @ inp)))) = fst (conv_spec one v (snd (pass_mark p text))) @ w"
proof -
  obtain q r where q: "pass_mark p text = (q, r)" by fastforce
  obtain q1 r1 where q1: "pass_mark q inp = (q1, r1)" by fastforce
  have q3: "q \<le> 3" "r \<noteq> [] \<Longrightarrow> q = 3" using pass_mark_stops [OF assms(4) q] by auto
  have q13: "q1 \<le> 3" "r1 \<noteq> [] \<Longrightarrow> q1 = 3" using pass_mark_stops [OF q3(1) q1] by auto
  have both: "pass_mark p (text @ inp) = (q1, r @ r1)"
    using pass_mark_append [OF assms(4), of "text" inp] q q1 q3 by (cases "r = []") auto
  obtain h where cv: "\<not> strcaseeq (cc_from cv) (cc_to cv)" "cc_iconv cv = Some h" "cc_add_invalid cv = v"
    "cc_out_size cv \<noteq> Some 0" "cc_utf8_pre cv = Some q" "cc_in_buf cv = snd (conv_spec one v r)"
    using assms(3) q by (auto simp: conv_at_def)
  have pass: "(if UTF8_HEADER ! q \<noteq> 0 then pass_mark q inp else (q, inp)) = (q1, r1)"
    using q1 q3 by (auto simp: header_end)
  show ?thesis
  proof (cases "r1 = []")
    case True
    then have "conv_update ic inp cv out = Some (cv\<lparr>cc_utf8_pre := Some q1\<rparr>, out, True)"
      using cv pass by (simp add: conv_update_def)
    then show ?thesis using True both cv q by (auto simp: conv_at_def)
  next
    case False
    define room where "room = (case cc_out_size cv of None \<Rightarrow> length r1 | Some s \<Rightarrow> vstring_space s (length r1))"
    have room: "0 < room" using False cv(4) by (auto simp: room_def split: option.split)
    let ?buf = "snd (conv_spec one v r) @ r1"
    obtain h1 room1 where loop: "conv_loop ic v r1 h ?buf room out =
        Some (h1, snd (conv_spec one v ?buf), room1, out @ fst (conv_spec one v ?buf))" "0 < room1"
      using conv_loop_spec [OF assms(1,2) room] by blast
    have "conv_update ic inp cv out = Some (cv\<lparr>cc_utf8_pre := Some q1, cc_iconv := Some h1,
        cc_in_buf := snd (conv_spec one v ?buf), cc_out_size := Some room1\<rparr>, out @ fst (conv_spec one v ?buf), True)"
      using cv pass False q13 loop(1) by (simp add: conv_update_def room_def)
    moreover have "snd (conv_spec one v (r @ r1)) = snd (conv_spec one v ?buf)"
      "fst (conv_spec one v (r @ r1)) = fst (conv_spec one v r) @ fst (conv_spec one v ?buf)"
      using conv_spec_append [OF assms(2), of v r r1] by (simp_all split: prod.splits)
    ultimately show ?thesis using loop(2) both cv(1,3) q by (simp add: conv_at_def)
  qed
qed

text \<open>The updates for the pieces of a text.\<close>

fun conv_pieces ::
  "'h iconv \<Rightarrow> byte list list \<Rightarrow> 'h charset_conv \<Rightarrow> byte list \<Rightarrow> ('h charset_conv \<times> byte list \<times> bool) option" where
  "conv_pieces ic [] cv out = Some (cv, out, True)"
| "conv_pieces ic (p # ps) cv out = do {
     (cv, out, ok) \<leftarrow> conv_update ic p cv out;
     if ok then conv_pieces ic ps cv out else Some (cv, out, False)
   }"

lemma conv_pieces_at:
  assumes "iconv_lawful ic one" "chars_ok one" "p \<le> 3" "conv_at one v p text cv"
  shows "\<exists>cv' w. conv_pieces ic ps cv out = Some (cv', out @ w, True) \<and> conv_at one v p (text @ concat ps) cv' \<and>
    fst (conv_spec one v (snd (pass_mark p (text @ concat ps)))) = fst (conv_spec one v (snd (pass_mark p text))) @ w"
  using assms(4)
proof (induction ps arbitrary: "text" cv out)
  case (Cons b ps)
  obtain cv1 w1 where 1: "conv_update ic b cv out = Some (cv1, out @ w1, True)" "conv_at one v p (text @ b) cv1"
    "fst (conv_spec one v (snd (pass_mark p (text @ b)))) = fst (conv_spec one v (snd (pass_mark p text))) @ w1"
    using conv_update_at [OF assms(1,2) Cons.prems assms(3), of b out] by blast
  obtain cv2 w2 where 2: "conv_pieces ic ps cv1 (out @ w1) = Some (cv2, (out @ w1) @ w2, True)"
    "conv_at one v p ((text @ b) @ concat ps) cv2"
    "fst (conv_spec one v (snd (pass_mark p ((text @ b) @ concat ps)))) =
       fst (conv_spec one v (snd (pass_mark p (text @ b)))) @ w2"
    using Cons.IH [OF 1(2), of "out @ w1"] by blast
  show ?case using 1 2 by (intro exI [of _ cv2] exI [of _ "w1 @ w2"]) simp
qed simp

text \<open>What a text is to the converter: a UTF-8 text loses what it has in common with the mark.\<close>

definition conv_text :: "byte list \<Rightarrow> byte list \<Rightarrow> byte list" where
  "conv_text from bs = (if is_utf8 from then drop (length (longest_common_prefix MARK bs)) bs else bs)"

lemma update_begin_at:
  assumes "update_begin ic (Some from) (Some to) cv = (cv1, True)" "cc_iconv cv = None" "cc_in_buf cv = []"
    "cc_out_size cv \<noteq> Some 0" "\<not> strcaseeq from to" "\<not> strcaseeq (scopy32 from) (scopy32 to)"
  shows "conv_at one (cc_add_invalid cv) (if is_utf8 from then 0 else 3) [] cv1"
  using assms by (auto simp: update_begin_def conv_at_def Let_def split: option.splits if_splits)

lemma conv_text_pass: "snd (pass_mark (if is_utf8 from then 0 else 3) bs) = conv_text from bs"
  by (simp add: conv_text_def pass_mark_rest) (simp add: MARK_def)

lemma conv_text_Nil [simp]: "conv_text from [] = []"
  by (simp add: conv_text_def)

abbreviation mark_from :: "byte list \<Rightarrow> nat" where
  "mark_from from \<equiv> if is_utf8 from then 0 else 3"

lemma conv_text_update:
  assumes "iconv_lawful ic one" "chars_ok one" "conv_at one v (mark_from from) bs cv"
  shows "\<exists>cv' w. conv_update ic inp cv out = Some (cv', out @ w, True) \<and> conv_at one v (mark_from from) (bs @ inp) cv' \<and>
    fst (conv_spec one v (conv_text from (bs @ inp))) = fst (conv_spec one v (conv_text from bs)) @ w"
  using conv_update_at [OF assms(1,2,3), of inp out] unfolding conv_text_pass by simp

lemma conv_text_pieces:
  assumes "iconv_lawful ic one" "chars_ok one" "conv_at one v (mark_from from) [] cv"
  shows "\<exists>cv'. conv_pieces ic ps cv out = Some (cv', out @ fst (conv_spec one v (conv_text from (concat ps))), True) \<and>
    conv_at one v (mark_from from) (concat ps) cv'"
  using conv_pieces_at [OF assms(1,2) _ assms(3), of ps out] unfolding conv_text_pass by simp

lemma conv_text_finish:
  "conv_at one v (mark_from from) bs cv \<Longrightarrow>
   snd (update_finish cv out) = out @ (if v then snd (conv_spec one v (conv_text from bs)) else [])"
  by (auto simp: conv_at_def update_finish_def conv_text_pass)

lemma conv_at_fields:
  "conv_at one v (mark_from from) bs cv \<Longrightarrow> \<not> strcaseeq (cc_from cv) (cc_to cv)"
  "conv_at one v (mark_from from) bs cv \<Longrightarrow> cc_in_buf cv = snd (conv_spec one v (conv_text from bs))"
  by (auto simp: conv_at_def conv_text_pass)

end
