(* ===== verification/RfcWords.thy ===== *)
theory RfcWords
  imports Rfc2047Run MimeProperties CharsetRun
begin

text \<open>
  The encoder writes one word for its pieces, and the second pass over the entry of a word.
\<close>

section \<open>The text of a word\<close>

fun rfc_encode_pieces ::
  "byte list \<Rightarrow> byte \<Rightarrow> byte list list \<Rightarrow> rfc2047 \<Rightarrow> byte list \<Rightarrow> byte list option" where
  "rfc_encode_pieces cs coding [] rf out = map_option snd (rfc_encode_finish rf out)"
| "rfc_encode_pieces cs coding (x # xs) rf out = do {
     (rf, out, ok) \<leftarrow> rfc_encode_update x (Some cs) coding rf out;
     if ok then rfc_encode_pieces cs coding xs rf out else None
   }"

definition body_of :: "byte \<Rightarrow> bool \<Rightarrow> byte list list \<Rightarrow> byte list option" where
  "body_of ch crlf xss =
     (if ch = 66 then encode_pieces (mime_base64 crlf False) xss []
      else qp_encode_pieces (mime_qp_new crlf False) xss [])"

lemma to_lower_upper [simp]: "to_lower (to_upper c) = to_lower c"
  by (rule byte_all [where P = "\<lambda>c. to_lower (to_upper c) = to_lower c"]) code_simp

lemma upper_question: "to_upper c = 63 \<longleftrightarrow> c = 63" "to_upper c = 0 \<longleftrightarrow> c = 0"
proof -
  have "(to_upper c = 63 \<longleftrightarrow> c = 63) \<and> (to_upper c = 0 \<longleftrightarrow> c = 0)"
    by (auto simp: to_upper_def)
  then show "to_upper c = 63 \<longleftrightarrow> c = 63" "to_upper c = 0 \<longleftrightarrow> c = 0" by auto
qed

lemma charset_name_upper: "charset_name cs \<Longrightarrow> charset_name (map to_upper cs)"
  by (simp add: charset_name_def no_nul_def image_iff) (metis upper_question)

lemma charset_nameD: "charset_name cs \<Longrightarrow> cs \<noteq> [] \<and> cstr cs = cs"
  by (simp add: charset_name_def)

lemma strcaseeq_name: "charset_name cs \<Longrightarrow> strcaseeq (map to_upper cs) cs"
  using charset_nameD [of cs] charset_nameD [OF charset_name_upper, of cs] by (simp add: strcaseeq_def)

text \<open>The updates of a word that is open go to its coder.\<close>

lemma rfc_encode_more:
  assumes "cur_entry rf = Some \<lparr>re_data = d, re_charset = map to_upper cs, re_coding = to_upper coding\<rparr>"
    "rf_coder rf = Some m" "charset_name cs" "to_upper coding \<in> {66, 81}" "x \<noteq> []"
  shows "rfc_encode_update x (Some cs) coding rf out =
    map_option (\<lambda>(m, out). (rf\<lparr>rf_coder := Some m\<rparr>, out, True)) (rfc_coder_update m x out)"
  using assms charset_nameD [OF assms(3)] strcaseeq_name [OF assms(3)]
  by (cases "rf_cur rf"; cases "rfc_coder_update m x out") (auto simp: rfc_encode_update_def Let_def cur_entry_def)

fun coder_pieces :: "byte list list \<Rightarrow> rfc_coder \<Rightarrow> byte list \<Rightarrow> byte list option" where
  "coder_pieces [] m out = Some (snd (rfc_coder_finish m out))"
| "coder_pieces (x # xs) m out = do { (m, out) \<leftarrow> rfc_coder_update m x out; coder_pieces xs m out }"

lemma rfc_encode_pieces_open:
  assumes "cur_entry rf = Some \<lparr>re_data = d, re_charset = map to_upper cs, re_coding = to_upper coding\<rparr>"
    "rf_coder rf = Some m" "charset_name cs" "to_upper coding \<in> {66, 81}" "[] \<notin> set xss"
  shows "rfc_encode_pieces cs coding xss rf out = map_option (\<lambda>w. w @ [63, 61]) (coder_pieces xss m out)"
  using assms
proof (induction xss arbitrary: rf m out)
  case Nil
  then show ?case
    by (cases "rf_cur rf") (auto simp: rfc_encode_finish_def cur_entry_def split: prod.split)
next
  case (Cons x xs)
  have x: "x \<noteq> []" "[] \<notin> set xs" using Cons.prems(5) by auto
  note more = rfc_encode_more [OF Cons.prems(1-4) x(1), of out]
  show ?case
  proof (cases "rfc_coder_update m x out")
    case (Some mw)
    obtain m1 w where mw: "mw = (m1, w)" by fastforce
    have "cur_entry (rf\<lparr>rf_coder := Some m1\<rparr>) = Some \<lparr>re_data = d, re_charset = map to_upper cs, re_coding = to_upper coding\<rparr>"
      using Cons.prems(1) by (simp add: cur_entry_def)
    from Cons.IH [OF this _ Cons.prems(3,4) x(2), of m1 w] show ?thesis using more Some by (simp add: mw)
  qed (use more in simp)
qed

lemma rfc_encode_pieces_new:
  assumes "charset_name cs" "to_upper coding \<in> {66, 81}" "[] \<notin> set xss" "xss \<noteq> []"
  shows "rfc_encode_pieces cs coding xss (rfc_new strip crlf) out =
    map_option (\<lambda>w. w @ [63, 61]) (coder_pieces xss (rfc_coder_new (to_upper coding) crlf)
      (out @ [61, 63] @ map to_upper cs @ [63, to_upper coding, 63]))"
proof -
  obtain x xs where xss: "xss = x # xs" using assms(4) by (cases xss) auto
  let ?ch = "to_upper coding"
  define rf1 where "rf1 = fst (start_word cs ?ch (rfc_new strip crlf) out)"
  define out1 where "out1 = out @ [61, 63] @ map to_upper cs @ [63, ?ch, 63]"
  have rf1: "cur_entry rf1 = Some \<lparr>re_data = [], re_charset = map to_upper cs, re_coding = ?ch\<rparr>"
    "rf_coder rf1 = Some (rfc_coder_new ?ch crlf)"
    using charset_nameD [OF assms(1)]
    by (simp_all add: rf1_def start_word_def Let_def rfc_new_def push_entry_def cur_entry_def)
  have "start_word cs ?ch (rfc_new strip crlf) out = (rf1, out1)"
    using charset_nameD [OF assms(1)] by (simp add: rf1_def out1_def start_word_def Let_def)
  then have "rfc_encode_update x (Some cs) coding (rfc_new strip crlf) out = rfc_encode_update x (Some cs) coding rf1 out1"
    using assms xss charset_nameD [OF assms(1)] strcaseeq_name [OF assms(1)] rf1
    by (cases "rf_cur rf1")
      (auto simp: rfc_encode_update_def Let_def cur_entry_def rfc_new_def end_word_def)
  then have "rfc_encode_pieces cs coding xss (rfc_new strip crlf) out = rfc_encode_pieces cs coding xss rf1 out1"
    by (simp add: xss)
  then show ?thesis
    using rfc_encode_pieces_open [OF rf1 assms(1-3), of out1] by (simp add: out1_def)
qed

section \<open>The coders write no question mark of their own\<close>

lemma coder_pieces_base64: "coder_pieces xss (Coder_base64 m) out = encode_pieces m xss out"
proof (induction xss arbitrary: m out)
  case (Cons x xs)
  then show ?case by (cases "encode_update m x out") auto
qed (simp split: prod.split)

lemma coder_pieces_qp: "coder_pieces xss (Coder_qp m) out = qp_encode_pieces m xss out"
proof (induction xss arbitrary: m out)
  case (Cons x xs)
  then show ?case by (cases "qp_encode_update m x out") auto
qed (simp split: prod.split)

lemma b64_tab_clean: "i < 64 \<Longrightarrow> to_b64_tab ! i \<notin> {0, 63}"
proof -
  have "list_all (\<lambda>i. to_b64_tab ! i \<notin> {0, 63}) [0..<64]" by code_simp
  then show "i < 64 \<Longrightarrow> to_b64_tab ! i \<notin> {0, 63}" by (simp add: list_all_iff)
qed

lemma base64_clean: "set (mime_lines (mime_base64 crlf keep) bs) \<inter> {0, 63} = {}"
proof -
  note clean = sextets_small [THEN b64_tab_clean]
  have "set (encode_groups to_b64_tab 61 xs) \<inter> {0, 63} = {}" for xs
    by (induction to_b64_tab "61 :: byte" xs rule: encode_groups.induct) (use clean in auto)
  then have "set (mime_encode (mime_base64 crlf keep) xs) \<inter> {0, 63} = {}" for xs
    by (auto simp: mime_encode_def mime_base64_def mime_init_def mime_code_new_def CRLF_def)
  then show ?thesis
    by (induction "mime_base64 crlf keep" bs rule: mime_lines.induct) (subst mime_lines.simps, auto)
qed

lemma hexchars_clean: "i < 16 \<Longrightarrow> hexchars ! i \<notin> {0, 63}"
proof -
  have "list_all (\<lambda>i. hexchars ! i \<notin> {0, 63}) [0..<16]" by code_simp
  then show "i < 16 \<Longrightarrow> hexchars ! i \<notin> {0, 63}" by (simp add: list_all_iff)
qed

lemma qp_code_clean: "set (QP_ENCODE c) \<inter> {0, 63} = {}"
  by (rule byte_all [where P = "\<lambda>c. set (QP_ENCODE c) \<inter> {0, 63} = {}"]) code_simp

lemma qp_char_clean: "c \<noteq> 63 \<Longrightarrow> set (fst (qp_char c cs n)) \<inter> {0, 63} = {}"
  using qp_code_clean [of c] by (auto simp: qp_char_def)

lemma qp_soft_clean: "set (fst wn) \<inter> {0, 63} = {} \<Longrightarrow> set (fst (qp_soft crlf wn)) \<inter> {0, 63} = {}"
  by (auto simp: qp_soft_def QP_SOFT_LINE_def split: prod.splits)

lemma qp_loop_clean: "63 \<notin> set bs \<Longrightarrow> set (fst (qp_encode_loop crlf n bs)) \<inter> {0, 63} = {}"
proof (induction crlf n bs rule: qp_encode_loop.induct)
  case (2 crlf n c cs)
  then show ?case
    using qp_soft_clean [OF qp_char_clean [of c cs n], of crlf]
    by (cases "qp_soft crlf (qp_char c cs n)") (auto split: prod.splits)
qed simp

definition qp_clean :: "byte list \<times> byte list \<Rightarrow> bool" where
  "qp_clean s \<longleftrightarrow> 63 \<notin> set (fst s) \<and> set (snd s) \<inter> {0, 63} = {}"

lemma qp_push_clean: "qp_clean s \<Longrightarrow> b \<noteq> 63 \<Longrightarrow> qp_clean (push_byte 72 (qp_encode_loop crlf 0) b s)"
  using qp_loop_clean [of "fst s" crlf 0] qp_encode_rest [of crlf 0 "fst s"]
  by (cases s) (auto simp: qp_clean_def push_byte_def)

lemma qp_fold_clean: "qp_clean s \<Longrightarrow> 63 \<notin> set bs \<Longrightarrow> qp_clean (fold (push_byte 72 (qp_encode_loop crlf 0)) bs s)"
  by (induction bs arbitrary: s) (simp_all add: qp_push_clean)

lemma push_prefix:
  "fold (push_byte cap crunch) bs (buf, out0 @ out) =
   (case fold (push_byte cap crunch) bs (buf, out) of (b, w) \<Rightarrow> (b, out0 @ w))"
proof (induction bs arbitrary: buf out)
  case (Cons c bs)
  show ?case
    using Cons.IH [of "snd (crunch buf) @ [c]" "out @ fst (crunch buf)"] Cons.IH [of "buf @ [c]" out]
    by (simp add: push_byte_def)
qed simp

lemma qp_pieces_body:
  assumes "length (qp_encode_buf m) \<le> 72" "qp_clean (qp_encode_buf m, out)" "63 \<notin> set (concat xss)"
  shows "\<exists>w. qp_encode_pieces m xss out = Some w \<and> set w \<inter> {0, 63} = {} \<and>
    qp_encode_pieces m xss (out0 @ out) = Some (out0 @ w)"
  using assms
proof (induction xss arbitrary: m out)
  case Nil
  then show ?case
    using qp_loop_clean [of "qp_encode_buf m" "qp_crlf m" 0] qp_code_clean [of "hd (snd (qp_encode_loop (qp_crlf m) 0 (qp_encode_buf m)))"]
    by (auto simp: qp_encode_finish_def qp_clean_def split: prod.split)
next
  case (Cons x xs)
  obtain b w where f: "fold (push_byte 72 (qp_encode_loop (qp_crlf m) 0)) x (qp_encode_buf m, out) = (b, w)"
    by (metis prod.exhaust)
  have u: "qp_encode_update m x out = Some (m\<lparr>qp_encode_buf := b\<rparr>, w)"
    "qp_encode_update m x (out0 @ out) = Some (m\<lparr>qp_encode_buf := b\<rparr>, out0 @ w)"
    using Cons.prems(1) qp_enc.fill_loop_push [of "qp_encode_buf m" "qp_crlf m" x] f push_prefix [of 72 _ x _ out0 out]
    by (simp_all add: qp_encode_update_def)
  have "qp_clean (b, w)" "length b \<le> 72"
    using qp_fold_clean [OF Cons.prems(2), of x "qp_crlf m"] Cons.prems(1,3)
      qp_enc.push_keeps [of "(qp_encode_buf m, out)" "qp_crlf m" x] f by auto
  with Cons.IH [of "m\<lparr>qp_encode_buf := b\<rparr>" w] Cons.prems(3) u show ?case by simp
qed

text \<open>The text the encoder writes is that of one word; its body decodes to the input.\<close>

definition body_reads :: "byte \<Rightarrow> byte list \<Rightarrow> byte list \<Rightarrow> bool" where
  "body_reads ch body bs \<longleftrightarrow>
     (if ch = 81 then (\<forall>v. qp_decode_loop v body = (bs, []))
      else (\<forall>oob. fst (mime_decode oob (mime_base64 False False) body) = bs))"

lemma rfc_encode_word:
  assumes "charset_name cs" "to_upper coding \<in> {66, 81}" "[] \<notin> set xss" "xss \<noteq> []"
    and "to_upper coding = 81 \<longrightarrow> 63 \<notin> set (concat xss)"
  shows "\<exists>body. rfc_encode_pieces cs coding xss (rfc_new strip crlf) out =
      Some (out @ word_text (map to_upper cs) (to_upper coding) body) \<and>
    63 \<notin> set body \<and> no_nul body \<and> body_reads (to_upper coding) body (concat xss)"
proof (cases "to_upper coding = 81")
  case True
  define m where "m = mime_qp_new crlf False"
  have m: "length (qp_encode_buf m) \<le> 72" "qp_clean (qp_encode_buf m, [])" "qp_reads (qp_encode_buf m, []) []"
    by (simp_all add: m_def mime_qp_new_def qp_clean_def qp_reads_def)
  obtain w where w: "qp_encode_pieces m xss [] = Some w" "set w \<inter> {0, 63} = {}"
    "qp_encode_pieces m xss ((out @ [61, 63] @ map to_upper cs @ [63, 81, 63]) @ []) =
      Some ((out @ [61, 63] @ map to_upper cs @ [63, 81, 63]) @ w)"
    using qp_pieces_body [OF m(1,2)] assms(5) True by blast
  have "qp_decode_loop v w = (concat xss, [])" for v using qp_encode_pieces_reads [OF m(3), of xss] w(1) by simp
  with w rfc_encode_pieces_new [OF assms(1-4), of strip crlf out] True show ?thesis
    by (auto simp: rfc_coder_new_def coder_pieces_qp m_def [symmetric] word_text_def body_reads_def no_nul_def)
next
  case False
  then have ch: "to_upper coding = 66" using assms(2) by simp
  let ?m = "mime_base64 crlf False"
  have m: "mc_encode_buf ?m = []" by (simp add: mime_base64_def mime_init_def mime_code_new_def)
  have "encode_pieces ?m xss w = Some (w @ mime_lines ?m (concat xss))" for w
    using encode_pieces_lines [of ?m xss w] m by simp
  moreover have "fst (mime_decode oob (mime_base64 False False) (mime_lines ?m (concat xss))) = concat xss" for oob
    using mime_decode_text [of mime_base64 crlf False xss "[mime_lines ?m (concat xss)]" oob False False]
      encode_pieces_lines [of ?m xss "[]"] m by simp
  ultimately show ?thesis
    using rfc_encode_pieces_new [OF assms(1-4), of strip crlf out] ch base64_clean [of crlf False "concat xss"]
    by (auto simp: rfc_coder_new_def coder_pieces_base64 word_text_def body_reads_def no_nul_def)
qed

end
