(* ===== verification/RfcDecode.thy ===== *)
theory RfcDecode
  imports RfcWords
begin

text \<open>The second pass: what the entries of words give.\<close>

section \<open>One word in the decoder\<close>

definition fresh_coder :: "'h rfc_decoder \<Rightarrow> bool" where
  "fresh_coder d \<longleftrightarrow> rd_b64 d = mime_base64 False False \<and> rd_qp_coder d = mime_qp_new False False"

abbreviation coding_of :: "'h rfc_decoder \<Rightarrow> byte" where
  "coding_of d \<equiv> if rd_qp d then 81 else 66"

lemma fresh_reset [simp]: "fresh_coder d \<Longrightarrow> coder_reset d = d"
  by (simp add: fresh_coder_def coder_reset_def qp_reset_def mime_reset_def mime_qp_new_def mime_base64_def
      mime_init_def mime_code_new_def)

lemma fresh_finish: "fresh_coder d \<Longrightarrow> coder_finish oob d = (d, [])"
  by (simp add: fresh_coder_def coder_finish_def qp_decode_finish_def decode_finish_def mime_qp_new_def mime_base64_def
      mime_init_def mime_code_new_def mime_decode_def)

lemma fresh_conv [simp]:
  "fresh_coder (d\<lparr>rd_conv := cv\<rparr>) = fresh_coder d" "fresh_coder (d\<lparr>rd_from := f\<rparr>) = fresh_coder d"
  "fresh_coder (d\<lparr>rd_qp := q\<rparr>) = fresh_coder d"
  by (simp_all add: fresh_coder_def)

lemma coder_run:
  assumes "fresh_coder d" "body_reads (coding_of d) body bs"
  shows "\<exists>q b w1 w2. coder_update oob body d = Some (d\<lparr>rd_b64 := b, rd_qp_coder := q\<rparr>, w1) \<and> w1 @ w2 = bs \<and>
    (\<forall>f cv. coder_finish oob (d\<lparr>rd_b64 := b, rd_qp_coder := q, rd_from := f, rd_conv := cv\<rparr>) =
       (d\<lparr>rd_from := f, rd_conv := cv\<rparr>, w2))"
proof (cases "rd_qp d")
  case True
  let ?q = "mime_qp_new False False"
  have run: "qp_decode_pieces ?q [body] [] = Some bs"
    using qp_decode_pieces_run [of ?q "[body]" "[]"] assms(2) True by (simp add: mime_qp_new_def body_reads_def)
  then obtain q w1 where u: "qp_decode_update ?q body [] = Some (q, w1)" by (auto split: option.splits)
  have fin: "qp_decode_finish q out = (?q, out @ snd (qp_decode_finish q []))" for out
    using u by (auto simp: qp_decode_finish_def qp_decode_update_def mime_qp_new_def split: prod.splits)
  have "w1 @ snd (qp_decode_finish q []) = bs" using run u fin [of w1] by simp
  then show ?thesis
    using True u fin [of "[]"] assms(1)
    by (intro exI [of _ q] exI [of _ "rd_b64 d"] exI [of _ w1] exI [of _ "snd (qp_decode_finish q [])"])
      (auto simp: coder_update_def coder_finish_def fresh_coder_def split: prod.split)
next
  case False
  let ?b = "mime_base64 False False"
  have b: "mc_decode_buf ?b = []" "mc_add_invalid ?b = False"
    by (simp_all add: mime_base64_def mime_init_def mime_code_new_def)
  have run: "decode_pieces oob ?b [body] [] = Some bs"
  proof -
    have "fst (mime_decode oob ?b body) = bs" using assms(2) False by (simp add: body_reads_def)
    then show ?thesis using decode_pieces_run [of ?b oob "[body]" "[]"] b by (simp split: prod.splits)
  qed
  then obtain m w1 where u: "decode_update oob ?b body [] = Some (m, w1)" by (auto split: option.splits)
  have fin: "decode_finish oob m out = (?b, out @ snd (decode_finish oob m []))" for out
    using u b by (auto simp: decode_finish_def decode_update_def split: prod.splits)
  have "w1 @ snd (decode_finish oob m []) = bs" using run u fin [of w1] by simp
  then show ?thesis
    using False u fin [of "[]"] assms(1)
    by (intro exI [of _ "rd_qp_coder d"] exI [of _ m] exI [of _ w1] exI [of _ "snd (decode_finish oob m [])"])
      (auto simp: coder_update_def coder_finish_def fresh_coder_def split: prod.split)
qed

section \<open>A word in the target character set\<close>

text \<open>The converter was never opened.\<close>

definition idle :: "'h charset_conv \<Rightarrow> bool" where
  "idle cv \<longleftrightarrow> cc_iconv cv = None \<and> cc_from cv = [] \<and> cc_to cv = [] \<and> cc_in_buf cv = []"

definition same_charset :: "byte list option \<Rightarrow> byte list option \<Rightarrow> bool" where
  "same_charset from to \<longleftrightarrow> to = None \<or> EQ2 from to"

lemma idle_new [simp]: "idle (set_add_invalid v charset_conv_new)"
  by (simp add: idle_def set_add_invalid_def charset_conv_new_def)

lemma idle_begin:
  assumes "idle cv" "same_charset (Some cs) to"
  shows "idle (fst (update_begin ic (Some cs) to cv))" "snd (update_begin ic (Some cs) to cv) = (to \<noteq> None)"
  using assms by (cases to; auto simp: update_begin_def idle_def same_charset_def)+

lemma idle_update: "idle cv \<Longrightarrow> conv_update ic inp cv out = Some (cv, out @ inp, True)"
  by (simp add: conv_update_def idle_def strcaseeq_def)

lemma idle_finish: "idle cv \<Longrightarrow> update_finish cv out = (cv, out)"
  by (simp add: update_finish_def idle_def)

lemma decoder_finish_idle:
  "idle (rd_conv d) \<Longrightarrow> decoder_finish ic oob use d out = Some (fst (coder_finish oob d), out @ snd (coder_finish oob d))"
proof -
  have "rd_conv (fst (coder_finish oob d)) = rd_conv d" by (auto simp: coder_finish_def split: prod.split)
  then show "idle (rd_conv d) \<Longrightarrow> ?thesis"
    by (cases "coder_finish oob d") (auto simp: decoder_finish_def idle_update idle_finish)
qed

lemma flush_idle:
  assumes "idle (rd_conv d)" "rd_from d = Some cs" "same_charset (Some cs) to"
  shows "\<exists>cv. idle cv \<and> flush ic oob plain to d out =
    Some (fst (coder_finish oob (d\<lparr>rd_conv := cv\<rparr>)), out @ snd (coder_finish oob (d\<lparr>rd_conv := cv\<rparr>)))"
proof (cases plain)
  case True
  then show ?thesis using assms decoder_finish_idle [OF assms(1)] by (intro exI [of _ "rd_conv d"]) (simp add: flush_def)
next
  case False
  then show ?thesis
    using idle_begin [OF assms(1,3), of ic] assms(2)
    by (intro exI [of _ "fst (update_begin ic (Some cs) to (rd_conv d))"]) (simp add: flush_def decoder_finish_idle)
qed

lemma decode_one_word:
  assumes "charset_name cs" "ch \<in> {66, 81}" "body_reads ch body bs" "same_charset (Some cs) to"
    and "rf_list rf = [\<lparr>re_data = body, re_charset = cs, re_coding = ch\<rparr>]"
  shows "rfc_decode_finish ic oob to v rf out = Some (out @ bs)"
proof -
  let ?e = "\<lparr>re_data = body, re_charset = cs, re_coding = ch\<rparr>" and ?q = "ch = 81"
  define d0 where "d0 = (rfc_decoder_new v :: 'a rfc_decoder)"
  have d0: "idle (rd_conv d0)" "fresh_coder d0" "rd_from d0 = None" "\<not> rd_qp d0"
    by (simp_all add: d0_def rfc_decoder_new_def fresh_coder_def)
  have cs: "cstr cs = cs" "cs \<noteq> []" "non_empty cs = Some cs" using charset_nameD [OF assms(1)] by (simp_all add: non_empty_def)
  obtain plain where entry: "decode_entry ic oob to ?e d0 out = decode_word ic oob to ?e ?q plain d0 out"
    using assms(2) by (auto simp: decode_entry_def)
  obtain cv where cv: "idle cv" "flush ic oob (plain (Some cs)) to (d0\<lparr>rd_from := Some cs\<rparr>) out =
      Some (d0\<lparr>rd_from := Some cs, rd_conv := cv\<rparr>, out)"
    using flush_idle [of "d0\<lparr>rd_from := Some cs\<rparr>" cs to ic oob "plain (Some cs)" out] d0 assms(4) by (auto simp: fresh_finish)
  define d1 where "d1 = d0\<lparr>rd_conv := cv, rd_qp := ?q, rd_from := Some cs\<rparr>"
  have d1: "fresh_coder d1" "coding_of d1 = ch" "idle (rd_conv d1)" "rd_from d1 = Some cs"
    using d0 cv assms(2) by (auto simp: d1_def)
  have word: "decode_word ic oob to ?e ?q plain d0 out = decoder_update ic oob ?e to d1 out"
    using d0 cv(2) cs by (simp add: decode_word_def d1_def)
  obtain q b w1 w2 where run: "coder_update oob body d1 = Some (d1\<lparr>rd_b64 := b, rd_qp_coder := q\<rparr>, w1)" "w1 @ w2 = bs"
    "\<And>f cv. coder_finish oob (d1\<lparr>rd_b64 := b, rd_qp_coder := q, rd_from := f, rd_conv := cv\<rparr>) =
       (d1\<lparr>rd_from := f, rd_conv := cv\<rparr>, w2)"
    using coder_run [OF d1(1), of body bs oob] assms(3) d1(2) by auto
  obtain cv1 where upd: "idle cv1" "decoder_update ic oob ?e to d1 out =
      Some (d1\<lparr>rd_b64 := b, rd_qp_coder := q, rd_conv := cv1\<rparr>, out @ w1)"
  proof (cases "w1 = [] \<or> EQ2 (Some cs) to")
    case True
    then show thesis using run(1) d1 by (intro that [of "rd_conv d1"]) (auto simp: decoder_update_def)
  next
    case False
    with assms(4) have "to = None" by (simp add: same_charset_def)
    then show thesis
      using run(1) d1 False idle_begin [OF d1(3), of cs to ic]
      by (intro that [of "fst (update_begin ic (Some cs) to (rd_conv d1))"])
        (auto simp: decoder_update_def same_charset_def split: prod.split)
  qed
  define d2 where "d2 = d1\<lparr>rd_b64 := b, rd_qp_coder := q, rd_conv := cv1\<rparr>"
  have d2: "idle (rd_conv d2)" "rd_from d2 = Some cs" using upd d1 by (simp_all add: d2_def)
  have "coder_finish oob (d2\<lparr>rd_conv := cv2\<rparr>) = (d1\<lparr>rd_from := Some cs, rd_conv := cv2\<rparr>, w2)" for cv2
  proof -
    have "d1\<lparr>rd_b64 := b, rd_qp_coder := q, rd_from := rd_from d1, rd_conv := cv2\<rparr> = d2\<lparr>rd_conv := cv2\<rparr>"
      unfolding d2_def by (cases d1) simp
    then show ?thesis using run(3) [of cv2 "rd_from d1"] d1(4) by simp
  qed
  then have "\<exists>d3. flush ic oob (rd_from d2 = None \<or> to = None) to d2 (out @ w1) = Some (d3, out @ w1 @ w2)"
    using flush_idle [OF d2 assms(4), of ic oob "rd_from d2 = None \<or> to = None" "out @ w1"] by auto
  then show ?thesis
    using entry word upd(2) run(2) assms(5) by (auto simp: rfc_decode_finish_def d0_def [symmetric] d2_def [symmetric])
qed

end
