(* ===== verification/CharsetProperties.thy ===== *)
theory CharsetProperties
  imports CharsetRun
begin

text \<open>What the character set converter does with a text.\<close>

lemma new_ready:
  "cc_iconv (set_add_invalid v charset_conv_new) = None" "cc_in_buf (set_add_invalid v charset_conv_new) = []"
  "cc_out_size (set_add_invalid v charset_conv_new) \<noteq> Some 0" "cc_add_invalid (set_add_invalid v charset_conv_new) = v"
  by (simp_all add: set_add_invalid_def charset_conv_new_def)

text \<open>C24: the text that is given to charset_conv::update of a new converter in any pieces, empty ones too, is converted
  as a whole, from one character set to another: over an iconv that keeps to its manual, for character sets without
  shift states, in which every character has a conversion that is not empty (chars_ok), the updates succeed and end, and
  write the conversion of the characters, with invalid bytes kept or left out as asked; the bytes of a last character that
  is not complete come with update_finish, if invalid bytes are kept. Of a text in UTF-8 all that it
  has in common with the byte order mark is left out first. An iconv that takes input and writes nothing, as for a
  shift sequence or a mark of UTF-16, is outside: then the code appends the unconverted input (silent_iconv_appends).
\<close>

theorem conv_any_pieces:
  assumes "iconv_lawful ic one" "chars_ok one"
    and "update_begin ic (Some from) (Some to) (set_add_invalid v charset_conv_new) = (cv, True)"
    and "\<not> strcaseeq from to" "\<not> strcaseeq (scopy32 from) (scopy32 to)"
  shows "\<exists>cv'. conv_pieces ic ps cv out = Some (cv', out @ fst (conv_spec one v (conv_text from (concat ps))), True) \<and>
    snd (update_finish cv' out1) = out1 @ (if v then snd (conv_spec one v (conv_text from (concat ps))) else [])"
proof -
  have "conv_at one v (mark_from from) [] cv"
    using update_begin_at [OF assms(3) new_ready(1-3) assms(4,5)] by (simp only: new_ready)
  from conv_text_pieces [OF assms(1,2) this] show ?thesis by (metis conv_text_finish)
qed

text \<open>A call that takes all the input and writes nothing makes the code append the unconverted input.\<close>

lemma silent_iconv_appends:
  assumes "buf \<noteq> []" "ic_run ic h buf room = (h1, k, [], Iconv_ok)"
  shows "conv_loop ic v src h buf room out = Some (h1, [], room, out @ src)"
  using assms by (subst conv_loop.simps) simp

text \<open>An iconv for ASCII, which writes each byte as it is and refuses the others.\<close>

definition ascii_char :: "byte list \<Rightarrow> ic_char" where
  "ascii_char bs = (if hd bs < 128 then Conv 1 [hd bs] else Invalid)"

definition ascii_iconv :: "unit iconv" where
  "ascii_iconv = \<lparr>ic_open = \<lambda>_ _. Some (), ic_reset = \<lambda>h. h,
     ic_run = \<lambda>h buf room. let ok = takeWhile (\<lambda>c. c < 128) buf; w = take room ok; k = length w in
       (h, k, w, if k = length buf then Iconv_ok else if k < length ok then Iconv_e2big else Iconv_eilseq)\<rparr>"

lemma ascii_chars_ok: "chars_ok ascii_char"
  by (auto simp: chars_ok_def ascii_char_def Suc_le_eq)

lemma ascii_char_Cons [simp]: "ascii_char (c # cs) = (if c < 128 then Conv 1 [c] else Invalid)"
  by (simp add: ascii_char_def)

lemma ascii_converts: "\<forall>c \<in> set w. c < 128 \<Longrightarrow> converts ascii_char (w @ bs) (length w) w"
proof (induction w)
  case (Cons c w)
  then have "converts ascii_char (c # w @ bs) (1 + length w) ([c] @ w)"
    by (intro converts.more) simp_all
  then show ?case by simp
qed (auto intro: converts.none)

lemma ascii_parts:
  fixes buf :: "byte list"
  defines "ok \<equiv> takeWhile (\<lambda>c. c < 128) buf"
  obtains r where "buf = ok @ r" "r = [] \<or> \<not> hd r < 128" "\<forall>c \<in> set ok. c < 128"
proof (rule that [of "dropWhile (\<lambda>c. c < 128) buf"])
  show "dropWhile (\<lambda>c. c < 128) buf = [] \<or> \<not> hd (dropWhile (\<lambda>c. c < 128) buf) < 128"
    using hd_dropWhile [of "\<lambda>c. c < 128" buf] by auto
qed (auto simp: ok_def dest: set_takeWhileD)

lemma ascii_lawful: "iconv_lawful ascii_iconv ascii_char"
proof -
  have "converts ascii_char buf k w \<and> length w \<le> room \<and>
      (case res of Iconv_ok \<Rightarrow> k = length buf
         | Iconv_e2big \<Rightarrow> k < length buf \<and> (\<exists>n c. ascii_char (drop k buf) = Conv n c \<and> room < length w + length c)
         | Iconv_eilseq \<Rightarrow> k < length buf \<and> ascii_char (drop k buf) = Invalid
         | Iconv_einval \<Rightarrow> k < length buf \<and> ascii_char (drop k buf) = Incomplete
         | Iconv_error \<Rightarrow> False)"
    if run: "ic_run ascii_iconv h buf room = (h1, k, w, res)" for h h1 buf room k w res
  proof -
    obtain r where r: "buf = takeWhile (\<lambda>c. c < 128) buf @ r" "r = [] \<or> \<not> hd r < 128"
      "\<forall>c \<in> set (takeWhile (\<lambda>c. c < 128) buf). c < 128"
      by (rule ascii_parts)
    define ok where "ok = takeWhile (\<lambda>c. c < 128) buf"
    have buf: "buf = ok @ r" "\<forall>c \<in> set ok. c < 128" using r by (simp_all add: ok_def)
    have w: "w = take room ok" "k = length w"
      and res: "res = (if k = length buf then Iconv_ok else if k < length ok then Iconv_e2big else Iconv_eilseq)"
      using run by (auto simp: ascii_iconv_def Let_def ok_def)
    have split: "buf = w @ drop room ok @ r" using buf(1) w(1) by (metis append.assoc append_take_drop_id)
    have "\<forall>c \<in> set w. c < 128" using buf(2) w(1) by (auto dest: in_set_takeD)
    from ascii_converts [OF this, of "drop room ok @ r"]
    have "converts ascii_char buf k w" by (simp only: split [symmetric] w(2) [symmetric])
    have rest: "drop k buf = drop room ok @ r" using split w(2) by (metis append_eq_conv_conj)
    have room: "length w \<le> room" using w(1) by simp
    consider "k = length buf" | "k < length ok" "k \<noteq> length buf" | "k = length ok" "k \<noteq> length buf"
      using w by fastforce
    then show ?thesis
    proof cases
      case 1
      then show ?thesis using \<open>converts ascii_char buf k w\<close> room by (simp add: res)
    next
      case 2
      then have "drop room ok \<noteq> []" "hd (drop room ok) < 128" "room = length w"
        using w buf(2) by (auto simp: hd_drop_conv_nth)
      then have "ascii_char (drop k buf) = Conv 1 [hd (drop room ok)]" "room < length w + 1"
        by (simp_all add: rest ascii_char_def hd_append)
      moreover have "k < length buf" using 2 buf(1) by simp
      ultimately show ?thesis using 2 \<open>converts ascii_char buf k w\<close> room by (simp add: res)
    next
      case 3
      then have "drop room ok = []" "r \<noteq> []" using w buf(1) by auto
      then have "ascii_char (drop k buf) = Invalid" "k < length buf"
        using r(2) 3 buf(1) by (auto simp: rest ascii_char_def)
      then show ?thesis using 3 \<open>converts ascii_char buf k w\<close> room by (simp add: res)
    qed
  qed
  then show ?thesis unfolding iconv_lawful_def by blast
qed

theorem conv_any_pieces_witness:
  "\<exists>cv'. conv_pieces ascii_iconv [[65], [], [200, 66]]
      (fst (update_begin ascii_iconv (Some UTF8) (Some [65]) (set_add_invalid True charset_conv_new))) [] =
      Some (cv', [65, 200, 66], True) \<and> snd (update_finish cv' [9]) = [9]"
proof -
  have t: "update_begin ascii_iconv (Some UTF8) (Some [65]) (set_add_invalid True charset_conv_new) =
      (fst (update_begin ascii_iconv (Some UTF8) (Some [65]) (set_add_invalid True charset_conv_new)), True)"
    "\<not> strcaseeq UTF8 [65]" "\<not> strcaseeq (scopy32 UTF8) (scopy32 [65])"
    by code_simp+
  have s: "conv_spec ascii_char True (conv_text UTF8 (concat [[65], [], [200, 66]])) = ([65, 200, 66], [])" by code_simp
  show ?thesis using conv_any_pieces [OF ascii_lawful ascii_chars_ok t, of "[[65], [], [200, 66]]" "[]" "[9]"] unfolding s by simp
qed

text \<open>Convert of a UTF-8 text that starts with the byte EF, as every character from U+F000 to U+FFFF
  does, but not with the first two bytes of the byte order mark, loses that byte: the rest is converted
  without it. (The code means to put the matched part of the mark back.)
\<close>

lemma utf8_first_byte_lost:
  assumes "iconv_lawful ic one" "chars_ok one"
    and "update_begin ic (Some from) (Some to) charset_conv_new = (cv, True)"
    and "\<not> strcaseeq from to" "\<not> strcaseeq (scopy32 from) (scopy32 to)"
    and "is_utf8 from" "b \<noteq> 0xBB"
  shows "map_option (\<lambda>(cv, out, ok). (out, ok)) (convert ic (Some from) (Some to) (0xEF # b # bs) charset_conv_new out) =
    (case conv_spec one True (b # bs) of (w, r) \<Rightarrow> Some (out @ w @ r, True))"
proof -
  have new: "cc_iconv charset_conv_new = None" "cc_in_buf charset_conv_new = []" "cc_out_size charset_conv_new \<noteq> Some 0"
    "cc_add_invalid charset_conv_new = True"
    by (simp_all add: charset_conv_new_def)
  have "conv_at one True (mark_from from) [] cv"
    using update_begin_at [OF assms(3) new(1-3) assms(4,5)] by (simp only: new)
  from conv_text_update [OF assms(1,2) this, of "0xEF # b # bs" out] obtain cv1 w where
    w: "conv_update ic (0xEF # b # bs) cv out = Some (cv1, out @ w, True)"
    "conv_at one True (mark_from from) (0xEF # b # bs) cv1" "fst (conv_spec one True (conv_text from (0xEF # b # bs))) = w"
    by auto
  have "conv_text from (0xEF # b # bs) = b # bs" using assms(6,7) by (simp add: conv_text_def MARK_def)
  with w conv_text_finish [OF w(2), of "out @ w"] assms(3) show ?thesis
    by (auto simp: convert_def split: prod.split)
qed

text \<open>
  A converter that leaves out invalid bytes keeps the bytes of an incomplete last character, and puts them in
  front of the next text, whatever is called in between.
\<close>

lemma incomplete_end_leaks:
  assumes "iconv_lawful ic one" "chars_ok one" "conv_at one False 3 bs cv"
  shows "cc_in_buf (conv_reset cv) = snd (conv_spec one False bs)"
    "update_finish cv out = (cv, out)"
    "\<exists>cv' w. conv_update ic inp cv out = Some (cv', out @ w, True) \<and>
      fst (conv_spec one False (bs @ inp)) = fst (conv_spec one False bs) @ w"
  using conv_update_at [OF assms, of inp out] assms(3)
  by (auto simp: conv_at_def conv_reset_def update_finish_def)

end
