(* ===== verification/RfcProperties.thy ===== *)
theory RfcProperties
  imports RfcDecode CharsetProperties
begin

text \<open>The properties of the coder of encoded words.\<close>

section \<open>The first pass\<close>

text \<open>C25: the first pass over a text, in any pieces and with or without the stripping of blanks, ends and never
  uses the entry pointer when it is NULL; its entries hold no NUL and one of the three codings. Without the
  stripping the entries do not depend on the pieces.
\<close>

theorem rfc_first_pass:
  assumes "rfc_ok rf"
  shows "\<exists>rf1. rfc_decode_pieces ps rf = Some rf1 \<and> rfc_ok rf1 \<and>
    (rf_strip rf \<or> rfc_decode_update rf (concat ps) = Some rf1)"
proof -
  have "\<exists>rf1. rfc_decode_pieces ps rf = Some rf1 \<and> rfc_ok rf1"
    using assms
  proof (induction ps arbitrary: rf)
    case (Cons p ps)
    from rfc_decode_update_ends [OF Cons.prems, of p] obtain rf1 where
      "rfc_decode_update rf p = Some rf1" "rfc_ok rf1" by blast
    with Cons.IH show ?case by simp
  qed simp
  then show ?thesis using rfc_decode_pieces_whole [OF _ assms, of ps] by (cases "rf_strip rf") auto
qed

theorem rfc_first_pass_witness:
  "\<exists>rf1. rfc_decode_pieces [[61, 63], [], [97, 63, 120]] (rfc_new True False) = Some rf1 \<and> rfc_ok rf1"
  using rfc_first_pass [OF rfc_ok_new, of "[[61, 63], [], [97, 63, 120]]" True False] by blast

section \<open>Words\<close>

text \<open>C26: what the encoder writes for the pieces of an input, in base64 or, if the input has no question mark,
  in quoted-printable, with or without line breaks, is one encoded word; a decoder that does not strip blanks
  (rfc_new False), given it in any pieces and asked for the character set of the word or for none, gives the input
  back. One that strips them, as by default, loses the line breaks in the word, and with them what a soft line break of
  quoted-printable leaves out (stripped_word_differs).
\<close>

theorem rfc_word_round_trip:
  assumes "charset_name cs" "to_upper coding \<in> {66, 81}" "[] \<notin> set xss" "xss \<noteq> []"
    and "to_upper coding = 81 \<longrightarrow> 63 \<notin> set (concat xss)"
    and "rfc_encode_pieces cs coding xss (rfc_new strip crlf) [] = Some (concat ps)"
    and "to = None \<or> EQ2 (Some cs) to"
  shows "rfc_decode_pieces ps (rfc_new False crlf') \<bind> (\<lambda>rf. rfc_decode_finish ic oob to v rf out) = Some (out @ concat xss)"
proof -
  let ?cs = "map to_upper cs" and ?ch = "to_upper coding"
  obtain body where body: "concat ps = word_text ?cs ?ch body" "63 \<notin> set body" "no_nul body"
    "body_reads ?ch body (concat xss)"
    using rfc_encode_word [OF assms(1-5), of strip crlf "[]"] assms(6) by auto
  note cs = charset_name_upper [OF assms(1)]
  have "same_charset (Some ?cs) to"
    using assms(7) strcaseeq_name [OF assms(1)] by (cases to) (auto simp: same_charset_def strcaseeq_def)
  moreover have "rfc_decode_pieces ps (rfc_new False crlf') = Some ((rfc_new False crlf')\<lparr>
      rf_list := [\<lparr>re_data = body, re_charset = ?cs, re_coding = ?ch\<rparr>], rf_cur := None\<rparr>)"
    using rfc_decode_pieces_whole [OF _ rfc_ok_new, of False crlf' ps] body(1)
      decode_word_text [of "rfc_new False crlf'", OF _ _ cs assms(2) body(2,3), of "[]"]
    by (simp add: rfc_new_def)
  ultimately show ?thesis
    by (simp add: decode_one_word [OF cs assms(2) body(4)])
qed

theorem rfc_word_round_trip_witness:
  "rfc_decode_pieces [[61, 63, 85, 63, 113 - 32], [63, 97, 61, 51], [68, 63, 61]] (rfc_new False False) \<bind>
     (\<lambda>rf. rfc_decode_finish ascii_iconv 0 (Some [117]) True rf [9]) = Some [9, 97, 61]"
proof -
  have a: "charset_name [117]" "to_upper 113 \<in> {66, 81}" "[] \<notin> set [[97], [61 :: byte]]" "[[97], [61 :: byte]] \<noteq> []"
    "to_upper 113 = 81 \<longrightarrow> (63 :: byte) \<notin> set (concat [[97], [61]])"
    "(Some [117] :: byte list option) = None \<or> EQ2 (Some [117]) (Some [117])"
    by code_simp+
  have e: "rfc_encode_pieces [117] 113 [[97], [61]] (rfc_new True True) [] =
      Some (concat [[61, 63, 85, 63, 113 - 32], [63, 97, 61, 51], [68, 63, 61]])"
    by code_simp
  show ?thesis using rfc_word_round_trip [OF a(1-5) e a(6), where ic = ascii_iconv and oob = 0 and v = True and out = "[9]"] by simp
qed

text \<open>A decoder that strips blanks decodes the word of a long line of quoted-printable differently.\<close>

lemma stripped_word_differs:
  "rfc_encode_pieces [117] 81 [replicate 80 97] (rfc_new True True) [] \<bind>
     (\<lambda>w. rfc_decode_pieces [w] (rfc_new True False)) \<bind> (\<lambda>rf. rfc_decode_finish ascii_iconv 0 None True rf []) \<noteq>
   Some (replicate 80 97)"
  by code_simp

definition short_name :: "byte list \<Rightarrow> bool" where
  "short_name cs \<longleftrightarrow> charset_name cs \<and> length cs \<le> 31"

lemma scopy32_short: "short_name cs \<Longrightarrow> scopy32 cs = cs"
  by (simp add: short_name_def scopy32_def charset_nameD)

lemma base64_short:
  assumes "base64_encode bs [] = Some body" "length bs \<le> 57"
  shows "body_reads 66 body bs" "length body \<le> 76" "63 \<notin> set body" "no_nul body"
proof -
  let ?m = "mime_base64 False False"
  have m: "mc_encode_buf ?m = []" "mc_add_crlf ?m = False" by (simp_all add: mime_base64_def mime_init_def mime_code_new_def)
  have "encode_pieces ?m [bs] [] = Some body"
    using assms(1) by (auto simp: base64_encode_def mime_encode_all_def split: option.splits prod.splits)
  then have body: "body = mime_lines ?m bs" using encode_pieces_lines [of ?m "[bs]" "[]"] m by simp
  then show "body_reads 66 body bs"
    using mime_decode_text [of mime_base64 False False "[bs]" "[body]" oob False False for oob]
      encode_pieces_lines [of ?m "[bs]" "[]"] m by (simp add: body_reads_def)
  show "length body \<le> 76"
    using assms(2) m by (simp add: body mime_encode_def length_encode_groups)
  show "63 \<notin> set body" "no_nul body" using base64_clean [of False False bs] body by (auto simp: no_nul_def)
qed

abbreviation base64_at :: "mime_code \<Rightarrow> byte list option \<Rightarrow> 'h charset_conv \<Rightarrow> 'h rfc_decoder" where
  "base64_at m from cv \<equiv> \<lparr>rd_qp = False, rd_b64 = m, rd_qp_coder = mime_qp_new False False, rd_from = from, rd_conv = cv\<rparr>"

abbreviation empty_base64 :: mime_code where "empty_base64 \<equiv> mime_base64 False False"

lemma base64_at_simps [simp]:
  "coder_reset (base64_at empty_base64 from cv) = base64_at empty_base64 from cv"
  "coder_finish oob (base64_at empty_base64 from cv) = (base64_at empty_base64 from cv, [])"
  by (simp_all add: fresh_coder_def fresh_finish)

lemma coder_keeps_short:
  assumes "base64_encode bs [] = Some body" "length bs \<le> 57"
  obtains m where
    "\<And>from cv. coder_update oob body (base64_at empty_base64 from cv) = Some (base64_at m from cv, [])"
    "\<And>from cv. coder_finish oob (base64_at m from cv) = (base64_at empty_base64 from cv, bs)"
proof -
  let ?m = "empty_base64\<lparr>mc_decode_buf := body\<rparr>"
  have "decode_update oob empty_base64 body [] = Some (?m, [])"
    using base64_short(2) [OF assms] mime_dec.fill_loop_push [of "[]" oob empty_base64 body "[]"]
      mime_dec.push_fits [of "[]" body oob empty_base64 "[]"]
    by (simp add: decode_update_def mime_base64_def mime_init_def mime_code_new_def)
  moreover have "fst (mime_decode oob empty_base64 body) = bs"
    using base64_short(1) [OF assms] by (simp add: body_reads_def)
  then have "decode_finish oob ?m [] = (empty_base64, bs)"
    by (auto simp: decode_finish_def mime_base64_def mime_init_def mime_code_new_def mime_decode_def split: prod.splits)
  ultimately show thesis by (intro that [of ?m]) (simp_all add: coder_update_def coder_finish_def)
qed

lemma conv_update_text:
  assumes "iconv_lawful ic one" "chars_ok one" "conv_at one v (mark_from from) bs cv"
    and "snd (conv_spec one v (conv_text from bs)) = []"
  obtains cv1 w where "conv_update ic inp cv [] = Some (cv1, w, True)" "conv_at one v (mark_from from) (bs @ inp) cv1"
    "fst (conv_spec one v (conv_text from (bs @ inp))) = fst (conv_spec one v (conv_text from bs)) @ w"
  using conv_text_update [OF assms(1-3), of inp "[]"] by auto

text \<open>Two base64 words follow each other, the first in a character set that is to be converted, the second
  already in the target set. The second is converted too, as if it were more text in the set of the first: the
  converter keeps the pair of sets it was opened with when it is told to start on two equal ones.
\<close>

lemma second_word_converted_again:
  assumes "iconv_lawful ic one" "chars_ok one" "ic_open ic to a \<noteq> None"
    and "short_name a" "short_name b" "short_name to" "\<not> strcaseeq a to" "strcaseeq b to"
    and "base64_encode as [] = Some body1" "base64_encode bs [] = Some body2"
    and "as \<noteq> []" "length as \<le> 57" "bs \<noteq> []" "length bs \<le> 57"
    and "snd (conv_spec one v (conv_text a as)) = []"
  shows "rfc_decode ic oob (word_text a 66 body1 @ word_text b 66 body2) (Some to) False v out =
    (case conv_spec one v (conv_text a (as @ bs)) of (w, r) \<Rightarrow> Some (out @ w @ (if v then r else [])))"
proof -
  let ?e1 = "\<lparr>re_data = body1, re_charset = a, re_coding = 66\<rparr>" and ?e2 = "\<lparr>re_data = body2, re_charset = b, re_coding = 66\<rparr>"
  have names: "charset_name a" "charset_name b" "cstr a = a" "cstr b = b" "non_empty a = Some a" "non_empty b = Some b"
    using assms(4,5) by (auto simp: short_name_def charset_nameD non_empty_def)
  note body1 = base64_short [OF assms(9,12)] and body2 = base64_short [OF assms(10,14)]
  have first: "rfc_decode_update (rfc_new False False) (word_text a 66 body1 @ word_text b 66 body2) =
      Some ((rfc_new False False)\<lparr>rf_list := [?e1, ?e2], rf_cur := None\<rparr>)"
    using decode_word_text [of "rfc_new False False" a 66 body1 "word_text b 66 body2"] names body1 body2
      decode_word_text [of "(rfc_new False False)\<lparr>rf_list := [?e1], rf_cur := None\<rparr>" b 66 body2 "[]"]
    by (simp add: rfc_new_def)
  define cv0 where "cv0 = (set_add_invalid v charset_conv_new :: 'a charset_conv)"
  define cv1 where "cv1 = fst (update_begin ic (Some a) (Some to) cv0)"
  define cv2 where "cv2 = cv1\<lparr>cc_utf8_pre := Some (mark_from a)\<rparr>"
  have sets: "\<not> strcaseeq b a" "strcaseeq a a" "strcaseeq to to"
    using assms(7,8) by (auto simp: strcaseeq_def)
  have short: "scopy32 a = a" "scopy32 to = to" "cstr to = to"
    using assms(4,6) by (simp_all add: scopy32_short) (simp add: short_name_def charset_nameD)
  have cv0: "cc_iconv cv0 = None" by (simp add: cv0_def set_add_invalid_def charset_conv_new_def)
  have open1: "update_begin ic (Some a) (Some to) cv0 = (cv1, True)"
    using assms(3,7) short names cv0 by (auto simp: cv1_def update_begin_def Let_def)
  have diff: "\<not> strcaseeq (scopy32 a) (scopy32 to)" using assms(7) short by simp
  have at1: "conv_at one v (mark_from a) [] cv1"
    using update_begin_at [OF open1 [unfolded cv0_def] new_ready(1-3) assms(7) diff] by (simp only: new_ready)
  have open2: "update_begin ic (Some a) (Some to) cv1 = (cv2, True)"
    using open1 at1 assms(7) short names sets cv0
    by (auto simp: update_begin_def Let_def cv2_def conv_at_def split: option.splits)
  have at2: "conv_at one v (mark_from a) [] cv2" using at1 by (auto simp: conv_at_def cv2_def)
  have empty: "update_finish cv1 [] = (cv1, [])" using at1 by (simp add: conv_at_def update_finish_def)
  obtain cv3 w1 where cv3: "conv_update ic as cv2 [] = Some (cv3, w1, True)" "conv_at one v (mark_from a) as cv3"
    "fst (conv_spec one v (conv_text a as)) = w1"
    using conv_text_update [OF assms(1,2) at2, of as "[]"] by auto
  obtain cv4 w2 where cv4: "conv_update ic bs cv3 [] = Some (cv4, w2, True)" "conv_at one v (mark_from a) (as @ bs) cv4"
    "fst (conv_spec one v (conv_text a (as @ bs))) = w1 @ w2"
    using conv_text_update [OF assms(1,2) cv3(2), of bs "[]"] cv3(3) by auto
  have fin3: "update_finish cv3 w1 = (cv3, w1)"
    using cv3(2) assms(15) by (auto simp: update_finish_def conv_at_def conv_text_pass)
  obtain m1 where m1: "\<And>from (cv :: 'a charset_conv). coder_update oob body1 (base64_at empty_base64 from cv) = Some (base64_at m1 from cv, [])"
    "\<And>from (cv :: 'a charset_conv). coder_finish oob (base64_at m1 from cv) = (base64_at empty_base64 from cv, as)"
    using coder_keeps_short [OF assms(9,12), of oob] by metis
  obtain m2 where m2: "\<And>from (cv :: 'a charset_conv). coder_update oob body2 (base64_at empty_base64 from cv) = Some (base64_at m2 from cv, [])"
    "\<And>from (cv :: 'a charset_conv). coder_finish oob (base64_at m2 from cv) = (base64_at empty_base64 from cv, bs)"
    using coder_keeps_short [OF assms(10,14), of oob] by metis
  have "decode_entry ic oob (Some to) ?e1 (rfc_decoder_new v) out = Some (base64_at m1 (Some a) cv1, out)"
    using open1 empty names
    by (simp add: decode_entry_def decode_word_def rfc_decoder_new_def cv0_def [symmetric] flush_def decoder_finish_def
      decoder_update_def m1)
  moreover have "decode_entry ic oob (Some to) ?e2 (base64_at m1 (Some a) cv1) out =
      Some (base64_at m2 (Some b) cv3, out @ w1)"
    using open2 fin3 names sets assms(11) cv3(1)
    by (simp add: decode_entry_def decode_word_def flush_def decoder_finish_def decoder_update_def m1 m2)
  moreover have "flush ic oob False (Some to) (base64_at m2 (Some b) cv3) (out @ w1) =
      (case update_finish cv4 w2 of (cv, w) \<Rightarrow> Some (base64_at empty_base64 (Some b) cv, out @ w1 @ w))"
    using assms(8,13) cv4(1)
    by (simp add: flush_def update_begin_def decoder_finish_def m2 split: prod.split)
  moreover have "snd (update_finish cv4 w2) = w2 @ (if v then snd (conv_spec one v (conv_text a (as @ bs))) else [])"
    using conv_text_finish [OF cv4(2)] .
  ultimately show ?thesis
    using first cv4(3)
    by (cases "conv_spec one v (conv_text a (as @ bs))")
      (auto simp: rfc_decode_def rfc_decode_finish_def split: prod.splits)
qed

section \<open>What is lost\<close>

text \<open>An unknown coding: the byte that names it is lost, and the next one is taken for the coding.\<close>

lemma unknown_coding_lost:
  "rfc_decode ascii_iconv 0 [61, 63, 97, 63, 88, 66, 63, 81, 81, 61, 61, 63, 61] None False True [] =
   rfc_decode ascii_iconv 0 [61, 63, 97, 63, 89, 66, 63, 81, 81, 61, 61, 63, 61] None False True []"
  by code_simp

text \<open>A question mark in a quoted-printable word: what the encoder wrote is not read back.\<close>

lemma question_mark_not_read_back:
  "rfc_encode [97, 63, 98] (Some [117]) 81 False [] = Some (word_text [85] 81 [97, 63, 98], True)"
  "rfc_decode ascii_iconv 0 (word_text [85] 81 [97, 63, 98]) None False True [] \<noteq> Some [97, 63, 98]"
  by code_simp+

text \<open>With the stripping, blanks at the start of a line are lost up to the end of the piece only.\<close>

lemma strip_depends_on_pieces:
  "rfc_decode_pieces [[97, 10, 32, 32, 98]] (rfc_new True False) \<bind>
     (\<lambda>rf. rfc_decode_finish ascii_iconv 0 None True rf []) = Some [97, 98]"
  "rfc_decode_pieces [[97, 10, 32], [32, 98]] (rfc_new True False) \<bind>
     (\<lambda>rf. rfc_decode_finish ascii_iconv 0 None True rf []) = Some [97, 32, 98]"
  by code_simp+

end
