(* ===== verification/Memcache.thy ===== *)
theory Memcache
  imports TextLines Rfc2047
begin

text \<open>
  The memcached client (\<^verbatim>\<open>memcache/memcache.cpp\<close>). Keys are written with the coder of encoded words; the
  connection is a parameter, the calls of \<^verbatim>\<open>socket_stream\<close> the client makes on a state \<open>'w\<close> of the world.

  An operation gives \<^const>\<open>None\<close> where an assertion fails or a loop does not end. The texts of error messages
  are not modelled.
\<close>

section \<open>The client\<close>

record 'w mc_net =
  mn_open :: "'w \<Rightarrow> bool \<times> 'w"
  mn_write :: "byte list \<Rightarrow> 'w \<Rightarrow> bool \<times> 'w"
  mn_gets :: "'w \<Rightarrow> byte list option \<times> 'w"
  mn_read :: "nat \<Rightarrow> 'w \<Rightarrow> byte list option \<times> 'w"
  mn_close :: "'w \<Rightarrow> 'w"

record memcache =
  mm_keypre :: "byte list option"
  mm_coder :: rfc2047
  mm_encode_key :: bool
  mm_opened :: bool
  mm_retry :: bool
  mm_enum :: int
  mm_content_length :: u64
  mm_length :: u64

text \<open>\<open>junk\<close> is the error number, which the constructor leaves as it is.\<close>

definition memcache_new :: "int \<Rightarrow> memcache" where
  "memcache_new junk = \<lparr>mm_keypre = None, mm_coder = rfc_new False False, mm_encode_key = False,
     mm_opened = False, mm_retry = True, mm_enum = junk, mm_content_length = 0, mm_length = 0\<rparr>"

definition auto_retry :: "bool \<Rightarrow> memcache \<Rightarrow> memcache" where
  "auto_retry onoff mm = mm\<lparr>mm_retry := onoff\<rparr>"

definition encode_key :: "bool \<Rightarrow> memcache \<Rightarrow> memcache" where
  "encode_key onoff mm = mm\<lparr>mm_encode_key := onoff\<rparr>"

definition mc_close :: "'w mc_net \<Rightarrow> memcache \<Rightarrow> 'w \<Rightarrow> memcache \<times> 'w" where
  "mc_close net mm w = (if mm_opened mm then (mm\<lparr>mm_opened := False\<rparr>, mn_close net w) else (mm, w))"

definition mc_open :: "'w mc_net \<Rightarrow> memcache \<Rightarrow> 'w \<Rightarrow> bool \<times> memcache \<times> 'w" where
  "mc_open net mm w =
     (if mm_opened mm then (True, mm, w)
      else case mn_open net w of (ok, w) \<Rightarrow> (ok, mm\<lparr>mm_opened := ok\<rparr>, w))"

section \<open>Keys\<close>

definition SPECIAL_CHAR :: "byte \<Rightarrow> bool" where
  "SPECIAL_CHAR c \<longleftrightarrow> c = 32 \<or> c = 9 \<or> c = 13 \<or> c = 10"

definition is_print :: "byte \<Rightarrow> bool" where
  "is_print c \<longleftrightarrow> 32 \<le> c \<and> c \<le> 126"

definition coded :: "byte \<Rightarrow> bool" where
  "coded c \<longleftrightarrow> SPECIAL_CHAR c \<or> \<not> is_print c"

text \<open>The default arguments of \<^verbatim>\<open>rfc2047::encode_update\<close>.\<close>

definition GB2312 :: "byte list" where "GB2312 = [103, 98, 50, 51, 49, 50]"

definition key_encode :: "byte list \<Rightarrow> rfc2047 \<Rightarrow> byte list \<Rightarrow> (rfc2047 \<times> byte list) option" where
  "key_encode bs rf out = map_option (\<lambda>(rf, out, ok). (rf, out)) (rfc_encode_update bs (Some GB2312) 66 rf out)"

text \<open>The loop over the bytes of a key; \<open>b\<close> is \<^verbatim>\<open>beCoding\<close>.\<close>

fun key_loop :: "bool \<Rightarrow> byte list \<Rightarrow> rfc2047 \<Rightarrow> byte list \<Rightarrow> (bool \<times> rfc2047 \<times> byte list) option" where
  "key_loop b [] rf out = Some (b, rf, out)"
| "key_loop b (c # cs) rf out =
     (if coded c then do { (rf, out) \<leftarrow> key_encode [c] rf out; key_loop True cs rf out }
      else if b then do {
        (rf, out) \<leftarrow> rfc_encode_finish rf out;
        key_loop False cs (rfc_reset True rf) (string_add_char out c)
      }
      else key_loop False cs rf (string_add_char out c))"

definition key_end :: "bool \<times> rfc2047 \<times> byte list \<Rightarrow> (rfc2047 \<times> byte list) option" where
  "key_end = (\<lambda>(b, rf, out). if b then rfc_encode_finish rf out else Some (rf, out))"

text \<open>\<^const>\<open>None\<close> for a prefix that is NULL.\<close>

definition set_prefix :: "byte list option \<Rightarrow> memcache \<Rightarrow> memcache option" where
  "set_prefix keypre mm =
     (case keypre of
        None \<Rightarrow> Some (mm\<lparr>mm_keypre := None\<rparr>)
      | Some p \<Rightarrow>
          if cstr p = [] then Some (mm\<lparr>mm_keypre := None\<rparr>)
          else do {
            r \<leftarrow> key_loop False (cstr p) (mm_coder mm) [];
            (rf, out) \<leftarrow> key_end r;
            Some (mm\<lparr>mm_keypre := Some out, mm_coder := rf\<rparr>)
          })"

text \<open>The coder takes the length of a key as an \<^verbatim>\<open>int\<close> and asserts that it is positive.\<close>

definition build_key :: "byte list \<Rightarrow> memcache \<Rightarrow> (memcache \<times> byte list) option" where
  "build_key key mm = do {
     let kbuf = (case mm_keypre mm of None \<Rightarrow> [] | Some p \<Rightarrow> cstr p @ [58]);
     let rf = rfc_reset True (mm_coder mm);
     (rf, kbuf) \<leftarrow>
       (if mm_encode_key mm then do { (rf, kbuf) \<leftarrow> key_encode (take (nat (to_int (int (length key)))) key) rf kbuf; rfc_encode_finish rf kbuf }
        else do { r \<leftarrow> key_loop False key rf kbuf; key_end r });
     Some (mm\<lparr>mm_coder := rf\<rparr>, kbuf)
   }"

section \<open>Requests and their retry\<close>

text \<open>
  The parts of an operation between the label \<^verbatim>\<open>AGAIN\<close> and the jumps to it: a result, or a failure
  (\<^const>\<open>Inr\<close>) that is tried once more if retries are on.
\<close>

definition mc_once ::
  "'w mc_net \<Rightarrow> 'r \<Rightarrow> (memcache \<Rightarrow> 'w \<Rightarrow> ('r + 'r) \<times> memcache \<times> 'w) \<Rightarrow> memcache \<Rightarrow> 'w \<Rightarrow> ('r + 'r) \<times> memcache \<times> 'w" where
  "mc_once net failed attempt mm w =
     (case mc_open net mm w of (ok, mm, w) \<Rightarrow> if ok then attempt mm w else (Inl failed, mm, w))"

definition mc_again ::
  "'w mc_net \<Rightarrow> 'r \<Rightarrow> (memcache \<Rightarrow> 'w \<Rightarrow> ('r + 'r) \<times> memcache \<times> 'w) \<Rightarrow> memcache \<Rightarrow> 'w \<Rightarrow> 'r \<times> memcache \<times> 'w" where
  "mc_again net failed attempt mm w =
     (case mc_once net failed attempt mm w of
        (Inl r, mm, w) \<Rightarrow> (r, mm, w)
      | (Inr r, mm, w) \<Rightarrow>
          if mm_retry mm then
            (case mc_once net failed attempt mm w of (Inl r, mm, w) \<Rightarrow> (r, mm, w) | (Inr r, mm, w) \<Rightarrow> (r, mm, w))
          else (r, mm, w))"

text \<open>A failure that closes the connection.\<close>

definition mc_fail :: "'w mc_net \<Rightarrow> 'a \<Rightarrow> memcache \<Rightarrow> 'w \<Rightarrow> 'a \<times> memcache \<times> 'w" where
  "mc_fail net r mm w = (case mc_close net mm w of (mm, w) \<Rightarrow> (r, mm, w))"

definition STORED :: "byte list" where "STORED = [83, 84, 79, 82, 69, 68]"
definition END :: "byte list" where "END = [69, 78, 68]"
definition VALUE :: "byte list" where "VALUE = [86, 65, 76, 85, 69]"
definition DELETED :: "byte list" where "DELETED = [68, 69, 76, 69, 84, 69, 68]"
definition NOT_FOUND :: "byte list" where "NOT_FOUND = [78, 79, 84, 95, 70, 79, 85, 78, 68]"
definition ERROR :: "byte list" where "ERROR = [69, 82, 82, 79, 82]"
definition CLIENT_ERROR :: "byte list" where "CLIENT_ERROR = [67, 76, 73, 69, 78, 84, 95, 69, 82, 82, 79, 82]"
definition SERVER_ERROR :: "byte list" where "SERVER_ERROR = [83, 69, 82, 86, 69, 82, 95, 69, 82, 82, 79, 82]"

text \<open>\<^verbatim>\<open>"set %s %u %d %d\r\n"\<close>.\<close>

definition set_line :: "byte list \<Rightarrow> u16 \<Rightarrow> int \<Rightarrow> nat \<Rightarrow> byte list" where
  "set_line key flags timeout dlen = [115, 101, 116, 32] @ cstr key @ [32] @ decimal (unat flags) @ [32] @
     decimal_int (to_int timeout) @ [32] @ decimal_int (to_int (int dlen)) @ crlf"

definition set_attempt :: "'w mc_net \<Rightarrow> byte list \<Rightarrow> memcache \<Rightarrow> 'w \<Rightarrow> (bool + bool) \<times> memcache \<times> 'w" where
  "set_attempt net req mm w =
     (case mn_write net req w of
        (False, w) \<Rightarrow> mc_fail net (Inr False) mm w
      | (True, w) \<Rightarrow>
          (case mn_gets net w of
             (None, w) \<Rightarrow> mc_fail net (Inr False) mm w
           | (Some line, w) \<Rightarrow>
               if strcaseeq line STORED then (Inl True, mm, w) else mc_fail net (Inr False) mm w))"

definition set_built :: "'w mc_net \<Rightarrow> byte list \<Rightarrow> byte list \<Rightarrow> int \<Rightarrow> u16 \<Rightarrow> memcache \<Rightarrow> 'w \<Rightarrow> bool \<times> memcache \<times> 'w" where
  "set_built net key dat timeout flags =
     mc_again net False (set_attempt net (set_line key flags timeout (length dat) @ dat @ crlf))"

definition mc_set ::
  "'w mc_net \<Rightarrow> byte list \<Rightarrow> byte list \<Rightarrow> int \<Rightarrow> u16 \<Rightarrow> memcache \<Rightarrow> 'w \<Rightarrow> (bool \<times> memcache \<times> 'w) option" where
  "mc_set net key dat timeout flags mm w = do {
     (mm, kbuf) \<leftarrow> build_key key mm;
     Some (set_built net kbuf dat timeout flags mm w)
   }"

text \<open>Setting a value in pieces.\<close>

definition begin_attempt :: "'w mc_net \<Rightarrow> byte list \<Rightarrow> memcache \<Rightarrow> 'w \<Rightarrow> (bool + bool) \<times> memcache \<times> 'w" where
  "begin_attempt net req mm w =
     (case mn_write net req w of (ok, w) \<Rightarrow> if ok then (Inl True, mm, w) else mc_fail net (Inr False) mm w)"

definition set_begin ::
  "'w mc_net \<Rightarrow> byte list \<Rightarrow> nat \<Rightarrow> int \<Rightarrow> u16 \<Rightarrow> memcache \<Rightarrow> 'w \<Rightarrow> (bool \<times> memcache \<times> 'w) option" where
  "set_begin net key dlen timeout flags mm w =
     (if dlen = 0 then Some (False, mm, w)
      else do {
        let mm = mm\<lparr>mm_content_length := word_of_nat dlen, mm_length := 0\<rparr>;
        (mm, kbuf) \<leftarrow> build_key (cstr key) mm;
        Some (mc_again net False (begin_attempt net (set_line kbuf flags timeout dlen)) mm w)
      })"

definition set_data :: "'w mc_net \<Rightarrow> byte list option \<Rightarrow> memcache \<Rightarrow> 'w \<Rightarrow> bool \<times> memcache \<times> 'w" where
  "set_data net data mm w =
     (if \<not> mm_opened mm then (False, mm, w)
      else case data of
        None \<Rightarrow> (False, mm, w)
      | Some bs \<Rightarrow>
          let dlen = (word_of_nat (length bs) :: u64) in
          if bs = [] then (False, mm, w)
          else if dlen + mm_length mm > mm_content_length mm then (False, mm, w)
          else if dlen + mm_length mm < mm_content_length mm then
            (case mn_write net bs w of
               (False, w) \<Rightarrow> mc_fail net False mm w
             | (True, w) \<Rightarrow> (True, mm\<lparr>mm_length := mm_length mm + dlen\<rparr>, w))
          else
            (case mn_write net (bs @ crlf) w of
               (False, w) \<Rightarrow> mc_fail net False mm w
             | (True, w) \<Rightarrow>
                 let mm = mm\<lparr>mm_length := mm_length mm + dlen\<rparr> in
                 (case mn_gets net w of
                    (None, w) \<Rightarrow> mc_fail net False mm w
                  | (Some line, w) \<Rightarrow> if strcaseeq line STORED then (True, mm, w) else mc_fail net False mm w)))"

section \<open>Getting and deleting\<close>

text \<open>\<^verbatim>\<open>acl_argv_split\<close>: the tokens between the given delimiters.\<close>

fun argv_split :: "byte list \<Rightarrow> byte list \<Rightarrow> byte list \<Rightarrow> byte list list" where
  "argv_split delim tok [] = (if tok = [] then [] else [tok])"
| "argv_split delim tok (c # cs) =
     (if c \<in> set delim then (if tok = [] then [] else [tok]) @ argv_split delim [] cs
      else argv_split delim (tok @ [c]) cs)"

definition acl_argv_split :: "byte list \<Rightarrow> byte list \<Rightarrow> byte list list" where
  "acl_argv_split s delim = argv_split delim [] (cstr s)"

text \<open>\<^verbatim>\<open>strncasecmp(line, "...", sizeof("...") - 1)\<close>.\<close>

definition begins_with :: "byte list \<Rightarrow> byte list \<Rightarrow> bool" where
  "begins_with line p \<longleftrightarrow> map to_lower (take (length p) (cstr line)) = map to_lower p"

text \<open>The number behind an error word of the given length.\<close>

definition error_number :: "nat \<Rightarrow> byte list \<Rightarrow> int" where
  "error_number n line =
     (let ptr = drop n (cstr line) in
      atoi (if ptr \<noteq> [] \<and> (hd ptr = 32 \<or> hd ptr = 9) then tl ptr else ptr))"

definition error_happen :: "byte list \<Rightarrow> memcache \<Rightarrow> bool \<times> memcache" where
  "error_happen line mm =
     (if strcaseeq line ERROR then (True, mm)
      else if begins_with line CLIENT_ERROR then (True, mm\<lparr>mm_enum := error_number (length CLIENT_ERROR) line\<rparr>)
      else if begins_with line SERVER_ERROR then (True, mm\<lparr>mm_enum := error_number (length SERVER_ERROR) line\<rparr>)
      else (False, mm))"

text \<open>\<^verbatim>\<open>get_begin\<close>: the number it returns, and the flags if it sets them.\<close>

definition get_attempt ::
  "'w mc_net \<Rightarrow> byte list \<Rightarrow> memcache \<Rightarrow> 'w \<Rightarrow> (int \<times> u16 option + int \<times> u16 option) \<times> memcache \<times> 'w" where
  "get_attempt net req mm w =
     (case mn_write net req w of
        (False, w) \<Rightarrow> mc_fail net (Inr (- 1, None)) mm w
      | (True, w) \<Rightarrow>
          (case mn_gets net w of
             (None, w) \<Rightarrow> mc_fail net (Inr (- 1, None)) mm w
           | (Some line, w) \<Rightarrow>
               if strcaseeq line END then (Inl (0, None), mm, w)
               else case error_happen line mm of (bad, mm) \<Rightarrow>
                 if bad then mc_fail net (Inl (- 1, None)) mm w
                 else
                   let tokens = acl_argv_split line [32, 9] in
                   if length tokens < 4 \<or> \<not> strcaseeq (tokens ! 0) VALUE then mc_fail net (Inl (- 1, None)) mm w
                   else
                     let flags = word_of_int (atoi (tokens ! 2)); n = (word_of_int (atoi (tokens ! 3)) :: u64) in
                     (Inl (if n = 0 then 0 else sint (ucast n :: u32), Some flags), mm\<lparr>mm_content_length := n\<rparr>, w)))"

definition get_line :: "byte list \<Rightarrow> byte list" where
  "get_line key = [103, 101, 116, 32] @ cstr key @ crlf"

definition get_begin ::
  "'w mc_net \<Rightarrow> byte list \<Rightarrow> memcache \<Rightarrow> 'w \<Rightarrow> ((int \<times> u16 option) \<times> memcache \<times> 'w) option" where
  "get_begin net key mm w = do {
     let mm = mm\<lparr>mm_content_length := 0, mm_length := 0\<rparr>;
     (mm, kbuf) \<leftarrow> build_key key mm;
     Some (mc_again net (- 1, None) (get_attempt net (get_line kbuf)) mm w)
   }"

text \<open>
  \<^verbatim>\<open>get_data\<close> into a buffer of \<open>room\<close> bytes: the number returned and the bytes read. It uses the connection
  without asking whether it is open; \<^const>\<open>None\<close> then, as for the assertion.
\<close>

definition get_data ::
  "'w mc_net \<Rightarrow> u64 \<Rightarrow> memcache \<Rightarrow> 'w \<Rightarrow> ((int \<times> byte list) \<times> memcache \<times> 'w) option" where
  "get_data net room mm w =
     (if mm_content_length mm < mm_length mm \<or> \<not> mm_opened mm then None
      else if mm_length mm = mm_content_length mm then
        Some (case mn_gets net w of
            (None, w) \<Rightarrow> mc_fail net (- 1, []) mm w
          | (Some _, w) \<Rightarrow>
              (case mn_gets net w of
                 (None, w) \<Rightarrow> mc_fail net (- 1, []) mm w
               | (Some line, w) \<Rightarrow>
                   if strcaseeq line END then ((0, []), mm, w) else mc_fail net (- 1, []) mm w))
      else
        let left = mm_content_length mm - mm_length mm; n = (if left > room then room else left) in
        Some (case mn_read net (unat n) w of
            (None, w) \<Rightarrow> mc_fail net (- 1, []) mm w
          | (Some bs, w) \<Rightarrow> ((sint (ucast n :: u32), bs), mm\<lparr>mm_length := mm_length mm + n\<rparr>, w)))"

partial_function (option) get_loop ::
  "'w mc_net \<Rightarrow> byte list \<Rightarrow> memcache \<Rightarrow> 'w \<Rightarrow> ((bool \<times> byte list) \<times> memcache \<times> 'w) option" where
  "get_loop net out mm w = do {
     ((n, bs), mm, w) \<leftarrow> get_data net 4096 mm w;
     if n < 0 then Some ((False, out), mm, w)
     else if n = 0 then Some ((out \<noteq> [], out), mm, w)
     else get_loop net (out @ bs) mm w
   }"

declare get_loop.simps [code]

definition mc_get ::
  "'w mc_net \<Rightarrow> byte list \<Rightarrow> memcache \<Rightarrow> 'w \<Rightarrow> ((bool \<times> byte list \<times> u16 option) \<times> memcache \<times> 'w) option" where
  "mc_get net key mm w = do {
     ((len, flags), mm, w) \<leftarrow> get_begin net key mm w;
     if len \<le> 0 then Some ((False, [], flags), mm, w)
     else do {
       ((ok, out), mm, w) \<leftarrow> get_loop net [] mm w;
       Some ((ok, out, flags), mm, w)
     }
   }"

text \<open>Setting the time limit of a key: its value is read and written again.\<close>

definition mc_touch ::
  "'w mc_net \<Rightarrow> byte list \<Rightarrow> int \<Rightarrow> memcache \<Rightarrow> 'w \<Rightarrow> (bool \<times> memcache \<times> 'w) option" where
  "mc_touch net key timeout mm w = do {
     ((ok, buf, flags), mm, w) \<leftarrow> mc_get net key mm w;
     if \<not> ok then Some (False, mm, w)
     else do {
       f \<leftarrow> flags;
       (mm, kbuf) \<leftarrow> build_key key mm;
       Some (set_built net kbuf buf timeout f mm w)
     }
   }"

definition delete_line :: "byte list \<Rightarrow> byte list" where
  "delete_line key = [100, 101, 108, 101, 116, 101, 32] @ cstr key @ crlf"

text \<open>\<^verbatim>\<open>del\<close> does not close the connection when it fails.\<close>

definition del_attempt :: "'w mc_net \<Rightarrow> byte list \<Rightarrow> memcache \<Rightarrow> 'w \<Rightarrow> (bool + bool) \<times> memcache \<times> 'w" where
  "del_attempt net req mm w =
     (case mn_write net req w of
        (False, w) \<Rightarrow> (Inr False, mm, w)
      | (True, w) \<Rightarrow>
          (case mn_gets net w of
             (None, w) \<Rightarrow> (Inr False, mm, w)
           | (Some line, w) \<Rightarrow> (Inl (strcaseeq line DELETED \<or> strcaseeq line NOT_FOUND), mm, w)))"

definition mc_del :: "'w mc_net \<Rightarrow> byte list \<Rightarrow> memcache \<Rightarrow> 'w \<Rightarrow> (bool \<times> memcache \<times> 'w) option" where
  "mc_del net key mm w = do {
     (mm, kbuf) \<leftarrow> build_key key mm;
     Some (mc_again net False (del_attempt net (delete_line kbuf)) mm w)
   }"

end
