(* ===== verification/UrlCoder.thy ===== *)
theory UrlCoder
  imports Memcache
begin

text \<open>
  The coder of URL parameters (\<^verbatim>\<open>stdlib/url_coder.cpp\<close>) and the functions of the C library below it
  (\<^verbatim>\<open>acl_urlcode.c\<close>). Strings are the bytes before their NUL; \<^const>\<open>None\<close> is a NULL pointer.
\<close>

section \<open>Bytes\<close>

definition is_alpha :: "byte \<Rightarrow> bool" where
  "is_alpha c \<longleftrightarrow> (65 \<le> c \<and> c \<le> 90) \<or> (97 \<le> c \<and> c \<le> 122)"

definition is_alnum :: "byte \<Rightarrow> bool" where
  "is_alnum c \<longleftrightarrow> is_digit c \<or> is_alpha c"

definition enc_tab :: "byte list" where
  "enc_tab = [48, 49, 50, 51, 52, 53, 54, 55, 56, 57, 65, 66, 67, 68, 69, 70]"

definition dec_tab :: "byte list" where
  "dec_tab = replicate 48 0 @ [0, 1, 2, 3, 4, 5, 6, 7, 8, 9] @ replicate 7 0 @ [10, 11, 12, 13, 14, 15] @
     replicate 26 0 @ [10, 11, 12, 13, 14, 15] @ replicate 153 0"

text \<open>The bytes \<^verbatim>\<open>_-.\<close> are kept, as letters and digits are.\<close>

definition url_plain :: "byte \<Rightarrow> bool" where
  "url_plain c \<longleftrightarrow> is_alnum c \<or> c \<in> {95, 45, 46}"

definition url_byte :: "byte \<Rightarrow> byte list" where
  "url_byte c = (if url_plain c then [c] else [37, enc_tab ! unat (drop_bit 4 c), enc_tab ! unat (c AND 0x0F)])"

definition url_encode :: "byte list \<Rightarrow> byte list" where
  "url_encode s = concat (map url_byte (cstr s))"

text \<open>
  The loop of the decoder: a percent sign with less than two bytes behind it ends the text, and the byte behind
  it is overwritten by the NUL. What it returns is read up to its first NUL.
\<close>

fun decode_bytes :: "byte list \<Rightarrow> byte list" where
  "decode_bytes [] = []"
| "decode_bytes (c # cs) =
     (if c \<noteq> 37 then c # decode_bytes cs
      else case cs of
        a # b # rest \<Rightarrow>
          if is_alnum a \<and> is_alnum b then (push_bit 4 (dec_tab ! unat a) + dec_tab ! unat b) # decode_bytes rest
          else c # decode_bytes cs
      | _ \<Rightarrow> [c])"

definition url_decode :: "byte list \<Rightarrow> byte list" where
  "url_decode s = cstr (decode_bytes (cstr s))"

section \<open>The parameters\<close>

type_synonym url_nv = "byte list \<times> byte list option"

record url_coder =
  uc_nocase :: bool
  uc_params :: "url_nv list"
  uc_buf :: "byte list"

definition url_coder_new :: "bool \<Rightarrow> url_coder" where
  "url_coder_new nocase = \<lparr>uc_nocase = nocase, uc_params = [], uc_buf = []\<rparr>"

definition url_reset :: "url_coder \<Rightarrow> url_coder" where
  "url_reset c = c\<lparr>uc_params := [], uc_buf := []\<rparr>"

text \<open>The comparison: \<^verbatim>\<open>strcasecmp\<close> or \<^verbatim>\<open>strcmp\<close>.\<close>

definition url_cmp :: "bool \<Rightarrow> byte list \<Rightarrow> byte list \<Rightarrow> bool" where
  "url_cmp nocase x y \<longleftrightarrow> (if nocase then strcaseeq x y else cstr x = cstr y)"

definition url_pair :: "url_nv \<Rightarrow> byte list" where
  "url_pair nv =
     (case snd nv of
        Some (v # vs) \<Rightarrow> url_encode (fst nv) @ 61 # url_encode (v # vs)
      | _ \<Rightarrow> url_encode (fst nv))"

fun url_pairs :: "url_nv list \<Rightarrow> byte list" where
  "url_pairs [] = []"
| "url_pairs [nv] = url_pair nv"
| "url_pairs (nv # nvs) = url_pair nv @ 38 # url_pairs nvs"

definition url_coder_encode :: "url_coder \<Rightarrow> byte list \<Rightarrow> bool \<Rightarrow> byte list" where
  "url_coder_encode c buf clean = (if clean then [] else buf) @ url_pairs (uc_params c)"

definition url_to_string :: "url_coder \<Rightarrow> url_coder \<times> byte list" where
  "url_to_string c = (let s = url_coder_encode c (uc_buf c) True in (c\<lparr>uc_buf := s\<rparr>, s))"

text \<open>One token of a text: the name ends at the first equals sign.\<close>

definition url_token :: "byte list \<Rightarrow> url_nv" where
  "url_token t =
     (let name = takeWhile (\<lambda>c. c \<noteq> 61) t in
      case dropWhile (\<lambda>c. c \<noteq> 61) t of
        [] \<Rightarrow> (url_decode name, None)
      | [_] \<Rightarrow> (url_decode name, Some (url_decode []))
      | _ # v \<Rightarrow> (url_decode name, Some (url_decode v)))"

definition url_coder_decode :: "byte list \<Rightarrow> url_coder \<Rightarrow> url_coder" where
  "url_coder_decode str c = c\<lparr>uc_params := uc_params c @ map url_token (acl_argv_split str [38])\<rparr>"

text \<open>The removal of the first parameter of the name.\<close>

fun url_erase :: "bool \<Rightarrow> byte list \<Rightarrow> url_nv list \<Rightarrow> url_nv list" where
  "url_erase nocase name [] = []"
| "url_erase nocase name (nv # nvs) =
     (if url_cmp nocase (fst nv) name then nvs else nv # url_erase nocase name nvs)"

definition url_set :: "byte list option \<Rightarrow> byte list option \<Rightarrow> bool \<Rightarrow> url_coder \<Rightarrow> url_coder" where
  "url_set name val override c =
     (case map_option cstr name of
        None \<Rightarrow> c
      | Some name \<Rightarrow>
          if name = [] then c
          else
            let c = (if override then c\<lparr>uc_params := url_erase (uc_nocase c) name (uc_params c)\<rparr> else c);
              v = (case map_option cstr val of Some (x # xs) \<Rightarrow> Some (x # xs) | _ \<Rightarrow> None)
            in c\<lparr>uc_params := uc_params c @ [(name, v)]\<rparr>)"

definition url_set_int :: "byte list option \<Rightarrow> int \<Rightarrow> bool \<Rightarrow> url_coder \<Rightarrow> url_coder" where
  "url_set_int name n override c = url_set name (Some (decimal_int n)) override c"

text \<open>The value and whether the name was found.\<close>

definition url_get :: "byte list \<Rightarrow> url_coder \<Rightarrow> byte list option \<times> bool" where
  "url_get name c =
     (case find (\<lambda>nv. url_cmp (uc_nocase c) (fst nv) name) (uc_params c) of
        Some nv \<Rightarrow> (snd nv, True)
      | None \<Rightarrow> (None, False))"

definition url_del :: "byte list \<Rightarrow> url_coder \<Rightarrow> url_coder \<times> bool" where
  "url_del name c =
     (if \<exists>nv \<in> set (uc_params c). url_cmp (uc_nocase c) (fst nv) name
      then (c\<lparr>uc_params := url_erase (uc_nocase c) name (uc_params c)\<rparr>, True) else (c, False))"

text \<open>The copy constructor and the assignment.\<close>

definition url_add_all :: "url_nv list \<Rightarrow> url_coder \<Rightarrow> url_coder" where
  "url_add_all nvs c = fold (\<lambda>nv. url_set (Some (fst nv)) (snd nv) True) nvs c"

definition url_copy :: "url_coder \<Rightarrow> url_coder" where
  "url_copy c = url_add_all (uc_params c) \<lparr>uc_nocase = uc_nocase c, uc_params = [], uc_buf = cstr (uc_buf c)\<rparr>"

definition url_assign :: "url_coder \<Rightarrow> url_coder \<Rightarrow> url_coder" where
  "url_assign c d = url_add_all (uc_params d) (c\<lparr>uc_nocase := uc_nocase d, uc_buf := cstr (uc_buf d)\<rparr>)"

end
