(* ===== verification/HttpCookie.thy ===== *)
theory HttpCookie
  imports UrlCoder
begin

text \<open>Cookies (\<^verbatim>\<open>http/HttpCookie.cpp\<close>).\<close>

record http_cookie =
  ck_name :: "byte list option"
  ck_value :: "byte list option"
  ck_params :: "(byte list \<times> byte list) list"

definition cookie_empty :: http_cookie where
  "cookie_empty = \<lparr>ck_name = None, ck_value = None, ck_params = []\<rparr>"

text \<open>\<^const>\<open>None\<close> where the assertion of the constructor fails.\<close>

definition cookie_new :: "byte list option \<Rightarrow> byte list option \<Rightarrow> http_cookie option" where
  "cookie_new name val =
     (case (map_option cstr name, map_option cstr val) of
        (Some (n # ns), Some v) \<Rightarrow> Some \<lparr>ck_name = Some (n # ns), ck_value = Some v, ck_params = []\<rparr>
      | _ \<Rightarrow> None)"

definition cookie_copy :: "http_cookie \<Rightarrow> http_cookie" where
  "cookie_copy c = \<lparr>ck_name = map_option cstr (ck_name c), ck_value = map_option cstr (ck_value c),
     ck_params = map (\<lambda>(n, v). (cstr n, cstr v)) (ck_params c)\<rparr>"

section \<open>Parsing\<close>

definition is_blank :: "byte \<Rightarrow> bool" where
  "is_blank c \<longleftrightarrow> c = 32 \<or> c = 9"

definition skip_special :: "byte list \<Rightarrow> byte list" where
  "skip_special s = dropWhile (\<lambda>c. is_blank c \<or> c = 61) s"

definition strip_end :: "byte list \<Rightarrow> byte list" where
  "strip_end s = rev (dropWhile is_blank (rev s))"

text \<open>\<^const>\<open>None\<close> for the result false. The first byte of the name is not stripped.\<close>

definition split_name_value :: "byte list \<Rightarrow> (byte list \<times> byte list) option" where
  "split_name_value data =
     (case skip_special data of
        [] \<Rightarrow> None
      | n # ns \<Rightarrow>
          (case dropWhile (\<lambda>c. c \<noteq> 61) (n # ns) of
             [] \<Rightarrow> None
           | _ # rest \<Rightarrow>
               Some (n # strip_end (takeWhile (\<lambda>c. c \<noteq> 61) ns), strip_end (skip_special rest))))"

definition DOMAIN :: "byte list" where "DOMAIN = [68, 111, 109, 97, 105, 110]"
definition EXPIRES :: "byte list" where "EXPIRES = [69, 120, 112, 105, 114, 101, 115]"
definition PATH :: "byte list" where "PATH = [80, 97, 116, 104]"
definition MAX_AGE :: "byte list" where "MAX_AGE = [77, 97, 120, 45, 65, 103, 101]"

definition cookie_add :: "byte list option \<Rightarrow> byte list option \<Rightarrow> http_cookie \<Rightarrow> http_cookie" where
  "cookie_add name val c =
     (case (map_option cstr name, map_option cstr val) of
        (Some (n # ns), Some v) \<Rightarrow> c\<lparr>ck_params := ck_params c @ [(n # ns, v)]\<rparr>
      | _ \<Rightarrow> c)"

definition set_domain :: "byte list option \<Rightarrow> http_cookie \<Rightarrow> http_cookie" where
  "set_domain d = cookie_add (Some DOMAIN) d"

definition set_path :: "byte list option \<Rightarrow> http_cookie \<Rightarrow> http_cookie" where
  "set_path p = cookie_add (Some PATH) p"

definition set_expires :: "byte list option \<Rightarrow> http_cookie \<Rightarrow> http_cookie" where
  "set_expires e c = (case map_option cstr e of Some (x # xs) \<Rightarrow> cookie_add (Some EXPIRES) (Some (x # xs)) c | _ \<Rightarrow> c)"

text \<open>The time limit as a number of seconds; \<open>date\<close> gives the text of the time so far ahead.\<close>

definition set_expires_in :: "(int \<Rightarrow> byte list) \<Rightarrow> int \<Rightarrow> http_cookie \<Rightarrow> http_cookie" where
  "set_expires_in date timeout c = (if timeout > 0 then cookie_add (Some EXPIRES) (Some (date timeout)) c else c)"

definition set_max_age :: "int \<Rightarrow> http_cookie \<Rightarrow> http_cookie" where
  "set_max_age n = cookie_add (Some MAX_AGE) (Some (decimal_int n))"

definition cookie_param :: "byte list \<Rightarrow> http_cookie \<Rightarrow> http_cookie" where
  "cookie_param token c =
     (case split_name_value token of
        None \<Rightarrow> c
      | Some (n, v) \<Rightarrow>
          if v = [] then c
          else if strcaseeq n DOMAIN then set_domain (Some v) c
          else if strcaseeq n EXPIRES then set_expires (Some v) c
          else if strcaseeq n PATH then set_path (Some v) c
          else cookie_add (Some n) (Some v) c)"

text \<open>\<^const>\<open>None\<close> where the assertion that there is a token fails.\<close>

definition set_cookie :: "byte list option \<Rightarrow> http_cookie \<Rightarrow> (bool \<times> http_cookie) option" where
  "set_cookie val c =
     (case map_option cstr val of
        None \<Rightarrow> Some (False, c)
      | Some val \<Rightarrow>
          if val = [] then Some (False, c)
          else case acl_argv_split val [59] of
            [] \<Rightarrow> None
          | t # ts \<Rightarrow>
              (case split_name_value t of
                 None \<Rightarrow> Some (False, c)
               | Some (n, v) \<Rightarrow> Some (True, fold cookie_param ts (c\<lparr>ck_name := Some n, ck_value := Some v\<rparr>))))"

section \<open>Reading\<close>

definition get_name :: "http_cookie \<Rightarrow> byte list" where
  "get_name c = (case ck_name c of None \<Rightarrow> [] | Some n \<Rightarrow> n)"

definition get_value :: "http_cookie \<Rightarrow> byte list" where
  "get_value c = (case ck_value c of None \<Rightarrow> [] | Some v \<Rightarrow> v)"

text \<open>Both branches compare in the same way.\<close>

definition get_param :: "byte list \<Rightarrow> bool \<Rightarrow> http_cookie \<Rightarrow> byte list" where
  "get_param name case_insensitive c =
     (case find (\<lambda>nv. if case_insensitive then strcaseeq (fst nv) name else strcaseeq (fst nv) name) (ck_params c) of
        Some nv \<Rightarrow> snd nv
      | None \<Rightarrow> [])"

definition get_expires :: "http_cookie \<Rightarrow> byte list" where "get_expires = get_param EXPIRES True"
definition get_domain :: "http_cookie \<Rightarrow> byte list" where "get_domain = get_param DOMAIN True"
definition get_path :: "http_cookie \<Rightarrow> byte list" where "get_path = get_param PATH True"

definition get_max_age :: "http_cookie \<Rightarrow> int" where
  "get_max_age c = (let p = get_param MAX_AGE True c in if p = [] then - 1 else atoi p)"

end
