(* ===== verification/HttpHeader.thy ===== *)
theory HttpHeader
  imports HttpCookie Sha1
begin

text \<open>
  The header of a request or a response (\<^verbatim>\<open>http/http_header.cpp\<close>): its fields, its methods and the text
  it is written as. What the C library gives, the parsed header of a peer, the text of a date and a check sum, is
  an argument. \<^const>\<open>None\<close> of a string is a NULL pointer, \<^const>\<open>None\<close> of an operation a failed assertion or
  the use of a pointer that is NULL.
\<close>

datatype http_method = HTTP_METHOD_UNKNOWN | HTTP_METHOD_GET | HTTP_METHOD_POST | HTTP_METHOD_PUT
  | HTTP_METHOD_CONNECT | HTTP_METHOD_PURGE | HTTP_METHOD_DELETE | HTTP_METHOD_HEAD | HTTP_METHOD_OPTION
  | HTTP_METHOD_PROPFIND | HTTP_METHOD_PATCH | HTTP_METHOD_OTHER

record http_header =
  hh_fixed :: bool
  hh_url :: "byte list option"
  hh_params :: "url_nv list"
  hh_param_override :: bool
  hh_cookies :: "http_cookie list"
  hh_entries :: "(byte list \<times> byte list) list"
  hh_method :: http_method
  hh_version :: "byte list"
  hh_method_s :: "byte list"
  hh_host :: "byte list"
  hh_keep_alive :: bool
  hh_nredirect :: u32
  hh_accept_compress :: bool
  hh_status :: int
  hh_is_request :: bool
  hh_cgi_mode :: bool
  hh_range_from :: int
  hh_range_to :: int
  hh_range_total :: int
  hh_content_length :: int
  hh_chunked :: bool
  hh_gzip :: bool
  hh_upgrade :: "byte list option"
  hh_ws_origin :: "byte list option"
  hh_ws_sec_key :: "byte list option"
  hh_ws_sec_proto :: "byte list option"
  hh_ws_sec_ver :: int
  hh_ws_sec_accept :: "byte list option"

definition GET :: "byte list" where "GET = [71, 69, 84]"
definition UNKNOWN :: "byte list" where "UNKNOWN = [85, 78, 75, 78, 79, 87, 78]"

text \<open>\<^verbatim>\<open>init\<close> of a new header, and \<^verbatim>\<open>reset\<close>, which leaves \<^verbatim>\<open>fixed_\<close> as it is.\<close>

definition header_init :: "bool \<Rightarrow> http_header" where
  "header_init fixed = \<lparr>hh_fixed = fixed, hh_url = None, hh_params = [], hh_param_override = False, hh_cookies = [],
     hh_entries = [], hh_method = HTTP_METHOD_GET, hh_version = [], hh_method_s = GET, hh_host = [],
     hh_keep_alive = False, hh_nredirect = 0, hh_accept_compress = True, hh_status = 200, hh_is_request = True,
     hh_cgi_mode = False, hh_range_from = - 1, hh_range_to = - 1, hh_range_total = - 1, hh_content_length = - 1,
     hh_chunked = False, hh_gzip = False, hh_upgrade = None, hh_ws_origin = None, hh_ws_sec_key = None,
     hh_ws_sec_proto = None, hh_ws_sec_ver = - 1, hh_ws_sec_accept = None\<rparr>"

definition http_header_reset :: "http_header \<Rightarrow> http_header" where
  "http_header_reset h = header_init (hh_fixed h)"

section \<open>Entries, parameters and cookies\<close>

text \<open>\<^verbatim>\<open>ACL_SAFE_STRNCPY\<close> into an array.\<close>

definition scopy :: "nat \<Rightarrow> byte list \<Rightarrow> byte list" where
  "scopy n s = take (n - 1) (cstr s)"

text \<open>A string argument that is neither NULL nor empty.\<close>

definition given :: "byte list option \<Rightarrow> byte list option" where
  "given s = (case map_option cstr s of Some (x # xs) \<Rightarrow> Some (x # xs) | _ \<Rightarrow> None)"

fun replace_entry :: "byte list \<Rightarrow> byte list \<Rightarrow> (byte list \<times> byte list) list \<Rightarrow> (byte list \<times> byte list) list" where
  "replace_entry name v [] = [(name, v)]"
| "replace_entry name v (e # es) = (if strcaseeq (fst e) name then (fst e, v) # es else e # replace_entry name v es)"

definition add_entry :: "byte list option \<Rightarrow> byte list option \<Rightarrow> bool \<Rightarrow> http_header \<Rightarrow> http_header" where
  "add_entry name v replace h =
     (case (given name, given v) of
        (Some name, Some v) \<Rightarrow>
          h\<lparr>hh_entries := if replace then replace_entry name v (hh_entries h) else hh_entries h @ [(name, v)]\<rparr>
      | _ \<Rightarrow> h)"

definition get_entry :: "byte list \<Rightarrow> http_header \<Rightarrow> byte list option" where
  "get_entry name h = map_option snd (find (\<lambda>e. strcaseeq (fst e) name) (hh_entries h))"

definition CONTENT_TYPE :: "byte list" where "CONTENT_TYPE = [67, 111, 110, 116, 101, 110, 116, 45, 84, 121, 112, 101]"

definition set_content_type :: "byte list option \<Rightarrow> http_header \<Rightarrow> http_header" where
  "set_content_type v = add_entry (Some CONTENT_TYPE) v True"

fun replace_param :: "byte list \<Rightarrow> byte list option \<Rightarrow> url_nv list \<Rightarrow> url_nv list" where
  "replace_param name v [] = [(name, v)]"
| "replace_param name v (p # ps) = (if strcaseeq (fst p) name then (fst p, v) # ps else p # replace_param name v ps)"

definition add_param :: "byte list option \<Rightarrow> byte list option \<Rightarrow> http_header \<Rightarrow> http_header" where
  "add_param name v h =
     (case given name of
        None \<Rightarrow> h
      | Some name \<Rightarrow>
          let v = map_option cstr v in
          h\<lparr>hh_params := if hh_param_override h then replace_param name v (hh_params h) else hh_params h @ [(name, v)]\<rparr>)"

definition add_int :: "byte list option \<Rightarrow> int \<Rightarrow> http_header \<Rightarrow> http_header" where
  "add_int name n = add_param name (Some (decimal_int n))"

definition add_cookie ::
  "(int \<Rightarrow> byte list) \<Rightarrow> byte list option \<Rightarrow> byte list option \<Rightarrow> byte list option \<Rightarrow> byte list option \<Rightarrow> int \<Rightarrow>
   http_header \<Rightarrow> http_header" where
  "add_cookie date name v domain path expires h =
     (case (given name, map_option cstr v) of
        (Some name, Some v) \<Rightarrow>
          let c = \<lparr>ck_name = Some name, ck_value = Some v, ck_params = []\<rparr>;
            c = (case given domain of None \<Rightarrow> c | Some d \<Rightarrow> set_domain (Some d) c);
            c = (case given path of None \<Rightarrow> c | Some p \<Rightarrow> set_path (Some p) c);
            c = (if expires > 0 then set_expires_in date expires c else c)
          in h\<lparr>hh_cookies := hh_cookies h @ [c]\<rparr>
      | _ \<Rightarrow> h)"

definition add_cookie_object :: "http_cookie option \<Rightarrow> http_header \<Rightarrow> http_header" where
  "add_cookie_object c h = (case c of None \<Rightarrow> h | Some c \<Rightarrow> h\<lparr>hh_cookies := hh_cookies h @ [cookie_copy c]\<rparr>)"

definition get_cookie :: "byte list option \<Rightarrow> http_header \<Rightarrow> http_cookie option" where
  "get_cookie name h =
     (case given name of None \<Rightarrow> None | Some n \<Rightarrow> find (\<lambda>c. strcaseeq (get_name c) n) (hh_cookies h))"

text \<open>It returns for every value that is not NULL, and reads the others.\<close>

definition add_res_cookie :: "byte list option \<Rightarrow> http_header \<Rightarrow> http_header option" where
  "add_res_cookie v h = (if v \<noteq> None then Some h else None)"

section \<open>Other fields\<close>

definition set_proto_version :: "byte list option \<Rightarrow> http_header \<Rightarrow> http_header" where
  "set_proto_version v h = (case given v of None \<Rightarrow> h | Some v \<Rightarrow> h\<lparr>hh_version := scopy 8 v\<rparr>)"

definition set_request_mode :: "bool \<Rightarrow> http_header \<Rightarrow> http_header" where
  "set_request_mode onoff h = h\<lparr>hh_is_request := onoff\<rparr>"

definition set_content_length :: "int \<Rightarrow> http_header \<Rightarrow> http_header" where
  "set_content_length n h = h\<lparr>hh_content_length := n\<rparr>"

definition set_chunked :: "bool \<Rightarrow> http_header \<Rightarrow> http_header" where
  "set_chunked on h = h\<lparr>hh_chunked := on\<rparr>"

definition http_keep_alive :: "bool \<Rightarrow> http_header \<Rightarrow> http_header" where
  "http_keep_alive on h = h\<lparr>hh_keep_alive := on\<rparr>"

definition set_host :: "byte list option \<Rightarrow> http_header \<Rightarrow> http_header" where
  "set_host v h = (case given v of None \<Rightarrow> h | Some v \<Rightarrow> h\<lparr>hh_host := scopy 256 v\<rparr>)"

definition method_names :: "(http_method \<times> byte list) list" where
  "method_names =
    [(HTTP_METHOD_GET, GET), (HTTP_METHOD_POST, [80, 79, 83, 84]), (HTTP_METHOD_PUT, [80, 85, 84]),
     (HTTP_METHOD_CONNECT, [67, 79, 78, 78, 69, 67, 84]), (HTTP_METHOD_PURGE, [80, 85, 82, 71, 69]),
     (HTTP_METHOD_DELETE, [68, 69, 76, 69, 84, 69]), (HTTP_METHOD_HEAD, [72, 69, 65, 68]),
     (HTTP_METHOD_OPTION, [79, 80, 84, 73, 79, 78, 83]), (HTTP_METHOD_PROPFIND, [80, 82, 79, 80, 70, 73, 78, 68]),
     (HTTP_METHOD_PATCH, [80, 65, 84, 67, 72])]"

definition set_method :: "http_method \<Rightarrow> http_header \<Rightarrow> http_header" where
  "set_method m h = h\<lparr>hh_method := m,
     hh_method_s := (case map_of method_names m of Some s \<Rightarrow> s | None \<Rightarrow> UNKNOWN)\<rparr>"

definition set_method_name :: "byte list \<Rightarrow> http_header \<Rightarrow> http_header" where
  "set_method_name s h = h\<lparr>
     hh_method := (case find (\<lambda>m. strcaseeq s (snd m)) method_names of
         Some m \<Rightarrow> fst m
       | None \<Rightarrow> if cstr s \<noteq> [] then HTTP_METHOD_OTHER else HTTP_METHOD_UNKNOWN),
     hh_method_s := scopy 64 s\<rparr>"

definition get_method :: "http_header \<Rightarrow> http_method \<times> byte list" where
  "get_method h = (hh_method h, hh_method_s h)"

definition set_range_total :: "int \<Rightarrow> http_header \<Rightarrow> http_header" where
  "set_range_total n h = h\<lparr>hh_range_total := n\<rparr>"

definition set_range :: "int \<Rightarrow> int \<Rightarrow> http_header \<Rightarrow> http_header" where
  "set_range from to h = h\<lparr>hh_range_from := from, hh_range_to := if to \<ge> from then to else - 1\<rparr>"

definition get_range :: "http_header \<Rightarrow> int \<times> int" where
  "get_range h = (hh_range_from h, hh_range_to h)"

text \<open>\<open>zlib\<close>: whether the library is loaded.\<close>

definition accept_gzip :: "bool \<Rightarrow> bool \<Rightarrow> http_header \<Rightarrow> http_header" where
  "accept_gzip zlib on h = h\<lparr>hh_accept_compress := on \<and> zlib\<rparr>"

definition set_param_override :: "bool \<Rightarrow> http_header \<Rightarrow> http_header" where
  "set_param_override yes h = h\<lparr>hh_param_override := yes\<rparr>"

definition set_upgrade :: "byte list option \<Rightarrow> http_header \<Rightarrow> http_header" where
  "set_upgrade v h = (case given v of None \<Rightarrow> h\<lparr>hh_upgrade := None\<rparr> | Some v \<Rightarrow> h\<lparr>hh_upgrade := Some v, hh_status := 101\<rparr>)"

definition set_ws_origin :: "byte list option \<Rightarrow> http_header \<Rightarrow> http_header" where
  "set_ws_origin v h = (case given v of None \<Rightarrow> h | Some v \<Rightarrow> h\<lparr>hh_ws_origin := Some v\<rparr>)"

text \<open>\<^verbatim>\<open>acl_base64_encode\<close>, whose groups the coder of \<^verbatim>\<open>acl::string\<close> has too, and \<^verbatim>\<open>acl_hex_encode\<close>.\<close>

definition acl_base64_encode :: "byte list \<Rightarrow> byte list" where
  "acl_base64_encode bs = encode_groups to_b64_tab 61 bs"

definition acl_hex_encode :: "byte list \<Rightarrow> byte list" where
  "acl_hex_encode bs = concat (map (\<lambda>c. [enc_tab ! unat (drop_bit 4 c), enc_tab ! unat (c AND 0xF)]) bs)"

text \<open>\<open>crc64\<close> is \<^verbatim>\<open>acl_hash_crc64\<close>.\<close>

definition set_ws_key :: "(byte list \<Rightarrow> u64) \<Rightarrow> byte list \<Rightarrow> http_header \<Rightarrow> http_header" where
  "set_ws_key crc64 key h =
     (if key = [] then h
      else h\<lparr>hh_ws_sec_key := Some (acl_base64_encode (acl_hex_encode (store64 (crc64 key))))\<rparr>)"

definition set_ws_protocol :: "byte list option \<Rightarrow> http_header \<Rightarrow> http_header" where
  "set_ws_protocol v h = (case given v of None \<Rightarrow> h | Some v \<Rightarrow> h\<lparr>hh_ws_sec_proto := Some v\<rparr>)"

definition set_ws_version :: "int \<Rightarrow> http_header \<Rightarrow> http_header" where
  "set_ws_version v h = h\<lparr>hh_ws_sec_ver := v\<rparr>"

text \<open>It sets the key.\<close>

definition set_ws_accept :: "byte list option \<Rightarrow> http_header \<Rightarrow> http_header" where
  "set_ws_accept v h = (case given v of None \<Rightarrow> h | Some v \<Rightarrow> h\<lparr>hh_ws_sec_key := Some v\<rparr>)"

definition set_redirect :: "u32 \<Rightarrow> http_header \<Rightarrow> http_header" where
  "set_redirect n h = h\<lparr>hh_nredirect := n\<rparr>"

definition set_http_status :: "int \<Rightarrow> http_header \<Rightarrow> http_header" where
  "set_http_status status h = h\<lparr>hh_status := status, hh_is_request := False\<rparr>"

definition set_cgi_mode :: "bool \<Rightarrow> http_header \<Rightarrow> http_header" where
  "set_cgi_mode on h = h\<lparr>hh_cgi_mode := on, hh_is_request := if on then False else hh_is_request h\<rparr>"

definition set_transfer_gzip :: "bool \<Rightarrow> http_header \<Rightarrow> http_header" where
  "set_transfer_gzip on h = h\<lparr>hh_is_request := if on then False else hh_is_request h, hh_gzip := on\<rparr>"

section \<open>URLs\<close>

definition url_schemes :: "byte list list" where
  "url_schemes = [[104, 116, 116, 112, 58, 47, 47], [104, 116, 116, 112, 115, 58, 47, 47],
     [119, 115, 58, 47, 47], [119, 115, 115, 58, 47, 47]]"

text \<open>The scheme a text begins with; its length is the number of bytes in front of the host.\<close>

definition url_scheme :: "byte list list \<Rightarrow> byte list \<Rightarrow> byte list option" where
  "url_scheme schemes url = find (begins_with url) schemes"

text \<open>The parameters behind the first question mark at or behind the position \<open>from\<close> are cut off the URL and added.\<close>

definition add_all_params :: "url_nv list \<Rightarrow> http_header \<Rightarrow> http_header" where
  "add_all_params nvs h = fold (\<lambda>nv. add_param (Some (fst nv)) (snd nv)) nvs h"

definition cut_params :: "bool \<Rightarrow> nat \<Rightarrow> byte list \<Rightarrow> http_header \<Rightarrow> http_header" where
  "cut_params encoding from url h =
     (let rest = dropWhile (\<lambda>c. c \<noteq> 63) (drop from url) in
      if \<not> encoding \<or> rest = [] then h\<lparr>hh_url := Some url\<rparr>
      else
        let h = h\<lparr>hh_url := Some (take from url @ takeWhile (\<lambda>c. c \<noteq> 63) (drop from url))\<rparr> in
        if tl rest = [] then h
        else add_all_params (uc_params (url_coder_decode (tl rest) (url_coder_new True))) h)"

definition set_url :: "byte list option \<Rightarrow> bool \<Rightarrow> http_header \<Rightarrow> http_header option" where
  "set_url url encoding h =
     (case given url of
        None \<Rightarrow> None
      | Some url \<Rightarrow>
          let h = h\<lparr>hh_is_request := True\<rparr> in
          Some (case url_scheme url_schemes url of
            None \<Rightarrow> cut_params encoding 0 url h
          | Some scheme \<Rightarrow>
              let n = length scheme; host = takeWhile (\<lambda>c. c \<noteq> 47) (drop n url);
                slash = (length (drop n url) > length host) in
              if slash \<and> host \<noteq> [] then
                cut_params encoding (n + length host) url (h\<lparr>hh_host := scopy (min (length host + 1) 256) (drop n url)\<rparr>)
              else cut_params encoding n (if slash then url else url @ [47]) h))"

text \<open>Without a slash behind the host a pointer that is NULL is used.\<close>

definition http_redirect :: "byte list option \<Rightarrow> http_header \<Rightarrow> (bool \<times> http_header) option" where
  "http_redirect url h =
     (case given url of
        None \<Rightarrow> Some (False, h)
      | Some url \<Rightarrow>
          (case url_scheme (take 2 url_schemes) url of
             None \<Rightarrow> Some (True, h\<lparr>hh_url := Some url\<rparr>)
           | Some scheme \<Rightarrow>
               let rest = drop (length scheme) url; host = takeWhile (\<lambda>c. c \<noteq> 47) rest;
                 path = dropWhile (\<lambda>c. c \<noteq> 47) rest; h = h\<lparr>hh_url := None\<rparr> in
               if host = [] then Some (False, h)
               else if path = [] then None
               else Some (True, (set_host (Some host) h)\<lparr>hh_url := Some (if tl path \<noteq> [] then path else [47])\<rparr>)))"

section \<open>Headers of a peer\<close>

record hdr_entry =
  he_name :: "byte list"
  he_value :: "byte list"
  he_off :: bool

record hdr_res =
  res_status :: int
  res_keep_alive :: bool
  res_content_length :: int
  res_chunked :: bool
  res_range :: "(int \<times> int \<times> int) option"
  res_entries :: "hdr_entry list"

record hdr_req =
  req_method :: "byte list"
  req_host :: "byte list"
  req_keep_alive :: bool
  req_content_length :: int
  req_chunked :: bool
  req_range :: "(int \<times> int) option"
  req_proto :: "byte list"
  req_url_part :: "byte list"
  req_entries :: "hdr_entry list"
  req_params :: "(byte list \<times> byte list) list"
  req_cookies :: "(byte list \<times> byte list) list"

definition CONTENT_ENCODING :: "byte list" where "CONTENT_ENCODING = [67, 111, 110, 116, 101, 110, 116, 45, 69, 110, 99, 111, 100, 105, 110, 103]"
definition GZIP :: "byte list" where "GZIP = [103, 122, 105, 112]"
definition SET_COOKIE :: "byte list" where "SET_COOKIE = [83, 101, 116, 45, 67, 111, 111, 107, 105, 101]"

definition res_entry :: "hdr_entry \<Rightarrow> http_header \<Rightarrow> http_header option" where
  "res_entry e h =
     (if he_off e then Some h
      else
        let h = (if strcaseeq (he_name e) CONTENT_ENCODING \<and> strcaseeq (he_value e) GZIP then h\<lparr>hh_gzip := True\<rparr> else h) in
        map_option (add_entry (Some (he_name e)) (Some (he_value e)) True)
          (if strcaseeq (he_name e) SET_COOKIE then add_res_cookie (Some (he_value e)) h else Some h))"

fun res_all :: "hdr_entry list \<Rightarrow> http_header \<Rightarrow> http_header option" where
  "res_all [] h = Some h"
| "res_all (e # es) h = Option.bind (res_entry e h) (res_all es)"

definition header_of_res :: "hdr_res \<Rightarrow> http_header option" where
  "header_of_res r =
     (let (from, to, all) = (case res_range r of Some rng \<Rightarrow> rng | None \<Rightarrow> (- 1, - 1, - 1)) in
      res_all (res_entries r) ((header_init True)\<lparr>hh_is_request := False, hh_method := HTTP_METHOD_UNKNOWN, hh_method_s := UNKNOWN,
        hh_keep_alive := res_keep_alive r, hh_accept_compress := False, hh_status := res_status r,
        hh_content_length := res_content_length r, hh_chunked := res_chunked r,
        hh_range_from := from, hh_range_to := to, hh_range_total := all\<rparr>))"

text \<open>\<open>junk\<close> is the total of the range, which the constructor does not set.\<close>

definition header_of_req :: "int \<Rightarrow> (int \<Rightarrow> byte list) \<Rightarrow> hdr_req \<Rightarrow> http_header" where
  "header_of_req junk date r =
     (let (from, to) = (case req_range r of Some rng \<Rightarrow> rng | None \<Rightarrow> (- 1, - 1));
        h = set_method_name (req_method r) (header_init True);
        host = scopy 256 (req_host r);
        h = h\<lparr>hh_host := host, hh_keep_alive := req_keep_alive r, hh_accept_compress := False, hh_status := 0,
          hh_content_length := req_content_length r, hh_chunked := req_chunked r,
          hh_range_from := from, hh_range_to := to, hh_range_total := junk,
          hh_url := Some ((if host \<noteq> [] then cstr (req_proto r) @ [58, 47, 47] @ host else []) @ cstr (req_url_part r))\<rparr>;
        h = fold (\<lambda>e h. if he_off e then h else add_entry (Some (he_name e)) (Some (he_value e)) True h) (req_entries r) h;
        h = fold (\<lambda>(n, v). add_param (Some n) (Some v)) (req_params r) h
      in fold (\<lambda>(n, v). add_cookie date (Some n) (Some v) None None 0) (req_cookies r) h)"

section \<open>The text\<close>

definition header_line :: "byte list \<Rightarrow> byte list \<Rightarrow> byte list" where
  "header_line name v = name @ [58, 32] @ v @ crlf"

text \<open>The first line of a header that was received has no colon.\<close>

definition entry_lines :: "http_header \<Rightarrow> byte list" where
  "entry_lines h =
     (case hh_entries h of
        [] \<Rightarrow> []
      | e # es \<Rightarrow>
          (if hh_fixed h then fst e @ [32] @ snd e @ crlf else header_line (fst e) (snd e)) @
          concat (map (\<lambda>(n, v). header_line n v) es))"

definition build_common :: "http_header \<Rightarrow> byte list" where
  "build_common h = entry_lines h @
     (if hh_fixed h then []
      else
        (if hh_chunked h then header_line [84, 114, 97, 110, 115, 102, 101, 114, 45, 69, 110, 99, 111, 100, 105, 110, 103] [99, 104, 117, 110, 107, 101, 100]
         else if hh_content_length h \<ge> 0 then header_line [67, 111, 110, 116, 101, 110, 116, 45, 76, 101, 110, 103, 116, 104] (decimal_int (hh_content_length h))
         else []) @
        (if \<not> hh_is_request h \<and> hh_cgi_mode h then []
         else case given (hh_upgrade h) of
           Some u \<Rightarrow> header_line [85, 112, 103, 114, 97, 100, 101] u @ header_line [67, 111, 110, 110, 101, 99, 116, 105, 111, 110] [85, 112, 103, 114, 97, 100, 101]
         | None \<Rightarrow>
             header_line [67, 111, 110, 110, 101, 99, 116, 105, 111, 110] (if hh_keep_alive h then [75, 101, 101, 112, 45, 65, 108, 105, 118, 101] else [67, 108, 111, 115, 101])))"

definition query_param :: "url_nv \<Rightarrow> byte list" where
  "query_param p = url_encode (fst p) @
     (case snd p of
        None \<Rightarrow> []
      | Some [] \<Rightarrow> [61]
      | Some v \<Rightarrow> 61 # url_encode v)"

fun query_params :: "url_nv list \<Rightarrow> byte list" where
  "query_params [] = []"
| "query_params [p] = query_param p"
| "query_params (p # ps) = query_param p @ 38 # query_params ps"

definition query_text :: "byte list \<Rightarrow> url_nv list \<Rightarrow> byte list" where
  "query_text url ps = (if ps = [] then [] else (if 63 \<in> set url then 38 else 63) # query_params ps)"

fun cookie_pairs :: "http_cookie list \<Rightarrow> byte list" where
  "cookie_pairs [] = []"
| "cookie_pairs [c] = get_name c @ 61 # get_value c"
| "cookie_pairs (c # cs) = get_name c @ 61 # get_value c @ [59, 32] @ cookie_pairs cs"

definition opt_line :: "byte list \<Rightarrow> byte list option \<Rightarrow> byte list" where
  "opt_line name v = (case given v of None \<Rightarrow> [] | Some v \<Rightarrow> header_line name v)"

definition request_line :: "byte list \<Rightarrow> http_header \<Rightarrow> byte list" where
  "request_line url h = hh_method_s h @ [32] @ url @ query_text url (hh_params h) @
     (if hh_version h \<noteq> [] then [32, 72, 84, 84, 80, 47] @ hh_version h
      else if hh_host h \<noteq> [] then [32, 72, 84, 84, 80, 47, 49, 46, 49]
      else [32, 72, 84, 84, 80, 47, 49, 46, 48]) @ crlf"

definition request_fields :: "http_header \<Rightarrow> byte list" where
  "request_fields h =
     (if hh_accept_compress h then header_line [65, 99, 99, 101, 112, 116, 45, 69, 110, 99, 111, 100, 105, 110, 103] GZIP else []) @
     (if hh_host h \<noteq> [] then header_line [72, 111, 115, 116] (hh_host h) else []) @
     (if hh_cookies h \<noteq> [] then header_line [67, 111, 111, 107, 105, 101] (cookie_pairs (hh_cookies h)) else []) @
     opt_line [79, 114, 105, 103, 105, 110] (hh_ws_origin h) @
     opt_line [83, 101, 99, 45, 87, 101, 98, 83, 111, 99, 107, 101, 116, 45, 75, 101, 121] (hh_ws_sec_key h) @
     opt_line [83, 101, 99, 45, 87, 101, 98, 115, 111, 99, 107, 101, 116, 45, 80, 114, 111, 116, 111, 99, 111, 108] (hh_ws_sec_proto h) @
     (if hh_ws_sec_ver h > 0 then header_line [83, 101, 99, 45, 87, 101, 98, 83, 111, 99, 107, 101, 116, 45, 86, 101, 114, 115, 105, 111, 110] (decimal_int (hh_ws_sec_ver h)) else []) @
     (if hh_range_from h \<ge> 0 then
        header_line [82, 97, 110, 103, 101] ([98, 121, 116, 101, 115, 61] @ decimal_int (hh_range_from h) @ [45] @
          (if hh_range_to h \<ge> hh_range_from h then decimal_int (hh_range_to h) else []))
      else [])"

text \<open>\<^const>\<open>None\<close> for the result false.\<close>

definition build_http_request :: "http_header \<Rightarrow> byte list option" where
  "build_http_request h =
     (if hh_fixed h then Some (build_common h @ crlf)
      else case given (hh_url h) of
        None \<Rightarrow> None
      | Some url \<Rightarrow> Some (request_line url h @ build_common h @ request_fields h @ crlf))"

section \<open>Responses\<close>

definition status_1xx :: "byte list option list" where
  "status_1xx = [Some [67, 111, 110, 116, 105, 110, 117, 101],
     Some [83, 119, 105, 116, 99, 104, 105, 110, 103, 32, 80, 114, 111, 116, 111, 99, 111, 108, 115],
     Some [80, 114, 111, 99, 101, 115, 115, 105, 110, 103]]"
definition status_2xx :: "byte list option list" where
  "status_2xx = [Some [79, 75],
     Some [67, 114, 101, 97, 116, 101, 100],
     Some [65, 99, 99, 101, 112, 116, 101, 100],
     Some [78, 111, 110, 32, 65, 117, 116, 104, 111, 114, 105, 116, 97, 116, 105, 118, 101, 32, 73, 110, 102, 111, 114, 109, 97, 116, 105, 111, 110],
     Some [78, 111, 32, 67, 111, 110, 116, 101, 110, 116],
     Some [82, 101, 115, 101, 116, 32, 67, 111, 110, 116, 101, 110, 116],
     Some [80, 97, 114, 116, 105, 97, 108, 32, 67, 111, 110, 116, 101, 110, 116],
     Some [77, 117, 108, 116, 105, 32, 83, 116, 97, 116, 117, 115]]"
definition status_3xx :: "byte list option list" where
  "status_3xx = [Some [77, 117, 108, 116, 105, 112, 108, 101, 32, 67, 104, 111, 105, 99, 101, 115],
     Some [77, 111, 118, 101, 100, 32, 80, 101, 114, 109, 97, 110, 101, 110, 116, 108, 121],
     Some [77, 111, 118, 101, 100, 32, 84, 101, 109, 112, 111, 114, 97, 114, 105, 108, 121],
     Some [83, 101, 101, 32, 79, 116, 104, 101, 114],
     Some [78, 111, 116, 32, 77, 111, 100, 105, 102, 105, 101, 100],
     Some [85, 115, 101, 32, 80, 114, 111, 120, 121],
     Some [84, 101, 109, 112, 111, 114, 97, 114, 121, 32, 82, 101, 100, 105, 114, 101, 99, 116]]"
definition status_4xx :: "byte list option list" where
  "status_4xx = [Some [66, 97, 100, 32, 82, 101, 113, 117, 101, 115, 116],
     Some [65, 117, 116, 104, 111, 114, 105, 122, 97, 116, 105, 111, 110, 32, 82, 101, 113, 117, 105, 114, 101, 100],
     Some [80, 97, 121, 109, 101, 110, 116, 32, 82, 101, 113, 117, 105, 114, 101, 100],
     Some [70, 111, 114, 98, 105, 100, 100, 101, 110],
     Some [78, 111, 116, 32, 70, 111, 117, 110, 100],
     Some [77, 101, 116, 104, 111, 100, 32, 78, 111, 116, 32, 65, 108, 108, 111, 119, 101, 100],
     Some [78, 111, 116, 32, 65, 99, 99, 101, 112, 116, 97, 98, 108, 101],
     Some [80, 114, 111, 120, 121, 32, 65, 117, 116, 104, 101, 110, 116, 105, 99, 97, 116, 105, 111, 110, 32, 82, 101, 113, 117, 105, 114, 101, 100],
     Some [82, 101, 113, 117, 101, 115, 116, 32, 84, 105, 109, 101, 45, 111, 117, 116],
     Some [67, 111, 110, 102, 108, 105, 99, 116],
     Some [71, 111, 110, 101],
     Some [76, 101, 110, 103, 116, 104, 32, 82, 101, 113, 117, 105, 114, 101, 100],
     Some [80, 114, 101, 99, 111, 110, 100, 105, 116, 105, 111, 110, 32, 70, 97, 105, 108, 101, 100],
     Some [82, 101, 113, 117, 101, 115, 116, 32, 69, 110, 116, 105, 116, 121, 32, 84, 111, 111, 32, 76, 97, 114, 103, 101],
     Some [82, 101, 113, 117, 101, 115, 116, 45, 85, 82, 73, 32, 84, 111, 111, 32, 76, 97, 114, 103, 101],
     Some [85, 110, 115, 117, 112, 112, 111, 114, 116, 101, 100, 32, 77, 101, 100, 105, 97, 32, 84, 121, 112, 101],
     Some [82, 101, 113, 117, 101, 115, 116, 101, 100, 32, 82, 97, 110, 103, 101, 32, 78, 111, 116, 32, 83, 97, 116, 105, 115, 102, 105, 97, 98, 108, 101],
     Some [69, 120, 112, 101, 99, 116, 97, 116, 105, 111, 110, 32, 70, 97, 105, 108, 101, 100],
     None,
     None,
     None,
     None,
     Some [85, 110, 112, 114, 111, 99, 101, 115, 115, 97, 98, 108, 101, 32, 69, 110, 116, 105, 116, 121],
     Some [76, 111, 99, 107, 101, 100],
     Some [70, 97, 105, 108, 101, 100, 32, 68, 101, 112, 101, 110, 100, 101, 110, 99, 121],
     Some [78, 111, 32, 99, 111, 100, 101],
     Some [85, 112, 103, 114, 97, 100, 101, 32, 82, 101, 113, 117, 105, 114, 101, 100]]"
definition status_5xx :: "byte list option list" where
  "status_5xx = [Some [73, 110, 116, 101, 114, 110, 97, 108, 32, 83, 101, 114, 118, 101, 114, 32, 69, 114, 114, 111, 114],
     Some [77, 101, 116, 104, 111, 100, 32, 78, 111, 116, 32, 73, 109, 112, 108, 101, 109, 101, 110, 116, 101, 100],
     Some [66, 97, 100, 32, 71, 97, 116, 101, 119, 97, 121],
     Some [83, 101, 114, 118, 105, 99, 101, 32, 84, 101, 109, 112, 111, 114, 97, 114, 105, 108, 121, 32, 85, 110, 97, 118, 97, 105, 108, 97, 98, 108, 101],
     Some [71, 97, 116, 101, 119, 97, 121, 32, 84, 105, 109, 101, 45, 111, 117, 116],
     Some [72, 84, 84, 80, 32, 86, 101, 114, 115, 105, 111, 110, 32, 78, 111, 116, 32, 83, 117, 112, 112, 111, 114, 116, 101, 100],
     Some [86, 97, 114, 105, 97, 110, 116, 32, 65, 108, 115, 111, 32, 78, 101, 103, 111, 116, 105, 97, 116, 101, 115],
     Some [73, 110, 115, 117, 102, 102, 105, 99, 105, 101, 110, 116, 32, 83, 116, 111, 114, 97, 103, 101],
     None,
     None,
     Some [78, 111, 116, 32, 69, 120, 116, 101, 110, 100, 101, 100]]"

definition unknown_status :: "byte list" where
  "unknown_status = [117, 110, 107, 110, 111, 119, 32, 115, 116, 97, 116, 117, 115]"

definition http_status :: "int \<Rightarrow> byte list" where
  "http_status status =
     (let i = status div 100 in
      if i < 1 \<or> i > 5 then unknown_status
      else
        let tab = [status_1xx, status_2xx, status_3xx, status_4xx, status_5xx] ! nat (i - 1); pos = nat (status - 100 * i) in
        if pos \<ge> length tab then unknown_status
        else case tab ! pos of None \<Rightarrow> unknown_status | Some title \<Rightarrow> title)"

definition WS_GUID :: "byte list" where
  "WS_GUID = [50, 53, 56, 69, 65, 70, 65, 53, 45, 69, 57, 49, 52, 45, 52, 55, 68, 65, 45, 57, 53, 67, 65, 45, 67, 53, 65, 66, 48, 68, 67, 56, 53, 66, 49, 49]"

text \<open>
  The digest is stored as five words of a little-endian machine, whose bytes are then swapped. \<open>junk\<close> is the block
  buffer of the hash before it is written.
\<close>

definition swap_words :: "byte list \<Rightarrow> byte list" where
  "swap_words d = concat (map (\<lambda>i. [d ! (i + 3), d ! (i + 2), d ! (i + 1), d ! i]) [0, 4, 8, 12, 16])"

definition create_ws_key :: "byte list \<Rightarrow> byte list \<Rightarrow> byte list option" where
  "create_ws_key junk key =
     (case snd (sha1_result2 (sha1_input (sha1_new junk) (key @ WS_GUID) (word_of_nat (length (key @ WS_GUID))))) of
        None \<Rightarrow> None
      | Some (a, b, c, d, e) \<Rightarrow> Some (acl_base64_encode (swap_words (concat (map store32 [a, b, c, d, e])))))"

definition accept_line :: "byte list \<Rightarrow> byte list \<Rightarrow> byte list option" where
  "accept_line junk sec_key = map_option (header_line [83, 101, 99, 45, 87, 101, 98, 83, 111, 99, 107, 101, 116, 45, 65, 99, 99, 101, 112, 116]) (create_ws_key junk (cstr sec_key))"

definition set_cookie_line :: "http_cookie \<Rightarrow> byte list" where
  "set_cookie_line c = header_line SET_COOKIE (get_name c @ 61 # get_value c @
     concat (map (\<lambda>(n, v). [59, 32] @ n @ 61 # v) (ck_params c)))"

text \<open>The status line: the version is followed by a line break.\<close>

definition status_lines :: "byte list \<Rightarrow> http_header \<Rightarrow> byte list" where
  "status_lines now h =
     (if hh_status h \<le> 0 then []
      else if hh_cgi_mode h then [83, 84, 65, 84, 85, 83, 58, 32] @ decimal_int (hh_status h) @ crlf
      else
        (if hh_version h \<noteq> [] then [72, 84, 84, 80, 47] @ hh_version h @ crlf
         else [72, 84, 84, 80, 47, 49, 46, 49, 32]) @
        decimal_int (hh_status h) @ [32] @ http_status (hh_status h) @ crlf @
        header_line [68, 97, 116, 101] now @ header_line [83, 101, 114, 118, 101, 114] [97, 99, 108])"

definition response_fields :: "http_header \<Rightarrow> byte list" where
  "response_fields h =
     (if hh_range_from h \<ge> 0 \<and> hh_range_to h \<ge> hh_range_from h \<and> hh_range_total h > 0 then
        header_line [67, 111, 110, 116, 101, 110, 116, 45, 82, 97, 110, 103, 101] ([98, 121, 116, 101, 115, 61] @ decimal_int (hh_range_from h) @ [45] @
          decimal_int (hh_range_to h) @ [47] @ decimal_int (hh_range_total h))
      else []) @
     (if hh_gzip h then header_line CONTENT_ENCODING GZIP else [])"

text \<open>A compressed response closes the connection and has no length, from the next call on.\<close>

definition gzip_changes :: "http_header \<Rightarrow> http_header" where
  "gzip_changes h =
     (if hh_gzip h then h\<lparr>
        hh_keep_alive := if \<not> hh_chunked h \<and> hh_keep_alive h then False else hh_keep_alive h,
        hh_content_length := if hh_content_length h > 0 then - 1 else hh_content_length h\<rparr>
      else h)"

definition build_response :: "byte list \<Rightarrow> byte list \<Rightarrow> http_header \<Rightarrow> (http_header \<times> byte list) option" where
  "build_response junk now h =
     (if hh_fixed h then Some (h, build_common h @ crlf)
      else
        let out = status_lines now h @ build_common h @ concat (map set_cookie_line (hh_cookies h)) in
        if given (hh_upgrade h) \<noteq> None then
          (case given (hh_ws_sec_key h) of
             None \<Rightarrow> Some (h, out @ crlf)
           | Some key \<Rightarrow> map_option (\<lambda>l. (h, out @ l @ crlf)) (accept_line junk key))
        else Some (gzip_changes h, out @ response_fields h @ crlf))"

end
