(* ===== verification/MemcacheRun.thy ===== *)
theory MemcacheRun
  imports Memcache RfcWords
begin

text \<open>
  The keys the client builds, and what it reads of the replies to \<^verbatim>\<open>get\<close>.
\<close>

section \<open>The text of a key\<close>

definition CHARSET :: "byte list" where "CHARSET = map to_upper GB2312"

abbreviation b64_text :: "byte list \<Rightarrow> byte list" where
  "b64_text \<equiv> mime_lines (mime_base64 False False)"

text \<open>Each run of bytes that are coded is one encoded word.\<close>

function key_text :: "byte list \<Rightarrow> byte list" where
  "key_text [] = []"
| "key_text (c # cs) =
     (if coded c then word_text CHARSET 66 (b64_text (c # takeWhile coded cs)) @ key_text (dropWhile coded cs)
      else c # key_text cs)"
  by pat_completeness auto
termination by (relation "measure length") (auto simp: le_imp_less_Suc length_dropWhile_le)

definition graphic :: "byte \<Rightarrow> bool" where
  "graphic c \<longleftrightarrow> 33 \<le> c \<and> c \<le> 126"

lemma graphicD: "graphic c \<Longrightarrow> c \<noteq> 0 \<and> c \<noteq> 9 \<and> c \<noteq> 10 \<and> c \<noteq> 13 \<and> c \<noteq> 32"
  by (auto simp: graphic_def)

lemma not_coded: "\<not> coded c \<longleftrightarrow> graphic c"
  unfolding coded_def graphic_def SPECIAL_CHAR_def is_print_def by unat_arith

lemma b64_tab_graphic: "i < 64 \<Longrightarrow> graphic (to_b64_tab ! i)"
proof -
  have "list_all (\<lambda>i. graphic (to_b64_tab ! i)) [0..<64]" by code_simp
  then show "i < 64 \<Longrightarrow> graphic (to_b64_tab ! i)" by (simp add: list_all_iff)
qed

lemma encode_groups_graphic: "list_all graphic (encode_groups to_b64_tab 61 xs)"
proof -
  note tab = sextets_small [THEN b64_tab_graphic]
  have "graphic 61" by (simp add: graphic_def)
  then show ?thesis
    by (induction to_b64_tab "61 :: byte" xs rule: encode_groups.induct) (use tab in auto)
qed

lemma b64_text_graphic: "list_all graphic (b64_text bs)"
proof -
  have "list_all graphic (mime_encode (mime_base64 False False) xs)" for xs
    using encode_groups_graphic by (simp add: mime_encode_def mime_base64_def mime_init_def mime_code_new_def)
  then show ?thesis
    by (induction "mime_base64 False False" bs rule: mime_lines.induct) (subst mime_lines.simps, auto)
qed

lemma charset_graphic: "list_all graphic CHARSET" "charset_name CHARSET" "charset_name GB2312"
  unfolding CHARSET_def by code_simp+

lemma word_text_graphic: "list_all graphic (word_text CHARSET 66 (b64_text bs))"
  using charset_graphic(1) b64_text_graphic [of bs] by (simp add: word_text_def) (simp add: graphic_def)

lemma key_text_graphic: "list_all graphic (key_text cs)"
  by (induction cs rule: key_text.induct) (auto simp: word_text_graphic not_coded)

section \<open>The loop builds it\<close>

definition run_at :: "byte list \<Rightarrow> byte list \<Rightarrow> mime_code \<Rightarrow> byte list \<Rightarrow> bool" where
  "run_at start s m out \<longleftrightarrow> (\<forall>xs. encode_pieces m xs out = Some (start @ b64_text (s @ concat xs)))"

lemma run_at_start: "run_at out [] (mime_base64 False False) out"
  using encode_pieces_lines [of "mime_base64 False False" _ out]
  by (simp add: run_at_def mime_base64_def mime_init_def mime_code_new_def)

lemma run_at_step:
  assumes "run_at start s m out"
  obtains m1 out1 where "encode_update m [c] out = Some (m1, out1)" "run_at start (s @ [c]) m1 out1"
proof -
  have step: "encode_pieces m ([c] # xs) out = Some (start @ b64_text (s @ c # concat xs))" for xs
    using spec [OF assms [unfolded run_at_def], of "[c] # xs"] by (simp del: encode_pieces.simps)
  obtain m1 out1 where "encode_update m [c] out = Some (m1, out1)"
    using step [of "[]"] by (cases "encode_update m [c] out") auto
  with step that show thesis by (simp add: run_at_def)
qed

lemma run_at_end: "run_at start s m out \<Longrightarrow> snd (encode_finish m out) = start @ b64_text s"
  unfolding run_at_def by (drule spec [of _ "[]"]) simp

definition no_word :: "rfc2047 \<Rightarrow> bool" where
  "no_word rf \<longleftrightarrow> rf_cur rf = None \<and> rf_coder rf = None \<and> \<not> rf_crlf rf"

definition word_at :: "byte list \<Rightarrow> byte list \<Rightarrow> rfc2047 \<Rightarrow> byte list \<Rightarrow> bool" where
  "word_at start s rf out \<longleftrightarrow> \<not> rf_crlf rf \<and> cur_entry rf = Some \<lparr>re_data = [], re_charset = CHARSET, re_coding = 66\<rparr> \<and>
     (\<exists>m. rf_coder rf = Some (Coder_base64 m) \<and> run_at (start @ [61, 63] @ CHARSET @ [63, 66, 63]) s m out)"

lemma to_upper_66 [simp]: "to_upper 66 = 66"
  by (simp add: to_upper_def)

lemma key_encode_more:
  assumes "word_at start s rf out"
  obtains rf1 out1 where "key_encode [c] rf out = Some (rf1, out1)" "word_at start (s @ [c]) rf1 out1"
proof -
  obtain m where m: "rf_coder rf = Some (Coder_base64 m)" "run_at (start @ [61, 63] @ CHARSET @ [63, 66, 63]) s m out"
    "\<not> rf_crlf rf" "cur_entry rf = Some \<lparr>re_data = [], re_charset = map to_upper GB2312, re_coding = to_upper 66\<rparr>"
    using assms by (auto simp: word_at_def CHARSET_def)
  obtain m1 out1 where 1: "encode_update m [c] out = Some (m1, out1)"
    "run_at (start @ [61, 63] @ CHARSET @ [63, 66, 63]) (s @ [c]) m1 out1"
    by (rule run_at_step [OF m(2)])
  have "key_encode [c] rf out = Some (rf\<lparr>rf_coder := Some (Coder_base64 m1)\<rparr>, out1)"
    using rfc_encode_more [OF m(4,1) charset_graphic(3), of "[c]" out] 1(1) by (simp add: key_encode_def)
  moreover have "word_at start (s @ [c]) (rf\<lparr>rf_coder := Some (Coder_base64 m1)\<rparr>) out1"
    using 1(2) m(3,4) by (simp add: word_at_def cur_entry_def CHARSET_def)
  ultimately show thesis by (rule that)
qed

lemma key_encode_first:
  assumes "no_word rf"
  obtains rf1 out1 where "key_encode [c] rf out = Some (rf1, out1)" "word_at out [c] rf1 out1"
proof -
  define rf1 where "rf1 = fst (start_word GB2312 66 rf out)"
  define out1 where "out1 = out @ [61, 63] @ CHARSET @ [63, 66, 63]"
  have gb: "cstr GB2312 = GB2312" "GB2312 \<noteq> []" using charset_nameD [OF charset_graphic(3)] by auto
  have start: "start_word GB2312 66 rf out = (rf1, out1)"
    by (simp add: rf1_def out1_def start_word_def Let_def gb CHARSET_def)
  have "word_at out [] rf1 out1"
    using assms run_at_start [of out1]
    by (simp add: word_at_def rf1_def start_word_def Let_def gb no_word_def push_entry_def cur_entry_def CHARSET_def
        rfc_coder_new_def out1_def)
  then obtain rf2 out2 where 2: "key_encode [c] rf1 out1 = Some (rf2, out2)" "word_at out [c] rf2 out2"
    by (rule key_encode_more [where c = c]) simp
  have "rf_coder rf1 = Some (rfc_coder_new 66 (rf_crlf rf))" "cur_entry rf1 = Some \<lparr>re_data = [], re_charset = CHARSET, re_coding = 66\<rparr>"
    by (simp_all add: rf1_def start_word_def Let_def gb push_entry_def cur_entry_def CHARSET_def)
  then have "key_encode [c] rf out = key_encode [c] rf1 out1"
    using assms start gb strcaseeq_name [OF charset_graphic(3)]
    by (auto simp: key_encode_def rfc_encode_update_def Let_def no_word_def cur_entry_def end_word_def CHARSET_def)
  with 2 show thesis using that by simp
qed

lemma word_at_finish:
  assumes "word_at start s rf out"
  shows "\<exists>rf1. rfc_encode_finish rf out = Some (rf1, start @ word_text CHARSET 66 (b64_text s)) \<and> rf_crlf rf1 = rf_crlf rf"
proof -
  obtain m where m: "rf_coder rf = Some (Coder_base64 m)" "run_at (start @ [61, 63] @ CHARSET @ [63, 66, 63]) s m out"
    "rf_cur rf \<noteq> None"
    using assms by (auto simp: word_at_def cur_entry_def)
  then show ?thesis
    using run_at_end [OF m(2)] by (auto simp: rfc_encode_finish_def word_text_def split: prod.split)
qed

lemma no_word_reset [simp]: "\<not> rf_crlf rf \<Longrightarrow> no_word (rfc_reset strip rf)"
  by (simp add: no_word_def rfc_reset_def)

lemma key_loop_text:
  "no_word rf \<Longrightarrow> \<exists>rf1. key_loop False cs rf out \<bind> key_end = Some (rf1, out @ key_text cs) \<and> \<not> rf_crlf rf1"
  "word_at start s rf out \<Longrightarrow> \<exists>rf1. key_loop True cs rf out \<bind> key_end =
     Some (rf1, start @ word_text CHARSET 66 (b64_text (s @ takeWhile coded cs)) @ key_text (dropWhile coded cs)) \<and> \<not> rf_crlf rf1"
proof (induction cs arbitrary: rf out start s)
  case Nil
  { case 1 then show ?case by (simp add: key_end_def no_word_def) }
  { case 2 then show ?case using word_at_finish [OF 2] by (auto simp: key_end_def word_at_def) }
next
  case (Cons c cs)
  {
    case 1
    show ?case
    proof (cases "coded c")
      case True
      obtain rf1 out1 where 2: "key_encode [c] rf out = Some (rf1, out1)" "word_at out [c] rf1 out1"
        by (rule key_encode_first [OF 1])
      from Cons.IH(2) [OF 2(2)] True 2(1) show ?thesis by simp
    next
      case False
      then have "string_add_char out c = out @ [c]" using graphicD [of c] by (simp add: not_coded string_add_char_def)
      with Cons.IH(1) [OF 1, of "out @ [c]"] False show ?thesis by simp
    qed
  next
    case 2
    show ?case
    proof (cases "coded c")
      case True
      obtain rf1 out1 where 3: "key_encode [c] rf out = Some (rf1, out1)" "word_at start (s @ [c]) rf1 out1"
        by (rule key_encode_more [OF 2])
      from Cons.IH(2) [OF 3(2)] True 3(1) show ?thesis by simp
    next
      case False
      obtain rf1 where rf1: "rfc_encode_finish rf out = Some (rf1, start @ word_text CHARSET 66 (b64_text s))" "\<not> rf_crlf rf1"
        using word_at_finish [OF 2] 2 by (auto simp: word_at_def)
      have "string_add_char w c = w @ [c]" for w using False graphicD [of c] by (simp add: not_coded string_add_char_def)
      with Cons.IH(1) [OF no_word_reset [OF rf1(2), of True], of "start @ word_text CHARSET 66 (b64_text s) @ [c]"] False rf1(1)
      show ?thesis by simp
    qed
  }
qed

section \<open>Built keys\<close>

definition key_bytes :: "memcache \<Rightarrow> byte list \<Rightarrow> byte list" where
  "key_bytes mm key = (case mm_keypre mm of None \<Rightarrow> [] | Some p \<Rightarrow> cstr p @ [58]) @
     (if mm_encode_key mm then word_text CHARSET 66 (b64_text key) else key_text key)"

definition mc_ok :: "memcache \<Rightarrow> bool" where
  "mc_ok mm \<longleftrightarrow> \<not> rf_crlf (mm_coder mm) \<and> (case mm_keypre mm of None \<Rightarrow> True | Some p \<Rightarrow> list_all graphic p)"

lemma mc_ok_new [simp]: "mc_ok (memcache_new junk)"
  by (simp add: mc_ok_def memcache_new_def rfc_new_def)

lemma rfc_coder_keeps: "key_encode xs rf out = Some (rf1, out1) \<Longrightarrow> rf_crlf rf1 = rf_crlf rf"
  by (auto simp: key_encode_def rfc_encode_update_def end_word_def start_word_def push_entry_def Let_def
      bind_eq_Some_conv split: option.splits if_splits)

lemma whole_key:
  assumes "no_word rf" "key \<noteq> []"
  shows "\<exists>rf1. key_encode key rf out \<bind> (\<lambda>(rf, out). rfc_encode_finish rf out) =
    Some (rf1, out @ word_text CHARSET 66 (b64_text key)) \<and> \<not> rf_crlf rf1"
proof -
  define rf1 where "rf1 = fst (start_word GB2312 66 rf out)"
  define out1 where "out1 = out @ [61, 63] @ CHARSET @ [63, 66, 63]"
  let ?m = "mime_base64 False False"
  have gb: "cstr GB2312 = GB2312" "GB2312 \<noteq> []" using charset_nameD [OF charset_graphic(3)] by auto
  have rf1: "rf_coder rf1 = Some (Coder_base64 ?m)" "cur_entry rf1 = Some \<lparr>re_data = [], re_charset = CHARSET, re_coding = 66\<rparr>"
    "\<not> rf_crlf rf1" "rf_cur rf1 \<noteq> None"
    using assms(1) by (simp_all add: rf1_def start_word_def Let_def gb push_entry_def cur_entry_def CHARSET_def
      rfc_coder_new_def no_word_def)
  obtain m1 w where m1: "encode_update ?m key out1 = Some (m1, w)" "snd (encode_finish m1 w) = out1 @ b64_text key"
    using spec [OF run_at_start [of out1, unfolded run_at_def], of "[key]"] by (auto split: option.splits)
  have "start_word GB2312 66 rf out = (rf1, out1)"
    by (simp add: rf1_def out1_def start_word_def Let_def gb CHARSET_def)
  then have "key_encode key rf out = Some (rf1\<lparr>rf_coder := Some (Coder_base64 m1)\<rparr>, w)"
    using assms gb rf1 m1(1)
    by (cases "rf_cur rf1") (auto simp: key_encode_def rfc_encode_update_def Let_def no_word_def cur_entry_def end_word_def)
  then show ?thesis using m1(2) rf1 by (auto simp: rfc_encode_finish_def word_text_def out1_def split: prod.split)
qed

text \<open>The keys that are built as a whole word must not be empty, and their length must be an \<^verbatim>\<open>int\<close>.\<close>

definition key_fits :: "memcache \<Rightarrow> byte list \<Rightarrow> bool" where
  "key_fits mm key \<longleftrightarrow> key \<noteq> [] \<and> (mm_encode_key mm \<longrightarrow> length key < 2 ^ 31)"

lemma build_key_bytes:
  assumes "mc_ok mm" "key_fits mm key"
  shows "\<exists>mm1. build_key key mm = Some (mm1, key_bytes mm key) \<and> mc_ok mm1 \<and>
    mm1 = mm\<lparr>mm_coder := mm_coder mm1\<rparr>"
proof -
  let ?rf = "rfc_reset True (mm_coder mm)" and ?pre = "case mm_keypre mm of None \<Rightarrow> [] | Some p \<Rightarrow> cstr p @ [58]"
  have crlf: "no_word ?rf" using assms(1) by (simp add: mc_ok_def)
  show ?thesis
  proof (cases "mm_encode_key mm")
    case True
    have n: "take (nat (to_int (int (length key)))) key = key" using assms(2) True to_int_id [of "int (length key)"] by (simp add: key_fits_def)
    from True obtain rf1 where "key_encode key ?rf ?pre \<bind> (\<lambda>(rf, out). rfc_encode_finish rf out) =
        Some (rf1, ?pre @ word_text CHARSET 66 (b64_text key))" "\<not> rf_crlf rf1"
      using whole_key [OF crlf, of key ?pre] assms(2) by (auto simp: key_fits_def)
    then have "build_key key mm = Some (mm\<lparr>mm_coder := rf1\<rparr>, key_bytes mm key)"
      using True n by (auto simp: build_key_def Let_def key_bytes_def bind_eq_Some_conv)
    then show ?thesis using assms(1) \<open>\<not> rf_crlf rf1\<close> by (simp add: mc_ok_def)
  next
    case False
    then obtain rf1 where "key_loop False key ?rf ?pre \<bind> key_end = Some (rf1, ?pre @ key_text key)" "\<not> rf_crlf rf1"
      using key_loop_text(1) [OF crlf, of key ?pre] by blast
    then have "build_key key mm = Some (mm\<lparr>mm_coder := rf1\<rparr>, key_bytes mm key)"
      using False by (auto simp: build_key_def Let_def key_bytes_def bind_eq_Some_conv)
    then show ?thesis using assms(1) \<open>\<not> rf_crlf rf1\<close> by (simp add: mc_ok_def)
  qed
qed

lemma key_bytes_graphic: "mc_ok mm \<Longrightarrow> list_all graphic (key_bytes mm key)"
proof -
  have "graphic 58" by (simp add: graphic_def)
  moreover have "list_all graphic (cstr p)" if "list_all graphic p" for p
    using that by (auto simp: cstr_def list_all_iff dest: set_takeWhileD)
  ultimately show "mc_ok mm \<Longrightarrow> ?thesis"
    by (auto simp: key_bytes_def mc_ok_def word_text_graphic key_text_graphic split: option.splits)
qed

lemma set_prefix_ok:
  assumes "mc_ok mm" "no_word (mm_coder mm)"
  shows "\<exists>mm1. set_prefix p mm = Some mm1 \<and> mc_ok mm1"
  using assms key_loop_text(1) [OF assms(2), of "cstr (the p)" "[]"] key_text_graphic [of "cstr (the p)"]
  by (cases p) (auto simp: set_prefix_def mc_ok_def bind_eq_Some_conv)

section \<open>Different keys\<close>

lemma b64_text_inj: "b64_text xs = b64_text ys \<Longrightarrow> xs = ys"
proof -
  have "fst (mime_decode 0 (mime_base64 False False) (b64_text xs)) = xs" for xs
    using mime_decode_text [of mime_base64 False False "[xs]" "[b64_text xs]" 0 False False]
      encode_pieces_lines [of "mime_base64 False False" "[xs]" "[]"]
    by (simp add: mime_base64_def mime_init_def mime_code_new_def)
  then show "b64_text xs = b64_text ys \<Longrightarrow> xs = ys" by metis
qed

lemma word_text_inj:
  assumes "word_text CHARSET 66 (b64_text xs) @ r1 = word_text CHARSET 66 (b64_text ys) @ r2"
  shows "xs = ys" "r1 = r2"
proof -
  have clean: "63 \<notin> set (b64_text zs)" for zs using base64_clean [of False False zs] by auto
  have eq: "b64_text xs @ 63 # 61 # r1 = b64_text ys @ 63 # 61 # r2" using assms by (simp add: word_text_def)
  moreover have "takeWhile (\<lambda>c. c \<noteq> 63) (b64_text zs @ 63 # r) = b64_text zs" for zs r
    using clean [of zs] by (subst takeWhile_append2) auto
  ultimately have "b64_text xs = b64_text ys" by metis
  then show same: "xs = ys" by (rule b64_text_inj)
  show "r1 = r2" using eq unfolding same by (simp only: same_append_eq list.inject)
qed

lemma key_text_coded: "coded e \<Longrightarrow>
    key_text (e # es) = word_text CHARSET 66 (b64_text (e # takeWhile coded es)) @ key_text (dropWhile coded es)"
  by (subst key_text.simps) (erule if_P)

lemma key_text_inj: "61 \<notin> set xs \<Longrightarrow> 61 \<notin> set ys \<Longrightarrow> key_text xs = key_text ys \<Longrightarrow> xs = ys"
proof (induction xs arbitrary: ys rule: key_text.induct)
  case 1
  then show ?case by (cases ys) (auto simp: word_text_def split: if_splits)
next
  case (2 c cs)
  obtain d ds where ys: "ys = d # ds" using 2(5) by (cases ys) (auto simp: word_text_def split: if_splits)
  have hd: "hd (key_text (e # es)) = (if coded e then 61 else e)" for e es by (simp add: word_text_def)
  have "(if coded c then 61 else c) = (if coded d then 61 else d)"
    using hd [of c cs] hd [of d ds] 2(5) unfolding ys by simp
  moreover have "c \<noteq> 61" "d \<noteq> 61" using 2(3,4) ys by auto
  ultimately have "coded c = coded d" by (auto split: if_splits)
  show ?case
  proof (cases "coded c")
    case True
    then have "coded d" using \<open>coded c = coded d\<close> by blast
    note eq = word_text_inj [OF 2(5) [unfolded ys key_text_coded [OF True] key_text_coded [OF \<open>coded d\<close>]]]
    have "61 \<notin> set (dropWhile coded zs)" if "61 \<notin> set zs" for zs using that by (auto dest: set_dropWhileD)
    then have "dropWhile coded cs = dropWhile coded ds" using 2(1) [OF True _ _ eq(2)] 2(3,4) ys by simp
    moreover have "c = d" "takeWhile coded cs = takeWhile coded ds" using eq(1) by auto
    ultimately have "takeWhile coded cs @ dropWhile coded cs = takeWhile coded ds @ dropWhile coded ds" by (simp only:)
    then show ?thesis unfolding ys takeWhile_dropWhile_id \<open>c = d\<close> by (simp only:)
  next
    case False
    then show ?thesis using 2(2) [OF False, of ds] 2(3-5) \<open>coded c = coded d\<close> ys by simp
  qed
qed

end
