(* ===== verification/MemcacheProperties.thy ===== *)
theory MemcacheProperties
  imports MemcacheRun RfcProperties
begin

text \<open>The properties of the memcached client.\<close>

section \<open>Keys\<close>

abbreviation blanks :: "byte list" where "blanks \<equiv> [32, 9, 13, 10]"

lemma argv_split_token:
  assumes "set delim \<inter> set ts = {}" "c \<in> set delim" "tok @ ts \<noteq> []"
  shows "argv_split delim tok (ts @ c # rest) = (tok @ ts) # argv_split delim [] rest"
  using assms by (induction ts arbitrary: tok) auto

lemma argv_split_last:
  "set delim \<inter> set ts = {} \<Longrightarrow> tok @ ts \<noteq> [] \<Longrightarrow> argv_split delim tok ts = [tok @ ts]"
  by (induction ts arbitrary: tok) auto

lemma graphic_token:
  assumes "list_all graphic ts"
  shows "set blanks \<inter> set ts = {}" "set [32, 9] \<inter> set ts = {}" "no_nul ts" "clean_line ts" "cstr ts = ts"
proof -
  have "x \<noteq> 0 \<and> x \<noteq> 9 \<and> x \<noteq> 10 \<and> x \<noteq> 13 \<and> x \<noteq> 32" if "x \<in> set ts" for x
    using assms that graphicD by (auto simp: list_all_iff)
  then show "set blanks \<inter> set ts = {}" "set [32, 9] \<inter> set ts = {}" "no_nul ts" "clean_line ts"
    by (auto simp: no_nul_def clean_line_def)
  then show "cstr ts = ts" by (simp add: cstr_id)
qed

lemma digit_graphic: "is_digit c \<Longrightarrow> graphic c"
  unfolding is_digit_def graphic_def by unat_arith

lemma decimal_graphic: "list_all graphic (decimal n)"
  using decimal_digits(1) [of n] digit_graphic by (auto simp: list_all_iff)

lemma decimal_int_graphic: "list_all graphic (decimal_int i)" "decimal_int i \<noteq> []"
  using decimal_graphic decimal_digits(2) by (auto simp: decimal_int_def graphic_def)

lemma words_graphic: "list_all graphic [103, 101, 116]" "list_all graphic [115, 101, 116]"
  "list_all graphic [100, 101, 108, 101, 116, 101]" "list_all graphic VALUE" "list_all graphic END"
  by (simp_all add: graphic_def VALUE_def END_def)

lemma cstr_app: "no_nul xs \<Longrightarrow> cstr (xs @ ys) = xs @ cstr ys"
  unfolding cstr_def no_nul_def by (rule takeWhile_append2) auto

lemma key_bytes_nonempty: "key_fits mm key \<Longrightarrow> key_bytes mm key \<noteq> []"
  by (cases key) (auto simp: key_fits_def key_bytes_def word_text_def)

text \<open>C27: whatever bytes a key has - at least one, and if keys are encoded as a whole, less than 2 ^ 31, as the
  length is cast to an int there -, it is built, of graphic characters only; so the lines of the requests have
  the command, the key and the numbers as their words, and nothing else.
\<close>

theorem memcache_one_word_keys:
  assumes "mc_ok mm" "key_fits mm key"
  shows "\<exists>mm1 k. build_key key mm = Some (mm1, k) \<and> mc_ok mm1 \<and> list_all graphic k \<and>
    acl_argv_split (get_line k) blanks = [[103, 101, 116], k] \<and>
    acl_argv_split (delete_line k) blanks = [[100, 101, 108, 101, 116, 101], k] \<and>
    acl_argv_split (set_line k flags timeout n) blanks =
      [[115, 101, 116], k, decimal (unat flags), decimal_int (to_int timeout), decimal_int (to_int (int n))]"
proof -
  let ?k = "key_bytes mm key"
  have k: "list_all graphic ?k" "?k \<noteq> []" by (rule key_bytes_graphic [OF assms(1)], rule key_bytes_nonempty [OF assms(2)])
  note g = k(1) words_graphic decimal_graphic decimal_int_graphic(1)
  note tok = g [THEN graphic_token(1)] and cs = g [THEN graphic_token(5)]
  obtain mm1 where "build_key key mm = Some (mm1, ?k)" "mc_ok mm1" using build_key_bytes [OF assms(1)] assms(2) by blast
  moreover have split: "argv_split blanks [] (ts @ c # rest) = ts # argv_split blanks [] rest"
    if "list_all graphic ts" "ts \<noteq> []" "c \<in> set blanks" for ts c rest
    using argv_split_token [OF graphic_token(1) [OF that(1)] that(3), of "[]"] that(2) by simp
  have nn: "no_nul (get_line ?k)" "no_nul (delete_line ?k)" "no_nul (set_line ?k flags timeout n)"
    using g [THEN graphic_token(3)] by (auto simp: get_line_def delete_line_def set_line_def cs no_nul_def)
  have "acl_argv_split (get_line ?k) blanks = [[103, 101, 116], ?k]"
    using split [OF words_graphic(1), of 32 "?k @ crlf"] split [OF k, of 13 "[10]"]
    unfolding acl_argv_split_def cstr_id [OF nn(1)] by (simp add: get_line_def cs)
  moreover have "acl_argv_split (delete_line ?k) blanks = [[100, 101, 108, 101, 116, 101], ?k]"
    using split [OF words_graphic(3), of 32 "?k @ crlf"] split [OF k, of 13 "[10]"]
    unfolding acl_argv_split_def cstr_id [OF nn(2)] by (simp add: delete_line_def cs)
  moreover have "acl_argv_split (set_line ?k flags timeout n) blanks =
      [[115, 101, 116], ?k, decimal (unat flags), decimal_int (to_int timeout), decimal_int (to_int (int n))]"
    using split [OF words_graphic(2), of 32] split [OF k, of 32] split [OF decimal_graphic decimal_digits(2), of 32]
      split [OF decimal_int_graphic, of 32] split [OF decimal_int_graphic, of 13 _ "[10]"]
    unfolding acl_argv_split_def cstr_id [OF nn(3)] by (simp add: set_line_def cs)
  ultimately show ?thesis using k(1) by blast
qed

theorem memcache_one_word_keys_witness:
  "\<exists>mm1 k. build_key [97, 32, 0] (memcache_new 0) = Some (mm1, k) \<and> list_all graphic k"
  using memcache_one_word_keys [OF mc_ok_new [of 0], of "[97, 32, 0]" 0 0 0] by (auto simp: key_fits_def)

text \<open>Two different keys are built differently under the same prefix, if they are encoded as a whole or have
  no equals sign.
\<close>

lemma memcache_keys_differ:
  assumes "mc_ok mm" "key_fits mm k1" "key_fits mm k2" "mm_encode_key mm \<or> 61 \<notin> set k1 \<and> 61 \<notin> set k2" "k1 \<noteq> k2"
  shows "map_option snd (build_key k1 mm) \<noteq> map_option snd (build_key k2 mm)"
proof -
  obtain m1 m2 where "build_key k1 mm = Some (m1, key_bytes mm k1)" "build_key k2 mm = Some (m2, key_bytes mm k2)"
    using build_key_bytes [OF assms(1)] assms(2,3) by metis
  moreover have "key_bytes mm k1 \<noteq> key_bytes mm k2"
    using assms(4,5) key_text_inj [of k1 k2] word_text_inj(1) [of k1 "[]" k2 "[]"] by (auto simp: key_bytes_def)
  ultimately show ?thesis by simp
qed

text \<open>An equals sign is left as it is, so the text of an encoded word is a key of its own.\<close>

lemma memcache_keys_collide:
  "map_option snd (build_key [32] (memcache_new 0)) =
   map_option snd (build_key [61, 63, 71, 66, 50, 51, 49, 50, 63, 66, 63, 73, 65, 61, 61, 63, 61] (memcache_new 0))"
  by code_simp

text \<open>\<^verbatim>\<open>set_prefix\<close> does not reset the coder: after a prefix that ends with a coded byte, the next one goes on
  with its word, and has no start of a word of its own.
\<close>

lemma second_prefix_has_no_word_start:
  "map_option mm_keypre (set_prefix (Some [32]) (memcache_new 0)) =
     Some (Some [61, 63, 71, 66, 50, 51, 49, 50, 63, 66, 63, 73, 65, 61, 61, 63, 61])"
  "map_option mm_keypre (set_prefix (Some [32]) (memcache_new 0) \<bind> set_prefix (Some [32])) =
     Some (Some [73, 65, 61, 61, 63, 61])"
  by code_simp+

section \<open>Values\<close>

text \<open>What is documented of the reading calls of a stream: a line, or as many bytes as are asked for; \<open>kept\<close> is what
  reading does not change.\<close>

definition mc_net_ok :: "'w mc_net \<Rightarrow> ('w \<Rightarrow> byte list) \<Rightarrow> ('w \<Rightarrow> 'k) \<Rightarrow> bool" where
  "mc_net_ok net contents kept \<longleftrightarrow>
     (\<forall>w line rest. contents w = line @ crlf @ rest \<longrightarrow> clean_line line \<longrightarrow>
       (\<exists>w1. mn_gets net w = (Some line, w1) \<and> contents w1 = rest \<and> kept w1 = kept w)) \<and>
     (\<forall>w xs rest. contents w = xs @ rest \<longrightarrow> xs \<noteq> [] \<longrightarrow>
       (\<exists>w1. mn_read net (length xs) w = (Some xs, w1) \<and> contents w1 = rest \<and> kept w1 = kept w))"

lemma mc_net_okD:
  assumes "mc_net_ok net contents kept"
  shows "contents w = line @ crlf @ rest \<Longrightarrow> clean_line line \<Longrightarrow>
      \<exists>w1. mn_gets net w = (Some line, w1) \<and> contents w1 = rest \<and> kept w1 = kept w"
    "contents w = xs @ rest \<Longrightarrow> xs \<noteq> [] \<Longrightarrow>
      \<exists>w1. mn_read net (length xs) w = (Some xs, w1) \<and> contents w1 = rest \<and> kept w1 = kept w"
  using assms unfolding mc_net_ok_def by blast+

definition value_line :: "byte list \<Rightarrow> u16 \<Rightarrow> nat \<Rightarrow> byte list" where
  "value_line k flags n = VALUE @ 32 # k @ 32 # decimal (unat flags) @ 32 # decimal n"

definition value_end :: "byte list" where
  "value_end = crlf @ END @ crlf"

lemma value_line_parts:
  assumes "list_all graphic k" "k \<noteq> []"
  shows "clean_line (value_line k flags n)" "\<not> strcaseeq (value_line k flags n) END"
    "error_happen (value_line k flags n) mm = (False, mm)"
    "acl_argv_split (value_line k flags n) [32, 9] = [VALUE, k, decimal (unat flags), decimal n]"
proof -
  note g = words_graphic(4) assms(1) decimal_graphic
  note cs = g [THEN graphic_token(5)]
  show "clean_line (value_line k flags n)"
    using g [THEN graphic_token(4)] by (auto simp: value_line_def clean_line_def)
  have "no_nul (value_line k flags n)"
    using g [THEN graphic_token(3)] by (auto simp: value_line_def no_nul_def)
  note nul = cstr_id [OF this]
  show "\<not> strcaseeq (value_line k flags n) END" "error_happen (value_line k flags n) mm = (False, mm)"
    unfolding strcaseeq_def error_happen_def begins_with_def nul
    by (simp_all add: value_line_def VALUE_def END_def ERROR_def CLIENT_ERROR_def SERVER_ERROR_def cstr_def to_lower_def)
  have split: "argv_split [32, 9] [] (ts @ 32 # rest) = ts # argv_split [32, 9] [] rest"
    if "list_all graphic ts" "ts \<noteq> []" for ts rest
    using argv_split_token [OF graphic_token(2) [OF that(1)], of 32 "[]"] that(2) by simp
  show "acl_argv_split (value_line k flags n) [32, 9] = [VALUE, k, decimal (unat flags), decimal n]"
    using split [OF words_graphic(4)] split [OF assms] split [OF decimal_graphic decimal_digits(2)]
      argv_split_last [OF graphic_token(2) [OF decimal_graphic], of "[]"]
    unfolding acl_argv_split_def nul by (simp add: value_line_def VALUE_def decimal_digits(2))
qed

lemma number_read:
  assumes "n < 2 ^ 31"
  shows "sint (ucast (word_of_nat n :: u64) :: u32) = int n" "unat (word_of_nat n :: u64) = n"
proof -
  show "unat (word_of_nat n :: u64) = n" using assms by (simp add: unat_of_nat take_bit_nat_eq_self)
  then have "(ucast (word_of_nat n :: u64) :: u32) = word_of_nat n"
    by (simp add: unsigned_of_nat take_bit_nat_eq_self)
  then show "sint (ucast (word_of_nat n :: u64) :: u32) = int n"
    using assms by (simp add: signed_of_nat signed_take_bit_int_eq_self)
qed

lemma get_attempt_value:
  assumes "mc_net_ok net contents kept" "mn_write net req w = (True, w1)"
    and "contents w1 = value_line k flags n @ crlf @ rest" "list_all graphic k" "k \<noteq> []" "n < 2 ^ 31"
  shows "\<exists>w2. get_attempt net req mm w =
    (Inl (int n, Some flags), mm\<lparr>mm_content_length := word_of_nat n\<rparr>, w2) \<and> contents w2 = rest \<and> kept w2 = kept w1"
proof -
  note v = value_line_parts [OF assms(4,5), of flags n]
  obtain w2 where "mn_gets net w1 = (Some (value_line k flags n), w2)" "contents w2 = rest" "kept w2 = kept w1"
    using mc_net_okD(1) [OF assms(1,3) v(1)] by blast
  moreover have "word_of_int (int (unat flags)) = flags" "unat flags < 2 ^ 31"
    using unsigned_less [where 'a = nat and w = flags] by simp_all
  moreover have "strcaseeq VALUE VALUE" by (simp add: strcaseeq_def)
  moreover have "(word_of_nat n :: u64) = 0 \<longleftrightarrow> n = 0"
    using number_read(2) [OF assms(6)] by (metis unat_0 unat_eq_zero of_nat_0)
  ultimately show ?thesis
    using assms(2,6) v(2-4) number_read(1) [OF assms(6)] by (simp add: get_attempt_def Let_def)
qed

lemma get_loop_value:
  assumes "mc_net_ok net contents kept" "mm_opened mm" "N < 2 ^ 31" "length left \<le> N"
    and "contents w = left @ value_end @ rest"
    and "mm_content_length mm = word_of_nat N" "mm_length mm = word_of_nat (N - length left)"
  shows "\<exists>w1. get_loop net out mm w =
    Some ((out @ left \<noteq> [], out @ left), mm\<lparr>mm_length := word_of_nat N\<rparr>, w1) \<and> contents w1 = rest \<and> kept w1 = kept w"
  using assms(2,4-7)
proof (induction "length left" arbitrary: left out mm w rule: less_induct)
  case less
  have u: "unat (mm_content_length mm) = N" "unat (mm_length mm) = N - length left"
    using number_read(2) [of N] number_read(2) [of "N - length left"] assms(3) less.prems(4,5) by simp_all
  show ?case
  proof (cases "left = []")
    case True
    obtain w1 where w1: "mn_gets net w = (Some [], w1)" "contents w1 = END @ crlf @ rest" "kept w1 = kept w"
      using mc_net_okD(1) [OF assms(1), of w "[]"] less.prems(3) True by (auto simp: value_end_def clean_line_def)
    obtain w2 where w2: "mn_gets net w1 = (Some END, w2)" "contents w2 = rest" "kept w2 = kept w"
      using mc_net_okD(1) [OF assms(1) w1(2)] graphic_token(4) [OF words_graphic(5)] w1(3) by auto
    have "get_data net 4096 mm w = Some ((0, []), mm, w2)"
      using less.prems(1,4,5) True w1(1) w2(1) by (simp add: get_data_def strcaseeq_def)
    then show ?thesis
      using w2(2,3) less.prems(5) True by (subst get_loop.simps) (auto intro!: exI [of _ w2])
  next
    case False
    define m where "m = min (length left) 4096"
    have m: "0 < m" "m \<le> length left" "m < 2 ^ 31" using False by (auto simp: m_def)
    have left: "mm_content_length mm - mm_length mm = word_of_nat (length left)"
      using less.prems(2,4,5) by (simp add: of_nat_diff)
    have ul: "unat (word_of_nat (length left) :: u64) = length left" using number_read(2) less.prems(2) assms(3) by simp
    have n: "(if word_of_nat (length left) > (4096 :: u64) then 4096 else word_of_nat (length left)) = (word_of_nat m :: u64)"
      using ul by (auto simp: m_def word_less_nat_alt)
    have ne: "\<not> mm_content_length mm < mm_length mm" "mm_length mm \<noteq> mm_content_length mm"
      using u False less.prems(2) by (auto simp: word_less_nat_alt simp flip: length_greater_0_conv)
    have "contents w = take m left @ drop m left @ value_end @ rest" "take m left \<noteq> []" "length (take m left) = m"
      using less.prems(3) m by auto
    then obtain w1 where w1: "mn_read net m w = (Some (take m left), w1)" "contents w1 = drop m left @ value_end @ rest" "kept w1 = kept w"
      using mc_net_okD(2) [OF assms(1), of w "take m left"] by auto
    define mm1 where "mm1 = mm\<lparr>mm_length := mm_length mm + word_of_nat m\<rparr>"
    have data: "get_data net 4096 mm w = Some ((int m, take m left), mm1, w1)"
      using ne less.prems(1) w1(1) number_read [OF m(3)] by (simp add: get_data_def Let_def left n mm1_def)
    have "N - length left + m = N - length (drop m left)" using m less.prems(2) by simp
    then have "mm_length mm1 = word_of_nat (N - length (drop m left))"
      using less.prems(5) by (simp add: mm1_def flip: of_nat_add)
    moreover have shorter: "length (drop m left) < length left" using m by simp
    ultimately obtain w2 where "get_loop net (out @ take m left) mm1 w1 =
        Some (((out @ take m left) @ drop m left \<noteq> [], (out @ take m left) @ drop m left), mm1\<lparr>mm_length := word_of_nat N\<rparr>, w2)"
      "contents w2 = rest" "kept w2 = kept w"
      using less.hyps [OF shorter, of mm1 w1 "out @ take m left"] less.prems(1,2,4) w1(2,3) by (auto simp: mm1_def)
    then show ?thesis
      using data m(1) by (subst get_loop.simps) (simp add: mm1_def)
  qed
qed

text \<open>What the keys built depend on.\<close>

definition same_key :: "memcache \<Rightarrow> memcache \<Rightarrow> bool" where
  "same_key a b \<longleftrightarrow> mm_keypre a = mm_keypre b \<and> mm_encode_key a = mm_encode_key b"

lemma get_begin_sent:
  assumes "mc_ok mm" "key_fits mm key"
  obtains mm1 where "mc_ok mm1" "mm_opened mm1 = mm_opened mm" "mm_length mm1 = 0" "same_key mm1 mm"
    "get_begin net key mm w = Some (mc_again net (- 1, None) (get_attempt net (get_line (key_bytes mm key))) mm1 w)"
proof -
  let ?mm = "mm\<lparr>mm_content_length := 0, mm_length := 0\<rparr>"
  obtain mm1 where mm1: "build_key key ?mm = Some (mm1, key_bytes ?mm key)" "mc_ok mm1" "mm1 = ?mm\<lparr>mm_coder := mm_coder mm1\<rparr>"
    using build_key_bytes [of ?mm key] assms by (auto simp: mc_ok_def key_fits_def)
  have "mm_opened mm1 = mm_opened mm" "mm_length mm1 = 0" "same_key mm1 mm" by (subst mm1(3), simp add: same_key_def)+
  moreover have "key_bytes ?mm key = key_bytes mm key" by (simp add: key_bytes_def)
  ultimately show thesis using that [of mm1] mm1(1,2) by (simp add: get_begin_def)
qed

lemma mc_get_value:
  assumes "mc_net_ok net contents kept" "mc_ok mm" "mm_opened mm" "key_fits mm key"
    and "mn_write net (get_line (key_bytes mm key)) w = (True, w1)"
    and "contents w1 = value_line k flags (length dat) @ crlf @ dat @ value_end @ rest"
    and "list_all graphic k" "k \<noteq> []" "length dat < 2 ^ 31"
  shows "\<exists>mm1 w2. mc_get net key mm w = Some ((dat \<noteq> [], dat, Some flags), mm1, w2) \<and> mc_ok mm1 \<and> mm_opened mm1 \<and>
    same_key mm1 mm \<and> contents w2 = (if dat = [] then value_end @ rest else rest) \<and> kept w2 = kept w1"
proof -
  obtain mm1 where mm1: "mc_ok mm1" "mm_opened mm1" "mm_length mm1 = 0" "same_key mm1 mm" and sent0:
    "get_begin net key mm w = Some (mc_again net (- 1, None) (get_attempt net (get_line (key_bytes mm key))) mm1 w)"
    by (rule get_begin_sent [OF assms(2,4), of net w]) (simp add: assms(3))
  define mm2 where "mm2 = mm1\<lparr>mm_content_length := word_of_nat (length dat)\<rparr>"
  obtain w2 where w2: "get_attempt net (get_line (key_bytes mm key)) mm1 w = (Inl (int (length dat), Some flags), mm2, w2)"
    "contents w2 = dat @ value_end @ rest" "kept w2 = kept w1"
    using get_attempt_value [OF assms(1,5,6,7,8,9)] by (auto simp: mm2_def)
  have sent: "get_begin net key mm w = Some ((int (length dat), Some flags), mm2, w2)"
    using sent0 w2(1) mm1(2) by (simp add: mc_again_def mc_once_def mc_open_def)
  have ok: "mc_ok mm2" "mm_opened mm2" "mm_content_length mm2 = word_of_nat (length dat)"
    "mm_length mm2 = word_of_nat (length dat - length dat)" "same_key mm2 mm"
    using mm1 by (simp_all add: mm2_def mc_ok_def same_key_def)
  show ?thesis
  proof (cases "dat = []")
    case True
    then show ?thesis using sent ok(1,2,5) w2(2,3) by (simp add: mc_get_def)
  next
    case False
    obtain w3 where "get_loop net [] mm2 w2 = Some ((True, dat), mm2\<lparr>mm_length := word_of_nat (length dat)\<rparr>, w3)"
      "contents w3 = rest" "kept w3 = kept w1"
      using w2(3) get_loop_value [OF assms(1) ok(2) assms(9) le_refl w2(2) ok(3,4), of "[]"] False by auto
    then show ?thesis using sent ok(1,2,5) False by (simp add: mc_get_def mc_ok_def same_key_def)
  qed
qed

lemma mc_get_none:
  assumes "mc_net_ok net contents kept" "mc_ok mm" "mm_opened mm" "key_fits mm key"
    and "mn_write net (get_line (key_bytes mm key)) w = (True, w1)" "contents w1 = END @ crlf @ rest"
  shows "\<exists>mm1 w2. mc_get net key mm w = Some ((False, [], None), mm1, w2) \<and> mc_ok mm1 \<and> mm_opened mm1 \<and>
    same_key mm1 mm \<and> contents w2 = rest \<and> kept w2 = kept w1"
proof -
  obtain mm1 where mm1: "mc_ok mm1" "mm_opened mm1" "same_key mm1 mm" and sent:
    "get_begin net key mm w = Some (mc_again net (- 1, None) (get_attempt net (get_line (key_bytes mm key))) mm1 w)"
    by (rule get_begin_sent [OF assms(2,4), of net w]) (simp add: assms(3))
  obtain w2 where w2: "mn_gets net w1 = (Some END, w2)" "contents w2 = rest" "kept w2 = kept w1"
    using mc_net_okD(1) [OF assms(1,6)] graphic_token(4) [OF words_graphic(5)] by blast
  have "get_attempt net (get_line (key_bytes mm key)) mm1 w = (Inl (0, None), mm1, w2)"
    using assms(5) w2(1) by (simp add: get_attempt_def strcaseeq_def)
  then show ?thesis
    using sent mm1 w2(2,3) by (auto simp: mc_get_def mc_again_def mc_once_def mc_open_def)
qed

lemma mc_set_stored:
  assumes "mc_net_ok net contents kept" "mc_ok mm" "mm_opened mm" "key_fits mm key"
    and "mn_write net (set_line (key_bytes mm key) flags timeout (length dat) @ dat @ crlf) w = (True, w1)"
    and "contents w1 = STORED @ crlf @ rest"
  shows "\<exists>mm1 w2. mc_set net key dat timeout flags mm w = Some (True, mm1, w2) \<and> mc_ok mm1 \<and> mm_opened mm1 \<and>
    same_key mm1 mm \<and> contents w2 = rest \<and> kept w2 = kept w1"
proof -
  obtain mm1 where mm1: "build_key key mm = Some (mm1, key_bytes mm key)" "mc_ok mm1" "mm1 = mm\<lparr>mm_coder := mm_coder mm1\<rparr>"
    using build_key_bytes [OF assms(2)] assms(4) by blast
  have o: "mm_opened mm1" "same_key mm1 mm" using assms(3) by (subst mm1(3), simp add: same_key_def)+
  obtain w2 where w2: "mn_gets net w1 = (Some STORED, w2)" "contents w2 = rest" "kept w2 = kept w1"
    using mc_net_okD(1) [OF assms(1,6)] by (auto simp: STORED_def clean_line_def)
  have "set_attempt net (set_line (key_bytes mm key) flags timeout (length dat) @ dat @ crlf) mm1 w = (Inl True, mm1, w2)"
    using assms(5) w2(1) by (simp add: set_attempt_def strcaseeq_def)
  then show ?thesis
    using mm1(1,2) o w2(2,3) by (auto simp: mc_set_def set_built_def mc_again_def mc_once_def mc_open_def)
qed

text \<open>C28: over an open connection, the value a server sends in reply to a get of a key is returned with its flags,
  whatever bytes it has, and nothing behind the reply is read; a value without bytes is taken for none, and
  the end of the reply is left on the connection.
\<close>

theorem memcache_get_returns_value:
  assumes "mc_net_ok net contents kept" "mc_ok mm" "mm_opened mm" "key_fits mm key"
    and "mn_write net (get_line (key_bytes mm key)) w = (True, w1)"
    and "contents w1 = value_line (key_bytes mm key) flags (length dat) @ crlf @ dat @ value_end @ rest"
    and "length dat < 2 ^ 31"
  shows "\<exists>mm1 w2. mc_get net key mm w = Some ((dat \<noteq> [], dat, Some flags), mm1, w2) \<and> mc_ok mm1 \<and> mm_opened mm1 \<and>
    same_key mm1 mm \<and> contents w2 = (if dat = [] then value_end @ rest else rest) \<and> kept w2 = kept w1"
  by (rule mc_get_value [OF assms(1-6) key_bytes_graphic [OF assms(2)] key_bytes_nonempty [OF assms(4)] assms(7)])

text \<open>A connection over a list of bytes, on which writing always succeeds.\<close>

definition list_net :: "byte list mc_net" where
  "list_net = \<lparr>mn_open = (\<lambda>w. (True, w)), mn_write = (\<lambda>_ w. (True, w)),
     mn_gets = (\<lambda>w. case list_gets w of None \<Rightarrow> (None, w) | Some (l, w) \<Rightarrow> (Some l, w)),
     mn_read = (\<lambda>n w. if n \<le> length w then (Some (take n w), drop n w) else (None, [])), mn_close = (\<lambda>_. [])\<rparr>"

lemma list_net_ok: "mc_net_ok list_net (\<lambda>w. w) (\<lambda>_. ())"
proof -
  have "list_gets (line @ crlf @ rest) = Some (line, rest)" if "clean_line line" for line rest
    using gets_okD [OF list_gets_ok refl that] by metis
  then show ?thesis by (simp add: mc_net_ok_def list_net_def)
qed

definition open_memcache :: memcache where
  "open_memcache = (memcache_new 0)\<lparr>mm_opened := True\<rparr>"

lemma open_memcache_ok: "mc_ok open_memcache" "mm_opened open_memcache"
  by (simp_all add: open_memcache_def memcache_new_def mc_ok_def rfc_new_def)

theorem memcache_get_returns_value_witness:
  "\<exists>mm1 w2. mc_get list_net [97] open_memcache (value_line (key_bytes open_memcache [97]) 5 (length [13, 10 :: byte]) @ crlf @ [13, 10] @ value_end @ [9]) =
    Some (([13, 10 :: byte] \<noteq> [], [13, 10], Some 5), mm1, w2) \<and> mc_ok mm1 \<and> mm_opened mm1 \<and> same_key mm1 open_memcache \<and>
    w2 = (if [13, 10 :: byte] = [] then value_end @ [9] else [9]) \<and> () = ()"
proof -
  have k: "key_fits open_memcache [97]" by (simp add: key_fits_def)
  have "mn_write list_net req w = (True, w)" for req w by (simp add: list_net_def)
  from memcache_get_returns_value [OF list_net_ok open_memcache_ok k this refl _, where flags = 5 and dat = "[13, 10]" and rest = "[9]"]
  show ?thesis by force
qed

text \<open>C29: after a get of a value without bytes, the next get that is sent reads the rest of the reply as its own:
  it fails and closes the connection.
\<close>

theorem memcache_empty_value_breaks:
  assumes "mc_net_ok net contents kept" "mc_ok mm" "mm_opened mm" "key_fits mm key"
    and "mn_write net (get_line (key_bytes mm key)) w = (True, w1)" "contents w1 = value_end @ rest"
  shows "\<exists>mm1 w2. mc_get net key mm w = Some ((False, [], None), mm1, mn_close net w2) \<and> \<not> mm_opened mm1 \<and>
    contents w2 = END @ crlf @ rest"
proof -
  obtain mm1 where mm1: "mm_opened mm1" and sent:
    "get_begin net key mm w = Some (mc_again net (- 1, None) (get_attempt net (get_line (key_bytes mm key))) mm1 w)"
    by (rule get_begin_sent [OF assms(2,4), of net w]) (simp add: assms(3))
  obtain w2 where w2: "mn_gets net w1 = (Some [], w2)" "contents w2 = END @ crlf @ rest"
    using mc_net_okD(1) [OF assms(1), of w1 "[]"] assms(6) by (auto simp: value_end_def clean_line_def)
  have "error_happen [] mm1 = (False, mm1)" "\<not> strcaseeq [] END" "acl_argv_split [] [32, 9] = []"
    by (simp_all add: error_happen_def strcaseeq_def begins_with_def acl_argv_split_def
        ERROR_def CLIENT_ERROR_def SERVER_ERROR_def END_def cstr_def)
  then have "get_attempt net (get_line (key_bytes mm key)) mm1 w =
      (Inl (- 1, None), mm1\<lparr>mm_opened := False\<rparr>, mn_close net w2)"
    using assms(5) w2(1) mm1 by (simp add: get_attempt_def mc_fail_def mc_close_def)
  then show ?thesis
    using sent mm1 w2(2) by (auto simp: mc_get_def mc_again_def mc_once_def mc_open_def)
qed

theorem memcache_empty_value_breaks_witness:
  "\<exists>mm1 w2. mc_get list_net [97] open_memcache (value_end @ [9]) = Some ((False, [], None), mm1, mn_close list_net w2) \<and>
    \<not> mm_opened mm1 \<and> w2 = END @ crlf @ [9]"
proof -
  have k: "key_fits open_memcache [97]" by (simp add: key_fits_def)
  have "mn_write list_net req w = (True, w)" for req w by (simp add: list_net_def)
  from memcache_empty_value_breaks [OF list_net_ok open_memcache_ok k this refl, where rest = "[9]"] show ?thesis by auto
qed

section \<open>Retries\<close>

text \<open>C30: a set over a connection the server has closed is sent again over a new one; what is then stored is
  stored for the caller.
\<close>

theorem memcache_set_retried:
  assumes "mc_ok mm" "key_fits mm key" "mm_opened mm" "mm_retry mm"
    and "req = set_line (key_bytes mm key) flags timeout (length dat) @ dat @ crlf"
    and "mn_write net req w = (False, w1) \<or> (\<exists>w0. mn_write net req w = (True, w0) \<and> mn_gets net w0 = (None, w1))"
    and "mn_open net (mn_close net w1) = (True, w2)" "mn_write net req w2 = (True, w3)" "mn_gets net w3 = (Some STORED, w4)"
  shows "\<exists>mm1. mc_set net key dat timeout flags mm w = Some (True, mm1, w4) \<and> mm_opened mm1 \<and> mc_ok mm1"
proof -
  obtain mm1 where mm1: "build_key key mm = Some (mm1, key_bytes mm key)" "mc_ok mm1" "mm1 = mm\<lparr>mm_coder := mm_coder mm1\<rparr>"
    using build_key_bytes [OF assms(1)] assms(2) by blast
  have o: "mm_opened mm1" "mm_retry mm1" using assms(3,4) by (subst mm1(3), simp)+
  have "set_attempt net req mm1 w = (Inr False, mm1\<lparr>mm_opened := False\<rparr>, mn_close net w1)"
    using assms(6) o by (auto simp: set_attempt_def mc_fail_def mc_close_def)
  moreover have "set_attempt net req (mm1\<lparr>mm_opened := True\<rparr>) w2 = (Inl True, mm1\<lparr>mm_opened := True\<rparr>, w4)"
    using assms(8,9) by (simp add: set_attempt_def strcaseeq_def)
  ultimately have "set_built net (key_bytes mm key) dat timeout flags mm1 w = (True, mm1\<lparr>mm_opened := True\<rparr>, w4)"
    using o assms(7) by (simp add: set_built_def assms(5) [symmetric] mc_again_def mc_once_def mc_open_def)
  then show ?thesis using mm1(1,2) by (simp add: mc_set_def mc_ok_def)
qed

definition broken_net :: "bool mc_net" where
  "broken_net = \<lparr>mn_open = (\<lambda>_. (True, True)), mn_write = (\<lambda>_ w. (w, w)), mn_gets = (\<lambda>w. (if w then Some STORED else None, w)),
     mn_read = (\<lambda>_ w. (None, w)), mn_close = (\<lambda>_. False)\<rparr>"

theorem memcache_set_retried_witness:
  "\<exists>mm1. mc_set broken_net [97] [98] 0 0 open_memcache False = Some (True, mm1, True) \<and> mm_opened mm1"
proof -
  have net: "mn_write broken_net = (\<lambda>_ w. (w, w))" "mn_gets broken_net = (\<lambda>w. (if w then Some STORED else None, w))"
    "mn_open broken_net = (\<lambda>_. (True, True))" by (simp_all add: broken_net_def)
  have k: "key_fits open_memcache [97]" by (simp add: key_fits_def)
  have "mm_retry open_memcache" by (simp add: open_memcache_def memcache_new_def)
  from memcache_set_retried [OF open_memcache_ok(1) k open_memcache_ok(2) this refl, of broken_net 0 0 "[98]" False False True True True]
  show ?thesis unfolding net by force
qed

text \<open>\<^verbatim>\<open>del\<close> tries again over the connection that failed, and leaves it open for the next call.\<close>

lemma del_keeps_broken:
  "map_option (\<lambda>(ok, mm, w). (ok, mm_opened mm, w)) (mc_del broken_net [97] open_memcache False) = Some (False, True, False)"
  by code_simp

end
