(* ===== verification/UrlRun.thy ===== *)
theory UrlRun
  imports UrlCoder MemcacheProperties
begin

text \<open>
  What the coder of URL parameters writes and reads, and its parameters as a finite map.
\<close>

section \<open>Bytes\<close>

lemma hex_digits: "is_alnum (enc_tab ! unat (drop_bit 4 c)) \<and> is_alnum (enc_tab ! unat (c AND 0x0F)) \<and>
    push_bit 4 (dec_tab ! unat (enc_tab ! unat (drop_bit 4 c))) + dec_tab ! unat (enc_tab ! unat (c AND 0x0F)) = c"
  by (rule byte_all) code_simp

lemma url_plain_chars: "url_plain x \<longrightarrow> graphic x \<and> x \<noteq> 38 \<and> x \<noteq> 61 \<and> x \<noteq> 63 \<and> x \<noteq> 37"
  by (rule byte_all) code_simp

lemma url_byte_chars: "list_all (\<lambda>x. graphic x \<and> x \<noteq> 38 \<and> x \<noteq> 61 \<and> x \<noteq> 63) (url_byte c)"
  by (rule byte_all) code_simp

lemma url_byte_read: "decode_bytes (url_byte c @ rest) = c # decode_bytes rest"
  using hex_digits [of c] url_plain_chars [of c] by (simp add: url_byte_def)

lemma url_encode_read: "decode_bytes (concat (map url_byte s) @ rest) = s @ decode_bytes rest"
  by (induction s) (simp_all add: url_byte_read)

lemma url_encode_chars: "x \<in> set (url_encode s) \<Longrightarrow> graphic x \<and> x \<noteq> 38 \<and> x \<noteq> 61 \<and> x \<noteq> 63"
  using url_byte_chars by (auto simp: url_encode_def list_all_iff)

lemma url_encode_no_nul [simp]: "no_nul (url_encode s)"
  using url_encode_chars [of 0 s] by (auto simp: no_nul_def graphic_def)

lemma url_decode_encode [simp]: "url_decode (url_encode s) = cstr s"
  using url_encode_read [of "cstr s" "[]"] by (simp add: url_decode_def) (simp add: url_encode_def)

lemma url_encode_empty: "url_encode s = [] \<longleftrightarrow> cstr s = []"
proof -
  have "url_byte c \<noteq> []" for c by (simp add: url_byte_def)
  then show ?thesis by (cases "cstr s") (simp_all add: url_encode_def)
qed

section \<open>Texts\<close>

text \<open>What is lost of the parameters in a text: an empty value becomes none, and a parameter without a name
  and a value leaves nothing.\<close>

definition nv_norm :: "url_nv \<Rightarrow> url_nv" where
  "nv_norm nv = (fst nv, if snd nv = Some [] then None else snd nv)"

definition nv_blank :: "url_nv \<Rightarrow> bool" where
  "nv_blank nv \<longleftrightarrow> fst nv = [] \<and> snd (nv_norm nv) = None"

definition nv_string :: "url_nv \<Rightarrow> bool" where
  "nv_string nv \<longleftrightarrow> no_nul (fst nv) \<and> (case snd nv of None \<Rightarrow> True | Some v \<Rightarrow> no_nul v)"

lemma url_pair_chars: "x \<in> set (url_pair nv) \<Longrightarrow> graphic x \<and> x \<noteq> 38"
  using url_encode_chars by (auto simp: url_pair_def graphic_def split: option.splits list.splits)

lemma url_pair_empty: "nv_string nv \<Longrightarrow> url_pair nv = [] \<longleftrightarrow> nv_blank nv"
  by (cases nv) (auto simp: url_pair_def nv_blank_def nv_norm_def nv_string_def url_encode_empty split: option.splits list.splits)

lemma url_token_pair: "nv_string nv \<Longrightarrow> url_token (url_pair nv) = nv_norm nv"
proof -
  assume s: "nv_string nv"
  have name: "takeWhile (\<lambda>c. c \<noteq> 61) (url_encode n @ 61 # r) = url_encode n"
    "dropWhile (\<lambda>c. c \<noteq> 61) (url_encode n @ 61 # r) = 61 # r"
    "takeWhile (\<lambda>c. c \<noteq> 61) (url_encode n) = url_encode n" "dropWhile (\<lambda>c. c \<noteq> 61) (url_encode n) = []" for n r
    using url_encode_chars [of _ n]
    by (auto simp: takeWhile_eq_all_conv dropWhile_eq_Nil_conv)
  show ?thesis
  proof (cases "snd nv")
    case None
    then show ?thesis using s by (simp add: url_pair_def url_token_def nv_norm_def nv_string_def name)
  next
    case (Some v)
    show ?thesis
    proof (cases v)
      case Nil
      then show ?thesis using Some s by (simp add: url_pair_def url_token_def nv_norm_def nv_string_def name)
    next
      case (Cons x xs)
      then have "no_nul (x # xs)" using Some s by (simp add: nv_string_def)
      then have "url_decode (url_encode (x # xs)) = x # xs" "url_encode (x # xs) \<noteq> []" "cstr (x # xs) = x # xs"
        by (simp_all add: url_encode_empty)
      then show ?thesis using Some Cons s
        by (cases "url_encode (x # xs)") (simp_all add: url_pair_def url_token_def nv_norm_def nv_string_def name)
    qed
  qed
qed

lemma argv_split_pairs:
  "argv_split [38] [] (url_pairs nvs) = filter (\<lambda>t. t \<noteq> []) (map url_pair nvs)"
proof (induction nvs rule: url_pairs.induct)
  case (2 nv)
  then show ?case using url_pair_chars [of 38 nv] argv_split_last [of "[38]" "url_pair nv" "[]"] by auto
next
  case (3 nv nv' nvs)
  have "argv_split [38] [] (url_pair nv @ 38 # r) = (if url_pair nv = [] then [] else [url_pair nv]) @ argv_split [38] [] r" for r
    using url_pair_chars [of 38 nv] argv_split_token [of "[38]" "url_pair nv" 38 "[]" r] by auto
  with 3 show ?case by simp
qed simp

lemma url_pairs_chars: "x \<in> set (url_pairs nvs) \<Longrightarrow> graphic x"
  by (induction nvs rule: url_pairs.induct) (use url_pair_chars in \<open>auto simp: graphic_def\<close>)

lemma url_pairs_no_nul: "no_nul (url_pairs nvs)"
  using url_pairs_chars [of 0 nvs] by (auto simp: no_nul_def graphic_def)

lemma url_pairs_tokens:
  assumes "list_all nv_string nvs"
  shows "map url_token (acl_argv_split (url_pairs nvs) [38]) = map nv_norm (filter (\<lambda>nv. \<not> nv_blank nv) nvs)"
proof -
  have "map url_token (filter (\<lambda>t. t \<noteq> []) (map url_pair nvs)) = map nv_norm (filter (\<lambda>nv. \<not> nv_blank nv) nvs)"
    using assms by (induction nvs) (simp_all add: url_pair_empty url_token_pair)
  then show ?thesis by (simp add: acl_argv_split_def cstr_id [OF url_pairs_no_nul] argv_split_pairs)
qed

section \<open>Parameters as a map\<close>

definition url_key :: "bool \<Rightarrow> byte list \<Rightarrow> byte list" where
  "url_key nocase x = (if nocase then map to_lower (cstr x) else cstr x)"

lemma url_cmp_key: "url_cmp nocase x y \<longleftrightarrow> url_key nocase x = url_key nocase y"
  by (simp add: url_cmp_def url_key_def strcaseeq_def)

definition url_map :: "url_coder \<Rightarrow> byte list \<rightharpoonup> byte list option" where
  "url_map c = map_of (map (\<lambda>nv. (url_key (uc_nocase c) (fst nv), snd nv)) (uc_params c))"

definition url_distinct :: "url_coder \<Rightarrow> bool" where
  "url_distinct c \<longleftrightarrow> distinct (map (\<lambda>nv. url_key (uc_nocase c) (fst nv)) (uc_params c))"

lemma url_erase_keys:
  "set (url_erase nc n nvs) \<subseteq> set nvs"
  "distinct (map (\<lambda>nv. url_key nc (fst nv)) nvs) \<Longrightarrow>
     distinct (map (\<lambda>nv. url_key nc (fst nv)) (url_erase nc n nvs)) \<and>
     map_of (map (\<lambda>nv. (url_key nc (fst nv), snd nv)) (url_erase nc n nvs)) =
       (map_of (map (\<lambda>nv. (url_key nc (fst nv), snd nv)) nvs)) (url_key nc n := None)"
proof -
  show sub: "set (url_erase nc n nvs) \<subseteq> set nvs" for nvs by (induction nvs) auto
  have none: "map_of (map (\<lambda>nv. (url_key nc (fst nv), snd nv)) nvs) k = None"
    if "k \<notin> (\<lambda>nv. url_key nc (fst nv)) ` set nvs" for k nvs
    using that by (induction nvs) auto
  show "distinct (map (\<lambda>nv. url_key nc (fst nv)) nvs) \<Longrightarrow>
     distinct (map (\<lambda>nv. url_key nc (fst nv)) (url_erase nc n nvs)) \<and>
     map_of (map (\<lambda>nv. (url_key nc (fst nv), snd nv)) (url_erase nc n nvs)) =
       (map_of (map (\<lambda>nv. (url_key nc (fst nv), snd nv)) nvs)) (url_key nc n := None)"
  proof (induction nvs)
    case (Cons nv nvs)
    then show ?case using sub [of nvs] none [of "url_key nc (fst nv)" nvs] by (auto simp: url_cmp_key)
  qed simp
qed

text \<open>A value as it is kept: an empty one is none.\<close>

definition url_value :: "byte list option \<Rightarrow> byte list option" where
  "url_value v = (case map_option cstr v of Some (x # xs) \<Rightarrow> Some (x # xs) | _ \<Rightarrow> None)"

lemma url_key_cstr [simp]: "url_key nc (cstr n) = url_key nc n"
  by (simp add: url_key_def)

lemma url_set_map:
  assumes "url_distinct c" "cstr n \<noteq> []"
  shows "url_distinct (url_set (Some n) v True c)"
    "url_map (url_set (Some n) v True c) = (url_map c) (url_key (uc_nocase c) n \<mapsto> url_value v)"
    "uc_nocase (url_set (Some n) v True c) = uc_nocase c"
proof -
  let ?nc = "uc_nocase c" and ?k = "\<lambda>nv. url_key (uc_nocase c) (fst (nv :: url_nv))"
  note erase = url_erase_keys(2) [OF assms(1) [unfolded url_distinct_def], of "cstr n"]
  have set: "uc_params (url_set (Some n) v True c) = url_erase ?nc (cstr n) (uc_params c) @ [(cstr n, url_value v)]"
    using assms(2) by (simp add: url_set_def Let_def url_value_def)
  show nc: "uc_nocase (url_set (Some n) v True c) = ?nc"
    using assms(2) by (simp add: url_set_def Let_def)
  have "(map_of (map (\<lambda>nv. (?k nv, snd nv)) (url_erase ?nc (cstr n) (uc_params c)))) (url_key ?nc n) = None"
    using erase by simp
  then have "url_key ?nc n \<notin> ?k ` set (url_erase ?nc (cstr n) (uc_params c))"
    by (auto simp: map_of_eq_None_iff image_image)
  then show "url_distinct (url_set (Some n) v True c)"
    using erase by (auto simp: url_distinct_def nc set)
  show "url_map (url_set (Some n) v True c) = (url_map c) (url_key ?nc n \<mapsto> url_value v)"
    using erase by (auto simp: url_map_def nc set map_of_append fun_eq_iff map_add_def split: option.splits)
qed

lemma url_map_find:
  "url_map c (url_key (uc_nocase c) n) = map_option snd (find (\<lambda>nv. url_cmp (uc_nocase c) (fst nv) n) (uc_params c))"
proof -
  have "map_of (map (\<lambda>nv. (url_key nc (fst nv), snd nv)) nvs) (url_key nc n) =
      map_option snd (find (\<lambda>nv. url_cmp nc (fst nv) n) nvs)" for nc and nvs :: "url_nv list"
    by (induction nvs) (auto simp: url_cmp_key)
  then show ?thesis by (simp add: url_map_def)
qed

lemma url_get_map: "url_get n c = (case url_map c (url_key (uc_nocase c) n) of None \<Rightarrow> (None, False) | Some v \<Rightarrow> (v, True))"
  by (auto simp: url_get_def url_map_find split: option.splits)

lemma url_del_map:
  assumes "url_distinct c"
  shows "url_distinct (fst (url_del n c))" "uc_nocase (fst (url_del n c)) = uc_nocase c"
    "url_map (fst (url_del n c)) = (url_map c) (url_key (uc_nocase c) n := None)"
    "snd (url_del n c) \<longleftrightarrow> url_map c (url_key (uc_nocase c) n) \<noteq> None"
proof -
  note erase = url_erase_keys(2) [OF assms(1) [unfolded url_distinct_def], of n]
  have dom: "(\<exists>nv \<in> set (uc_params c). url_cmp (uc_nocase c) (fst nv) n) \<longleftrightarrow> url_map c (url_key (uc_nocase c) n) \<noteq> None"
    unfolding url_map_find by (simp add: find_None_iff Bex_def)
  show "url_distinct (fst (url_del n c))" "uc_nocase (fst (url_del n c)) = uc_nocase c"
    "snd (url_del n c) \<longleftrightarrow> url_map c (url_key (uc_nocase c) n) \<noteq> None"
    using assms erase dom by (auto simp: url_del_def url_distinct_def)
  show "url_map (fst (url_del n c)) = (url_map c) (url_key (uc_nocase c) n := None)"
    using erase dom by (auto simp: url_del_def url_map_def fun_eq_iff)
qed

end
