(* ===== verification/HttpProperties.thy ===== *)
theory HttpProperties
  imports HttpHeader UrlRun HashProperties
begin

text \<open>The properties of the coder of URL parameters, of cookies and of HTTP headers.\<close>

section \<open>URL parameters\<close>

text \<open>The calls that change the parameters, and what they mean for a map from names to values.\<close>

datatype url_op = Url_set "byte list" "byte list option" | Url_del "byte list"

definition url_step :: "url_coder \<Rightarrow> url_op \<Rightarrow> url_coder" where
  "url_step c call = (case call of Url_set n v \<Rightarrow> url_set (Some n) v True c | Url_del n \<Rightarrow> fst (url_del n c))"

definition url_map_step :: "bool \<Rightarrow> (byte list \<rightharpoonup> byte list option) \<Rightarrow> url_op \<Rightarrow> (byte list \<rightharpoonup> byte list option)" where
  "url_map_step nc m call =
     (case call of
        Url_set n v \<Rightarrow> if cstr n = [] then m else m(url_key nc n \<mapsto> url_value v)
      | Url_del n \<Rightarrow> m(url_key nc n := None))"

lemma url_steps:
  assumes "url_distinct c"
  shows "url_distinct (foldl url_step c calls) \<and> uc_nocase (foldl url_step c calls) = uc_nocase c \<and>
    url_map (foldl url_step c calls) = foldl (url_map_step (uc_nocase c)) (url_map c) calls"
  using assms
proof (induction calls arbitrary: c)
  case (Cons call calls)
  have "url_distinct (url_step c call) \<and> uc_nocase (url_step c call) = uc_nocase c \<and>
      url_map (url_step c call) = url_map_step (uc_nocase c) (url_map c) call"
  proof (cases call)
    case (Url_set n v)
    show ?thesis
    proof (cases "cstr n = []")
      case True
      then show ?thesis using Url_set Cons.prems by (simp add: url_step_def url_map_step_def url_set_def)
    next
      case False
      then show ?thesis using Url_set url_set_map [OF Cons.prems False] by (simp add: url_step_def url_map_step_def)
    qed
  next
    case (Url_del n)
    then show ?thesis using url_del_map [OF Cons.prems] by (simp add: url_step_def url_map_step_def)
  qed
  then show ?case using Cons.IH [of "url_step c call"] by simp
qed simp

text \<open>C34: a new coder on which parameters are set, each replacing its namesake, and deleted, in any order, is a
  finite map: get finds exactly the value the map has for the name.
\<close>

theorem url_coder_is_map:
  "url_get n (foldl url_step (url_coder_new nc) calls) =
    (case foldl (url_map_step nc) Map.empty calls (url_key nc n) of None \<Rightarrow> (None, False) | Some v \<Rightarrow> (v, True))"
proof -
  have "url_distinct (url_coder_new nc)" "url_map (url_coder_new nc) = Map.empty" "uc_nocase (url_coder_new nc) = nc"
    by (simp_all add: url_coder_new_def url_distinct_def url_map_def)
  then show ?thesis using url_steps [of "url_coder_new nc" calls] by (simp add: url_get_map)
qed

text \<open>A decoded text may have two parameters of a name; a value that is set is then hidden by the second.\<close>

lemma set_hidden_by_namesake:
  "url_get [97] (url_set (Some [97]) (Some [51]) True (url_coder_decode [97, 61, 49, 38, 97, 61, 50] (url_coder_new True))) =
     (Some [50], True)"
  by code_simp

text \<open>The copy has one parameter of each name, and the assignment keeps what was there.\<close>

lemma copies_differ:
  "uc_params (url_copy (url_coder_decode [97, 61, 49, 38, 97, 61, 50] (url_coder_new True))) = [([97], Some [50])]"
  "uc_params (url_assign (url_set (Some [98]) None True (url_coder_new True)) (url_coder_new True)) = [([98], None)]"
  by code_simp+

text \<open>A percent sign near the end takes the byte behind it, and letters that are not digits are read as zeros.\<close>

lemma url_decode_odd: "url_decode [97, 37, 52] = [97, 37]" "url_decode [97, 37, 122, 122, 98] = [97]"
  by code_simp+

text \<open>Decoding the text of any parameters appends them, with an empty value read back as none and a parameter
  without name and value as nothing; a text decodes to the same parameters whatever the coder.
\<close>

lemma url_text_read_back:
  assumes "list_all nv_string (uc_params c)"
  shows "uc_params (url_coder_decode (snd (url_to_string c)) d) =
    uc_params d @ map nv_norm (filter (\<lambda>nv. \<not> nv_blank nv) (uc_params c))"
  using url_pairs_tokens [OF assms] by (simp add: url_coder_decode_def url_to_string_def Let_def url_coder_encode_def)

section \<open>The query of a request\<close>

lemma query_token: "nv_string p \<Longrightarrow> fst p \<noteq> [] \<Longrightarrow> url_token (query_param p) = p"
proof -
  assume s: "nv_string p" "fst p \<noteq> []"
  show ?thesis
  proof (cases "snd p = Some []")
    case True
    have "takeWhile (\<lambda>c. c \<noteq> 61) (url_encode (fst p) @ [61]) = url_encode (fst p)"
      "dropWhile (\<lambda>c. c \<noteq> 61) (url_encode (fst p) @ [61]) = [61]"
      using url_encode_chars [of _ "fst p"] by (auto simp: takeWhile_eq_all_conv dropWhile_eq_Nil_conv)
    then show ?thesis
      using True s by (cases p) (simp add: query_param_def url_token_def nv_string_def url_decode_def [of "[]"] cstr_def [of "[]"])
  next
    case False
    then have "query_param p = url_pair p" "nv_norm p = p"
      by (auto simp: query_param_def url_pair_def nv_norm_def split: option.splits list.splits)
    then show ?thesis using url_token_pair [OF s(1)] by simp
  qed
qed

lemma query_param_chars: "x \<in> set (query_param p) \<Longrightarrow> graphic x \<and> x \<noteq> 38"
  using url_encode_chars [of x "fst p"] url_encode_chars [of x "the (snd p)"]
  by (cases "snd p"; cases "the (snd p)") (auto simp: query_param_def graphic_def)

lemma query_chars: "x \<in> set (query_params ps) \<Longrightarrow> graphic x"
  by (induction ps rule: query_params.induct) (use query_param_chars in \<open>auto simp: graphic_def\<close>)

lemma query_tokens:
  assumes "list_all nv_string ps" "list_all (\<lambda>p. fst p \<noteq> []) ps"
  shows "map url_token (acl_argv_split (query_params ps) [38]) = ps"
proof -
  have ne: "query_param p \<noteq> []" if "nv_string p" "fst p \<noteq> []" for p
    using that url_encode_empty [of "fst p"] by (simp add: query_param_def nv_string_def)
  have last: "argv_split [38] [] (query_param p) = [query_param p]" if "nv_string p" "fst p \<noteq> []" for p
    using ne [OF that] query_param_chars [of 38 p] argv_split_last [of "[38]" "query_param p" "[]"] by auto
  have first: "argv_split [38] [] (query_param p @ 38 # r) = query_param p # argv_split [38] [] r"
    if "nv_string p" "fst p \<noteq> []" for p r
    using ne [OF that] query_param_chars [of 38 p] argv_split_token [of "[38]" "query_param p" 38 "[]" r] by auto
  have "map url_token (argv_split [38] [] (query_params ps)) = ps"
    using assms by (induction ps rule: query_params.induct) (simp_all add: first last query_token)
  moreover have "no_nul (query_params ps)" using query_chars [of 0 ps] by (auto simp: no_nul_def graphic_def)
  ultimately show ?thesis by (simp add: acl_argv_split_def cstr_id)
qed

lemma query_no_nul: "no_nul (query_params ps)"
  using query_chars [of 0 ps] by (auto simp: no_nul_def graphic_def)

lemma query_nonempty: "ps \<noteq> [] \<Longrightarrow> nv_string (hd ps) \<Longrightarrow> fst (hd ps) \<noteq> [] \<Longrightarrow> query_params ps \<noteq> []"
  using url_encode_empty [of "fst (hd ps)"]
  by (cases ps rule: query_params.cases) (simp_all add: query_param_def nv_string_def)

lemma add_all_params_appends:
  assumes "\<not> hh_param_override h" "list_all nv_string nvs" "list_all (\<lambda>p. fst p \<noteq> []) nvs"
  shows "hh_params (add_all_params nvs h) = hh_params h @ nvs \<and> hh_url (add_all_params nvs h) = hh_url h"
  using assms
proof (induction nvs arbitrary: h)
  case (Cons nv nvs)
  obtain n v where nv: "nv = (n, v)" by (cases nv)
  then have "given (Some n) = Some n" "map_option cstr v = v"
    using Cons.prems(2,3) by (cases n; cases v; simp add: given_def nv_string_def)+
  then have "add_param (Some n) v h = h\<lparr>hh_params := hh_params h @ [nv]\<rparr>"
    using Cons.prems(1) by (simp add: add_param_def nv)
  then show ?case using Cons.IH [of "h\<lparr>hh_params := hh_params h @ [nv]\<rparr>"] Cons.prems by (simp add: add_all_params_def nv)
qed (simp add: add_all_params_def)

lemma no_scheme: "url_scheme url_schemes (47 # path) = None"
  by (simp add: url_scheme_def url_schemes_def begins_with_def cstr_def to_lower_def)

text \<open>C32: the request line of a header - not a fixed one - whose URL is a path that begins with a slash and has no question
  mark, with parameters whose names are not empty, holds them behind a question mark, without a blank; a new header
  whose URL is set to that text has the same path and the same parameters. What is read of a URL with a scheme and
  without a slash says url_without_slash.
\<close>

theorem request_query_round_trip:
  assumes "\<not> hh_fixed h" "hh_url h = Some (47 # path)" "no_nul path" "63 \<notin> set path"
    and "hh_params h \<noteq> []" "list_all nv_string (hh_params h)" "list_all (\<lambda>p. fst p \<noteq> []) (hh_params h)"
  shows "\<exists>q rest h1. build_http_request h = Some (hh_method_s h @ [32] @ (47 # path) @ 63 # q @ 32 # rest) \<and> 32 \<notin> set q \<and>
    set_url (Some ((47 # path) @ 63 # q)) True (header_init False) = Some h1 \<and>
    hh_url h1 = Some (47 # path) \<and> hh_params h1 = hh_params h"
proof -
  define q where "q = query_params (hh_params h)"
  have url: "given (Some (47 # path)) = Some (47 # path)" "given (Some ((47 # path) @ 63 # q)) = Some ((47 # path) @ 63 # q)"
    using assms(3) query_no_nul [of "hh_params h"] by (simp_all add: given_def q_def no_nul_def)
  have "\<exists>rest. build_http_request h = Some (hh_method_s h @ [32] @ (47 # path) @ 63 # q @ 32 # rest)"
    using assms(1,2,4,5) url(1) by (simp add: build_http_request_def request_line_def query_text_def q_def)
  moreover have "32 \<notin> set q" using query_chars [of 32 "hh_params h"] by (auto simp: q_def graphic_def)
  moreover have "q \<noteq> []"
    using query_nonempty [OF assms(5)] assms(5-7) unfolding q_def by (cases "hh_params h") simp_all
  moreover define h0 where "h0 = (header_init False)\<lparr>hh_url := Some (47 # path)\<rparr>"
  have "dropWhile (\<lambda>c. c \<noteq> 63) ((47 # path) @ 63 # q) = 63 # q" "takeWhile (\<lambda>c. c \<noteq> 63) ((47 # path) @ 63 # q) = 47 # path"
    using assms(4) by (subst dropWhile_append2 takeWhile_append2, auto)+
  then have "set_url (Some ((47 # path) @ 63 # q)) True (header_init False) = Some (add_all_params (hh_params h) h0)"
    using \<open>q \<noteq> []\<close> query_tokens [OF assms(6,7)] no_scheme [of "path @ 63 # q"]
    unfolding set_url_def url(2)
    by (simp add: cut_params_def Let_def h0_def header_init_def url_coder_decode_def url_coder_new_def q_def [symmetric])
  moreover have "hh_params (add_all_params (hh_params h) h0) = hh_params h \<and> hh_url (add_all_params (hh_params h) h0) = Some (47 # path)"
    using add_all_params_appends [OF _ assms(6,7), of h0] by (simp add: h0_def header_init_def)
  ultimately show ?thesis by blast
qed

definition sample_request :: http_header where
  "sample_request = (header_init False)\<lparr>hh_url := Some [47], hh_params := [([97], Some [38, 32]), ([98], None), ([99], Some [])]\<rparr>"

theorem request_query_round_trip_witness:
  "\<exists>q rest h1. build_http_request sample_request = Some (hh_method_s sample_request @ [32] @ (47 # []) @ 63 # q @ 32 # rest) \<and>
    32 \<notin> set q \<and> set_url (Some ((47 # []) @ 63 # q)) True (header_init False) = Some h1 \<and>
    hh_url h1 = Some (47 # []) \<and> hh_params h1 = hh_params sample_request"
proof -
  have "\<not> hh_fixed sample_request" "hh_url sample_request = Some (47 # [])" "hh_params sample_request \<noteq> []"
    "list_all nv_string (hh_params sample_request)" "list_all (\<lambda>p. fst p \<noteq> []) (hh_params sample_request)"
    by (simp_all add: sample_request_def header_init_def nv_string_def no_nul_def)
  from request_query_round_trip [OF this(1,2) _ _ this(3-5)] show ?thesis by simp
qed

text \<open>Of a URL without a slash behind its host, one is put behind the parameters; a slash in the parameters
  makes what is in front of it the host.\<close>

lemma url_without_slash:
  "map_option hh_params (set_url (Some [104, 116, 116, 112, 58, 47, 47, 104, 63, 120, 61, 49]) True (header_init False)) =
     Some [([120], Some [49, 47])]"
  "map_option hh_host (set_url (Some [104, 116, 116, 112, 58, 47, 47, 104, 63, 120, 61, 97, 47, 98]) True (header_init False)) =
     Some [104, 63, 120, 61, 97]"
  by code_simp+

text \<open>A redirection to a host without a path uses a NULL pointer.\<close>

lemma redirect_without_path: "http_redirect (Some [104, 116, 116, 112, 58, 47, 47, 104]) h = None"
  by (simp add: http_redirect_def given_def url_scheme_def url_schemes_def begins_with_def cstr_def to_lower_def)

section \<open>The key of a WebSocket\<close>

text \<open>C35: the accept key of a response is the base64 text of the SHA-1 digest of FIPS 180-4 of the key of the request
  followed by the identifier of RFC 6455, if both have less than 2 ^ 32 bytes: their length is cast to an
  unsigned int.
\<close>

theorem ws_accept_key:
  assumes "length junk = 64" "length key + 36 < 2 ^ 32"
  shows "create_ws_key junk key = Some (encode_groups to_b64_tab 61 (fips_sha1 (key @ WS_GUID)))"
proof -
  let ?s = "sha1_feed (sha1_new junk) (key @ WS_GUID)"
  have len: "length (key @ WS_GUID) < 2 ^ 32" using assms(2) by (simp add: WS_GUID_def)
  then have "sha1_absorbed (key @ WS_GUID) ?s"
    using sha1_msg.absorbed_pieces [OF sha1_new_absorbed [OF assms(1)] sha1_pieces_ok, of "[key @ WS_GUID]"] by simp
  then have "snd (sha1_result2 ?s) = Some (blocks fips_block sha1_iv (fips_pad (key @ WS_GUID)))"
    using sha1_pad_result [of "key @ WS_GUID" ?s] by (simp add: sha1_result2_def sha1_finished_def sha1_absorbed_def)
  moreover have "swap_words (concat (map store32 [a, b, c, d, e])) = concat (map (\<lambda>w. rev (store32 w)) [a, b, c, d, e])" for a b c d e
    by (simp add: swap_words_def store32_def upt_rec)
  ultimately show ?thesis
    by (simp add: create_ws_key_def sha1_feed_def acl_base64_encode_def fips_sha1_def split: prod.split)
qed

theorem ws_accept_key_witness:
  "create_ws_key (replicate 64 7) [1, 2] = Some (encode_groups to_b64_tab 61 (fips_sha1 ([1, 2] @ WS_GUID)))"
  by (rule ws_accept_key) simp_all

section \<open>Cookies\<close>

text \<open>A name or a value that needs no quoting: no separator in it, no blank at its ends.\<close>

definition cookie_text :: "byte list \<Rightarrow> bool" where
  "cookie_text s \<longleftrightarrow> no_nul s \<and> 59 \<notin> set s \<and> (s = [] \<or> \<not> is_blank (hd s) \<and> hd s \<noteq> 61 \<and> \<not> is_blank (last s))"

definition cookie_word :: "byte list \<Rightarrow> bool" where
  "cookie_word s \<longleftrightarrow> cookie_text s \<and> s \<noteq> [] \<and> 61 \<notin> set s"

definition cookie_param_ok :: "byte list \<times> byte list \<Rightarrow> bool" where
  "cookie_param_ok p \<longleftrightarrow> cookie_word (fst p) \<and> cookie_text (snd p)"

text \<open>The parameters as they are read: without those of an empty value; three names are written in one way.\<close>

definition param_name :: "byte list \<Rightarrow> byte list" where
  "param_name n =
     (if strcaseeq n DOMAIN then DOMAIN else if strcaseeq n EXPIRES then EXPIRES else if strcaseeq n PATH then PATH else n)"

definition params_read :: "(byte list \<times> byte list) list \<Rightarrow> (byte list \<times> byte list) list" where
  "params_read ps = map (\<lambda>(n, v). (param_name n, v)) (filter (\<lambda>(n, v). v \<noteq> []) ps)"

lemma strip_end_text: "s = [] \<or> \<not> is_blank (last s) \<Longrightarrow> strip_end s = s"
  by (cases s rule: rev_cases) (simp_all add: strip_end_def)

lemma skip_special_text: "cookie_text s \<Longrightarrow> skip_special s = s"
  by (cases s) (simp_all add: skip_special_def cookie_text_def)

lemma split_text:
  assumes "cookie_word n" "cookie_text v"
  shows "split_name_value (n @ 61 # v) = Some (n, v)" "split_name_value (32 # n @ 61 # v) = Some (n, v)"
proof -
  obtain a as where n: "n = a # as" using assms(1) by (cases n) (auto simp: cookie_word_def)
  have a: "\<not> is_blank a" "a \<noteq> 61" "61 \<notin> set as" "as = [] \<or> \<not> is_blank (last as)"
    using assms(1) by (auto simp: cookie_word_def cookie_text_def n split: if_splits)
  have cut: "dropWhile (\<lambda>c. c \<noteq> 61) (as @ 61 # v) = 61 # v" "takeWhile (\<lambda>c. c \<noteq> 61) (as @ 61 # v) = as"
    using a(3) by (subst dropWhile_append2 takeWhile_append2, auto)+
  have "strip_end v = v" using assms(2) by (intro strip_end_text) (auto simp: cookie_text_def)
  moreover have "skip_special (n @ 61 # v) = a # as @ 61 # v" "skip_special (32 # n @ 61 # v) = a # as @ 61 # v"
    using a(1,2) by (simp_all add: skip_special_def n is_blank_def)
  ultimately show "split_name_value (n @ 61 # v) = Some (n, v)" "split_name_value (32 # n @ 61 # v) = Some (n, v)"
    using a cut skip_special_text [OF assms(2)] strip_end_text [OF a(4)] by (simp_all add: split_name_value_def n)
qed

lemma cookie_tokens:
  assumes "59 \<notin> set t" "t \<noteq> []" "\<forall>u \<in> set us. 59 \<notin> set u \<and> u \<noteq> []"
  shows "argv_split [59] [] (t @ concat (map (\<lambda>u. 59 # u) us)) = t # us"
  using assms
proof (induction us arbitrary: t)
  case Nil
  then show ?case using argv_split_last [of "[59]" t "[]"] by simp
next
  case (Cons u us)
  then show ?case using argv_split_token [of "[59]" t 59 "[]"] by simp
qed

lemma cookie_param_added:
  assumes "cookie_param_ok (n, v)"
  shows "cookie_param (32 # n @ 61 # v) c = c\<lparr>ck_params := ck_params c @ params_read [(n, v)]\<rparr>"
proof -
  have nv: "cookie_word n" "cookie_text v" "n \<noteq> []" "no_nul n" "no_nul v"
    using assms by (auto simp: cookie_param_ok_def cookie_word_def cookie_text_def)
  have nn: "no_nul DOMAIN" "no_nul EXPIRES" "no_nul PATH"
    by (simp_all add: DOMAIN_def EXPIRES_def PATH_def no_nul_def)
  have add: "cookie_add (Some m) (Some v) c = c\<lparr>ck_params := ck_params c @ [(m, v)]\<rparr>" if "m \<noteq> []" "no_nul m" for m
    using nv that by (cases m) (simp_all add: cookie_add_def)
  have ne: "DOMAIN \<noteq> []" "EXPIRES \<noteq> []" "PATH \<noteq> []" by (simp_all add: DOMAIN_def EXPIRES_def PATH_def)
  have e: "set_expires (Some v) c = cookie_add (Some EXPIRES) (Some v) c" if "v \<noteq> []"
    unfolding set_expires_def using nv(5) that by (cases v) simp_all
  show ?thesis
    using split_text(2) [OF nv(1,2)] e add [OF ne(1) nn(1)] add [OF ne(2) nn(2)] add [OF ne(3) nn(3)] add [OF nv(3,4)]
    by (simp add: cookie_param_def params_read_def param_name_def set_domain_def set_path_def)
qed

lemma cookie_params_added:
  "list_all cookie_param_ok ps \<Longrightarrow>
    fold cookie_param (map (\<lambda>(n, v). 32 # n @ 61 # v) ps) d = d\<lparr>ck_params := ck_params d @ params_read ps\<rparr>"
proof (induction ps arbitrary: d)
  case (Cons p ps)
  obtain n v where "p = (n, v)" by (cases p)
  then show ?case using Cons cookie_param_added [of n v d] by (simp add: params_read_def)
qed (simp add: params_read_def)

text \<open>C33: the line of a response for a cookie is parsed back to the cookie, with its parameters in their order, but for
  those whose value is empty, which are dropped, and with the names of three of them as Domain, Expires and
  Path; for names and values that hold no semicolon and no NUL and do not begin or end with a blank, values that
  do not begin with an equals sign, and names that are not empty and have none.
\<close>

theorem set_cookie_read_back:
  assumes "c = \<lparr>ck_name = Some n, ck_value = Some v, ck_params = ps\<rparr>"
    and "cookie_word n" "cookie_text v" "list_all cookie_param_ok ps"
  shows "\<exists>t. set_cookie_line c = header_line SET_COOKIE t \<and> set_cookie (Some t) cookie_empty = Some (True, c\<lparr>ck_params := params_read ps\<rparr>)"
proof -
  let ?p = "\<lambda>(n, v). 32 # n @ 61 # v"
  define t where "t = n @ 61 # v @ concat (map (\<lambda>(n, v). [59, 32] @ n @ 61 # v) ps)"
  have t: "t = (n @ 61 # v) @ concat (map (\<lambda>u. 59 # u) (map ?p ps))"
    by (simp add: t_def comp_def case_prod_unfold)
  have ok: "no_nul n" "no_nul v" "59 \<notin> set n" "59 \<notin> set v" "n \<noteq> []"
    using assms(2,3) by (auto simp: cookie_word_def cookie_text_def)
  have ps: "\<forall>u \<in> set (map ?p ps). 59 \<notin> set u \<and> u \<noteq> [] \<and> no_nul u"
    using assms(4) by (auto simp: list_all_iff cookie_param_ok_def cookie_word_def cookie_text_def no_nul_def)
  then have "no_nul t" using ok(1,2) by (auto simp: t no_nul_def)
  then have tok: "acl_argv_split t [59] = (n @ 61 # v) # map ?p ps"
    using cookie_tokens [of "n @ 61 # v" "map ?p ps"] ok ps unfolding acl_argv_split_def by (simp add: t)
  have "set_cookie (Some t) cookie_empty = Some (True, c\<lparr>ck_params := params_read ps\<rparr>)"
    using cookie_params_added [OF assms(4)] tok \<open>no_nul t\<close> split_text(1) [OF assms(2,3)] ok(5)
    by (simp add: set_cookie_def assms(1) cookie_empty_def) (simp add: t)
  moreover have "set_cookie_line c = header_line SET_COOKIE t"
    by (simp add: set_cookie_line_def assms(1) get_name_def get_value_def t_def)
  ultimately show ?thesis by blast
qed

definition sample_cookie :: http_cookie where
  "sample_cookie = \<lparr>ck_name = Some [115], ck_value = Some [49, 61, 32, 50], ck_params = [([112, 97, 116, 104], [47]), ([121], []), ([120], [49])]\<rparr>"

theorem set_cookie_read_back_witness:
  "\<exists>t. set_cookie_line sample_cookie = header_line SET_COOKIE t \<and>
    set_cookie (Some t) cookie_empty = Some (True, \<lparr>ck_name = Some [115], ck_value = Some [49, 61, 32, 50], ck_params = [(PATH, [47]), ([120], [49])]\<rparr>)"
proof -
  have "cookie_word [115]" "cookie_text [49, 61, 32, 50]" "list_all cookie_param_ok [([112, 97, 116, 104], [47]), ([121], []), ([120], [49])]"
    by code_simp+
  moreover have "params_read [([112, 97, 116, 104], [47]), ([121], []), ([120], [49])] = [(PATH, [47]), ([120], [49])]"
    by code_simp
  ultimately show ?thesis using set_cookie_read_back [OF sample_cookie_def] by (simp add: sample_cookie_def)
qed

text \<open>A text of separators only fails the assertion that there is a token.\<close>

lemma set_cookie_separators: "set_cookie (Some [59]) c = None"
  by (simp add: set_cookie_def acl_argv_split_def cstr_def)

section \<open>Lines\<close>

text \<open>Lines that are not empty, each with its end.\<close>

definition head_lines :: "byte list \<Rightarrow> bool" where
  "head_lines t \<longleftrightarrow> (\<exists>ls. t = concat (map (\<lambda>l. l @ crlf) ls) \<and> (\<forall>l \<in> set ls. l \<noteq> [] \<and> clean_line l))"

lemma head_linesI: "clean_line l \<Longrightarrow> l \<noteq> [] \<Longrightarrow> head_lines (l @ crlf)"
  unfolding head_lines_def by (rule exI [of _ "[l]"]) simp

lemma head_lines_Nil [simp]: "head_lines []"
  unfolding head_lines_def by (rule exI [of _ "[]"]) simp

lemma head_lines_append [intro]: "head_lines s \<Longrightarrow> head_lines t \<Longrightarrow> head_lines (s @ t)"
proof -
  assume "head_lines s" "head_lines t"
  then obtain ls ms where "s = concat (map (\<lambda>l. l @ crlf) ls)" "t = concat (map (\<lambda>l. l @ crlf) ms)"
    "\<forall>l \<in> set ls. l \<noteq> [] \<and> clean_line l" "\<forall>l \<in> set ms. l \<noteq> [] \<and> clean_line l"
    by (auto simp: head_lines_def)
  then show ?thesis unfolding head_lines_def by (intro exI [of _ "ls @ ms"]) auto
qed

lemma head_lines_concat: "\<forall>x \<in> set xs. head_lines (f x) \<Longrightarrow> head_lines (concat (map f xs))"
  by (induction xs) auto

lemma clean_append [simp]: "clean_line (s @ t) \<longleftrightarrow> clean_line s \<and> clean_line t"
  by (auto simp: clean_line_def)

lemma clean_Cons [simp]: "clean_line (c # t) \<longleftrightarrow> c \<noteq> 10 \<and> c \<noteq> 13 \<and> clean_line t"
  by (auto simp: clean_line_def)

lemma clean_Nil [simp]: "clean_line []"
  by (simp add: clean_line_def)

lemma header_line_lines: "clean_line n \<Longrightarrow> clean_line v \<Longrightarrow> head_lines (header_line n v)"
  using head_linesI [of "n @ [58, 32] @ v"] by (simp add: header_line_def)

lemma clean_given: "given s = Some v \<Longrightarrow> (\<And>t. s = Some t \<Longrightarrow> clean_line t) \<Longrightarrow> clean_line v"
  by (auto simp: given_def clean_line_def cstr_def dest!: set_takeWhileD split: option.splits list.splits)

lemma opt_line_lines: "clean_line n \<Longrightarrow> (\<And>t. s = Some t \<Longrightarrow> clean_line t) \<Longrightarrow> head_lines (opt_line n s)"
  using clean_given [of s] header_line_lines by (auto simp: opt_line_def split: option.splits)

lemma clean_decimal_int [simp]: "clean_line (decimal_int n)"
  using graphic_token(4) [OF decimal_int_graphic(1)] .

lemma clean_status [simp]: "clean_line (http_status n)"
proof -
  define T where "T = [status_1xx, status_2xx, status_3xx, status_4xx, status_5xx]"
  have tabs: "\<forall>tab \<in> set T. \<forall>t \<in> set tab. \<forall>s. t = Some s \<longrightarrow> clean_line s"
    by (simp add: T_def status_1xx_def status_2xx_def status_3xx_def status_4xx_def status_5xx_def)
  have "length T = 5" by (simp add: T_def)
  then have some: "clean_line s" if "T ! k ! j = Some s" "k < 5" "j < length (T ! k)" for s j k
    using tabs that nth_mem [of k T] nth_mem [of j "T ! k"] by metis
  have k: "nat (n div 100 - 1) < 5" if "\<not> n div 100 < 1" "\<not> 5 < n div 100" using that by linarith
  show ?thesis
    unfolding http_status_def Let_def T_def [symmetric]
    using k by (auto simp: unknown_status_def split: option.splits intro: some)
qed

text \<open>No field has a line break.\<close>

definition header_clean :: "http_header \<Rightarrow> bool" where
  "header_clean h \<longleftrightarrow>
     (\<forall>e \<in> set (hh_entries h). clean_line (fst e) \<and> clean_line (snd e)) \<and>
     (\<forall>c \<in> set (hh_cookies h). clean_line (get_name c) \<and> clean_line (get_value c) \<and>
       (\<forall>p \<in> set (ck_params c). clean_line (fst p) \<and> clean_line (snd p))) \<and>
     (\<forall>s \<in> {hh_url h, hh_upgrade h, hh_ws_origin h, hh_ws_sec_key h, hh_ws_sec_proto h}. \<forall>t. s = Some t \<longrightarrow> clean_line t) \<and>
     clean_line (hh_method_s h) \<and> clean_line (hh_version h) \<and> clean_line (hh_host h)"

lemma build_common_lines:
  assumes "header_clean h"
  shows "head_lines (build_common h)"
proof -
  have e: "clean_line n \<and> clean_line v" if "(n, v) \<in> set (hh_entries h)" for n v
    using assms that by (auto simp: header_clean_def)
  have tail: "head_lines (concat (map (\<lambda>(n, v). header_line n v) es))" if "set es \<subseteq> set (hh_entries h)" for es
    using that e by (intro head_lines_concat) (auto intro: header_line_lines)
  have first: "head_lines (fst e @ [32] @ snd e @ crlf)" if "e \<in> set (hh_entries h)" for e
    using e [of "fst e" "snd e"] that head_linesI [of "fst e @ [32] @ snd e"] by simp
  have other: "head_lines (header_line (fst e) (snd e))" if "e \<in> set (hh_entries h)" for e
    using e [of "fst e" "snd e"] that by (auto intro: header_line_lines)
  have "head_lines (entry_lines h)"
  proof (cases "hh_entries h")
    case (Cons e es)
    then have "entry_lines h = (if hh_fixed h then fst e @ [32] @ snd e @ crlf else header_line (fst e) (snd e)) @
        concat (map (\<lambda>(n, v). header_line n v) es)" by (simp add: entry_lines_def)
    moreover have "e \<in> set (hh_entries h)" "set es \<subseteq> set (hh_entries h)" using Cons by auto
    ultimately show ?thesis using first other tail by (simp only:) (intro head_lines_append, auto split: if_splits)
  qed (simp add: entry_lines_def)
  moreover have "clean_line u" if "given (hh_upgrade h) = Some u" for u
    using clean_given [OF that] assms by (auto simp: header_clean_def)
  ultimately show ?thesis
    unfolding build_common_def by (auto intro!: head_lines_append header_line_lines split: option.splits)
qed

lemma cookie_pairs_clean:
  "\<forall>c \<in> set cs. clean_line (get_name c) \<and> clean_line (get_value c) \<Longrightarrow> clean_line (cookie_pairs cs)"
  by (induction cs rule: cookie_pairs.induct) auto

lemma request_lines:
  assumes "header_clean h" "build_http_request h = Some out"
  shows "\<exists>t. out = t @ crlf \<and> head_lines t"
proof (cases "hh_fixed h")
  case True
  then show ?thesis using assms(2) build_common_lines [OF assms(1)] by (auto simp: build_http_request_def)
next
  case False
  then obtain u where u: "given (hh_url h) = Some u" "out = request_line u h @ build_common h @ request_fields h @ crlf"
    using assms(2) by (auto simp: build_http_request_def split: option.splits)
  have clean: "clean_line u" "clean_line (hh_host h)" "clean_line (hh_version h)" "clean_line (hh_method_s h)" "clean_line GZIP"
    using clean_given [OF u(1)] assms(1) by (auto simp: header_clean_def GZIP_def)
  have "clean_line (query_params (hh_params h))"
    using query_chars [of 10 "hh_params h"] query_chars [of 13 "hh_params h"] by (auto simp: clean_line_def graphic_def)
  then have "head_lines (request_line u h)"
    using clean head_linesI [of "hh_method_s h @ [32] @ u @ query_text u (hh_params h) @ v" for v]
    by (simp add: request_line_def query_text_def)
  moreover have opt: "head_lines (opt_line n s)"
    if "clean_line n" "s \<in> {hh_ws_origin h, hh_ws_sec_key h, hh_ws_sec_proto h}" for n s
    using assms(1) that by (intro opt_line_lines) (auto simp: header_clean_def)
  have cookies: "clean_line (cookie_pairs (hh_cookies h))"
    using assms(1) by (intro cookie_pairs_clean) (auto simp: header_clean_def)
  have "head_lines (request_fields h)"
    unfolding request_fields_def using clean cookies
    by (intro head_lines_append opt) (auto intro!: header_line_lines)
  ultimately show ?thesis
    using u(2) build_common_lines [OF assms(1)] by (auto intro!: exI [of _ "request_line u h @ build_common h @ request_fields h"])
qed

lemma response_lines:
  assumes "header_clean h" "clean_line now" "build_response junk now h = Some (h1, out)"
  shows "\<exists>t. out = t @ crlf \<and> head_lines t"
proof (cases "hh_fixed h")
  case True
  then show ?thesis using assms(3) build_common_lines [OF assms(1)] by (auto simp: build_response_def)
next
  case False
  have clean: "clean_line (hh_version h)" "clean_line SET_COOKIE" "clean_line CONTENT_ENCODING" "clean_line GZIP"
    using assms(1) by (simp_all add: header_clean_def SET_COOKIE_def CONTENT_ENCODING_def GZIP_def)
  define st where "st = decimal_int (hh_status h) @ [32] @ http_status (hh_status h)"
  define date where "date = header_line [68, 97, 116, 101] now @ header_line [83, 101, 114, 118, 101, 114] [97, 99, 108]"
  have st: "head_lines (st @ crlf)" "head_lines (([72, 84, 84, 80, 47, 49, 46, 49, 32] @ st) @ crlf)"
    "head_lines (([72, 84, 84, 80, 47] @ hh_version h) @ crlf)"
    "head_lines (([83, 84, 65, 84, 85, 83, 58, 32] @ decimal_int (hh_status h)) @ crlf)"
    using clean by (intro head_linesI; simp add: st_def)+
  have "head_lines date"
    unfolding date_def using assms(2) by (intro head_lines_append header_line_lines) simp_all
  moreover have "status_lines now h = (if hh_status h \<le> 0 then []
      else if hh_cgi_mode h then ([83, 84, 65, 84, 85, 83, 58, 32] @ decimal_int (hh_status h)) @ crlf
      else if hh_version h \<noteq> [] then (([72, 84, 84, 80, 47] @ hh_version h) @ crlf) @ (st @ crlf) @ date
      else (([72, 84, 84, 80, 47, 49, 46, 49, 32] @ st) @ crlf) @ date)"
    by (simp add: status_lines_def st_def date_def)
  ultimately have status: "head_lines (status_lines now h)"
    using st head_lines_append by (simp only: split: if_splits) auto
  have "head_lines (set_cookie_line c)" if "c \<in> set (hh_cookies h)" for c
  proof -
    have params: "\<forall>p \<in> set (ck_params c). clean_line (fst p) \<and> clean_line (snd p)"
      using assms(1) that by (simp add: header_clean_def)
    have "clean_line (concat (map (\<lambda>(n, v). [59, 32] @ n @ 61 # v) ps))" if "set ps \<subseteq> set (ck_params c)" for ps
      using that params by (induction ps) fastforce+
    then show ?thesis
      unfolding set_cookie_line_def using assms(1) that clean by (intro header_line_lines) (auto simp: header_clean_def)
  qed
  then have cookies: "head_lines (concat (map set_cookie_line (hh_cookies h)))" by (intro head_lines_concat) blast
  have fields: "head_lines (response_fields h)"
    unfolding response_fields_def using clean by (intro head_lines_append) (auto intro!: header_line_lines)
  have accept: "head_lines l" if "accept_line junk k = Some l" for k l
  proof -
    have "clean_line (acl_base64_encode d)" for d
      using graphic_token(4) encode_groups_graphic by (auto simp: acl_base64_encode_def)
    then show ?thesis using that by (auto simp: accept_line_def create_ws_key_def intro!: header_line_lines split: option.splits)
  qed
  let ?out = "status_lines now h @ build_common h @ concat (map set_cookie_line (hh_cookies h))"
  have all: "head_lines ?out" using status cookies build_common_lines [OF assms(1)] by blast
  have "\<exists>l. out = ?out @ l @ crlf \<and> head_lines l"
    using assms(3) False fields accept
    by (auto simp: build_response_def Let_def split: if_splits option.splits intro: exI [of _ "[]"])
  with all show ?thesis by (metis append_assoc head_lines_append)
qed

text \<open>C31: the text of a request or a response whose fields have no line breaks is a sequence of lines that are not
  empty, and one empty line at its end.
\<close>

theorem header_is_lines:
  assumes "header_clean h" "clean_line now"
    and "build_http_request h = Some out \<or> build_response junk now h = Some (h1, out)"
  shows "\<exists>ls. out = concat (map (\<lambda>l. l @ crlf) ls) @ crlf \<and> (\<forall>l \<in> set ls. l \<noteq> [] \<and> clean_line l)"
  using assms(3) request_lines [OF assms(1)] response_lines [OF assms(1,2)] unfolding head_lines_def by blast

theorem header_is_lines_witness:
  "\<exists>ls. the (build_http_request sample_request) = concat (map (\<lambda>l. l @ crlf) ls) @ crlf \<and> (\<forall>l \<in> set ls. l \<noteq> [] \<and> clean_line l)"
proof -
  have "header_clean sample_request" "clean_line []"
    by (simp_all add: sample_request_def header_clean_def header_init_def GET_def)
  moreover have "build_http_request sample_request = Some (the (build_http_request sample_request))"
    by (simp add: sample_request_def header_init_def build_http_request_def given_def cstr_def)
  ultimately show ?thesis using header_is_lines by blast
qed

text \<open>Without a version of its own the first line of a response that is not for CGI is the version, the status
  and its title; with one, the line ends behind the version and the status is left for the next.
\<close>

lemma response_first_line:
  assumes "\<not> hh_fixed h" "hh_status h > 0" "\<not> hh_cgi_mode h" "build_response junk now h = Some (h1, out)"
  shows "\<exists>rest. out =
    (if hh_version h = [] then [72, 84, 84, 80, 47, 49, 46, 49, 32] @ decimal_int (hh_status h) @ [32] @ http_status (hh_status h) @ crlf @ rest
     else [72, 84, 84, 80, 47] @ hh_version h @ crlf @ decimal_int (hh_status h) @ [32] @ http_status (hh_status h) @ crlf @ rest)"
proof -
  have "\<exists>rest. out = status_lines now h @ rest"
    using assms(1,4) by (auto simp: build_response_def Let_def split: if_splits option.splits)
  then show ?thesis using assms(2,3) by (auto simp: status_lines_def)
qed

text \<open>The titles of the statuses 306 and 307 are shifted by one.\<close>

lemma status_306: "http_status 306 = the (status_3xx ! 6)" "http_status 307 = unknown_status"
  by (simp_all add: http_status_def status_3xx_def)

text \<open>The first text of a compressed response still has the length and keeps the connection; the second has not.\<close>

lemma gzip_length_stays:
  "case build_response [] [] ((header_init False)\<lparr>hh_status := 0, hh_is_request := False, hh_gzip := True, hh_content_length := 5, hh_keep_alive := True\<rparr>) of
     Some (h, out) \<Rightarrow> out \<noteq> snd (the (build_response [] [] h)) \<and> hh_content_length h = - 1 \<and> \<not> hh_keep_alive h \<and>
       (\<exists>rest. out = header_line [67, 111, 110, 116, 101, 110, 116, 45, 76, 101, 110, 103, 116, 104] [53] @ rest)
   | None \<Rightarrow> False"
  by (simp add: build_response_def header_init_def given_def gzip_changes_def status_lines_def build_common_def
      entry_lines_def response_fields_def header_line_def decimal_int_def decimal.simps)

text \<open>The cookies a server sets are not taken from a response.\<close>

lemma received_cookies_lost:
  assumes "header_of_res r = Some h"
  shows "hh_cookies h = []"
proof -
  have "res_entry e g = Some g1 \<Longrightarrow> hh_cookies g1 = hh_cookies g" for e g g1
    by (auto simp: res_entry_def Let_def add_res_cookie_def add_entry_def split: if_splits option.splits)
  then have "res_all es g = Some g1 \<Longrightarrow> hh_cookies g1 = hh_cookies g" for es g g1
    by (induction es arbitrary: g) (auto simp: bind_eq_Some_conv)
  then show ?thesis using assms by (auto simp: header_of_res_def header_init_def split: prod.splits option.splits)
qed

end
