(* ===== verification/Session.thy ===== *)
theory Session
  imports Memcache
begin

text \<open>
  Sessions: the text of their attributes (\<^verbatim>\<open>stdlib/escape.cpp\<close>), the base class (\<^verbatim>\<open>session/session.cpp\<close>) over its
  pure virtual functions, and the class that keeps sessions in memcached (\<^verbatim>\<open>session/memcache_session.cpp\<close>).

  An operation gives \<^const>\<open>None\<close> where an assertion of the client below fails or its loop does not end.
\<close>

section \<open>Escaping\<close>

text \<open>Comparisons of a \<^verbatim>\<open>char\<close>, which is signed.\<close>

definition char_less :: "byte \<Rightarrow> byte \<Rightarrow> bool" where
  "char_less x y \<longleftrightarrow> sint x < sint y"

fun escape :: "byte list \<Rightarrow> byte list \<Rightarrow> byte list" where
  "escape [] out = out"
| "escape (c # cs) out =
     (if \<not> char_less c 0x10 then escape cs (string_add_char out c)
      else escape cs (string_add_char (string_add_char out 1) (c + 0x40)))"

text \<open>
  The memory that is read is a list; \<open>n\<close> counts down by one for each byte that is written, also where two are read.
\<close>

fun unescape :: "nat \<Rightarrow> byte list \<Rightarrow> byte list \<Rightarrow> bool \<times> byte list" where
  "unescape 0 mem out = (True, out)"
| "unescape (Suc n) [] out = (False, out)"
| "unescape (Suc n) (c # mem) out =
     (if c \<noteq> 1 then unescape n mem (string_add_char out c)
      else case mem of
        [] \<Rightarrow> (False, out)
      | d # mem \<Rightarrow>
          if d = 0 then (False, out)
          else if char_less d 0x40 then (False, out)
          else unescape n mem (string_add_char out (d - 0x40)))"

text \<open>A token and its NUL, with what lies behind it in memory: no more than twice its length is read.\<close>

definition unescape_token :: "(nat \<Rightarrow> byte) \<Rightarrow> byte list \<Rightarrow> bool \<times> byte list" where
  "unescape_token junk t = unescape (length t) (t @ 0 # map junk [0..<length t]) []"

section \<open>Attributes\<close>

datatype todo_t = TODO_NUL | TODO_SET | TODO_DEL

type_synonym session_string = "byte list \<times> todo_t"
type_synonym attrs = "(byte list \<times> session_string) list"

text \<open>\<^verbatim>\<open>std::map\<close> is a list in the order of the keys, that of \<^verbatim>\<open>acl::string\<close>; \<^verbatim>\<open>insert\<close> leaves a key that is there.\<close>

fun string_less :: "byte list \<Rightarrow> byte list \<Rightarrow> bool" where
  "string_less xs [] \<longleftrightarrow> False"
| "string_less [] (y # ys) \<longleftrightarrow> True"
| "string_less (x # xs) (y # ys) \<longleftrightarrow> x < y \<or> (x = y \<and> string_less xs ys)"

fun attr_insert :: "byte list \<Rightarrow> session_string \<Rightarrow> attrs \<Rightarrow> attrs" where
  "attr_insert k v [] = [(k, v)]"
| "attr_insert k v ((k', v') # m) =
     (if k = k' then (k', v') # m
      else if string_less k k' then (k, v) # (k', v') # m
      else (k', v') # attr_insert k v m)"

definition attr_erase :: "byte list \<Rightarrow> attrs \<Rightarrow> attrs" where
  "attr_erase k m = filter (\<lambda>kv. fst kv \<noteq> k) m"

fun serialize_rest :: "attrs \<Rightarrow> byte list \<Rightarrow> byte list" where
  "serialize_rest [] out = out"
| "serialize_rest ((n, v) # m) out = serialize_rest m (escape (fst v) (escape [1] (escape n (string_add_char out 9))))"

definition serialize :: "attrs \<Rightarrow> byte list" where
  "serialize m =
     (case m of
        [] \<Rightarrow> []
      | (n, v) # m \<Rightarrow> serialize_rest m (escape (fst v) (escape [1] (escape n []))))"

definition deserialize_token :: "(nat \<Rightarrow> byte) \<Rightarrow> byte list \<Rightarrow> attrs \<Rightarrow> attrs" where
  "deserialize_token junk t m =
     (case unescape_token junk t of (ok, buf) \<Rightarrow>
       let ptr = cstr buf; p1 = dropWhile (\<lambda>c. c \<noteq> 1) ptr in
       if \<not> ok \<or> p1 = [] \<or> tl p1 = [] then m
       else attr_insert (takeWhile (\<lambda>c. c \<noteq> 1) ptr) (drop (Suc (length (takeWhile (\<lambda>c. c \<noteq> 1) ptr))) buf, TODO_SET) m)"

definition deserialize :: "(nat \<Rightarrow> byte) \<Rightarrow> byte list \<Rightarrow> attrs" where
  "deserialize junk buf = fold (deserialize_token junk) (acl_argv_split buf [9]) []"

section \<open>The session\<close>

record session =
  se_sid :: "byte list"
  se_ttl :: int
  se_sid_saved :: bool
  se_dirty :: bool
  se_attrs :: attrs
  se_cache :: attrs

text \<open>The pure virtual functions, on the identifier and the time to live; \<^verbatim>\<open>get_attrs\<close> gives its result and the
  attributes it leaves in its argument.\<close>

record 'w session_calls =
  sc_get :: "byte list \<Rightarrow> 'w \<Rightarrow> ((bool \<times> attrs) \<times> 'w) option"
  sc_set :: "byte list \<Rightarrow> int \<Rightarrow> attrs \<Rightarrow> 'w \<Rightarrow> (bool \<times> 'w) option"
  sc_remove :: "byte list \<Rightarrow> 'w \<Rightarrow> (bool \<times> 'w) option"
  sc_timeout :: "byte list \<Rightarrow> int \<Rightarrow> 'w \<Rightarrow> (bool \<times> 'w) option"

text \<open>\<open>made\<close> is the identifier made of the time and a random number.\<close>

definition session_new :: "byte list \<Rightarrow> int \<Rightarrow> byte list option \<Rightarrow> session" where
  "session_new made ttl sid =
     (case map_option cstr sid of
        Some (c # cs) \<Rightarrow> \<lparr>se_sid = c # cs, se_ttl = ttl, se_sid_saved = True, se_dirty = False, se_attrs = [], se_cache = []\<rparr>
      | _ \<Rightarrow> \<lparr>se_sid = made, se_ttl = ttl, se_sid_saved = False, se_dirty = False, se_attrs = [], se_cache = []\<rparr>)"

definition session_reset :: "session \<Rightarrow> session" where
  "session_reset s = s\<lparr>se_attrs := [], se_cache := []\<rparr>"

definition set_sid :: "byte list \<Rightarrow> session \<Rightarrow> session" where
  "set_sid sid s = session_reset (s\<lparr>se_sid := cstr sid, se_sid_saved := True\<rparr>)"

text \<open>One attribute of the cache is merged into those that were stored.\<close>

definition flush_one :: "byte list \<times> session_string \<Rightarrow> attrs \<Rightarrow> attrs" where
  "flush_one kv m =
     (case map_of m (fst kv) of
        None \<Rightarrow> if snd (snd kv) = TODO_SET then attr_insert (fst kv) (snd kv) m else m
      | Some _ \<Rightarrow>
          if snd (snd kv) = TODO_SET then attr_insert (fst kv) (snd kv) m
          else if snd (snd kv) = TODO_DEL then attr_erase (fst kv) m
          else m)"

definition save_attrs :: "'w session_calls \<Rightarrow> session \<Rightarrow> 'w \<Rightarrow> (bool \<times> session \<times> 'w) option" where
  "save_attrs calls s w = do {
     (ok, w) \<leftarrow> sc_set calls (se_sid s) (se_ttl s) (se_attrs s) w;
     Some (if ok then (True, s\<lparr>se_attrs := [], se_sid_saved := True\<rparr>, w) else (False, s\<lparr>se_attrs := []\<rparr>, w))
   }"

definition load_attrs :: "'w session_calls \<Rightarrow> session \<Rightarrow> 'w \<Rightarrow> (bool \<times> session \<times> 'w) option" where
  "load_attrs calls s w = do {
     ((ok, a), w) \<leftarrow> sc_get calls (se_sid s) w;
     Some (ok, s\<lparr>se_attrs := a\<rparr>, w)
   }"

definition session_flush :: "'w session_calls \<Rightarrow> session \<Rightarrow> 'w \<Rightarrow> (bool \<times> session \<times> 'w) option" where
  "session_flush calls s w =
     (if \<not> se_dirty s then Some (True, s, w)
      else do {
        (ok, s, w) \<leftarrow> load_attrs calls (s\<lparr>se_dirty := False\<rparr>) w;
        let s = (if ok then s\<lparr>se_sid_saved := True\<rparr> else s);
        save_attrs calls (s\<lparr>se_attrs := fold flush_one (se_cache s) (se_attrs s), se_cache := []\<rparr>) w
      })"

definition set_delay :: "byte list \<Rightarrow> byte list \<Rightarrow> session \<Rightarrow> bool \<times> session" where
  "set_delay name v s = (True, s\<lparr>se_cache := attr_insert (cstr name) (v, TODO_SET) (se_cache s), se_dirty := True\<rparr>)"

text \<open>The value goes into the cache; what was loaded is what is saved.\<close>

definition session_set :: "'w session_calls \<Rightarrow> byte list \<Rightarrow> byte list \<Rightarrow> session \<Rightarrow> 'w \<Rightarrow> (bool \<times> session \<times> 'w) option" where
  "session_set calls name v s w = do {
     (ok, s, w) \<leftarrow> load_attrs calls s w;
     let s = (if ok then s\<lparr>se_sid_saved := True\<rparr> else s);
     save_attrs calls (s\<lparr>se_cache := attr_insert (cstr name) (v, TODO_SET) (se_cache s)\<rparr>) w
   }"

definition get_buf :: "'w session_calls \<Rightarrow> byte list \<Rightarrow> session \<Rightarrow> 'w \<Rightarrow> (session_string option \<times> session \<times> 'w) option" where
  "get_buf calls name s w = do {
     (ok, s, w) \<leftarrow> load_attrs calls (s\<lparr>se_attrs := []\<rparr>) w;
     Some (if ok then map_of (se_attrs s) (cstr name) else None, s, w)
   }"

definition session_get :: "'w session_calls \<Rightarrow> byte list \<Rightarrow> session \<Rightarrow> 'w \<Rightarrow> (byte list \<times> session \<times> 'w) option" where
  "session_get calls name s w = do {
     (v, s, w) \<leftarrow> get_buf calls name s w;
     Some (case v of None \<Rightarrow> [] | Some v \<Rightarrow> cstr (fst v), s, w)
   }"

text \<open>The values of a list of names.\<close>

definition get_attr_values ::
  "'w session_calls \<Rightarrow> byte list list \<Rightarrow> session \<Rightarrow> 'w \<Rightarrow> ((bool \<times> session_string list) \<times> session \<times> 'w) option" where
  "get_attr_values calls names s w = do {
     (ok, s, w) \<leftarrow> load_attrs calls (s\<lparr>se_attrs := []\<rparr>) w;
     Some (if ok then (True, map (\<lambda>n. case map_of (se_attrs s) n of Some v \<Rightarrow> v | None \<Rightarrow> ([], TODO_NUL)) names) else (False, []), s, w)
   }"

definition set_ttl :: "'w session_calls \<Rightarrow> int \<Rightarrow> bool \<Rightarrow> session \<Rightarrow> 'w \<Rightarrow> (bool \<times> session \<times> 'w) option" where
  "set_ttl calls ttl delay s w =
     (if ttl = se_ttl s then Some (True, s, w)
      else if delay then Some (True, s\<lparr>se_ttl := ttl, se_dirty := True\<rparr>, w)
      else do {
        (ok, w) \<leftarrow> sc_timeout calls (se_sid s) ttl w;
        Some (ok, if ok then s\<lparr>se_ttl := ttl\<rparr> else s, w)
      })"

definition del_delay :: "byte list \<Rightarrow> session \<Rightarrow> bool \<times> session" where
  "del_delay name s = (True, s\<lparr>
     se_cache := map (\<lambda>(k, v, todo). if k = cstr name then (k, v, TODO_DEL) else (k, v, todo)) (se_cache s),
     se_dirty := True\<rparr>)"

definition session_del :: "'w session_calls \<Rightarrow> byte list \<Rightarrow> session \<Rightarrow> 'w \<Rightarrow> (bool \<times> session \<times> 'w) option" where
  "session_del calls name s w = do {
     (ok, s, w) \<leftarrow> load_attrs calls s w;
     if \<not> ok then Some (True, s, w)
     else if map_of (se_attrs s) (cstr name) = None then Some (False, s, w)
     else do {
       let s = s\<lparr>se_attrs := attr_erase (cstr name) (se_attrs s)\<rparr>;
       if se_attrs s = [] then do {
         (ok, w) \<leftarrow> sc_remove calls (se_sid s) w;
         Some (ok, s, w)
       }
       else do {
         (ok, w) \<leftarrow> sc_set calls (se_sid s) (se_ttl s) (se_attrs s) w;
         Some (ok, s\<lparr>se_attrs := []\<rparr>, w)
       }
     }
   }"

section \<open>Sessions in memcached\<close>

definition memcache_session_new :: "int \<Rightarrow> byte list option \<Rightarrow> bool \<Rightarrow> memcache option" where
  "memcache_session_new junk prefix encode = do {
     mm \<leftarrow> set_prefix (case map_option cstr prefix of Some (c # cs) \<Rightarrow> Some (c # cs) | _ \<Rightarrow> Some [95]) (memcache_new junk);
     Some (auto_retry True (encode_key encode mm))
   }"

definition ms_get_attrs ::
  "'w mc_net \<Rightarrow> (nat \<Rightarrow> byte) \<Rightarrow> byte list \<Rightarrow> memcache \<times> 'w \<Rightarrow> ((bool \<times> attrs) \<times> memcache \<times> 'w) option" where
  "ms_get_attrs net junk sid mw =
     (if cstr sid = [] then Some ((False, []), mw)
      else do {
        ((ok, buf, _), mm, w) \<leftarrow> mc_get net (cstr sid) (fst mw) (snd mw);
        Some (if ok then (True, deserialize junk buf) else (False, []), mm, w)
      })"

definition ms_set_attrs ::
  "'w mc_net \<Rightarrow> byte list \<Rightarrow> int \<Rightarrow> attrs \<Rightarrow> memcache \<times> 'w \<Rightarrow> (bool \<times> memcache \<times> 'w) option" where
  "ms_set_attrs net sid ttl attrs mw =
     (if cstr sid = [] then Some (False, mw)
      else mc_set net (cstr sid) (serialize attrs) ttl 0 (fst mw) (snd mw))"

definition ms_remove :: "'w mc_net \<Rightarrow> byte list \<Rightarrow> memcache \<times> 'w \<Rightarrow> (bool \<times> memcache \<times> 'w) option" where
  "ms_remove net sid mw = (if cstr sid = [] then Some (False, mw) else mc_del net (cstr sid) (fst mw) (snd mw))"

definition ms_set_timeout :: "'w mc_net \<Rightarrow> byte list \<Rightarrow> int \<Rightarrow> memcache \<times> 'w \<Rightarrow> (bool \<times> memcache \<times> 'w) option" where
  "ms_set_timeout net sid ttl mw = (if cstr sid = [] then Some (False, mw) else mc_touch net (cstr sid) ttl (fst mw) (snd mw))"

definition memcache_session :: "'w mc_net \<Rightarrow> (nat \<Rightarrow> byte) \<Rightarrow> (memcache \<times> 'w) session_calls" where
  "memcache_session net junk = \<lparr>sc_get = ms_get_attrs net junk, sc_set = ms_set_attrs net,
     sc_remove = ms_remove net, sc_timeout = ms_set_timeout net\<rparr>"

end
