(* ===== verification/SessionRun.thy ===== *)
theory SessionRun
  imports Session MemcacheProperties
begin

text \<open>
  The text of the attributes of a session, and what is read back of it.
\<close>

section \<open>Escaped texts\<close>

definition esc_byte :: "byte \<Rightarrow> byte list" where
  "esc_byte c = (if 0x10 \<le> c \<and> c < 0x80 then [c] else [1, c + 0x40])"

abbreviation esc_text :: "byte list \<Rightarrow> byte list" where
  "esc_text s \<equiv> concat (map esc_byte s)"

lemma sint_byte: "sint (c :: byte) = (if c < 0x80 then uint c else uint c - 256)"
proof -
  have 1: "sint c = (uint c + 128) mod 256 - 128"
    by (simp add: sint_uint signed_take_bit_eq_take_bit_shift take_bit_eq_mod)
  have 2: "c < 0x80 \<longleftrightarrow> uint c < 128" by (simp add: word_less_def)
  have 3: "0 \<le> uint c" "uint c < 256" using uint_bounded [of c] by auto
  show ?thesis
  proof (cases "uint c < 128")
    case True
    then have "(uint c + 128) mod 256 = uint c + 128" using 3 by (intro mod_pos_pos_trivial) auto
    then show ?thesis using True 1 2 by simp
  next
    case False
    have "(uint c + 128) mod 256 = (uint c - 128 + 256) mod 256" by (simp add: add.commute)
    also have "\<dots> = (uint c - 128) mod 256" by (rule mod_add_self2)
    also have "\<dots> = uint c - 128" using False 3 by (intro mod_pos_pos_trivial) auto
    finally show ?thesis using False 1 2 by simp
  qed
qed

lemma char_less_bytes: "char_less c 0x10 = (c < 0x10 \<or> 0x80 \<le> c)" "char_less c 0x40 = (c < 0x40 \<or> 0x80 \<le> c)"
proof -
  have "uint c < 256" using uint_bounded [of c] by simp
  then show "char_less c 0x10 = (c < 0x10 \<or> 0x80 \<le> c)" "char_less c 0x40 = (c < 0x40 \<or> 0x80 \<le> c)"
    unfolding char_less_def sint_byte by (auto simp: word_less_def word_le_def)
qed

lemma second_byte:
  "c < 0x10 \<Longrightarrow> c + 0x40 \<noteq> (0 :: byte) \<and> \<not> char_less (c + 0x40) 0x40"
  "0x80 \<le> c \<Longrightarrow> char_less (c + 0x40) 0x40"
  "0x10 \<le> c \<and> c \<noteq> 0xC0 \<and> c \<noteq> 0xC9 \<Longrightarrow> c + 0x40 \<noteq> 0 \<and> c + 0x40 \<noteq> (9 :: byte)"
  unfolding char_less_bytes by (unat_arith; simp)+

lemma ascii_shift: "c < 0x80 \<Longrightarrow> c + 0x40 \<noteq> (0 :: byte)"
  by (unat_arith; simp)

lemma escape_text: "0 \<notin> (\<lambda>c. c + 0x40) ` set s \<Longrightarrow> escape s out = out @ esc_text s"
proof (induction s arbitrary: out)
  case (Cons c s)
  then have "c + 0x40 \<noteq> 0" by auto
  moreover have "0x10 \<le> c \<Longrightarrow> c \<noteq> 0" by auto
  ultimately show ?case
    using Cons by (auto simp: char_less_bytes(1) esc_byte_def string_add_char_def)
qed simp

text \<open>Bytes of the first half; without a zero; those that are written as two.\<close>

definition low :: "byte list \<Rightarrow> bool" where
  "low s \<longleftrightarrow> (\<forall>c \<in> set s. c < 0x80)"

definition ascii :: "byte list \<Rightarrow> bool" where
  "ascii s \<longleftrightarrow> (\<forall>c \<in> set s. 0 < c \<and> c < 0x80)"

definition pairs :: "byte list \<Rightarrow> nat" where
  "pairs s = length (filter (\<lambda>c. c < 0x10) s)"

abbreviation no_zeros :: "byte list \<Rightarrow> byte list" where
  "no_zeros s \<equiv> filter (\<lambda>c. c \<noteq> 0) s"

lemma ascii_low: "ascii s \<Longrightarrow> low s \<and> no_zeros s = s"
  by (auto simp: ascii_def low_def filter_id_conv)

lemma pairs_append: "pairs (s @ t) = pairs s + pairs t"
  by (simp add: pairs_def)

lemma one_small: "(1 :: byte) < 0x10" "\<not> (0x10 :: byte) \<le> 1" "(1 :: byte) < 0x80"
  by (simp_all add: word_less_nat_alt word_le_nat_alt)

lemma unescape_one:
  assumes "c < 0x80"
  shows "unescape (Suc n) (esc_byte c @ mem) out = unescape n mem (out @ no_zeros [c])"
proof (cases "0x10 \<le> c")
  case True
  then have "c \<noteq> 1" "c \<noteq> 0" using one_small(2) by (blast, auto)
  then show ?thesis using True assms by (simp add: esc_byte_def string_add_char_def)
next
  case False
  then have "esc_byte c = [1, c + 0x40]" by (simp add: esc_byte_def)
  then show ?thesis
    using second_byte(1) [of c] False by (auto simp: string_add_char_def not_le)
qed

lemma unescape_text: "low s \<Longrightarrow> unescape (length s + n) (esc_text s @ mem) out = unescape n mem (out @ no_zeros s)"
proof (induction s arbitrary: out)
  case (Cons c s)
  then show ?case using unescape_one [of c "length s + n" "esc_text s @ mem" out] by (simp add: low_def)
qed simp

lemma length_esc_text: "low s \<Longrightarrow> length (esc_text s) = length s + pairs s"
  by (induction s) (auto simp: low_def pairs_def esc_byte_def not_le not_less)

lemma unescape_memory:
  "1 \<notin> set mem \<Longrightarrow> n \<le> length mem \<Longrightarrow> unescape n mem out = (True, out @ no_zeros (take n mem))"
proof (induction n arbitrary: mem out)
  case (Suc n)
  then obtain c cs where "mem = c # cs" by (cases mem) auto
  with Suc show ?case by (auto simp: string_add_char_def)
qed simp

text \<open>After a text, and a first byte of the memory, come as many bytes as the text has pairs but one.\<close>

definition past_end :: "(nat \<Rightarrow> byte) \<Rightarrow> byte list \<Rightarrow> byte list" where
  "past_end junk s = no_zeros (map junk [0..<pairs s - 1])"

lemma unescape_past_end:
  assumes "low s" "pairs s \<le> 1 \<or> (\<forall>i. junk i \<noteq> 1)"
  shows "unescape_token junk (esc_text s) = (True, no_zeros s @ past_end junk s)"
proof -
  let ?t = "esc_text s"
  have "unescape_token junk ?t = unescape (pairs s) (0 # map junk [0..<length ?t]) (no_zeros s)"
    using unescape_text [OF assms(1), of "pairs s" "0 # map junk [0..<length ?t]" "[]"]
    by (simp add: unescape_token_def length_esc_text [OF assms(1)])
  moreover have no_one: "pairs s \<le> 1 \<or> 1 \<notin> set (map junk [0..<length ?t])" using assms(2) by (metis ex_map_conv)
  have "pairs s - 1 \<le> length ?t" using length_esc_text [OF assms(1)] by simp
  then have "unescape (pairs s) (0 # map junk [0..<length ?t]) (no_zeros s) = (True, no_zeros s @ past_end junk s)"
    using unescape_memory [of "map junk [0..<length ?t]" "pairs s - 1" "no_zeros s"] no_one
    by (cases "pairs s") (auto simp: past_end_def string_add_char_def take_map)
  ultimately show ?thesis by simp
qed

lemma unescape_high:
  assumes "low p" "0x80 \<le> c" "c + 0x40 \<noteq> 0"
  shows "fst (unescape_token junk (esc_text (p @ c # q))) = False"
proof -
  let ?t = "esc_text (p @ c # q)"
  have "esc_byte c = [1, c + 0x40]" using assms(2) by (simp add: esc_byte_def not_less)
  then have t: "?t = esc_text p @ 1 # (c + 0x40) # esc_text q" by simp
  have "length p + 1 \<le> length ?t" using t length_esc_text [OF assms(1)] by simp
  then obtain n where n: "length ?t = length p + Suc n" by (metis add_Suc_right le_Suc_ex plus_1_eq_Suc add.commute)
  show ?thesis
    unfolding unescape_token_def n
    unfolding t append_assoc unescape_text [OF assms(1)]
    using second_byte(2) [of c] assms(2,3) by simp
qed

section \<open>Attributes\<close>

text \<open>
  What is written of a name and a value: a zero, a byte 1 in a name and the bytes \<^verbatim>\<open>0xC0\<close> and \<^verbatim>\<open>0xC9\<close>, which are
  written as a NUL and as the separator, break the text up.
\<close>

definition attr_writable :: "byte list \<times> session_string \<Rightarrow> bool" where
  "attr_writable kv \<longleftrightarrow> 0 \<notin> set (fst kv) \<and> 1 \<notin> set (fst kv) \<and> (\<forall>c \<in> set (fst kv @ fst (snd kv)). c \<noteq> 0xC0 \<and> c \<noteq> 0xC9)"

text \<open>What lies behind the tokens in memory has no escape, where it is read.\<close>

definition no_escape :: "(nat \<Rightarrow> byte) \<Rightarrow> attrs \<Rightarrow> bool" where
  "no_escape junk m \<longleftrightarrow> (\<forall>i. junk i \<noteq> 1) \<or> (\<forall>kv \<in> set m. pairs (fst kv @ fst (snd kv)) = 0)"

text \<open>
  An attribute as it is read back: not at all if it has a byte of 0x80 or more; else its value loses the zeros and
  gets a byte of the memory for each byte that was written as two; and not if the value is then empty.
\<close>

definition attr_value_read :: "(nat \<Rightarrow> byte) \<Rightarrow> byte list \<times> session_string \<Rightarrow> byte list" where
  "attr_value_read junk kv = no_zeros (fst (snd kv)) @ no_zeros (map junk [0..<pairs (fst kv @ fst (snd kv))])"

definition attr_read :: "(nat \<Rightarrow> byte) \<Rightarrow> byte list \<times> session_string \<Rightarrow> (byte list \<times> session_string) option" where
  "attr_read junk kv =
     (if \<not> low (fst kv @ fst (snd kv)) \<or> attr_value_read junk kv = [] then None
      else Some (fst kv, attr_value_read junk kv, TODO_SET))"

text \<open>Text that is read back as it was written.\<close>

definition attr_plain :: "byte list \<times> session_string \<Rightarrow> bool" where
  "attr_plain kv \<longleftrightarrow> fst (snd kv) \<noteq> [] \<and> snd (snd kv) = TODO_SET \<and> (\<forall>c \<in> set (fst kv @ fst (snd kv)). 0x10 \<le> c \<and> c < 0x80)"

definition attr_token :: "byte list \<times> session_string \<Rightarrow> byte list" where
  "attr_token kv = esc_text (fst kv @ 1 # fst (snd kv))"

lemma attr_plain_read:
  assumes "attr_plain kv"
  shows "attr_writable kv" "pairs (fst kv @ fst (snd kv)) = 0" "attr_read junk kv = Some kv"
proof -
  obtain n v where kv: "kv = (n, v, TODO_SET)" using assms by (cases kv) (auto simp: attr_plain_def)
  have c: "0x10 \<le> c" "c < 0x80" if "c \<in> set (n @ v)" for c using that assms by (auto simp: attr_plain_def kv)
  have "\<not> (0x10 :: byte) \<le> 0" by simp
  then have z: "0 \<notin> set (n @ v)" "1 \<notin> set (n @ v)" using c(1) one_small(2) by blast+
  show w: "attr_writable kv" using z c(2) by (fastforce simp: attr_writable_def kv)
  show p: "pairs (fst kv @ fst (snd kv)) = 0"
    using c(1) by (auto simp: pairs_def kv filter_empty_conv not_less)
  have "no_zeros v = v" using z by (auto simp: filter_id_conv)
  then have "attr_value_read junk kv = v" using p by (simp add: attr_value_read_def kv)
  then show "attr_read junk kv = Some kv" using c assms by (auto simp: attr_read_def low_def kv attr_plain_def)
qed

lemma esc_byte_clean:
  assumes "c \<noteq> 0xC0" "c \<noteq> 0xC9"
  shows "0 \<notin> set (esc_byte c) \<and> 9 \<notin> set (esc_byte c) \<and> c + 0x40 \<noteq> 0"
proof (cases "0x10 \<le> c")
  case True
  then show ?thesis using assms second_byte(3) [of c] by (auto simp: esc_byte_def)
next
  case False
  then have "c + 0x40 \<noteq> 0" "c + 0x40 \<noteq> 9" using second_byte(1) [of c] by (auto simp: not_le, unat_arith, simp)
  then show ?thesis using False by (simp add: esc_byte_def)
qed

lemma attr_token_clean:
  assumes "attr_writable kv"
  shows "0 \<notin> set (attr_token kv)" "9 \<notin> set (attr_token kv)" "attr_token kv \<noteq> []"
proof -
  have one: "esc_byte 1 = [1, 65]" by (simp add: esc_byte_def word_le_nat_alt)
  have "0 \<notin> set (esc_byte c) \<and> 9 \<notin> set (esc_byte c)" if "c \<in> set (fst kv) \<union> set (fst (snd kv))" for c
    using that assms esc_byte_clean [of c] by (auto simp: attr_writable_def)
  then show "0 \<notin> set (attr_token kv)" "9 \<notin> set (attr_token kv)" by (auto simp: attr_token_def one)
  show "attr_token kv \<noteq> []" by (simp add: attr_token_def esc_byte_def)
qed

lemma escape_attr:
  assumes "attr_writable kv"
  shows "escape (fst (snd kv)) (escape [1] (escape (fst kv) out)) = out @ attr_token kv"
proof -
  have "0 \<notin> (\<lambda>c. c + 0x40) ` set (fst kv)" "0 \<notin> (\<lambda>c. c + 0x40) ` set (fst (snd kv))"
    using assms esc_byte_clean by (fastforce simp: attr_writable_def)+
  moreover have "escape [1] out = out @ esc_text [1]" for out by (rule escape_text) simp
  ultimately show ?thesis by (simp add: escape_text attr_token_def)
qed

lemma serialize_tokens:
  assumes "list_all attr_writable m"
  shows "serialize m = (case m of [] \<Rightarrow> [] | kv # m \<Rightarrow> attr_token kv @ concat (map (\<lambda>kv. 9 # attr_token kv) m))"
proof -
  have "serialize_rest m out = out @ concat (map (\<lambda>kv. 9 # attr_token kv) m)" if "list_all attr_writable m" for m out
    using that
  proof (induction m arbitrary: out)
    case (Cons kv m)
    obtain n v where kv: "kv = (n, v)" by (cases kv)
    have "attr_writable (n, v)" using Cons.prems kv by simp
    from escape_attr [OF this] Cons show ?case by (simp add: kv string_add_char_def)
  qed simp
  moreover have "escape (fst v) (escape [1] (escape n [])) = attr_token (n, v)" if "attr_writable (n, v)" for n v
    using escape_attr [OF that, of "[]"] by simp
  ultimately show ?thesis using assms by (auto simp: serialize_def split: list.splits)
qed

lemma serialize_split:
  assumes "list_all attr_writable m"
  shows "acl_argv_split (serialize m) [9] = map attr_token m"
proof -
  have tokens: "argv_split [9] [] (t @ concat (map (\<lambda>u. 9 # u) us)) = t # us"
    if "9 \<notin> set t" "t \<noteq> []" "\<forall>u \<in> set us. 9 \<notin> set u \<and> u \<noteq> []" for t us
    using that
  proof (induction us arbitrary: t)
    case Nil
    then show ?case using argv_split_last [of "[9]" t "[]"] by simp
  next
    case (Cons u us)
    then show ?case using argv_split_token [of "[9]" t 9 "[]"] by simp
  qed
  have clean: "\<forall>kv \<in> set m. 0 \<notin> set (attr_token kv) \<and> 9 \<notin> set (attr_token kv) \<and> attr_token kv \<noteq> []"
    using assms attr_token_clean by (auto simp: list_all_iff)
  then have "no_nul (serialize m)"
    unfolding serialize_tokens [OF assms] by (cases m) (auto simp: no_nul_def)
  moreover have "argv_split [9] [] (serialize m) = map attr_token m"
    unfolding serialize_tokens [OF assms]
    using clean tokens [of "attr_token (hd m)" "map attr_token (tl m)"] by (cases m) (auto simp: comp_def)
  ultimately show ?thesis by (simp add: acl_argv_split_def)
qed

section \<open>What is read back\<close>

lemma deserialize_token_read:
  assumes "attr_writable kv" "pairs (fst kv @ fst (snd kv)) = 0 \<or> (\<forall>i. junk i \<noteq> 1)"
  shows "deserialize_token junk (attr_token kv) m =
    (case attr_read junk kv of None \<Rightarrow> m | Some (n, v) \<Rightarrow> attr_insert n v m)"
proof -
  obtain n v t where kv: "kv = (n, v, t)" by (cases kv)
  let ?s = "n @ 1 # v"
  have n: "0 \<notin> set n" "1 \<notin> set n" using assms(1) by (simp_all add: attr_writable_def kv)
  have lw: "low ?s = low (n @ v)" using one_small(3) by (auto simp: low_def)
  show ?thesis
  proof (cases "low (n @ v)")
    case True
    have p: "pairs ?s = Suc (pairs (n @ v))" using one_small(1) by (simp add: pairs_def)
    define w where "w = attr_value_read junk kv"
    have "unescape_token junk (attr_token kv) = (True, no_zeros ?s @ past_end junk ?s)"
      unfolding attr_token_def using unescape_past_end [of ?s junk] True lw p assms(2) by (simp add: kv)
    moreover have "no_zeros n = n" using n(1) by (auto simp: filter_id_conv)
    ultimately have "unescape_token junk (attr_token kv) = (True, n @ 1 # w)"
      by (simp add: w_def attr_value_read_def past_end_def p kv)
    moreover have "cstr (n @ 1 # w) = n @ 1 # w"
      using n(1) by (intro cstr_id) (auto simp: no_nul_def w_def attr_value_read_def)
    moreover have "takeWhile (\<lambda>c. c \<noteq> 1) (n @ 1 # w) = n" "dropWhile (\<lambda>c. c \<noteq> 1) (n @ 1 # w) = 1 # w"
      using n(2) by (subst takeWhile_append2 dropWhile_append2, auto)+
    moreover have "attr_read junk kv = (if w = [] then None else Some (n, w, TODO_SET))"
      using True by (simp add: attr_read_def kv w_def)
    ultimately show ?thesis by (simp add: deserialize_token_def Let_def)
  next
    case False
    have ok: "c \<noteq> 0xC0" "c \<noteq> 0xC9" if "c \<in> set ?s" for c using that assms(1) by (auto simp: attr_writable_def kv)
    obtain c q where c: "dropWhile (\<lambda>c. c < 0x80) ?s = c # q"
      using False lw by (cases "dropWhile (\<lambda>c. c < 0x80) ?s") (auto simp: dropWhile_eq_Nil_conv low_def)
    define p where "p = takeWhile (\<lambda>c. c < 0x80) ?s"
    have s: "?s = p @ c # q" using takeWhile_dropWhile_id [of "\<lambda>c. c < 0x80" ?s] c by (simp add: p_def)
    have high: "\<not> c < 0x80" using hd_dropWhile [of "\<lambda>c. c < 0x80" ?s] c by simp
    moreover have "low p" unfolding low_def p_def by (meson set_takeWhileD)
    moreover have "c + 0x40 \<noteq> 0"
      using ok [of c] esc_byte_clean [of c] unfolding s by simp
    ultimately have "fst (unescape_token junk (attr_token kv)) = False"
      unfolding attr_token_def kv fst_conv snd_conv s by (intro unescape_high) (simp_all add: not_less)
    moreover have "attr_read junk kv = None" using False by (simp add: attr_read_def kv)
    ultimately show ?thesis by (auto simp: deserialize_token_def split: prod.split)
  qed
qed

section \<open>Maps\<close>

lemma string_less_irrefl: "\<not> string_less xs xs"
  by (induction xs) auto

lemma string_less_asym: "string_less xs ys \<Longrightarrow> \<not> string_less ys xs"
  by (induction xs ys rule: string_less.induct) auto

lemma string_less_trans: "string_less a b \<Longrightarrow> string_less b c \<Longrightarrow> string_less a c"
proof (induction a b arbitrary: c rule: string_less.induct)
  case (3 x xs y ys)
  then show ?case by (cases c) (auto)
qed (auto elim: string_less.elims)

lemma string_less_linear: "a \<noteq> b \<Longrightarrow> \<not> string_less a b \<Longrightarrow> string_less b a"
proof (induction a b rule: string_less.induct)
  case (1 xs)
  then show ?case by (cases xs) auto
qed auto

definition attrs_sorted :: "attrs \<Rightarrow> bool" where
  "attrs_sorted m \<longleftrightarrow> sorted_wrt (\<lambda>a b. string_less (fst a) (fst b)) m"

lemma keys_insert: "set (map fst (attr_insert k v m)) = insert k (set (map fst m))"
  by (induction k v m rule: attr_insert.induct) (auto simp del: set_map simp: insert_commute)

lemma sorted_keys: "attrs_sorted ((k, v) # m) \<longleftrightarrow> (\<forall>u \<in> set (map fst m). string_less k u) \<and> attrs_sorted m"
  by (auto simp: attrs_sorted_def)

lemma insert_sorted: "attrs_sorted m \<Longrightarrow> attrs_sorted (attr_insert k v m)"
proof (induction m)
  case (Cons kv m)
  obtain k' v' where kv: "kv = (k', v')" by (cases kv)
  have tail: "\<forall>u \<in> set (map fst m). string_less k' u" "attrs_sorted m" using Cons.prems unfolding kv sorted_keys by blast+
  show ?case
  proof (cases "k = k' \<or> string_less k k'")
    case True
    then show ?thesis using Cons.prems tail(1) string_less_trans [of k k'] by (auto simp: kv sorted_keys)
  next
    case False
    then have "string_less k' k" using string_less_linear by blast
    then show ?thesis using False tail Cons.IH by (simp add: kv sorted_keys keys_insert del: set_map)
  qed
qed (simp add: attrs_sorted_def)

lemma attr_insert_last:
  "\<forall>kv \<in> set m. string_less (fst kv) k \<Longrightarrow> attr_insert k v m = m @ [(k, v)]"
  by (induction m) (auto simp: string_less_irrefl dest: string_less_asym)

text \<open>Whatever the text, what is read of it is in order.\<close>

lemma deserialize_sorted: "attrs_sorted (deserialize junk d)"
proof -
  have "attrs_sorted m \<Longrightarrow> attrs_sorted (deserialize_token junk t m)" for t m
    by (simp add: deserialize_token_def Let_def insert_sorted split: prod.split)
  then have "attrs_sorted m \<Longrightarrow> attrs_sorted (fold (deserialize_token junk) ts m)" for ts m
    by (induction ts arbitrary: m) simp_all
  then show ?thesis by (simp add: deserialize_def attrs_sorted_def)
qed

lemma attr_read_name: "attr_read junk kv = Some u \<Longrightarrow> fst u = fst kv"
  by (auto simp: attr_read_def split: if_splits)

lemma deserialize_serialize:
  assumes "attrs_sorted m" "list_all attr_writable m" "no_escape junk m"
  shows "deserialize junk (serialize m) = List.map_filter (attr_read junk) m"
proof -
  have "fold (deserialize_token junk) (map attr_token xs) ys = ys @ List.map_filter (attr_read junk) xs"
    if "attrs_sorted xs" "\<forall>y \<in> set ys. \<forall>x \<in> set xs. string_less (fst y) (fst x)" "list_all attr_writable xs" "no_escape junk xs" for xs ys
    using that
  proof (induction xs arbitrary: ys)
    case (Cons kv xs)
    have ne: "pairs (fst kv @ fst (snd kv)) = 0 \<or> (\<forall>i. junk i \<noteq> 1)" "no_escape junk xs"
      using Cons.prems(4) by (auto simp: no_escape_def)
    have xs: "attrs_sorted xs" "\<forall>x \<in> set xs. string_less (fst kv) (fst x)"
      using Cons.prems(1) by (simp_all add: attrs_sorted_def)
    have token: "deserialize_token junk (attr_token kv) ys = (case attr_read junk kv of None \<Rightarrow> ys | Some (n, v) \<Rightarrow> attr_insert n v ys)"
      using deserialize_token_read [OF _ ne(1)] Cons.prems(3) by simp
    show ?case
    proof (cases "attr_read junk kv")
      case None
      then show ?thesis using Cons.IH [OF xs(1) _ _ ne(2), of ys] Cons.prems(2,3) token by (simp add: map_filter_simps)
    next
      case (Some u)
      then have u: "fst u = fst kv" by (rule attr_read_name)
      then have "attr_insert (fst u) (snd u) ys = ys @ [u]" using attr_insert_last [of ys "fst u" "snd u"] Cons.prems(2) by (cases u) simp
      moreover have "\<forall>y \<in> set (ys @ [u]). \<forall>x \<in> set xs. string_less (fst y) (fst x)" using Cons.prems(2) xs(2) u by auto
      ultimately show ?thesis
        using Cons.IH [OF xs(1) _ _ ne(2), of "ys @ [u]"] Cons.prems(3) token Some
        by (cases u) (simp add: map_filter_simps)
    qed
  qed (simp add: map_filter_simps)
  from this [of m "[]"] show ?thesis using assms by (simp add: deserialize_def serialize_split)
qed

lemma deserialize_plain:
  assumes "attrs_sorted m" "list_all attr_plain m"
  shows "deserialize junk (serialize m) = m"
proof -
  have "list_all attr_writable m" "no_escape junk m"
    using assms(2) attr_plain_read(1,2) by (auto simp: list_all_iff no_escape_def)
  moreover have "List.map_filter (attr_read junk) m = m"
    using assms(2) by (induction m) (simp_all add: map_filter_simps attr_plain_read(3))
  ultimately show ?thesis using deserialize_serialize [OF assms(1)] by simp
qed

text \<open>What is read of one name.\<close>

lemma map_of_read:
  assumes "attrs_sorted m"
  shows "map_of (List.map_filter (attr_read junk) m) k =
    (case map_of m k of None \<Rightarrow> None | Some v \<Rightarrow> map_option snd (attr_read junk (k, v)))"
  using assms
proof (induction m)
  case (Cons kv m)
  obtain k' v' where kv: "kv = (k', v')" by (cases kv)
  have m: "attrs_sorted m" "k' \<notin> fst ` set m"
    using Cons.prems string_less_irrefl by (force simp: attrs_sorted_def kv)+
  then have "map_of m k' = None" by (simp add: map_of_eq_None_iff)
  then show ?case
    using Cons.IH [OF m(1)] attr_read_name [of junk "(k', v')"]
    by (cases "attr_read junk (k', v')") (auto simp: kv map_filter_simps)
qed (simp add: map_filter_simps)

lemma serialize_nonempty: "m \<noteq> [] \<Longrightarrow> serialize m \<noteq> []"
proof -
  have e: "out \<noteq> [] \<Longrightarrow> escape t out \<noteq> []" for t out
    by (induction t arbitrary: out) (simp_all add: string_add_char_def)
  have o: "escape [1] out \<noteq> []" for out
    by (simp add: char_less_bytes(1) one_small string_add_char_def)
  have "out \<noteq> [] \<Longrightarrow> serialize_rest m out \<noteq> []" for m out
    by (induction m out rule: serialize_rest.induct) (simp_all add: e o del: escape.simps)
  then show "m \<noteq> [] \<Longrightarrow> serialize m \<noteq> []" by (auto simp: serialize_def e o simp del: escape.simps split: list.split)
qed

end
