(* ===== verification/SessionStore.thy ===== *)
theory SessionStore
  imports SessionRun
begin

text \<open>
  The contract of the virtual functions of a session, what the base class does over it, and that the class over
  memcached keeps it with any server that keeps to its protocol.
\<close>

section \<open>The contract\<close>

text \<open>
  \<open>content\<close> is the text stored for an identifier; attributes are stored as their text (\<open>put\<close>) and got as what is
  read of it (\<open>parse\<close>); \<open>good\<close> holds of the world before and after every call.
\<close>

locale attr_store =
  fixes calls :: "'w session_calls" and good :: "'w \<Rightarrow> bool" and content :: "'w \<Rightarrow> byte list \<Rightarrow> 'c option"
    and put :: "attrs \<Rightarrow> 'c" and parse :: "'c \<Rightarrow> attrs"
    and sid_ok :: "byte list \<Rightarrow> bool" and attrs_ok :: "attrs \<Rightarrow> bool"
  assumes get_law: "good w \<Longrightarrow> sid_ok sid \<Longrightarrow>
      \<exists>w1. sc_get calls sid w = Some ((content w sid \<noteq> None, case content w sid of None \<Rightarrow> [] | Some c \<Rightarrow> parse c), w1) \<and>
        good w1 \<and> content w1 = content w"
    and set_law: "good w \<Longrightarrow> sid_ok sid \<Longrightarrow> attrs_ok a \<Longrightarrow>
      \<exists>w1. sc_set calls sid ttl a w = Some (True, w1) \<and> good w1 \<and>
        (\<forall>s. sid_ok s \<longrightarrow> content w1 s = (if s = sid then Some (put a) else content w s))"
begin

definition attrs_of :: "'w \<Rightarrow> byte list \<Rightarrow> attrs" where
  "attrs_of w sid = (case content w sid of None \<Rightarrow> [] | Some c \<Rightarrow> parse c)"

lemma load_content:
  assumes "good w" "sid_ok (se_sid s)"
  obtains w1 where "load_attrs calls s w = Some (content w (se_sid s) \<noteq> None, s\<lparr>se_attrs := attrs_of w (se_sid s)\<rparr>, w1)"
    "good w1" "content w1 = content w"
proof -
  obtain w1 where "sc_get calls (se_sid s) w = Some ((content w (se_sid s) \<noteq> None, attrs_of w (se_sid s)), w1)"
    "good w1" "content w1 = content w"
    using get_law [OF assms] unfolding attrs_of_def by blast
  then show thesis using that [of w1] by (simp add: load_attrs_def)
qed

lemma save_content:
  assumes "good w" "sid_ok (se_sid s)" "attrs_ok (se_attrs s)"
  shows "\<exists>w1. save_attrs calls s w = Some (True, s\<lparr>se_attrs := [], se_sid_saved := True\<rparr>, w1) \<and> good w1 \<and>
    (\<forall>sid. sid_ok sid \<longrightarrow> content w1 sid = (if sid = se_sid s then Some (put (se_attrs s)) else content w sid))"
proof -
  obtain w1 where w1: "sc_set calls (se_sid s) (se_ttl s) (se_attrs s) w = Some (True, w1)" "good w1"
    "\<forall>sid. sid_ok sid \<longrightarrow> content w1 sid = (if sid = se_sid s then Some (put (se_attrs s)) else content w sid)"
    using set_law [OF assms] by blast
  show ?thesis by (rule exI [of _ w1]) (use w1 in \<open>simp add: save_attrs_def\<close>)
qed

lemma set_stores_old:
  assumes "good w" "sid_ok (se_sid s)" "content w (se_sid s) = Some c" "attrs_ok (parse c)"
  shows "\<exists>s1 w1. session_set calls name v s w = Some (True, s1, w1) \<and> good w1 \<and>
    (\<forall>sid. sid_ok sid \<longrightarrow> content w1 sid = (if sid = se_sid s then Some (put (parse c)) else content w sid))"
proof -
  let ?a = "parse c"
  obtain w1 where w1: "load_attrs calls s w = Some (True, s\<lparr>se_attrs := ?a\<rparr>, w1)" "good w1" "content w1 = content w"
    using load_content [OF assms(1,2)] assms(3) by (auto simp: attrs_of_def)
  let ?s = "s\<lparr>se_attrs := ?a, se_sid_saved := True, se_cache := attr_insert (cstr name) (v, TODO_SET) (se_cache s)\<rparr>"
  obtain w2 where w2: "save_attrs calls ?s w1 = Some (True, ?s\<lparr>se_attrs := [], se_sid_saved := True\<rparr>, w2)" "good w2"
    "\<forall>sid. sid_ok sid \<longrightarrow> content w2 sid = (if sid = se_sid ?s then Some (put (se_attrs ?s)) else content w1 sid)"
    using save_content [OF w1(2), of ?s] assms(2,4) by auto
  then show ?thesis using w1 by (auto simp: session_set_def Let_def)
qed

lemma flush_stores:
  assumes "good w" "sid_ok (se_sid s)" "se_dirty s"
    and "attrs_ok (fold flush_one (se_cache s) (attrs_of w (se_sid s)))"
  shows "\<exists>s1 w1. session_flush calls s w = Some (True, s1, w1) \<and> \<not> se_dirty s1 \<and> se_cache s1 = [] \<and> se_sid s1 = se_sid s \<and> good w1 \<and>
    content w1 (se_sid s) = Some (put (fold flush_one (se_cache s) (attrs_of w (se_sid s))))"
proof -
  let ?s = "s\<lparr>se_dirty := False\<rparr>"
  obtain w1 where w1: "load_attrs calls ?s w = Some (content w (se_sid s) \<noteq> None, ?s\<lparr>se_attrs := attrs_of w (se_sid s)\<rparr>, w1)"
    "good w1" "content w1 = content w"
    using load_content [OF assms(1), of ?s] assms(2) by auto
  define s1 where "s1 = (if content w (se_sid s) \<noteq> None then (?s\<lparr>se_attrs := attrs_of w (se_sid s)\<rparr>)\<lparr>se_sid_saved := True\<rparr>
    else ?s\<lparr>se_attrs := attrs_of w (se_sid s)\<rparr>)"
  define s2 where "s2 = s1\<lparr>se_attrs := fold flush_one (se_cache s1) (se_attrs s1), se_cache := []\<rparr>"
  have s2: "se_sid s2 = se_sid s" "se_attrs s2 = fold flush_one (se_cache s) (attrs_of w (se_sid s))" "\<not> se_dirty s2" "se_cache s2 = []"
    by (simp_all add: s2_def s1_def)
  obtain w2 where "save_attrs calls s2 w1 = Some (True, s2\<lparr>se_attrs := [], se_sid_saved := True\<rparr>, w2)" "good w2"
    "content w2 (se_sid s) = Some (put (se_attrs s2))"
    using save_content [OF w1(2), of s2] assms(2,4) s2 by auto
  moreover have "session_flush calls s w = save_attrs calls s2 w1"
    using assms(3) w1(1) by (simp add: session_flush_def Let_def s2_def s1_def)
  ultimately show ?thesis using s2 by auto
qed

lemma get_buf_content:
  assumes "good w" "sid_ok (se_sid s)"
  shows "\<exists>s1 w1. get_buf calls name s w = Some (map_of (attrs_of w (se_sid s)) (cstr name), s1, w1) \<and>
    good w1 \<and> content w1 = content w"
proof -
  obtain w1 where "load_attrs calls (s\<lparr>se_attrs := []\<rparr>) w =
      Some (content w (se_sid s) \<noteq> None, s\<lparr>se_attrs := attrs_of w (se_sid s)\<rparr>, w1)" "good w1" "content w1 = content w"
    using load_content [OF assms(1), of "s\<lparr>se_attrs := []\<rparr>"] assms(2) by auto
  then show ?thesis by (auto simp: get_buf_def attrs_of_def)
qed

lemma flush_then_get:
  assumes "good w" "sid_ok (se_sid s)" "se_dirty s"
    and "attrs_ok (fold flush_one (se_cache s) (attrs_of w (se_sid s)))"
  shows "\<exists>s1 w1 s2 w2. session_flush calls s w = Some (True, s1, w1) \<and> \<not> se_dirty s1 \<and> se_cache s1 = [] \<and>
    get_buf calls name s1 w1 = Some (map_of (parse (put (fold flush_one (se_cache s) (attrs_of w (se_sid s))))) (cstr name), s2, w2)"
proof -
  obtain s1 w1 where f: "session_flush calls s w = Some (True, s1, w1)" "\<not> se_dirty s1" "se_cache s1 = []" "se_sid s1 = se_sid s" "good w1"
    "content w1 (se_sid s) = Some (put (fold flush_one (se_cache s) (attrs_of w (se_sid s))))"
    using flush_stores [OF assms] by blast
  then have "attrs_of w1 (se_sid s1) = parse (put (fold flush_one (se_cache s) (attrs_of w (se_sid s))))" by (simp add: attrs_of_def)
  moreover obtain s2 w2 where "get_buf calls name s1 w1 = Some (map_of (attrs_of w1 (se_sid s1)) (cstr name), s2, w2)"
    using get_buf_content [OF f(5), of s1 name] f(4) assms(2) by auto
  ultimately show ?thesis using f(1-3) by auto
qed

end

section \<open>What a flush makes of an attribute\<close>

definition flushed :: "attrs \<Rightarrow> attrs \<Rightarrow> byte list \<Rightarrow> session_string option" where
  "flushed cache old name =
     (case map_of cache name of
        None \<Rightarrow> map_of old name
      | Some v \<Rightarrow> if snd v = TODO_DEL then None else if snd v = TODO_SET \<and> map_of old name = None then Some v else map_of old name)"

lemma map_of_insert: "map_of (attr_insert k v m) = (case map_of m k of None \<Rightarrow> (map_of m)(k \<mapsto> v) | Some _ \<Rightarrow> map_of m)"
  if "attrs_sorted m"
  using that
proof (induction m)
  case (Cons kv m)
  obtain k' v' where kv: "kv = (k', v')" by (cases kv)
  have "map_of m k = None" if "string_less k k'"
  proof -
    have "string_less k' u" if "u \<in> fst ` set m" for u using Cons.prems that by (auto simp: attrs_sorted_def kv)
    then show ?thesis using that string_less_asym by (auto simp: map_of_eq_None_iff)
  qed
  then show ?case using Cons by (auto simp: kv attrs_sorted_def fun_eq_iff string_less_irrefl split: option.splits)
qed simp

lemma erase_sorted: "attrs_sorted m \<Longrightarrow> attrs_sorted (attr_erase k m)"
  by (simp add: attrs_sorted_def attr_erase_def sorted_wrt_filter)

lemma map_of_erase: "map_of (attr_erase k m) = (map_of m)(k := None)"
  by (induction m) (auto simp: attr_erase_def fun_eq_iff)

lemma flush_one_sorted: "attrs_sorted m \<Longrightarrow> attrs_sorted (flush_one kv m)"
  by (simp add: flush_one_def insert_sorted erase_sorted split: option.split)

lemma fold_flush_sorted: "attrs_sorted m \<Longrightarrow> attrs_sorted (fold flush_one c m)"
  by (induction c arbitrary: m) (simp_all add: flush_one_sorted)

lemma map_of_flush_one:
  assumes "attrs_sorted m"
  shows "map_of (flush_one (k, v) m) = (map_of m)(k := flushed [(k, v)] m k)"
  using map_of_insert [OF assms, of k v] map_of_erase [of k m]
  by (auto simp: flush_one_def flushed_def fun_eq_iff split: option.splits)

lemma map_of_flushed:
  assumes "attrs_sorted old" "distinct (map fst cache)"
  shows "map_of (fold flush_one cache old) name = flushed cache old name"
  using assms
proof (induction cache arbitrary: old)
  case (Cons kv cache)
  obtain k v where kv: "kv = (k, v)" by (cases kv)
  have "map_of cache k = None" using Cons.prems(2) by (auto simp: kv map_of_eq_None_iff)
  then show ?case
    using Cons.IH [OF flush_one_sorted [OF Cons.prems(1)]] Cons.prems(2) map_of_flush_one [OF Cons.prems(1), of k v]
    by (auto simp: kv flushed_def split: option.splits)
qed (simp add: flushed_def)

end
