(* ===== verification/SessionCache.thy ===== *)
theory SessionCache
  imports SessionStore
begin

text \<open>
  What a server of memcached promises, that the sessions kept there keep the contract of the virtual functions, and
  a server that keeps the promise.
\<close>

section \<open>The promise of the server\<close>

text \<open>\<open>pending\<close> is what has been sent and not read; \<open>stored\<close> is the value of a key with its flags.\<close>

definition get_reply :: "byte list \<Rightarrow> (u16 \<times> byte list) option \<Rightarrow> byte list" where
  "get_reply k v =
     (case v of None \<Rightarrow> END @ crlf | Some (f, d) \<Rightarrow> value_line k f (length d) @ crlf @ d @ value_end)"

locale memcached =
  fixes net :: "'w mc_net" and pending :: "'w \<Rightarrow> byte list" and stored :: "'w \<Rightarrow> byte list \<Rightarrow> (u16 \<times> byte list) option"
  assumes reads: "mc_net_ok net pending stored"
    and asked: "list_all graphic k \<Longrightarrow> k \<noteq> [] \<Longrightarrow>
      \<exists>w1. mn_write net (get_line k) w = (True, w1) \<and> stored w1 = stored w \<and> pending w1 = pending w @ get_reply k (stored w k)"
    and told: "list_all graphic k \<Longrightarrow> k \<noteq> [] \<Longrightarrow> length d < 2 ^ 31 \<Longrightarrow>
      \<exists>w1. mn_write net (set_line k f t (length d) @ d @ crlf) w = (True, w1) \<and> stored w1 = (stored w)(k \<mapsto> (f, d)) \<and>
        pending w1 = pending w @ STORED @ crlf"

text \<open>The state between two calls of the client, and the text stored for a session in it.\<close>

definition ms_good :: "('w \<Rightarrow> byte list) \<Rightarrow> ('w \<Rightarrow> byte list \<Rightarrow> (u16 \<times> byte list) option) \<Rightarrow> memcache \<times> 'w \<Rightarrow> bool" where
  "ms_good pending stored mw \<longleftrightarrow> mc_ok (fst mw) \<and> mm_opened (fst mw) \<and> mm_encode_key (fst mw) \<and> pending (snd mw) = [] \<and>
     (\<forall>k f d. stored (snd mw) k = Some (f, d) \<longrightarrow> d \<noteq> [] \<and> length d < 2 ^ 31)"

definition ms_text :: "('w \<Rightarrow> byte list \<Rightarrow> (u16 \<times> byte list) option) \<Rightarrow> memcache \<times> 'w \<Rightarrow> byte list \<Rightarrow> byte list option" where
  "ms_text stored mw sid = map_option snd (stored (snd mw) (key_bytes (fst mw) sid))"

definition ms_sid_ok :: "byte list \<Rightarrow> bool" where
  "ms_sid_ok sid \<longleftrightarrow> sid \<noteq> [] \<and> no_nul sid \<and> length sid < 2 ^ 31"

definition ms_attrs_ok :: "attrs \<Rightarrow> bool" where
  "ms_attrs_ok a \<longleftrightarrow> a \<noteq> [] \<and> length (serialize a) < 2 ^ 31"

lemma same_key_bytes: "same_key mm1 mm \<Longrightarrow> key_bytes mm1 k = key_bytes mm k"
  by (simp add: same_key_def key_bytes_def)

lemma encoded_keys_inj: "mm_encode_key mm \<Longrightarrow> key_bytes mm a = key_bytes mm b \<longleftrightarrow> a = b"
  using word_text_inj(1) [of a "[]" b "[]"] by (auto simp: key_bytes_def)

context memcached
begin

lemma ms_get:
  assumes "ms_good pending stored mw" "ms_sid_ok sid"
  shows "\<exists>mw1. ms_get_attrs net junk sid mw = Some ((ms_text stored mw sid \<noteq> None,
      case ms_text stored mw sid of None \<Rightarrow> [] | Some d \<Rightarrow> deserialize junk d), mw1) \<and>
    ms_good pending stored mw1 \<and> ms_text stored mw1 = ms_text stored mw"
proof -
  obtain mm w where mw: "mw = (mm, w)" by (cases mw)
  let ?k = "key_bytes mm sid"
  have good: "mc_ok mm" "mm_opened mm" "mm_encode_key mm" "pending w = []"
    "\<And>k f d. stored w k = Some (f, d) \<Longrightarrow> d \<noteq> [] \<and> length d < 2 ^ 31"
    using assms(1) by (auto simp: ms_good_def mw)
  have sid: "key_fits mm sid" "cstr sid = sid" "sid \<noteq> []" using assms(2) by (simp_all add: ms_sid_ok_def key_fits_def)
  have k: "list_all graphic ?k" "?k \<noteq> []" using key_bytes_graphic [OF good(1)] key_bytes_nonempty [OF sid(1)] by auto
  obtain w1 where w1: "mn_write net (get_line ?k) w = (True, w1)" "stored w1 = stored w" "pending w1 = get_reply ?k (stored w ?k)"
    using asked [OF k, of w] good(4) by auto
  obtain ok dat flags mm2 w2 where get: "mc_get net sid mm w = Some ((ok, dat, flags), mm2, w2)" "ok = (stored w ?k \<noteq> None)"
    "ok \<Longrightarrow> \<exists>f. stored w ?k = Some (f, dat)" and kept: "mc_ok mm2" "mm_opened mm2" "same_key mm2 mm" "pending w2 = []" "stored w2 = stored w"
  proof (cases "stored w ?k")
    case None
    then have "pending w1 = END @ crlf @ []" using w1(3) by (simp add: get_reply_def)
    from mc_get_none [OF reads good(1,2) sid(1) w1(1) this] obtain mm1 w2
      where "mc_get net sid mm w = Some ((False, [], None), mm1, w2)" "mc_ok mm1" "mm_opened mm1" "same_key mm1 mm"
        "pending w2 = []" "stored w2 = stored w1" by blast
    then show thesis using None w1(2) that [of False "[]" None mm1 w2] by simp
  next
    case (Some v)
    obtain f d where v: "v = (f, d)" by (cases v)
    have d: "d \<noteq> []" "length d < 2 ^ 31" using good(5) Some v by auto
    have "pending w1 = value_line ?k f (length d) @ crlf @ d @ value_end @ []"
      using w1(3) Some v by (simp add: get_reply_def)
    from mc_get_value [OF reads good(1,2) sid(1) w1(1) this k d(2)] show thesis using Some v d(1) w1(2) that by auto
  qed
  have "ms_good pending stored (mm2, w2)" "ms_text stored (mm2, w2) = ms_text stored mw"
    using kept good(3,5) same_key_bytes [OF kept(3)] by (auto simp: ms_good_def ms_text_def mw same_key_def fun_eq_iff)
  moreover have "ms_get_attrs net junk sid mw = Some ((ms_text stored mw sid \<noteq> None,
      case ms_text stored mw sid of None \<Rightarrow> [] | Some d \<Rightarrow> deserialize junk d), (mm2, w2))"
    using get sid by (cases "stored w ?k") (auto simp: ms_get_attrs_def mw ms_text_def)
  ultimately show ?thesis by blast
qed

lemma ms_set:
  assumes "ms_good pending stored mw" "ms_sid_ok sid" "ms_attrs_ok a"
  shows "\<exists>mw1. ms_set_attrs net sid ttl a mw = Some (True, mw1) \<and> ms_good pending stored mw1 \<and>
    (\<forall>s. ms_sid_ok s \<longrightarrow> ms_text stored mw1 s = (if s = sid then Some (serialize a) else ms_text stored mw s))"
proof -
  obtain mm w where mw: "mw = (mm, w)" by (cases mw)
  let ?k = "key_bytes mm sid"
  have good: "mc_ok mm" "mm_opened mm" "mm_encode_key mm" "pending w = []"
    "\<And>k f d. stored w k = Some (f, d) \<Longrightarrow> d \<noteq> [] \<and> length d < 2 ^ 31"
    using assms(1) by (auto simp: ms_good_def mw)
  have sid: "key_fits mm sid" "cstr sid = sid" "sid \<noteq> []" using assms(2) by (simp_all add: ms_sid_ok_def key_fits_def)
  have k: "list_all graphic ?k" "?k \<noteq> []" using key_bytes_graphic [OF good(1)] key_bytes_nonempty [OF sid(1)] by auto
  have a: "serialize a \<noteq> []" "length (serialize a) < 2 ^ 31"
    using assms(3) serialize_nonempty by (auto simp: ms_attrs_ok_def)
  obtain w1 where w1: "mn_write net (set_line ?k 0 ttl (length (serialize a)) @ serialize a @ crlf) w = (True, w1)"
    "stored w1 = (stored w)(?k \<mapsto> (0, serialize a))" "pending w1 = STORED @ crlf @ []"
    using told [OF k a(2), of 0 ttl w] good(4) by auto
  from mc_set_stored [OF reads good(1,2) sid(1) w1(1,3)]
  obtain mm2 w2 where set: "mc_set net sid (serialize a) ttl 0 mm w = Some (True, mm2, w2)"
    and kept: "mc_ok mm2" "mm_opened mm2" "same_key mm2 mm" "pending w2 = []" "stored w2 = (stored w)(?k \<mapsto> (0, serialize a))"
    using w1(2) by auto
  have "ms_good pending stored (mm2, w2)"
    using kept good(3,5) a(1,2) by (auto simp: ms_good_def same_key_def split: if_splits)
  moreover have "ms_text stored (mm2, w2) s = (if s = sid then Some (serialize a) else ms_text stored mw s)" for s
    using kept(5) same_key_bytes [OF kept(3)] encoded_keys_inj [OF good(3)] by (simp add: ms_text_def mw)
  moreover have "ms_set_attrs net sid ttl a mw = Some (True, (mm2, w2))"
    using set sid by (simp add: ms_set_attrs_def mw)
  ultimately show ?thesis by blast
qed

end

sublocale memcached \<subseteq> sess: attr_store "memcache_session net (junk :: nat \<Rightarrow> byte)" "ms_good pending stored"
  "ms_text stored" serialize "deserialize junk" ms_sid_ok ms_attrs_ok for junk
  by unfold_locales (use ms_get ms_set in \<open>simp_all add: memcache_session_def\<close>)

context memcached
begin

lemma session_store: "attr_store (memcache_session net junk) (ms_good pending stored) (ms_text stored) serialize (deserialize junk) ms_sid_ok ms_attrs_ok"
  by (rule sess.attr_store_axioms)

end

section \<open>A server\<close>

text \<open>The stored values and what is to be read; it takes requests for one value, and to store one.\<close>

type_synonym mem_world = "(byte list \<rightharpoonup> u16 \<times> byte list) \<times> byte list"

definition mem_request :: "byte list \<Rightarrow> mem_world \<Rightarrow> mem_world" where
  "mem_request req = (\<lambda>(st, p).
     let line = takeWhile (\<lambda>c. c \<noteq> 13) req; body = drop (length line + 2) req in
     case acl_argv_split line [32] of
       [cmd, k] \<Rightarrow> if cmd = [103, 101, 116] then (st, p @ get_reply k (st k)) else (st, p @ ERROR @ crlf)
     | [cmd, k, f, t, n] \<Rightarrow> (st(k \<mapsto> (word_of_int (atoi f), take (nat (atoi n)) body)), p @ STORED @ crlf)
     | _ \<Rightarrow> (st, p @ ERROR @ crlf))"

definition mem_net :: "mem_world mc_net" where
  "mem_net = \<lparr>mn_open = (\<lambda>w. (True, w)), mn_write = (\<lambda>req w. (True, mem_request req w)),
     mn_gets = (\<lambda>(st, p). case list_gets p of None \<Rightarrow> (None, st, p) | Some (l, p) \<Rightarrow> (Some l, st, p)),
     mn_read = (\<lambda>n (st, p). if n \<le> length p then (Some (take n p), st, drop n p) else (None, st, [])),
     mn_close = (\<lambda>(st, _). (st, []))\<rparr>"

lemma line_words:
  assumes "\<forall>t \<in> set ts. list_all graphic t \<and> t \<noteq> []" "list_all graphic t" "t \<noteq> []"
  shows "takeWhile (\<lambda>c. c \<noteq> 13) (concat (map (\<lambda>t. t @ [32]) ts) @ t @ 13 # r) = concat (map (\<lambda>t. t @ [32]) ts) @ t"
    "acl_argv_split (concat (map (\<lambda>t. t @ [32]) ts) @ t) [32] = ts @ [t]"
proof -
  let ?l = "concat (map (\<lambda>t. t @ [32]) ts) @ t"
  have g: "c \<noteq> 0 \<and> c \<noteq> 13" if "c \<in> set ?l" for c
  proof -
    have "c \<in> set t \<or> c = 32 \<or> (\<exists>u \<in> set ts. c \<in> set u)" using that by (auto split: if_splits)
    then have "c = 32 \<or> graphic c" using assms by (auto simp: list_all_iff)
    then show ?thesis using graphicD [of c] by auto
  qed
  have "takeWhile (\<lambda>c. c \<noteq> 13) (?l @ 13 # r) = ?l" using g by (subst takeWhile_append2) auto
  then show "takeWhile (\<lambda>c. c \<noteq> 13) (concat (map (\<lambda>t. t @ [32]) ts) @ t @ 13 # r) = ?l" by simp
  have "no_nul ?l" unfolding no_nul_def using g by blast
  moreover have "argv_split [32] [] ?l = ts @ [t]"
    using assms
  proof (induction ts)
    case Nil
    then have "set [32] \<inter> set t = {}" using graphic_token(2) by fastforce
    then show ?case using argv_split_last [of "[32]" t "[]"] Nil by simp
  next
    case (Cons u ts)
    then have "set [32] \<inter> set u = {}" using graphic_token(2) [of u] by fastforce
    then show ?case using argv_split_token [of "[32]" u 32 "[]"] Cons by simp
  qed
  ultimately show "acl_argv_split ?l [32] = ts @ [t]" by (simp add: acl_argv_split_def)
qed

lemma mem_request_line:
  assumes "takeWhile (\<lambda>c. c \<noteq> 13) (line @ 13 # 10 # body) = line"
  shows "mem_request (line @ 13 # 10 # body) (st, p) =
     (case acl_argv_split line [32] of
       [cmd, k] \<Rightarrow> if cmd = [103, 101, 116] then (st, p @ get_reply k (st k)) else (st, p @ ERROR @ crlf)
     | [cmd, k, f, t, n] \<Rightarrow> (st(k \<mapsto> (word_of_int (atoi f), take (nat (atoi n)) body)), p @ STORED @ crlf)
     | _ \<Rightarrow> (st, p @ ERROR @ crlf))"
proof -
  have "drop (length line + 2) (line @ 13 # 10 # body) = body" by simp
  then show ?thesis unfolding mem_request_def prod.case Let_def assms by (rule ssubst) (rule refl)
qed

interpretation mem: memcached mem_net snd fst
proof
  have "list_gets (line @ crlf @ rest) = Some (line, rest)" if "clean_line line" for line rest
    using gets_okD [OF list_gets_ok refl that] by metis
  then show "mc_net_ok mem_net snd fst"
    by (auto simp: mc_net_ok_def mem_net_def)
  fix k d :: "byte list" and w :: mem_world and f :: u16 and t :: int
  assume k: "list_all graphic k" "k \<noteq> []"
  obtain st p where w: "w = (st, p)" by (cases w)
  have cs: "cstr k = k" using graphic_token(5) [OF k(1)] .
  have "mem_request (get_line k) w = (st, p @ get_reply k (st k))"
    using line_words(1) [of "[[103, 101, 116]]" k "[10]"] line_words(2) [of "[[103, 101, 116]]" k] k words_graphic(1)
    by (simp add: mem_request_def w get_line_def cs)
  then show "\<exists>w1. mn_write mem_net (get_line k) w = (True, w1) \<and> fst w1 = fst w \<and> snd w1 = snd w @ get_reply k (fst w k)"
    by (simp add: mem_net_def w)
  assume d: "length d < 2 ^ 31"
  let ?f = "decimal (unat f)" and ?t = "decimal_int (to_int t)"
  have n: "decimal_int (to_int (int (length d))) = decimal (length d)"
    using number_read(1) [OF d] d by (simp add: to_int_def decimal_int_def signed_of_nat signed_take_bit_int_eq_self)
  let ?line = "[115, 101, 116] @ 32 # k @ 32 # ?f @ 32 # ?t @ 32 # decimal (length d)"
  have line: "set_line k f t (length d) @ d @ crlf = ?line @ 13 # 10 # d @ crlf"
    by (simp add: set_line_def cs n)
  have l: "takeWhile (\<lambda>c. c \<noteq> 13) (?line @ 13 # 10 # d @ crlf) = ?line" "acl_argv_split ?line [32] = [[115, 101, 116], k, ?f, ?t, decimal (length d)]"
    using line_words(1) [of "[[115, 101, 116], k, ?f, ?t]" "decimal (length d)" "10 # d @ crlf"]
      line_words(2) [of "[[115, 101, 116], k, ?f, ?t]" "decimal (length d)"] k words_graphic(2)
      decimal_graphic decimal_digits(2) decimal_int_graphic by simp_all
  have "mem_request (set_line k f t (length d) @ d @ crlf) w = (st(k \<mapsto> (f, d)), p @ STORED @ crlf)"
    using unsigned_less [where 'a = nat and w = f]
    unfolding line w mem_request_line [OF l(1)] l(2) by (simp add: atoi_decimal [OF d] number_read(2))
  then show "\<exists>w1. mn_write mem_net (set_line k f t (length d) @ d @ crlf) w = (True, w1) \<and>
      fst w1 = (fst w)(k \<mapsto> (f, d)) \<and> snd w1 = snd w @ STORED @ crlf"
    by (simp add: mem_net_def w)
qed

end
