(* ===== verification/SessionProperties.thy ===== *)
theory SessionProperties
  imports SessionCache
begin

text \<open>
  What holds of sessions: the text of their attributes, and the calls of a session that memcached keeps.
\<close>

section \<open>The text of the attributes\<close>

text \<open>C36: the text the attributes of a session are stored as is read back thus, for any names without a zero or a byte 1
  and any values, if no byte is 0xC0 or 0xC9 (written as a NUL and as the separator): an attribute with a byte of
  0x80 or more in its name or value is lost; of the others the value loses its zeros and gets behind it, for each byte
  below 0x10 in the name or the value, one byte of the memory behind the token (NULs left out; no_escape: none of these
  bytes is 1); and an attribute whose value is then empty is lost. In particular a text of bytes from 0x10 to 0x7F is read
  back as it was written (attr_plain_read).
\<close>

theorem session_text_read_back:
  assumes "attrs_sorted m" "list_all attr_writable m" "no_escape junk m"
  shows "deserialize junk (serialize m) = List.map_filter (attr_read junk) m"
  by (rule deserialize_serialize [OF assms])

definition four_attrs :: attrs where
  "four_attrs = [([97, 98], [0x41], TODO_SET), ([98], [0xE4, 0xB8], TODO_SET), ([99], [10, 0x20, 10], TODO_SET), ([100], [], TODO_SET)]"

theorem session_text_read_back_witness:
  "deserialize (\<lambda>_. 7) (serialize four_attrs) = [([97, 98], [0x41], TODO_SET), ([99], [10, 0x20, 10, 7, 7], TODO_SET)]"
proof -
  have "attrs_sorted four_attrs" "list_all attr_writable four_attrs" "no_escape (\<lambda>_. 7) four_attrs"
    by (simp_all add: four_attrs_def attrs_sorted_def attr_writable_def no_escape_def)
  moreover have "List.map_filter (attr_read (\<lambda>_. 7)) four_attrs = [([97, 98], [0x41], TODO_SET), ([99], [10, 0x20, 10, 7, 7], TODO_SET)]"
    by (simp add: four_attrs_def map_filter_simps attr_read_def attr_value_read_def low_def pairs_def upt_rec)
  ultimately show ?thesis using session_text_read_back [of four_attrs "\<lambda>_. 7"] by simp
qed

text \<open>C37: a token is read past its end: of the memory behind its NUL, one byte is taken into the result for each byte
  of the text, but the first, that was written as two.
\<close>

theorem unescape_reads_past_token:
  assumes "ascii s" "\<forall>i. junk i \<noteq> 1"
  shows "unescape_token junk (escape s []) = (True, s @ filter (\<lambda>c. c \<noteq> 0) (map junk [0..<pairs s - 1]))"
proof -
  have "c + 0x40 \<noteq> 0" if "c \<in> set s" for c using that assms(1) unfolding ascii_def by (auto simp: ascii_shift)
  then have "escape s [] = esc_text s" using escape_text [of s "[]"] by force
  then show ?thesis using unescape_past_end [of s junk] ascii_low [OF assms(1)] assms(2) by (simp add: past_end_def)
qed

theorem unescape_reads_past_token_witness:
  "unescape_token (\<lambda>_. 0x58) (escape [97, 10, 98, 13, 10] []) = (True, [97, 10, 98, 13, 10, 0x58, 0x58])"
proof -
  have "ascii [97, 10, 98, 13, 10]" by (simp add: ascii_def)
  moreover have "[0..<pairs [97, 10, 98, 13, 10] - 1] = [0, 1]" by (simp add: pairs_def upt_rec)
  ultimately show ?thesis using unescape_reads_past_token [of "[97, 10, 98, 13, 10]" "\<lambda>_. 0x58"] by simp
qed

section \<open>The calls of a session\<close>






text \<open>A text with an attribute whose value has a byte of 0x80 or more loses it when another attribute is set.\<close>

lemma set_erases_high:
  "serialize (deserialize (\<lambda>_. 0) (serialize [([97], [98], TODO_SET), ([99], [0xE4], TODO_SET)])) = serialize [([97], [98], TODO_SET)]"
  by code_simp



end
