(* ===== verification/Bitmap.thy ===== *)
theory Bitmap
  imports AclPrelude "HOL-Library.Monad_Syntax"
begin

text \<open>
  The set of small numbers of \<^verbatim>\<open>stdlib/bitmap.cpp\<close> as a bitmap with a count, and that it refines a finite set.
  An access of the array outside its bounds, and an assertion that fails, is \<^const>\<open>None\<close>.
\<close>

section \<open>The bitmap\<close>

record bitmap =
  bm_bytes :: "byte list"
  bm_size :: u64
  bm_count :: u64

definition bm_space_for :: "u64 \<Rightarrow> u64" where
  "bm_space_for n = (n + 7) div 8"

definition bm_read :: "byte list \<Rightarrow> nat \<Rightarrow> byte option" where
  "bm_read bmp i = (if i < length bmp then Some (bmp ! i) else None)"

text \<open>\<open>(bmp_[n / 8] >> n % 8) & 1\<close>\<close>

definition bm_bit :: "byte list \<Rightarrow> u64 \<Rightarrow> bool option" where
  "bm_bit bmp n = map_option (\<lambda>b. drop_bit (unat (n mod 8)) b AND 1 \<noteq> 0) (bm_read bmp (unat (n div 8)))"

text \<open>The count of the bits below \<open>n\<close>, in the order of the loop.\<close>

primrec recount :: "byte list \<Rightarrow> nat \<Rightarrow> u64 option" where
  "recount bmp 0 = Some 0"
| "recount bmp (Suc n) = do {
     c \<leftarrow> recount bmp n;
     x \<leftarrow> bm_bit bmp (of_nat n);
     Some (if x then c + 1 else c)
   }"

definition bitmap_new :: "u64 \<Rightarrow> bitmap option" where
  "bitmap_new len =
     (if len = 0 then None
      else Some \<lparr>bm_bytes = replicate (unat (bm_space_for len)) 0, bm_size = len, bm_count = 0\<rparr>)"

definition bitmap_of :: "byte list \<Rightarrow> u64 \<Rightarrow> bitmap option" where
  "bitmap_of buf len =
     (if len = 0 \<or> length buf < unat (bm_space_for len) then None
      else do {
        let bmp = take (unat (bm_space_for len)) buf;
        c \<leftarrow> recount bmp (unat len);
        Some \<lparr>bm_bytes = bmp, bm_size = len, bm_count = c\<rparr>
      })"

definition bit_isset :: "u64 \<Rightarrow> bitmap \<Rightarrow> bool option" where
  "bit_isset n b = (if n < bm_size b then bm_bit (bm_bytes b) n else Some False)"

text \<open>Both write only where \<open>bit_isset\<close> has read.\<close>

definition bm_set_bit :: "u64 \<Rightarrow> bitmap \<Rightarrow> (bool \<times> bitmap) option" where
  "bm_set_bit n b =
     (if \<not> n < bm_size b then Some (False, b)
      else do {
        x \<leftarrow> bit_isset n b;
        let i = unat (n div 8);
        let t = push_bit (unat (n mod 8)) 1;
        Some (if x then (False, b)
              else (True, b\<lparr>bm_bytes := (bm_bytes b)[i := (bm_bytes b ! i) OR t], bm_count := bm_count b + 1\<rparr>))
      })"

definition bm_unset_bit :: "u64 \<Rightarrow> bitmap \<Rightarrow> (bool \<times> bitmap) option" where
  "bm_unset_bit n b = do {
     x \<leftarrow> bit_isset n b;
     let i = unat (n div 8);
        let t = push_bit (unat (n mod 8)) 1;
     Some (if \<not> x then (False, b)
           else (True, b\<lparr>bm_bytes := (bm_bytes b)[i := (bm_bytes b ! i) AND NOT t], bm_count := bm_count b - 1\<rparr>))
   }"

definition bm_space :: "bitmap \<Rightarrow> u64" where
  "bm_space b = bm_space_for (bm_size b)"

text \<open>What is written into the buffer, if anything, and the value returned.\<close>

definition tobuf :: "u64 \<Rightarrow> bitmap \<Rightarrow> byte list option \<times> u64" where
  "tobuf len b = (if bm_space b \<le> len then (Some (bm_bytes b), bm_size b) else (None, bm_size b))"

definition frombuf :: "byte list \<Rightarrow> bitmap \<Rightarrow> (bool \<times> bitmap) option" where
  "frombuf buf b =
     (if bm_space b \<le> of_nat (length buf) then do {
        let bmp = take (unat (bm_space b)) buf;
        c \<leftarrow> recount bmp (unat (bm_size b));
        Some (True, b\<lparr>bm_bytes := bmp, bm_count := c\<rparr>)
      }
      else Some (False, b))"

definition bm_reset :: "bitmap \<Rightarrow> bitmap" where
  "bm_reset b = b\<lparr>bm_bytes := replicate (unat (bm_space b)) 0, bm_count := 0\<rparr>"

definition bm_full :: "bitmap \<Rightarrow> bool" where
  "bm_full b \<longleftrightarrow> bm_size b = bm_count b"

section \<open>The set\<close>

definition bits :: "byte list \<Rightarrow> nat \<Rightarrow> nat set" where
  "bits bmp n = {i. i < n \<and> bit (bmp ! (i div 8)) (i mod 8)}"

definition bm_elems :: "bitmap \<Rightarrow> nat set" where
  "bm_elems b = bits (bm_bytes b) (unat (bm_size b))"

definition bitmap_ok :: "bitmap \<Rightarrow> bool" where
  "bitmap_ok b \<longleftrightarrow> bm_size b \<le> - 8 \<and> length (bm_bytes b) = unat (bm_space b) \<and> unat (bm_count b) = card (bm_elems b)"

lemma finite_bits: "finite (bits bmp n)"
  by (rule finite_subset [of _ "{..<n}"]) (auto simp: bits_def)

lemma card_bits: "card (bits bmp n) \<le> n"
  using card_mono [of "{..<n}" "bits bmp n"] by (auto simp: bits_def subset_iff)

lemma u64_div_mod: "unat ((n :: u64) div 8) = unat n div 8" "unat (n mod 8) = unat n mod 8"
  by (simp_all add: unat_div unat_mod)

lemma space_bytes: "n \<le> - 8 \<Longrightarrow> unat (bm_space_for n) = (unat n + 7) div 8"
proof -
  assume "n \<le> - 8"
  then have "unat n \<le> unat (- 8 :: u64)" by (simp add: word_le_nat_alt)
  then have "unat (n + 7) = unat n + 7" by (subst unat_add_lem [THEN iffD1]) simp_all
  then show ?thesis by (simp add: bm_space_for_def u64_div_mod)
qed

lemma byte_bit: "drop_bit k (b :: byte) AND 1 \<noteq> 0 \<longleftrightarrow> bit b k"
  by (simp add: and_one_eq bit_iff_odd_drop_bit mod_2_eq_odd)

lemma bm_bit_in: "unat n div 8 < length bmp \<Longrightarrow> bm_bit bmp n = Some (bit (bmp ! (unat n div 8)) (unat n mod 8))"
  by (simp add: bm_bit_def bm_read_def u64_div_mod byte_bit)

lemma bits_Suc: "bits bmp (Suc n) = (if bit (bmp ! (n div 8)) (n mod 8) then insert n (bits bmp n) else bits bmp n)"
  by (auto simp: bits_def less_Suc_eq)

lemma recount_card:
  "n < 2 ^ 64 \<Longrightarrow> (n + 7) div 8 \<le> length bmp \<Longrightarrow> recount bmp n = Some (of_nat (card (bits bmp n)))"
proof (induction n)
  case (Suc n)
  have "n div 8 < length bmp" using Suc.prems(2) by linarith
  then have "bm_bit bmp (of_nat n) = Some (bit (bmp ! (n div 8)) (n mod 8))"
    using Suc.prems(1) bm_bit_in [of "of_nat n" bmp] by (simp add: unat_of_nat take_bit_nat_eq_self)
  moreover have "n \<notin> bits bmp n" by (simp add: bits_def)
  moreover have "(n + 7) div 8 \<le> length bmp" using Suc.prems(2) by linarith
  ultimately show ?case using Suc finite_bits by (simp add: bits_Suc)
qed (simp add: bits_def)

lemma index_in: "bitmap_ok b \<Longrightarrow> n < bm_size b \<Longrightarrow> unat n div 8 < length (bm_bytes b) \<and> unat n < unat (bm_size b)"
  using space_bytes [of "bm_size b"] by (auto simp: bitmap_ok_def bm_space_def word_less_nat_alt)

lemma isset_elem: "bitmap_ok b \<Longrightarrow> bit_isset n b = Some (unat n \<in> bm_elems b)"
  using index_in [of b n] bm_bit_in [of n "bm_bytes b"]
  by (auto simp: bit_isset_def bm_elems_def bits_def word_less_nat_alt)

text \<open>Changing one bit changes one number of the set.\<close>

lemma bits_update:
  assumes "k div 8 < length bmp" "k < n" "\<And>j. j < 8 \<Longrightarrow> bit v j = (if j = k mod 8 then x else bit (bmp ! (k div 8)) j)"
  shows "bits (bmp[k div 8 := v]) n = (if x then insert k (bits bmp n) else bits bmp n - {k})"
proof -
  have "bit (bmp[k div 8 := v] ! (i div 8)) (i mod 8) = (if i = k then x else bit (bmp ! (i div 8)) (i mod 8))" for i
  proof (cases "i div 8 = k div 8")
    case True
    then have "i = k \<longleftrightarrow> i mod 8 = k mod 8" by (metis div_mult_mod_eq)
    then show ?thesis using True assms(1) assms(3) [of "i mod 8"] by (simp add: nth_list_update)
  next
    case False
    then show ?thesis by auto
  qed
  then show ?thesis using assms(2) by (auto simp: bits_def)
qed

lemma byte_set_bit:
  assumes "j < 8" "k < 8"
  shows "bit ((b :: byte) OR push_bit k 1) j = (if j = k then True else bit b j)"
    "bit (b AND NOT (push_bit k 1)) j = (if j = k then False else bit b j)"
  using assms by (auto simp: bit_or_iff bit_and_iff bit_not_iff bit_push_bit_iff bit_1_iff simp del: push_bit_of_1)

lemma count_room: "bitmap_ok b \<Longrightarrow> card (bm_elems b) < 2 ^ 64 - 1"
proof -
  assume "bitmap_ok b"
  then have "unat (bm_size b) \<le> unat (- 8 :: u64)" by (simp add: bitmap_ok_def word_le_nat_alt)
  then show ?thesis using card_bits [of "bm_bytes b" "unat (bm_size b)"] by (simp add: bm_elems_def)
qed

lemma set_bit_elems:
  assumes "bitmap_ok b"
  shows "\<exists>b1. bm_set_bit n b = Some (n < bm_size b \<and> unat n \<notin> bm_elems b, b1) \<and> bitmap_ok b1 \<and> bm_size b1 = bm_size b \<and>
    bm_elems b1 = (if n < bm_size b then insert (unat n) (bm_elems b) else bm_elems b)"
proof (cases "n < bm_size b \<and> unat n \<notin> bm_elems b")
  case True
  note i = index_in [OF assms conjunct1 [OF True]]
  let ?k = "unat n" and ?bmp = "bm_bytes b"
  let ?b1 = "b\<lparr>bm_bytes := ?bmp[?k div 8 := (?bmp ! (?k div 8)) OR push_bit (?k mod 8) 1], bm_count := bm_count b + 1\<rparr>"
  have e: "bm_elems ?b1 = insert ?k (bm_elems b)"
    using bits_update [of ?k ?bmp "unat (bm_size b)" "(?bmp ! (?k div 8)) OR push_bit (?k mod 8) 1" True] i byte_set_bit(1)
    by (simp add: bm_elems_def)
  have c: "unat (bm_count b + 1) = card (insert ?k (bm_elems b))"
    using True assms count_room [OF assms] finite_bits by (simp add: bitmap_ok_def bm_elems_def unat_add_lem [THEN iffD1])
  have "bitmap_ok ?b1" using assms c unfolding bitmap_ok_def e by (simp add: bm_space_def)
  moreover have "bm_set_bit n b = Some (True, ?b1)"
    using True isset_elem [OF assms] by (simp add: bm_set_bit_def u64_div_mod Let_def)
  ultimately show ?thesis using True e by auto
next
  case False
  then show ?thesis using assms isset_elem [OF assms, of n] by (auto simp: bm_set_bit_def insert_absorb)
qed

lemma unset_bit_elems:
  assumes "bitmap_ok b"
  shows "\<exists>b1. bm_unset_bit n b = Some (unat n \<in> bm_elems b, b1) \<and> bitmap_ok b1 \<and> bm_size b1 = bm_size b \<and>
    bm_elems b1 = bm_elems b - {unat n}"
proof (cases "unat n \<in> bm_elems b")
  case True
  then have "n < bm_size b" by (simp add: bm_elems_def bits_def word_less_nat_alt)
  note i = index_in [OF assms this]
  let ?k = "unat n" and ?bmp = "bm_bytes b"
  let ?b1 = "b\<lparr>bm_bytes := ?bmp[?k div 8 := (?bmp ! (?k div 8)) AND NOT (push_bit (?k mod 8) 1)], bm_count := bm_count b - 1\<rparr>"
  have e: "bm_elems ?b1 = bm_elems b - {?k}"
    using bits_update [of ?k ?bmp "unat (bm_size b)" "(?bmp ! (?k div 8)) AND NOT (push_bit (?k mod 8) 1)" False] i byte_set_bit(2)
    by (simp add: bm_elems_def)
  have "0 < card (bm_elems b)" using True finite_bits by (auto simp: card_gt_0_iff bm_elems_def)
  then have "unat (bm_count b - 1) = card (bm_elems b) - 1"
    using assms by (subst unat_minus_one) (auto simp: bitmap_ok_def)
  then have "unat (bm_count b - 1) = card (bm_elems b - {?k})"
    using True finite_bits by (simp add: bm_elems_def)
  then have "bitmap_ok ?b1" using assms unfolding bitmap_ok_def e by (simp add: bm_space_def)
  moreover have "bm_unset_bit n b = Some (True, ?b1)"
    using True isset_elem [OF assms] by (simp add: bm_unset_bit_def u64_div_mod Let_def)
  ultimately show ?thesis using True e by auto
next
  case False
  then show ?thesis using assms isset_elem [OF assms, of n] by (auto simp: bm_unset_bit_def)
qed

section \<open>Runs\<close>

datatype bm_op = Set_bit u64 | Unset_bit u64 | Test_bit u64 | Reset_bits | From_buf "byte list"

fun bm_step :: "bm_op \<Rightarrow> bitmap \<Rightarrow> (bool \<times> bitmap) option" where
  "bm_step (Set_bit n) b = bm_set_bit n b"
| "bm_step (Unset_bit n) b = bm_unset_bit n b"
| "bm_step (Test_bit n) b = map_option (\<lambda>x. (x, b)) (bit_isset n b)"
| "bm_step Reset_bits b = Some (True, bm_reset b)"
| "bm_step (From_buf buf) b = frombuf buf b"

primrec bm_run :: "bm_op list \<Rightarrow> bitmap \<Rightarrow> (bool list \<times> bitmap) option" where
  "bm_run [] b = Some ([], b)"
| "bm_run (x # xs) b = do {
     (r, b) \<leftarrow> bm_step x b;
     (rs, b) \<leftarrow> bm_run xs b;
     Some (r # rs, b)
   }"

text \<open>The same calls on a set of the numbers below \<open>n\<close>; the length of a buffer is a \<^verbatim>\<open>size_t\<close>.\<close>

fun set_step :: "nat \<Rightarrow> bm_op \<Rightarrow> nat set \<Rightarrow> bool \<times> nat set" where
  "set_step n (Set_bit i) s = (unat i < n \<and> unat i \<notin> s, if unat i < n then insert (unat i) s else s)"
| "set_step n (Unset_bit i) s = (unat i \<in> s, s - {unat i})"
| "set_step n (Test_bit i) s = (unat i \<in> s, s)"
| "set_step n Reset_bits s = (True, {})"
| "set_step n (From_buf buf) s =
     (if (n + 7) div 8 \<le> unat (word_of_nat (length buf) :: u64) then (True, bits buf n) else (False, s))"

primrec set_run :: "nat \<Rightarrow> bm_op list \<Rightarrow> nat set \<Rightarrow> bool list \<times> nat set" where
  "set_run n [] s = ([], s)"
| "set_run n (x # xs) s = (case set_step n x s of (r, s) \<Rightarrow> case set_run n xs s of (rs, s) \<Rightarrow> (r # rs, s))"

lemma zero_bits: "n \<le> 8 * m \<Longrightarrow> bits (replicate m 0) n = {}"
  by (auto simp: bits_def)

lemma empty_bitmap:
  assumes "n \<le> - 8"
  shows "bitmap_ok \<lparr>bm_bytes = replicate (unat (bm_space_for n)) 0, bm_size = n, bm_count = 0\<rparr>"
    "bm_elems \<lparr>bm_bytes = replicate (unat (bm_space_for n)) 0, bm_size = n, bm_count = 0\<rparr> = {}"
  using assms zero_bits [of "unat n" "unat (bm_space_for n)"]
  by (simp_all add: bitmap_ok_def bm_elems_def bm_space_def space_bytes)

lemma bits_take: "n \<le> 8 * m \<Longrightarrow> bits (take m buf) n = bits buf n"
  by (auto simp: bits_def)

lemma frombuf_elems:
  assumes "bitmap_ok b"
  shows "\<exists>b1. frombuf buf b = Some (fst (set_step (unat (bm_size b)) (From_buf buf) (bm_elems b)), b1) \<and> bitmap_ok b1 \<and>
    bm_size b1 = bm_size b \<and> bm_elems b1 = snd (set_step (unat (bm_size b)) (From_buf buf) (bm_elems b))"
proof (cases "bm_space b \<le> of_nat (length buf)")
  case True
  let ?n = "unat (bm_size b)" and ?m = "unat (bm_space b)"
  let ?b1 = "b\<lparr>bm_bytes := take ?m buf, bm_count := of_nat (card (bits (take ?m buf) ?n))\<rparr>"
  have m: "?m = (?n + 7) div 8" using assms space_bytes by (simp add: bitmap_ok_def bm_space_def)
  have le: "?m \<le> unat (word_of_nat (length buf) :: u64)" using True by (simp add: word_le_nat_alt)
  have "unat (word_of_nat (length buf) :: u64) \<le> length buf" by (simp add: unat_of_nat take_bit_nat_eq_self_iff take_bit_nat_less_eq_self)
  then have l: "length (take ?m buf) = ?m" using le by simp
  have n: "?n < 2 ^ 64" using unsigned_less [where 'a = nat and w = "bm_size b"] by simp
  have c: "recount (take ?m buf) ?n = Some (of_nat (card (bits (take ?m buf) ?n)))"
    using recount_card [OF n, of "take ?m buf"] l m by linarith
  have "card (bits (take ?m buf) ?n) < 2 ^ 64" using card_bits [of "take ?m buf" ?n] n by simp
  then have "bitmap_ok ?b1" using assms l
    by (simp add: bitmap_ok_def bm_space_def bm_elems_def unat_of_nat take_bit_nat_eq_self)
  moreover have "bm_elems ?b1 = bits buf ?n" using bits_take [of ?n ?m buf] m by (simp add: bm_elems_def)
  moreover have "frombuf buf b = Some (True, ?b1)" using True c by (simp add: frombuf_def Let_def)
  ultimately show ?thesis using le m by auto
next
  case False
  then have "\<not> (unat (bm_size b) + 7) div 8 \<le> unat (word_of_nat (length buf) :: u64)"
    using assms space_bytes by (simp add: bitmap_ok_def bm_space_def word_le_nat_alt)
  then show ?thesis using False assms by (simp add: frombuf_def)
qed

lemma step_elems:
  assumes "bitmap_ok b"
  shows "\<exists>b1. bm_step x b = Some (fst (set_step (unat (bm_size b)) x (bm_elems b)), b1) \<and> bitmap_ok b1 \<and> bm_size b1 = bm_size b \<and>
    bm_elems b1 = snd (set_step (unat (bm_size b)) x (bm_elems b))"
proof (cases x)
  case (Set_bit n)
  then show ?thesis using set_bit_elems [OF assms, of n] by (auto simp: word_less_nat_alt)
next
  case Reset_bits
  have "bm_reset b = \<lparr>bm_bytes = replicate (unat (bm_space_for (bm_size b))) 0, bm_size = bm_size b, bm_count = 0\<rparr>"
    by (simp add: bm_reset_def bm_space_def)
  then show ?thesis using Reset_bits empty_bitmap [of "bm_size b"] assms by (simp add: bitmap_ok_def)
next
  case (From_buf buf)
  then show ?thesis using frombuf_elems [OF assms, of buf] by simp
qed (use unset_bit_elems [OF assms] isset_elem [OF assms] assms in auto)

lemma run_elems:
  "bitmap_ok b \<Longrightarrow> \<exists>b1. bm_run xs b = Some (fst (set_run (unat (bm_size b)) xs (bm_elems b)), b1) \<and> bitmap_ok b1 \<and>
    bm_size b1 = bm_size b \<and> bm_elems b1 = snd (set_run (unat (bm_size b)) xs (bm_elems b))"
proof (induction xs arbitrary: b)
  case (Cons x xs)
  obtain b1 where b1: "bm_step x b = Some (fst (set_step (unat (bm_size b)) x (bm_elems b)), b1)" "bitmap_ok b1" "bm_size b1 = bm_size b"
    "bm_elems b1 = snd (set_step (unat (bm_size b)) x (bm_elems b))"
    using step_elems [OF Cons.prems] by blast
  then show ?case using Cons.IH [OF b1(2)] by (auto simp: split_beta)
qed simp

text \<open>The bytes of a bitmap give it back.\<close>

lemma bitmap_read_back:
  assumes "bitmap_ok b" "bm_size b \<noteq> 0"
  shows "bitmap_of (bm_bytes b) (bm_size b) = Some b"
proof -
  have "recount (bm_bytes b) (unat (bm_size b)) = Some (of_nat (card (bm_elems b)))"
    using recount_card [of "unat (bm_size b)" "bm_bytes b"] assms(1) space_bytes [of "bm_size b"] unsigned_less [of "bm_size b"]
    by (simp add: bitmap_ok_def bm_space_def bm_elems_def)
  moreover have "card (bm_elems b) = unat (bm_count b)" using assms(1) by (simp add: bitmap_ok_def)
  ultimately show ?thesis using assms by (simp add: bitmap_of_def bitmap_ok_def bm_space_def)
qed

lemma bitmap_full: "bitmap_ok b \<Longrightarrow> bm_full b \<longleftrightarrow> bm_elems b = {..<unat (bm_size b)}"
proof -
  assume ok: "bitmap_ok b"
  have "bm_elems b \<subseteq> {..<unat (bm_size b)}" by (auto simp: bm_elems_def bits_def)
  moreover have "card (bm_elems b) = unat (bm_count b)" using ok by (simp add: bitmap_ok_def)
  ultimately have "bm_elems b = {..<unat (bm_size b)} \<longleftrightarrow> unat (bm_count b) = unat (bm_size b)"
    by (metis card_lessThan card_subset_eq finite_lessThan)
  then show ?thesis unfolding bm_full_def word_unat_eq_iff [of "bm_size b"] by (simp only: eq_commute)
qed

text \<open>C40: after any calls - setting, clearing and testing a bit, reset, and taking over the bits of a buffer -, a bitmap of up to 2 ^ 64 - 8 numbers has answered as a set of the numbers below its size would, its count
  is the number of its elements, it is full when it has them all, and a bitmap made of its bytes is the same again.
\<close>

theorem bitmap_is_set:
  assumes "0 < len" "len \<le> - 8"
  shows "\<exists>b0 b. bitmap_new len = Some b0 \<and> bm_run xs b0 = Some (fst (set_run (unat len) xs {}), b) \<and>
    bm_elems b = snd (set_run (unat len) xs {}) \<and> unat (bm_count b) = card (bm_elems b) \<and>
    (bm_full b \<longleftrightarrow> bm_elems b = {..<unat len}) \<and> bitmap_of (bm_bytes b) len = Some b"
proof -
  let ?b0 = "\<lparr>bm_bytes = replicate (unat (bm_space_for len)) 0, bm_size = len, bm_count = 0\<rparr>"
  have new: "bitmap_new len = Some ?b0" using assms(1) by (simp add: bitmap_new_def)
  note e = empty_bitmap [OF assms(2)]
  obtain b where b: "bm_run xs ?b0 = Some (fst (set_run (unat len) xs {}), b)" "bitmap_ok b" "bm_size b = len"
    "bm_elems b = snd (set_run (unat len) xs {})"
    using run_elems [OF e(1), of xs] unfolding e(2) by auto
  then show ?thesis
    using new bitmap_full [OF b(2)] bitmap_read_back [OF b(2)] assms(1) by (auto simp: bitmap_ok_def)
qed

theorem bitmap_is_set_witness:
  "\<exists>b0 b. bitmap_new 12 = Some b0 \<and> bm_run [Set_bit 3, Set_bit 11, Set_bit 3, Set_bit 12, Unset_bit 3, Test_bit 3, From_buf [1]] b0 =
      Some ([True, True, False, False, True, False, False], b) \<and>
    bm_elems b = {11} \<and> bitmap_of (bm_bytes b) 12 = Some b"
proof -
  have "set_run (unat (12 :: u64)) [Set_bit 3, Set_bit 11, Set_bit 3, Set_bit 12, Unset_bit 3, Test_bit 3, From_buf [1]] {} =
      ([True, True, False, False, True, False, False], {11})"
    by auto
  then show ?thesis
    using bitmap_is_set [of 12 "[Set_bit 3, Set_bit 11, Set_bit 3, Set_bit 12, Unset_bit 3, Test_bit 3, From_buf [1]]"] by auto
qed

text \<open>For the seven greatest sizes the space for the bytes wraps around, and the first bit is set outside of it.\<close>

lemma greatest_sizes_have_no_space:
  "map_option bm_bytes (bitmap_new (- 1)) = Some []" "Option.bind (bitmap_new (- 1)) (bm_set_bit 0) = None"
  by (simp_all add: bitmap_new_def bm_space_for_def bm_set_bit_def bit_isset_def bm_bit_def bm_read_def word_gt_0)

text \<open>The value returned is the number of bits, also when nothing is copied.\<close>

lemma tobuf_value: "snd (tobuf len b) = bm_size b"
  by (simp add: tobuf_def)

end
